(* ===== verification/Prelude.thy ===== *)
theory Prelude
  imports Main "HOL-Library.Word"
begin

text \<open>
  Shared ground of the development: the result and fault types of the model, SQL tables as
  lists of rows with the statements the Go code issues against them, the few string functions
  of the Go standard library that the code calls, and the lemma collections the component
  theories rewrite with.

  \<^item> A fallible Go function returns \<open>error + 'a\<close>; \<open>Inl\<close> is the error return.
  \<^item> A call that leaves the process (an SQL statement, a Redis command, an RPC) can fail. Which
    calls fail is the environment's choice: handlers take a fault plan, a function from
    the call sites of the handler to the driver's error text (\<open>None\<close>: the call succeeds).
\<close>

unbundle bit_operations_syntax

named_theorems table_simps
  \<open>what a lookup sees after a statement\<close>

named_theorems step_defs
  \<open>definitions of the handlers of a component, for case analysis of one step\<close>

type_synonym uid = int
type_synonym conv_id = int
type_synonym 's faults = "'s \<Rightarrow> string option"

text \<open>The business event a service sends to online clients (\<open>EventFrame\<close> in \<open>protocol.proto\<close>).\<close>

record EventFrame =
  ev_type :: string
  ev_uid :: uid
  ev_conv :: conv_id
  ev_online :: bool
  ev_seq :: int

definition no_fault :: "'s faults" where
  "no_fault = (\<lambda>_. None)"

lemma no_fault_apply [simp]: "no_fault s = None"
  by (simp add: no_fault_def)

text \<open>The protocol-level error of the services (\<open>yim.Error{code, msg}\<close>).\<close>

datatype yim_error = YErr (err_code: int) (err_msg: string)

subsection \<open>SQL tables\<close>

text \<open>
  A table is the list of its rows in insertion order; \<open>key\<close> is the column tuple of its primary
  (or unique) key in \<open>scripts/schema.sql\<close>.
\<close>

definition row_get :: "('r \<Rightarrow> 'k) \<Rightarrow> 'r list \<Rightarrow> 'k \<Rightarrow> 'r option" where
  "row_get key t k = find (\<lambda>r. key r = k) t"

definition row_ins_ignore :: "('r \<Rightarrow> 'k) \<Rightarrow> 'r \<Rightarrow> 'r list \<Rightarrow> 'r list" where
  \<comment> \<open>INSERT IGNORE\<close>
  "row_ins_ignore key r t = (if row_get key t (key r) = None then t @ [r] else t)"

definition row_upd :: "('r \<Rightarrow> bool) \<Rightarrow> ('r \<Rightarrow> 'r) \<Rightarrow> 'r list \<Rightarrow> 'r list" where
  \<comment> \<open>UPDATE ... WHERE\<close>
  "row_upd P f t = map (\<lambda>r. if P r then f r else r) t"

definition row_upsert :: "('r \<Rightarrow> 'k) \<Rightarrow> ('r \<Rightarrow> 'r) \<Rightarrow> 'r \<Rightarrow> 'r list \<Rightarrow> 'r list" where
  \<comment> \<open>INSERT ... ON DUPLICATE KEY UPDATE\<close>
  "row_upsert key f r t =
     (if row_get key t (key r) = None then t @ [r] else row_upd (\<lambda>q. key q = key r) f t)"

definition row_del :: "('r \<Rightarrow> bool) \<Rightarrow> 'r list \<Rightarrow> 'r list" where
  \<comment> \<open>DELETE ... WHERE\<close>
  "row_del P t = filter (\<lambda>r. \<not> P r) t"

definition pk_ok :: "('r \<Rightarrow> 'k) \<Rightarrow> 'r list \<Rightarrow> bool" where
  "pk_ok key t \<longleftrightarrow> distinct (map key t)"

lemma row_get_Nil [simp]: "row_get key [] k = None"
  by (simp add: row_get_def)

lemma row_get_Cons [simp]:
  "row_get key (r # t) k = (if key r = k then Some r else row_get key t k)"
  by (simp add: row_get_def)

lemma row_get_append: "row_get key (t @ u) k =
    (case row_get key t k of None \<Rightarrow> row_get key u k | Some r \<Rightarrow> Some r)"
  by (induction t) auto

lemma row_get_None_iff: "row_get key t k = None \<longleftrightarrow> k \<notin> key ` set t"
  by (induction t) auto

lemma row_get_SomeD: "row_get key t k = Some r \<Longrightarrow> r \<in> set t \<and> key r = k"
  by (induction t) (auto split: if_splits)

lemma row_get_pk: "pk_ok key t \<Longrightarrow> r \<in> set t \<Longrightarrow> row_get key t (key r) = Some r"
  by (induction t) (auto simp: pk_ok_def)

lemma row_get_not_None: "row_get key t k \<noteq> None \<longleftrightarrow> k \<in> key ` set t"
  by (induction t) auto

lemma row_get_ins_ignore [table_simps]:
  "row_get key (row_ins_ignore key r t) k =
     (if k = key r then (case row_get key t k of None \<Rightarrow> Some r | Some q \<Rightarrow> Some q)
      else row_get key t k)"
  by (auto simp: row_ins_ignore_def row_get_append split: option.splits)

lemma row_get_upd:
  assumes "\<And>r. key (f r) = key r"
  shows "row_get key (row_upd P f t) k =
     map_option (\<lambda>r. if P r then f r else r) (row_get key t k)"
  using assms by (induction t) (auto simp: row_upd_def)

lemma row_get_upd_key:
  assumes "\<And>r. key (f r) = key r"
  shows "row_get key (row_upd (\<lambda>r. key r = k') f t) k =
     (if k = k' then map_option f (row_get key t k) else row_get key t k)"
  using assms by (induction t) (auto simp: row_upd_def)

lemma row_upsert_same: "(if row_get key t (key r) = None then t @ [r]
     else row_upd (\<lambda>q. key q = key r) f t) = row_upsert key f r t"
  by (simp add: row_upsert_def)

lemma row_get_upsert:
  assumes "\<And>r. key (f r) = key r"
  shows "row_get key (row_upsert key f r t) k =
     (if k = key r then (case row_get key t k of None \<Rightarrow> Some r | Some q \<Rightarrow> Some (f q))
      else row_get key t k)"
  using assms
  by (auto simp: row_upsert_def row_get_append row_get_upd dest!: row_get_SomeD split: option.splits)

lemma row_get_del_key [table_simps]:
  "row_get key (row_del (\<lambda>r. key r = k') t) k = (if k = k' then None else row_get key t k)"
  by (induction t) (auto simp: row_del_def)

lemma set_row_del [simp]: "set (row_del P t) = {r \<in> set t. \<not> P r}"
  by (simp add: row_del_def)

lemma set_row_upd: "set (row_upd P f t) = (\<lambda>r. if P r then f r else r) ` set t"
  by (simp add: row_upd_def)

lemma row_upd_Nil [simp]: "row_upd P f [] = []"
  by (simp add: row_upd_def)

lemma length_row_upd [simp]: "length (row_upd P f t) = length t"
  by (simp add: row_upd_def)

lemma map_key_row_upd: "(\<And>r. key (f r) = key r) \<Longrightarrow> map key (row_upd P f t) = map key t"
  by (simp add: row_upd_def)

lemma pk_ok_Nil [simp]: "pk_ok key []"
  by (simp add: pk_ok_def)

lemma pk_ok_ins_ignore [intro]: "pk_ok key t \<Longrightarrow> pk_ok key (row_ins_ignore key r t)"
  by (auto simp: pk_ok_def row_ins_ignore_def row_get_None_iff)

lemma pk_ok_upd: "pk_ok key t \<Longrightarrow> (\<And>r. key (f r) = key r) \<Longrightarrow> pk_ok key (row_upd P f t)"
  by (simp add: pk_ok_def map_key_row_upd)

lemma pk_ok_upsert:
  "pk_ok key t \<Longrightarrow> (\<And>r. key (f r) = key r) \<Longrightarrow> pk_ok key (row_upsert key f r t)"
  by (auto simp: row_upsert_def pk_ok_upd) (auto simp: pk_ok_def row_get_None_iff)

lemma pk_ok_del [intro]: "pk_ok key t \<Longrightarrow> pk_ok key (row_del P t)"
  by (induction t) (auto simp: pk_ok_def row_del_def)

definition commit :: "string option \<Rightarrow> string option \<Rightarrow> 'db \<Rightarrow> 'db \<Rightarrow> string option \<times> 'db" where
  \<comment> \<open>COMMIT: it may fail and roll back (\<open>fail\<close>), or take effect and lose the reply (\<open>lost\<close>)\<close>
  "commit fail lost old new =
     (case fail of
        Some e \<Rightarrow> (Some e, old)
      | None \<Rightarrow> (case lost of Some e \<Rightarrow> (Some e, new) | None \<Rightarrow> (None, new)))"

lemma commit_cases: "snd (commit f l old new) = old \<or> snd (commit f l old new) = new"
  by (auto simp: commit_def split: option.splits)

lemma commit_ok: "fst (commit f l old new) = None \<Longrightarrow> snd (commit f l old new) = new"
  by (auto simp: commit_def split: option.splits)

lemma commit_no_fault [simp]: "commit None None old new = (None, new)"
  by (simp add: commit_def)

subsection \<open>The interface of a keyed table\<close>

text \<open>
  What the services rely on of a table: lookups after each kind of statement, and that every
  statement keeps the key unique. The laws are proved once for the list representation and
  then interpreted at the key of each table of the schema.
\<close>

locale keyed_rows =
  fixes key :: "'r \<Rightarrow> 'k"
    and lookup :: "'r list \<Rightarrow> 'k \<Rightarrow> 'r option"
    and insert_ignore :: "'r \<Rightarrow> 'r list \<Rightarrow> 'r list"
    and delete_key :: "'k \<Rightarrow> 'r list \<Rightarrow> 'r list"
    and unique :: "'r list \<Rightarrow> bool"
  assumes lookup_empty: "lookup [] k = None"
    and lookup_insert: "lookup (insert_ignore r t) k =
          (if k = key r \<and> lookup t k = None then Some r else lookup t k)"
    and lookup_delete: "lookup (delete_key k' t) k = (if k = k' then None else lookup t k)"
    and lookup_key: "lookup t k = Some r \<Longrightarrow> key r = k"
    and unique_empty: "unique []"
    and unique_insert: "unique t \<Longrightarrow> unique (insert_ignore r t)"
    and unique_delete: "unique t \<Longrightarrow> unique (delete_key k t)"
begin

lemma lookup_insert_present: "lookup (insert_ignore r t) (key r) \<noteq> None"
  by (auto simp: lookup_insert)

lemma insert_keeps: "lookup t k \<noteq> None \<Longrightarrow> lookup (insert_ignore r t) k = lookup t k"
  by (auto simp: lookup_insert)

lemma insert_twice: "lookup (insert_ignore r (insert_ignore r t)) k = lookup (insert_ignore r t) k"
  by (auto simp: lookup_insert)

lemma delete_after_insert: "lookup (delete_key (key r) (insert_ignore r t)) k =
    (if k = key r then None else lookup t k)"
  by (auto simp: lookup_insert lookup_delete)

lemma insert_all_present: "k \<in> key ` set rs \<Longrightarrow> lookup (fold insert_ignore rs t) k \<noteq> None"
proof (induction rs arbitrary: t)
  case Nil
  then show ?case by simp
next
  case (Cons r rs)
  have stays: "lookup t' k \<noteq> None \<Longrightarrow> lookup (fold insert_ignore qs t') k \<noteq> None" for qs t'
    by (induction qs arbitrary: t') (auto simp: insert_keeps lookup_insert)
  show ?case
  proof (cases "k = key r")
    case True
    with lookup_insert_present [of r t] have "lookup (insert_ignore r t) k \<noteq> None" by simp
    then show ?thesis by (simp add: stays)
  next
    case False
    with Cons show ?thesis by simp
  qed
qed

lemma insert_all_keeps: "lookup t k \<noteq> None \<Longrightarrow> lookup (fold insert_ignore rs t) k = lookup t k"
  by (induction rs arbitrary: t) (auto simp: insert_keeps)

lemma insert_all_absent: "k \<notin> key ` set rs \<Longrightarrow> lookup (fold insert_ignore rs t) k = lookup t k"
  by (induction rs arbitrary: t) (auto simp: lookup_insert)

lemma unique_insert_all: "unique t \<Longrightarrow> unique (fold insert_ignore rs t)"
  by (induction rs arbitrary: t) (auto simp: unique_insert)

end

lemma keyed_rows_list:
  "keyed_rows key (row_get key) (row_ins_ignore key) (\<lambda>k. row_del (\<lambda>r. key r = k)) (pk_ok key)"
  by unfold_locales (auto simp: table_simps dest: row_get_SomeD split: option.splits)

subsection \<open>Lists\<close>

fun dedup_on :: "'a list \<Rightarrow> 'a list \<Rightarrow> 'a list" where
  \<comment> \<open>the loop that keeps the first occurrence of each element, given the ones seen\<close>
  "dedup_on seen [] = []"
| "dedup_on seen (x # xs) =
     (if x \<in> set seen then dedup_on seen xs else x # dedup_on (x # seen) xs)"

lemma set_dedup_on: "set (dedup_on seen xs) = set xs - set seen"
  by (induction seen xs rule: dedup_on.induct) auto

lemma distinct_dedup_on: "distinct (dedup_on seen xs)"
  by (induction seen xs rule: dedup_on.induct) (auto simp: set_dedup_on)

lemma dedup_on_distinct: "distinct xs \<Longrightarrow> set xs \<inter> set seen = {} \<Longrightarrow> dedup_on seen xs = xs"
  by (induction seen xs rule: dedup_on.induct) auto

lemma length_dedup_on: "length (dedup_on seen xs) \<le> length xs"
  by (induction seen xs rule: dedup_on.induct) (auto intro: le_SucI)

subsection \<open>Integers\<close>

definition go_mod :: "int \<Rightarrow> int \<Rightarrow> int" where
  \<comment> \<open>Go's \<open>%\<close> truncates towards zero: the sign is the dividend's\<close>
  "go_mod v m = (if v < 0 then - ((- v) mod m) else v mod m)"

lemma go_mod_nonneg: "0 \<le> v \<Longrightarrow> go_mod v m = v mod m"
  by (simp add: go_mod_def)

lemma go_mod_bounds: "0 < m \<Longrightarrow> - m < go_mod v m \<and> go_mod v m < m"
  using pos_mod_sign [of m v] pos_mod_bound [of m v] pos_mod_sign [of m "- v"]
    pos_mod_bound [of m "- v"]
  by (auto simp: go_mod_def simp del: pos_mod_sign pos_mod_bound)

subsection \<open>Strings\<close>

fun has_prefix :: "string \<Rightarrow> string \<Rightarrow> bool" where
  \<comment> \<open>\<open>strings.HasPrefix(s, p)\<close>, prefix first\<close>
  "has_prefix [] s = True"
| "has_prefix (c # p) [] = False"
| "has_prefix (c # p) (d # s) = (c = d \<and> has_prefix p s)"

lemma has_prefix_append [simp]: "has_prefix p (p @ s)"
  by (induction p) auto

lemma has_prefix_iff: "has_prefix p s \<longleftrightarrow> (\<exists>r. s = p @ r)"
  by (induction p s rule: has_prefix.induct) auto

fun split_on :: "char \<Rightarrow> string \<Rightarrow> string list" where
  \<comment> \<open>\<open>strings.Split(s, sep)\<close> for a one-byte separator\<close>
  "split_on c [] = [[]]"
| "split_on c (x # xs) =
     (if x = c then [] # split_on c xs
      else (case split_on c xs of [] \<Rightarrow> [[x]] | w # ws \<Rightarrow> (x # w) # ws))"

lemma split_on_not_Nil [simp]: "split_on c s \<noteq> []"
  by (cases s) (auto split: list.splits)

lemma split_on_no_sep: "c \<notin> set s \<Longrightarrow> split_on c s = [s]"
  by (induction s) auto

lemma split_on_append: "c \<notin> set a \<Longrightarrow> split_on c (a @ c # s) = a # split_on c s"
  by (induction a) auto

definition is_space :: "char \<Rightarrow> bool" where
  \<comment> \<open>the ASCII part of \<open>unicode.IsSpace\<close>\<close>
  "is_space c \<longleftrightarrow> c \<in> {CHR '' '', CHR 0x09, CHR 0x0A, CHR 0x0B, CHR 0x0C, CHR 0x0D}"

definition trim_space :: "string \<Rightarrow> string" where
  "trim_space s = rev (dropWhile is_space (rev (dropWhile is_space s)))"

definition digit_val :: "char \<Rightarrow> int option" where
  "digit_val c = (let n = of_char c :: int in if 48 \<le> n \<and> n \<le> 57 then Some (n - 48) else None)"

fun parse_digits :: "int \<Rightarrow> string \<Rightarrow> int option" where
  "parse_digits acc [] = Some acc"
| "parse_digits acc (c # s) =
     (case digit_val c of None \<Rightarrow> None | Some d \<Rightarrow> parse_digits (acc * 10 + d) s)"

definition parse_int :: "string \<Rightarrow> int option" where
  \<comment> \<open>\<open>strconv.ParseInt(s, 10, 64)\<close>: optional sign, digits, the int64 range\<close>
  "parse_int s =
     (let neg = has_prefix ''-'' s;
          body = (if neg \<or> has_prefix ''+'' s then tl s else s)
      in if body = [] then None
         else case parse_digits 0 body of
             None \<Rightarrow> None
           | Some n \<Rightarrow>
               (let v = (if neg then - n else n)
                in if - (2 ^ 63) \<le> v \<and> v < 2 ^ 63 then Some v else None))"

function nat_str :: "nat \<Rightarrow> string" where
  "nat_str n = (if n < 10 then [char_of (48 + n)] else nat_str (n div 10) @ [char_of (48 + n mod 10)])"
  by pat_completeness auto
termination by (relation "measure id") auto

declare nat_str.simps [simp del]

definition int_str :: "int \<Rightarrow> string" where
  \<comment> \<open>\<open>%d\<close>\<close>
  "int_str v = (if v < 0 then ''-'' @ nat_str (nat (- v)) else nat_str (nat v))"

lemma digit_val_char: "n < 10 \<Longrightarrow> digit_val (char_of (48 + n)) = Some (int n)"
  for n :: nat
proof -
  assume n: "n < 10"
  have "(of_char (char_of (48 + n)) :: int) = int (of_char (char_of (48 + n)))"
    by (simp only: of_nat_of_char)
  also have "\<dots> = int ((48 + n) mod 256)" by (simp only: of_char_of)
  finally have "(of_char (char_of (48 + n)) :: int) = 48 + int n" using n by simp
  with n show ?thesis by (simp add: digit_val_def)
qed

lemma parse_digits_append: "parse_digits a (s @ t) = (case parse_digits a s of None \<Rightarrow> None | Some b \<Rightarrow> parse_digits b t)"
  by (induction a s rule: parse_digits.induct) (auto split: option.splits)

lemma parse_digits_nat_str: "parse_digits 0 (nat_str n) = Some (int n)"
proof (induction n rule: nat_str.induct)
  case (1 n)
  show ?case
  proof (cases "n < 10")
    case True
    then show ?thesis by (simp add: nat_str.simps [of n] digit_val_char)
  next
    case False
    have "10 * (int n div 10) + int n mod 10 = int n" by simp
    with 1 False show ?thesis
      by (simp add: nat_str.simps [of n] parse_digits_append digit_val_char zdiv_int zmod_int mult.commute)
  qed
qed

lemma nat_str_digits: "c \<in> set (nat_str n) \<Longrightarrow> digit_val c \<noteq> None"
  by (induction n rule: nat_str.induct) (subst (asm) (2) nat_str.simps, auto simp: digit_val_char split: if_splits)

lemma nat_str_not_Nil [simp]: "nat_str n \<noteq> []"
  by (simp add: nat_str.simps [of n])

lemma digit_val_sign [simp]: "digit_val CHR ''-'' = None" "digit_val CHR ''+'' = None"
  by (simp_all add: digit_val_def)

lemma parse_int_str: "- (2 ^ 63) \<le> v \<Longrightarrow> v < 2 ^ 63 \<Longrightarrow> parse_int (int_str v) = Some v"
proof -
  assume v: "- (2 ^ 63) \<le> v" "v < 2 ^ 63"
  show ?thesis
  proof (cases "v < 0")
    case True
    with v parse_digits_nat_str [of "nat (- v)"] show ?thesis by (simp add: parse_int_def int_str_def)
  next
    case False
    obtain c s where c: "nat_str (nat v) = c # s" by (cases "nat_str (nat v)") auto
    with nat_str_digits [of c "nat v"] have "digit_val c \<noteq> None" by simp
    then have "c \<noteq> CHR ''-''" "c \<noteq> CHR ''+''" by auto
    with False v c parse_digits_nat_str [of "nat v"] show ?thesis by (auto simp: parse_int_def int_str_def)
  qed
qed

definition is_cont :: "char \<Rightarrow> bool" where
  \<comment> \<open>a UTF-8 continuation byte\<close>
  "is_cont c \<longleftrightarrow> (let n = of_char c :: nat in 128 \<le> n \<and> n < 192)"

definition rune_count :: "string \<Rightarrow> nat" where
  \<comment> \<open>\<open>len([]rune(s))\<close> for a valid UTF-8 \<open>s\<close>: a string is its bytes\<close>
  "rune_count s = length (filter (\<lambda>c. \<not> is_cont c) s)"

fun take_runes :: "nat \<Rightarrow> string \<Rightarrow> string" where
  \<comment> \<open>\<open>string([]rune(s)[:n])\<close> for a valid UTF-8 \<open>s\<close>\<close>
  "take_runes n [] = []"
| "take_runes n (c # s) =
     (if is_cont c then c # take_runes n s
      else case n of 0 \<Rightarrow> [] | Suc m \<Rightarrow> c # take_runes m s)"

lemma rune_count_take: "rune_count (take_runes n s) \<le> n"
  by (induction n s rule: take_runes.induct) (auto simp: rune_count_def split: nat.split)

lemma take_runes_short: "rune_count s \<le> n \<Longrightarrow> take_runes n s = s"
  by (induction n s rule: take_runes.induct) (auto simp: rune_count_def split: nat.splits if_splits)

end
