(* ===== verification/Sharding.thy ===== *)
theory Sharding
  imports Prelude
begin

text \<open>
  Shard routing of the message store (\<open>internal/store/sharding.go\<close>): 1024 logical slots, the
  default slot table, the route of a conversation, overrides written by a migration, and the
  enumeration of the physical shards. \<open>Default\<close> is a package variable; here it is an argument.
\<close>

definition SlotCount :: nat where "SlotCount = 1024"

definition MsgDBCount :: nat where "MsgDBCount = 2"

definition MsgTablePerDB :: nat where "MsgTablePerDB = 4"

datatype MsgShard = MsgShard (DBIndex: nat) (TableIndex: nat)

instantiation MsgShard :: linorder
begin

definition less_eq_MsgShard :: "MsgShard \<Rightarrow> MsgShard \<Rightarrow> bool" where
  "less_eq_MsgShard a b \<longleftrightarrow>
     DBIndex a < DBIndex b \<or> DBIndex a = DBIndex b \<and> TableIndex a \<le> TableIndex b"

definition less_MsgShard :: "MsgShard \<Rightarrow> MsgShard \<Rightarrow> bool" where
  "less_MsgShard a b \<longleftrightarrow>
     DBIndex a < DBIndex b \<or> DBIndex a = DBIndex b \<and> TableIndex a < TableIndex b"

instance
  by standard (auto simp: less_eq_MsgShard_def less_MsgShard_def MsgShard.expand)

end

record SlotTable =
  mapping :: "MsgShard list"
  overrides :: nat

definition default_slot :: "nat \<Rightarrow> MsgShard" where
  "default_slot slot =
     (let groups = MsgDBCount * MsgTablePerDB;
          slotsPerGroup = SlotCount div groups;
          group = slot div slotsPerGroup
      in MsgShard (group mod MsgDBCount) (group div MsgDBCount))"

definition DefaultSlotTable :: SlotTable where
  "DefaultSlotTable = \<lparr>mapping = map default_slot [0..<SlotCount], overrides = 0\<rparr>"

definition go_mod_pos :: "int \<Rightarrow> int \<Rightarrow> int" where
  \<comment> \<open>\<open>mod\<close> of sharding.go: the truncated remainder, lifted into \<open>[0, m)\<close>\<close>
  "go_mod_pos v m = (let r = go_mod v m in if r < 0 then r + m else r)"

definition slot_index :: "conv_id \<Rightarrow> int" where
  "slot_index convID = go_mod_pos convID (int SlotCount)"

definition array_get :: "'a list \<Rightarrow> int \<Rightarrow> 'a option" where
  \<comment> \<open>\<open>a[i]\<close>; \<open>None\<close>: the index is out of range and the runtime panics\<close>
  "array_get a i = (if 0 \<le> i \<and> i < int (length a) then Some (a ! nat i) else None)"

definition checked_RouteMsg :: "SlotTable \<Rightarrow> conv_id \<Rightarrow> MsgShard option" where
  "checked_RouteMsg t convID = array_get (mapping t) (slot_index convID)"

definition slot_of :: "conv_id \<Rightarrow> nat" where
  "slot_of convID = nat (slot_index convID)"

definition RouteMsg :: "SlotTable \<Rightarrow> conv_id \<Rightarrow> MsgShard" where
  \<comment> \<open>\<open>checked_RouteMsg\<close> where it does not panic, which it never does (\<open>checked_RouteMsg_total\<close>)\<close>
  "RouteMsg t convID = mapping t ! slot_of convID"

definition AllMsgShards :: "MsgShard list" where
  "AllMsgShards = concat (map (\<lambda>db. map (MsgShard db) [0..<MsgTablePerDB]) [0..<MsgDBCount])"

definition SetOverride :: "SlotTable \<Rightarrow> int \<Rightarrow> MsgShard \<Rightarrow> SlotTable option" where
  \<comment> \<open>\<open>None\<close>: the index is out of range and the runtime panics\<close>
  "SetOverride t slot s =
     (if 0 \<le> slot \<and> slot < int SlotCount
      then Some (t\<lparr>mapping := (mapping t)[nat slot := s], overrides := overrides t + 1\<rparr>)
      else None)"

definition ConvGene :: "int \<Rightarrow> int" where
  "ConvGene convID = (convID div 2 ^ 10) mod 2 ^ 12"

lemmas shard_consts = SlotCount_def MsgDBCount_def MsgTablePerDB_def

lemma go_mod_pos_eq: "0 < m \<Longrightarrow> go_mod_pos v m = v mod m"
proof -
  assume m: "0 < m"
  show ?thesis
  proof (cases "0 \<le> v")
    case True
    with pos_mod_sign [OF m, of v] show ?thesis
      by (simp add: go_mod_pos_def go_mod_def Let_def)
  next
    case False
    have "v mod m = (if (- v) mod m = 0 then 0 else m - (- v) mod m)"
      using zmod_zminus1_eq_if [of "- v" m] by simp
    with False m show ?thesis
      using pos_mod_bound [OF m, of "- v"] pos_mod_sign [OF m, of "- v"]
      by (auto simp: go_mod_pos_def go_mod_def Let_def)
  qed
qed

lemma slot_of_lt: "slot_of c < SlotCount"
  by (simp add: slot_of_def slot_index_def go_mod_pos_eq shard_consts nat_less_iff)

lemma slot_index_bounds: "0 \<le> slot_index c" "slot_index c < int SlotCount"
  by (simp_all add: slot_index_def go_mod_pos_eq shard_consts)

lemma checked_RouteMsg_total: "length (mapping t) = SlotCount \<Longrightarrow> checked_RouteMsg t c = Some (RouteMsg t c)"
  using slot_index_bounds [of c] by (simp add: checked_RouteMsg_def array_get_def RouteMsg_def slot_of_def)

lemma set_AllMsgShards: "set AllMsgShards =
    {s. DBIndex s < MsgDBCount \<and> TableIndex s < MsgTablePerDB}"
  by (auto simp: AllMsgShards_def image_iff MsgShard.expand intro: bexI [where x = "TableIndex _"])
     (metis MsgShard.collapse atLeast0LessThan lessThan_iff)

definition table_ok :: "SlotTable \<Rightarrow> bool" where
  "table_ok t \<longleftrightarrow> length (mapping t) = SlotCount \<and> set (mapping t) \<subseteq> set AllMsgShards"

lemma default_slot_ok: "slot < SlotCount \<Longrightarrow> default_slot slot \<in> set AllMsgShards"
  by (auto simp: set_AllMsgShards default_slot_def shard_consts Let_def)

lemma table_ok_default: "table_ok DefaultSlotTable"
  by (auto simp: table_ok_def DefaultSlotTable_def intro: default_slot_ok)

lemma SetOverride_table_ok:
  "table_ok t \<Longrightarrow> s \<in> set AllMsgShards \<Longrightarrow> SetOverride t slot s = Some t' \<Longrightarrow> table_ok t'"
  using set_update_subset_insert [of "mapping t" "nat slot" s]
  by (auto simp: table_ok_def SetOverride_def split: if_splits)

lemma default_slot_eq: "default_slot i = MsgShard (i div 128 mod 2) (i div 128 div 2)"
  by (simp add: default_slot_def shard_consts Let_def)

lemma default_shard_load: "length (filter (\<lambda>x. x = s) (mapping DefaultSlotTable)) =
    (if s \<in> set AllMsgShards then 128 else 0)"
proof (cases "s \<in> set AllMsgShards")
  case False
  then show ?thesis
    using table_ok_default by (auto simp: table_ok_def filter_empty_conv)
next
  case True
  then obtain d t where s: "s = MsgShard d t" and d: "d < 2" and t: "t < 4"
    by (intro that [of "DBIndex s" "TableIndex s"]) (auto simp: set_AllMsgShards shard_consts)
  have hit: "(default_slot i = s) = (i div 128 = 2 * t + d)" for i
  proof -
    have "(q mod 2 = d \<and> q div 2 = t) = (q = 2 * t + d)" for q :: nat
      using d by auto
    then show ?thesis unfolding s default_slot_eq MsgShard.inject by blast
  qed
  have "i < 1024 \<and> default_slot i = s \<longleftrightarrow> (2 * t + d) * 128 \<le> i \<and> i < (2 * t + d) * 128 + 128" for i
  proof -
    have "(i div 128 = k) = (k * 128 \<le> i \<and> i < k * 128 + 128)" for k
      by (auto simp: div_nat_eqI dividend_less_div_times) (use div_times_less_eq_dividend in blast)?
    moreover have "(2 * t + d) * 128 + 128 \<le> 1024" using d t by simp
    ultimately show ?thesis unfolding hit by auto
  qed
  then have "{i. i < 1024 \<and> default_slot i = s} = {(2 * t + d) * 128..<(2 * t + d) * 128 + 128}"
    by (simp add: atLeastLessThan_def set_eq_iff)
  moreover have "length (filter (\<lambda>x. x = s) (mapping DefaultSlotTable)) =
      card {i. i < 1024 \<and> default_slot i = s}"
    by (simp add: DefaultSlotTable_def length_filter_conv_card SlotCount_def)
       (metis (no_types, lifting) nth_map_upt diff_zero add_0)
  ultimately show ?thesis using True by simp
qed

text \<open>The slot tables that migrations make out of the default table.\<close>

fun run_overrides :: "(int \<times> MsgShard) list \<Rightarrow> SlotTable \<Rightarrow> SlotTable option" where
  "run_overrides [] t = Some t"
| "run_overrides ((slot, s) # os) t = (case SetOverride t slot s of None \<Rightarrow> None | Some t' \<Rightarrow> run_overrides os t')"

definition overridden :: "(int \<times> MsgShard) list \<Rightarrow> (int \<Rightarrow> MsgShard) \<Rightarrow> int \<Rightarrow> MsgShard" where
  \<comment> \<open>the last override of a slot counts\<close>
  "overridden os f slot = (case map_of (rev os) slot of None \<Rightarrow> f slot | Some s \<Rightarrow> s)"

lemma overridden_Cons: "overridden ((i, s) # os) f = overridden os (f(i := s))"
  by (auto simp: overridden_def map_add_def fun_eq_iff split: option.splits)

lemma SetOverride_lookup:
  assumes "SetOverride t slot s = Some t'" "length (mapping t) = SlotCount"
  shows "length (mapping t') = SlotCount \<and> overrides t' = Suc (overrides t) \<and> 0 \<le> slot \<and> slot < int SlotCount \<and>
    checked_RouteMsg t' c = (if slot_index c = slot then Some s else checked_RouteMsg t c)"
  using assms slot_index_bounds [of c]
  by (auto simp: SetOverride_def checked_RouteMsg_def array_get_def nth_list_update eq_nat_nat_iff split: if_splits)

lemma run_overrides_lookup:
  assumes "length (mapping t) = SlotCount" "\<And>c. checked_RouteMsg t c = Some (f (slot_index c))"
  shows "case run_overrides os t of
      None \<Rightarrow> \<exists>x \<in> set os. fst x < 0 \<or> int SlotCount \<le> fst x
    | Some t' \<Rightarrow> (\<forall>x \<in> set os. 0 \<le> fst x \<and> fst x < int SlotCount) \<and> overrides t' = overrides t + length os \<and>
        (\<forall>c. checked_RouteMsg t' c = Some (overridden os f (slot_index c)))"
  using assms
proof (induction os arbitrary: t f)
  case Nil
  then show ?case by (simp add: overridden_def)
next
  case (Cons x os)
  obtain slot s where x: "x = (slot, s)" by force
  show ?case
  proof (cases "SetOverride t slot s")
    case None
    then show ?thesis by (auto simp: x SetOverride_def split: if_splits)
  next
    case (Some t1)
    note S = SetOverride_lookup [OF Some Cons.prems(1)]
    have "checked_RouteMsg t1 c = Some ((f(slot := s)) (slot_index c))" for c using S Cons.prems(2) by simp
    with Cons.IH [of t1 "f(slot := s)"] S show ?thesis
      by (auto simp: x Some overridden_Cons split: option.splits)
  qed
qed

lemma default_lookup: "checked_RouteMsg DefaultSlotTable c = Some (default_slot (nat (slot_index c)))"
  using slot_index_bounds [of c] by (simp add: checked_RouteMsg_def array_get_def DefaultSlotTable_def nat_less_iff)

text \<open>
  C33: Routing is total and overrides are local: after any overrides of the default table, each in the
  range of the slots, the array access of \<open>RouteMsg\<close> never panics, for no conversation id, negative ones
  included: the slot of \<open>c\<close> is \<open>c mod 1024\<close>, and its shard is the one the last override of that slot
  named, or else the one of the slot's group of 128. Every conversation is thus in a table that exists,
  if the overrides name such, an override moves the conversations of its slot and no other, and one
  with a slot out of range panics.
\<close>

theorem route_total_and_override_local:
  "case run_overrides os DefaultSlotTable of
      None \<Rightarrow> \<exists>x \<in> set os. fst x < 0 \<or> 1024 \<le> fst x
    | Some t \<Rightarrow> (\<forall>x \<in> set os. 0 \<le> fst x \<and> fst x < 1024) \<and> overrides t = length os \<and>
        checked_RouteMsg t c = Some (RouteMsg t c) \<and>
        RouteMsg t c = (case map_of (rev os) (c mod 1024) of
            Some s \<Rightarrow> s
          | None \<Rightarrow> MsgShard (nat (c mod 1024) div 128 mod 2) (nat (c mod 1024) div 128 div 2)) \<and>
        RouteMsg t c \<in> set AllMsgShards \<union> snd ` set os"
proof -
  have len: "length (mapping DefaultSlotTable) = SlotCount" by (simp add: DefaultSlotTable_def)
  have ov: "overrides DefaultSlotTable = 0" by (simp only: DefaultSlotTable_def SlotTable.simps)
  have idx: "slot_index c = c mod 1024" by (simp add: slot_index_def go_mod_pos_eq shard_consts)
  note R = run_overrides_lookup [OF len default_lookup, of os]
  show ?thesis
  proof (cases "run_overrides os DefaultSlotTable")
    case None
    with R show ?thesis by (simp add: shard_consts)
  next
    case (Some t)
    let ?r = "overridden os (default_slot \<circ> nat) (c mod 1024)"
    have "checked_RouteMsg t c = Some ?r" using R by (simp add: Some idx comp_def)
    moreover from this have "RouteMsg t c = ?r"
      by (auto simp: checked_RouteMsg_def array_get_def RouteMsg_def slot_of_def split: if_splits)
    moreover have "?r \<in> set AllMsgShards \<union> snd ` set os"
    proof (cases "map_of (rev os) (c mod 1024)")
      case None
      have "nat (c mod 1024) < SlotCount" by (simp add: SlotCount_def nat_less_iff)
      then show ?thesis using None default_slot_ok by (simp add: overridden_def)
    next
      case (Some s)
      then have "(c mod 1024, s) \<in> set os" using map_of_SomeD by fastforce
      then show ?thesis using Some by (force simp: overridden_def)
    qed
    ultimately show ?thesis
      using R by (auto simp: Some ov overridden_def default_slot_eq shard_consts split: option.splits)
  qed
qed

lemma route_total_and_override_local_witness:
  "\<exists>t. run_overrides [(1000, MsgShard 0 3), (1023, MsgShard 1 0)] DefaultSlotTable = Some t \<and>
     RouteMsg t (-24) = MsgShard 0 3 \<and> RouteMsg t (-1) = MsgShard 1 0 \<and> RouteMsg t (-25) = MsgShard 1 3"
proof -
  let ?os = "[(1000, MsgShard 0 3), (1023, MsgShard 1 0)]"
  obtain t where t: "run_overrides ?os DefaultSlotTable = Some t"
    by (simp add: SetOverride_def shard_consts)
  then show ?thesis
    using route_total_and_override_local [of ?os "-24"] route_total_and_override_local [of ?os "-1"]
      route_total_and_override_local [of ?os "-25"] by (simp del: run_overrides.simps)
qed

text \<open>
  The default table is balanced but not interleaved: each of the eight physical shards
  holds 128 of the 1024 slots, and they are consecutive: a conversation and its successor go
  to different shards only at a multiple of 128. The README says that neighbouring slots go to
  different databases.
\<close>

theorem default_slots_consecutive:
  "length (filter (\<lambda>x. x = s) (mapping DefaultSlotTable)) = (if s \<in> set AllMsgShards then 128 else 0) \<and>
   (slot_of (c + 1) mod 128 \<noteq> 0 \<longrightarrow> RouteMsg DefaultSlotTable (c + 1) = RouteMsg DefaultSlotTable c)"
proof -
  have route: "RouteMsg DefaultSlotTable x = default_slot (slot_of x)" for x
    using slot_of_lt [of x] by (simp add: RouteMsg_def DefaultSlotTable_def)
  have slot: "int (slot_of x) = x mod 1024" for x
    by (simp add: slot_of_def slot_index_def go_mod_pos_eq shard_consts)
  have "default_slot (slot_of (c + 1)) = default_slot (slot_of c)" if nz: "slot_of (c + 1) mod 128 \<noteq> 0"
  proof -
    have "int (slot_of (c + 1)) = int ((slot_of c + 1) mod 1024)"
      unfolding slot zmod_int of_nat_add by (simp add: slot mod_add_left_eq)
    then have suc: "slot_of (c + 1) = (slot_of c + 1) mod 1024" by linarith
    have "slot_of c + 1 < 1024"
      using nz slot_of_lt [of c] by (cases "slot_of c = 1023") (auto simp: suc SlotCount_def)
    with suc have "slot_of (c + 1) = Suc (slot_of c)" by simp
    with nz show ?thesis by (simp add: default_slot_eq div_Suc)
  qed
  with route default_shard_load show ?thesis by simp
qed

lemma default_slots_consecutive_witness:
  "RouteMsg DefaultSlotTable 126 = RouteMsg DefaultSlotTable 127"
  using default_slots_consecutive [of _ 126]
  by (simp add: slot_of_def slot_index_def go_mod_pos_def go_mod_def shard_consts)

end
