(* ===== verification/Schema.thy ===== *)
theory Schema
  imports Sharding
begin

text \<open>
  The tables of \<open>scripts/schema.sql\<close> and \<open>scripts/migrate_m9.sql\<close> / \<open>migrate_m11.sql\<close>: one
  record per row, the primary-key projection of each table, and the two databases as records
  of tables. A JSON column holding an array of user ids is \<open>int list option\<close>, \<open>None\<close> being a
  text that does not parse as such an array.
\<close>

record friend_req =
  fr_from :: uid
  fr_to :: uid
  fr_message :: string
  fr_status :: int
  fr_create :: int
  fr_update :: int

record friendship =
  fs_uid :: uid
  fs_friend :: uid
  fs_create :: int

record group_member =
  gm_conv :: conv_id
  gm_uid :: uid
  gm_role :: int
  gm_join :: int

record user_conv =
  uc_uid :: uid
  uc_conv :: conv_id
  uc_create :: int

record conv_row =
  cv_id :: conv_id
  cv_type :: int
  cv_members :: "int list option"
  cv_last_seq :: int
  cv_create :: int
  cv_name :: string
  cv_avatar :: string

record user_row =
  us_uid :: uid
  us_nickname :: string
  us_hash :: string
  us_avatar :: string

record single_chat =
  sc_a :: uid
  sc_b :: uid
  sc_conv :: conv_id

record conv_state =
  cs_uid :: uid
  cs_conv :: conv_id
  cs_read_seq :: int
  cs_update :: int

record offline_row =
  ob_uid :: uid
  ob_conv :: conv_id
  ob_msg :: int
  ob_seq :: int
  ob_status :: int
  ob_create :: int

record message_row =
  ms_id :: int
  ms_conv :: conv_id
  ms_from :: uid
  ms_seq :: int
  ms_type :: int
  ms_content :: string
  ms_cmid :: int
  ms_time :: int

record local_row =
  lm_id :: int
  lm_conv :: conv_id
  lm_status :: int
  lm_create :: int

record meta_db =
  friend_requests :: "friend_req list"
  friendships :: "friendship list"
  group_members :: "group_member list"
  user_conversations :: "user_conv list"
  conversations :: "conv_row list"
  users :: "user_row list"
  single_chat_index :: "single_chat list"
  user_conv_state :: "conv_state list"
  offline_box :: "offline_row list"

definition empty_meta :: meta_db where
  "empty_meta = \<lparr>friend_requests = [], friendships = [], group_members = [],
     user_conversations = [], conversations = [], users = [], single_chat_index = [],
     user_conv_state = [], offline_box = []\<rparr>"

text \<open>A message database: the four \<open>message_NN\<close> tables and \<open>local_message\<close>.\<close>

record shard_db =
  messages :: "nat \<Rightarrow> message_row list"
  local_message :: "local_row list"

type_synonym msg_dbs = "nat \<Rightarrow> shard_db"

definition empty_shards :: msg_dbs where
  "empty_shards = (\<lambda>_. \<lparr>messages = (\<lambda>_. []), local_message = []\<rparr>)"

definition fr_key :: "friend_req \<Rightarrow> uid \<times> uid" where
  "fr_key r = (fr_from r, fr_to r)"

definition fs_key :: "friendship \<Rightarrow> uid \<times> uid" where
  "fs_key r = (fs_uid r, fs_friend r)"

definition gm_key :: "group_member \<Rightarrow> conv_id \<times> uid" where
  "gm_key r = (gm_conv r, gm_uid r)"

definition uc_key :: "user_conv \<Rightarrow> uid \<times> conv_id" where
  "uc_key r = (uc_uid r, uc_conv r)"

definition sc_key :: "single_chat \<Rightarrow> uid \<times> uid" where
  "sc_key r = (sc_a r, sc_b r)"

definition cs_key :: "conv_state \<Rightarrow> uid \<times> conv_id" where
  "cs_key r = (cs_uid r, cs_conv r)"

definition ob_key :: "offline_row \<Rightarrow> uid \<times> conv_id \<times> int" where
  "ob_key r = (ob_uid r, ob_conv r, ob_seq r)"

definition ms_key :: "message_row \<Rightarrow> conv_id \<times> int" where
  "ms_key r = (ms_conv r, ms_seq r)"

definition ms_ukey :: "message_row \<Rightarrow> conv_id \<times> int" where
  \<comment> \<open>UNIQUE KEY uk_client_msg (conv_id, client_msg_id)\<close>
  "ms_ukey r = (ms_conv r, ms_cmid r)"

definition lm_key :: "local_row \<Rightarrow> conv_id \<times> int" where
  "lm_key r = (lm_conv r, lm_id r)"

lemmas key_defs = fr_key_def fs_key_def gm_key_def uc_key_def sc_key_def cs_key_def
  ob_key_def ms_key_def ms_ukey_def lm_key_def

definition msg_table :: "msg_dbs \<Rightarrow> MsgShard \<Rightarrow> message_row list" where
  "msg_table dbs s = messages (dbs (DBIndex s)) (TableIndex s)"

definition set_msg_table :: "MsgShard \<Rightarrow> message_row list \<Rightarrow> msg_dbs \<Rightarrow> msg_dbs" where
  "set_msg_table s t dbs =
     dbs(DBIndex s := (dbs (DBIndex s))\<lparr>messages := (messages (dbs (DBIndex s)))(TableIndex s := t)\<rparr>)"

definition local_table :: "msg_dbs \<Rightarrow> nat \<Rightarrow> local_row list" where
  "local_table dbs i = local_message (dbs i)"

definition set_local_table :: "nat \<Rightarrow> local_row list \<Rightarrow> msg_dbs \<Rightarrow> msg_dbs" where
  "set_local_table i t dbs = dbs(i := (dbs i)\<lparr>local_message := t\<rparr>)"

lemma msg_table_set [simp]:
  "msg_table (set_msg_table s t dbs) s' = (if s' = s then t else msg_table dbs s')"
  by (auto simp: msg_table_def set_msg_table_def MsgShard.expand)

lemma msg_table_set_local [simp]: "msg_table (set_local_table i t dbs) s = msg_table dbs s"
  by (auto simp: msg_table_def set_local_table_def)

lemma local_table_set_local [simp]:
  "local_table (set_local_table i t dbs) j = (if j = i then t else local_table dbs j)"
  by (auto simp: local_table_def set_local_table_def)

lemma local_table_set_msg [simp]: "local_table (set_msg_table s t dbs) j = local_table dbs j"
  by (auto simp: local_table_def set_msg_table_def)

lemma tables_empty [simp]: "msg_table empty_shards s = []" "local_table empty_shards i = []"
  by (simp_all add: msg_table_def local_table_def empty_shards_def)

text \<open>The interface of a keyed table, at the keys of the schema.\<close>

interpretation fr_rows: keyed_rows fr_key "row_get fr_key" "row_ins_ignore fr_key"
  "\<lambda>k. row_del (\<lambda>r. fr_key r = k)" "pk_ok fr_key"
  by (rule keyed_rows_list)

interpretation fs_rows: keyed_rows fs_key "row_get fs_key" "row_ins_ignore fs_key"
  "\<lambda>k. row_del (\<lambda>r. fs_key r = k)" "pk_ok fs_key"
  by (rule keyed_rows_list)

interpretation gm_rows: keyed_rows gm_key "row_get gm_key" "row_ins_ignore gm_key"
  "\<lambda>k. row_del (\<lambda>r. gm_key r = k)" "pk_ok gm_key"
  by (rule keyed_rows_list)

interpretation uc_rows: keyed_rows uc_key "row_get uc_key" "row_ins_ignore uc_key"
  "\<lambda>k. row_del (\<lambda>r. uc_key r = k)" "pk_ok uc_key"
  by (rule keyed_rows_list)

interpretation ob_rows: keyed_rows ob_key "row_get ob_key" "row_ins_ignore ob_key"
  "\<lambda>k. row_del (\<lambda>r. ob_key r = k)" "pk_ok ob_key"
  by (rule keyed_rows_list)

end
