(* ===== verification/Cache.thy ===== *)
theory Cache
  imports Schema "HOL-Library.Char_ord" "HOL-Library.List_Lexorder" "HOL-Library.Product_Lexorder"
begin

text \<open>
  The Redis cache layer (\<open>internal/cache/cache.go\<close>, \<open>internal/cache/ephemeral.go\<close>).

  A cache handle is \<open>redis option\<close>: \<open>None\<close> is the nil \<open>*Cache\<close> of the code, on which every
  method is a miss or a no-op. The server's state is a store from keys to values with a
  deadline per key. The outcome of each command is the environment's: it succeeds, fails
  without effect, or takes effect and loses the reply. Keys are a datatype with one
  constructor per \<open>fmt.Sprintf\<close> pattern of the code, and values one constructor per JSON or
  number encoding; \<open>VBad\<close> is a value that does not decode.
\<close>

record IdemValue =
  iv_msg_id :: int
  iv_seq :: int

record ConvMeta =
  ConvID :: conv_id
  Type :: int
  MemberUIDs :: "uid list"
  LastSeq :: int
  CreateTimeMs :: int
  Name :: string
  Avatar :: string

record Profile =
  pf_nickname :: string
  pf_avatar :: string

record EphemeralMsg =
  em_t :: string
  em_conv :: conv_id
  em_from :: uid
  em_to :: uid
  em_seq :: int

datatype rkey =
    idemKey conv_id int
  | membersKey conv_id
  | metaKey conv_id
  | recentKey conv_id
  | readKey uid conv_id
  | syncSeqKey uid
  | routeKey uid
  | profileKey uid
  | channelKey string

datatype rval =
    VIdem IdemValue
  | VMembers "int list"
  | VMeta ConvMeta
  | VZset "(int \<times> string) list"
  | VInt int
  | VSet "string list"
  | VProfile Profile
  | VBad string

datatype published = PubRoute string uid string | PubEphemeral EphemeralMsg

record redis =
  kv :: "rkey \<Rightarrow> rval option"
  deadline :: "rkey \<Rightarrow> int option"
  channel_log :: "published list"

definition empty_redis :: redis where
  "empty_redis = \<lparr>kv = (\<lambda>_. None), deadline = (\<lambda>_. None), channel_log = []\<rparr>"

datatype rcmd = GET | SET | SETNX | DEL | ZADD | ZREM | ZRANGE | INCR | SADD | SREM | SMEMBERS
  | SCARD | EXISTS | EXPIRE | PUBLISH

datatype outcome = ROk | RErr | RErrDone

type_synonym rfaults = "rcmd \<Rightarrow> rkey \<Rightarrow> outcome"

definition redis_up :: rfaults where
  "redis_up = (\<lambda>_ _. ROk)"

definition redis_down :: rfaults where
  "redis_down = (\<lambda>_ _. RErr)"

definition idemTTL :: int where "idemTTL = 24 * 3600 * 1000"
definition membersTTL :: int where "membersTTL = 10 * 60 * 1000"
definition metaTTL :: int where "metaTTL = 10 * 60 * 1000"
definition recentTTL :: int where "recentTTL = 3600 * 1000"
definition recentMaxLen :: nat where "recentMaxLen = 200"
definition routeTTL :: int where "routeTTL = 60 * 1000"

subsection \<open>The commands the code issues\<close>

definition live :: "int \<Rightarrow> redis \<Rightarrow> rkey \<Rightarrow> rval option" where
  "live now r k =
     (case deadline r k of Some d \<Rightarrow> if d \<le> now then None else kv r k | None \<Rightarrow> kv r k)"

definition put_ttl :: "int \<Rightarrow> int \<Rightarrow> rkey \<Rightarrow> rval \<Rightarrow> redis \<Rightarrow> redis" where
  "put_ttl now ttl k v r =
     r\<lparr>kv := (kv r)(k := Some v), deadline := (deadline r)(k := Some (now + ttl))\<rparr>"

definition put_keep :: "int \<Rightarrow> rkey \<Rightarrow> rval \<Rightarrow> redis \<Rightarrow> redis" where
  \<comment> \<open>a write that creates a key without deadline and keeps the deadline of a live one\<close>
  "put_keep now k v r =
     r\<lparr>kv := (kv r)(k := Some v),
       deadline := (if live now r k = None then (deadline r)(k := None) else deadline r)\<rparr>"

definition put_plain :: "rkey \<Rightarrow> rval \<Rightarrow> redis \<Rightarrow> redis" where
  "put_plain k v r = r\<lparr>kv := (kv r)(k := Some v), deadline := (deadline r)(k := None)\<rparr>"

definition del_key :: "rkey \<Rightarrow> redis \<Rightarrow> redis" where
  "del_key k r = r\<lparr>kv := (kv r)(k := None), deadline := (deadline r)(k := None)\<rparr>"

definition expire :: "int \<Rightarrow> int \<Rightarrow> rkey \<Rightarrow> redis \<Rightarrow> redis" where
  "expire now ttl k r =
     (if live now r k = None then r else r\<lparr>deadline := (deadline r)(k := Some (now + ttl))\<rparr>)"

definition publish :: "published \<Rightarrow> redis \<Rightarrow> redis" where
  "publish m r = r\<lparr>channel_log := channel_log r @ [m]\<rparr>"

definition cmd :: "rfaults \<Rightarrow> rcmd \<Rightarrow> rkey \<Rightarrow> (redis \<Rightarrow> redis) \<Rightarrow> redis \<Rightarrow> redis" where
  "cmd f c k g r = (if f c k = RErr then r else g r)"

definition rget :: "rfaults \<Rightarrow> int \<Rightarrow> redis option \<Rightarrow> rkey \<Rightarrow> rval option" where
  "rget f now c k =
     (case c of None \<Rightarrow> None | Some r \<Rightarrow> if f GET k = ROk then live now r k else None)"

lemma live_put_ttl [simp]: "0 < ttl \<Longrightarrow> live now (put_ttl now ttl k v r) k' =
    (if k' = k then Some v else live now r k')"
  by (auto simp: live_def put_ttl_def split: option.split)

lemma live_put_plain [simp]: "live now (put_plain k v r) k' = (if k' = k then Some v else live now r k')"
  by (auto simp: live_def put_plain_def split: option.split)

lemma live_put_keep [simp]: "live now (put_keep now k v r) k' = (if k' = k then Some v else live now r k')"
  by (auto simp: live_def put_keep_def split: option.splits if_splits)

lemma live_del_key [simp]: "live now (del_key k r) k' = (if k' = k then None else live now r k')"
  by (auto simp: live_def del_key_def split: option.split)

lemma live_expire [simp]: "0 < ttl \<Longrightarrow> live now (expire now ttl k r) k' = live now r k'"
  by (auto simp: live_def expire_def split: option.splits)

lemma live_publish [simp]: "live now (publish m r) k = live now r k"
  by (simp add: live_def publish_def split: option.split)

lemma live_empty [simp]: "live now empty_redis k = None"
  by (simp add: live_def empty_redis_def)

lemma redis_up_apply [simp]: "redis_up c k = ROk"
  by (simp add: redis_up_def)

lemma rget_None [simp]: "rget f now None k = None"
  by (simp add: rget_def)

lemmas ttl_defs = idemTTL_def membersTTL_def metaTTL_def recentTTL_def routeTTL_def

subsection \<open>Idempotency marks\<close>

definition IdemPut :: "rfaults \<Rightarrow> int \<Rightarrow> redis option \<Rightarrow> conv_id \<Rightarrow> int \<Rightarrow> IdemValue \<Rightarrow>
    (bool \<times> bool) \<times> redis option" where
  \<comment> \<open>the pair is \<open>(ok, err = nil)\<close>\<close>
  "IdemPut f now c convID cmid v =
     (case c of
        None \<Rightarrow> ((True, True), None)
      | Some r \<Rightarrow>
          (let k = idemKey convID cmid;
               free = live now r k = None;
               r' = (if free then put_ttl now idemTTL k (VIdem v) r else r)
           in case f SETNX k of
                ROk \<Rightarrow> ((free, True), Some r')
              | RErr \<Rightarrow> ((True, False), Some r)
              | RErrDone \<Rightarrow> ((True, False), Some r')))"

definition IdemGet :: "rfaults \<Rightarrow> int \<Rightarrow> redis option \<Rightarrow> conv_id \<Rightarrow> int \<Rightarrow> IdemValue option" where
  "IdemGet f now c convID cmid =
     (case rget f now c (idemKey convID cmid) of Some (VIdem v) \<Rightarrow> Some v | _ \<Rightarrow> None)"

definition IdemDel :: "rfaults \<Rightarrow> redis option \<Rightarrow> conv_id \<Rightarrow> int \<Rightarrow> redis option" where
  "IdemDel f c convID cmid =
     map_option (\<lambda>r. cmd f DEL (idemKey convID cmid) (del_key (idemKey convID cmid)) r) c"

subsection \<open>Conversation members and metadata (cache-aside)\<close>

datatype load_err = DbErr string | ParseErr

definition ConvMembers :: "rfaults \<Rightarrow> string option \<Rightarrow> int \<Rightarrow> redis option \<Rightarrow> meta_db \<Rightarrow> conv_id \<Rightarrow>
    (load_err + uid list) \<times> redis option" where
  "ConvMembers f dberr now c db convID =
     (case rget f now c (membersKey convID) of
        Some (VMembers m) \<Rightarrow> (Inr m, c)
      | _ \<Rightarrow>
          (case dberr of
             Some e \<Rightarrow> (Inl (DbErr e), c)
           | None \<Rightarrow>
               (case row_get cv_id (conversations db) convID of
                  None \<Rightarrow> (Inl (DbErr ''sql: no rows in result set''), c)
                | Some row \<Rightarrow>
                    (case cv_members row of
                       None \<Rightarrow> (Inl ParseErr, c)
                     | Some m \<Rightarrow>
                         (Inr m, map_option (cmd f SET (membersKey convID)
                            (put_ttl now membersTTL (membersKey convID) (VMembers m))) c)))))"

definition ConvMembersCacheOnly :: "rfaults \<Rightarrow> int \<Rightarrow> redis option \<Rightarrow> conv_id \<Rightarrow> uid list option" where
  "ConvMembersCacheOnly f now c convID =
     (case rget f now c (membersKey convID) of Some (VMembers m) \<Rightarrow> Some m | _ \<Rightarrow> None)"

definition InvalidateConv :: "rfaults \<Rightarrow> redis option \<Rightarrow> conv_id \<Rightarrow> redis option" where
  \<comment> \<open>one DEL command with two keys\<close>
  "InvalidateConv f c convID =
     map_option (cmd f DEL (membersKey convID) (\<lambda>r. del_key (metaKey convID) (del_key (membersKey convID) r))) c"

definition meta_of_row :: "conv_row \<Rightarrow> uid list \<Rightarrow> ConvMeta" where
  "meta_of_row row m = \<lparr>ConvID = cv_id row, Type = cv_type row, MemberUIDs = m,
     LastSeq = cv_last_seq row, CreateTimeMs = cv_create row, Name = cv_name row,
     Avatar = cv_avatar row\<rparr>"

definition GetConvMeta :: "rfaults \<Rightarrow> string option \<Rightarrow> int \<Rightarrow> redis option \<Rightarrow> meta_db \<Rightarrow> conv_id \<Rightarrow>
    (load_err + ConvMeta) \<times> redis option" where
  "GetConvMeta f dberr now c db convID =
     (case rget f now c (metaKey convID) of
        Some (VMeta m) \<Rightarrow> (Inr m, c)
      | _ \<Rightarrow>
          (case dberr of
             Some e \<Rightarrow> (Inl (DbErr e), c)
           | None \<Rightarrow>
               (case row_get cv_id (conversations db) convID of
                  None \<Rightarrow> (Inl (DbErr ''sql: no rows in result set''), c)
                | Some row \<Rightarrow>
                    (case cv_members row of
                       None \<Rightarrow> (Inl ParseErr, c)
                     | Some ms \<Rightarrow>
                         (let m = meta_of_row row ms
                          in (Inr m, map_option (cmd f SET (metaKey convID)
                               (put_ttl now metaTTL (metaKey convID) (VMeta m))) c))))))"

definition SetConvMeta :: "rfaults \<Rightarrow> int \<Rightarrow> redis option \<Rightarrow> ConvMeta \<Rightarrow> redis option" where
  "SetConvMeta f now c m =
     map_option (cmd f SET (metaKey (ConvID m)) (put_ttl now metaTTL (metaKey (ConvID m)) (VMeta m))) c"

subsection \<open>The recent-messages sorted set\<close>

definition zset_of :: "rval option \<Rightarrow> (int \<times> string) list" where
  "zset_of v = (case v of Some (VZset z) \<Rightarrow> z | _ \<Rightarrow> [])"

definition zadd :: "int \<Rightarrow> string \<Rightarrow> (int \<times> string) list \<Rightarrow> (int \<times> string) list" where
  "zadd score m z = insort (score, m) (filter (\<lambda>e. snd e \<noteq> m) z)"

definition ztrim :: "nat \<Rightarrow> (int \<times> string) list \<Rightarrow> (int \<times> string) list" where
  \<comment> \<open>ZREMRANGEBYRANK 0 -(n+1): the \<open>n\<close> highest ranks stay\<close>
  "ztrim n z = drop (length z - n) z"

definition zrevrange0 :: "int \<Rightarrow> (int \<times> string) list \<Rightarrow> (int \<times> string) list" where
  \<comment> \<open>ZREVRANGE 0 stop: a negative stop counts from the end\<close>
  "zrevrange0 stop z =
     (let e = (if stop < 0 then int (length z) + stop else stop) in take (nat (e + 1)) (rev z))"

definition RecentAdd :: "rfaults \<Rightarrow> int \<Rightarrow> redis option \<Rightarrow> conv_id \<Rightarrow> int \<Rightarrow> string \<Rightarrow> redis option" where
  "RecentAdd f now c convID seq msg =
     map_option (\<lambda>r.
       (let k = recentKey convID;
            r1 = cmd f ZADD k (\<lambda>s. put_keep now k (VZset (zadd seq msg (zset_of (live now s k)))) s) r;
            r2 = cmd f ZREM k (\<lambda>s. if live now s k = None then s
                   else put_keep now k (VZset (ztrim recentMaxLen (zset_of (live now s k)))) s) r1
        in cmd f EXPIRE k (expire now recentTTL k) r2)) c"

definition RecentList :: "rfaults \<Rightarrow> int \<Rightarrow> redis option \<Rightarrow> conv_id \<Rightarrow> int \<Rightarrow> string list option" where
  "RecentList f now c convID count =
     (case c of None \<Rightarrow> None
      | Some r \<Rightarrow>
          (let vals = zrevrange0 (count - 1) (zset_of (live now r (recentKey convID)))
           in if f ZRANGE (recentKey convID) \<noteq> ROk \<or> int (length vals) < count then None
              else Some (rev (map snd vals))))"

definition RecentTop :: "rfaults \<Rightarrow> int \<Rightarrow> redis option \<Rightarrow> conv_id \<Rightarrow> string option" where
  "RecentTop f now c convID =
     (case c of None \<Rightarrow> None
      | Some r \<Rightarrow>
          (case zrevrange0 0 (zset_of (live now r (recentKey convID))) of
             [] \<Rightarrow> None
           | v # _ \<Rightarrow> if f ZRANGE (recentKey convID) = ROk then Some (snd v) else None))"

subsection \<open>Read marks\<close>

definition GetReadSeq :: "rfaults \<Rightarrow> int \<Rightarrow> redis option \<Rightarrow> uid \<Rightarrow> conv_id \<Rightarrow> int option" where
  "GetReadSeq f now c uid convID =
     (case rget f now c (readKey uid convID) of Some (VInt v) \<Rightarrow> Some v | _ \<Rightarrow> None)"

definition SetReadSeq :: "rfaults \<Rightarrow> int \<Rightarrow> redis option \<Rightarrow> uid \<Rightarrow> conv_id \<Rightarrow> int \<Rightarrow> redis option" where
  "SetReadSeq f now c uid convID seq =
     map_option (cmd f SET (readKey uid convID) (put_ttl now metaTTL (readKey uid convID) (VInt seq))) c"

subsection \<open>The sync watermark\<close>

definition syncSeqScript :: "int \<Rightarrow> rkey \<Rightarrow> int \<Rightarrow> redis \<Rightarrow> (string + int) \<times> redis" where
  \<comment> \<open>INCR; below the floor, SET to the floor. INCR of a value that is no integer is an error\<close>
  "syncSeqScript now k floor r =
     (case live now r k of
        None \<Rightarrow>
          (if 1 < floor then (Inr floor, put_plain k (VInt floor) r)
           else (Inr 1, put_plain k (VInt 1) r))
      | Some (VInt n) \<Rightarrow>
          (if n + 1 < floor then (Inr floor, put_plain k (VInt floor) r)
           else (Inr (n + 1), put_keep now k (VInt (n + 1)) r))
      | Some _ \<Rightarrow> (Inl ''ERR value is not an integer or out of range'', r))"

definition SyncSeqBump :: "rfaults \<Rightarrow> int \<Rightarrow> redis option \<Rightarrow> uid \<Rightarrow> int \<Rightarrow>
    (string + int) \<times> redis option" where
  "SyncSeqBump f now c uid floor =
     (case c of
        None \<Rightarrow> (Inl ''redis: client is closed'', None)
      | Some r \<Rightarrow>
          (let (v, r') = syncSeqScript now (syncSeqKey uid) floor r
           in case f INCR (syncSeqKey uid) of
                ROk \<Rightarrow> (v, Some r')
              | RErr \<Rightarrow> (Inl ''redis: i/o'', Some r)
              | RErrDone \<Rightarrow> (Inl ''redis: i/o'', Some r')))"

definition SyncSeqGet :: "rfaults \<Rightarrow> int \<Rightarrow> redis option \<Rightarrow> uid \<Rightarrow> int option" where
  "SyncSeqGet f now c uid =
     (case rget f now c (syncSeqKey uid) of Some (VInt v) \<Rightarrow> Some v | _ \<Rightarrow> None)"

subsection \<open>The route table\<close>

definition set_of_val :: "rval option \<Rightarrow> string list" where
  "set_of_val v = (case v of Some (VSet s) \<Rightarrow> s | _ \<Rightarrow> [])"

definition sadd :: "string \<Rightarrow> string list \<Rightarrow> string list" where
  "sadd a s = (if a \<in> set s then s else s @ [a])"

definition srem_key :: "int \<Rightarrow> rkey \<Rightarrow> string \<Rightarrow> redis \<Rightarrow> redis" where
  \<comment> \<open>SREM: a set that becomes empty is removed with its key\<close>
  "srem_key now k a r =
     (let s = filter (\<lambda>x. x \<noteq> a) (set_of_val (live now r k))
      in if live now r k = None then r
         else if s = [] then del_key k r else put_keep now k (VSet s) r)"

definition publishRouteChange :: "rfaults \<Rightarrow> string \<Rightarrow> uid \<Rightarrow> string \<Rightarrow> redis \<Rightarrow> redis" where
  "publishRouteChange f op uid addr =
     cmd f PUBLISH (channelKey ''route:change'') (publish (PubRoute op uid addr))"

definition RouteAdd :: "rfaults \<Rightarrow> int \<Rightarrow> redis option \<Rightarrow> uid \<Rightarrow> string \<Rightarrow> redis option" where
  "RouteAdd f now c uid addr =
     map_option (\<lambda>r.
       (let k = routeKey uid;
            r1 = cmd f SADD k (\<lambda>s. put_keep now k (VSet (sadd addr (set_of_val (live now s k)))) s) r;
            r2 = cmd f EXPIRE k (expire now routeTTL k) r1
        in publishRouteChange f ''add'' uid addr r2)) c"

definition RouteTouch :: "rfaults \<Rightarrow> int \<Rightarrow> redis option \<Rightarrow> uid \<Rightarrow> redis option" where
  "RouteTouch f now c uid =
     map_option (cmd f EXPIRE (routeKey uid) (expire now routeTTL (routeKey uid))) c"

definition RouteRem :: "rfaults \<Rightarrow> int \<Rightarrow> redis option \<Rightarrow> uid \<Rightarrow> string \<Rightarrow> redis option" where
  "RouteRem f now c uid addr =
     map_option (\<lambda>r. publishRouteChange f ''rem'' uid addr
       (cmd f SREM (routeKey uid) (srem_key now (routeKey uid) addr) r)) c"

definition RouteRemLast :: "rfaults \<Rightarrow> int \<Rightarrow> redis option \<Rightarrow> uid \<Rightarrow> string \<Rightarrow> bool \<times> redis option" where
  "RouteRemLast f now c uid addr =
     (case RouteRem f now c uid addr of
        None \<Rightarrow> (False, None)
      | Some r \<Rightarrow>
          (f SCARD (routeKey uid) = ROk \<and> set_of_val (live now r (routeKey uid)) = [], Some r))"

definition RouteGet :: "rfaults \<Rightarrow> int \<Rightarrow> redis option \<Rightarrow> uid \<Rightarrow> string list option" where
  "RouteGet f now c uid =
     (case c of None \<Rightarrow> None
      | Some r \<Rightarrow>
          (let addrs = set_of_val (live now r (routeKey uid))
           in if f SMEMBERS (routeKey uid) \<noteq> ROk \<or> addrs = [] then None else Some addrs))"

definition RouteOnlineBatch :: "rfaults \<Rightarrow> int \<Rightarrow> redis option \<Rightarrow> uid list \<Rightarrow> uid \<Rightarrow> bool" where
  "RouteOnlineBatch f now c uids uid =
     (case c of None \<Rightarrow> False
      | Some r \<Rightarrow> uid \<in> set uids \<and> f EXISTS (routeKey uid) = ROk \<and> live now r (routeKey uid) \<noteq> None)"

subsection \<open>Profiles and ephemeral signals\<close>

definition GetProfile :: "rfaults \<Rightarrow> int \<Rightarrow> redis option \<Rightarrow> uid \<Rightarrow> Profile option" where
  "GetProfile f now c uid =
     (case rget f now c (profileKey uid) of Some (VProfile p) \<Rightarrow> Some p | _ \<Rightarrow> None)"

definition SetProfile :: "rfaults \<Rightarrow> int \<Rightarrow> redis option \<Rightarrow> uid \<Rightarrow> Profile \<Rightarrow> redis option" where
  "SetProfile f now c uid p =
     map_option (cmd f SET (profileKey uid) (put_ttl now metaTTL (profileKey uid) (VProfile p))) c"

definition InvalidateProfile :: "rfaults \<Rightarrow> redis option \<Rightarrow> uid \<Rightarrow> redis option" where
  "InvalidateProfile f c uid = map_option (cmd f DEL (profileKey uid) (del_key (profileKey uid))) c"

definition PublishEphemeral :: "rfaults \<Rightarrow> redis option \<Rightarrow> EphemeralMsg \<Rightarrow> redis option" where
  "PublishEphemeral f c m =
     map_option (cmd f PUBLISH (channelKey ''yim.ephemeral'') (publish (PubEphemeral m))) c"

end
