(* ===== verification/SeqAlloc.thy ===== *)
theory SeqAlloc
  imports Cache
begin

text \<open>
  The segment allocator (\<open>internal/seq/allocator.go\<close>), the RPC handler around it
  (\<open>cmd/yim-seq/handler.go\<close>) and the in-process client (\<open>LocalSeqClient\<close> of
  \<open>internal/message/seq_client.go\<close>), one call at a time. The interleaving of the lock-free
  hot path is in \<open>SeqConc\<close>. Numbers are unbounded integers: the code's int64 would overflow
  after 2^63 numbers of one key.
\<close>

record seq_row =
  sq_biz :: string
  sq_key :: int
  sq_max :: int
  sq_step :: int

definition sq_pk :: "seq_row \<Rightarrow> string \<times> int" where
  "sq_pk r = (sq_biz r, sq_key r)"

record Segment =
  seg_start :: int
  seg_end :: int
  seg_cursor :: int

definition newSegment :: "int \<Rightarrow> int \<Rightarrow> Segment" where
  "newSegment s e = \<lparr>seg_start = s, seg_end = e, seg_cursor = s - 1\<rparr>"

definition take_seg :: "int \<Rightarrow> Segment \<Rightarrow> (int \<times> Segment) option" where
  \<comment> \<open>\<open>take\<close> when no other goroutine interferes: the first CAS succeeds\<close>
  "take_seg n s =
     (let nxt = seg_cursor s + n
      in if seg_end s < nxt then None else Some (nxt - n + 1, s\<lparr>seg_cursor := nxt\<rparr>))"

record Allocator =
  al_biz :: string
  al_key :: int
  al_step :: int
  al_cur :: "Segment option"
  al_buf :: "Segment option"
  al_last :: "int option"

datatype seq_sql = TBegin | TInsert | TUpdate | TSelect | TCommitFail | TCommitLost

type_synonym seq_faults = "nat \<Rightarrow> seq_sql faults"  \<comment> \<open>per attempt\<close>

definition seg_tx :: "string \<Rightarrow> int \<Rightarrow> int \<Rightarrow> seq_row list \<Rightarrow> seq_row list" where
  \<comment> \<open>INSERT IGNORE, then UPDATE max_id = max_id + step\<close>
  "seg_tx biz key step t =
     row_upd (\<lambda>r. sq_pk r = (biz, key)) (\<lambda>r. r\<lparr>sq_max := sq_max r + step\<rparr>)
       (row_ins_ignore sq_pk \<lparr>sq_biz = biz, sq_key = key, sq_max = 0, sq_step = step\<rparr> t)"

definition seq_max :: "string \<Rightarrow> int \<Rightarrow> seq_row list \<Rightarrow> int" where
  "seq_max biz key t = (case row_get sq_pk t (biz, key) of None \<Rightarrow> 0 | Some r \<Rightarrow> sq_max r)"

definition tryLoad :: "seq_sql faults \<Rightarrow> string \<Rightarrow> int \<Rightarrow> int \<Rightarrow> seq_row list \<Rightarrow>
    (string + Segment) \<times> seq_row list" where
  "tryLoad flt biz key step t =
     (if flt TBegin \<noteq> None then (Inl (the (flt TBegin)), t)
      else if flt TInsert \<noteq> None then (Inl (the (flt TInsert)), t)
      else if flt TUpdate \<noteq> None then (Inl (the (flt TUpdate)), t)
      else if flt TSelect \<noteq> None then (Inl (the (flt TSelect)), t)
      else
        (let t' = seg_tx biz key step t;
             maxID = seq_max biz key t'
         in case commit (flt TCommitFail) (flt TCommitLost) t t' of
              (Some e, u) \<Rightarrow> (Inl e, u)
            | (None, u) \<Rightarrow> (Inr (newSegment (maxID - step + 1) maxID), u)))"

fun load_attempts :: "nat \<Rightarrow> nat \<Rightarrow> seq_faults \<Rightarrow> string \<Rightarrow> int \<Rightarrow> int \<Rightarrow> string \<Rightarrow> seq_row list \<Rightarrow>
    (string + Segment) \<times> seq_row list" where
  "load_attempts 0 i flt biz key step lastErr t =
     (Inl (''seq '' @ biz @ ''/'' @ int_str key @ '' load: '' @ lastErr), t)"
| "load_attempts (Suc k) i flt biz key step lastErr t =
     (case tryLoad (flt i) biz key step t of
        (Inr seg, t') \<Rightarrow> (Inr seg, t')
      | (Inl e, t') \<Rightarrow> load_attempts k (Suc i) flt biz key step e t')"

definition loadSegment :: "seq_faults \<Rightarrow> string \<Rightarrow> int \<Rightarrow> int \<Rightarrow> seq_row list \<Rightarrow>
    (string + Segment) \<times> seq_row list" where
  "loadSegment flt biz key step t = load_attempts 3 0 flt biz key step [] t"

definition NewAllocator :: "seq_faults \<Rightarrow> string \<Rightarrow> int \<Rightarrow> int \<Rightarrow> seq_row list \<Rightarrow>
    (string + Allocator) \<times> seq_row list" where
  "NewAllocator flt biz key step t =
     (case loadSegment flt biz key step t of
        (Inl e, t') \<Rightarrow> (Inl (''seq '' @ biz @ ''/'' @ int_str key @ '' init: '' @ e), t')
      | (Inr seg, t') \<Rightarrow>
          (Inr \<lparr>al_biz = biz, al_key = key, al_step = step, al_cur = Some seg, al_buf = None,
                al_last = Some (seg_start seg - 1)\<rparr>, t'))"

definition swapSync :: "seq_faults \<Rightarrow> Allocator \<Rightarrow> seq_row list \<Rightarrow>
    string option \<times> Allocator \<times> seq_row list" where
  "swapSync flt a t =
     (case al_buf a of
        Some seg \<Rightarrow> (None, a\<lparr>al_buf := None, al_cur := Some seg\<rparr>, t)
      | None \<Rightarrow>
          (case loadSegment flt (al_biz a) (al_key a) (al_step a) t of
             (Inl e, t') \<Rightarrow> (Some e, a, t')
           | (Inr seg, t') \<Rightarrow> (None, a\<lparr>al_cur := Some seg\<rparr>, t')))"

definition refill :: "seq_faults \<Rightarrow> Allocator \<Rightarrow> seq_row list \<Rightarrow> Allocator \<times> seq_row list" where
  \<comment> \<open>the body of the goroutine \<open>refillAsync\<close> starts\<close>
  "refill flt a t =
     (if al_buf a \<noteq> None then (a, t)
      else case loadSegment flt (al_biz a) (al_key a) (al_step a) t of
          (Inl e, t') \<Rightarrow> (a, t')
        | (Inr seg, t') \<Rightarrow> (a\<lparr>al_buf := Some seg\<rparr>, t'))"

definition lowWater :: "Allocator \<Rightarrow> Segment \<Rightarrow> bool" where
  \<comment> \<open>fewer than a tenth left: start the prefetch\<close>
  "lowWater a seg \<longleftrightarrow> seg_end seg - seg_cursor seg < al_step a div 10"

text \<open>
  The loop of \<open>Next\<close>, with fuel for its iterations; \<open>None\<close>: out of fuel. The prefetch it may
  start is a run of \<open>refill\<close> at any later time.
\<close>

fun next_loop :: "nat \<Rightarrow> (nat \<Rightarrow> seq_faults) \<Rightarrow> int \<Rightarrow> Allocator \<Rightarrow> seq_row list \<Rightarrow>
    ((string + int) \<times> Allocator \<times> seq_row list) option" where
  "next_loop 0 flt n a t = None"
| "next_loop (Suc k) flt n a t =
     (case Option.bind (al_cur a) (take_seg n) of
        Some (start, seg') \<Rightarrow>
          Some (Inr start, a\<lparr>al_cur := Some seg', al_last := Some (start + n - 1)\<rparr>, t)
      | None \<Rightarrow>
          (case swapSync (flt k) a t of
             (Some e, a', t') \<Rightarrow> Some (Inl e, a', t')
           | (None, a', t') \<Rightarrow> next_loop k flt n a' t'))"

definition ErrBatchTooLarge :: string where
  "ErrBatchTooLarge = ''seq: batch exceeds segment step''"

definition NextN :: "nat \<Rightarrow> (nat \<Rightarrow> seq_faults) \<Rightarrow> int \<Rightarrow> Allocator \<Rightarrow> seq_row list \<Rightarrow>
    ((string + int) \<times> Allocator \<times> seq_row list) option" where
  "NextN fuel flt n a t =
     (if n \<le> 0 \<or> al_step a < n then Some (Inl ErrBatchTooLarge, a, t)
      else next_loop fuel flt n a t)"

definition Peek :: "Allocator \<Rightarrow> int option" where
  "Peek a = al_last a"

definition Cur :: "Allocator \<Rightarrow> int" where
  "Cur a = (case al_cur a of None \<Rightarrow> 0 | Some s \<Rightarrow> seg_cursor s)"

subsection \<open>The pool and its callers\<close>

record pool =
  p_step :: int
  p_m :: "string \<times> int \<Rightarrow> Allocator option"
  p_tbl :: "seq_row list"

definition PoolFor :: "seq_faults \<Rightarrow> string \<Rightarrow> int \<Rightarrow> pool \<Rightarrow> (string + Allocator) \<times> pool" where
  "PoolFor flt biz key p =
     (case p_m p (biz, key) of
        Some a \<Rightarrow> (Inr a, p)
      | None \<Rightarrow>
          (case NewAllocator flt biz key (p_step p) (p_tbl p) of
             (Inl e, t') \<Rightarrow> (Inl e, p\<lparr>p_tbl := t'\<rparr>)
           | (Inr a, t') \<Rightarrow> (Inr a, p\<lparr>p_m := (p_m p)((biz, key) \<mapsto> a), p_tbl := t'\<rparr>)))"

definition Current :: "string option \<Rightarrow> string \<Rightarrow> int \<Rightarrow> pool \<Rightarrow> string + int" where
  "Current dberr biz key p =
     (case Option.bind (p_m p (biz, key)) Peek of
        Some v \<Rightarrow> Inr v
      | None \<Rightarrow>
          (case dberr of
             Some e \<Rightarrow> Inl e
           | None \<Rightarrow> Inr (case row_get sq_pk (p_tbl p) (biz, key) of None \<Rightarrow> 0 | Some r \<Rightarrow> sq_max r)))"

definition pool_alloc :: "seq_faults \<Rightarrow> (nat \<Rightarrow> seq_faults) \<Rightarrow> string \<Rightarrow> int \<Rightarrow> int \<Rightarrow> pool \<Rightarrow>
    (string + int) \<times> pool" where
  \<comment> \<open>\<open>pool.For\<close> then \<open>Next(n)\<close>: the body of \<open>AllocID\<close>, \<open>AllocConvSeq\<close> and \<open>BumpSyncSeq\<close>; two
    iterations of the loop are enough (\<open>next_loop_total\<close>)\<close>
  "pool_alloc ff nf biz key n p =
     (case PoolFor ff biz key p of
        (Inl e, p') \<Rightarrow> (Inl e, p')
      | (Inr a, p') \<Rightarrow>
          (case NextN 2 nf n a (p_tbl p') of
             None \<Rightarrow> (Inl ''unreachable'', p')
           | Some (r, a', t') \<Rightarrow> (r, p'\<lparr>p_m := (p_m p')((biz, key) \<mapsto> a'), p_tbl := t'\<rparr>)))"

definition AllocId :: "seq_faults \<Rightarrow> (nat \<Rightarrow> seq_faults) \<Rightarrow> string \<Rightarrow> int \<Rightarrow> int \<Rightarrow> pool \<Rightarrow> (string + int) \<times> pool" where
  "AllocId ff nf biz key n = pool_alloc ff nf biz key n"

definition AllocConvSeq :: "seq_faults \<Rightarrow> (nat \<Rightarrow> seq_faults) \<Rightarrow> conv_id \<Rightarrow> int \<Rightarrow> pool \<Rightarrow> (string + int) \<times> pool" where
  "AllocConvSeq ff nf c n = pool_alloc ff nf ''conv'' c n"

definition BumpSyncSeq :: "seq_faults \<Rightarrow> (nat \<Rightarrow> seq_faults) \<Rightarrow> uid \<Rightarrow> pool \<Rightarrow> (string + int) \<times> pool" where
  "BumpSyncSeq ff nf u = pool_alloc ff nf ''sync'' u 1"

definition GetSyncSeq :: "string option \<Rightarrow> uid \<Rightarrow> pool \<Rightarrow> string + int" where
  "GetSyncSeq dberr u = Current dberr ''sync'' u"

definition InitConv :: "seq_faults \<Rightarrow> conv_id \<Rightarrow> pool \<Rightarrow> string option \<times> pool" where
  "InitConv ff c p =
     (case PoolFor ff ''conv'' c p of (Inl e, p') \<Rightarrow> (Some e, p') | (Inr _, p') \<Rightarrow> (None, p'))"

subsection \<open>Loading a segment\<close>

lemma sq_pk_simps [simp]:
  "sq_pk (r\<lparr>sq_max := m\<rparr>) = sq_pk r"
  "sq_pk \<lparr>sq_biz = biz, sq_key = key, sq_max = m, sq_step = st\<rparr> = (biz, key)"
  by (simp_all add: sq_pk_def)

lemma seq_max_seg_tx: "seq_max b k (seg_tx biz key step t) =
    (if (b, k) = (biz, key) then seq_max biz key t + step else seq_max b k t)"
  by (simp add: seq_max_def seg_tx_def row_get_upd_key table_simps split: option.split)

lemma tryLoad_cases:
  assumes "tryLoad flt biz key step t = (r, t')"
  shows "(\<exists>e. r = Inl e \<and> (t' = t \<or> t' = seg_tx biz key step t)) \<or>
    (r = Inr (newSegment (seq_max biz key t + 1) (seq_max biz key t + step)) \<and>
     t' = seg_tx biz key step t)"
  using assms
  by (auto simp: tryLoad_def Let_def commit_def seq_max_seg_tx split: if_splits option.splits)

definition grown :: "string \<Rightarrow> int \<Rightarrow> seq_row list \<Rightarrow> seq_row list \<Rightarrow> bool" where
  \<comment> \<open>the row of one key may have grown; the others are as they were\<close>
  "grown biz key t t' \<longleftrightarrow> seq_max biz key t \<le> seq_max biz key t' \<and>
     (\<forall>b k. (b, k) \<noteq> (biz, key) \<longrightarrow> seq_max b k t' = seq_max b k t)"

lemma grown_refl [simp]: "grown biz key t t"
  by (simp add: grown_def)

lemma grown_trans: "grown biz key t u \<Longrightarrow> grown biz key u v \<Longrightarrow> grown biz key t v"
  by (auto simp: grown_def)

lemma grown_seg_tx [simp]: "0 \<le> step \<Longrightarrow> grown biz key t (seg_tx biz key step t)"
  by (auto simp: grown_def seq_max_seg_tx)

definition fresh_seg :: "string \<Rightarrow> int \<Rightarrow> int \<Rightarrow> seq_row list \<Rightarrow> Segment \<Rightarrow> seq_row list \<Rightarrow> bool" where
  "fresh_seg biz key step t seg t' \<longleftrightarrow> seq_max biz key t < seg_start seg \<and>
     seg_end seg = seg_start seg + step - 1 \<and> seg_cursor seg = seg_start seg - 1 \<and>
     seg_end seg = seq_max biz key t' \<and> grown biz key t t'"

lemma load_attempts_effect:
  assumes "load_attempts k i flt biz key step e t = (r, t')" "0 < step"
  shows "grown biz key t t'" and "r = Inr seg \<Longrightarrow> fresh_seg biz key step t seg t'"
proof -
  have "grown biz key t t' \<and> (\<forall>seg. r = Inr seg \<longrightarrow> fresh_seg biz key step t seg t')"
    using assms(1)
  proof (induction k arbitrary: i e t)
    case (Suc k)
    obtain r1 t1 where one: "tryLoad (flt i) biz key step t = (r1, t1)" by force
    from tryLoad_cases [OF one]
    consider (err) e' where "r1 = Inl e'" "t1 = t \<or> t1 = seg_tx biz key step t"
      | (ok) "r1 = Inr (newSegment (seq_max biz key t + 1) (seq_max biz key t + step))"
          "t1 = seg_tx biz key step t"
      by blast
    then show ?case
    proof cases
      case (err e')
      then have g: "grown biz key t t1" using assms(2) by auto
      with Suc.IH [of "Suc i" e' t1] Suc.prems one err(1) show ?thesis
        by (auto simp: fresh_seg_def intro: grown_trans) (simp add: grown_def)
    qed (use Suc.prems one assms(2) in \<open>auto simp: fresh_seg_def newSegment_def seq_max_seg_tx\<close>)
  qed auto
  then show "grown biz key t t'" and "r = Inr seg \<Longrightarrow> fresh_seg biz key step t seg t'"
    by blast+
qed

lemma loadSegment_effect:
  assumes "loadSegment flt biz key step t = (r, t')" "0 < step"
  shows "grown biz key t t'" and "r = Inr seg \<Longrightarrow> fresh_seg biz key step t seg t'"
  using load_attempts_effect [of 3 0 flt biz key step "[]" t r t'] assms by (simp_all add: loadSegment_def)

lemma loadSegment_no_fault: "\<exists>seg t'. loadSegment (\<lambda>_. no_fault) biz key step t = (Inr seg, t')"
  by (simp add: loadSegment_def numeral_3_eq_3 tryLoad_def Let_def)

subsection \<open>The allocator's invariant\<close>

definition alloc_ok :: "Allocator \<Rightarrow> seq_row list \<Rightarrow> bool" where
  "alloc_ok a t \<longleftrightarrow> 0 < al_step a \<and>
     (\<exists>c. al_cur a = Some c \<and> 0 \<le> seg_cursor c \<and> seg_cursor c \<le> seg_end c \<and>
        (case al_buf a of
           None \<Rightarrow> seg_end c \<le> seq_max (al_biz a) (al_key a) t
         | Some b \<Rightarrow> seg_cursor b = seg_start b - 1 \<and> seg_end b = seg_start b + al_step a - 1 \<and>
             seg_end c < seg_start b \<and> seg_end b \<le> seq_max (al_biz a) (al_key a) t))"

lemma alloc_okE:
  assumes "alloc_ok a t"
  obtains c where "0 < al_step a" "al_cur a = Some c" "0 \<le> seg_cursor c" "seg_cursor c \<le> seg_end c"
    "seg_end c \<le> seq_max (al_biz a) (al_key a) t"
    "\<And>b. al_buf a = Some b \<Longrightarrow> seg_cursor b = seg_start b - 1 \<and> seg_end b = seg_start b + al_step a - 1 \<and>
       seg_end c < seg_start b \<and> seg_end b \<le> seq_max (al_biz a) (al_key a) t"
  using assms unfolding alloc_ok_def by (auto split: option.splits)

lemma alloc_ok_grown: "alloc_ok a t \<Longrightarrow>
    seq_max (al_biz a) (al_key a) t \<le> seq_max (al_biz a) (al_key a) t' \<Longrightarrow> alloc_ok a t'"
  by (force simp: alloc_ok_def split: option.splits)

lemma Cur_ok: "alloc_ok a t \<Longrightarrow> al_cur a = Some c \<Longrightarrow> Cur a = seg_cursor c"
  by (simp add: Cur_def)

lemma Cur_nonneg: "alloc_ok a t \<Longrightarrow> 0 \<le> Cur a"
  by (erule alloc_okE) (simp add: Cur_def)

lemma swapSync_effect:
  assumes "swapSync flt a t = (e, a', t')" "alloc_ok a t"
  shows "al_biz a' = al_biz a" "al_key a' = al_key a" "al_step a' = al_step a"
    and "grown (al_biz a) (al_key a) t t'" and "alloc_ok a' t'" and "Cur a \<le> Cur a'"
    and "e = None \<Longrightarrow> \<exists>c. al_cur a' = Some c \<and> seg_end c = seg_cursor c + al_step a \<and>
      Cur a \<le> seg_cursor c"
proof -
  obtain c where c: "0 < al_step a" "al_cur a = Some c" "0 \<le> seg_cursor c" "seg_cursor c \<le> seg_end c"
    "seg_end c \<le> seq_max (al_biz a) (al_key a) t"
    "\<And>b. al_buf a = Some b \<Longrightarrow> seg_cursor b = seg_start b - 1 \<and> seg_end b = seg_start b + al_step a - 1 \<and>
       seg_end c < seg_start b \<and> seg_end b \<le> seq_max (al_biz a) (al_key a) t"
    using alloc_okE [OF assms(2)] by blast
  have *: "al_biz a' = al_biz a \<and> al_key a' = al_key a \<and> al_step a' = al_step a \<and>
    grown (al_biz a) (al_key a) t t' \<and> alloc_ok a' t' \<and> Cur a \<le> Cur a' \<and>
    (e = None \<longrightarrow> (\<exists>c. al_cur a' = Some c \<and> seg_end c = seg_cursor c + al_step a \<and> Cur a \<le> seg_cursor c))"
  proof (cases "al_buf a")
    case (Some b)
    with assms(1) c(1-5) c(6) [OF Some] show ?thesis
      by (auto simp: swapSync_def alloc_ok_def Cur_def)
  next
    case None
    obtain r u where ld: "loadSegment flt (al_biz a) (al_key a) (al_step a) t = (r, u)" by force
    note eff = loadSegment_effect [OF ld c(1)]
    show ?thesis
    proof (cases r)
      case (Inl e')
      with None ld assms(1) have "a' = a" "t' = u" "e = Some e'" by (simp_all add: swapSync_def)
      with eff(1) assms(2) show ?thesis
        by (auto simp: grown_def intro: alloc_ok_grown)
    next
      case (Inr seg)
      with None ld assms(1) have "a' = a\<lparr>al_cur := Some seg\<rparr>" "t' = u" "e = None"
        by (simp_all add: swapSync_def)
      with eff(2) [OF Inr] c None show ?thesis
        by (auto simp: fresh_seg_def alloc_ok_def Cur_def grown_def)
    qed
  qed
  then show "al_biz a' = al_biz a" "al_key a' = al_key a" "al_step a' = al_step a"
    and "grown (al_biz a) (al_key a) t t'" and "alloc_ok a' t'" and "Cur a \<le> Cur a'"
    and "e = None \<Longrightarrow> \<exists>c. al_cur a' = Some c \<and> seg_end c = seg_cursor c + al_step a \<and>
      Cur a \<le> seg_cursor c"
    by blast+
qed

subsection \<open>One allocation\<close>

definition next_ok :: "int \<Rightarrow> Allocator \<Rightarrow> seq_row list \<Rightarrow> (string + int) \<times> Allocator \<times> seq_row list \<Rightarrow> bool" where
  "next_ok n a t res \<longleftrightarrow> (case res of (r, a', t') \<Rightarrow>
     al_biz a' = al_biz a \<and> al_key a' = al_key a \<and> al_step a' = al_step a \<and>
     grown (al_biz a) (al_key a) t t' \<and> alloc_ok a' t' \<and> Cur a \<le> Cur a' \<and>
     (\<forall>start. r = Inr start \<longrightarrow> Cur a < start \<and> Cur a' = start + n - 1 \<and>
        al_last a' = Some (start + n - 1) \<and>
        start + n - 1 \<le> seq_max (al_biz a) (al_key a) t'))"

lemma take_next_ok:
  assumes "alloc_ok a t" "0 < n" "Option.bind (al_cur a) (take_seg n) = Some (start, seg')"
  shows "next_ok n a t (Inr start, a\<lparr>al_cur := Some seg', al_last := Some (start + n - 1)\<rparr>, t)"
proof -
  obtain c where c: "al_cur a = Some c" using assms(1) by (auto simp: alloc_ok_def)
  with assms(3) have "seg' = c\<lparr>seg_cursor := seg_cursor c + n\<rparr>" "start = seg_cursor c + 1"
    "seg_cursor c + n \<le> seg_end c"
    by (auto simp: take_seg_def Let_def split: if_splits)
  with c assms(1,2) show ?thesis
    by (auto simp: next_ok_def alloc_ok_def Cur_def split: option.splits)
qed

lemma next_loop_total:
  assumes "alloc_ok a t" "0 < n" "n \<le> al_step a"
  shows "\<exists>res. next_loop 2 flt n a t = Some res \<and> next_ok n a t res"
proof (cases "Option.bind (al_cur a) (take_seg n)")
  case (Some p)
  then show ?thesis
    using take_next_ok [OF assms(1,2)] by (cases p) (auto simp: numeral_2_eq_2)
next
  case None
  obtain e a' t' where sw: "swapSync (flt 1) a t = (e, a', t')" using prod_cases3 by blast
  note eff = swapSync_effect [OF sw assms(1)]
  show ?thesis
  proof (cases e)
    case (Some e')
    with None sw eff show ?thesis by (auto simp: numeral_2_eq_2 next_ok_def)
  next
    case None' : None
    from eff(7) [OF this] obtain c where c: "al_cur a' = Some c" "seg_end c = seg_cursor c + al_step a"
      "Cur a \<le> seg_cursor c" by blast
    then obtain st seg' where tk: "Option.bind (al_cur a') (take_seg n) = Some (st, seg')"
      using assms(3) by (auto simp: take_seg_def Let_def)
    from take_next_ok [OF eff(5) assms(2) tk]
    have "next_ok n a t (Inr st, a'\<lparr>al_cur := Some seg', al_last := Some (st + n - 1)\<rparr>, t')"
      using eff(1-4,6) by (auto simp: next_ok_def intro: grown_trans)
    with None None' sw tk show ?thesis by (auto simp: numeral_2_eq_2)
  qed
qed

lemma next_no_fault:
  assumes "alloc_ok a t" "0 < n" "n \<le> al_step a"
  shows "\<exists>start a' t'. next_loop 2 (\<lambda>_ _. no_fault) n a t = Some (Inr start, a', t')"
proof (cases "Option.bind (al_cur a) (take_seg n)")
  case (Some p)
  then show ?thesis by (cases p) (auto simp: numeral_2_eq_2)
next
  case None
  obtain seg t' where ld: "loadSegment (\<lambda>_. no_fault) (al_biz a) (al_key a) (al_step a) t = (Inr seg, t')"
    using loadSegment_no_fault by blast
  have "\<exists>a' t'. swapSync (\<lambda>_. no_fault) a t = (None, a', t')"
    by (cases "al_buf a") (auto simp: swapSync_def ld)
  then obtain a' t' where sw: "swapSync (\<lambda>_. no_fault) a t = (None, a', t')" by blast
  from swapSync_effect(7) [OF sw assms(1)] obtain c where "al_cur a' = Some c"
    "seg_end c = seg_cursor c + al_step a" by blast
  then have "Option.bind (al_cur a') (take_seg n) =
      Some (seg_cursor c + 1, c\<lparr>seg_cursor := seg_cursor c + n\<rparr>)"
    using assms(3) by (auto simp: take_seg_def Let_def)
  with None sw show ?thesis by (simp add: numeral_2_eq_2)
qed

lemma NewAllocator_ok:
  assumes "NewAllocator flt biz key step t = (r, t')" "0 < step" "0 \<le> seq_max biz key t"
  shows "grown biz key t t'"
    and "r = Inr a \<Longrightarrow> alloc_ok a t' \<and> al_biz a = biz \<and> al_key a = key \<and> al_step a = step \<and>
      seq_max biz key t \<le> Cur a"
proof -
  obtain r1 u where ld: "loadSegment flt biz key step t = (r1, u)" by force
  note eff = loadSegment_effect [OF ld assms(2)]
  show "grown biz key t t'" using assms(1) eff ld by (auto simp: NewAllocator_def split: sum.splits)
  show "r = Inr a \<Longrightarrow> alloc_ok a t' \<and> al_biz a = biz \<and> al_key a = key \<and> al_step a = step \<and>
      seq_max biz key t \<le> Cur a"
    using assms eff ld
    by (auto simp: NewAllocator_def alloc_ok_def fresh_seg_def Cur_def split: sum.splits)
qed

text \<open>
  C27: Allocation is total and monotone: the loop of \<open>Next\<close> ends after at most two rounds
  whatever the database does; if the database answers, it returns a range; and a returned
  range lies entirely above every number the allocator gave out before and within the
  database's high-water mark, which never goes down.
\<close>

theorem next_total_and_monotone:
  assumes "alloc_ok a t" "0 < n" "n \<le> al_step a"
  shows "(\<exists>res. NextN 2 flt n a t = Some res \<and> next_ok n a t res) \<and>
    (\<exists>start a' t'. NextN 2 (\<lambda>_ _. no_fault) n a t = Some (Inr start, a', t'))"
  using next_loop_total [OF assms, of flt] next_no_fault [OF assms] assms by (simp add: NextN_def)

definition alloc1 :: Allocator where
  "alloc1 = \<lparr>al_biz = ''conv'', al_key = 7, al_step = 10,
     al_cur = Some \<lparr>seg_start = 1, seg_end = 10, seg_cursor = 8\<rparr>, al_buf = None, al_last = Some 8\<rparr>"

definition tbl1 :: "seq_row list" where
  "tbl1 = [\<lparr>sq_biz = ''conv'', sq_key = 7, sq_max = 10, sq_step = 10\<rparr>]"

lemma next_total_and_monotone_witness:
  "\<exists>res. NextN 2 (\<lambda>_ _. no_fault) 5 alloc1 tbl1 = Some res \<and> next_ok 5 alloc1 tbl1 res"
proof -
  have ok: "alloc_ok alloc1 tbl1"
    by (simp add: alloc_ok_def alloc1_def tbl1_def seq_max_def)
  have "al_step alloc1 = 10" by (simp add: alloc1_def)
  with next_total_and_monotone [OF ok, of 5 "\<lambda>_ _. no_fault"] show ?thesis by simp
qed

subsection \<open>The pool as a source of ranges\<close>

text \<open>
  What the message service relies on of a number source: while the state is good, a successful
  request returns a range above the source's mark for that key and moves the mark to its end,
  and no call moves any mark down. \<open>SendMessage\<close>'s prefetching allocators are clients of it.
\<close>

locale range_source =
  fixes good :: "'s \<Rightarrow> bool"
    and mark :: "'k \<Rightarrow> 's \<Rightarrow> int"
    and request :: "'f \<Rightarrow> 'k \<Rightarrow> int \<Rightarrow> 's \<Rightarrow> (string + int) \<times> 's"
  assumes request_good: "good s \<Longrightarrow> 0 < n \<Longrightarrow> good (snd (request f k n s))"
    and request_range: "good s \<Longrightarrow> 0 < n \<Longrightarrow> request f k n s = (Inr start, s') \<Longrightarrow>
      mark k s < start \<and> mark k s' = start + n - 1"
    and request_marks: "good s \<Longrightarrow> 0 < n \<Longrightarrow> mark j s \<le> mark j (snd (request f k n s))"
    and mark_nonneg: "good s \<Longrightarrow> 0 \<le> mark k s"
begin

fun requests :: "('f \<times> 'k \<times> int) list \<Rightarrow> 's \<Rightarrow> ('k \<times> int \<times> int) list \<times> 's" where
  "requests [] s = ([], s)"
| "requests ((f, k, n) # rs) s =
     (case request f k n s of
        (Inl e, s') \<Rightarrow> requests rs s'
      | (Inr st, s') \<Rightarrow> (case requests rs s' of (out, s'') \<Rightarrow> ((k, st, n) # out, s'')))"

lemma requests_above:
  assumes "good s" "\<forall>(f, k, n) \<in> set rs. 0 < n"
  shows "\<forall>(k, st, n) \<in> set (fst (requests rs s)). mark k s < st \<and> 0 < n"
  using assms
proof (induction rs arbitrary: s)
  case (Cons r rs)
  obtain f k n where r: "r = (f, k, n)" using prod_cases3 by blast
  obtain x s' where q: "request f k n s = (x, s')" by force
  have n: "0 < n" and rest: "\<forall>(f, k, n) \<in> set rs. 0 < n" using Cons.prems(2) r by auto
  have good': "good s'" using request_good [OF Cons.prems(1) n, of f k] q by simp
  have up: "mark j s \<le> mark j s'" for j using request_marks [OF Cons.prems(1) n, of j f k] q by simp
  have IH: "\<forall>(k, st, n) \<in> set (fst (requests rs s')). mark k s < st \<and> 0 < n"
    using Cons.IH [OF good' rest] up by (fastforce intro: le_less_trans)
  show ?case
  proof (cases x)
    case (Inl e)
    with IH r q show ?thesis by simp
  next
    case (Inr st)
    have "mark k s < st" using request_range [OF Cons.prems(1) n q [unfolded Inr]] by simp
    with IH Inr r q n show ?thesis by (auto split: prod.split)
  qed
qed simp

lemma requests_disjoint:
  assumes "good s" "\<forall>(f, k, n) \<in> set rs. 0 < n"
  shows "sorted_wrt (\<lambda>(k, st, n) (k', st', n'). k = k' \<longrightarrow> st + n \<le> st') (fst (requests rs s))"
  using assms
proof (induction rs arbitrary: s)
  case (Cons r rs)
  obtain f k n where r: "r = (f, k, n)" using prod_cases3 by blast
  obtain x s' where q: "request f k n s = (x, s')" by force
  have n: "0 < n" and rest: "\<forall>(f, k, n) \<in> set rs. 0 < n" using Cons.prems(2) r by auto
  have good': "good s'" using request_good [OF Cons.prems(1) n, of f k] q by simp
  show ?case
  proof (cases x)
    case (Inl e)
    with Cons.IH [OF good' rest] r q show ?thesis by simp
  next
    case (Inr st)
    have "mark k s' = st + n - 1" using request_range [OF Cons.prems(1) n q [unfolded Inr]] by simp
    then have "\<forall>(k', st', n') \<in> set (fst (requests rs s')). k = k' \<longrightarrow> st + n \<le> st'"
      using requests_above [OF good' rest] by fastforce
    with Cons.IH [OF good' rest] Inr r q show ?thesis by (auto split: prod.split)
  qed
qed simp

end

definition pool_ok :: "pool \<Rightarrow> bool" where
  "pool_ok p \<longleftrightarrow> 0 < p_step p \<and> (\<forall>b k. 0 \<le> seq_max b k (p_tbl p)) \<and>
     (\<forall>b k a. p_m p (b, k) = Some a \<longrightarrow> alloc_ok a (p_tbl p) \<and> al_biz a = b \<and> al_key a = k)"

definition pool_mark :: "string \<times> int \<Rightarrow> pool \<Rightarrow> int" where
  "pool_mark bk p = (case p_m p bk of Some a \<Rightarrow> Cur a | None \<Rightarrow> seq_max (fst bk) (snd bk) (p_tbl p))"

definition pool_request :: "seq_faults \<times> (nat \<Rightarrow> seq_faults) \<Rightarrow> string \<times> int \<Rightarrow> int \<Rightarrow> pool \<Rightarrow>
    (string + int) \<times> pool" where
  "pool_request f bk n p = pool_alloc (fst f) (snd f) (fst bk) (snd bk) n p"

lemma PoolFor_effect:
  assumes "PoolFor ff biz key p = (r, p')" "pool_ok p"
  shows "pool_ok p'" and "pool_mark j p \<le> pool_mark j p'" and "p_step p' = p_step p"
    and "r = Inr a \<Longrightarrow> p_m p' (biz, key) = Some a"
proof -
  have nn: "0 \<le> seq_max biz key (p_tbl p)" "0 < p_step p" using assms(2) by (auto simp: pool_ok_def)
  have *: "pool_ok p' \<and> pool_mark j p \<le> pool_mark j p' \<and> p_step p' = p_step p \<and>
    (\<forall>a. r = Inr a \<longrightarrow> p_m p' (biz, key) = Some a)"
  proof (cases "p_m p (biz, key)")
    case (Some a)
    with assms show ?thesis by (auto simp: PoolFor_def)
  next
    case None
    obtain r1 t' where na: "NewAllocator ff biz key (p_step p) (p_tbl p) = (r1, t')" by force
    note eff = NewAllocator_ok [OF na nn(2,1)]
    have mono: "seq_max b k (p_tbl p) \<le> seq_max b k t'" for b k
      using eff(1) by (cases "(b, k) = (biz, key)") (auto simp: grown_def)
    have ok': "\<forall>b k a. p_m p (b, k) = Some a \<longrightarrow> alloc_ok a t' \<and> al_biz a = b \<and> al_key a = k"
      using assms(2) mono unfolding pool_ok_def by (blast intro: alloc_ok_grown)
    have nn': "\<forall>b k. 0 \<le> seq_max b k t'"
      using assms(2) mono by (meson order_trans pool_ok_def)
    show ?thesis
    proof (cases r1)
      case (Inl e)
      with None na assms ok' nn' nn(2) mono show ?thesis
        by (auto simp: PoolFor_def pool_ok_def pool_mark_def split: option.split)
    next
      case (Inr a)
      with None na assms(1) have p': "p' = p\<lparr>p_m := (p_m p)((biz, key) \<mapsto> a), p_tbl := t'\<rparr>" "r = Inr a"
        by (simp_all add: PoolFor_def)
      with eff(2) [OF Inr] ok' nn' nn(2) mono None show ?thesis
        by (cases j) (auto simp: pool_ok_def pool_mark_def split: option.split)
    qed
  qed
  then show "pool_ok p'" and "pool_mark j p \<le> pool_mark j p'" and "p_step p' = p_step p"
    and "r = Inr a \<Longrightarrow> p_m p' (biz, key) = Some a"
    by blast+
qed

lemma pool_alloc_effect:
  assumes "pool_alloc ff nf biz key n p = (r, p')" "pool_ok p" "0 < n"
  shows "pool_ok p'" and "pool_mark j p \<le> pool_mark j p'"
    and "r = Inr start \<Longrightarrow> pool_mark (biz, key) p < start \<and> pool_mark (biz, key) p' = start + n - 1"
proof -
  obtain r0 p0 where pf: "PoolFor ff biz key p = (r0, p0)" by force
  note P = PoolFor_effect [OF pf assms(2)]
  have *: "pool_ok p' \<and> pool_mark j p \<le> pool_mark j p' \<and> (\<forall>start. r = Inr start \<longrightarrow>
    pool_mark (biz, key) p < start \<and> pool_mark (biz, key) p' = start + n - 1)"
  proof (cases r0)
    case (Inl e)
    with pf assms(1) P show ?thesis by (auto simp: pool_alloc_def)
  next
    case (Inr a)
    note pm = P(4) [OF Inr]
    have a: "alloc_ok a (p_tbl p0)" "al_biz a = biz" "al_key a = key"
      using P(1) pm by (auto simp: pool_ok_def)
    have mk: "pool_mark (biz, key) p0 = Cur a" using pm by (simp add: pool_mark_def)
    show ?thesis
    proof (cases "al_step a < n")
      case True
      with pf Inr assms(1) pm have "p' = p0" "\<exists>e. r = Inl e"
        by (auto simp: pool_alloc_def NextN_def fun_upd_idem)
      with P show ?thesis by auto
    next
      case False
      then obtain rr a' t' where nx: "next_loop 2 nf n a (p_tbl p0) = Some (rr, a', t')"
        and ok: "next_ok n a (p_tbl p0) (rr, a', t')"
        using next_loop_total [OF a(1) assms(3), of nf] by (metis not_less prod_cases3)
      with pf Inr assms(1,3) False
      have p': "p' = p0\<lparr>p_m := (p_m p0)((biz, key) \<mapsto> a'), p_tbl := t'\<rparr>" "r = rr"
        by (auto simp: pool_alloc_def NextN_def)
      have mono: "seq_max b k (p_tbl p0) \<le> seq_max b k t'" for b k
        using ok a by (cases "(b, k) = (biz, key)") (auto simp: next_ok_def grown_def)
      have "pool_ok p'"
        using P(1,3) p'(1) ok a mono
        by (fastforce simp: pool_ok_def next_ok_def intro: alloc_ok_grown order_trans)
      moreover have "pool_mark j p0 \<le> pool_mark j p'"
        using p'(1) pm ok mono by (cases j) (auto simp: pool_mark_def next_ok_def split: option.split)
      ultimately show ?thesis
        using P(2) [of j] P(2) [of "(biz, key)"] mk ok p' by (auto simp: next_ok_def pool_mark_def)
    qed
  qed
  then show "pool_ok p'" and "pool_mark j p \<le> pool_mark j p'"
    and "r = Inr start \<Longrightarrow> pool_mark (biz, key) p < start \<and> pool_mark (biz, key) p' = start + n - 1"
    by blast+
qed

lemma pool_mark_nonneg: "pool_ok p \<Longrightarrow> 0 \<le> pool_mark j p"
  using Cur_nonneg by (cases j) (fastforce simp: pool_ok_def pool_mark_def split: option.split)

interpretation seqpool: range_source pool_ok pool_mark pool_request
proof
  fix s n f k j start s'
  assume s: "pool_ok s" and n: "0 < (n :: int)"
  obtain r p' where q: "pool_alloc (fst f) (snd f) (fst k) (snd k) n s = (r, p')" by force
  note E = pool_alloc_effect [OF q s n]
  show "pool_ok (snd (pool_request f k n s))" using E q by (simp add: pool_request_def)
  show "pool_mark j s \<le> pool_mark j (snd (pool_request f k n s))" using E q by (simp add: pool_request_def)
  show "pool_mark k s < start \<and> pool_mark k s' = start + n - 1" if "pool_request f k n s = (Inr start, s')"
    using E(3) [of start] q that by (simp add: pool_request_def)
qed (rule pool_mark_nonneg)

end
