(* ===== verification/SeqConc.thy ===== *)
theory SeqConc
  imports SeqAlloc
begin

text \<open>
  The allocator under concurrency (\<open>internal/seq/allocator.go\<close>): any number of processes, each
  with an \<open>Allocator\<close> for the same (biz, key), any number of goroutines in \<open>Next\<close> between their
  atomic operations (pointer load, cursor load, compare-and-swap, store of \<open>last\<close>), prefetch
  goroutines, and the one database row they share. Segments are objects of a heap, because a
  goroutine may hold the pointer of a segment that has been swapped out. The bodies under the
  mutex are one step each: what they write is one pointer. A load that fails after its commit
  leaves the row advanced; the Redis write-back may raise the row as well.
\<close>

datatype pc =
    Idle
  | PLoad int            \<comment> \<open>about to load \<open>a.cur\<close>\<close>
  | PTake int nat        \<comment> \<open>about to load the segment's cursor\<close>
  | PCas int nat int     \<comment> \<open>about to compare-and-swap\<close>
  | PLast nat int int    \<comment> \<open>owns \<open>[start, start+n-1]\<close>, about to store \<open>last\<close>\<close>
  | PSwap int            \<comment> \<open>about to enter \<open>swapSync\<close>\<close>

record calloc =
  ca_step :: int
  ca_cur :: nat
  ca_buf :: "nat option"
  ca_last :: int
  ca_pending :: nat      \<comment> \<open>prefetch goroutines started and not yet run\<close>

record sworld =
  row_max :: int
  heap :: "Segment list"
  procs :: "nat \<Rightarrow> calloc option"
  threads :: "nat \<times> nat \<Rightarrow> pc"    \<comment> \<open>process and goroutine\<close>
  issued :: "(int \<times> int) list"     \<comment> \<open>ghost: the ranges taken, in order\<close>

definition set_pc :: "nat \<times> nat \<Rightarrow> pc \<Rightarrow> sworld \<Rightarrow> sworld" where
  "set_pc t c w = w\<lparr>threads := (threads w)(t := c)\<rparr>"

definition set_proc :: "nat \<Rightarrow> calloc \<Rightarrow> sworld \<Rightarrow> sworld" where
  "set_proc p a w = w\<lparr>procs := (procs w)(p \<mapsto> a)\<rparr>"

definition load :: "int \<Rightarrow> sworld \<Rightarrow> sworld" where
  \<comment> \<open>a committed \<open>tryLoad\<close>: the row advances, the new segment becomes an object\<close>
  "load step w = w\<lparr>row_max := row_max w + step,
     heap := heap w @ [newSegment (row_max w + 1) (row_max w + step)]\<rparr>"

definition world0 :: sworld where
  "world0 = \<lparr>row_max = 0, heap = [], procs = (\<lambda>_. None), threads = (\<lambda>_. Idle), issued = []\<rparr>"

inductive sstep :: "sworld \<Rightarrow> sworld \<Rightarrow> bool" where
  new: "procs w p = None \<Longrightarrow> 0 < step \<Longrightarrow>
    sstep w (set_proc p \<lparr>ca_step = step, ca_cur = length (heap w), ca_buf = None,
      ca_last = row_max w, ca_pending = 0\<rparr> (load step w))"
| burn: "row_max w \<le> m \<Longrightarrow> sstep w (w\<lparr>row_max := m\<rparr>)"
| call: "threads w (p, g) = Idle \<Longrightarrow> procs w p = Some a \<Longrightarrow> 0 < n \<Longrightarrow> n \<le> ca_step a \<Longrightarrow>
    sstep w (set_pc (p, g) (PLoad n) w)"
| loadcur: "threads w (p, g) = PLoad n \<Longrightarrow> procs w p = Some a \<Longrightarrow>
    sstep w (set_pc (p, g) (PTake n (ca_cur a)) w)"
| exhausted: "threads w (p, g) = PTake n i \<Longrightarrow> seg_end (heap w ! i) < seg_cursor (heap w ! i) + n \<Longrightarrow>
    sstep w (set_pc (p, g) (PSwap n) w)"
| readcur: "threads w (p, g) = PTake n i \<Longrightarrow> \<not> seg_end (heap w ! i) < seg_cursor (heap w ! i) + n \<Longrightarrow>
    sstep w (set_pc (p, g) (PCas n i (seg_cursor (heap w ! i))) w)"
| casfail: "threads w (p, g) = PCas n i c \<Longrightarrow> seg_cursor (heap w ! i) \<noteq> c \<Longrightarrow>
    sstep w (set_pc (p, g) (PTake n i) w)"
| casok: "threads w (p, g) = PCas n i c \<Longrightarrow> seg_cursor (heap w ! i) = c \<Longrightarrow>
    sstep w (set_pc (p, g) (PLast i (c + 1) n)
      (w\<lparr>heap := (heap w)[i := (heap w ! i)\<lparr>seg_cursor := c + n\<rparr>], issued := issued w @ [(c + 1, n)]\<rparr>))"
| storelast: "threads w (p, g) = PLast i start n \<Longrightarrow> procs w p = Some a \<Longrightarrow>
    sstep w (set_pc (p, g) Idle (set_proc p (a\<lparr>ca_last := start + n - 1,
      ca_pending := (if seg_end (heap w ! i) - seg_cursor (heap w ! i) < ca_step a div 10 \<and> ca_buf a = None
                     then ca_pending a + 1 else ca_pending a)\<rparr>) w))"
| prefetch: "procs w p = Some a \<Longrightarrow> 0 < ca_pending a \<Longrightarrow> ca_buf a = None \<Longrightarrow>
    sstep w (set_proc p (a\<lparr>ca_buf := Some (length (heap w)), ca_pending := ca_pending a - 1\<rparr>)
      (load (ca_step a) w))"
| prefetchskip: "procs w p = Some a \<Longrightarrow> 0 < ca_pending a \<Longrightarrow>
    sstep w (set_proc p (a\<lparr>ca_pending := ca_pending a - 1\<rparr>) w)"
| swapbuf: "threads w (p, g) = PSwap n \<Longrightarrow> procs w p = Some a \<Longrightarrow> ca_buf a = Some i \<Longrightarrow>
    sstep w (set_pc (p, g) (PLoad n) (set_proc p (a\<lparr>ca_cur := i, ca_buf := None\<rparr>) w))"
| swapload: "threads w (p, g) = PSwap n \<Longrightarrow> procs w p = Some a \<Longrightarrow> ca_buf a = None \<Longrightarrow>
    sstep w (set_pc (p, g) (PLoad n) (set_proc p (a\<lparr>ca_cur := length (heap w)\<rparr>) (load (ca_step a) w)))"
| swapfail: "threads w (p, g) = PSwap n \<Longrightarrow> sstep w (set_pc (p, g) Idle w)"

inductive_cases sstepE: "sstep w w'"

definition seg_ok :: "int \<Rightarrow> Segment \<Rightarrow> bool" where
  "seg_ok m s \<longleftrightarrow> 1 \<le> seg_start s \<and> seg_start s - 1 \<le> seg_cursor s \<and> seg_cursor s \<le> seg_end s \<and>
     seg_end s \<le> m"

definition heap_ok :: "sworld \<Rightarrow> bool" where
  "heap_ok w \<longleftrightarrow> 0 \<le> row_max w \<and> (\<forall>s \<in> set (heap w). seg_ok (row_max w) s) \<and>
     sorted_wrt (\<lambda>s s'. seg_end s < seg_start s') (heap w)"

fun pc_ok :: "Segment list \<Rightarrow> pc \<Rightarrow> bool" where
  "pc_ok h Idle = True"
| "pc_ok h (PLoad n) = (0 < n)"
| "pc_ok h (PTake n i) = (0 < n \<and> i < length h)"
| "pc_ok h (PCas n i c) = (0 < n \<and> i < length h \<and> c + n \<le> seg_end (h ! i))"
| "pc_ok h (PLast i st n) = (0 < n \<and> i < length h)"
| "pc_ok h (PSwap n) = (0 < n)"

definition refs_ok :: "sworld \<Rightarrow> bool" where
  "refs_ok w \<longleftrightarrow>
     (\<forall>p a. procs w p = Some a \<longrightarrow> 0 < ca_step a \<and> ca_cur a < length (heap w) \<and>
        (\<forall>i. ca_buf a = Some i \<longrightarrow> i < length (heap w))) \<and>
     (\<forall>t. pc_ok (heap w) (threads w t))"

definition within :: "int \<times> int \<Rightarrow> Segment \<Rightarrow> bool" where
  "within r s \<longleftrightarrow> seg_start s \<le> fst r \<and> 0 < snd r \<and> fst r + snd r - 1 \<le> seg_cursor s"

definition disjoint_ranges :: "(int \<times> int) list \<Rightarrow> bool" where
  "disjoint_ranges rs \<longleftrightarrow> sorted_wrt (\<lambda>(a, n) (b, m). a + n \<le> b \<or> b + m \<le> a) rs"

definition issued_ok :: "sworld \<Rightarrow> bool" where
  "issued_ok w \<longleftrightarrow> (\<forall>r \<in> set (issued w). \<exists>s \<in> set (heap w). within r s) \<and> disjoint_ranges (issued w)"

definition sworld_inv :: "sworld \<Rightarrow> bool" where
  "sworld_inv w \<longleftrightarrow> heap_ok w \<and> refs_ok w \<and> issued_ok w"

lemma set_simps [simp]:
  "row_max (set_pc t c w) = row_max w" "heap (set_pc t c w) = heap w" "procs (set_pc t c w) = procs w"
  "issued (set_pc t c w) = issued w" "threads (set_pc t c w) = (threads w)(t := c)"
  "row_max (set_proc p a w) = row_max w" "heap (set_proc p a w) = heap w"
  "procs (set_proc p a w) = (procs w)(p \<mapsto> a)" "issued (set_proc p a w) = issued w"
  "threads (set_proc p a w) = threads w"
  "row_max (load st w) = row_max w + st" "issued (load st w) = issued w"
  "heap (load st w) = heap w @ [newSegment (row_max w + 1) (row_max w + st)]"
  "procs (load st w) = procs w" "threads (load st w) = threads w"
  by (simp_all add: set_pc_def set_proc_def load_def)

lemma heap_ok_cong: "row_max w = row_max w' \<Longrightarrow> heap w = heap w' \<Longrightarrow> heap_ok w = heap_ok w'"
  by (simp add: heap_ok_def)

lemma issued_ok_cong: "issued w = issued w' \<Longrightarrow> heap w = heap w' \<Longrightarrow> issued_ok w = issued_ok w'"
  by (simp add: issued_ok_def)

lemma heap_ok_load: "heap_ok w \<Longrightarrow> 0 < step \<Longrightarrow> heap_ok (load step w)"
  by (fastforce simp: heap_ok_def seg_ok_def newSegment_def sorted_wrt_append)

lemma issued_ok_load: "issued_ok w \<Longrightarrow> issued_ok (load step w)"
  by (auto simp: issued_ok_def)

lemma heap_ok_cas:
  assumes "heap_ok w" "i < length (heap w)" "0 < n" "seg_cursor (heap w ! i) + n \<le> seg_end (heap w ! i)"
  shows "heap_ok (w\<lparr>heap := (heap w)[i := (heap w ! i)\<lparr>seg_cursor := seg_cursor (heap w ! i) + n\<rparr>], issued := x\<rparr>)"
proof -
  let ?s = "(heap w ! i)\<lparr>seg_cursor := seg_cursor (heap w ! i) + n\<rparr>"
  have "seg_ok (row_max w) (heap w ! i)" using assms(1,2) by (auto simp: heap_ok_def)
  then have "seg_ok (row_max w) ?s" using assms(3,4) by (simp add: seg_ok_def)
  moreover have "sorted_wrt (\<lambda>s s'. seg_end s < seg_start s') ((heap w)[i := ?s])"
    using assms(1,2) by (auto simp: heap_ok_def sorted_wrt_iff_nth_less nth_list_update)
  ultimately show ?thesis
    using assms(1) set_update_subset_insert [of "heap w" i ?s] by (auto simp: heap_ok_def)
qed

lemma issued_within:
  assumes "issued_ok w" "r \<in> set (issued w)"
  obtains j where "j < length (heap w)" "within r (heap w ! j)"
proof -
  obtain s where "s \<in> set (heap w)" "within r s" using assms unfolding issued_ok_def by blast
  then show ?thesis using that by (auto simp: in_set_conv_nth)
qed

lemma issued_ok_cas:
  assumes "heap_ok w" "issued_ok w" "i < length (heap w)" "0 < n"
    and fits: "seg_cursor (heap w ! i) + n \<le> seg_end (heap w ! i)"
  shows "issued_ok (w\<lparr>heap := (heap w)[i := (heap w ! i)\<lparr>seg_cursor := seg_cursor (heap w ! i) + n\<rparr>],
    issued := issued w @ [(seg_cursor (heap w ! i) + 1, n)]\<rparr>)"
proof -
  let ?s = "heap w ! i" and ?s' = "(heap w ! i)\<lparr>seg_cursor := seg_cursor (heap w ! i) + n\<rparr>"
  have ok: "seg_ok (row_max w) s" if "s \<in> set (heap w)" for s
    using assms(1) that by (auto simp: heap_ok_def)
  have in1: "\<exists>s \<in> set ((heap w)[i := ?s']). within r s" if r: "r \<in> set (issued w)" for r
  proof -
    obtain j where j: "j < length (heap w)" "within r (heap w ! j)"
      using issued_within [OF assms(2) r] by blast
    then have "within r ((heap w)[i := ?s'] ! j)"
      using assms(4) by (cases "j = i") (auto simp: within_def)
    with j(1) show ?thesis by (metis length_list_update nth_mem)
  qed
  have "within (seg_cursor ?s + 1, n) ?s'"
    using ok [of ?s] assms(3,4) by (simp add: within_def seg_ok_def)
  moreover have "?s' \<in> set ((heap w)[i := ?s'])" using assms(3) by (simp add: set_update_memI)
  ultimately have in2: "\<exists>s \<in> set ((heap w)[i := ?s']). within (seg_cursor ?s + 1, n) s" by blast
  have sep: "fst r + snd r \<le> seg_cursor ?s + 1 \<or> seg_cursor ?s + 1 + n \<le> fst r"
    if r: "r \<in> set (issued w)" for r
  proof -
    obtain j where j: "j < length (heap w)" "within r (heap w ! j)"
      using issued_within [OF assms(2) r] by blast
    have sorted: "a < b \<Longrightarrow> b < length (heap w) \<Longrightarrow> seg_end (heap w ! a) < seg_start (heap w ! b)" for a b
      using assms(1) by (auto simp: heap_ok_def sorted_wrt_iff_nth_less)
    from ok [of "heap w ! j"] ok [of ?s] j assms(3) fits show ?thesis
      using sorted [of i j] sorted [of j i]
      by (cases i j rule: linorder_cases) (auto simp: within_def seg_ok_def)
  qed
  have "disjoint_ranges (issued w @ [(seg_cursor ?s + 1, n)])"
    using assms(2) sep unfolding issued_ok_def disjoint_ranges_def sorted_wrt_append by fastforce
  with in1 in2 show ?thesis by (simp add: issued_ok_def)
qed

lemma refs_procsD:
  "refs_ok w \<Longrightarrow> procs w p = Some a \<Longrightarrow> 0 < ca_step a"
  "refs_ok w \<Longrightarrow> procs w p = Some a \<Longrightarrow> ca_cur a < length (heap w)"
  "refs_ok w \<Longrightarrow> procs w p = Some a \<Longrightarrow> ca_buf a = Some i \<Longrightarrow> i < length (heap w)"
  by (auto simp: refs_ok_def)

lemma refs_threadD:
  assumes "refs_ok w"
  shows "threads w t = PLoad n \<Longrightarrow> 0 < n" and "threads w t = PTake n i \<Longrightarrow> 0 < n \<and> i < length (heap w)"
    and "threads w t = PCas n i c \<Longrightarrow> 0 < n \<and> i < length (heap w) \<and> c + n \<le> seg_end (heap w ! i)"
    and "threads w t = PSwap n \<Longrightarrow> 0 < n"
  using assms unfolding refs_ok_def by (metis pc_ok.simps)+

lemma refs_ok_set_pc:
  assumes "refs_ok w" "pc_ok (heap w) c"
  shows "refs_ok (set_pc t c w)"
  using assms unfolding refs_ok_def by simp

lemma refs_ok_set_proc:
  assumes "refs_ok w" "0 < ca_step a" "ca_cur a < length (heap w)"
    and "\<And>i. ca_buf a = Some i \<Longrightarrow> i < length (heap w)"
  shows "refs_ok (set_proc p a w)"
  using assms unfolding refs_ok_def by simp

lemma pc_ok_append: "pc_ok h c \<Longrightarrow> pc_ok (h @ xs) c"
  by (cases c) (auto simp: nth_append)

lemma pc_ok_ends: "pc_ok h c \<Longrightarrow> length h' = length h \<Longrightarrow>
    (\<And>i. i < length h' \<Longrightarrow> seg_end (h' ! i) = seg_end (h ! i)) \<Longrightarrow> pc_ok h' c"
  by (cases c) auto

lemma refs_ok_load: "refs_ok w \<Longrightarrow> refs_ok (load step w)"
  unfolding refs_ok_def by (auto simp: pc_ok_append) (metis less_SucI)+

lemma refs_ok_heap:
  assumes "refs_ok w" "length h = length (heap w)" "\<And>i. i < length h \<Longrightarrow> seg_end (h ! i) = seg_end (heap w ! i)"
  shows "refs_ok (w\<lparr>heap := h, issued := x\<rparr>)"
  using assms unfolding refs_ok_def by (auto intro: pc_ok_ends [of "heap w"])

lemmas world_ok_intros = heap_ok_load issued_ok_load refs_ok_set_pc refs_ok_set_proc refs_ok_load

lemma sworld_invI: "heap_ok w \<Longrightarrow> refs_ok w \<Longrightarrow> issued_ok w \<Longrightarrow> sworld_inv w"
  by (simp add: sworld_inv_def)

lemma ok_set_pc [simp]: "heap_ok (set_pc t c w) = heap_ok w" "issued_ok (set_pc t c w) = issued_ok w"
  by (simp_all add: heap_ok_def issued_ok_def)

lemma ok_set_proc [simp]: "heap_ok (set_proc p a w) = heap_ok w" "issued_ok (set_proc p a w) = issued_ok w"
  by (simp_all add: heap_ok_def issued_ok_def)

lemma sstep_inv:
  assumes "sstep w w'" "sworld_inv w"
  shows "sworld_inv w'"
proof -
  have H: "heap_ok w" and R: "refs_ok w" and I: "issued_ok w"
    using assms(2) by (auto simp: sworld_inv_def)
  note D = refs_procsD [OF R] refs_threadD [OF R]
  from assms(1) show ?thesis
  proof cases
    case (burn m)
    then have "heap_ok w'" using H by (auto simp: heap_ok_def seg_ok_def)
    with burn R I show ?thesis by (auto simp: sworld_inv_def refs_ok_def issued_ok_def)
  next
    case (prefetch p a)
    have "refs_ok w'"
      unfolding prefetch(1)
      by (rule refs_ok_set_proc [OF refs_ok_load [OF R]]) (use D(1,2) [OF prefetch(2)] in auto)
    with prefetch(1) H I D(1) [OF prefetch(2)] show ?thesis
      by (simp add: sworld_inv_def heap_ok_load issued_ok_load)
  next
    case (casok p g n i c)
    note T = D(6) [OF casok(2)]
    have "refs_ok (w\<lparr>heap := (heap w)[i := (heap w ! i)\<lparr>seg_cursor := c + n\<rparr>], issued := issued w @ [(c + 1, n)]\<rparr>)"
      by (rule refs_ok_heap [OF R]) (use T in \<open>auto simp: nth_list_update\<close>)
    then have "refs_ok w'"
      unfolding casok(1) by (rule refs_ok_set_pc) (use T in simp)
    moreover have "heap_ok w'" "issued_ok w'"
      using heap_ok_cas [OF H, of i n] issued_ok_cas [OF H I, of i n] T casok(1,3) by auto
    ultimately show ?thesis by (simp add: sworld_inv_def)
  qed (use H R I D in \<open>auto intro!: sworld_invI world_ok_intros intro: less_SucI\<close>)
qed

lemma sworld_inv_world0: "sworld_inv world0"
  by (simp add: sworld_inv_def world0_def heap_ok_def refs_ok_def issued_ok_def disjoint_ranges_def)

lemma reachable_inv: "sstep\<^sup>*\<^sup>* world0 w \<Longrightarrow> sworld_inv w"
  by (induction rule: rtranclp_induct) (auto intro: sstep_inv sworld_inv_world0)

lemma ranges_apart: "a + n \<le> b \<or> b + m \<le> a \<Longrightarrow> {a..<a + n} \<inter> {b..<b + m :: int} = {}"
  by (rule disjoint_iff [THEN iffD2]) auto

text \<open>
  C26: No number is ever issued twice: in every state that any number of processes and goroutines
  can reach, with their atomic operations interleaved in any order, stale segment pointers,
  lost commits and concurrent prefetches included, the ranges taken so far are pairwise
  disjoint, start at 1 or above and lie within what the database row has granted.
\<close>

theorem issued_numbers_unique:
  assumes "sstep\<^sup>*\<^sup>* world0 w"
  shows "sorted_wrt (\<lambda>(a, n) (b, m). {a..<a + n} \<inter> {b..<b + m} = {}) (issued w) \<and>
    (\<forall>r \<in> set (issued w). 1 \<le> fst r \<and> 0 < snd r \<and> fst r + snd r - 1 \<le> row_max w)"
proof -
  have H: "heap_ok w" and I: "issued_ok w"
    using reachable_inv [OF assms] by (auto simp: sworld_inv_def)
  have "sorted_wrt (\<lambda>(a, n) (b, m). {a..<a + n} \<inter> {b..<b + m} = {}) (issued w)"
  proof (rule sorted_wrt_mono_rel)
    show "sorted_wrt (\<lambda>(a, n) (b, m). a + n \<le> b \<or> b + m \<le> a) (issued w)"
      using I by (simp add: issued_ok_def disjoint_ranges_def)
  qed (auto dest: ranges_apart)
  moreover have "1 \<le> fst r \<and> 0 < snd r \<and> fst r + snd r - 1 \<le> row_max w" if r: "r \<in> set (issued w)" for r
  proof -
    obtain j where j: "j < length (heap w)" "within r (heap w ! j)" using issued_within [OF I r] .
    then have "seg_ok (row_max w) (heap w ! j)" using H by (simp add: heap_ok_def)
    with j(2) show ?thesis by (auto simp: seg_ok_def within_def)
  qed
  ultimately show ?thesis by blast
qed

definition conc1 :: sworld where
  "conc1 = set_proc 0 \<lparr>ca_step = 10, ca_cur = 0, ca_buf = None, ca_last = 0, ca_pending = 0\<rparr> (load 10 world0)"

definition conc2 :: sworld where
  "conc2 = set_pc (0, 0) (PCas 3 0 0) (set_pc (0, 0) (PTake 3 0) (set_pc (0, 0) (PLoad 3) conc1))"

lemma conc2_reachable: "sstep\<^sup>*\<^sup>* world0 conc2"
proof -
  have 1: "sstep world0 conc1"
    using sstep.new [of world0 0 10] by (simp add: conc1_def world0_def)
  have 2: "sstep conc1 (set_pc (0, 0) (PLoad 3) conc1)"
    by (rule sstep.call [where a = "\<lparr>ca_step = 10, ca_cur = 0, ca_buf = None, ca_last = 0,
        ca_pending = 0\<rparr>"]) (simp_all add: conc1_def world0_def)
  have 3: "sstep (set_pc (0, 0) (PLoad 3) conc1) (set_pc (0, 0) (PTake 3 0) (set_pc (0, 0) (PLoad 3) conc1))"
    using sstep.loadcur [of "set_pc (0, 0) (PLoad 3) conc1" 0 0 3] by (simp add: conc1_def)
  have 4: "sstep (set_pc (0, 0) (PTake 3 0) (set_pc (0, 0) (PLoad 3) conc1)) conc2"
    using sstep.readcur [of "set_pc (0, 0) (PTake 3 0) (set_pc (0, 0) (PLoad 3) conc1)" 0 0 3 0]
    by (simp add: conc2_def conc1_def world0_def newSegment_def)
  from 1 2 3 4 show ?thesis by (meson rtranclp.rtrancl_refl rtranclp.rtrancl_into_rtrancl)
qed

lemma issued_numbers_unique_witness:
  "\<exists>w. sstep\<^sup>*\<^sup>* world0 w \<and> issued w = [(1, 3)] \<and> 3 \<le> row_max w"
proof -
  define w where "w = set_pc (0, 0) (PLast 0 1 3)
    (conc2\<lparr>heap := (heap conc2)[0 := (heap conc2 ! 0)\<lparr>seg_cursor := 3\<rparr>], issued := issued conc2 @ [(1, 3)]\<rparr>)"
  have "sstep conc2 w"
    using sstep.casok [of conc2 0 0 3 0 0]
    by (simp add: w_def conc2_def conc1_def world0_def newSegment_def)
  with conc2_reachable have r: "sstep\<^sup>*\<^sup>* world0 w" by (rule rtranclp.rtrancl_into_rtrancl)
  have "issued w = [(1, 3)]" by (simp add: w_def conc2_def conc1_def world0_def)
  with issued_numbers_unique [OF r] r show ?thesis by auto
qed

end
