(* ===== verification/HashRing.thy ===== *)
theory HashRing
  imports Prelude
begin

text \<open>
  The consistent-hash ring (\<open>internal/hashring/hashring.go\<close>) and FNV-1a with 64-bit words. The
  ring's vnodes are kept sorted by hash; \<open>Get\<close> finds by binary search the first vnode at or
  after the key's hash, wrapping around. \<open>sort.Slice\<close> is a sort by hash; where two vnodes
  collide its order is the library's choice, and the statements that depend on it assume that
  no two hashes collide.
\<close>

definition fnv_offset :: "64 word" where "fnv_offset = 14695981039346656037"
definition fnv_prime :: "64 word" where "fnv_prime = 1099511628211"

definition fnv1a :: "8 word list \<Rightarrow> 64 word" where
  \<comment> \<open>\<open>hash/fnv.New64a\<close>: xor the byte, multiply by the prime\<close>
  "fnv1a bs = fold (\<lambda>b h. (h XOR ucast b) * fnv_prime) bs fnv_offset"

definition bytes_of :: "string \<Rightarrow> 8 word list" where
  "bytes_of s = map (\<lambda>c. of_nat (of_char c)) s"

definition hashKey :: "string \<Rightarrow> nat" where
  "hashKey s = unat (fnv1a (bytes_of s))"

record vnode =
  vn_hash :: nat
  vn_node :: string

record Ring =
  vnodes :: "vnode list"
  vnodesPerNode :: nat
  nodes :: "string list"   \<comment> \<open>the key set of the map \<open>nodes\<close>\<close>

definition NewRing :: "int \<Rightarrow> Ring" where
  "NewRing n = \<lparr>vnodes = [], vnodesPerNode = (if n \<le> 0 then 100 else nat n), nodes = []\<rparr>"

definition node_vnodes :: "string \<Rightarrow> nat \<Rightarrow> vnode list" where
  "node_vnodes node count =
     map (\<lambda>i. \<lparr>vn_hash = hashKey (node @ ''#'' @ nat_str i), vn_node = node\<rparr>) [0..<count]"

definition AddNode :: "string \<Rightarrow> int \<Rightarrow> Ring \<Rightarrow> Ring" where
  "AddNode node weight0 r =
     (let weight = (if weight0 \<le> 0 then 1 else weight0)
      in if node \<in> set (nodes r) then r
         else r\<lparr>nodes := node # nodes r,
                vnodes := sort_key vn_hash (vnodes r @ node_vnodes node (vnodesPerNode r * nat weight))\<rparr>)"

definition RemoveNode :: "string \<Rightarrow> Ring \<Rightarrow> Ring" where
  "RemoveNode node r =
     (if node \<notin> set (nodes r) then r
      else r\<lparr>nodes := filter (\<lambda>n. n \<noteq> node) (nodes r),
             vnodes := filter (\<lambda>v. vn_node v \<noteq> node) (vnodes r)\<rparr>)"

function bsearch :: "(nat \<Rightarrow> bool) \<Rightarrow> nat \<Rightarrow> nat \<Rightarrow> nat" where
  \<comment> \<open>\<open>sort.Search\<close>: the loop over \<open>[lo, hi)\<close>\<close>
  "bsearch P lo hi =
     (if lo < hi then
        (let m = (lo + hi) div 2 in if P m then bsearch P lo m else bsearch P (m + 1) hi)
      else lo)"
  by pat_completeness auto
termination by (relation "measure (\<lambda>(P, lo, hi). hi - lo)") auto

declare bsearch.simps [simp del]

lemma bsearch_stop [simp]: "\<not> lo < hi \<Longrightarrow> bsearch P lo hi = lo"
  by (simp add: bsearch.simps)

definition ring_index :: "nat \<Rightarrow> vnode list \<Rightarrow> nat" where
  "ring_index h vs =
     (let i = bsearch (\<lambda>i. h \<le> vn_hash (vs ! i)) 0 (length vs) in if i = length vs then 0 else i)"

definition GetNode :: "string \<Rightarrow> Ring \<Rightarrow> string option" where
  "GetNode key r =
     (if vnodes r = [] then None
      else Some (vn_node (vnodes r ! ring_index (hashKey key) (vnodes r))))"

fun collect_nodes :: "nat \<Rightarrow> string list \<Rightarrow> vnode list \<Rightarrow> string list" where
  "collect_nodes n out [] = out"
| "collect_nodes n out (v # vs) =
     (if length out < n
      then collect_nodes n (if vn_node v \<in> set out then out else out @ [vn_node v]) vs
      else out)"

definition GetN :: "string \<Rightarrow> int \<Rightarrow> Ring \<Rightarrow> string list" where
  "GetN key n r =
     (if nodes r = [] \<or> n \<le> 0 then []
      else (let vs = vnodes r; i = ring_index (hashKey key) vs
            in collect_nodes (nat n) []
                 (map (\<lambda>j. vs ! ((i + j) mod length vs)) [0..<length vs])))"

subsection \<open>Binary search and the clockwise successor\<close>

lemma bsearch_range: "lo \<le> hi \<Longrightarrow> lo \<le> bsearch P lo hi \<and> bsearch P lo hi \<le> hi"
proof (induction P lo hi rule: bsearch.induct)
  case (1 P lo hi)
  show ?case
  proof (cases "lo < hi")
    case True
    let ?m = "(lo + hi) div 2"
    have m: "lo \<le> ?m" "?m < hi" using True by auto
    show ?thesis
    proof (cases "P ?m")
      case P: True
      have eq: "bsearch P lo hi = bsearch P lo ?m" using True P by (subst bsearch.simps) (simp add: Let_def)
      from 1(1) [OF True refl P] m show ?thesis unfolding eq by auto
    next
      case nP: False
      have eq: "bsearch P lo hi = bsearch P (?m + 1) hi" using True nP by (subst bsearch.simps) (simp add: Let_def)
      from 1(2) [OF True refl nP] m show ?thesis unfolding eq by auto
    qed
  qed (use 1(3) in auto)
qed

lemma bsearch_first:
  assumes "lo \<le> hi" "\<And>i j. lo \<le> i \<Longrightarrow> i \<le> j \<Longrightarrow> j < hi \<Longrightarrow> P i \<Longrightarrow> P j"
  shows "(\<forall>i. lo \<le> i \<and> i < bsearch P lo hi \<longrightarrow> \<not> P i) \<and> (bsearch P lo hi < hi \<longrightarrow> P (bsearch P lo hi))"
  using assms
proof (induction P lo hi rule: bsearch.induct)
  case (1 P lo hi)
  show ?case
  proof (cases "lo < hi")
    case True
    let ?m = "(lo + hi) div 2"
    have m: "lo \<le> ?m" "?m < hi" using True by auto
    show ?thesis
    proof (cases "P ?m")
      case P: True
      have eq: "bsearch P lo hi = bsearch P lo ?m" using True P by (subst bsearch.simps) (simp add: Let_def)
      have IH: "(\<forall>i. lo \<le> i \<and> i < bsearch P lo ?m \<longrightarrow> \<not> P i) \<and> (bsearch P lo ?m < ?m \<longrightarrow> P (bsearch P lo ?m))"
      proof (rule 1(1) [OF True refl P m(1)])
        fix i j assume "lo \<le> i" "i \<le> j" "j < ?m" "P i"
        with m(2) 1(4) [of i j] show "P j" by linarith
      qed
      have "bsearch P lo ?m \<le> ?m" using bsearch_range [of lo ?m P] m by simp
      with IH P show ?thesis unfolding eq by (cases "bsearch P lo ?m = ?m") auto
    next
      case nP: False
      have eq: "bsearch P lo hi = bsearch P (?m + 1) hi" using True nP by (subst bsearch.simps) (simp add: Let_def)
      have IH: "(\<forall>i. ?m + 1 \<le> i \<and> i < bsearch P (?m + 1) hi \<longrightarrow> \<not> P i) \<and>
          (bsearch P (?m + 1) hi < hi \<longrightarrow> P (bsearch P (?m + 1) hi))"
      proof (rule 1(2) [OF True refl nP])
        show "?m + 1 \<le> hi" using m(2) by simp
        fix i j assume "?m + 1 \<le> i" "i \<le> j" "j < hi" "P i"
        with m(1) 1(4) [of i j] show "P j" by linarith
      qed
      have "\<not> P i" if "lo \<le> i" "i \<le> ?m" for i using 1(4) [of i ?m] that m nP by auto
      with IH show ?thesis unfolding eq by (metis Suc_eq_plus1 not_less_eq_eq)
    qed
  qed (use 1(3) in auto)
qed

definition sorted_ring :: "Ring \<Rightarrow> bool" where
  "sorted_ring r \<longleftrightarrow> sorted (map vn_hash (vnodes r)) \<and> set (map vn_node (vnodes r)) = set (nodes r)
     \<and> distinct (nodes r)"

definition clockwise :: "nat \<Rightarrow> vnode list \<Rightarrow> vnode \<Rightarrow> bool" where
  \<comment> \<open>\<open>v\<close> is the first vnode at or after \<open>h\<close>, or the first of all when none is\<close>
  "clockwise h vs v \<longleftrightarrow> v \<in> set vs \<and>
     (if \<exists>w \<in> set vs. h \<le> vn_hash w
      then h \<le> vn_hash v \<and> (\<forall>w \<in> set vs. h \<le> vn_hash w \<longrightarrow> vn_hash v \<le> vn_hash w)
      else (\<forall>w \<in> set vs. vn_hash v \<le> vn_hash w))"

lemma ring_index_clockwise:
  assumes "sorted (map vn_hash vs)" "vs \<noteq> []"
  shows "ring_index h vs < length vs \<and> clockwise h vs (vs ! ring_index h vs)"
proof -
  let ?P = "\<lambda>i. h \<le> vn_hash (vs ! i)" and ?b = "bsearch (\<lambda>i. h \<le> vn_hash (vs ! i)) 0 (length vs)"
  have mono: "i \<le> j \<Longrightarrow> j < length vs \<Longrightarrow> vn_hash (vs ! i) \<le> vn_hash (vs ! j)" for i j
    using assms(1) by (auto simp: sorted_iff_nth_mono)
  have up: "?P j" if "0 \<le> i" "i \<le> j" "j < length vs" "?P i" for i j
    using mono [OF that(2,3)] that(4) by linarith
  have first: "\<forall>i < ?b. \<not> ?P i" "?b < length vs \<Longrightarrow> ?P ?b"
    using bsearch_first [of 0 "length vs" ?P, OF _ up] by simp_all
  have le: "?b \<le> length vs" using bsearch_range [of 0 "length vs" ?P] by simp
  show ?thesis
  proof (cases "?b = length vs")
    case True
    then have "ring_index h vs = 0" by (simp add: ring_index_def)
    moreover have "\<not> (\<exists>w \<in> set vs. h \<le> vn_hash w)"
      using first(1) True by (auto simp: in_set_conv_nth)
    moreover have "\<forall>w \<in> set vs. vn_hash (vs ! 0) \<le> vn_hash w"
      using mono by (auto simp: in_set_conv_nth)
    ultimately show ?thesis using assms(2) by (simp add: clockwise_def)
  next
    case False
    then have b: "?b < length vs" "ring_index h vs = ?b" using le by (auto simp: ring_index_def)
    have "vn_hash (vs ! ?b) \<le> vn_hash w" if w: "w \<in> set vs" "h \<le> vn_hash w" for w
    proof -
      obtain i where i: "i < length vs" "w = vs ! i" using w(1) by (auto simp: in_set_conv_nth)
      with first(1) w(2) have "?b \<le> i" by (meson not_less)
      with mono i show ?thesis by blast
    qed
    moreover have "\<exists>w \<in> set vs. h \<le> vn_hash w" using first(2) b(1) nth_mem by blast
    ultimately show ?thesis using b first(2) by (simp add: clockwise_def)
  qed
qed

lemma clockwise_unique:
  assumes "clockwise h vs v" "clockwise h vs w" "inj_on vn_hash (set vs)"
  shows "v = w"
proof -
  have "vn_hash v = vn_hash w" "v \<in> set vs" "w \<in> set vs"
    using assms(1,2) by (auto simp: clockwise_def intro: order_antisym split: if_splits)
  with assms(3) show ?thesis by (auto simp: inj_on_def)
qed

lemma clockwise_subset:
  assumes "clockwise h vs v" "v \<in> set us" "set us \<subseteq> set vs"
  shows "clockwise h us v"
  using assms unfolding clockwise_def by (auto split: if_splits)

lemma GetNode_clockwise:
  assumes "sorted_ring r" "inj_on vn_hash (set (vnodes r))" "clockwise (hashKey k) (vnodes r) v"
  shows "GetNode k r = Some (vn_node v)"
proof -
  have ne: "vnodes r \<noteq> []" using assms(3) by (auto simp: clockwise_def)
  with assms(1) ring_index_clockwise [of "vnodes r" "hashKey k"]
  have "clockwise (hashKey k) (vnodes r) (vnodes r ! ring_index (hashKey k) (vnodes r))"
    by (simp add: sorted_ring_def)
  with assms(2,3) clockwise_unique ne show ?thesis by (metis GetNode_def)
qed

lemma GetNode_SomeE:
  assumes "GetNode k r = Some n" "sorted_ring r"
  obtains v where "clockwise (hashKey k) (vnodes r) v" "vn_node v = n"
  using assms ring_index_clockwise [of "vnodes r" "hashKey k"]
  by (auto simp: GetNode_def sorted_ring_def split: if_splits)

lemma node_vnodes_node: "v \<in> set (node_vnodes n c) \<Longrightarrow> vn_node v = n"
  by (auto simp: node_vnodes_def)

lemma sorted_ring_New [simp]: "sorted_ring (NewRing n)"
  by (simp add: sorted_ring_def NewRing_def)

lemma sorted_ring_Add:
  assumes "sorted_ring r" "0 < vnodesPerNode r"
  shows "sorted_ring (AddNode n w r)"
proof -
  have "vn_node ` set (node_vnodes n (vnodesPerNode r * nat (if w \<le> 0 then 1 else w))) = {n}"
    using assms(2) by (auto simp: node_vnodes_def image_image image_constant_conv)
  with assms(1) show ?thesis
    by (auto simp: sorted_ring_def AddNode_def Let_def image_Un split: if_splits)
qed

lemma sorted_ring_Remove: "sorted_ring r \<Longrightarrow> sorted_ring (RemoveNode n r)"
  by (auto simp: sorted_ring_def RemoveNode_def sorted_filter)

text \<open>
  Adding a node moves only keys that go to the new node: with no two vnode hashes equal, a
  key is afterwards either on the new node or on the node it was on before.
\<close>

theorem add_node_minimal_disruption:
  assumes "sorted_ring r" "0 < vnodesPerNode r"
    and "inj_on vn_hash (set (vnodes (AddNode n w r)))"
    and "GetNode k r = Some m"
  shows "GetNode k (AddNode n w r) \<in> {Some m, Some n}"
proof (cases "n \<in> set (nodes r)")
  case True
  then show ?thesis using assms(4) by (simp add: AddNode_def)
next
  case False
  obtain c where vs: "set (vnodes (AddNode n w r)) = set (vnodes r) \<union> set (node_vnodes n c)"
    using False by (simp add: AddNode_def Let_def)
  obtain v where v: "clockwise (hashKey k) (vnodes r) v" "vn_node v = m"
    using GetNode_SomeE [OF assms(4,1)] .
  have ne: "vnodes (AddNode n w r) \<noteq> []" using vs v(1) by (auto simp: clockwise_def)
  with sorted_ring_Add [OF assms(1,2)] ring_index_clockwise
  obtain x where x: "clockwise (hashKey k) (vnodes (AddNode n w r)) x"
    by (metis sorted_ring_def)
  have get: "GetNode k (AddNode n w r) = Some (vn_node x)"
    by (rule GetNode_clockwise [OF sorted_ring_Add [OF assms(1,2)] assms(3) x])
  show ?thesis
  proof (cases "x \<in> set (vnodes r)")
    case True
    have "clockwise (hashKey k) (vnodes r) x"
      by (rule clockwise_subset [OF x True]) (simp add: vs)
    moreover have "inj_on vn_hash (set (vnodes r))"
      by (rule inj_on_subset [OF assms(3)]) (simp add: vs)
    ultimately have "x = v" using v(1) clockwise_unique by blast
    with get v(2) show ?thesis by simp
  next
    case False
    then have "x \<in> set (node_vnodes n c)" using x vs by (auto simp: clockwise_def)
    with get show ?thesis by (simp add: node_vnodes_node)
  qed
qed

definition ring1 :: Ring where
  "ring1 = AddNode ''a'' 1 (NewRing 1)"

lemma nat_str_0 [simp]: "nat_str 0 = ''0''"
  by code_simp

lemma ring1_simps: "sorted_ring ring1" "nodes ring1 = [''a'']" "vnodesPerNode ring1 = 1"
  "vnodes ring1 = [\<lparr>vn_hash = hashKey ''a#0'', vn_node = ''a''\<rparr>]"
  by (simp_all add: ring1_def NewRing_def AddNode_def node_vnodes_def sorted_ring_def)

lemma ring1_b: "vnodes (AddNode ''b'' 1 ring1) = sort_key vn_hash
    [\<lparr>vn_hash = hashKey ''a#0'', vn_node = ''a''\<rparr>, \<lparr>vn_hash = hashKey ''b#0'', vn_node = ''b''\<rparr>]"
  by (simp add: AddNode_def ring1_simps node_vnodes_def)

lemma hash_a_b: "hashKey ''a#0'' \<noteq> hashKey ''b#0''"
  by (simp add: hashKey_def fnv1a_def bytes_of_def fnv_offset_def fnv_prime_def)

lemma add_node_minimal_disruption_witness:
  "GetNode ''alice'' (AddNode ''b'' 1 ring1) \<in> {Some ''a'', Some ''b''}"
proof (rule add_node_minimal_disruption)
  show "inj_on vn_hash (set (vnodes (AddNode ''b'' 1 ring1)))"
    using hash_a_b by (auto simp: ring1_b inj_on_def simp del: sort_key_simps)
  show "GetNode ''alice'' ring1 = Some ''a''"
    using ring_index_clockwise [of "vnodes ring1" "hashKey ''alice''"] by (simp add: GetNode_def ring1_simps)
qed (simp_all add: ring1_simps)

text \<open>
  Removing a node moves only the keys that were on it: with no two vnode hashes equal, a key
  on another node stays there.
\<close>

theorem remove_node_minimal_disruption:
  assumes "sorted_ring r" "inj_on vn_hash (set (vnodes r))" "GetNode k r = Some m" "m \<noteq> n"
  shows "GetNode k (RemoveNode n r) = Some m"
proof -
  obtain v where v: "clockwise (hashKey k) (vnodes r) v" "vn_node v = m"
    using GetNode_SomeE [OF assms(3,1)] .
  have vs: "set (vnodes (RemoveNode n r)) \<subseteq> set (vnodes r)"
    by (auto simp: RemoveNode_def)
  have "v \<in> set (vnodes (RemoveNode n r))"
    using v assms(4) by (auto simp: RemoveNode_def clockwise_def)
  then have "clockwise (hashKey k) (vnodes (RemoveNode n r)) v"
    using clockwise_subset [OF v(1) _ vs] by blast
  with GetNode_clockwise [OF sorted_ring_Remove [OF assms(1)] inj_on_subset [OF assms(2) vs]] v(2)
  show ?thesis by blast
qed

lemma remove_node_minimal_disruption_witness:
  "GetNode ''alice'' (RemoveNode ''z'' ring1) = Some ''a''"
proof (rule remove_node_minimal_disruption)
  show "GetNode ''alice'' ring1 = Some ''a''"
    using ring_index_clockwise [of "vnodes ring1" "hashKey ''alice''"] by (simp add: GetNode_def ring1_simps)
qed (simp_all add: ring1_simps)

lemma collect_nodes_props:
  assumes "distinct out"
  shows "distinct (collect_nodes n out vs)"
    and "set (collect_nodes n out vs) \<subseteq> set out \<union> vn_node ` set vs"
    and "length out \<le> n \<Longrightarrow> length (collect_nodes n out vs) = min n (card (set out \<union> vn_node ` set vs))"
    and "\<exists>rest. collect_nodes n out vs = out @ rest"
proof -
  have "distinct (collect_nodes n out vs) \<and> set (collect_nodes n out vs) \<subseteq> set out \<union> vn_node ` set vs \<and>
    (length out \<le> n \<longrightarrow> length (collect_nodes n out vs) = min n (card (set out \<union> vn_node ` set vs))) \<and>
    (\<exists>rest. collect_nodes n out vs = out @ rest)"
    using assms
  proof (induction n out vs rule: collect_nodes.induct)
    case (1 n out)
    then show ?case by (simp add: distinct_card)
  next
    case (2 n out v vs)
    show ?case
    proof (cases "length out < n")
      case True
      then show ?thesis
        using 2 by (cases "vn_node v \<in> set out") (auto simp: insert_absorb)
    next
      case False
      have "card (set out) \<le> card (set out \<union> vn_node ` set (v # vs))" by (intro card_mono) auto
      with False 2(2) show ?thesis by (auto simp: distinct_card)
    qed
  qed
  then show "distinct (collect_nodes n out vs)"
    and "set (collect_nodes n out vs) \<subseteq> set out \<union> vn_node ` set vs"
    and "length out \<le> n \<Longrightarrow> length (collect_nodes n out vs) = min n (card (set out \<union> vn_node ` set vs))"
    and "\<exists>rest. collect_nodes n out vs = out @ rest"
    by blast+
qed

lemma set_rotated: "i < length vs \<Longrightarrow> set (map (\<lambda>j. vs ! ((i + j) mod length vs)) [0..<length vs]) = set vs"
proof -
  assume i: "i < length vs"
  then have pos: "0 < length vs" by linarith
  have "(\<lambda>j. (i + j) mod length vs) ` {0..<length vs} = {0..<length vs}"
  proof
    show "{0..<length vs} \<subseteq> (\<lambda>j. (i + j) mod length vs) ` {0..<length vs}"
    proof
      fix m assume m: "m \<in> {0..<length vs}"
      from m have "(i + (m + length vs - i) mod length vs) mod length vs = m"
        using i by (simp add: mod_add_right_eq)
      then show "m \<in> (\<lambda>j. (i + j) mod length vs) ` {0..<length vs}"
        using mod_less_divisor [OF pos] by (intro image_eqI [of _ _ "(m + length vs - i) mod length vs"]) auto
    qed
  qed (use mod_less_divisor [OF pos] in auto)
  then have im: "(\<lambda>j. (i + j) mod length vs) ` {0..<length vs} = {0..<length vs}" .
  have "set (map (\<lambda>j. vs ! ((i + j) mod length vs)) [0..<length vs]) =
      (!) vs ` ((\<lambda>j. (i + j) mod length vs) ` {0..<length vs})"
    by (simp add: image_image)
  also have "\<dots> = set vs" by (simp only: im nth_image [OF order_refl] take_all_iff) simp
  finally show ?thesis .
qed

text \<open>
  \<open>GetN\<close> returns distinct nodes of the ring, exactly the smaller of the number asked for and
  the number of nodes, and the first is the node \<open>Get\<close> returns.
\<close>

theorem getn_distinct_and_complete:
  assumes "sorted_ring r"
  shows "distinct (GetN k n r) \<and> set (GetN k n r) \<subseteq> set (nodes r) \<and>
    length (GetN k n r) = min (nat n) (length (nodes r)) \<and>
    (0 < n \<longrightarrow> nodes r \<noteq> [] \<longrightarrow> GetNode k r = Some (hd (GetN k n r)))"
proof (cases "nodes r = [] \<or> n \<le> 0")
  case True
  then show ?thesis by (auto simp: GetN_def)
next
  case False
  let ?vs = "vnodes r" and ?i = "ring_index (hashKey k) (vnodes r)"
  let ?rot = "map (\<lambda>j. ?vs ! ((?i + j) mod length ?vs)) [0..<length ?vs]"
  have ns: "vn_node ` set ?vs = set (nodes r)" using assms by (simp add: sorted_ring_def)
  with False have ne: "?vs \<noteq> []" by auto
  have i: "?i < length ?vs" using ring_index_clockwise assms ne by (auto simp: sorted_ring_def)
  have get: "GetN k n r = collect_nodes (nat n) [] ?rot" using False by (simp add: GetN_def Let_def)
  have rot: "set ?rot = set ?vs" by (rule set_rotated [OF i])
  have card: "card (set (nodes r)) = length (nodes r)" using assms by (simp add: sorted_ring_def distinct_card)
  have hd: "?rot = ?vs ! ?i # tl ?rot"
    using ne i by (cases "length ?vs") (auto simp: upt_conv_Cons simp del: upt_Suc)
  obtain q where q: "nat n = Suc q" using False by (cases "nat n") auto
  have "collect_nodes (nat n) [] ?rot = collect_nodes (nat n) [vn_node (?vs ! ?i)] (tl ?rot)"
    by (subst hd) (simp add: q)
  then obtain rest where "GetN k n r = [vn_node (?vs ! ?i)] @ rest"
    using collect_nodes_props(4) [of "[vn_node (?vs ! ?i)]" "nat n" "tl ?rot"] get by auto
  moreover have "GetNode k r = Some (vn_node (?vs ! ?i))" using ne by (simp add: GetNode_def)
  ultimately show ?thesis
    using collect_nodes_props(1-3) [of "[]" "nat n" ?rot] rot ns card get by auto
qed

definition ring2 :: Ring where
  "ring2 = AddNode ''b'' 1 (AddNode ''a'' 1 (NewRing 2))"

lemma ring2_sorted: "sorted_ring ring2"
  unfolding ring2_def by (intro sorted_ring_Add sorted_ring_New) (simp_all add: NewRing_def AddNode_def)

lemma getn_distinct_and_complete_witness:
  "distinct (GetN ''alice'' 3 ring2) \<and> length (GetN ''alice'' 3 ring2) = 2"
proof -
  have "length (nodes ring2) = 2" by (simp add: ring2_def AddNode_def NewRing_def Let_def)
  with getn_distinct_and_complete [OF ring2_sorted, of "''alice''" 3] show ?thesis by simp
qed

end
