(* ===== verification/Bloom.thy ===== *)
theory Bloom
  imports HashRing
begin

text \<open>
  The double-buffered Bloom filter (\<open>internal/cache/bloom.go\<close>) and the composite key
  \<open>BloomKey\<close> (\<open>internal/cache/cache.go\<close>). A generation is the list of its 64-bit words; the filter
  is the pair of the current generation and the one being rebuilt. \<open>Add\<close> and \<open>Rebuild\<close> are given
  as whole operations here; \<open>BloomConc\<close> splits them into their loads and stores.
\<close>

definition le_bytes :: "64 word \<Rightarrow> 8 word list" where
  \<comment> \<open>\<open>binary.LittleEndian.PutUint64\<close>\<close>
  "le_bytes w = map (\<lambda>i. ucast (drop_bit (8 * i) w)) [0..<8]"

definition BloomKey :: "int \<Rightarrow> int \<Rightarrow> 64 word" where
  "BloomKey convID clientMsgID = fnv1a (le_bytes (word_of_int convID) @ le_bytes (word_of_int clientMsgID))"

type_synonym bloomGen = "64 word list"

record Bloom =
  mBits :: nat
  bk :: nat
  cur :: bloomGen
  building :: "bloomGen option"

definition newGen :: "nat \<Rightarrow> bloomGen" where
  "newGen m = replicate ((m + 63) div 64) 0"

definition NewBloom :: "nat \<Rightarrow> nat \<Rightarrow> Bloom" where
  "NewBloom m0 k0 =
     (let m = (if m0 = 0 then 2 ^ 25 else m0); k = (if k0 = 0 then 4 else k0)
      in \<lparr>mBits = m, bk = k, cur = newGen m, building = None\<rparr>)"

definition hashes :: "nat \<Rightarrow> nat \<Rightarrow> 64 word \<Rightarrow> nat list" where
  "hashes m k key =
     (let h1 = fnv1a (le_bytes key); h2 = fnv1a (le_bytes key @ [0xB7])
      in map (\<lambda>i. unat (h1 + of_nat i * h2) mod m) [0..<k])"

definition gen_add :: "nat list \<Rightarrow> bloomGen \<Rightarrow> bloomGen" where
  "gen_add pos g = fold (\<lambda>p g. g[p div 64 := (g ! (p div 64)) OR push_bit (p mod 64) 1]) pos g"

definition gen_mightContain :: "nat list \<Rightarrow> bloomGen \<Rightarrow> bool" where
  "gen_mightContain pos g \<longleftrightarrow> list_all (\<lambda>p. (g ! (p div 64)) AND push_bit (p mod 64) 1 \<noteq> 0) pos"

definition bloom_pos :: "Bloom \<Rightarrow> 64 word \<Rightarrow> nat list" where
  "bloom_pos b key = hashes (mBits b) (bk b) key"

definition BloomAdd :: "64 word \<Rightarrow> Bloom \<Rightarrow> Bloom" where
  "BloomAdd key b = b\<lparr>cur := gen_add (bloom_pos b key) (cur b),
     building := map_option (gen_add (bloom_pos b key)) (building b)\<rparr>"

definition MightContain :: "Bloom \<Rightarrow> 64 word \<Rightarrow> bool" where
  "MightContain b key = gen_mightContain (bloom_pos b key) (cur b)"

definition rebuild_start :: "Bloom \<Rightarrow> Bloom" where
  "rebuild_start b = b\<lparr>building := Some (newGen (mBits b))\<rparr>"

definition rebuild_load :: "64 word \<Rightarrow> Bloom \<Rightarrow> Bloom" where
  "rebuild_load key b = b\<lparr>building := map_option (gen_add (bloom_pos b key)) (building b)\<rparr>"

definition rebuild_swap :: "Bloom \<Rightarrow> Bloom" where
  "rebuild_swap b = b\<lparr>cur := (case building b of Some g \<Rightarrow> g | None \<Rightarrow> cur b)\<rparr>"

definition rebuild_end :: "Bloom \<Rightarrow> Bloom" where
  "rebuild_end b = b\<lparr>building := None\<rparr>"

definition Rebuild :: "string + 64 word list \<Rightarrow> Bloom \<Rightarrow> string option \<times> Bloom" where
  "Rebuild loader b =
     (case loader of
        Inl e \<Rightarrow> (Some e, rebuild_end (rebuild_start b))
      | Inr keys \<Rightarrow> (None, rebuild_end (rebuild_swap (fold rebuild_load keys (rebuild_start b)))))"

subsection \<open>One generation\<close>

definition gen_ok :: "nat \<Rightarrow> bloomGen \<Rightarrow> bool" where
  "gen_ok m g \<longleftrightarrow> length g = (m + 63) div 64"

definition bit_set :: "bloomGen \<Rightarrow> nat \<Rightarrow> bool" where
  "bit_set g p \<longleftrightarrow> bit (g ! (p div 64)) (p mod 64)"

lemma bit_pow2: "bit ((2 :: 64 word) ^ n) i \<longleftrightarrow> i = n \<and> n < 64"
  by (auto simp: bit_exp_iff)

lemma and_bit_nonzero: "(w AND 2 ^ n \<noteq> (0 :: 64 word)) \<longleftrightarrow> n < 64 \<and> bit w n"
proof -
  have "bit (w AND 2 ^ n) i \<longleftrightarrow> i = n \<and> n < 64 \<and> bit w n" for i
    by (auto simp: bit_and_iff bit_pow2)
  then show ?thesis by (auto simp: bit_eq_iff)
qed

lemma gen_mightContain_iff: "gen_mightContain pos g \<longleftrightarrow> (\<forall>p \<in> set pos. bit_set g p)"
  by (simp add: gen_mightContain_def list_all_iff and_bit_nonzero bit_set_def)

lemma bit_set_update:
  assumes "p div 64 < length g"
  shows "bit_set (g[p div 64 := (g ! (p div 64)) OR push_bit (p mod 64) 1]) q \<longleftrightarrow> bit_set g q \<or> q = p"
proof (cases "q div 64 = p div 64")
  case True
  have "(q mod 64 = p mod 64) = (q = p)" using True by (metis div_mult_mod_eq)
  with True assms show ?thesis
    by (auto simp: bit_set_def bit_or_iff bit_pow2)
next
  case False
  then show ?thesis by (auto simp: bit_set_def)
qed

lemma gen_add_effect:
  assumes "gen_ok m g" "\<forall>p \<in> set pos. p < m"
  shows "gen_ok m (gen_add pos g)" and "bit_set (gen_add pos g) q \<longleftrightarrow> bit_set g q \<or> q \<in> set pos"
proof -
  have "gen_ok m (gen_add pos g) \<and> (bit_set (gen_add pos g) q \<longleftrightarrow> bit_set g q \<or> q \<in> set pos)"
    using assms
  proof (induction pos arbitrary: g)
    case (Cons p pos)
    let ?g = "g[p div 64 := (g ! (p div 64)) OR push_bit (p mod 64) 1]"
    have p: "p div 64 < length g" using Cons.prems by (simp add: gen_ok_def) linarith
    have "gen_ok m ?g" using Cons.prems by (simp add: gen_ok_def)
    with Cons.IH [of ?g] Cons.prems bit_set_update [OF p, of q] show ?case
      by (auto simp: gen_add_def)
  qed (simp add: gen_add_def)
  then show "gen_ok m (gen_add pos g)" and "bit_set (gen_add pos g) q \<longleftrightarrow> bit_set g q \<or> q \<in> set pos"
    by blast+
qed

lemma gen_ok_newGen [simp]: "gen_ok m (newGen m)"
  by (simp add: gen_ok_def newGen_def)

lemma hashes_lt: "0 < m \<Longrightarrow> \<forall>p \<in> set (hashes m k key). p < m"
  by (auto simp: hashes_def Let_def)

definition bloom_ok :: "Bloom \<Rightarrow> bool" where
  "bloom_ok b \<longleftrightarrow> 0 < mBits b \<and> gen_ok (mBits b) (cur b) \<and>
     (\<forall>g. building b = Some g \<longrightarrow> gen_ok (mBits b) g)"

definition holds_key :: "nat \<Rightarrow> nat \<Rightarrow> bloomGen \<Rightarrow> 64 word \<Rightarrow> bool" where
  "holds_key m k g key \<longleftrightarrow> (\<forall>p \<in> set (hashes m k key). bit_set g p)"

lemma MightContain_iff: "MightContain b key \<longleftrightarrow> holds_key (mBits b) (bk b) (cur b) key"
  by (simp add: MightContain_def gen_mightContain_iff holds_key_def bloom_pos_def)

lemma holds_key_add:
  assumes "0 < m" "gen_ok m g"
  shows "gen_ok m (gen_add (hashes m k key) g)"
    and "holds_key m k (gen_add (hashes m k key) g) key"
    and "holds_key m k g key' \<Longrightarrow> holds_key m k (gen_add (hashes m k key) g) key'"
  using gen_add_effect [OF assms(2) hashes_lt [OF assms(1)]] by (auto simp: holds_key_def)

subsection \<open>Histories\<close>

text \<open>
  A history of whole operations, none overlapping another: additions, and the phases of a rebuild
  in the order of the code. \<open>since\<close> are the keys the current generation answers for, \<open>shadow\<close> those of the one
  being built.
\<close>

datatype bloom_op = OpAdd "64 word" | OpStart | OpLoad "64 word" | OpSwap | OpFail

fun bloom_run1 :: "bloom_op \<Rightarrow> Bloom \<Rightarrow> Bloom" where
  "bloom_run1 (OpAdd k) b = BloomAdd k b"
| "bloom_run1 OpStart b = rebuild_start b"
| "bloom_run1 (OpLoad k) b = rebuild_load k b"
| "bloom_run1 OpSwap b = rebuild_end (rebuild_swap b)"
| "bloom_run1 OpFail b = rebuild_end b"

fun keys_run1 :: "bloom_op \<Rightarrow> 64 word set \<times> 64 word set option \<Rightarrow> 64 word set \<times> 64 word set option" where
  "keys_run1 (OpAdd k) (c, s) = (insert k c, map_option (insert k) s)"
| "keys_run1 OpStart (c, s) = (c, Some {})"
| "keys_run1 (OpLoad k) (c, s) = (c, map_option (insert k) s)"
| "keys_run1 OpSwap (c, s) = ((case s of Some x \<Rightarrow> x | None \<Rightarrow> c), None)"
| "keys_run1 OpFail (c, s) = (c, None)"

definition bloom_covers :: "Bloom \<Rightarrow> 64 word set \<times> 64 word set option \<Rightarrow> bool" where
  "bloom_covers b ks \<longleftrightarrow> bloom_ok b \<and> (\<forall>k \<in> fst ks. holds_key (mBits b) (bk b) (cur b) k) \<and>
     (case (building b, snd ks) of
        (None, None) \<Rightarrow> True
      | (Some g, Some s) \<Rightarrow> (\<forall>k \<in> s. holds_key (mBits b) (bk b) g k)
      | _ \<Rightarrow> False)"

lemma bloom_covers_step:
  assumes "bloom_covers b ks"
  shows "bloom_covers (bloom_run1 x b) (keys_run1 x ks)"
proof (cases ks)
  case (Pair c s)
  have m: "0 < mBits b" "gen_ok (mBits b) (cur b)" and bg: "\<And>g. building b = Some g \<Longrightarrow> gen_ok (mBits b) g"
    using assms by (auto simp: bloom_covers_def bloom_ok_def)
  note addc = holds_key_add [OF m]
  note addb = holds_key_add [OF m(1) bg]
  show ?thesis
    using assms Pair m bg
    by (cases x)
       (auto simp: bloom_covers_def bloom_ok_def BloomAdd_def bloom_pos_def rebuild_start_def
          rebuild_load_def rebuild_swap_def rebuild_end_def addc addb split: option.splits)
qed

lemma bloom_covers_run:
  "bloom_covers b ks \<Longrightarrow> bloom_covers (fold bloom_run1 xs b) (fold keys_run1 xs ks)"
  by (induction xs arbitrary: b ks) (simp_all add: bloom_covers_step)

lemma bloom_covers_New: "bloom_covers (NewBloom m k) ({}, None)"
  by (simp add: bloom_covers_def NewBloom_def bloom_ok_def Let_def)

text \<open>
  Of whole operations, one after the other, the filter answers yes for every key added since the
  current generation was started, loaded into it, or added while it was being built. \<open>BloomConc\<close>
  has the operations split into their loads and stores.
\<close>

lemma whole_operations_answer:
  assumes "key \<in> fst (fold keys_run1 xs ({}, None))"
  shows "MightContain (fold bloom_run1 xs (NewBloom m k)) key"
  using bloom_covers_run [OF bloom_covers_New, of xs m k] assms
  by (simp add: bloom_covers_def MightContain_iff)

lemma fold_rebuild_load: "fold rebuild_load keys b = fold bloom_run1 (map OpLoad keys) b"
  by (induction keys arbitrary: b) simp_all

lemma Rebuild_is_history: "snd (Rebuild (Inr keys) b) = fold bloom_run1 (OpStart # map OpLoad keys @ [OpSwap]) b"
  by (simp add: Rebuild_def fold_rebuild_load)

definition add_cur :: "64 word \<Rightarrow> Bloom \<Rightarrow> Bloom" where
  \<comment> \<open>the first half of \<open>Add\<close>\<close>
  "add_cur key b = b\<lparr>cur := gen_add (bloom_pos b key) (cur b)\<rparr>"

definition add_shadow :: "64 word \<Rightarrow> Bloom \<Rightarrow> Bloom" where
  \<comment> \<open>the second half of \<open>Add\<close>\<close>
  "add_shadow key b = b\<lparr>building := map_option (gen_add (bloom_pos b key)) (building b)\<rparr>"

text \<open>
  The window the comment on \<open>Rebuild\<close> means to close is open: an \<open>Add\<close> that loads the
  current generation, is overtaken by the pointer swap and the reset of the shadow, and then
  reads the shadow pointer as nil, leaves its key only in the discarded generation, so a
  completed \<open>Add\<close> is answered "certainly not seen".
\<close>

theorem bloom_add_lost_in_swap:
  assumes "0 < m" "0 < k"
  shows "\<not> MightContain (add_shadow key (rebuild_end (rebuild_swap
      (add_cur key (rebuild_start (NewBloom m k)))))) key"
proof -
  let ?b = "add_shadow key (rebuild_end (rebuild_swap (add_cur key (rebuild_start (NewBloom m k)))))"
  have b: "cur ?b = newGen m" "mBits ?b = m" "bk ?b = k"
    using assms by (simp_all add: add_shadow_def rebuild_end_def rebuild_swap_def add_cur_def
        rebuild_start_def NewBloom_def)
  have "hashes m k key \<noteq> []" using assms(2) by (simp add: hashes_def Let_def)
  then obtain p where p: "p \<in> set (hashes m k key)" by (meson list.set_sel(1))
  then have "p < m" using hashes_lt [OF assms(1)] by blast
  then have "p div 64 < (m + 63) div 64" by linarith
  then have "\<not> bit_set (newGen m) p" by (simp add: bit_set_def newGen_def)
  with p show ?thesis by (auto simp: MightContain_iff holds_key_def b)
qed

lemma bloom_add_lost_in_swap_witness:
  "\<not> MightContain (add_shadow 9 (rebuild_end (rebuild_swap
      (add_cur 9 (rebuild_start (NewBloom 128 4)))))) 9"
  by (rule bloom_add_lost_in_swap) simp_all

end
