(* ===== verification/BloomConc.thy ===== *)
theory BloomConc
  imports Bloom
begin

text \<open>
  The Bloom filter of \<open>internal/cache/bloom.go\<close> with any number of \<open>Add\<close> calls and one \<open>Rebuild\<close>
  in progress. Generations are objects behind pointers (positions in a list), so that the current
  and the shadow pointer can name the same one between the two stores that end a rebuild. Each
  load and store of a pointer is a step; so are, for every bit, the read and the write of
  \<open>g.bits[p/64] |= 1 << (p%64)\<close>, which Go does not make one.
\<close>

subsection \<open>The steps of the code\<close>

record gen_write =   \<comment> \<open>\<open>g.add(pos)\<close> in progress\<close>
  gw_key :: "64 word"
  gw_gen :: nat
  gw_todo :: "nat list"
  gw_read :: "64 word option"   \<comment> \<open>the word read for the first of them\<close>

record add_record =   \<comment> \<open>what an \<open>Add\<close> saw, for the statements\<close>
  ad_key :: "64 word"
  ad_cur :: nat   \<comment> \<open>the generation its first load gave\<close>
  ad_cur2 :: nat   \<comment> \<open>the one that was current at its second load\<close>
  ad_building :: "nat option"   \<comment> \<open>what its second load gave\<close>
  ad_gens :: nat   \<comment> \<open>how many generations had been made by then\<close>

datatype writer = First | Second add_record | Loading

record bloom_sys =
  bs_gens :: "bloomGen list"
  bs_cur :: nat
  bs_building :: "nat option"
  bs_rebuild :: "(nat \<times> bool) option"   \<comment> \<open>\<open>bg\<close> of the running \<open>Rebuild\<close>, and whether it has been swapped in\<close>
  bs_jobs :: "(writer \<times> gen_write) list"
  bs_done :: "add_record list"   \<comment> \<open>the calls of \<open>Add\<close> that have returned\<close>
  bs_loaded :: "(nat \<times> 64 word) list"   \<comment> \<open>the keys \<open>Rebuild\<close> has put into a generation\<close>
  bs_race :: bool   \<comment> \<open>a write has undone another one that came after its read\<close>

definition bloom_sys_of :: "Bloom \<Rightarrow> bloom_sys" where
  "bloom_sys_of b = \<lparr>bs_gens = [cur b], bs_cur = 0, bs_building = None, bs_rebuild = None, bs_jobs = [],
     bs_done = [], bs_loaded = [], bs_race = False\<rparr>"

definition start_write :: "nat \<Rightarrow> nat \<Rightarrow> 64 word \<Rightarrow> nat \<Rightarrow> gen_write" where
  "start_write m k key g = \<lparr>gw_key = key, gw_gen = g, gw_todo = hashes m k key, gw_read = None\<rparr>"

definition add_load_cur :: "nat \<Rightarrow> nat \<Rightarrow> 64 word \<Rightarrow> bloom_sys \<Rightarrow> bloom_sys" where
  \<comment> \<open>\<open>b.cur.Load()\<close>\<close>
  "add_load_cur m k key s = s\<lparr>bs_jobs := (First, start_write m k key (bs_cur s)) # bs_jobs s\<rparr>"

definition read_word :: "gen_write \<Rightarrow> bloom_sys \<Rightarrow> gen_write" where
  "read_word j s = (case gw_todo j of [] \<Rightarrow> j | p # _ \<Rightarrow> j\<lparr>gw_read := Some (bs_gens s ! gw_gen j ! (p div 64))\<rparr>)"

definition write_word :: "gen_write \<Rightarrow> bloom_sys \<Rightarrow> gen_write \<times> bloomGen list" where
  "write_word j s =
     (case (gw_todo j, gw_read j) of
        (p # ps, Some w) \<Rightarrow> (j\<lparr>gw_todo := ps, gw_read := None\<rparr>,
          (bs_gens s)[gw_gen j := (bs_gens s ! gw_gen j)[p div 64 := w OR push_bit (p mod 64) 1]])
      | _ \<Rightarrow> (j, bs_gens s))"

definition stale :: "gen_write \<Rightarrow> bloom_sys \<Rightarrow> bool" where
  \<comment> \<open>the word has changed since it was read\<close>
  "stale j s \<longleftrightarrow> (case (gw_todo j, gw_read j) of (p # _, Some w) \<Rightarrow> bs_gens s ! gw_gen j ! (p div 64) \<noteq> w | _ \<Rightarrow> False)"

definition add_load_building :: "nat \<Rightarrow> nat \<Rightarrow> gen_write \<Rightarrow> bloom_sys \<Rightarrow> (writer \<times> gen_write) list \<times> add_record list" where
  \<comment> \<open>\<open>if bg := b.building.Load(); bg != nil { bg.add(pos) }\<close>: what goes on, or what has returned\<close>
  "add_load_building m k j s =
     (let a = \<lparr>ad_key = gw_key j, ad_cur = gw_gen j, ad_cur2 = bs_cur s, ad_building = bs_building s,
            ad_gens = length (bs_gens s)\<rparr>
      in case bs_building s of
           None \<Rightarrow> ([], [a])
         | Some g \<Rightarrow> ([(Second a, start_write m k (gw_key j) g)], []))"

definition rebuild_store_building :: "nat \<Rightarrow> bloom_sys \<Rightarrow> bloom_sys" where
  \<comment> \<open>\<open>bg := b.newGen(); b.building.Store(bg)\<close>\<close>
  "rebuild_store_building m s = s\<lparr>bs_gens := bs_gens s @ [newGen m], bs_building := Some (length (bs_gens s)),
     bs_rebuild := Some (length (bs_gens s), False)\<rparr>"

definition rebuild_store_cur :: "nat \<Rightarrow> bloom_sys \<Rightarrow> bloom_sys" where
  "rebuild_store_cur g s = s\<lparr>bs_cur := g, bs_rebuild := Some (g, True)\<rparr>"

definition rebuild_reset :: "bloom_sys \<Rightarrow> bloom_sys" where
  \<comment> \<open>\<open>b.building.Store(nil)\<close> at the end, or after an error of the loader\<close>
  "rebuild_reset s = s\<lparr>bs_building := None, bs_rebuild := None\<rparr>"

inductive bloom_conc :: "nat \<Rightarrow> nat \<Rightarrow> bloom_sys \<Rightarrow> bool" for m k where
  start: "b = NewBloom m0 k0 \<Longrightarrow> m = mBits b \<Longrightarrow> k = bk b \<Longrightarrow> bloom_conc m k (bloom_sys_of b)"
| add: "bloom_conc m k s \<Longrightarrow> bloom_conc m k (add_load_cur m k key s)"
| get_word: "bloom_conc m k s \<Longrightarrow> bs_jobs s = xs @ (w, j) # ys \<Longrightarrow> gw_read j = None \<Longrightarrow>
    bloom_conc m k (s\<lparr>bs_jobs := xs @ (w, read_word j s) # ys\<rparr>)"
| put_word: "bloom_conc m k s \<Longrightarrow> bs_jobs s = xs @ (w, j) # ys \<Longrightarrow> write_word j s = (j', gs) \<Longrightarrow>
    bloom_conc m k (s\<lparr>bs_jobs := xs @ (w, j') # ys, bs_gens := gs, bs_race := bs_race s \<or> stale j s\<rparr>)"
| shadow: "bloom_conc m k s \<Longrightarrow> bs_jobs s = xs @ (First, j) # ys \<Longrightarrow> gw_todo j = [] \<Longrightarrow>
    add_load_building m k j s = (js, ds) \<Longrightarrow>
    bloom_conc m k (s\<lparr>bs_jobs := xs @ js @ ys, bs_done := ds @ bs_done s\<rparr>)"
| finish: "bloom_conc m k s \<Longrightarrow> bs_jobs s = xs @ (Second a, j) # ys \<Longrightarrow> gw_todo j = [] \<Longrightarrow>
    bloom_conc m k (s\<lparr>bs_jobs := xs @ ys, bs_done := a # bs_done s\<rparr>)"
| rebuild: "bloom_conc m k s \<Longrightarrow> bs_rebuild s = None \<Longrightarrow> bloom_conc m k (rebuild_store_building m s)"
| load: "bloom_conc m k s \<Longrightarrow> bs_rebuild s = Some (g, False) \<Longrightarrow>
    bloom_conc m k (s\<lparr>bs_jobs := (Loading, start_write m k key g) # bs_jobs s\<rparr>)"
| loaded: "bloom_conc m k s \<Longrightarrow> bs_jobs s = xs @ (Loading, j) # ys \<Longrightarrow> gw_todo j = [] \<Longrightarrow>
    bloom_conc m k (s\<lparr>bs_jobs := xs @ ys, bs_loaded := (gw_gen j, gw_key j) # bs_loaded s\<rparr>)"
| swap: "bloom_conc m k s \<Longrightarrow> bs_rebuild s = Some (g, False) \<Longrightarrow> Loading \<notin> fst ` set (bs_jobs s) \<Longrightarrow>
    bloom_conc m k (rebuild_store_cur g s)"
| reset: "bloom_conc m k s \<Longrightarrow> bs_rebuild s = Some (g, True) \<Longrightarrow> bloom_conc m k (rebuild_reset s)"
| fail: "bloom_conc m k s \<Longrightarrow> bs_rebuild s = Some (g, False) \<Longrightarrow> Loading \<notin> fst ` set (bs_jobs s) \<Longrightarrow>
    bloom_conc m k (rebuild_reset s)"

subsection \<open>The invariant\<close>

definition in_gen :: "nat \<Rightarrow> nat \<Rightarrow> bloomGen list \<Rightarrow> nat \<Rightarrow> 64 word \<Rightarrow> bool" where
  "in_gen m k gs g key \<longleftrightarrow> g < length gs \<and> holds_key m k (gs ! g) key"

definition job_ok :: "nat \<Rightarrow> nat \<Rightarrow> bloomGen list \<Rightarrow> gen_write \<Rightarrow> bool" where
  \<comment> \<open>the bits of the positions behind it are set\<close>
  "job_ok m k gs j \<longleftrightarrow> gw_gen j < length gs \<and> (gw_read j \<noteq> None \<longrightarrow> gw_todo j \<noteq> []) \<and>
     (\<exists>ps. hashes m k (gw_key j) = ps @ gw_todo j \<and> (\<forall>p \<in> set ps. bit_set (gs ! gw_gen j) p))"

definition record_ok :: "bloom_sys \<Rightarrow> add_record \<Rightarrow> bool" where
  \<comment> \<open>of the generations that existed at the second load, only the current and the building one count\<close>
  "record_ok s a \<longleftrightarrow> ad_cur a \<le> ad_cur2 a \<and> ad_cur2 a \<le> bs_cur s \<and> ad_cur2 a < ad_gens a \<and> ad_gens a \<le> length (bs_gens s) \<and>
     (\<forall>g. ad_building a = Some g \<longrightarrow> g < ad_gens a) \<and>
     (bs_cur s < ad_gens a \<longrightarrow> bs_cur s = ad_cur2 a \<or> ad_building a = Some (bs_cur s)) \<and>
     (\<forall>g. bs_rebuild s = Some (g, False) \<longrightarrow> g < ad_gens a \<longrightarrow> ad_building a = Some g)"

fun writer_ok :: "nat \<Rightarrow> nat \<Rightarrow> bloom_sys \<Rightarrow> writer \<times> gen_write \<Rightarrow> bool" where
  "writer_ok m k s (First, j) = (gw_gen j \<le> bs_cur s)"
| "writer_ok m k s (Second a, j) = (ad_building a = Some (gw_gen j) \<and> ad_key a = gw_key j \<and> record_ok s a \<and>
     in_gen m k (bs_gens s) (ad_cur a) (ad_key a))"
| "writer_ok m k s (Loading, j) = True"

definition pointers_ok :: "bloom_sys \<Rightarrow> bool" where
  "pointers_ok s \<longleftrightarrow> bs_cur s < length (bs_gens s) \<and>
     (case bs_rebuild s of
        None \<Rightarrow> bs_building s = None
      | Some (g, False) \<Rightarrow> bs_building s = Some g \<and> bs_cur s < g \<and> g < length (bs_gens s)
      | Some (g, True) \<Rightarrow> bs_building s = Some g \<and> bs_cur s = g)"

definition done_ok :: "nat \<Rightarrow> nat \<Rightarrow> bloom_sys \<Rightarrow> add_record \<Rightarrow> bool" where
  "done_ok m k s a \<longleftrightarrow> record_ok s a \<and> in_gen m k (bs_gens s) (ad_cur a) (ad_key a) \<and>
     (\<forall>g. ad_building a = Some g \<longrightarrow> in_gen m k (bs_gens s) g (ad_key a))"

definition sys_ok :: "nat \<Rightarrow> nat \<Rightarrow> bloom_sys \<Rightarrow> bool" where
  "sys_ok m k s \<longleftrightarrow> pointers_ok s \<and> (\<forall>g \<in> set (bs_gens s). gen_ok m g) \<and>
     (\<forall>x \<in> set (bs_jobs s). job_ok m k (bs_gens s) (snd x) \<and> writer_ok m k s x) \<and>
     (\<forall>a \<in> set (bs_done s). done_ok m k s a) \<and>
     (\<forall>x \<in> set (bs_loaded s). in_gen m k (bs_gens s) (fst x) (snd x))"

lemma job_done: "job_ok m k gs j \<Longrightarrow> gw_todo j = [] \<Longrightarrow> in_gen m k gs (gw_gen j) (gw_key j)"
  by (auto simp: job_ok_def in_gen_def holds_key_def)

lemma job_ok_start: "g < length gs \<Longrightarrow> job_ok m k gs (start_write m k key g)"
  by (simp add: job_ok_def start_write_def)

text \<open>More bits and more generations keep what is known.\<close>

definition more_bits :: "bloomGen list \<Rightarrow> bloomGen list \<Rightarrow> bool" where
  "more_bits gs gs' \<longleftrightarrow> length gs \<le> length gs' \<and> (\<forall>g p. g < length gs \<longrightarrow> bit_set (gs ! g) p \<longrightarrow> bit_set (gs' ! g) p)"

lemma more_bits_refl [simp]: "more_bits gs gs"
  by (simp add: more_bits_def)

lemma more_bits_append [simp]: "more_bits gs (gs @ hs)"
  by (simp add: more_bits_def nth_append)

lemma in_gen_more: "more_bits gs gs' \<Longrightarrow> in_gen m k gs g key \<Longrightarrow> in_gen m k gs' g key"
  by (auto simp: more_bits_def in_gen_def holds_key_def)

lemma job_ok_more: "more_bits gs gs' \<Longrightarrow> job_ok m k gs j \<Longrightarrow> job_ok m k gs' j"
  by (fastforce simp: more_bits_def job_ok_def)

lemma writer_ok_more:
  assumes "writer_ok m k s x" "more_bits (bs_gens s) (bs_gens s')"
    and "\<And>a. record_ok s a \<Longrightarrow> record_ok s' a" "bs_cur s \<le> bs_cur s'"
  shows "writer_ok m k s' x"
  using assms by (cases x; cases "fst x") (auto intro: in_gen_more)

lemma done_ok_more:
  assumes "done_ok m k s a" "more_bits (bs_gens s) (bs_gens s')" "\<And>a. record_ok s a \<Longrightarrow> record_ok s' a"
  shows "done_ok m k s' a"
  using assms by (auto simp: done_ok_def intro: in_gen_more)

lemma sys_okI:
  assumes "sys_ok m k s" "pointers_ok s'" "\<forall>g \<in> set (bs_gens s'). gen_ok m g" "more_bits (bs_gens s) (bs_gens s')"
    and "\<And>a. record_ok s a \<Longrightarrow> record_ok s' a" "bs_cur s \<le> bs_cur s'"
    and "\<And>x. x \<in> set (bs_jobs s') \<Longrightarrow> x \<in> set (bs_jobs s) \<or> job_ok m k (bs_gens s') (snd x) \<and> writer_ok m k s' x"
    and "\<And>a. a \<in> set (bs_done s') \<Longrightarrow> a \<in> set (bs_done s) \<or> done_ok m k s' a"
    and "\<And>x. x \<in> set (bs_loaded s') \<Longrightarrow> x \<in> set (bs_loaded s) \<or> in_gen m k (bs_gens s') (fst x) (snd x)"
  shows "sys_ok m k s'"
  unfolding sys_ok_def
proof (intro conjI ballI assms(2))
  fix x assume x: "x \<in> set (bs_jobs s')"
  have "job_ok m k (bs_gens s') (snd x) \<and> writer_ok m k s' x" if "x \<in> set (bs_jobs s)"
    using assms(1) that job_ok_more [OF assms(4)] writer_ok_more [OF _ assms(4-6)] by (auto simp: sys_ok_def)
  with assms(7) [OF x] show "job_ok m k (bs_gens s') (snd x)" "writer_ok m k s' x" by blast+
next
  fix a assume a: "a \<in> set (bs_done s')"
  have "done_ok m k s' a" if "a \<in> set (bs_done s)"
    using assms(1) that done_ok_more [OF _ assms(4,5)] by (auto simp: sys_ok_def)
  with assms(8) [OF a] show "done_ok m k s' a" by blast
next
  fix x assume x: "x \<in> set (bs_loaded s')"
  have "in_gen m k (bs_gens s') (fst x) (snd x)" if "x \<in> set (bs_loaded s)"
    using assms(1) that in_gen_more [OF assms(4)] by (auto simp: sys_ok_def)
  with assms(9) [OF x] show "in_gen m k (bs_gens s') (fst x) (snd x)" by blast
qed (use assms(3) in blast)

lemma write_word_ok:
  assumes m: "0 < m" and ok: "\<forall>g \<in> set (bs_gens s). gen_ok m g" and j: "job_ok m k (bs_gens s) j"
    and w: "write_word j s = (j', gs)" and fresh: "\<not> stale j s"
  shows "more_bits (bs_gens s) gs \<and> length gs = length (bs_gens s) \<and> (\<forall>g \<in> set gs. gen_ok m g) \<and> job_ok m k gs j' \<and>
    gw_gen j' = gw_gen j \<and> gw_key j' = gw_key j"
proof (cases "\<exists>p ps x. gw_todo j = p # ps \<and> gw_read j = Some x")
  case False
  then have "j' = j \<and> gs = bs_gens s" using w by (auto simp: write_word_def split: list.splits option.splits)
  then show ?thesis using ok j by simp
next
  case True
  then obtain p ps x where px: "gw_todo j = p # ps" "gw_read j = Some x" by blast
  let ?G = "gw_gen j"
  let ?g = "bs_gens s ! ?G"
  let ?g' = "?g[p div 64 := (?g ! (p div 64)) OR push_bit (p mod 64) 1]"
  have x: "?g ! (p div 64) = x" using fresh px by (auto simp: stale_def)
  have E: "j' = j\<lparr>gw_todo := ps, gw_read := None\<rparr>" "gs = (bs_gens s)[?G := ?g']"
    using w px x by (auto simp: write_word_def)
  have G: "?G < length (bs_gens s)" using j by (simp add: job_ok_def)
  then have g: "gen_ok m ?g" using ok by simp
  obtain ds where ds: "hashes m k (gw_key j) = ds @ p # ps" "\<forall>q \<in> set ds. bit_set ?g q"
    using j px by (auto simp: job_ok_def)
  then have "p < m" using hashes_lt [OF m, of k "gw_key j"] by simp
  then have "p div 64 < length ?g" using g by (simp add: gen_ok_def)
  note up = bit_set_update [OF this]
  have g': "gen_ok m ?g'" using g by (simp add: gen_ok_def)
  have "more_bits (bs_gens s) gs" using G up by (simp add: more_bits_def E nth_list_update)
  moreover have "\<forall>h \<in> set gs. gen_ok m h"
    using ok g' by (auto simp: E dest!: subsetD [OF set_update_subset_insert])
  moreover have "job_ok m k gs j'"
    using G up ds by (auto simp: job_ok_def E intro!: exI [of _ "ds @ [p]"])
  ultimately show ?thesis by (simp add: E)
qed

lemma record_ok_cong: "bs_cur s' = bs_cur s \<Longrightarrow> length (bs_gens s') = length (bs_gens s) \<Longrightarrow> bs_rebuild s' = bs_rebuild s \<Longrightarrow>
    record_ok s' a = record_ok s a"
  by (simp add: record_ok_def)

lemma pointers_ok_cong: "bs_cur s' = bs_cur s \<Longrightarrow> length (bs_gens s') = length (bs_gens s) \<Longrightarrow> bs_rebuild s' = bs_rebuild s \<Longrightarrow>
    bs_building s' = bs_building s \<Longrightarrow> pointers_ok s' = pointers_ok s"
  by (auto simp: pointers_ok_def split: option.splits prod.splits bool.splits)

lemma shadow_ok:
  assumes ok: "sys_ok m k s" and j: "(First, j) \<in> set (bs_jobs s)" "gw_todo j = []"
    and D: "add_load_building m k j s = (js, ds)"
  shows "(\<forall>x \<in> set js. job_ok m k (bs_gens s) (snd x) \<and> writer_ok m k s x) \<and> (\<forall>a \<in> set ds. done_ok m k s a)"
proof -
  let ?a = "\<lparr>ad_key = gw_key j, ad_cur = gw_gen j, ad_cur2 = bs_cur s, ad_building = bs_building s,
      ad_gens = length (bs_gens s)\<rparr>"
  have P: "pointers_ok s" and J: "job_ok m k (bs_gens s) j" "gw_gen j \<le> bs_cur s"
    using ok j(1) by (force simp: sys_ok_def)+
  have b: "g < length (bs_gens s)" if "bs_building s = Some g" for g
    using P that by (auto simp: pointers_ok_def split: option.splits prod.splits bool.splits)
  have r: "record_ok s ?a"
    using P J(2) b by (auto simp: record_ok_def pointers_ok_def)
  have i: "in_gen m k (bs_gens s) (gw_gen j) (gw_key j)" by (rule job_done [OF J(1) j(2)])
  show ?thesis
  proof (cases "bs_building s")
    case None
    then have "js = [] \<and> ds = [?a]" using D by (simp add: add_load_building_def)
    then show ?thesis using r i None by (simp add: done_ok_def)
  next
    case (Some g)
    then have "js = [(Second ?a, start_write m k (gw_key j) g)] \<and> ds = []" using D by (auto simp: add_load_building_def)
    then show ?thesis using r i Some b job_ok_start [of g "bs_gens s"] by (simp add: start_write_def)
  qed
qed

lemma bloom_conc_ok: "bloom_conc m k s \<Longrightarrow> 0 < m \<and> (\<not> bs_race s \<longrightarrow> sys_ok m k s)"
proof (induction rule: bloom_conc.induct)
  case (start b m0 k0)
  then have "cur b = newGen m" "0 < m" by (auto simp: NewBloom_def Let_def)
  then show ?case by (simp add: bloom_sys_of_def sys_ok_def pointers_ok_def)
next
  case (add s key)
  show ?case
  proof (intro conjI impI)
    assume "\<not> bs_race (add_load_cur m k key s)"
    then have ok: "sys_ok m k s" using add by (simp add: add_load_cur_def)
    let ?s = "add_load_cur m k key s"
    have P: "pointers_ok ?s" using ok pointers_ok_cong [of ?s s] by (simp add: sys_ok_def add_load_cur_def)
    have R: "record_ok ?s a = record_ok s a" for a by (rule record_ok_cong) (simp_all add: add_load_cur_def)
    have "job_ok m k (bs_gens ?s) (start_write m k key (bs_cur s))"
      using P by (intro job_ok_start) (simp add: pointers_ok_def add_load_cur_def)
    moreover have "writer_ok m k ?s (First, start_write m k key (bs_cur s))" by (simp add: start_write_def add_load_cur_def)
    moreover have "bs_jobs ?s = (First, start_write m k key (bs_cur s)) # bs_jobs s" "bs_gens ?s = bs_gens s"
      "bs_cur ?s = bs_cur s" "bs_done ?s = bs_done s" "bs_loaded ?s = bs_loaded s" by (simp_all add: add_load_cur_def)
    ultimately show "sys_ok m k ?s"
      using ok P R by (intro sys_okI [OF ok]) (auto simp: sys_ok_def)
  qed (use add in simp)
next
  case (get_word s xs w j ys)
  let ?s = "s\<lparr>bs_jobs := xs @ (w, read_word j s) # ys\<rparr>"
  show ?case
  proof (intro conjI impI)
    assume "\<not> bs_race (s\<lparr>bs_jobs := xs @ (w, read_word j s) # ys\<rparr>)"
    then have ok: "sys_ok m k s" using get_word by simp
    then have J: "job_ok m k (bs_gens s) j" "writer_ok m k s (w, j)" using get_word(2) by (auto simp: sys_ok_def)
    have "job_ok m k (bs_gens s) (read_word j s)" using J(1) by (auto simp: job_ok_def read_word_def split: list.split)
    moreover have "writer_ok m k s (w, read_word j s)" using J(2) by (cases w) (auto simp: read_word_def split: list.split)
    moreover have P: "pointers_ok ?s" using ok pointers_ok_cong [of ?s s] by (simp add: sys_ok_def)
    moreover have R: "record_ok ?s a = record_ok s a" for a by (rule record_ok_cong) simp_all
    moreover have W: "writer_ok m k ?s x = writer_ok m k s x" for x by (cases x; cases "fst x") (auto simp: R)
    ultimately show "sys_ok m k ?s"
      using ok get_word(2) by (intro sys_okI [OF ok]) (auto simp: sys_ok_def)
  qed (use get_word in simp)
next
  case (put_word s xs w j ys j' gs)
  let ?s = "s\<lparr>bs_jobs := xs @ (w, j') # ys, bs_gens := gs, bs_race := bs_race s \<or> stale j s\<rparr>"
  show ?case
  proof (intro conjI impI)
    assume "\<not> bs_race ?s"
    then have ok: "sys_ok m k s" and fresh: "\<not> stale j s" and m: "0 < m" using put_word by simp_all
    then have J: "job_ok m k (bs_gens s) j" "writer_ok m k s (w, j)" and G: "\<forall>g \<in> set (bs_gens s). gen_ok m g"
      using put_word(2) by (auto simp: sys_ok_def)
    note W = write_word_ok [OF m G J(1) put_word(3) fresh]
    have R: "record_ok ?s a = record_ok s a" for a by (rule record_ok_cong) (use W in simp_all)
    have "writer_ok m k s (w, j')" using J(2) W by (cases w) auto
    then have "writer_ok m k ?s (w, j')" by (rule writer_ok_more) (use W R in simp_all)
    moreover have "pointers_ok ?s" using ok pointers_ok_cong [of ?s s] W by (simp add: sys_ok_def)
    ultimately show "sys_ok m k ?s"
      using W R put_word(2) by (intro sys_okI [OF ok]) auto
  qed (use put_word in simp)
next
  case (shadow s xs j ys js ds)
  let ?s = "s\<lparr>bs_jobs := xs @ js @ ys, bs_done := ds @ bs_done s\<rparr>"
  show ?case
  proof (intro conjI impI)
    assume "\<not> bs_race ?s"
    then have ok: "sys_ok m k s" using shadow by simp
    have "(First, j) \<in> set (bs_jobs s)" using shadow(2) by simp
    note S = shadow_ok [OF ok this shadow(3,4)]
    have R: "record_ok ?s a = record_ok s a" for a by (rule record_ok_cong) simp_all
    have W: "writer_ok m k ?s x = writer_ok m k s x" for x by (cases x; cases "fst x") (auto simp: R)
    have D: "done_ok m k ?s a = done_ok m k s a" for a by (simp add: done_ok_def R)
    show "sys_ok m k ?s"
      using S shadow(2) ok by (intro sys_okI [OF ok]) (auto simp: R W D pointers_ok_cong [of ?s s] sys_ok_def)
  qed (use shadow in simp)
next
  case (finish s xs a j ys)
  let ?s = "s\<lparr>bs_jobs := xs @ ys, bs_done := a # bs_done s\<rparr>"
  show ?case
  proof (intro conjI impI)
    assume "\<not> bs_race ?s"
    then have ok: "sys_ok m k s" using finish by simp
    then have J: "job_ok m k (bs_gens s) j" "writer_ok m k s (Second a, j)" using finish(2) by (auto simp: sys_ok_def)
    have R: "record_ok ?s a = record_ok s a" for a by (rule record_ok_cong) simp_all
    have "done_ok m k ?s a" using J job_done [OF J(1) finish(3)] by (auto simp: done_ok_def R)
    then show "sys_ok m k ?s"
      using finish(2) ok by (intro sys_okI [OF ok]) (auto simp: R pointers_ok_cong [of ?s s] sys_ok_def)
  qed (use finish in simp)
next
  case (rebuild s)
  let ?s = "rebuild_store_building m s"
  show ?case
  proof (intro conjI impI)
    assume "\<not> bs_race ?s"
    then have ok: "sys_ok m k s" using rebuild by (simp add: rebuild_store_building_def)
    then show "sys_ok m k ?s"
      by (intro sys_okI [OF ok]) (auto simp: rebuild_store_building_def sys_ok_def pointers_ok_def record_ok_def)
  qed (use rebuild in simp)
next
  case (load s g key)
  let ?s = "s\<lparr>bs_jobs := (Loading, start_write m k key g) # bs_jobs s\<rparr>"
  show ?case
  proof (intro conjI impI)
    assume "\<not> bs_race ?s"
    then have ok: "sys_ok m k s" using load by simp
    then have "g < length (bs_gens s)" using load(2) by (simp add: sys_ok_def pointers_ok_def)
    moreover have R: "record_ok ?s a = record_ok s a" for a by (rule record_ok_cong) simp_all
    ultimately show "sys_ok m k ?s"
      using ok by (intro sys_okI [OF ok]) (auto simp: sys_ok_def pointers_ok_cong [of ?s s] R job_ok_start)
  qed (use load in simp)
next
  case (loaded s xs j ys)
  let ?s = "s\<lparr>bs_jobs := xs @ ys, bs_loaded := (gw_gen j, gw_key j) # bs_loaded s\<rparr>"
  show ?case
  proof (intro conjI impI)
    assume "\<not> bs_race ?s"
    then have ok: "sys_ok m k s" using loaded by simp
    then have "job_ok m k (bs_gens s) j" using loaded(2) by (auto simp: sys_ok_def)
    moreover have R: "record_ok ?s a = record_ok s a" for a by (rule record_ok_cong) simp_all
    ultimately show "sys_ok m k ?s"
      using job_done [of m k "bs_gens s" j] ok loaded(2,3)
      by (intro sys_okI [OF ok]) (auto simp: sys_ok_def pointers_ok_cong [of ?s s] R)
  qed (use loaded in simp)
next
  case (swap s g)
  show ?case
  proof (intro conjI impI)
    assume "\<not> bs_race (rebuild_store_cur g s)"
    then have ok: "sys_ok m k s" using swap by (simp add: rebuild_store_cur_def)
    then show "sys_ok m k (rebuild_store_cur g s)"
      using swap(2) by (intro sys_okI [OF ok]) (auto simp: rebuild_store_cur_def sys_ok_def pointers_ok_def record_ok_def)
  qed (use swap in simp)
next
  case (reset s g)
  show ?case
  proof (intro conjI impI)
    assume "\<not> bs_race (rebuild_reset s)"
    then have ok: "sys_ok m k s" using reset by (simp add: rebuild_reset_def)
    then show "sys_ok m k (rebuild_reset s)"
      using reset(2) by (intro sys_okI [OF ok]) (auto simp: rebuild_reset_def sys_ok_def pointers_ok_def record_ok_def)
  qed (use reset in simp)
next
  case (fail s g)
  show ?case
  proof (intro conjI impI)
    assume "\<not> bs_race (rebuild_reset s)"
    then have ok: "sys_ok m k s" using fail by (simp add: rebuild_reset_def)
    then show "sys_ok m k (rebuild_reset s)"
      using fail(2) by (intro sys_okI [OF ok]) (auto simp: rebuild_reset_def sys_ok_def pointers_ok_def record_ok_def)
  qed (use fail in simp)
qed

subsection \<open>No false negatives\<close>

definition answers :: "nat \<Rightarrow> nat \<Rightarrow> bloom_sys \<Rightarrow> 64 word \<Rightarrow> bool" where
  \<comment> \<open>\<open>MightContain\<close>\<close>
  "answers m k s key = gen_mightContain (hashes m k key) (bs_gens s ! bs_cur s)"

definition overtaken :: "add_record \<Rightarrow> bool" where
  \<comment> \<open>between its two loads a generation was swapped in and the shadow pointer taken off it\<close>
  "overtaken a \<longleftrightarrow> ad_cur a \<noteq> ad_cur2 a \<and> ad_building a \<noteq> Some (ad_cur2 a)"

lemma answers_in_gen: "in_gen m k (bs_gens s) (bs_cur s) key \<Longrightarrow> answers m k s key"
  by (simp add: answers_def gen_mightContain_iff in_gen_def holds_key_def)

text \<open>
  C31: No false negatives, with any number of \<open>Add\<close> calls and a rebuild interleaved at every load and
  store: as long as no \<open>|=\<close> has undone one that came between its read and its write, the filter
  answers yes for every key the rebuild has put into the current generation, and for every \<open>Add\<close> that
  has returned, unless the current generation was made only after the call had looked for the shadow
  (then the loader has to bring the key), or the call was overtaken: between its two loads a new
  generation was swapped in and the shadow pointer was reset. Both exceptions to what the comments
  promise are real: \<open>bloom_add_lost_in_swap\<close>, \<open>bloom_bit_lost\<close>.
\<close>

theorem bloom_no_false_negative:
  assumes "bloom_conc m k s" "\<not> bs_race s"
  shows "(\<forall>a \<in> set (bs_done s). answers m k s (ad_key a) \<or> overtaken a \<or> ad_gens a \<le> bs_cur s) \<and>
    (\<forall>x \<in> set (bs_loaded s). fst x = bs_cur s \<longrightarrow> answers m k s (snd x))"
proof -
  have ok: "sys_ok m k s" using bloom_conc_ok [OF assms(1)] assms(2) by blast
  have "answers m k s (ad_key a) \<or> overtaken a \<or> ad_gens a \<le> bs_cur s" if "a \<in> set (bs_done s)" for a
  proof (rule ccontr)
    assume n: "\<not> ?thesis"
    have D: "done_ok m k s a" using ok that by (simp add: sys_ok_def)
    then have "bs_cur s = ad_cur a \<or> ad_building a = Some (bs_cur s)"
      using n by (auto simp: done_ok_def record_ok_def overtaken_def)
    then have "in_gen m k (bs_gens s) (bs_cur s) (ad_key a)" using D by (auto simp: done_ok_def)
    then show False using n answers_in_gen by blast
  qed
  moreover have "answers m k s (snd x)" if "x \<in> set (bs_loaded s)" "fst x = bs_cur s" for x
    using ok that by (intro answers_in_gen) (auto simp: sys_ok_def)
  ultimately show ?thesis by blast
qed

text \<open>A run: writing a whole key while nothing else moves.\<close>

lemma run_writes:
  assumes "bloom_conc m k s" "bs_jobs s = xs @ (w, j) # ys" "gw_read j = None" "bs_race s = False"
  shows "\<exists>gs. bloom_conc m k (s\<lparr>bs_jobs := xs @ (w, j\<lparr>gw_todo := []\<rparr>) # ys, bs_gens := gs\<rparr>)"
  using assms
proof (induction "gw_todo j" arbitrary: s j)
  case Nil
  then have "j\<lparr>gw_todo := []\<rparr> = j" "s\<lparr>bs_jobs := xs @ (w, j) # ys, bs_gens := bs_gens s\<rparr> = s" by simp_all
  with Nil show ?case by metis
next
  case (Cons p ps)
  define j1 where "j1 = read_word j s"
  define s1 where "s1 = s\<lparr>bs_jobs := xs @ (w, j1) # ys\<rparr>"
  have j1: "j1 = j\<lparr>gw_read := Some (bs_gens s ! gw_gen j ! (p div 64))\<rparr>"
    using Cons(2) [symmetric] by (simp add: j1_def read_word_def split: list.split)
  have 1: "bloom_conc m k s1" unfolding s1_def j1_def by (rule bloom_conc.get_word [OF Cons(3-5)])
  define gs where "gs = (bs_gens s)[gw_gen j := (bs_gens s ! gw_gen j)[p div 64 := (bs_gens s ! gw_gen j ! (p div 64)) OR push_bit (p mod 64) 1]]"
  have W: "write_word j1 s1 = (j\<lparr>gw_todo := ps\<rparr>, gs)"
    using Cons(2) [symmetric] Cons(5) by (simp add: write_word_def j1 s1_def gs_def split: list.split)
  have F: "\<not> stale j1 s1" using Cons(2) [symmetric] by (simp add: stale_def j1 s1_def split: list.split)
  let ?s2 = "s1\<lparr>bs_jobs := xs @ (w, j\<lparr>gw_todo := ps\<rparr>) # ys, bs_gens := gs, bs_race := bs_race s1 \<or> stale j1 s1\<rparr>"
  have 2: "bloom_conc m k ?s2" by (rule bloom_conc.put_word [OF 1 _ W]) (simp add: s1_def)
  have "\<exists>gs'. bloom_conc m k (?s2\<lparr>bs_jobs := xs @ (w, (j\<lparr>gw_todo := ps\<rparr>)\<lparr>gw_todo := []\<rparr>) # ys, bs_gens := gs'\<rparr>)"
    by (rule Cons(1) [of "j\<lparr>gw_todo := ps\<rparr>" ?s2, OF _ 2]) (use Cons(5,6) F in \<open>simp_all add: s1_def\<close>)
  moreover have "?s2\<lparr>bs_jobs := xs @ (w, (j\<lparr>gw_todo := ps\<rparr>)\<lparr>gw_todo := []\<rparr>) # ys, bs_gens := gs'\<rparr> =
      s\<lparr>bs_jobs := xs @ (w, j\<lparr>gw_todo := []\<rparr>) # ys, bs_gens := gs'\<rparr>" for gs'
    by (rule bloom_sys.equality) (use F Cons(6) in \<open>simp_all add: s1_def\<close>)
  ultimately show ?case by simp
qed

lemma bloom_no_false_negative_witness:
  "\<exists>s. bloom_conc 128 4 s \<and> \<not> bs_race s \<and> (\<exists>a \<in> set (bs_done s). ad_key a = 9) \<and> answers 128 4 s 9"
proof -
  let ?b = "NewBloom 128 4" and ?a = "\<lparr>ad_key = 9, ad_cur = 0, ad_cur2 = 0, ad_building = None, ad_gens = 1\<rparr>"
  have b: "mBits ?b = 128" "bk ?b = 4" by (simp_all add: NewBloom_def)
  have "bloom_conc 128 4 (bloom_sys_of ?b)" by (rule bloom_conc.start [OF refl]) (simp_all add: b)
  note 1 = bloom_conc.add [OF this, of 9]
  let ?s = "add_load_cur 128 4 9 (bloom_sys_of ?b)" and ?j = "start_write 128 4 9 0"
  have s: "bs_jobs ?s = [] @ (First, ?j) # []" "gw_read ?j = None" "bs_race ?s = False" "bs_done ?s = []" "bs_cur ?s = 0"
    "bs_building ?s = None" "length (bs_gens ?s) = 1"
    by (simp_all add: add_load_cur_def bloom_sys_of_def start_write_def)
  obtain gs where 2: "bloom_conc 128 4 (?s\<lparr>bs_jobs := [] @ (First, ?j\<lparr>gw_todo := []\<rparr>) # [], bs_gens := gs\<rparr>)"
    using run_writes [OF 1 s(1-3)] by blast
  let ?s2 = "?s\<lparr>bs_jobs := [] @ (First, ?j\<lparr>gw_todo := []\<rparr>) # [], bs_gens := gs\<rparr>"
  have ok: "0 < length gs" using bloom_conc_ok [OF 2] s(3) by (auto simp: sys_ok_def pointers_ok_def)
  let ?r = "?a\<lparr>ad_gens := length gs\<rparr>"
  have A: "add_load_building 128 4 (?j\<lparr>gw_todo := []\<rparr>) ?s2 = ([], [?r])"
    by (simp add: add_load_building_def s start_write_def)
  from bloom_conc.shadow [OF 2 _ _ A, of "[]" "[]"]
  have 3: "bloom_conc 128 4 (?s2\<lparr>bs_jobs := [] @ [] @ [], bs_done := [?r] @ bs_done ?s2\<rparr>)" by simp
  let ?s3 = "?s2\<lparr>bs_jobs := [] @ [] @ [], bs_done := [?r] @ bs_done ?s2\<rparr>"
  have r: "?r \<in> set (bs_done ?s3)" "\<not> bs_race ?s3" "bs_cur ?s3 = 0" by (simp_all add: s)
  from bloom_no_false_negative [OF 3 r(2)] r(1,3) ok have "answers 128 4 ?s3 9" by (auto simp: overtaken_def)
  with 3 r show ?thesis by (intro exI [of _ ?s3] conjI bexI [of _ ?r]) simp_all
qed

text \<open>
  The race: \<open>|=\<close> reads and writes the word in two steps, without synchronisation, and the service
  calls \<open>Add\<close> from every handler. When another call sets a bit of the same word in between, its bit
  is lost, and the key it belongs to is answered "certainly not seen".
\<close>

lemma bloom_bit_lost:
  assumes "gw_todo j = p # ps" "gw_todo j' = q # qs" "gw_gen j' = gw_gen j" "p div 64 = q div 64" "p \<noteq> q"
    and "gw_gen j < length (bs_gens s)" "q div 64 < length (bs_gens s ! gw_gen j)" "\<not> bit_set (bs_gens s ! gw_gen j) q"
    and "write_word (read_word j' s) s = (j1, gs1)" "write_word (read_word j s) (s\<lparr>bs_gens := gs1\<rparr>) = (j2, gs2)"
  shows "bit_set (gs1 ! gw_gen j) q \<and> \<not> bit_set (gs2 ! gw_gen j) q"
proof -
  let ?g = "bs_gens s ! gw_gen j" and ?i = "q div 64"
  have "p mod 64 \<noteq> q mod 64" using assms(4,5) by (metis div_mult_mod_eq)
  moreover have "gs1 = (bs_gens s)[gw_gen j := ?g[?i := (?g ! ?i) OR push_bit (q mod 64) 1]]"
    using assms(2,3,9) by (simp add: write_word_def read_word_def)
  moreover have "gs2 = gs1[gw_gen j := (gs1 ! gw_gen j)[?i := (?g ! ?i) OR push_bit (p mod 64) 1]]"
    using assms(1,4,10) by (simp add: write_word_def read_word_def)
  ultimately show ?thesis
    using assms(6-8) by (auto simp: bit_set_def bit_or_iff bit_pow2)
qed

end
