(* ===== verification/TimeWheel.thy ===== *)
theory TimeWheel
  imports Prelude "HOL-Library.Multiset"
begin

text \<open>
  The hierarchical timing wheel (\<open>internal/timewheel/wheel.go\<close>). Times are integers
  (nanoseconds); a task is its identifier; a level is its tick, its face time and its slots,
  and a wheel is the chain of levels from the root up, with the log of started tasks. \<open>sz\<close>
  is the number of slots of every level. Starting a task's goroutine is an entry of the log
  with the time the wheel believed it to be (the root's face) or, in \<open>advance\<close>, the driver's
  time.
\<close>

record wentry =
  w_expire :: int
  w_id :: nat

record level =
  l_tick :: int
  l_current :: int
  l_slots :: "wentry list list"

record wheel =
  w_size :: nat
  levels :: "level list"
  fired :: "(int \<times> wentry) list"

definition new_level :: "nat \<Rightarrow> int \<Rightarrow> int \<Rightarrow> level" where
  "new_level sz tick now = \<lparr>l_tick = tick, l_current = now, l_slots = replicate sz []\<rparr>"

definition StartWheel :: "int \<Rightarrow> nat \<Rightarrow> int \<Rightarrow> wheel" where
  "StartWheel tick sz now = \<lparr>w_size = sz, levels = [new_level sz tick now], fired = []\<rparr>"

definition span :: "nat \<Rightarrow> level \<Rightarrow> int" where
  "span sz l = l_tick l * int sz"

definition slot_idx :: "nat \<Rightarrow> level \<Rightarrow> int \<Rightarrow> nat" where
  \<comment> \<open>\<open>uint32(t / tick) & (sz - 1)\<close>; the mask is a remainder for a sz that is a power of two
    (below 2^32), which the code asks for\<close>
  "slot_idx sz l t = nat (t div l_tick l mod int sz)"

definition slot_add :: "nat \<Rightarrow> wentry \<Rightarrow> level \<Rightarrow> level" where
  "slot_add i e l = l\<lparr>l_slots := (l_slots l)[i := l_slots l ! i @ [e]]\<rparr>"

definition log_fire :: "int \<Rightarrow> wentry \<Rightarrow> wheel \<Rightarrow> wheel" where
  "log_fire t e w = w\<lparr>fired := fired w @ [(t, e)]\<rparr>"

text \<open>
  The loop of \<open>insert\<close> climbs the levels, creating them lazily. The result is \<open>None\<close> when the
  fuel does not suffice; \<open>Inl ls\<close>: fire at once; \<open>Inr ls\<close>: the levels with the entry added.
\<close>

fun climb :: "nat \<Rightarrow> nat \<Rightarrow> wentry \<Rightarrow> level list \<Rightarrow> (level list + level list) option" where
  "climb 0 sz e ls = None"
| "climb (Suc k) sz e [] = None"
| "climb (Suc k) sz e (l # ls) =
     (let remaining = w_expire e - l_current l
      in if remaining < l_tick l then Some (Inl (l # ls))
         else if remaining < span sz l then Some (Inr (slot_add (slot_idx sz l (w_expire e)) e l # ls))
         else
           (let up = (if ls = [] then [new_level sz (span sz l) (l_current l)] else ls)
            in map_option (map_sum (\<lambda>x. l # x) (\<lambda>x. l # x)) (climb k sz e up)))"

definition climb_fuel :: "wentry \<Rightarrow> level list \<Rightarrow> nat" where
  \<comment> \<open>the ticks at least double from level to level (\<open>climb_total\<close>)\<close>
  "climb_fuel e ls = Suc (nat (w_expire e - Min (l_current ` set ls)))"

definition wheel_insert :: "wentry \<Rightarrow> wheel \<Rightarrow> wheel" where
  "wheel_insert e w =
     (case climb (climb_fuel e (levels w)) (w_size w) e (levels w) of
        None \<Rightarrow> w
      | Some (Inl ls) \<Rightarrow> log_fire (l_current (hd (levels w))) e (w\<lparr>levels := ls\<rparr>)
      | Some (Inr ls) \<Rightarrow> w\<lparr>levels := ls\<rparr>)"

definition After :: "int \<Rightarrow> int \<Rightarrow> nat \<Rightarrow> wheel \<Rightarrow> wheel" where
  \<comment> \<open>called at time \<open>now\<close>\<close>
  "After now delay i w =
     (if delay \<le> 0 then log_fire now \<lparr>w_expire = now + delay, w_id = i\<rparr> w
      else wheel_insert \<lparr>w_expire = now + delay, w_id = i\<rparr> w)"

definition take_slot :: "nat \<Rightarrow> nat \<Rightarrow> int \<Rightarrow> wheel \<Rightarrow> wentry list \<times> wheel" where
  \<comment> \<open>level \<open>d\<close> moves its face to \<open>now\<close> and gives up slot \<open>i\<close>\<close>
  "take_slot d i now w =
     (let l = levels w ! d
      in (l_slots l ! i,
          w\<lparr>levels := (levels w)[d := l\<lparr>l_current := now, l_slots := (l_slots l)[i := []]\<rparr>]\<rparr>))"

definition drain_one :: "int \<Rightarrow> wentry \<Rightarrow> wheel \<Rightarrow> wheel" where
  "drain_one now e w = (if w_expire e \<le> now then log_fire now e w else wheel_insert e w)"

fun advance :: "nat \<Rightarrow> nat \<Rightarrow> int \<Rightarrow> wheel \<Rightarrow> wheel" where
  \<comment> \<open>fuel, then the level \<open>advance\<close> is called on\<close>
  "advance 0 d now w = w"
| "advance (Suc k) d now w =
     (if length (levels w) \<le> d \<or> now - l_current (levels w ! d) < l_tick (levels w ! d) then w
      else
        (let i = slot_idx (w_size w) (levels w ! d) now;
             (es, w1) = take_slot d i now w;
             w2 = fold (drain_one now) es w1
         in if i = 0 \<and> d + 1 < length (levels w2) then advance k (d + 1) now w2 else w2))"

definition oldest :: "wheel \<Rightarrow> int" where
  "oldest w = Min (l_current ` set (levels w))"

definition tick_wheel :: "int \<Rightarrow> wheel \<Rightarrow> wheel" where
  \<comment> \<open>one round of the driver: \<open>advance\<close> on the root; the fuel suffices by \<open>advance_fuel\<close>\<close>
  "tick_wheel now w = advance (Suc (nat (now - oldest w))) 0 now w"

subsection \<open>Well-formed wheels\<close>

definition level_ok :: "nat \<Rightarrow> level \<Rightarrow> bool" where
  "level_ok sz l \<longleftrightarrow> 0 < l_tick l \<and> length (l_slots l) = sz \<and>
     (\<forall>i < sz. \<forall>e \<in> set (l_slots l ! i). slot_idx sz l (w_expire e) = i)"

fun chain_ok :: "nat \<Rightarrow> level list \<Rightarrow> bool" where
  "chain_ok sz [] = True"
| "chain_ok sz [l] = level_ok sz l"
| "chain_ok sz (l # m # ls) \<longleftrightarrow> level_ok sz l \<and> l_tick m = span sz l \<and> l_current m \<le> l_current l \<and>
     chain_ok sz (m # ls)"

definition wheel_ok :: "wheel \<Rightarrow> bool" where
  "wheel_ok w \<longleftrightarrow> 2 \<le> w_size w \<and> levels w \<noteq> [] \<and> chain_ok (w_size w) (levels w)"

definition entries :: "level list \<Rightarrow> wentry multiset" where
  "entries ls = (\<Sum>l \<in># mset ls. \<Sum>b \<in># mset (l_slots l). mset b)"

definition all_tasks :: "wheel \<Rightarrow> wentry multiset" where
  "all_tasks w = entries (levels w) + mset (map snd (fired w))"

lemma slot_idx_lt: "0 < sz \<Longrightarrow> slot_idx sz l t < sz"
  by (simp add: slot_idx_def nat_less_iff)

lemma slot_idx_cong: "l_tick l = l_tick l' \<Longrightarrow> slot_idx sz l t = slot_idx sz l' t"
  by (simp add: slot_idx_def)

lemma chain_ok_Cons: "chain_ok sz (l # ls) \<longleftrightarrow> level_ok sz l \<and> chain_ok sz ls \<and>
    (ls \<noteq> [] \<longrightarrow> l_tick (hd ls) = span sz l \<and> l_current (hd ls) \<le> l_current l)"
  by (cases ls) auto

lemma level_ok_new: "0 < tick \<Longrightarrow> level_ok sz (new_level sz tick now)"
  by (simp add: level_ok_def new_level_def)

lemma level_ok_add: "level_ok sz l \<Longrightarrow> slot_idx sz l (w_expire e) = i \<Longrightarrow> level_ok sz (slot_add i e l)"
proof -
  assume l: "level_ok sz l" and i: "slot_idx sz l (w_expire e) = i"
  have "slot_idx sz l (w_expire x) = j"
    if "j < sz" "x \<in> set ((l_slots l)[i := l_slots l ! i @ [e]] ! j)" for j x
    using l i that by (cases "j = i") (auto simp: level_ok_def)
  then show ?thesis
    using l by (simp add: level_ok_def slot_add_def slot_idx_def)
qed

lemma slot_add_simps [simp]:
  "l_tick (slot_add i e l) = l_tick l" "l_current (slot_add i e l) = l_current l"
  by (simp_all add: slot_add_def)

lemma mset_slot_update: "i < length bs \<Longrightarrow>
    (\<Sum>b \<in># mset (bs[i := bs ! i @ [e]]). mset b) = add_mset e (\<Sum>b \<in># mset bs. mset b)"
proof (induction bs arbitrary: i)
  case (Cons b bs)
  then show ?case by (cases i) auto
qed simp

lemma mset_slot_clear: "i < length bs \<Longrightarrow>
    (\<Sum>b \<in># mset (bs[i := []]). mset b) + mset (bs ! i) = (\<Sum>b \<in># mset bs. mset b)"
proof (induction bs arbitrary: i)
  case (Cons b bs)
  then show ?case by (cases i) (auto simp: union_ac)
qed simp

lemma entries_Cons [simp]: "entries (l # ls) = (\<Sum>b \<in># mset (l_slots l). mset b) + entries ls"
  by (simp add: entries_def)

lemma entries_Nil [simp]: "entries [] = {#}"
  by (simp add: entries_def)

lemma entries_new [simp]: "entries [new_level sz t c] = {#}"
  by (simp add: entries_def new_level_def)

subsection \<open>Inserting\<close>

lemma int_less_pow: "(x :: int) < 2 ^ nat x"
proof (cases "0 \<le> x")
  case True
  have "int (nat x) < int (2 ^ nat x)" using less_exp by (simp only: of_nat_less_iff)
  with True show ?thesis by simp
next
  case False
  then show ?thesis by (simp add: not_le order_less_le_trans)
qed

lemma climb_effect:
  assumes "climb k sz e ls = Some r" "chain_ok sz ls" "2 \<le> sz" "ls \<noteq> []"
  shows "case r of
      Inl ls' \<Rightarrow> ls' = ls \<and> w_expire e - l_current (hd ls) < l_tick (hd ls)
    | Inr ls' \<Rightarrow> chain_ok sz ls' \<and> entries ls' = add_mset e (entries ls) \<and>
        length ls \<le> length ls' \<and> l_tick (hd ls') = l_tick (hd ls) \<and> l_current (hd ls') = l_current (hd ls) \<and>
        l_tick (hd ls) \<le> w_expire e - l_current (hd ls) \<and>
        take (length ls) (map l_current ls') = map l_current ls \<and>
        (\<forall>m. (\<forall>l \<in> set ls. m \<le> l_current l) \<longrightarrow> (\<forall>l \<in> set ls'. m \<le> l_current l))"
  using assms
proof (induction k sz e ls arbitrary: r rule: climb.induct)
  case (3 k sz e l ls)
  let ?rem = "w_expire e - l_current l" and ?up = "if ls = [] then [new_level sz (span sz l) (l_current l)] else ls"
  have l: "level_ok sz l" using 3(3) by (simp add: chain_ok_Cons)
  then have tick: "0 < l_tick l" by (simp add: level_ok_def)
  have slot: "slot_idx sz l (w_expire e) < length (l_slots l)"
    using l 3(4) slot_idx_lt [of sz l] by (simp add: level_ok_def)
  consider "?rem < l_tick l" | "\<not> ?rem < l_tick l" "?rem < span sz l" | "\<not> ?rem < l_tick l" "\<not> ?rem < span sz l"
    by blast
  then show ?case
  proof cases
    case 1
    with 3(2) have "r = Inl (l # ls)" by simp
    with 1 show ?thesis by simp
  next
    case 2
    with 3(2) have r: "r = Inr (slot_add (slot_idx sz l (w_expire e)) e l # ls)" by simp
    have "chain_ok sz (slot_add (slot_idx sz l (w_expire e)) e l # ls)"
      using 3(3) level_ok_add [OF l refl, of e] by (simp add: chain_ok_Cons span_def)
    with r 2 show ?thesis using mset_slot_update [OF slot, of e] by (simp add: slot_add_def)
  next
    case up: 3
    then obtain r' where r': "climb k sz e ?up = Some r'" "r = map_sum (\<lambda>x. l # x) (\<lambda>x. l # x) r'"
      using 3(2) by (auto simp: Let_def)
    have sp: "0 < span sz l" using tick 3(4) by (simp add: span_def)
    have U: "chain_ok sz ?up" "?up \<noteq> []" "l_tick (hd ?up) = span sz l" "l_current (hd ?up) \<le> l_current l"
      "entries ?up = entries ls"
      using 3(3) level_ok_new [OF sp] by (auto simp: chain_ok_Cons new_level_def split: if_splits)
    note IH = 3(1) [OF refl up(1) up(2) refl r'(1) U(1) 3(4) U(2)]
    show ?thesis
    proof (cases r')
      case (Inl ls')
      with IH U(3,4) up(2) show ?thesis by simp
    next
      case (Inr ls')
      note J = IH [unfolded Inr sum.case]
      have T: "take (length ls) (map l_current ls') = map l_current ls"
        using J by (cases "ls = []") simp_all
      have I: "chain_ok sz ls'" "entries ls' = add_mset e (entries ls)" "length ?up \<le> length ls'"
        "l_tick (hd ls') = span sz l" "l_current (hd ls') \<le> l_current l"
        "\<forall>m. (\<forall>l \<in> set ?up. m \<le> l_current l) \<longrightarrow> (\<forall>l \<in> set ls'. m \<le> l_current l)"
        using J U(3-5) by (blast, metis, blast, metis, metis, blast)
      have Q: "\<forall>l' \<in> set (l # ls'). m \<le> l_current l'" if m: "\<forall>l' \<in> set (l # ls). m \<le> l_current l'" for m
      proof -
        have "\<forall>l \<in> set ?up. m \<le> l_current l" using m by (simp add: new_level_def)
        with I(6) have "\<forall>l \<in> set ls'. m \<le> l_current l" by blast
        moreover have "m \<le> l_current l" using m by (meson list.set_intros(1))
        ultimately show ?thesis by (simp only: list.set ball_simps)
      qed
      have r: "r = Inr (l # ls')" using r'(2) Inr by simp
      have "chain_ok sz (l # ls')" using I(1,4,5) l by (simp add: chain_ok_Cons)
      moreover have "length (l # ls) \<le> length (l # ls')" using I(3) by (simp split: if_splits)
      ultimately show ?thesis
        unfolding r sum.case list.sel using I(2) up(1) T
        by (intro conjI allI impI Q) simp_all
    qed
  qed
qed simp_all

lemma climb_total:
  assumes "chain_ok sz ls" "2 \<le> sz" "ls \<noteq> []" "\<forall>l \<in> set ls. m \<le> l_current l"
    and "w_expire e - m < l_tick (hd ls) * 2 ^ k"
  shows "\<exists>r. climb (Suc k) sz e ls = Some r"
  using assms
proof (induction k arbitrary: ls)
  case 0
  then obtain l ls' where ls: "ls = l # ls'" by (cases ls) auto
  with 0 have "w_expire e - l_current l < l_tick l" by auto
  with ls show ?case by simp
next
  case (Suc k)
  then obtain l ls' where ls: "ls = l # ls'" by (cases ls) auto
  let ?up = "if ls' = [] then [new_level sz (span sz l) (l_current l)] else ls'"
  have l: "level_ok sz l" using Suc.prems(1) ls by (simp add: chain_ok_Cons)
  then have sp: "0 < span sz l" using Suc.prems(2) by (simp add: span_def level_ok_def)
  have up: "chain_ok sz ?up" "?up \<noteq> []" "l_tick (hd ?up) = span sz l" "\<forall>l \<in> set ?up. m \<le> l_current l"
    using Suc.prems ls level_ok_new [OF sp] by (auto simp: chain_ok_Cons new_level_def split: if_splits)
  have "l_tick l * 2 \<le> span sz l" using l Suc.prems(2) by (auto simp: span_def level_ok_def)
  then have "l_tick l * 2 ^ Suc k \<le> span sz l * 2 ^ k"
    by (metis mult.assoc mult_right_mono power_Suc zero_le_numeral zero_le_power)
  moreover have "w_expire e - m < l_tick l * 2 ^ Suc k" using Suc.prems(5) ls by simp
  ultimately have "w_expire e - m < l_tick (hd ?up) * 2 ^ k" unfolding up(3) by linarith
  from Suc.IH [OF up(1) Suc.prems(2) up(2,4) this]
  obtain r where "climb (Suc k) sz e ?up = Some r" by blast
  with ls show ?case by (simp add: Let_def del: climb.simps(3)) (simp add: Let_def)
qed

definition fire_ok :: "int \<Rightarrow> wheel \<Rightarrow> bool" where
  "fire_ok tick w \<longleftrightarrow> (\<forall>(t, e) \<in> set (fired w). w_expire e < t + tick)"

definition root :: "wheel \<Rightarrow> level" where
  "root w = hd (levels w)"

lemma chain_tick_pos: "chain_ok sz ls \<Longrightarrow> l \<in> set ls \<Longrightarrow> 0 < l_tick l"
  by (induction ls) (auto simp: chain_ok_Cons level_ok_def)

definition low :: "int \<Rightarrow> wheel \<Rightarrow> bool" where
  "low m w \<longleftrightarrow> (\<forall>l \<in> set (levels w). m \<le> l_current l)"

definition inserted :: "wentry \<Rightarrow> wheel \<Rightarrow> wheel \<Rightarrow> bool" where
  "inserted e w w' \<longleftrightarrow> wheel_ok w' \<and> w_size w' = w_size w \<and> all_tasks w' = add_mset e (all_tasks w) \<and>
     l_tick (root w') = l_tick (root w) \<and> l_current (root w') = l_current (root w) \<and>
     length (levels w) \<le> length (levels w') \<and> (\<forall>m. low m w \<longrightarrow> low m w') \<and>
     take (length (levels w)) (map l_current (levels w')) = map l_current (levels w) \<and>
     (if w_expire e - l_current (root w) < l_tick (root w)
      then levels w' = levels w \<and> fired w' = fired w @ [(l_current (root w), e)]
      else fired w' = fired w)"

lemma wheel_insert_effect:
  assumes "wheel_ok w"
  shows "inserted e w (wheel_insert e w)"
proof -
  let ?ls = "levels w" and ?m = "Min (l_current ` set (levels w))"
  have W: "2 \<le> w_size w" "?ls \<noteq> []" "chain_ok (w_size w) ?ls" using assms by (simp_all add: wheel_ok_def)
  have mins: "\<forall>l \<in> set ?ls. ?m \<le> l_current l" by simp
  have tick: "1 \<le> l_tick (hd ?ls)" using chain_tick_pos [OF W(3)] W(2) by (metis hd_in_set int_one_le_iff_zero_less)
  let ?k = "nat (w_expire e - ?m)"
  have "w_expire e - ?m < 2 ^ ?k"
    by (rule int_less_pow)
  also have "\<dots> \<le> l_tick (hd ?ls) * 2 ^ ?k" using tick by simp
  finally obtain r where r: "climb (climb_fuel e ?ls) (w_size w) e ?ls = Some r"
    using climb_total [OF W(3,1,2) mins] by (auto simp: climb_fuel_def)
  note eff = climb_effect [OF r W(3,1,2)]
  show ?thesis
  proof (cases r)
    case (Inl ls')
    with eff r assms show ?thesis
      by (simp add: inserted_def wheel_insert_def log_fire_def all_tasks_def root_def wheel_ok_def low_def)
  next
    case (Inr ls')
    with eff have "ls' \<noteq> []" using W(2) by auto
    with Inr eff r W show ?thesis
      by (simp add: inserted_def wheel_insert_def all_tasks_def root_def wheel_ok_def low_def)
  qed
qed

subsection \<open>Advancing\<close>

lemma chain_ok_nth: "chain_ok sz ls \<longleftrightarrow> (\<forall>l \<in> set ls. level_ok sz l) \<and>
    (\<forall>d. Suc d < length ls \<longrightarrow> l_tick (ls ! Suc d) = span sz (ls ! d) \<and>
       l_current (ls ! Suc d) \<le> l_current (ls ! d))"
proof (induction ls)
  case (Cons l ls)
  show ?case
  proof (cases ls)
    case (Cons m ms)
    have "(\<forall>d. Suc d < length (l # ls) \<longrightarrow> P d) \<longleftrightarrow> P 0 \<and> (\<forall>d. Suc d < length ls \<longrightarrow> P (Suc d))" for P
      using Cons by (metis Suc_less_eq length_Cons not0_implies_Suc zero_less_Suc)
    with Cons.IH Cons show ?thesis by (simp add: chain_ok_Cons) blast
  qed simp
qed simp

lemma entries_update:
  assumes "d < length ls" "i < length (l_slots (ls ! d))"
  shows "entries (ls[d := (ls ! d)\<lparr>l_current := c, l_slots := (l_slots (ls ! d))[i := []]\<rparr>]) +
     mset (l_slots (ls ! d) ! i) = entries ls"
  using assms
proof (induction ls arbitrary: d)
  case (Cons l ls)
  then show ?case
    using mset_slot_clear by (cases d) (auto simp: union_ac)
qed simp

lemma take_slot_effect:
  assumes "wheel_ok w" "d < length (levels w)" "i < w_size w" "l_current (levels w ! d) \<le> now"
    and "d \<noteq> 0 \<Longrightarrow> now \<le> l_current (levels w ! (d - 1))" "take_slot d i now w = (es, w1)"
  shows "wheel_ok w1" "w_size w1 = w_size w" "all_tasks w1 + mset es = all_tasks w" "fired w1 = fired w"
    and "l_tick (root w1) = l_tick (root w)" "length (levels w1) = length (levels w)"
    and "l_current (levels w1 ! d) = now"
proof -
  let ?l = "(levels w ! d)\<lparr>l_current := now, l_slots := (l_slots (levels w ! d))[i := []]\<rparr>"
  have w1: "w1 = w\<lparr>levels := (levels w)[d := ?l]\<rparr>" "es = l_slots (levels w ! d) ! i"
    using assms(6) by (auto simp: take_slot_def Let_def)
  have ok: "\<forall>l \<in> set (levels w). level_ok (w_size w) l"
    and ch: "\<And>j. Suc j < length (levels w) \<Longrightarrow> l_tick (levels w ! Suc j) = span (w_size w) (levels w ! j) \<and>
       l_current (levels w ! Suc j) \<le> l_current (levels w ! j)"
    using assms(1) by (auto simp: wheel_ok_def chain_ok_nth)
  have l: "level_ok (w_size w) (levels w ! d)" using ok assms(2) by simp
  have "level_ok (w_size w) ?l"
  proof -
    have "x \<in> set (l_slots (levels w ! d) ! j)"
      if "j < w_size w" "x \<in> set ((l_slots (levels w ! d))[i := []] ! j)" for j x
      using that l by (cases "j = i") (auto simp: level_ok_def)
    with l show ?thesis unfolding level_ok_def slot_idx_def by simp
  qed
  then have "\<forall>l \<in> set ((levels w)[d := ?l]). level_ok (w_size w) l"
    using ok set_update_subset_insert [of "levels w" d ?l] by blast
  moreover have "l_tick ((levels w)[d := ?l] ! Suc j) = span (w_size w) ((levels w)[d := ?l] ! j) \<and>
       l_current ((levels w)[d := ?l] ! Suc j) \<le> l_current ((levels w)[d := ?l] ! j)"
    if j: "Suc j < length (levels w)" for j
    using ch [OF j] assms(2,4,5) j by (cases "d = j"; cases "d = Suc j") (auto simp: span_def)
  ultimately show "wheel_ok w1"
    using assms(1) w1 by (auto simp: wheel_ok_def chain_ok_nth)
  show "w_size w1 = w_size w" "fired w1 = fired w" "length (levels w1) = length (levels w)"
    "l_current (levels w1 ! d) = now"
    using w1 assms(2) by simp_all
  show "l_tick (root w1) = l_tick (root w)"
    using w1 assms(2) by (cases "levels w"; cases d) (simp_all add: root_def)
  have "i < length (l_slots (levels w ! d))" using l assms(3) by (simp add: level_ok_def)
  from entries_update [OF assms(2) this, of now] show "all_tasks w1 + mset es = all_tasks w"
    using w1 by (simp add: all_tasks_def union_ac)
qed

definition fires :: "int \<Rightarrow> wheel \<Rightarrow> wheel \<Rightarrow> bool" where
  \<comment> \<open>what was started since, and none of it a tick or more early\<close>
  "fires tick w w' \<longleftrightarrow> (\<exists>new. fired w' = fired w @ new \<and> (\<forall>(t, e) \<in> set new. w_expire e < t + tick))"

lemma fires_refl [simp]: "fires tick w w"
  by (simp add: fires_def)

lemma fires_trans: "fires tick u v \<Longrightarrow> fires tick v w \<Longrightarrow> fires tick u w"
  unfolding fires_def by fastforce

lemma fires_fired: "fires tick w w' \<Longrightarrow> set (fired w) \<subseteq> set (fired w')"
  by (auto simp: fires_def)

definition same_face :: "wheel \<Rightarrow> wheel \<Rightarrow> bool" where
  "same_face w w' \<longleftrightarrow> w_size w' = w_size w \<and> l_tick (root w') = l_tick (root w) \<and>
     length (levels w) \<le> length (levels w') \<and>
     take (length (levels w)) (map l_current (levels w')) = map l_current (levels w)"

lemma same_face_refl [simp]: "same_face w w"
  by (simp add: same_face_def)

lemma same_face_trans: "same_face u v \<Longrightarrow> same_face v w \<Longrightarrow> same_face u w"
  unfolding same_face_def by (metis (no_types, lifting) le_trans min.absorb1 take_take)

lemma same_face_current: "same_face w w' \<Longrightarrow> d < length (levels w) \<Longrightarrow>
    l_current (levels w' ! d) = l_current (levels w ! d)"
  unfolding same_face_def by (metis length_map nth_map nth_take order_less_le_trans)

lemma drain_one_effect:
  assumes "wheel_ok w"
  shows "wheel_ok (drain_one now e w)" "all_tasks (drain_one now e w) = add_mset e (all_tasks w)"
    and "same_face w (drain_one now e w)" "fires (l_tick (root w)) w (drain_one now e w)"
    and "w_expire e \<le> now \<or> w_expire e - l_current (root w) < l_tick (root w) \<Longrightarrow>
      e \<in> snd ` set (fired (drain_one now e w))"
proof -
  have tick: "0 < l_tick (root w)"
    using assms chain_tick_pos by (metis hd_in_set root_def wheel_ok_def)
  note ins = wheel_insert_effect [OF assms, of e, unfolded inserted_def]
  show "wheel_ok (drain_one now e w)" "all_tasks (drain_one now e w) = add_mset e (all_tasks w)"
    "same_face w (drain_one now e w)"
    using ins assms by (auto simp: drain_one_def log_fire_def all_tasks_def wheel_ok_def same_face_def root_def)
  show "fires (l_tick (root w)) w (drain_one now e w)"
    using ins tick by (auto simp: drain_one_def log_fire_def fires_def split: if_splits)
  show "w_expire e \<le> now \<or> w_expire e - l_current (root w) < l_tick (root w) \<Longrightarrow>
      e \<in> snd ` set (fired (drain_one now e w))"
    using ins by (force simp: drain_one_def log_fire_def)
qed

lemma drain_all_effect:
  assumes "wheel_ok w"
  shows "wheel_ok (fold (drain_one now) es w) \<and> all_tasks (fold (drain_one now) es w) = all_tasks w + mset es \<and>
    same_face w (fold (drain_one now) es w) \<and> fires (l_tick (root w)) w (fold (drain_one now) es w) \<and>
    (\<forall>e \<in> set es. w_expire e \<le> now \<or> w_expire e - l_current (root w) < l_tick (root w) \<longrightarrow>
      e \<in> snd ` set (fired (fold (drain_one now) es w)))"
  using assms
proof (induction es arbitrary: w)
  case (Cons e es)
  let ?v = "drain_one now e w"
  note one = drain_one_effect [OF Cons.prems, where e = e and now = now]
  note IH = Cons.IH [OF one(1)]
  have r: "l_tick (root ?v) = l_tick (root w)" "l_current (root ?v) = l_current (root w)"
    using one(1,3) Cons.prems same_face_current [OF one(3), of 0]
    by (auto simp: same_face_def root_def wheel_ok_def hd_conv_nth)
  have sub: "snd ` set (fired ?v) \<subseteq> snd ` set (fired (fold (drain_one now) es ?v))"
    using IH fires_fired by blast
  show ?case
    using IH one r sub same_face_trans [OF one(3)] fires_trans [OF one(4)] by (auto simp: union_ac)
qed simp

lemma advance_effect:
  assumes "wheel_ok w" "d \<noteq> 0 \<Longrightarrow> d \<le> length (levels w) \<and> l_current (levels w ! (d - 1)) = now"
  shows "wheel_ok (advance k d now w) \<and> all_tasks (advance k d now w) = all_tasks w \<and>
    fires (l_tick (root w)) w (advance k d now w) \<and> l_tick (root (advance k d now w)) = l_tick (root w)"
  using assms
proof (induction k d now w rule: advance.induct)
  case (2 k d now w)
  show ?case
  proof (cases "length (levels w) \<le> d \<or> now - l_current (levels w ! d) < l_tick (levels w ! d)")
    case False
    let ?i = "slot_idx (w_size w) (levels w ! d) now"
    obtain es w1 where ts: "take_slot d ?i now w = (es, w1)" by force
    let ?w2 = "fold (drain_one now) es w1"
    have d: "d < length (levels w)" using False by simp
    then have "0 < l_tick (levels w ! d)"
      using 2(2) chain_tick_pos nth_mem by (auto simp: wheel_ok_def)
    then have cur: "l_current (levels w ! d) \<le> now" using False by simp
    have i: "?i < w_size w" using 2(2) by (intro slot_idx_lt) (simp add: wheel_ok_def)
    have prev: "d \<noteq> 0 \<Longrightarrow> now \<le> l_current (levels w ! (d - 1))" using 2(3) by simp
    note T = take_slot_effect [OF 2(2) d i cur prev ts]
    note D = drain_all_effect [OF T(1), of now es]
    have base: "wheel_ok ?w2" "all_tasks ?w2 = all_tasks w" "fires (l_tick (root w)) w ?w2"
      "same_face w1 ?w2" using D T by (auto simp: fires_def)
    have face: "l_current (levels ?w2 ! d) = now" "l_tick (root ?w2) = l_tick (root w)"
      using same_face_current [OF base(4)] T d base(4) by (auto simp: same_face_def)
    show ?thesis
    proof (cases "?i = 0 \<and> d + 1 < length (levels ?w2)")
      case True
      then have eq: "advance (Suc k) d now w = advance k (d + 1) now ?w2" using False ts by (simp add: Let_def)
      have IH: "wheel_ok (advance k (d + 1) now ?w2) \<and> all_tasks (advance k (d + 1) now ?w2) = all_tasks ?w2 \<and>
          fires (l_tick (root ?w2)) ?w2 (advance k (d + 1) now ?w2) \<and>
          l_tick (root (advance k (d + 1) now ?w2)) = l_tick (root ?w2)"
        by (rule 2(1) [OF False refl ts [symmetric] refl refl True base(1)]) (use True face(1) in simp)
      with base face(2) show ?thesis unfolding eq by (auto intro: fires_trans)
    next
      case no: False
      then have "advance (Suc k) d now w = ?w2" using False ts by (auto simp: Let_def)
      with base face(2) show ?thesis by simp
    qed
  qed (use 2(2) in simp)
qed simp

lemma wheel_ok_Start: "0 < tick \<Longrightarrow> 2 \<le> sz \<Longrightarrow> wheel_ok (StartWheel tick sz now)"
  by (simp add: wheel_ok_def StartWheel_def level_ok_new)

inductive wheel_run :: "int \<Rightarrow> wentry multiset \<Rightarrow> wheel \<Rightarrow> bool" for tick where
  start: "2 \<le> sz \<Longrightarrow> wheel_run tick {#} (StartWheel tick sz now)"
| after: "wheel_run tick S w \<Longrightarrow> wheel_run tick (add_mset \<lparr>w_expire = now + delay, w_id = i\<rparr> S) (After now delay i w)"
| tick: "wheel_run tick S w \<Longrightarrow> wheel_run tick S (tick_wheel now w)"

lemma After_effect:
  assumes "wheel_ok w"
  shows "wheel_ok (After now delay i w)" "l_tick (root (After now delay i w)) = l_tick (root w)"
    and "all_tasks (After now delay i w) = add_mset \<lparr>w_expire = now + delay, w_id = i\<rparr> (all_tasks w)"
    and "fires (l_tick (root w)) w (After now delay i w)"
proof -
  have tick: "0 < l_tick (root w)"
    using assms chain_tick_pos by (metis hd_in_set root_def wheel_ok_def)
  note ins = wheel_insert_effect [OF assms, of "\<lparr>w_expire = now + delay, w_id = i\<rparr>", unfolded inserted_def]
  show "wheel_ok (After now delay i w)" "l_tick (root (After now delay i w)) = l_tick (root w)"
    "all_tasks (After now delay i w) = add_mset \<lparr>w_expire = now + delay, w_id = i\<rparr> (all_tasks w)"
    using ins assms by (auto simp: After_def log_fire_def all_tasks_def wheel_ok_def root_def)
  show "fires (l_tick (root w)) w (After now delay i w)"
    using ins tick by (auto simp: After_def log_fire_def fires_def split: if_splits)
qed

lemma low_fold_drain: "wheel_ok w \<Longrightarrow> low m w \<Longrightarrow> low m (fold (drain_one now) es w)"
proof (induction es arbitrary: w)
  case (Cons e es)
  have "low m (drain_one now e w)"
    using Cons.prems wheel_insert_effect [OF Cons.prems(1), of e]
    by (auto simp: drain_one_def log_fire_def inserted_def low_def)
  with Cons.IH [of "drain_one now e w"] drain_one_effect(1) [OF Cons.prems(1)] show ?case by simp
qed simp

lemma chain_ticks: "chain_ok sz ls \<Longrightarrow> 2 \<le> sz \<Longrightarrow> d < length ls \<Longrightarrow> 2 ^ d \<le> l_tick (ls ! d)"
proof (induction d)
  case 0
  then have "0 < l_tick (ls ! 0)" by (intro chain_tick_pos) auto
  then show ?case by simp
next
  case (Suc d)
  then have "2 ^ d \<le> l_tick (ls ! d)" by simp
  then have "2 * 2 ^ d \<le> l_tick (ls ! d) * int sz"
    using Suc.prems(2) by (metis mult.commute mult_mono' of_nat_le_iff of_nat_numeral zero_le_numeral zero_le_power)
  with Suc.prems show ?case by (simp add: chain_ok_nth span_def)
qed

lemma advance_fuel:
  assumes "wheel_ok w" "low m w" "nat (now - m) < k + d" "m \<le> now"
    and "d \<noteq> 0 \<Longrightarrow> d \<le> length (levels w) \<and> l_current (levels w ! (d - 1)) = now"
  shows "advance (Suc k) d now w = advance k d now w"
  using assms
proof (induction k arbitrary: d w)
  case 0
  show ?case
  proof (cases "d < length (levels w)")
    case True
    have "int d < 2 ^ d" by (metis less_exp of_nat_less_iff of_nat_numeral of_nat_power)
    also have "\<dots> \<le> l_tick (levels w ! d)"
      using 0(1) True by (intro chain_ticks) (auto simp: wheel_ok_def)
    finally have "int d < l_tick (levels w ! d)" .
    moreover have "m \<le> l_current (levels w ! d)" using 0(2) True by (simp add: low_def)
    ultimately have "now - l_current (levels w ! d) < l_tick (levels w ! d)"
      using 0(3,4) by linarith
    then show ?thesis by simp
  qed simp
next
  case (Suc k)
  show ?case
  proof (cases "length (levels w) \<le> d \<or> now - l_current (levels w ! d) < l_tick (levels w ! d)")
    case False
    let ?i = "slot_idx (w_size w) (levels w ! d) now"
    obtain es w1 where ts: "take_slot d ?i now w = (es, w1)" by force
    let ?w2 = "fold (drain_one now) es w1"
    have d: "d < length (levels w)" using False by simp
    then have "0 < l_tick (levels w ! d)"
      using Suc.prems(1) chain_tick_pos nth_mem by (auto simp: wheel_ok_def)
    then have cur: "l_current (levels w ! d) \<le> now" using False by simp
    have i: "?i < w_size w" using Suc.prems(1) by (intro slot_idx_lt) (simp add: wheel_ok_def)
    have prev: "d \<noteq> 0 \<Longrightarrow> now \<le> l_current (levels w ! (d - 1))" using Suc.prems(5) by simp
    note T = take_slot_effect [OF Suc.prems(1) d i cur prev ts]
    note D = drain_all_effect [OF T(1), of now es]
    have "low m w1"
      using ts Suc.prems(2,4) set_update_subset_insert by (fastforce simp: take_slot_def Let_def low_def)
    then have low2: "low m ?w2" using low_fold_drain [OF T(1)] by blast
    have face: "l_current (levels ?w2 ! d) = now"
      using same_face_current [of w1 ?w2 d] D T d by auto
    have step: "advance (Suc j) d now w =
        (if ?i = 0 \<and> d + 1 < length (levels ?w2) then advance j (d + 1) now ?w2 else ?w2)" for j
      using False ts by (auto simp: Let_def)
    have "advance (Suc k) (d + 1) now ?w2 = advance k (d + 1) now ?w2" if "d + 1 < length (levels ?w2)"
      by (rule Suc.IH) (use D low2 Suc.prems(3,4) face that in auto)
    then show ?thesis unfolding step by simp
  qed simp
qed

lemma wheel_run_inv:
  assumes "wheel_run tick S w" "0 < tick"
  shows "wheel_ok w \<and> l_tick (root w) = tick \<and> all_tasks w = S \<and>
    (\<forall>(t, e) \<in> set (fired w). w_expire e < t + tick)"
  using assms
proof induction
  case (start sz now)
  then show ?case
    by (simp add: wheel_ok_Start) (simp add: StartWheel_def root_def all_tasks_def new_level_def entries_def)
next
  case (after S w now delay i)
  then show ?case using After_effect [of w now delay i] by (auto simp: fires_def)
next
  case (tick S w now)
  then show ?case
    using advance_effect [of w 0 now "Suc (nat (now - oldest w))"] by (auto simp: fires_def tick_wheel_def)
qed

text \<open>
  C32: The wheel neither loses nor duplicates a task: after any sequence of \<open>After\<close> calls and
  driver rounds, at any times and whatever the number of levels, the tasks waiting in the slots
  together with those started are exactly those scheduled, and no task was started a full tick
  or more before it was due.
\<close>

theorem wheel_conserves_tasks:
  assumes "wheel_run tick S w" "0 < tick"
  shows "all_tasks w = S \<and> (\<forall>(t, e) \<in> set (fired w). w_expire e < t + tick)"
  using wheel_run_inv [OF assms] by simp

lemma wheel_conserves_tasks_witness:
  "all_tasks (tick_wheel 130 (After 105 900 7 (StartWheel 10 4 100))) = {#\<lparr>w_expire = 1005, w_id = 7\<rparr>#}"
proof -
  have "wheel_run 10 (add_mset \<lparr>w_expire = 105 + 900, w_id = 7\<rparr> {#}) (tick_wheel 130 (After 105 900 7 (StartWheel 10 4 100)))"
    by (intro wheel_run.intros) simp
  from wheel_conserves_tasks [OF this] show ?thesis by simp
qed

lemma same_tick: "0 < (t :: int) \<Longrightarrow> x div t = y div t \<Longrightarrow> x - y < t"
proof -
  assume t: "0 < t" and eq: "x div t = y div t"
  have "x = t * (y div t) + x mod t" using eq by (metis mult_div_mod_eq)
  moreover have "y = t * (y div t) + y mod t" by simp
  moreover have "x mod t < t" "0 \<le> y mod t" using t by simp_all
  ultimately show ?thesis by linarith
qed

text \<open>
  Due tasks start: when the driver handles the tick a task of the finest level falls into,
  the task is started in that round, also if its time is later within the tick.
\<close>

theorem wheel_fires_due:
  assumes "wheel_ok w" "l_tick (root w) \<le> now - l_current (root w)"
    and "e \<in># entries [root w]" "w_expire e div l_tick (root w) = now div l_tick (root w)"
  shows "e \<in> snd ` set (fired (tick_wheel now w))"
proof -
  have ne: "levels w \<noteq> []" using assms(1) by (simp add: wheel_ok_def)
  have root: "root w = levels w ! 0" using ne by (simp add: root_def hd_conv_nth)
  let ?i = "slot_idx (w_size w) (levels w ! 0) now"
  obtain es w1 where ts: "take_slot 0 ?i now w = (es, w1)" by force
  have tick: "0 < l_tick (root w)" using assms(1) ne chain_tick_pos by (metis hd_in_set root_def wheel_ok_def)
  have ok: "level_ok (w_size w) (root w)" using assms(1) ne by (auto simp: wheel_ok_def chain_ok_nth root)
  have i: "?i < w_size w" using assms(1) by (intro slot_idx_lt) (simp add: wheel_ok_def)
  have "take_slot 0 ?i now w = (es, w1)" by (rule ts)
  have T: "wheel_ok w1" "l_tick (root w1) = l_tick (root w)" "length (levels w1) = length (levels w)"
    "l_current (levels w1 ! 0) = now"
    using take_slot_effect [OF assms(1) _ i _ _ ts] ne assms(2) tick root by auto
  then have cur1: "l_current (root w1) = now" using ne by (metis hd_conv_nth length_0_conv root_def)
  obtain b where b: "b \<in> set (l_slots (root w))" "e \<in> set b" using assms(3) by auto
  then obtain j where j: "j < w_size w" "e \<in> set (l_slots (root w) ! j)"
    using ok by (auto simp: level_ok_def in_set_conv_nth)
  with ok have "slot_idx (w_size w) (root w) (w_expire e) = j" by (auto simp: level_ok_def)
  with assms(4) have "j = ?i" by (simp add: slot_idx_def root)
  with j(2) ts have e: "e \<in> set es" by (simp add: take_slot_def Let_def root)
  have "w_expire e - now < l_tick (root w)"
    by (rule same_tick [OF tick assms(4)])
  with drain_all_effect [OF T(1), of now es] e T(2) cur1
  have "e \<in> snd ` set (fired (fold (drain_one now) es w1))" by auto
  moreover have "set (fired (fold (drain_one now) es w1)) \<subseteq> set (fired (tick_wheel now w))"
  proof -
    let ?w2 = "fold (drain_one now) es w1"
    have w2: "wheel_ok ?w2" "same_face w1 ?w2" using drain_all_effect [OF T(1), of now es] by auto
    have cur: "l_current (levels ?w2 ! 0) = now" "levels ?w2 \<noteq> []"
      using same_face_current [OF w2(2), of 0] T(3,4) ne w2(1) by (auto simp: wheel_ok_def)
    let ?k = "nat (now - oldest w)"
    have "tick_wheel now w = (if ?i = 0 \<and> 0 + 1 < length (levels ?w2) then advance ?k (0 + 1) now ?w2 else ?w2)"
      using ne assms(2) ts root by (simp add: tick_wheel_def Let_def)
    moreover have "fires (l_tick (root ?w2)) ?w2 (advance ?k (0 + 1) now ?w2)"
      using advance_effect [OF w2(1), of "0 + 1" now ?k] cur by (simp add: Suc_le_eq)
    ultimately show ?thesis using fires_fired by auto
  qed
  ultimately show ?thesis by blast
qed

definition wheel_demo :: wheel where
  "wheel_demo = After 100 25 7 (StartWheel 10 4 100)"

lemma wheel_demo_eq: "wheel_demo = \<lparr>w_size = 4, levels = [\<lparr>l_tick = 10, l_current = 100,
    l_slots = [[\<lparr>w_expire = 125, w_id = 7\<rparr>], [], [], []]\<rparr>], fired = []\<rparr>"
  by (simp add: wheel_demo_def After_def StartWheel_def wheel_insert_def climb_fuel_def span_def
      new_level_def numeral_eq_Suc slot_add_def slot_idx_def)

lemma wheel_fires_due_witness:
  "\<lparr>w_expire = 125, w_id = 7\<rparr> \<in> snd ` set (fired (tick_wheel 121 wheel_demo))"
proof (rule wheel_fires_due)
  show "wheel_ok wheel_demo"
    unfolding wheel_demo_def by (rule After_effect(1)) (simp add: wheel_ok_Start)
qed (simp_all add: wheel_demo_eq root_def)

text \<open>
  A task can start early, against the comment on \<open>After\<close>, which promises the window from the
  delay to one tick more: a task whose delay is shorter than a tick is started at once, before
  its delay has run.
\<close>

theorem wheel_fires_early:
  assumes "wheel_ok w" "l_current (root w) = now" "0 < delay" "delay < l_tick (root w)"
  shows "fired (After now delay i w) = fired w @ [(now, \<lparr>w_expire = now + delay, w_id = i\<rparr>)]"
  using wheel_insert_effect [OF assms(1), of "\<lparr>w_expire = now + delay, w_id = i\<rparr>"] assms
  by (simp add: After_def inserted_def)

lemma wheel_fires_early_witness:
  "fired (After 100 9 7 (StartWheel 10 4 100)) = [(100, \<lparr>w_expire = 109, w_id = 7\<rparr>)]"
  using wheel_fires_early [of "StartWheel 10 4 100" 100 9 7]
  by (simp add: wheel_ok_Start) (simp add: StartWheel_def root_def new_level_def)

end
