(* ===== verification/MsgAlloc.thy ===== *)
theory MsgAlloc
  imports SeqAlloc "HOL-Library.AList"
begin

text \<open>
  The prefetching allocators of the message service (\<open>msgIDAlloc\<close> and \<open>convSeqAlloc\<close> of
  \<open>internal/message/service.go\<close>), written over the request they refill from. Both hold a mutex
  for the whole call, so calls are atomic; other clients of the source may run in between.
\<close>

definition msgIDStep :: int where "msgIDStep = 512"
definition convSeqStep :: int where "convSeqStep = 64"
definition convSeqMapHigh :: nat where "convSeqMapHigh = 4096"

record msgIDAlloc =
  ma_cur :: int
  ma_last :: int

definition msgIDAlloc0 :: msgIDAlloc where
  "msgIDAlloc0 = \<lparr>ma_cur = 0, ma_last = 0\<rparr>"

definition AllocMsgID :: "(int \<Rightarrow> 's \<Rightarrow> (string + int) \<times> 's) \<Rightarrow> msgIDAlloc \<Rightarrow> 's \<Rightarrow>
    (string + int) \<times> msgIDAlloc \<times> 's" where
  "AllocMsgID req a s =
     (if ma_cur a = 0 \<or> ma_last a < ma_cur a then
        (case req msgIDStep s of
           (Inl e, s') \<Rightarrow> (Inl e, a, s')
         | (Inr start, s') \<Rightarrow>
             (Inr start, \<lparr>ma_cur = start + 1, ma_last = start + msgIDStep - 1\<rparr>, s'))
      else (Inr (ma_cur a), a\<lparr>ma_cur := ma_cur a + 1\<rparr>, s))"

type_synonym convSeqAlloc = "(conv_id \<times> int \<times> int) list"  \<comment> \<open>the map, as its entries\<close>

definition AllocConv :: "(conv_id \<Rightarrow> int \<Rightarrow> 's \<Rightarrow> (string + int) \<times> 's) \<Rightarrow> conv_id \<Rightarrow> convSeqAlloc \<Rightarrow> 's \<Rightarrow>
    (string + int) \<times> convSeqAlloc \<times> 's" where
  \<comment> \<open>the loop runs at most twice: after a refill the entry is not empty\<close>
  "AllocConv req c m s =
     (case map_of m c of
        Some (cur, lst) \<Rightarrow>
          if cur \<le> lst then (Inr cur, AList.update c (cur + 1, lst) m, s)
          else
            (let m1 = (if convSeqMapHigh \<le> length m then [] else m)
             in case req c convSeqStep s of
                  (Inl e, s') \<Rightarrow> (Inl e, m1, s')
                | (Inr start, s') \<Rightarrow>
                    (Inr start, AList.update c (start + 1, start + convSeqStep - 1) m1, s'))
      | None \<Rightarrow>
          (let m1 = (if convSeqMapHigh \<le> length m then [] else m)
           in case req c convSeqStep s of
                (Inl e, s') \<Rightarrow> (Inl e, m1, s')
              | (Inr start, s') \<Rightarrow>
                  (Inr start, AList.update c (start + 1, start + convSeqStep - 1) m1, s')))"

lemmas alloc_steps = msgIDStep_def convSeqStep_def

subsection \<open>Increasing numbers from any source\<close>

datatype ('f, 'k) source_call = Own 'f | Others 'f 'k int

context range_source
begin

definition msgid_inv :: "'k \<Rightarrow> msgIDAlloc \<Rightarrow> 's \<Rightarrow> int \<Rightarrow> bool" where
  \<comment> \<open>\<open>v\<close> is the last number given out\<close>
  "msgid_inv k a s v \<longleftrightarrow> good s \<and> v \<le> mark k s \<and> 0 \<le> v \<and>
     (ma_cur a = 0 \<or> ma_last a < ma_cur a \<or> v < ma_cur a \<and> ma_last a \<le> mark k s)"

lemma msgid_step:
  assumes "msgid_inv k a s v" "AllocMsgID (request f k) a s = (r, a', s')"
  shows "case r of Inl e \<Rightarrow> msgid_inv k a' s' v | Inr x \<Rightarrow> v < x \<and> msgid_inv k a' s' x"
proof (cases "ma_cur a = 0 \<or> ma_last a < ma_cur a")
  case True
  have n: "0 < msgIDStep" by (simp add: alloc_steps)
  obtain q t where q: "request f k msgIDStep s = (q, t)" by force
  note G = request_good [of s msgIDStep f k] request_marks [of s msgIDStep k f k]
  show ?thesis
  proof (cases q)
    case (Inl e)
    with True assms q G n show ?thesis by (auto simp: AllocMsgID_def msgid_inv_def)
  next
    case (Inr st)
    have "mark k s < st \<and> mark k t = st + msgIDStep - 1"
      using assms(1) q n unfolding Inr msgid_inv_def by (intro request_range) auto
    with Inr True assms q G n mark_nonneg [of s k] show ?thesis
      by (auto simp: AllocMsgID_def msgid_inv_def alloc_steps)
  qed
next
  case False
  with assms show ?thesis by (auto simp: AllocMsgID_def msgid_inv_def)
qed

fun run_msgid :: "'k \<Rightarrow> ('f, 'k) source_call list \<Rightarrow> msgIDAlloc \<Rightarrow> 's \<Rightarrow> int list" where
  "run_msgid k [] a s = []"
| "run_msgid k (Others f j n # cs) a s = run_msgid k cs a (if 0 < n then snd (request f j n s) else s)"
| "run_msgid k (Own f # cs) a s =
     (case AllocMsgID (request f k) a s of
        (Inl e, a', s') \<Rightarrow> run_msgid k cs a' s'
      | (Inr x, a', s') \<Rightarrow> x # run_msgid k cs a' s')"

lemma run_msgid_increasing:
  "msgid_inv k a s v \<Longrightarrow> sorted_wrt (<) (run_msgid k cs a s) \<and> (\<forall>x \<in> set (run_msgid k cs a s). v < x)"
proof (induction k cs a s arbitrary: v rule: run_msgid.induct)
  case (2 k f j n cs a s)
  let ?s' = "if 0 < n then snd (request f j n s) else s"
  have "msgid_inv k a ?s' v"
    using 2(2) request_good [of s n f j] request_marks [of s n k f j]
    by (auto simp: msgid_inv_def intro: order_trans)
  from 2(1) [OF this] show ?case by simp
next
  case (3 k f cs a s)
  obtain r a' s' where q: "AllocMsgID (request f k) a s = (r, a', s')" using prod_cases3 by blast
  note S = msgid_step [OF 3(3) q]
  show ?case
  proof (cases r)
    case (Inl e)
    with S 3(1) [OF q [symmetric] Inl refl] q show ?thesis by simp
  next
    case (Inr x)
    with S 3(2) [OF q [symmetric] Inr refl] q show ?thesis by fastforce
  qed
qed simp

end

definition pool_msgids :: "(seq_faults \<times> (nat \<Rightarrow> seq_faults), string \<times> int) source_call list \<Rightarrow> pool \<Rightarrow> int list" where
  \<comment> \<open>the ids \<open>msgIDs.Alloc\<close> returns along a history of calls of the sequence service\<close>
  "pool_msgids cs p = seqpool.run_msgid (''msg'', 0) cs msgIDAlloc0 p"

text \<open>
  Message ids never repeat: whatever other clients of the sequence service do in between
  and whichever loads fail, the ids a message service takes through its prefetching allocator
  are strictly increasing and positive.
\<close>

theorem msg_ids_increasing:
  assumes "pool_ok p"
  shows "sorted_wrt (<) (pool_msgids cs p) \<and> (\<forall>x \<in> set (pool_msgids cs p). 0 < x)"
  unfolding pool_msgids_def
proof (rule seqpool.run_msgid_increasing)
  show "seqpool.msgid_inv (''msg'', 0) msgIDAlloc0 p 0"
    using assms pool_mark_nonneg by (simp add: seqpool.msgid_inv_def msgIDAlloc0_def)
qed

definition pool0 :: pool where
  "pool0 = \<lparr>p_step = 10000, p_m = (\<lambda>_. None), p_tbl = []\<rparr>"

lemma pool0_ok: "pool_ok pool0"
  by (simp add: pool_ok_def pool0_def seq_max_def)

lemma msg_ids_increasing_witness:
  "sorted_wrt (<) (pool_msgids [Own (\<lambda>_. no_fault, \<lambda>_ _. no_fault), Others (\<lambda>_. no_fault, \<lambda>_ _. no_fault) (''msg'', 0) 512,
     Own (\<lambda>_. no_fault, \<lambda>_ _. no_fault)] pool0)"
  using msg_ids_increasing [OF pool0_ok] by blast

text \<open>
  The same for the conversation numbers: per conversation, over any interleaving of calls for
  other conversations, also when the map is emptied at its bound.
\<close>

datatype ('f, 'k) conv_call = ConvOwn 'f conv_id | ConvOthers 'f 'k int

context range_source
begin

definition conv_inv :: "(conv_id \<Rightarrow> 'k) \<Rightarrow> convSeqAlloc \<Rightarrow> 's \<Rightarrow> conv_id \<Rightarrow> int \<Rightarrow> bool" where
  "conv_inv key m s c v \<longleftrightarrow> good s \<and> v \<le> mark (key c) s \<and>
     (\<forall>cur lst. map_of m c = Some (cur, lst) \<longrightarrow> lst < cur \<or> v < cur \<and> lst \<le> mark (key c) s)"

lemma conv_step:
  assumes "conv_inv key m s c v" "AllocConv (\<lambda>c. request f (key c)) d m s = (r, m', s')"
  shows "case r of Inl e \<Rightarrow> conv_inv key m' s' c v
    | Inr x \<Rightarrow> if d = c then v < x \<and> conv_inv key m' s' c x else conv_inv key m' s' c v"
proof -
  have n: "0 < convSeqStep" by (simp add: alloc_steps)
  obtain q t where q: "request f (key d) convSeqStep s = (q, t)" by force
  have G: "good t" "mark (key c) s \<le> mark (key c) t"
    using assms(1) n q request_good [of s convSeqStep f "key d"] request_marks [of s convSeqStep "key c" f "key d"]
    by (auto simp: conv_inv_def)
  have R: "mark (key d) s < st \<and> mark (key d) t = st + convSeqStep - 1" if "q = Inr st" for st
    using assms(1) q n that unfolding conv_inv_def by (intro request_range) auto
  let ?m1 = "if convSeqMapHigh \<le> length m then [] else m"
  show ?thesis
  proof (cases "\<exists>cur lst. map_of m d = Some (cur, lst) \<and> cur \<le> lst")
    case True
    with assms show ?thesis
      by (auto simp: AllocConv_def conv_inv_def update_conv')
  next
    case False
    then have "AllocConv (\<lambda>c. request f (key c)) d m s = (case q of Inl e \<Rightarrow> (Inl e, ?m1, t)
        | Inr start \<Rightarrow> (Inr start, AList.update d (start + 1, start + convSeqStep - 1) ?m1, t))"
      by (auto simp: AllocConv_def Let_def q split: option.split sum.split)
    with assms G R show ?thesis
      by (cases q) (fastforce simp: conv_inv_def update_conv' alloc_steps split: if_splits)+
  qed
qed

fun run_conv :: "(conv_id \<Rightarrow> 'k) \<Rightarrow> ('f, 'k) conv_call list \<Rightarrow> convSeqAlloc \<Rightarrow> 's \<Rightarrow> (conv_id \<times> int) list" where
  "run_conv key [] m s = []"
| "run_conv key (ConvOthers f j n # cs) m s = run_conv key cs m (if 0 < n then snd (request f j n s) else s)"
| "run_conv key (ConvOwn f d # cs) m s =
     (case AllocConv (\<lambda>c. request f (key c)) d m s of
        (Inl e, m', s') \<Rightarrow> run_conv key cs m' s'
      | (Inr x, m', s') \<Rightarrow> (d, x) # run_conv key cs m' s')"

lemma run_conv_increasing:
  assumes "conv_inv key m s c v"
  defines "xs \<equiv> \<lambda>cs m s. map snd (filter (\<lambda>p. fst p = c) (run_conv key cs m s))"
  shows "sorted_wrt (<) (xs cs m s) \<and> (\<forall>x \<in> set (xs cs m s). v < x)"
  using assms(1) unfolding xs_def
proof (induction key cs m s arbitrary: v rule: run_conv.induct)
  case (2 key f j n cs m s)
  let ?s' = "if 0 < n then snd (request f j n s) else s"
  have "conv_inv key m ?s' c v"
    using 2(2) request_good [of s n f j] request_marks [of s n "key c" f j]
    unfolding conv_inv_def by (auto intro: order_trans)
  from 2(1) [OF this] show ?case by simp
next
  case (3 key f d cs m s)
  obtain r m' s' where q: "AllocConv (\<lambda>c. request f (key c)) d m s = (r, m', s')" using prod_cases3 by blast
  note S = conv_step [OF 3(3) q]
  show ?case
  proof (cases r)
    case (Inl e)
    with S 3(1) [OF q [symmetric] Inl refl] q show ?thesis by simp
  next
    case (Inr x)
    with S 3(2) [OF q [symmetric] Inr refl] q show ?thesis by (cases "d = c") fastforce+
  qed
qed simp

end

definition pool_convseqs :: "(seq_faults \<times> (nat \<Rightarrow> seq_faults), string \<times> int) conv_call list \<Rightarrow> pool \<Rightarrow>
    (conv_id \<times> int) list" where
  \<comment> \<open>the (conversation, seq) pairs \<open>convSeqs.Alloc\<close> returns along a history\<close>
  "pool_convseqs cs p = seqpool.run_conv (\<lambda>c. (''conv'', c)) cs [] p"

text \<open>
  Message order is total within a conversation: along any history of calls, with loads
  failing, other services allocating in between and the prefetch map being emptied, the
  sequence numbers one message service assigns in a conversation are strictly increasing.
\<close>

theorem conv_seqs_increasing:
  assumes "pool_ok p"
  shows "sorted_wrt (<) (map snd (filter (\<lambda>x. fst x = c) (pool_convseqs cs p)))"
proof -
  have "seqpool.conv_inv (\<lambda>c. (''conv'', c)) [] p c 0"
    using assms pool_mark_nonneg by (simp add: seqpool.conv_inv_def)
  from seqpool.run_conv_increasing [OF this, of cs] show ?thesis
    by (simp add: pool_convseqs_def)
qed

lemma conv_seqs_increasing_witness:
  "sorted_wrt (<) (map snd (filter (\<lambda>x. fst x = 7) (pool_convseqs
     [ConvOwn (\<lambda>_. no_fault, \<lambda>_ _. no_fault) 7, ConvOwn (\<lambda>_. no_fault, \<lambda>_ _. no_fault) 8,
      ConvOwn (\<lambda>_. no_fault, \<lambda>_ _. no_fault) 7] pool0)))"
  using conv_seqs_increasing [OF pool0_ok] by blast

end
