(* ===== verification/Batchers.thy ===== *)
theory Batchers
  imports SeqAlloc "HOL-Library.AList"
begin

text \<open>
  The three write-behind buffers: \<open>lastSeqBatcher\<close> (\<open>internal/message/service.go\<close>), \<open>markBatcher\<close>
  (\<open>internal/message/delivery.go\<close>) and the write-back of \<open>RedisSyncSeqClient\<close>
  (\<open>internal/message/seq_client.go\<close>). Each adds to a buffer and starts a flush when the buffer
  is full, or a timer when none is in flight; a flush swaps the buffer out and writes it.
  \<open>b_pending\<close> counts the flushes that were started (goroutines and timers) and have not run.
\<close>

record ('k, 'v) batch =
  b_buf :: "('k \<times> 'v) list"
  b_arm :: bool
  b_pending :: nat

definition empty_batch :: "('k, 'v) batch" where
  "empty_batch = \<lparr>b_buf = [], b_arm = False, b_pending = 0\<rparr>"

definition start_flush :: "nat \<Rightarrow> ('k, 'v) batch \<Rightarrow> ('k, 'v) batch" where
  \<comment> \<open>the tail of the three \<open>add\<close>s: \<open>full\<close>, \<open>needArm\<close>, and what they start\<close>
  "start_flush limit b =
     (if limit \<le> length (b_buf b) then b\<lparr>b_pending := b_pending b + 1\<rparr>
      else if b_arm b then b
      else b\<lparr>b_arm := True, b_pending := b_pending b + 1\<rparr>)"

definition swap_out :: "('k, 'v) batch \<Rightarrow> ('k \<times> 'v) list \<times> ('k, 'v) batch" where
  \<comment> \<open>the head of the three \<open>flush\<close>es\<close>
  "swap_out b = (b_buf b, b\<lparr>b_buf := [], b_arm := False, b_pending := b_pending b - 1\<rparr>)"

definition put_max :: "'k \<Rightarrow> int \<Rightarrow> ('k, int) batch \<Rightarrow> ('k, int) batch" where
  \<comment> \<open>\<open>if b.buf[k] < v { b.buf[k] = v }\<close>; a missing entry reads as 0\<close>
  "put_max k v b =
     (if (case map_of (b_buf b) k of None \<Rightarrow> 0 | Some x \<Rightarrow> x) < v
      then b\<lparr>b_buf := AList.update k v (b_buf b)\<rparr> else b)"

subsection \<open>The interface\<close>

text \<open>
  What the callers rely on: a value that is in the buffer has a flush to come. \<open>busy\<close> says that
  the buffer is not empty, \<open>coming\<close> that a started flush has not run. \<open>ok\<close> is the buffer's own
  invariant.
\<close>

locale batcher =
  fixes ok :: "'s \<Rightarrow> bool"
    and busy :: "'s \<Rightarrow> bool"
    and coming :: "'s \<Rightarrow> bool"
    and add :: "'i \<Rightarrow> 's \<Rightarrow> 's"
    and flush :: "'f \<Rightarrow> 's \<Rightarrow> 's"
    and start :: 's
  assumes ok_start: "ok start"
    and ok_add: "ok s \<Longrightarrow> ok (add i s)"
    and ok_flush: "ok s \<Longrightarrow> coming s \<Longrightarrow> ok (flush f s)"
    and ok_coming: "ok s \<Longrightarrow> busy s \<Longrightarrow> coming s"
begin

inductive reach :: "'s \<Rightarrow> bool" where
  init: "reach start"
| add: "reach s \<Longrightarrow> reach (add i s)"
| flush: "reach s \<Longrightarrow> coming s \<Longrightarrow> reach (flush f s)"

lemma reach_ok: "reach s \<Longrightarrow> ok s"
  by (induction rule: reach.induct) (auto intro: ok_start ok_add ok_flush)

lemma never_stranded: "reach s \<Longrightarrow> busy s \<Longrightarrow> coming s"
  using reach_ok ok_coming by blast

end

definition batch_ok :: "('k, 'v) batch \<Rightarrow> bool" where
  "batch_ok b \<longleftrightarrow> (b_arm b \<longrightarrow> 0 < b_pending b) \<and> (b_buf b \<noteq> [] \<longrightarrow> 0 < b_pending b)"

lemma batch_ok_empty [simp]: "batch_ok empty_batch"
  by (simp add: batch_ok_def empty_batch_def)

lemma batch_ok_start_flush: "(b_arm b \<longrightarrow> 0 < b_pending b) \<Longrightarrow> batch_ok (start_flush n b)"
  by (auto simp: batch_ok_def start_flush_def)

lemma batch_ok_swap_out: "batch_ok (snd (swap_out b))"
  by (simp add: batch_ok_def swap_out_def)

lemma put_max_simps [simp]: "b_arm (put_max k v b) = b_arm b" "b_pending (put_max k v b) = b_pending b"
  by (simp_all add: put_max_def)

lemma batch_ok_add: "batch_ok b \<Longrightarrow> batch_ok (start_flush n (put_max k v b))"
  by (rule batch_ok_start_flush) (simp add: batch_ok_def)

subsection \<open>\<open>lastSeqBatcher\<close>\<close>

definition lastSeqFlushSize :: nat where "lastSeqFlushSize = 32"

definition lastSeq_add :: "conv_id \<times> int \<Rightarrow> (conv_id, int) batch \<Rightarrow> (conv_id, int) batch" where
  "lastSeq_add x b = start_flush lastSeqFlushSize (put_max (fst x) (snd x) b)"

definition bump_last_seq :: "conv_id \<Rightarrow> int \<Rightarrow> meta_db \<Rightarrow> meta_db" where
  \<comment> \<open>UPDATE conversations SET last_seq = ? WHERE conv_id = ? AND last_seq < ?\<close>
  "bump_last_seq c v db = db\<lparr>conversations :=
     row_upd (\<lambda>r. cv_id r = c \<and> cv_last_seq r < v) (\<lambda>r. r\<lparr>cv_last_seq := v\<rparr>) (conversations db)\<rparr>"

definition lastSeq_write :: "rfaults \<Rightarrow> (conv_id \<Rightarrow> string option) \<Rightarrow> (conv_id \<times> int) list \<Rightarrow>
    meta_db \<times> redis option \<Rightarrow> meta_db \<times> redis option" where
  "lastSeq_write rf flt rows s =
     fold (\<lambda>(c, v) (db, ca). if flt c \<noteq> None then (db, ca)
            else (bump_last_seq c v db, InvalidateConv rf ca c)) rows s"

type_synonym lastSeq_state = "(conv_id, int) batch \<times> meta_db \<times> redis option"

definition lastSeq_flush :: "rfaults \<times> (conv_id \<Rightarrow> string option) \<Rightarrow> lastSeq_state \<Rightarrow> lastSeq_state" where
  "lastSeq_flush f s =
     (case swap_out (fst s) of (rows, b) \<Rightarrow> (b, lastSeq_write (fst f) (snd f) rows (snd s)))"

lemma batch_ok_busy: "batch_ok b \<Longrightarrow> b_buf b \<noteq> [] \<Longrightarrow> 0 < b_pending b"
  by (simp add: batch_ok_def)

lemma lastSeq_flush_ok: "batch_ok (fst (lastSeq_flush f s))"
  using batch_ok_swap_out [of "fst s"] by (auto simp: lastSeq_flush_def split: prod.split)

interpretation lastSeqs: batcher "\<lambda>s. batch_ok (fst s)" "\<lambda>s. b_buf (fst s) \<noteq> []" "\<lambda>s. 0 < b_pending (fst s)"
  "\<lambda>x s. (lastSeq_add x (fst s), snd s)" lastSeq_flush "(empty_batch, db, c)" for db c
  by unfold_locales (simp_all add: lastSeq_add_def lastSeq_flush_ok batch_ok_add batch_ok_busy)

subsection \<open>\<open>markBatcher\<close>\<close>

definition markFlushSize :: nat where "markFlushSize = 32"

type_synonym markBatcher = "nat \<Rightarrow> (conv_id \<times> int, unit) batch"

definition mark_add :: "SlotTable \<Rightarrow> conv_id \<times> int \<Rightarrow> markBatcher \<Rightarrow> markBatcher" where
  "mark_add slots x m =
     (let shard = DBIndex (RouteMsg slots (fst x))
      in m(shard := start_flush markFlushSize
           ((m shard)\<lparr>b_buf := AList.update x () (b_buf (m shard))\<rparr>)))"

definition mark_done :: "(conv_id \<times> int) list \<Rightarrow> local_row list \<Rightarrow> local_row list" where
  \<comment> \<open>UPDATE local_message SET status = 1 WHERE status = 0 AND (conv_id, msg_id) IN (...)\<close>
  "mark_done keys t = row_upd (\<lambda>r. lm_status r = 0 \<and> lm_key r \<in> set keys) (\<lambda>r. r\<lparr>lm_status := 1\<rparr>) t"

definition mark_flush :: "nat \<times> string option \<Rightarrow> markBatcher \<times> msg_dbs \<Rightarrow> markBatcher \<times> msg_dbs" where
  "mark_flush f s =
     (let (shard, fault) = f; (rows, b) = swap_out (fst s shard)
      in ((fst s)(shard := b),
          if rows = [] \<or> fault \<noteq> None then snd s
          else set_local_table shard (mark_done (map fst rows) (local_table (snd s) shard)) (snd s)))"

definition marks_coming :: "nat \<Rightarrow> markBatcher \<times> msg_dbs \<Rightarrow> bool" where
  "marks_coming i s \<longleftrightarrow> 0 < b_pending (fst s i)"

lemma mark_add_ok: "\<forall>i. batch_ok (m i) \<Longrightarrow> \<forall>i. batch_ok (mark_add slots x m i)"
  by (auto simp: mark_add_def Let_def intro!: batch_ok_start_flush) (simp add: batch_ok_def)

interpretation marks: batcher "\<lambda>s. batch_ok (fst s i)" "\<lambda>s. b_buf (fst s i) \<noteq> []" "marks_coming i"
  "\<lambda>(slots, x) s. (mark_add slots x (fst s), snd s)" mark_flush "(\<lambda>_. empty_batch, dbs)" for i dbs
proof
  fix s :: "markBatcher \<times> msg_dbs" and sx :: "SlotTable \<times> conv_id \<times> int" and f :: "nat \<times> string option"
  show "batch_ok (fst (\<lambda>_. empty_batch, dbs) i)" by simp
  show "batch_ok (fst ((case sx of (slots, x) \<Rightarrow> \<lambda>s. (mark_add slots x (fst s), snd s)) s) i)" if "batch_ok (fst s i)"
    using that by (cases sx) (auto simp: mark_add_def Let_def batch_ok_def intro!: batch_ok_start_flush [unfolded batch_ok_def])
  show "batch_ok (fst (mark_flush f s) i)" if "batch_ok (fst s i)" "marks_coming i s"
    using that batch_ok_swap_out [of "fst s i"] by (auto simp: mark_flush_def Let_def split: prod.split)
  show "marks_coming i s" if "batch_ok (fst s i)" "b_buf (fst s i) \<noteq> []"
    using that by (simp add: marks_coming_def batch_ok_def)
qed

subsection \<open>The watermark client on Redis\<close>

definition seedMargin :: int where "seedMargin = 1024"
definition syncFlushSize :: nat where "syncFlushSize = 64"
definition syncBackfillRate :: nat where "syncBackfillRate = 32"

record RedisSyncSeqClient =
  floor_of :: "uid \<Rightarrow> int option"
  sync_buf :: "(uid, int) batch"
  sync_tbl :: "seq_row list"
  sync_cache :: "redis option"

definition floorFor :: "string option \<Rightarrow> uid \<Rightarrow> RedisSyncSeqClient \<Rightarrow> int \<times> RedisSyncSeqClient" where
  \<comment> \<open>a failed query counts as watermark 0\<close>
  "floorFor dberr u r =
     (case floor_of r u of
        Some f \<Rightarrow> (f, r)
      | None \<Rightarrow>
          (let dbMax = (if dberr = None then seq_max ''sync'' u (sync_tbl r) else 0);
               f0 = dbMax + seedMargin;
               f = (if 0 < f0 then f0 else 0)
           in (f, r\<lparr>floor_of := (if 0 < f0 then (floor_of r)(u \<mapsto> f0) else floor_of r)\<rparr>)))"

definition backfill :: "uid \<Rightarrow> int \<Rightarrow> (uid, int) batch \<Rightarrow> (uid, int) batch" where
  "backfill u v b = start_flush syncFlushSize (put_max u v b)"

definition sync_BumpSyncSeq :: "rfaults \<Rightarrow> string option \<Rightarrow> int \<Rightarrow> string + int \<Rightarrow> uid \<Rightarrow> RedisSyncSeqClient \<Rightarrow>
    (string + int) \<times> RedisSyncSeqClient" where
  \<comment> \<open>\<open>rpc\<close> is the answer of the embedded fallback client\<close>
  "sync_BumpSyncSeq rf dberr now rpc u r =
     (if sync_cache r = None then (rpc, r)
      else
        (let (f, r1) = floorFor dberr u r
         in case SyncSeqBump rf now (sync_cache r1) u f of
              (Inl e, c) \<Rightarrow> (rpc, r1\<lparr>sync_cache := c\<rparr>)
            | (Inr v, c) \<Rightarrow>
                (Inr v, r1\<lparr>sync_cache := c, sync_buf := backfill u v (sync_buf r1)\<rparr>)))"

definition writeBack :: "(uid \<Rightarrow> string option) \<Rightarrow> uid \<times> int \<Rightarrow> seq_row list \<Rightarrow> seq_row list" where
  \<comment> \<open>INSERT ... ON DUPLICATE KEY UPDATE max_id = GREATEST(max_id, VALUES(max_id))\<close>
  "writeBack flt x t =
     (if flt (fst x) \<noteq> None then t
      else row_upsert sq_pk (\<lambda>r. r\<lparr>sq_max := max (sq_max r) (snd x)\<rparr>)
        \<lparr>sq_biz = ''sync'', sq_key = fst x, sq_max = snd x, sq_step = 1\<rparr> t)"

definition sync_flush :: "(uid \<Rightarrow> string option) \<Rightarrow> RedisSyncSeqClient \<Rightarrow> RedisSyncSeqClient" where
  \<comment> \<open>more than \<open>syncBackfillRate\<close> rows: the rest goes back to the buffer\<close>
  "sync_flush flt r =
     (let (rows, b) = swap_out (sync_buf r);
          now = (if syncBackfillRate < length rows then take syncBackfillRate rows else rows);
          later = (if syncBackfillRate < length rows then drop syncBackfillRate rows else [])
      in r\<lparr>sync_tbl := fold (writeBack flt) now (sync_tbl r),
           sync_buf := fold (\<lambda>(u, v). backfill u v) later b\<rparr>)"

definition sync_start :: RedisSyncSeqClient where
  "sync_start = \<lparr>floor_of = (\<lambda>_. None), sync_buf = empty_batch, sync_tbl = [], sync_cache = Some empty_redis\<rparr>"

lemma backfill_ok: "batch_ok b \<Longrightarrow> batch_ok (backfill u v b)"
  by (simp add: backfill_def batch_ok_add)

lemma backfill_all_ok: "batch_ok b \<Longrightarrow> batch_ok (fold (\<lambda>(u, v). backfill u v) xs b)"
  by (induction xs arbitrary: b) (auto simp: backfill_ok)

lemma floorFor_buf: "floorFor e u r = (f, r') \<Longrightarrow> sync_buf r' = sync_buf r"
  by (auto simp: floorFor_def Let_def split: option.splits)

lemma BumpSyncSeq_ok: "batch_ok (sync_buf r) \<Longrightarrow> batch_ok (sync_buf (snd (sync_BumpSyncSeq rf e now rpc u r)))"
  by (auto simp: sync_BumpSyncSeq_def Let_def backfill_ok dest: floorFor_buf split: prod.split sum.split)

lemma sync_flush_ok: "batch_ok (sync_buf (sync_flush flt r))"
  using batch_ok_swap_out [of "sync_buf r"]
  by (auto simp: sync_flush_def Let_def backfill_all_ok split: prod.split)

interpretation syncs: batcher "\<lambda>r. batch_ok (sync_buf r)" "\<lambda>r. b_buf (sync_buf r) \<noteq> []"
  "\<lambda>r. 0 < b_pending (sync_buf r)" "\<lambda>(rf, e, now, rpc, u) r. snd (sync_BumpSyncSeq rf e now rpc u r)"
  sync_flush sync_start
proof
  show "batch_ok (sync_buf sync_start)" by (simp add: sync_start_def)
qed (auto simp: BumpSyncSeq_ok sync_flush_ok dest: batch_ok_busy)

text \<open>
  No buffered write is stranded: in the three write-behind buffers (read counters, delivery
  marks, sync watermarks), along any sequence of additions and flushes, with any statement
  failing, a buffer that is not empty has a flush that was started and has not run yet.
\<close>

theorem buffered_writes_have_a_flush:
  "(lastSeqs.reach db c x \<longrightarrow> b_buf (fst x) \<noteq> [] \<longrightarrow> 0 < b_pending (fst x)) \<and>
   (marks.reach i dbs y \<longrightarrow> b_buf (fst y i) \<noteq> [] \<longrightarrow> marks_coming i y) \<and>
   (syncs.reach z \<longrightarrow> b_buf (sync_buf z) \<noteq> [] \<longrightarrow> 0 < b_pending (sync_buf z))"
  using lastSeqs.never_stranded marks.never_stranded syncs.never_stranded by blast

lemma buffered_writes_have_a_flush_witness:
  "0 < b_pending (fst (lastSeq_add (7, 5) empty_batch, empty_meta, None :: redis option))"
proof -
  have "lastSeqs.reach empty_meta None (lastSeq_add (7, 5) empty_batch, empty_meta, None)"
    using lastSeqs.reach.add [OF lastSeqs.reach.init, of empty_meta None "(7, 5)"] by simp
  moreover have "b_buf (lastSeq_add (7, 5) empty_batch) \<noteq> []"
    by (simp add: lastSeq_add_def start_flush_def put_max_def empty_batch_def lastSeqFlushSize_def)
  ultimately show ?thesis
    using buffered_writes_have_a_flush [of empty_meta None "(lastSeq_add (7, 5) empty_batch, empty_meta, None)"]
    by simp
qed

subsection \<open>The watermark moves up, until Redis is lost\<close>

lemma SyncSeqBump_up:
  assumes "live now c (syncSeqKey u) = Some (VInt n)"
  shows "\<exists>v c'. SyncSeqBump redis_up now (Some c) u f = (Inr v, Some c') \<and> n < v \<and> f \<le> v \<and>
    live now c' (syncSeqKey u) = Some (VInt v)"
  using assms by (auto simp: SyncSeqBump_def syncSeqScript_def)

text \<open>
  The sync watermark can go back, against the comment on \<open>RedisSyncSeqClient\<close>: the floor is
  read from the database once per process and user and then kept. When Redis loses the counter
  after the floor was cached, the next bump returns that old floor, below every value issued
  since, however many were written back to the database in between.
\<close>

theorem watermark_regresses_after_redis_loss:
  assumes "floor_of r u = Some f" "1 < f" "f < v" "seq_max ''sync'' u (sync_tbl r) = v"
  shows "fst (sync_BumpSyncSeq redis_up None now rpc u (r\<lparr>sync_cache := Some empty_redis\<rparr>)) = Inr f"
  using assms by (simp add: sync_BumpSyncSeq_def floorFor_def SyncSeqBump_def syncSeqScript_def)

lemma watermark_regresses_after_redis_loss_witness:
  "fst (sync_BumpSyncSeq redis_up None 9 (Inl ''down'') 10 (sync_start\<lparr>floor_of := [10 \<mapsto> 1024],
     sync_tbl := [\<lparr>sq_biz = ''sync'', sq_key = 10, sq_max = 5000, sq_step = 1\<rparr>],
     sync_cache := Some empty_redis\<rparr>)) = Inr 1024"
  by (rule watermark_regresses_after_redis_loss [of "sync_start\<lparr>floor_of := [10 \<mapsto> 1024],
     sync_tbl := [\<lparr>sq_biz = ''sync'', sq_key = 10, sq_max = 5000, sq_step = 1\<rparr>]\<rparr>" 10 1024 5000, simplified])
    (simp_all add: seq_max_def sq_pk_def)

end
