(* ===== verification/Like.thy ===== *)
theory Like
  imports Prelude
begin

text \<open>
  LIKE patterns: the escaping of user input (\<open>likeEscape\<close> of \<open>internal/message/search.go\<close>, the
  same replacer inside \<open>SearchUsers\<close> of \<open>internal/relation/profile.go\<close>), and LIKE matching as
  MySQL documents it (\<open>%\<close> any sequence, \<open>_\<close> one character, \<open>\\<close> escapes the next character).
  Which characters the column's collation identifies is the parameter \<open>eq\<close>.
\<close>

definition bslash :: char where "bslash = CHR 0x5C"

definition like_special :: "char set" where
  "like_special = {bslash, CHR ''%'', CHR ''_''}"

fun likeEscape :: "string \<Rightarrow> string" where
  "likeEscape [] = []"
| "likeEscape (c # s) =
     (if c = bslash \<or> c = CHR ''%'' \<or> c = CHR ''_'' then bslash # c # likeEscape s
      else c # likeEscape s)"

function sql_like :: "(char \<Rightarrow> char \<Rightarrow> bool) \<Rightarrow> string \<Rightarrow> string \<Rightarrow> bool" where
  "sql_like eq [] s = (s = [])"
| "sql_like eq (p # ps) s =
     (if p = CHR ''%'' then
        sql_like eq ps s \<or> (case s of [] \<Rightarrow> False | _ # s' \<Rightarrow> sql_like eq (p # ps) s')
      else
        (case s of [] \<Rightarrow> False
         | c # s' \<Rightarrow>
             if p = CHR ''_'' then sql_like eq ps s'
             else if p = bslash then
               (case ps of
                  [] \<Rightarrow> eq p c \<and> s' = []
                | q # ps' \<Rightarrow> eq q c \<and> sql_like eq ps' s')
             else eq p c \<and> sql_like eq ps s'))"
  by pat_completeness auto
termination
  by (relation "measure (\<lambda>(eq, p, s). length p + length s)") auto

declare sql_like.simps [simp del]

lemma sql_like_Nil [simp]: "sql_like eq [] s = (s = [])"
  by (simp add: sql_like.simps)

lemma sql_like_percent_only [simp]: "sql_like eq ''%'' s"
  by (induction s) (simp_all add: sql_like.simps(2))

lemma sql_like_escaped_Cons:
  "sql_like eq (likeEscape (c # k) @ p) s =
     (case s of [] \<Rightarrow> False | d # s' \<Rightarrow> eq c d \<and> sql_like eq (likeEscape k @ p) s')"
  by (cases s) (auto simp: sql_like.simps(2) bslash_def)

lemma sql_like_escaped_append:
  "sql_like eq (likeEscape k @ p) s \<longleftrightarrow>
     (\<exists>a b. s = a @ b \<and> list_all2 eq k a \<and> sql_like eq p b)"
proof (induction k arbitrary: s)
  case Nil
  then show ?case by simp
next
  case (Cons c k)
  show ?case
  proof (cases s)
    case Nil
    then show ?thesis by (subst sql_like_escaped_Cons) simp
  next
    case (Cons d s')
    have "sql_like eq (likeEscape (c # k) @ p) s \<longleftrightarrow>
        eq c d \<and> (\<exists>a b. s' = a @ b \<and> list_all2 eq k a \<and> sql_like eq p b)"
      by (subst sql_like_escaped_Cons) (simp add: Cons Cons.IH)
    also have "\<dots> \<longleftrightarrow> (\<exists>a b. s = a @ b \<and> list_all2 eq (c # k) a \<and> sql_like eq p b)"
      unfolding Cons
    proof
      assume "eq c d \<and> (\<exists>a b. s' = a @ b \<and> list_all2 eq k a \<and> sql_like eq p b)"
      then show "\<exists>a b. d # s' = a @ b \<and> list_all2 eq (c # k) a \<and> sql_like eq p b"
        by (metis append_Cons list.rel_intros(2))
    next
      assume "\<exists>a b. d # s' = a @ b \<and> list_all2 eq (c # k) a \<and> sql_like eq p b"
      then show "eq c d \<and> (\<exists>a b. s' = a @ b \<and> list_all2 eq k a \<and> sql_like eq p b)"
        by (auto simp: Cons_eq_append_conv list_all2_Cons1)
    qed
    finally show ?thesis .
  qed
qed

lemma sql_like_percent: "sql_like eq (CHR ''%'' # p) s \<longleftrightarrow> (\<exists>a b. s = a @ b \<and> sql_like eq p b)"
proof (induction s)
  case Nil
  then show ?case by (subst sql_like.simps) simp
next
  case (Cons c s)
  have "sql_like eq (CHR ''%'' # p) (c # s) \<longleftrightarrow>
      sql_like eq p (c # s) \<or> (\<exists>a b. s = a @ b \<and> sql_like eq p b)"
    by (subst sql_like.simps) (simp add: Cons)
  also have "\<dots> \<longleftrightarrow> (\<exists>a b. c # s = a @ b \<and> sql_like eq p b)"
    by (metis append_Cons append_Nil append_eq_Cons_conv)
  finally show ?case .
qed

lemma like_prefix: "sql_like eq (likeEscape k @ ''%'') s \<longleftrightarrow>
    length k \<le> length s \<and> list_all2 eq k (take (length k) s)"
proof
  assume "sql_like eq (likeEscape k @ ''%'') s"
  then obtain a b where "s = a @ b" "list_all2 eq k a"
    unfolding sql_like_escaped_append by blast
  then show "length k \<le> length s \<and> list_all2 eq k (take (length k) s)"
    using list_all2_lengthD by fastforce
next
  assume "length k \<le> length s \<and> list_all2 eq k (take (length k) s)"
  then show "sql_like eq (likeEscape k @ ''%'') s"
    unfolding sql_like_escaped_append
    by (metis append_take_drop_id sql_like_percent_only)
qed

text \<open>
  The search pattern built from a keyword means exactly "the keyword occurs": with the
  keyword's wildcards and escapes neutralised by \<open>likeEscape\<close>, \<open>%\<close> keyword \<open>%\<close> matches a text
  just when some substring of it equals the keyword up to the column's collation. No keyword
  can widen the search, and none is lost.
\<close>

theorem like_contains_iff:
  "sql_like eq (''%'' @ likeEscape k @ ''%'') s \<longleftrightarrow>
     (\<exists>a m b. s = a @ m @ b \<and> list_all2 eq k m)"
proof -
  have "sql_like eq (''%'' @ likeEscape k @ ''%'') s \<longleftrightarrow>
      (\<exists>a b. s = a @ b \<and> sql_like eq (likeEscape k @ ''%'') b)"
    using sql_like_percent [of eq "likeEscape k @ ''%''" s] by simp
  then show ?thesis by (auto simp: sql_like_escaped_append)
qed

end
