(* ===== verification/Message.thy ===== *)
theory Message
  imports MsgAlloc Batchers Bloom Like
begin

text \<open>
  The write path of the message service (\<open>SendMessage\<close> and its helpers in
  \<open>internal/message/service.go\<close>, \<open>RevokeMessage\<close> of \<open>revoke.go\<close>): membership check, the three
  idempotency gates (Bloom filter, Redis mark, unique key), the local transaction that writes
  the message and its delivery task, and what follows the commit.

  \<open>protojson\<close> and the text a MySQL \<open>json\<close> column keeps are parameters (\<open>codec\<close>). A run of a handler gets the environment's answers in
  \<open>send_env\<close>: the time, the replies of the sequence service, and which statement or command
  fails. The service's memory, the databases and Redis are one state record.
\<close>

record Content =
  ct_type :: int
  ct_text :: string
  ct_ref_msg_id :: int
  ct_op_uid :: uid

record ConvMessage =
  cm_msg_id :: int
  cm_conv :: conv_id
  cm_from :: uid
  cm_seq :: int
  cm_time :: int
  cm_content :: Content

record codec =
  marshal_content :: "Content \<Rightarrow> string option"
  unmarshal_content :: "string \<Rightarrow> Content option"
  marshal_msg :: "ConvMessage \<Rightarrow> string option"
  unmarshal_msg :: "string \<Rightarrow> ConvMessage option"
  json_column :: "string \<Rightarrow> string"   \<comment> \<open>what a column of type \<open>json\<close> stores of a text\<close>

record PushEvent =
  pe_conv :: conv_id
  pe_max_seq :: int
  pe_from :: uid
  pe_sync :: int
  pe_msg_id :: int

record svc =
  mdb :: meta_db
  mshards :: msg_dbs
  mslots :: SlotTable
  mcache :: "redis option"
  mbloom :: "Bloom option"
  mids :: msgIDAlloc
  mconvs :: convSeqAlloc
  mlast :: "(conv_id, int) batch"
  mpush :: "PushEvent list option"   \<comment> \<open>\<open>None\<close>: no pusher\<close>

datatype send_sql = SMeta | SQuery | SBegin | SMessage | SLocal | SCommitFail | SCommitLost | SRetryQuery

record send_env =
  se_now :: int
  se_after :: int   \<comment> \<open>the clock is read again after the commit\<close>
  se_redis :: rfaults
  se_sql :: "send_sql faults"
  se_conv_refill :: "string + int"
  se_id_refill :: "string + int"
  se_bump :: "string + int"

datatype send_error = ErrNotMember | SendErr string

definition shard_of :: "svc \<Rightarrow> conv_id \<Rightarrow> MsgShard" where
  "shard_of s c = RouteMsg (mslots s) c"

definition table_of :: "svc \<Rightarrow> conv_id \<Rightarrow> message_row list" where
  "table_of s c = msg_table (mshards s) (shard_of s c)"

definition locals_of :: "svc \<Rightarrow> conv_id \<Rightarrow> local_row list" where
  "locals_of s c = local_table (mshards s) (DBIndex (shard_of s c))"

definition load_err_text :: "load_err \<Rightarrow> string" where
  "load_err_text e = (case e of DbErr t \<Rightarrow> t | ParseErr \<Rightarrow> ''invalid member_uids'')"

definition queryByClientMsgID :: "string option \<Rightarrow> message_row list \<Rightarrow> conv_id \<Rightarrow> int \<Rightarrow>
    send_error + int \<times> int" where
  "queryByClientMsgID fault t c cmid =
     (case fault of
        Some e \<Rightarrow> Inl (SendErr (''idempotent lookup: '' @ e))
      | None \<Rightarrow>
          (case row_get ms_ukey t (c, cmid) of
             None \<Rightarrow> Inl (SendErr ''idempotent lookup: sql: no rows in result set'')
           | Some r \<Rightarrow> Inr (ms_id r, ms_seq r)))"

definition bumpSyncSeq :: "send_env \<Rightarrow> int" where
  "bumpSyncSeq env = (case se_bump env of Inl _ \<Rightarrow> 0 | Inr v \<Rightarrow> v)"

definition duplicate_key :: "message_row list \<Rightarrow> message_row \<Rightarrow> bool" where
  \<comment> \<open>error 1062 on PRIMARY (conv_id, seq) or uk_client_msg\<close>
  "duplicate_key t r \<longleftrightarrow> row_get ms_key t (ms_key r) \<noteq> None \<or> row_get ms_ukey t (ms_ukey r) \<noteq> None"

definition with_tables :: "conv_id \<Rightarrow> message_row \<Rightarrow> local_row \<Rightarrow> svc \<Rightarrow> msg_dbs" where
  "with_tables c m l s =
     set_local_table (DBIndex (shard_of s c)) (locals_of s c @ [l])
       (set_msg_table (shard_of s c) (table_of s c @ [m]) (mshards s))"

definition after_commit :: "codec \<Rightarrow> send_env \<Rightarrow> conv_id \<Rightarrow> int \<Rightarrow> Content \<Rightarrow> message_row \<Rightarrow> svc \<Rightarrow> svc" where
  \<comment> \<open>step 4 of \<open>SendMessage\<close>\<close>
  "after_commit cd env c cmid content m s =
     (let cm = \<lparr>cm_msg_id = ms_id m, cm_conv = c, cm_from = ms_from m, cm_seq = ms_seq m,
                cm_time = se_after env, cm_content = content\<rparr>
      in s\<lparr>mbloom := map_option (BloomAdd (BloomKey c cmid)) (mbloom s),
           mcache := (case marshal_msg cd cm of
                        Some j \<Rightarrow> RecentAdd (se_redis env) (se_after env) (mcache s) c (ms_seq m) j
                      | None \<Rightarrow> mcache s),
           mlast := lastSeq_add (c, ms_seq m) (mlast s),
           mpush := map_option (\<lambda>p. p @ [\<lparr>pe_conv = c, pe_max_seq = ms_seq m, pe_from = ms_from m,
                      pe_sync = bumpSyncSeq env, pe_msg_id = ms_id m\<rparr>]) (mpush s)\<rparr>)"

definition write_message :: "codec \<Rightarrow> send_env \<Rightarrow> int \<Rightarrow> conv_id \<Rightarrow> uid \<Rightarrow> Content \<Rightarrow> int \<Rightarrow> int \<Rightarrow> svc \<Rightarrow>
    (send_error + int \<times> int) \<times> svc" where
  \<comment> \<open>steps 3 and 4: the transaction and what follows\<close>
  "write_message cd env cmid c from content msgID seq s =
     (let unmark = s\<lparr>mcache := IdemDel (se_redis env) (mcache s) c cmid\<rparr>
      in case marshal_content cd content of
           None \<Rightarrow> (Inl (SendErr ''marshal content''), unmark)
         | Some json \<Rightarrow>
             (let m = \<lparr>ms_id = msgID, ms_conv = c, ms_from = from, ms_seq = seq,
                       ms_type = ct_type content, ms_content = json_column cd json, ms_cmid = cmid, ms_time = se_now env\<rparr>;
                  l = \<lparr>lm_id = msgID, lm_conv = c, lm_status = 0, lm_create = se_now env\<rparr>
              in if se_sql env SBegin \<noteq> None then (Inl (SendErr (the (se_sql env SBegin))), s)
                 else if se_sql env SMessage \<noteq> None then
                   (Inl (SendErr (''insert message: '' @ the (se_sql env SMessage))), unmark)
                 else if duplicate_key (table_of s c) m then
                   (queryByClientMsgID (se_sql env SRetryQuery) (table_of s c) c cmid, unmark)
                 else if se_sql env SLocal \<noteq> None then
                   (Inl (SendErr (''insert local_message: '' @ the (se_sql env SLocal))), unmark)
                 else if row_get lm_key (locals_of s c) (lm_key l) \<noteq> None then
                   (Inl (SendErr ''insert local_message: Error 1062: Duplicate entry''), unmark)
                 else (case commit (se_sql env SCommitFail) (se_sql env SCommitLost) (mshards s)
                              (with_tables c m l s) of
                     (Some e, dbs) \<Rightarrow> (Inl (SendErr e), unmark\<lparr>mshards := dbs\<rparr>)
                   | (None, dbs) \<Rightarrow>
                       (Inr (msgID, seq), after_commit cd env c cmid content m (s\<lparr>mshards := dbs\<rparr>)))))"

definition mark_and_write :: "codec \<Rightarrow> send_env \<Rightarrow> int \<Rightarrow> conv_id \<Rightarrow> uid \<Rightarrow> Content \<Rightarrow> int \<Rightarrow> int \<Rightarrow> svc \<Rightarrow>
    (send_error + int \<times> int) \<times> svc" where
  \<comment> \<open>step 2.5: the SETNX mark\<close>
  "mark_and_write cd env cmid c from content msgID seq s =
     (if mcache s = None then write_message cd env cmid c from content msgID seq s
      else
        (let ((ok, noerr), ca) = IdemPut (se_redis env) (se_now env) (mcache s) c cmid
               \<lparr>iv_msg_id = msgID, iv_seq = seq\<rparr>;
             s1 = s\<lparr>mcache := ca\<rparr>
         in if noerr \<and> \<not> ok then
              (case IdemGet (se_redis env) (se_now env) ca c cmid of
                 Some v \<Rightarrow> (Inr (iv_msg_id v, iv_seq v), s1)
               | None \<Rightarrow>
                   (case queryByClientMsgID (se_sql env SQuery) (table_of s1 c) c cmid of
                      Inr r \<Rightarrow> (Inr r, s1)
                    | Inl _ \<Rightarrow> write_message cd env cmid c from content msgID seq s1))
            else write_message cd env cmid c from content msgID seq s1))"

definition allocate_and_write :: "codec \<Rightarrow> send_env \<Rightarrow> int \<Rightarrow> conv_id \<Rightarrow> uid \<Rightarrow> Content \<Rightarrow> svc \<Rightarrow>
    (send_error + int \<times> int) \<times> svc" where
  \<comment> \<open>steps 1 and 2: the numbers\<close>
  "allocate_and_write cd env cmid c from content s =
     (case AllocConv (\<lambda>_ _ u. (se_conv_refill env, u)) c (mconvs s) () of
        (Inl e, cs, _) \<Rightarrow> (Inl (SendErr (''alloc conv seq: '' @ e)), s\<lparr>mconvs := cs\<rparr>)
      | (Inr seq, cs, _) \<Rightarrow>
          (case AllocMsgID (\<lambda>_ u. (se_id_refill env, u)) (mids s) () of
             (Inl e, a, _) \<Rightarrow> (Inl (SendErr (''alloc msg id: '' @ e)), s\<lparr>mconvs := cs, mids := a\<rparr>)
           | (Inr msgID, a, _) \<Rightarrow>
               mark_and_write cd env cmid c from content msgID seq (s\<lparr>mconvs := cs, mids := a\<rparr>)))"

definition bloom_hit :: "send_env \<Rightarrow> svc \<Rightarrow> conv_id \<Rightarrow> int \<Rightarrow> IdemValue option" where
  \<comment> \<open>gates 1 and 2\<close>
  "bloom_hit env s c cmid =
     (case mbloom s of
        None \<Rightarrow> None
      | Some b \<Rightarrow>
          if MightContain b (BloomKey c cmid)
          then IdemGet (se_redis env) (se_now env) (mcache s) c cmid else None)"

definition SendMessage :: "codec \<Rightarrow> send_env \<Rightarrow> int \<Rightarrow> conv_id \<Rightarrow> uid \<Rightarrow> Content \<Rightarrow> svc \<Rightarrow>
    (send_error + int \<times> int) \<times> svc" where
  "SendMessage cd env cmid c from content s =
     (case GetConvMeta (se_redis env) (se_sql env SMeta) (se_now env) (mcache s) (mdb s) c of
        (Inl e, ca) \<Rightarrow> (Inl (SendErr (''conv meta '' @ int_str c @ '': '' @ load_err_text e)), s\<lparr>mcache := ca\<rparr>)
      | (Inr meta, ca) \<Rightarrow>
          (let s1 = s\<lparr>mcache := ca\<rparr>
           in if from \<notin> set (MemberUIDs meta) then (Inl ErrNotMember, s1)
              else case bloom_hit env s1 c cmid of
                  Some v \<Rightarrow> (Inr (iv_msg_id v, iv_seq v), s1)
                | None \<Rightarrow> allocate_and_write cd env cmid c from content s1))"

subsection \<open>Revocation\<close>

definition RevokeWindow :: int where "RevokeWindow = 2 * 60 * 1000"

datatype revoke_sql = RLoad | RDup | RDupSeq

datatype revoke_error = ErrRevokeDenied | RevokeErr string | RevokeSend send_error

definition revoke_pattern :: "int \<Rightarrow> string" where
  "revoke_pattern msgID = ''%'' @ [CHR 0x22] @ ''refMsgId'' @ [CHR 0x22] @ '':'' @ [CHR 0x22] @ int_str msgID @ [CHR 0x22] @ ''%''"

definition RevokeMessage :: "(char \<Rightarrow> char \<Rightarrow> bool) \<Rightarrow> codec \<Rightarrow> send_env \<Rightarrow> revoke_sql faults \<Rightarrow> int \<Rightarrow> conv_id \<Rightarrow> uid \<Rightarrow>
    svc \<Rightarrow> (revoke_error + int \<times> int) \<times> svc" where
  "RevokeMessage eq cd env flt msgID c op s =
     (let t = table_of s c
      in if flt RLoad \<noteq> None then (Inl (RevokeErr (''load message: '' @ the (flt RLoad))), s)
         else case find (\<lambda>r. ms_id r = msgID \<and> ms_conv r = c) t of
             None \<Rightarrow> (Inl (RevokeErr (''message '' @ int_str msgID @ '' not found'')), s)
           | Some r \<Rightarrow>
               if ms_from r \<noteq> op then (Inl ErrRevokeDenied, s)
               else if RevokeWindow < se_now env - ms_time r then
                 (Inl (RevokeErr ''revoke window (2m0s) exceeded''), s)
               else
                 (let dup = (if flt RDup \<noteq> None then None
                        else find (\<lambda>q. ms_conv q = c \<and> ms_type q = 10 \<and>
                               sql_like eq (revoke_pattern msgID) (ms_content q)) t);
                      found = (case dup of None \<Rightarrow> None
                        | Some q \<Rightarrow> if flt RDupSeq \<noteq> None then None
                            else map_option (\<lambda>x. (ms_id q, ms_seq x)) (find (\<lambda>x. ms_id x = ms_id q) t))
                  in case found of
                       Some res \<Rightarrow> (Inr res, s)
                     | None \<Rightarrow>
                         (case SendMessage cd env msgID c op
                                \<lparr>ct_type = 10, ct_text = [], ct_ref_msg_id = msgID, ct_op_uid = op\<rparr> s of
                            (Inl e, s') \<Rightarrow> (Inl (RevokeSend e), s')
                          | (Inr res, s') \<Rightarrow> (Inr res, s'))))"

subsection \<open>Warming the Bloom filter\<close>

definition warm_keys :: "int \<Rightarrow> svc \<Rightarrow> 64 word list" where
  \<comment> \<open>the loader: per shard at most 500000 rows younger than the cutoff\<close>
  "warm_keys cutoff s = concat (map (\<lambda>sh. map (\<lambda>r. BloomKey (ms_conv r) (ms_cmid r))
     (take 500000 (filter (\<lambda>r. cutoff < ms_time r) (msg_table (mshards s) sh)))) AllMsgShards)"

definition WarmIdempotencyBloom :: "string option \<Rightarrow> int \<Rightarrow> int \<Rightarrow> svc \<Rightarrow> string option \<times> svc" where
  "WarmIdempotencyBloom fault now days s =
     (case mbloom s of
        None \<Rightarrow> (None, s)
      | Some b \<Rightarrow>
          (case Rebuild (case fault of Some e \<Rightarrow> Inl e
               | None \<Rightarrow> Inr (warm_keys (now - days * 24 * 3600 * 1000) s)) b of
             (e, b') \<Rightarrow> (e, s\<lparr>mbloom := Some b'\<rparr>)))"

end
