(* ===== verification/MessageSafety.thy ===== *)
theory MessageSafety
  imports Message
begin

text \<open>
  What \<open>SendMessage\<close> guarantees: the message tables and the delivery tasks stay consistent
  whatever fails, a retry never stores a second message, a success means a stored message, and
  the one failure path on which that is not so.
\<close>

subsection \<open>Idempotency marks\<close>

definition mark_of :: "redis option \<Rightarrow> conv_id \<Rightarrow> int \<Rightarrow> IdemValue option" where
  "mark_of ca c k = (case ca of None \<Rightarrow> None
     | Some r \<Rightarrow> (case kv r (idemKey c k) of Some (VIdem v) \<Rightarrow> Some v | _ \<Rightarrow> None))"

lemma IdemGet_mark: "IdemGet f now ca c k = Some v \<Longrightarrow> mark_of ca c k = Some v"
  by (auto simp: IdemGet_def rget_def live_def mark_of_def split: option.splits rval.splits if_splits)

lemma mark_SET_meta [simp]:
  "mark_of (map_option (cmd f SET (metaKey x) (put_ttl now ttl (metaKey x) v)) ca) c k = mark_of ca c k"
  by (cases ca) (simp_all add: mark_of_def cmd_def put_ttl_def)

lemma GetConvMeta_cache: "GetConvMeta f e now ca db cv = (res, ca') \<Longrightarrow> ca' = ca \<or>
    (\<exists>m. ca' = map_option (cmd f SET (metaKey cv) (put_ttl now metaTTL (metaKey cv) (VMeta m))) ca)"
  unfolding GetConvMeta_def Let_def by (auto split: option.splits rval.splits)

lemma mark_GetConvMeta: "GetConvMeta f e now ca db cv = (res, ca') \<Longrightarrow> mark_of ca' c k = mark_of ca c k"
  by (drule GetConvMeta_cache) auto

lemma mark_RecentAdd [simp]: "mark_of (RecentAdd f now ca cv q m) c k = mark_of ca c k"
  by (cases ca) (auto simp: RecentAdd_def mark_of_def cmd_def put_keep_def expire_def Let_def)

lemma mark_IdemDel: "mark_of (IdemDel f ca c k) c' k' =
    (if (c', k') = (c, k) \<and> f DEL (idemKey c k) \<noteq> RErr then None else mark_of ca c' k')"
  by (cases ca) (auto simp: IdemDel_def mark_of_def cmd_def del_key_def)

lemma mark_IdemPut: "IdemPut f now ca c k v = (x, ca') \<Longrightarrow> mark_of ca' c' k' = Some v' \<Longrightarrow>
    mark_of ca c' k' = Some v' \<or> (c', k', v') = (c, k, v)"
  by (cases ca) (auto simp: IdemPut_def mark_of_def put_ttl_def Let_def split: outcome.splits if_splits)

definition truthful :: "svc \<Rightarrow> bool" where
  \<comment> \<open>every mark in Redis names a stored message\<close>
  "truthful s \<longleftrightarrow> (\<forall>c k v. mark_of (mcache s) c k = Some v \<longrightarrow>
     (\<exists>r \<in> set (table_of s c). ms_ukey r = (c, k) \<and> ms_id r = iv_msg_id v \<and> ms_seq r = iv_seq v))"

subsection \<open>The transaction\<close>

definition fresh_pair :: "conv_id \<Rightarrow> int \<Rightarrow> uid \<Rightarrow> message_row \<Rightarrow> local_row \<Rightarrow> svc \<Rightarrow> bool" where
  "fresh_pair c cmid from m l s \<longleftrightarrow> ms_conv m = c \<and> ms_cmid m = cmid \<and> ms_from m = from \<and>
     lm_key l = (c, ms_id m) \<and> lm_status l = 0 \<and> \<not> duplicate_key (table_of s c) m \<and>
     (c, ms_id m) \<notin> lm_key ` set (locals_of s c)"

definition same_store :: "svc \<Rightarrow> svc \<Rightarrow> bool" where
  "same_store s s' \<longleftrightarrow> mshards s' = mshards s \<and> mslots s' = mslots s"

lemma same_store_refl [simp]: "same_store s s"
  by (simp add: same_store_def)

lemma same_store_upd [simp]:
  "same_store s (s\<lparr>mcache := a\<rparr>)" "same_store s (s\<lparr>mconvs := b\<rparr>)" "same_store s (s\<lparr>mconvs := b, mids := d\<rparr>)"
  by (simp_all add: same_store_def)

lemma same_store_tables: "same_store s s' \<Longrightarrow> table_of s' c = table_of s c \<and> locals_of s' c = locals_of s c \<and>
    fresh_pair c cmid from m l s' = fresh_pair c cmid from m l s \<and> with_tables c m l s' = with_tables c m l s"
  by (simp add: same_store_def table_of_def locals_of_def shard_of_def fresh_pair_def with_tables_def)

definition unmarked :: "send_env \<Rightarrow> conv_id \<Rightarrow> int \<Rightarrow> svc \<Rightarrow> svc" where
  "unmarked env c cmid s = s\<lparr>mcache := IdemDel (se_redis env) (mcache s) c cmid\<rparr>"

text \<open>The ways a run of the transaction can end.\<close>

datatype write_end = WBegin | WRefused | WExisting message_row | WLost message_row local_row | WWritten message_row local_row

definition write_ends :: "codec \<Rightarrow> send_env \<Rightarrow> int \<Rightarrow> conv_id \<Rightarrow> uid \<Rightarrow> Content \<Rightarrow> int \<Rightarrow> int \<Rightarrow> svc \<Rightarrow>
    write_end \<Rightarrow> send_error + int \<times> int \<Rightarrow> svc \<Rightarrow> bool" where
  "write_ends cd env cmid c from content msgID seq s w res s' \<longleftrightarrow> (case w of
      WBegin \<Rightarrow> se_sql env SBegin \<noteq> None \<and> res = Inl (SendErr (the (se_sql env SBegin))) \<and> s' = s
    | WRefused \<Rightarrow> (\<exists>e. res = Inl e) \<and> s' = unmarked env c cmid s
    | WExisting r \<Rightarrow> row_get ms_ukey (table_of s c) (c, cmid) = Some r \<and> res = Inr (ms_id r, ms_seq r) \<and>
        s' = unmarked env c cmid s
    | WLost m l \<Rightarrow> fresh_pair c cmid from m l s \<and> (\<exists>e. res = Inl e) \<and>
        s' = (unmarked env c cmid s)\<lparr>mshards := with_tables c m l s\<rparr>
    | WWritten m l \<Rightarrow> fresh_pair c cmid from m l s \<and> ms_id m = msgID \<and> ms_seq m = seq \<and> res = Inr (msgID, seq) \<and>
        s' = after_commit cd env c cmid content m (s\<lparr>mshards := with_tables c m l s\<rparr>))"

lemma write_message_ends:
  assumes "write_message cd env cmid c from content msgID seq s = (res, s')"
  shows "\<exists>w. write_ends cd env cmid c from content msgID seq s w res s'"
proof (cases "marshal_content cd content")
  case None
  then have "write_ends cd env cmid c from content msgID seq s WRefused res s'"
    using assms by (auto simp: write_message_def write_ends_def unmarked_def Let_def)
  then show ?thesis ..
next
  case (Some json)
  define m where "m = \<lparr>ms_id = msgID, ms_conv = c, ms_from = from, ms_seq = seq,
      ms_type = ct_type content, ms_content = json_column cd json, ms_cmid = cmid, ms_time = se_now env\<rparr>"
  define l where "l = \<lparr>lm_id = msgID, lm_conv = c, lm_status = 0, lm_create = se_now env\<rparr>"
  have W: "write_message cd env cmid c from content msgID seq s = (
      if se_sql env SBegin \<noteq> None then (Inl (SendErr (the (se_sql env SBegin))), s)
      else if se_sql env SMessage \<noteq> None then
        (Inl (SendErr (''insert message: '' @ the (se_sql env SMessage))), unmarked env c cmid s)
      else if duplicate_key (table_of s c) m then
        (queryByClientMsgID (se_sql env SRetryQuery) (table_of s c) c cmid, unmarked env c cmid s)
      else if se_sql env SLocal \<noteq> None then
        (Inl (SendErr (''insert local_message: '' @ the (se_sql env SLocal))), unmarked env c cmid s)
      else if row_get lm_key (locals_of s c) (c, msgID) \<noteq> None then
        (Inl (SendErr ''insert local_message: Error 1062: Duplicate entry''), unmarked env c cmid s)
      else (case commit (se_sql env SCommitFail) (se_sql env SCommitLost) (mshards s) (with_tables c m l s) of
           (Some e, dbs) \<Rightarrow> (Inl (SendErr e), (unmarked env c cmid s)\<lparr>mshards := dbs\<rparr>)
         | (None, dbs) \<Rightarrow> (Inr (msgID, seq), after_commit cd env c cmid content m (s\<lparr>mshards := dbs\<rparr>))))"
    unfolding write_message_def m_def l_def unmarked_def Let_def Some by (simp add: lm_key_def)
  have F: "fresh_pair c cmid from m l s" if "\<not> duplicate_key (table_of s c) m" "row_get lm_key (locals_of s c) (c, msgID) = None"
    using that by (simp add: fresh_pair_def m_def l_def lm_key_def row_get_None_iff)
  have ends: "write_ends cd env cmid c from content msgID seq s w res s' \<Longrightarrow> ?thesis" for w ..
  consider "se_sql env SBegin \<noteq> None" | "se_sql env SBegin = None" "se_sql env SMessage \<noteq> None"
    | "se_sql env SBegin = None" "se_sql env SMessage = None" "duplicate_key (table_of s c) m"
    | "se_sql env SBegin = None" "se_sql env SMessage = None" "\<not> duplicate_key (table_of s c) m"
      "se_sql env SLocal \<noteq> None \<or> row_get lm_key (locals_of s c) (c, msgID) \<noteq> None"
    | "se_sql env SBegin = None" "se_sql env SMessage = None" "\<not> duplicate_key (table_of s c) m"
      "se_sql env SLocal = None" "row_get lm_key (locals_of s c) (c, msgID) = None"
    by blast
  then show ?thesis
  proof cases
    case 1
    then show ?thesis using assms W by (intro ends [of WBegin]) (auto simp: write_ends_def)
  next
    case 2
    then show ?thesis using assms W by (intro ends [of WRefused]) (auto simp: write_ends_def)
  next
    case 3
    then have R: "(queryByClientMsgID (se_sql env SRetryQuery) (table_of s c) c cmid, unmarked env c cmid s) = (res, s')"
      using assms W by simp
    show ?thesis
    proof (cases res)
      case (Inl e)
      then show ?thesis using R by (intro ends [of WRefused]) (auto simp: write_ends_def)
    next
      case (Inr x)
      then obtain r where "row_get ms_ukey (table_of s c) (c, cmid) = Some r" "res = Inr (ms_id r, ms_seq r)"
        using R by (auto simp: queryByClientMsgID_def split: option.splits)
      then show ?thesis using R by (intro ends [of "WExisting r"]) (auto simp: write_ends_def)
    qed
  next
    case 4
    then show ?thesis using assms W by (intro ends [of WRefused]) (auto simp: write_ends_def split: if_splits)
  next
    case 5
    note f = F [OF 5(3,5)]
    have R: "(case commit (se_sql env SCommitFail) (se_sql env SCommitLost) (mshards s) (with_tables c m l s) of
           (Some e, dbs) \<Rightarrow> (Inl (SendErr e), (unmarked env c cmid s)\<lparr>mshards := dbs\<rparr>)
         | (None, dbs) \<Rightarrow> (Inr (msgID, seq), after_commit cd env c cmid content m (s\<lparr>mshards := dbs\<rparr>))) = (res, s')"
      using assms W 5 by simp
    have um: "(unmarked env c cmid s)\<lparr>mshards := mshards s\<rparr> = unmarked env c cmid s"
      by (simp add: unmarked_def)
    show ?thesis
    proof (cases "se_sql env SCommitFail")
      case (Some e)
      then show ?thesis using R um by (intro ends [of WRefused]) (auto simp: write_ends_def commit_def)
    next
      case None
      show ?thesis
      proof (cases "se_sql env SCommitLost")
        case (Some e)
        then show ?thesis using R None f by (intro ends [of "WLost m l"]) (auto simp: write_ends_def commit_def)
      next
        case None2: None
        then show ?thesis using R None f
          by (intro ends [of "WWritten m l"]) (auto simp: write_ends_def commit_def m_def)
      qed
    qed
  qed
qed

subsection \<open>The whole handler\<close>

text \<open>What the handler has done when it reaches the transaction: numbers drawn, perhaps a mark set.\<close>

definition at_write :: "send_env \<Rightarrow> int \<Rightarrow> conv_id \<Rightarrow> svc \<Rightarrow> int \<Rightarrow> int \<Rightarrow> svc \<Rightarrow> bool" where
  "at_write env cmid c s msgID seq s1 \<longleftrightarrow> same_store s s1 \<and>
     (\<forall>c' k' v. mark_of (mcache s1) c' k' = Some v \<longrightarrow>
        mark_of (mcache s) c' k' = Some v \<or> (c', k', v) = (c, cmid, \<lparr>iv_msg_id = msgID, iv_seq = seq\<rparr>))"

datatype send_end = EndRefused | EndMark IdemValue | EndRow message_row | EndWrite int int svc write_end

definition send_ends :: "codec \<Rightarrow> send_env \<Rightarrow> int \<Rightarrow> conv_id \<Rightarrow> uid \<Rightarrow> Content \<Rightarrow> svc \<Rightarrow> send_end \<Rightarrow>
    send_error + int \<times> int \<Rightarrow> svc \<Rightarrow> bool" where
  "send_ends cd env cmid c from content s w res s' \<longleftrightarrow> (case w of
      EndRefused \<Rightarrow> (\<exists>e. res = Inl e) \<and> same_store s s' \<and> mark_of (mcache s') = mark_of (mcache s)
    | EndMark v \<Rightarrow> res = Inr (iv_msg_id v, iv_seq v) \<and> mark_of (mcache s) c cmid = Some v \<and>
        same_store s s' \<and> mark_of (mcache s') = mark_of (mcache s)
    | EndRow r \<Rightarrow> res = Inr (ms_id r, ms_seq r) \<and> row_get ms_ukey (table_of s c) (c, cmid) = Some r \<and>
        same_store s s' \<and> mark_of (mcache s') = mark_of (mcache s)
    | EndWrite msgID seq s1 we \<Rightarrow> at_write env cmid c s msgID seq s1 \<and>
        write_ends cd env cmid c from content msgID seq s1 we res s')"

lemma IdemPut_lost: "IdemPut f now ca c k v = ((ok, noerr), ca') \<Longrightarrow> noerr \<Longrightarrow> \<not> ok \<Longrightarrow> ca' = ca"
  by (cases ca) (auto simp: IdemPut_def Let_def split: outcome.splits)

lemma mark_and_write_ends:
  assumes "mark_and_write cd env cmid c from content msgID seq s = (res, s')"
  shows "\<exists>w. send_ends cd env cmid c from content s w res s'"
proof (cases "mcache s")
  case None
  then have "write_message cd env cmid c from content msgID seq s = (res, s')"
    using assms by (simp add: mark_and_write_def)
  from write_message_ends [OF this] obtain we where
    "write_ends cd env cmid c from content msgID seq s we res s'" ..
  then have "send_ends cd env cmid c from content s (EndWrite msgID seq s we) res s'"
    by (simp add: send_ends_def at_write_def)
  then show ?thesis ..
next
  case (Some r)
  let ?v = "\<lparr>iv_msg_id = msgID, iv_seq = seq\<rparr>"
  obtain ok noerr ca where P: "IdemPut (se_redis env) (se_now env) (mcache s) c cmid ?v = ((ok, noerr), ca)"
    by (metis surj_pair)
  let ?s1 = "s\<lparr>mcache := ca\<rparr>"
  have at: "at_write env cmid c s msgID seq ?s1"
    using mark_IdemPut [OF P] by (auto simp: at_write_def)
  have W: "\<exists>w. send_ends cd env cmid c from content s w res s'"
    if "write_message cd env cmid c from content msgID seq ?s1 = (res, s')"
  proof -
    from write_message_ends [OF that] obtain we where
      "write_ends cd env cmid c from content msgID seq ?s1 we res s'" ..
    then have "send_ends cd env cmid c from content s (EndWrite msgID seq ?s1 we) res s'"
      using at by (simp add: send_ends_def)
    then show ?thesis ..
  qed
  show ?thesis
  proof (cases "noerr \<and> \<not> ok")
    case False
    then have "write_message cd env cmid c from content msgID seq ?s1 = (res, s')"
      using assms Some P by (auto simp: mark_and_write_def)
    then show ?thesis by (rule W)
  next
    case True
    have same: "ca = mcache s" using IdemPut_lost [OF P] True by simp
    show ?thesis
    proof (cases "IdemGet (se_redis env) (se_now env) ca c cmid")
      case (Some v)
      then have "send_ends cd env cmid c from content s (EndMark v) res s'"
        using assms \<open>mcache s = Some r\<close> P True IdemGet_mark [OF Some] same
        by (auto simp: mark_and_write_def send_ends_def)
      then show ?thesis ..
    next
      case None
      show ?thesis
      proof (cases "queryByClientMsgID (se_sql env SQuery) (table_of ?s1 c) c cmid")
        case (Inl e)
        then show ?thesis
          using assms \<open>mcache s = Some r\<close> P True None by (intro W) (auto simp: mark_and_write_def)
      next
        case (Inr x)
        then obtain q where "row_get ms_ukey (table_of s c) (c, cmid) = Some q" "x = (ms_id q, ms_seq q)"
          by (auto simp: queryByClientMsgID_def table_of_def shard_of_def split: option.splits)
        then have "send_ends cd env cmid c from content s (EndRow q) res s'"
          using assms \<open>mcache s = Some r\<close> P True None Inr same
          by (auto simp: mark_and_write_def send_ends_def)
        then show ?thesis ..
      qed
    qed
  qed
qed

lemma send_ends_from:
  assumes "send_ends cd env cmid c from content s1 w res s'" "same_store s s1" "mark_of (mcache s1) = mark_of (mcache s)"
  shows "send_ends cd env cmid c from content s w res s'"
  using assms same_store_tables [OF assms(2), of c]
  by (cases w) (auto simp: send_ends_def at_write_def same_store_def)

lemma allocate_and_write_ends:
  assumes "allocate_and_write cd env cmid c from content s = (res, s')"
  shows "\<exists>w. send_ends cd env cmid c from content s w res s'"
proof -
  have refused: "\<exists>w. send_ends cd env cmid c from content s w res s'"
    if "res = Inl e" "same_store s s'" "mcache s' = mcache s" for e
    using that by (intro exI [of _ EndRefused]) (simp add: send_ends_def)
  obtain r1 cs u1 where C: "AllocConv (\<lambda>_ _ u. (se_conv_refill env, u)) c (mconvs s) () = (r1, cs, u1)"
    by (metis surj_pair)
  obtain r2 a u2 where M: "AllocMsgID (\<lambda>_ u. (se_id_refill env, u)) (mids s) () = (r2, a, u2)"
    by (metis surj_pair)
  show ?thesis
  proof (cases r1)
    case (Inl e)
    then show ?thesis using assms C by (intro refused) (auto simp: allocate_and_write_def)
  next
    case (Inr seq)
    note seq = this
    show ?thesis
    proof (cases r2)
      case (Inl e)
      then show ?thesis using assms C M seq by (intro refused) (auto simp: allocate_and_write_def)
    next
      case (Inr msgID)
      then have "mark_and_write cd env cmid c from content msgID seq (s\<lparr>mconvs := cs, mids := a\<rparr>) = (res, s')"
        using assms C M seq by (simp add: allocate_and_write_def)
      from mark_and_write_ends [OF this] show ?thesis
        by (auto dest: send_ends_from [where s = s])
    qed
  qed
qed

lemma send_message_ends:
  assumes "SendMessage cd env cmid c from content s = (res, s')"
  shows "\<exists>w. send_ends cd env cmid c from content s w res s'"
proof -
  obtain mr ca where G: "GetConvMeta (se_redis env) (se_sql env SMeta) (se_now env) (mcache s) (mdb s) c = (mr, ca)"
    by force
  let ?s1 = "s\<lparr>mcache := ca\<rparr>"
  have mk: "mark_of ca = mark_of (mcache s)" by (intro ext) (rule mark_GetConvMeta [OF G])
  have refused: "\<exists>w. send_ends cd env cmid c from content s w res s'"
    if "res = Inl e" "s' = ?s1" for e
    using that mk by (intro exI [of _ EndRefused]) (simp add: send_ends_def)
  show ?thesis
  proof (cases mr)
    case (Inl e)
    then show ?thesis using assms G by (intro refused) (auto simp: SendMessage_def)
  next
    case (Inr meta)
    show ?thesis
    proof (cases "from \<in> set (MemberUIDs meta)")
      case False
      then show ?thesis using assms G Inr by (intro refused) (auto simp: SendMessage_def Let_def)
    next
      case True
      show ?thesis
      proof (cases "bloom_hit env ?s1 c cmid")
        case (Some v)
        then have "IdemGet (se_redis env) (se_now env) ca c cmid = Some v"
          by (auto simp: bloom_hit_def split: option.splits if_splits)
        from IdemGet_mark [OF this] have "send_ends cd env cmid c from content s (EndMark v) res s'"
          using assms G Inr True Some mk by (auto simp: SendMessage_def send_ends_def Let_def)
        then show ?thesis ..
      next
        case None
        then have "allocate_and_write cd env cmid c from content ?s1 = (res, s')"
          using assms G Inr True by (simp add: SendMessage_def Let_def)
        from allocate_and_write_ends [OF this] show ?thesis
          using mk by (auto dest: send_ends_from [where s = s])
      qed
    qed
  qed
qed

subsection \<open>The tables stay consistent\<close>

definition ms_idkey :: "message_row \<Rightarrow> conv_id \<times> int" where
  "ms_idkey r = (ms_conv r, ms_id r)"

definition shard_ok :: "svc \<Rightarrow> MsgShard \<Rightarrow> bool" where
  \<comment> \<open>one row per sequence number, per client id and per message id, all of this shard's conversations\<close>
  "shard_ok s sh \<longleftrightarrow> (let t = msg_table (mshards s) sh in
     pk_ok ms_key t \<and> pk_ok ms_ukey t \<and> pk_ok ms_idkey t \<and> (\<forall>r \<in> set t. shard_of s (ms_conv r) = sh))"

definition tasks_ok :: "svc \<Rightarrow> nat \<Rightarrow> bool" where
  \<comment> \<open>the delivery tasks of a database are exactly those of its messages\<close>
  "tasks_ok s i \<longleftrightarrow> pk_ok lm_key (local_table (mshards s) i) \<and>
     lm_key ` set (local_table (mshards s) i) =
       (\<Union>sh \<in> {sh. DBIndex sh = i}. ms_idkey ` set (msg_table (mshards s) sh))"

definition tables_ok :: "svc \<Rightarrow> bool" where
  "tables_ok s \<longleftrightarrow> (\<forall>sh. shard_ok s sh) \<and> (\<forall>i. tasks_ok s i)"

lemma tables_ok_same: "same_store s s' \<Longrightarrow> tables_ok s' = tables_ok s"
  by (simp add: same_store_def tables_ok_def shard_ok_def tasks_ok_def shard_of_def)

lemma tables_ok_empty: "mshards s = empty_shards \<Longrightarrow> tables_ok s"
  by (simp add: tables_ok_def shard_ok_def tasks_ok_def)

lemma pk_ok_snoc: "pk_ok key (t @ [r]) \<longleftrightarrow> pk_ok key t \<and> key r \<notin> key ` set t"
  by (auto simp: pk_ok_def)

lemma tables_ok_write:
  assumes "tables_ok s" "fresh_pair c cmid from m l s" "mshards s' = with_tables c m l s" "mslots s' = mslots s"
  shows "tables_ok s'"
proof -
  have c: "ms_conv m = c" and lk: "lm_key l = ms_idkey m" and nl: "ms_idkey m \<notin> lm_key ` set (locals_of s c)"
    and nd: "ms_key m \<notin> ms_key ` set (table_of s c)" "ms_ukey m \<notin> ms_ukey ` set (table_of s c)"
    using assms(2) by (auto simp: fresh_pair_def duplicate_key_def row_get_None_iff ms_idkey_def)
  have so: "shard_of s' x = shard_of s x" for x by (simp add: shard_of_def assms(4))
  have nm: "ms_idkey m \<notin> ms_idkey ` set (table_of s c)"
  proof
    assume "ms_idkey m \<in> ms_idkey ` set (table_of s c)"
    moreover have "tasks_ok s (DBIndex (shard_of s c))" using assms(1) by (simp add: tables_ok_def)
    ultimately show False using nl by (auto simp: tasks_ok_def table_of_def locals_of_def)
  qed
  have "shard_ok s' sh" for sh
  proof -
    have "shard_ok s sh" using assms(1) by (simp add: tables_ok_def)
    then show ?thesis using nd nm c
      by (auto simp: shard_ok_def assms(3) with_tables_def table_of_def so pk_ok_snoc Let_def)
  qed
  moreover have "tasks_ok s' i" for i
  proof -
    have T: "tasks_ok s i" using assms(1) by (simp add: tables_ok_def)
    let ?old = "\<Union>sh \<in> {sh. DBIndex sh = i}. ms_idkey ` set (msg_table (mshards s) sh)"
    have mt: "set (msg_table (mshards s') sh) = (if sh = shard_of s c then {m} else {}) \<union> set (msg_table (mshards s) sh)" for sh
      by (simp add: assms(3) with_tables_def table_of_def)
    have U: "(\<Union>sh \<in> {sh. DBIndex sh = i}. ms_idkey ` set (msg_table (mshards s') sh)) =
        (if i = DBIndex (shard_of s c) then {ms_idkey m} else {}) \<union> ?old"
      unfolding mt by (simp add: image_Un UN_Un_distrib if_distrib [of set]) (auto split: if_splits)
    have lt: "local_table (mshards s') i =
        (if i = DBIndex (shard_of s c) then locals_of s c @ [l] else local_table (mshards s) i)"
      by (simp add: assms(3) with_tables_def)
    show ?thesis
    proof (cases "i = DBIndex (shard_of s c)")
      case True
      have "lm_key ` set (locals_of s c) = ?old" "pk_ok lm_key (locals_of s c)"
        using T True by (simp_all add: tasks_ok_def locals_of_def)
      then show ?thesis unfolding tasks_ok_def U lt using True nl lk by (simp add: pk_ok_snoc)
    next
      case False
      then show ?thesis unfolding tasks_ok_def U lt using T by (simp add: tasks_ok_def)
    qed
  qed
  ultimately show ?thesis by (simp add: tables_ok_def)
qed

lemma write_ends_store:
  assumes "write_ends cd env cmid c from content msgID seq s w res s'"
  shows "same_store s s' \<or> (\<exists>m l. fresh_pair c cmid from m l s \<and> mshards s' = with_tables c m l s \<and> mslots s' = mslots s)"
  using assms by (cases w) (auto simp: write_ends_def same_store_def unmarked_def after_commit_def Let_def)

lemma send_ends_store:
  assumes "send_ends cd env cmid c from content s w res s'"
  shows "same_store s s' \<or> (\<exists>m l. fresh_pair c cmid from m l s \<and> mshards s' = with_tables c m l s \<and> mslots s' = mslots s)"
proof (cases w)
  case (EndWrite msgID seq s1 we)
  then have s1: "same_store s s1" and W: "write_ends cd env cmid c from content msgID seq s1 we res s'"
    using assms by (auto simp: send_ends_def at_write_def)
  from write_ends_store [OF W] show ?thesis
    using same_store_tables [OF s1] s1 by (auto simp: same_store_def)
qed (use assms in \<open>auto simp: send_ends_def\<close>)

lemma send_message_tables:
  "SendMessage cd env cmid c from content s = (res, s') \<Longrightarrow> tables_ok s \<Longrightarrow> tables_ok s'"
  by (drule send_message_ends) (auto dest!: send_ends_store simp: tables_ok_same intro: tables_ok_write)

lemma revoke_message_store:
  assumes "RevokeMessage eq cd env flt msgID c op s = (res, s')"
  shows "s' = s \<or> (\<exists>content res'. SendMessage cd env msgID c op content s = (res', s'))"
  using assms unfolding RevokeMessage_def Let_def by (auto split: if_splits option.splits prod.splits sum.splits)

lemma mark_done_keys: "map lm_key (mark_done ks t) = map lm_key t"
  by (simp add: mark_done_def lm_key_def map_key_row_upd)

lemma tables_ok_tasks:
  assumes "tables_ok s" "\<And>i. map lm_key (local_table (mshards s') i) = map lm_key (local_table (mshards s) i)"
    "\<And>sh. msg_table (mshards s') sh = msg_table (mshards s) sh" "mslots s' = mslots s"
  shows "tables_ok s'"
proof -
  have "lm_key ` set (local_table (mshards s') i) = lm_key ` set (local_table (mshards s) i)" for i
    by (metis assms(2) list.set_map)
  then show ?thesis
    using assms by (simp add: tables_ok_def shard_ok_def tasks_ok_def shard_of_def pk_ok_def)
qed

inductive msg_run :: "svc \<Rightarrow> bool" where
  start: "mshards s = empty_shards \<Longrightarrow> msg_run s"
| send: "msg_run s \<Longrightarrow> SendMessage cd env cmid c from content s = (res, s') \<Longrightarrow> msg_run s'"
| revoke: "msg_run s \<Longrightarrow> RevokeMessage eq cd env flt msgID c op s = (rres, s') \<Longrightarrow> msg_run s'"
| mark: "msg_run s \<Longrightarrow> msg_run (s\<lparr>mshards := snd (mark_flush f (m, mshards s))\<rparr>)"
| other: "msg_run s \<Longrightarrow> same_store s s' \<Longrightarrow> msg_run s'"
  \<comment> \<open>anything that leaves the message databases alone: a restart, another instance taking over,
     Redis losing or inventing keys, a change of membership\<close>

lemma msg_run_tables: "msg_run s \<Longrightarrow> tables_ok s"
proof (induction rule: msg_run.induct)
  case (start s)
  then show ?case by (rule tables_ok_empty)
next
  case (send s cd env cmid c "from" content res s')
  then show ?case by (blast intro: send_message_tables)
next
  case (revoke s eq cd env flt msgID c op rres s')
  from revoke_message_store [OF revoke(2)] revoke(3) show ?case
    by (blast intro: send_message_tables)
next
  case (mark s f m)
  then show ?case
    by (elim tables_ok_tasks) (auto simp: mark_flush_def Let_def mark_done_keys split: prod.split)
next
  case (other s s')
  then show ?case by (simp add: tables_ok_same)
qed

text \<open>
  The message store stays consistent whatever fails: after any sequence of sends, revocations
  and delivery marks, with any statement, commit or Redis command failing, with restarts, other
  instances and Redis losing or inventing keys in between, every table holds at most one message
  per sequence number, per client id and per message id, only messages of the conversations
  routed to it, and each database's delivery tasks are exactly those of its messages.
\<close>

theorem message_tables_consistent:
  assumes "msg_run s"
  shows "pk_ok ms_key (msg_table (mshards s) sh) \<and> pk_ok ms_ukey (msg_table (mshards s) sh) \<and>
    pk_ok ms_idkey (msg_table (mshards s) sh) \<and>
    (\<forall>r \<in> set (msg_table (mshards s) sh). RouteMsg (mslots s) (ms_conv r) = sh) \<and>
    pk_ok lm_key (local_table (mshards s) i) \<and>
    lm_key ` set (local_table (mshards s) i) =
      (\<Union>sh \<in> {sh. DBIndex sh = i}. ms_idkey ` set (msg_table (mshards s) sh))"
  using msg_run_tables [OF assms]
  by (auto simp: tables_ok_def shard_ok_def tasks_ok_def shard_of_def Let_def)

subsection \<open>A success means a stored message\<close>

lemma table_of_write: "mshards s' = with_tables c m l s \<Longrightarrow> mslots s' = mslots s \<Longrightarrow>
    table_of s' c' = (if shard_of s c' = shard_of s c then table_of s c @ [m] else table_of s c')"
  by (simp add: table_of_def with_tables_def shard_of_def)

definition backed :: "svc \<Rightarrow> conv_id \<Rightarrow> int \<Rightarrow> int \<Rightarrow> int \<Rightarrow> bool" where
  \<comment> \<open>message \<open>mid\<close> with number \<open>q\<close> is stored under the client id\<close>
  "backed s c cmid mid q \<longleftrightarrow> (\<exists>r \<in> set (table_of s c). ms_ukey r = (c, cmid) \<and> ms_id r = mid \<and> ms_seq r = q)"

lemma truthful_backed: "truthful s \<Longrightarrow> mark_of (mcache s) c k = Some v \<Longrightarrow> backed s c k (iv_msg_id v) (iv_seq v)"
  by (auto simp: truthful_def backed_def)

lemma backed_same: "same_store s s' \<Longrightarrow> backed s' c k mid q = backed s c k mid q"
  by (simp add: backed_def same_store_tables)

lemma backed_write: "mshards s' = with_tables c m l s \<Longrightarrow> mslots s' = mslots s \<Longrightarrow>
    backed s c' k mid q \<or> (c', k, mid, q) = (c, ms_cmid m, ms_id m, ms_seq m) \<and> ms_conv m = c \<Longrightarrow> backed s' c' k mid q"
  by (auto simp: backed_def table_of_write ms_ukey_def) (auto simp: table_of_def)

lemma truthfulI: "(\<And>c k v. mark_of (mcache s) c k = Some v \<Longrightarrow> backed s c k (iv_msg_id v) (iv_seq v)) \<Longrightarrow> truthful s"
  by (auto simp: truthful_def backed_def)

lemma write_ends_truthful:
  assumes T: "truthful s" and at: "at_write env cmid c s msgID seq s1"
    and W: "write_ends cd env cmid c from content msgID seq s1 w res s'"
    and B: "se_sql env SBegin = None" and D: "se_redis env DEL (idemKey c cmid) \<noteq> RErr"
  shows "truthful s' \<and> (\<forall>mid q. res = Inr (mid, q) \<longrightarrow> backed s' c cmid mid q)"
proof -
  have s1: "same_store s s1" using at by (simp add: at_write_def)
  have other: "backed s1 c' k' (iv_msg_id v) (iv_seq v)"
    if "mark_of (mcache s1) c' k' = Some v" "(c', k') \<noteq> (c, cmid)" for c' k' v
  proof -
    have "mark_of (mcache s) c' k' = Some v" using at that unfolding at_write_def by blast
    then show ?thesis using truthful_backed [OF T] by (simp add: backed_same [OF s1])
  qed
  have unmk: "backed s1 c' k' (iv_msg_id v) (iv_seq v)"
    if "mark_of (mcache (unmarked env c cmid s1)) c' k' = Some v" for c' k' v
    using that other D by (auto simp: unmarked_def mark_IdemDel split: if_splits)
  have us: "same_store s1 (unmarked env c cmid s1)" by (simp add: unmarked_def)
  show ?thesis
  proof (cases w)
    case WBegin
    then show ?thesis using W B by (simp add: write_ends_def)
  next
    case WRefused
    then have "s' = unmarked env c cmid s1" "\<exists>e. res = Inl e" using W by (simp_all add: write_ends_def)
    then show ?thesis using unmk us by (auto intro!: truthfulI simp: backed_same)
  next
    case (WExisting r)
    then have s': "s' = unmarked env c cmid s1" and r: "res = Inr (ms_id r, ms_seq r)"
      "row_get ms_ukey (table_of s1 c) (c, cmid) = Some r" using W by (simp_all add: write_ends_def)
    have "backed s1 c cmid (ms_id r) (ms_seq r)"
      using row_get_SomeD [OF r(2)] by (auto simp: backed_def)
    then show ?thesis using unmk us r s' by (auto intro!: truthfulI simp: backed_same)
  next
    case (WLost m l)
    then have s': "s' = (unmarked env c cmid s1)\<lparr>mshards := with_tables c m l s1\<rparr>" and e: "\<exists>e. res = Inl e"
      using W by (simp_all add: write_ends_def)
    have sh: "mshards s' = with_tables c m l s1" "mslots s' = mslots s1" by (simp_all add: s' unmarked_def)
    have "mcache s' = mcache (unmarked env c cmid s1)" by (simp add: s')
    then show ?thesis using unmk e by (auto intro!: truthfulI backed_write [OF sh])
  next
    case (WWritten m l)
    then have f: "fresh_pair c cmid from m l s1" "ms_id m = msgID" "ms_seq m = seq" "res = Inr (msgID, seq)"
      and s': "s' = after_commit cd env c cmid content m (s1\<lparr>mshards := with_tables c m l s1\<rparr>)"
      using W by (simp_all add: write_ends_def)
    have m: "ms_conv m = c" "ms_cmid m = cmid" using f by (simp_all add: fresh_pair_def)
    have sh: "mshards s' = with_tables c m l s1" "mslots s' = mslots s1"
      by (simp_all add: s' after_commit_def Let_def)
    have mk: "mark_of (mcache s') = mark_of (mcache s1)"
      by (intro ext) (auto simp: s' after_commit_def Let_def split: option.splits)
    have "backed s' c' k' (iv_msg_id v) (iv_seq v)" if v: "mark_of (mcache s1) c' k' = Some v" for c' k' v
    proof (cases "mark_of (mcache s) c' k' = Some v")
      case True
      then show ?thesis using truthful_backed [OF T] backed_same [OF s1] by (intro backed_write [OF sh]) auto
    next
      case False
      then have "(c', k', v) = (c, cmid, \<lparr>iv_msg_id = msgID, iv_seq = seq\<rparr>)" using at v by (auto simp: at_write_def)
      then show ?thesis using m f by (intro backed_write [OF sh]) auto
    qed
    then have "truthful s'" by (intro truthfulI) (simp add: mk)
    moreover have "backed s' c cmid msgID seq" using m f by (intro backed_write [OF sh]) auto
    ultimately show ?thesis using f by simp
  qed
qed

lemma send_truthful:
  assumes "truthful s" "SendMessage cd env cmid c from content s = (res, s')"
    and "se_sql env SBegin = None" "se_redis env DEL (idemKey c cmid) \<noteq> RErr"
  shows "truthful s' \<and> (\<forall>mid q. res = Inr (mid, q) \<longrightarrow> backed s' c cmid mid q)"
proof -
  from send_message_ends [OF assms(2)] obtain w where W: "send_ends cd env cmid c from content s w res s'" ..
  show ?thesis
  proof (cases w)
    case (EndWrite msgID seq s1 we)
    then show ?thesis using W assms write_ends_truthful by (auto simp: send_ends_def)
  next
    case (EndRow r)
    then have "backed s c cmid (ms_id r) (ms_seq r)"
      using W row_get_SomeD [of ms_ukey "table_of s c" "(c, cmid)" r] by (auto simp: send_ends_def backed_def)
    then show ?thesis using W assms(1) EndRow
      by (auto simp: send_ends_def backed_same intro!: truthfulI dest: truthful_backed)
  qed (use W assms(1) in \<open>auto simp: send_ends_def backed_same intro!: truthfulI dest: truthful_backed\<close>)
qed

text \<open>
  C3: A success means a stored message: when every mark in Redis names a stored message (\<open>truthful\<close>),
  and opening the transaction of this send does not fail and the deletion of its mark takes effect,
  then whatever else fails, a send that is answered with a message id and a number leaves exactly that
  message in the table under the client id, and every mark still names a stored message. Both
  conditions are needed: \<open>begin_failure_loses_message\<close> is a send after a failed start of a
  transaction, answered with success although nothing is stored.
\<close>

theorem send_success_is_stored:
  assumes "truthful s" "SendMessage cd env cmid c from content s = (res, s')"
    and "se_sql env SBegin = None" "se_redis env DEL (idemKey c cmid) \<noteq> RErr"
  shows "truthful s' \<and> (\<forall>mid q. res = Inr (mid, q) \<longrightarrow>
    (\<exists>r \<in> set (table_of s' c). ms_ukey r = (c, cmid) \<and> ms_id r = mid \<and> ms_seq r = q))"
  using send_truthful [OF assms] by (simp add: backed_def)

subsection \<open>Retries\<close>

text \<open>
  A message is stored once: when the client id has a stored message and the marks are truthful,
  sending with that id again leaves all message databases as they are and is answered with that
  message's id and number, or with an error; no failure of any statement or of Redis, and no
  answer of the sequence service, changes that.
\<close>

lemma retry_never_stores_twice:
  assumes "truthful s" "tables_ok s" "row_get ms_ukey (table_of s c) (c, cmid) = Some r"
    and "SendMessage cd env cmid c from content s = (res, s')"
  shows "mshards s' = mshards s \<and> (res = Inr (ms_id r, ms_seq r) \<or> (\<exists>e. res = Inl e))"
proof -
  from send_message_ends [OF assms(4)] obtain w where W: "send_ends cd env cmid c from content s w res s'" ..
  show ?thesis
  proof (cases w)
    case (EndMark v)
    then have "mark_of (mcache s) c cmid = Some v" "res = Inr (iv_msg_id v, iv_seq v)" "same_store s s'"
      using W by (simp_all add: send_ends_def)
    moreover from truthful_backed [OF assms(1) this(1)] obtain q where
      q: "q \<in> set (table_of s c)" "ms_ukey q = (c, cmid)" "ms_id q = iv_msg_id v" "ms_seq q = iv_seq v"
      by (auto simp: backed_def)
    moreover have "q = r"
    proof -
      have "pk_ok ms_ukey (table_of s c)" using assms(2) by (auto simp: tables_ok_def shard_ok_def table_of_def Let_def)
      from row_get_pk [OF this q(1)] q(2) assms(3) show ?thesis by simp
    qed
    ultimately show ?thesis by (auto simp: same_store_def)
  next
    case (EndWrite msgID seq s1 we)
    then have s1: "same_store s s1" and we: "write_ends cd env cmid c from content msgID seq s1 we res s'"
      using W by (auto simp: send_ends_def at_write_def)
    have old: "row_get ms_ukey (table_of s1 c) (c, cmid) = Some r"
      using assms(3) s1 by (simp add: same_store_tables)
    then have nf: "\<not> fresh_pair c cmid from m l s1" for m l
      by (auto simp: fresh_pair_def duplicate_key_def ms_ukey_def)
    have um: "mshards (unmarked env c cmid s1) = mshards s1" by (simp add: unmarked_def)
    show ?thesis using we nf old s1 um
      by (cases we) (auto simp: write_ends_def same_store_def)
  qed (use W assms(3) in \<open>auto simp: send_ends_def same_store_def\<close>)
qed

lemma send_row_from:
  assumes "SendMessage cd env cmid c from content s = (res, s')" "mshards s' \<noteq> mshards s"
  shows "\<exists>meta. fst (GetConvMeta (se_redis env) (se_sql env SMeta) (se_now env) (mcache s) (mdb s) c) = Inr meta \<and>
    from \<in> set (MemberUIDs meta)"
proof -
  obtain mr ca where G: "GetConvMeta (se_redis env) (se_sql env SMeta) (se_now env) (mcache s) (mdb s) c = (mr, ca)"
    by force
  then show ?thesis using assms by (auto simp: SendMessage_def Let_def split: sum.splits if_splits)
qed

text \<open>
  Only members write: one send appends at most one message, to the conversation's own table
  and with the caller as its author, and only when the conversation's member list, as the cache
  or the database gives it, contains the caller; nothing is ever removed or changed.
\<close>

theorem only_members_write:
  assumes "SendMessage cd env cmid c from content s = (res, s')"
  shows "\<exists>ms. length ms \<le> 1 \<and>
    msg_table (mshards s') sh = msg_table (mshards s) sh @ ms \<and>
    (\<forall>m \<in> set ms. sh = shard_of s c \<and> ms_conv m = c \<and> ms_from m = from \<and> ms_cmid m = cmid \<and>
       (\<exists>meta. fst (GetConvMeta (se_redis env) (se_sql env SMeta) (se_now env) (mcache s) (mdb s) c) = Inr meta \<and>
          from \<in> set (MemberUIDs meta)))"
proof (cases "mshards s' = mshards s")
  case True
  then show ?thesis by (intro exI [of _ "[]"]) simp
next
  case False
  from send_message_ends [OF assms] obtain w where "send_ends cd env cmid c from content s w res s'" ..
  from send_ends_store [OF this] False obtain m l where
    m: "fresh_pair c cmid from m l s" "mshards s' = with_tables c m l s" by (auto simp: same_store_def)
  show ?thesis
  proof (cases "sh = shard_of s c")
    case True
    then show ?thesis using m send_row_from [OF assms False]
      by (intro exI [of _ "[m]"]) (auto simp: with_tables_def fresh_pair_def table_of_def)
  next
    case False
    then show ?thesis using m by (intro exI [of _ "[]"]) (simp add: with_tables_def)
  qed
qed

subsection \<open>The path that loses a message\<close>

lemma begin_failure_state:
  assumes r: "mcache s = Some r" "live (se_now env) r (metaKey c) = Some (VMeta meta)" "from \<in> set (MemberUIDs meta)"
    and fresh: "live (se_now env) r (idemKey c cmid) = None"
    and q: "map_of (mconvs s) c = Some (q, hi)" "q \<le> hi"
    and i: "ma_cur (mids s) \<noteq> 0" "ma_cur (mids s) \<le> ma_last (mids s)"
    and env: "se_redis env = redis_up" "se_sql env SBegin = Some e" "marshal_content cd content = Some j"
  shows "SendMessage cd env cmid c from content s = (Inl (SendErr e),
    s\<lparr>mcache := Some (put_ttl (se_now env) idemTTL (idemKey c cmid)
        (VIdem \<lparr>iv_msg_id = ma_cur (mids s), iv_seq = q\<rparr>) r),
      mconvs := AList.update c (q + 1, hi) (mconvs s), mids := (mids s)\<lparr>ma_cur := ma_cur (mids s) + 1\<rparr>\<rparr>)"
proof -
  have same: "s\<lparr>mcache := Some r\<rparr> = s" using r by simp
  have G: "GetConvMeta (se_redis env) (se_sql env SMeta) (se_now env) (mcache s) (mdb s) c = (Inr meta, mcache s)"
    using r env by (simp add: GetConvMeta_def rget_def)
  have I: "IdemGet (se_redis env) (se_now env) (mcache s) c cmid = None"
    using r fresh by (simp add: IdemGet_def rget_def)
  have "bloom_hit env s c cmid = None" using I by (simp add: bloom_hit_def split: option.split)
  then have "SendMessage cd env cmid c from content s = allocate_and_write cd env cmid c from content s"
    using G r by (simp add: same SendMessage_def Let_def)
  also have "\<dots> = mark_and_write cd env cmid c from content (ma_cur (mids s)) q
      (s\<lparr>mconvs := AList.update c (q + 1, hi) (mconvs s), mids := (mids s)\<lparr>ma_cur := ma_cur (mids s) + 1\<rparr>\<rparr>)"
    using q i by (simp add: allocate_and_write_def AllocConv_def AllocMsgID_def)
  also have "\<dots> = (Inl (SendErr e), s\<lparr>mcache := Some (put_ttl (se_now env) idemTTL (idemKey c cmid)
        (VIdem \<lparr>iv_msg_id = ma_cur (mids s), iv_seq = q\<rparr>) r),
      mconvs := AList.update c (q + 1, hi) (mconvs s), mids := (mids s)\<lparr>ma_cur := ma_cur (mids s) + 1\<rparr>\<rparr>)"
    using r fresh env by (simp add: mark_and_write_def IdemPut_def write_message_def Let_def)
  finally show ?thesis .
qed

lemma marked_answer:
  assumes r: "mcache s = Some r" "live (se_now env) r (metaKey c) = Some (VMeta meta)" "from \<in> set (MemberUIDs meta)"
    and mk: "live (se_now env) r (idemKey c cmid) = Some (VIdem v)"
    and q: "map_of (mconvs s) c = Some (q, hi)" "q \<le> hi"
    and i: "ma_cur (mids s) \<noteq> 0" "ma_cur (mids s) \<le> ma_last (mids s)"
    and env: "se_redis env = redis_up"
  shows "\<exists>s'. SendMessage cd env cmid c from content s = (Inr (iv_msg_id v, iv_seq v), s') \<and> mshards s' = mshards s"
proof -
  have same: "s\<lparr>mcache := Some r\<rparr> = s" using r by simp
  have G: "GetConvMeta (se_redis env) (se_sql env SMeta) (se_now env) (mcache s) (mdb s) c = (Inr meta, mcache s)"
    using r env by (simp add: GetConvMeta_def rget_def)
  have I: "IdemGet (se_redis env) (se_now env) (mcache s) c cmid = Some v"
    using r mk env by (simp add: IdemGet_def rget_def)
  show ?thesis
  proof (cases "bloom_hit env s c cmid")
    case (Some w)
    then have "w = v" using I by (auto simp: bloom_hit_def split: option.splits if_splits)
    then show ?thesis using G r Some by (simp add: same SendMessage_def Let_def)
  next
    case None
    let ?s1 = "s\<lparr>mconvs := AList.update c (q + 1, hi) (mconvs s), mids := (mids s)\<lparr>ma_cur := ma_cur (mids s) + 1\<rparr>\<rparr>"
    have "SendMessage cd env cmid c from content s =
        mark_and_write cd env cmid c from content (ma_cur (mids s)) q ?s1"
      using G r None q i by (simp add: same SendMessage_def allocate_and_write_def AllocConv_def AllocMsgID_def Let_def)
    also have "\<dots> = (Inr (iv_msg_id v, iv_seq v), ?s1)"
      using r mk env I by (simp add: mark_and_write_def IdemPut_def Let_def)
    finally show ?thesis by simp
  qed
qed

text \<open>
  C34: A failure to open the transaction loses the message: it is the one error return after the
  mark is set that does not delete the mark, so the client's retry, up to a day later and with
  everything healthy again, is answered with success while no message is stored.
\<close>

theorem begin_failure_loses_message:
  assumes "mcache s = Some r" "live (se_now env1) r (metaKey c) = Some (VMeta meta)"
    and "live (se_now env2) r (metaKey c) = Some (VMeta meta)" "from \<in> set (MemberUIDs meta)"
    and "live (se_now env1) r (idemKey c cmid) = None"
    and "map_of (mconvs s) c = Some (q, hi)" "q < hi" "ma_cur (mids s) > 0" "ma_cur (mids s) < ma_last (mids s)"
    and "se_redis env1 = redis_up" "se_sql env1 SBegin = Some e" "marshal_content cd content = Some j"
    and "se_redis env2 = redis_up" "se_now env2 < se_now env1 + idemTTL"
    and "SendMessage cd env1 cmid c from content s = (res1, s1)"
    and "SendMessage cd env2 cmid c from content s1 = (res2, s2)"
  shows "res1 = Inl (SendErr e) \<and> res2 = Inr (ma_cur (mids s), q) \<and> mshards s2 = mshards s"
proof -
  let ?v = "\<lparr>iv_msg_id = ma_cur (mids s), iv_seq = q\<rparr>"
  let ?r = "put_ttl (se_now env1) idemTTL (idemKey c cmid) (VIdem ?v) r"
  have one: "SendMessage cd env1 cmid c from content s = (Inl (SendErr e),
    s\<lparr>mcache := Some ?r, mconvs := AList.update c (q + 1, hi) (mconvs s),
      mids := (mids s)\<lparr>ma_cur := ma_cur (mids s) + 1\<rparr>\<rparr>)"
    using assms by (intro begin_failure_state) auto
  then have s1: "res1 = Inl (SendErr e)" "s1 = s\<lparr>mcache := Some ?r, mconvs := AList.update c (q + 1, hi) (mconvs s),
      mids := (mids s)\<lparr>ma_cur := ma_cur (mids s) + 1\<rparr>\<rparr>"
    using assms(15) by simp_all
  have "\<exists>s'. SendMessage cd env2 cmid c from content s1 = (Inr (iv_msg_id ?v, iv_seq ?v), s') \<and> mshards s' = mshards s1"
  proof (rule marked_answer [where r = ?r and meta = meta and q = "q + 1" and hi = hi])
    show "mcache s1 = Some ?r" by (simp add: s1)
    show "live (se_now env2) ?r (metaKey c) = Some (VMeta meta)"
      using assms(3) by (auto simp: live_def put_ttl_def split: option.splits if_splits)
    show "live (se_now env2) ?r (idemKey c cmid) = Some (VIdem ?v)"
      using assms(14) by (simp add: live_def put_ttl_def)
  qed (use assms s1 in \<open>auto simp: update_conv\<close>)
  then show ?thesis using assms(16) s1 by auto
qed

subsection \<open>Revocation\<close>

text \<open>
  Only the author revokes, within the window: a revocation that stores anything does so for a
  stored message of that conversation written by the caller at most two minutes before.
\<close>

theorem revoke_only_own_recent:
  assumes "RevokeMessage eq cd env flt msgID c op s = (res, s')" "mshards s' \<noteq> mshards s"
  shows "\<exists>q \<in> set (table_of s c). ms_id q = msgID \<and> ms_conv q = c \<and> ms_from q = op \<and>
    se_now env - ms_time q \<le> RevokeWindow"
proof -
  have "s' \<noteq> s" using assms(2) by auto
  then obtain q where q: "find (\<lambda>r. ms_id r = msgID \<and> ms_conv r = c) (table_of s c) = Some q"
      "ms_from q = op" "\<not> RevokeWindow < se_now env - ms_time q"
    using assms(1) by (auto simp: RevokeMessage_def Let_def split: if_splits option.splits)
  then show ?thesis by (auto simp: find_Some_iff)
qed

text \<open>
  A revocation can be swallowed: it is sent with the message id as its client id, and client
  ids are chosen by the clients; when any message of the conversation was sent with that number
  as its client id, revoking stores nothing, whatever happens.
\<close>

theorem revoke_swallowed_by_client_id:
  assumes "truthful s" "tables_ok s" "row_get ms_ukey (table_of s c) (c, msgID) = Some r"
    and "RevokeMessage eq cd env flt msgID c op s = (res, s')"
  shows "mshards s' = mshards s"
  using revoke_message_store [OF assms(4)] retry_never_stores_twice [OF assms(1-3)] by blast

subsection \<open>A small service, for the witnesses\<close>

definition demo_codec :: codec where
  "demo_codec = \<lparr>marshal_content = (\<lambda>c. Some (ct_text c)), unmarshal_content = (\<lambda>_. None),
     marshal_msg = (\<lambda>_. None), unmarshal_msg = (\<lambda>_. None), json_column = id\<rparr>"

definition demo_env :: send_env where
  "demo_env = \<lparr>se_now = 1000, se_after = 1001, se_redis = redis_up, se_sql = no_fault, se_conv_refill = Inl ''down'',
     se_id_refill = Inl ''down'', se_bump = Inr 1\<rparr>"

definition demo_meta :: ConvMeta where
  "demo_meta = \<lparr>ConvID = 7, Type = 1, MemberUIDs = [1, 2], LastSeq = 0, CreateTimeMs = 0, Name = [], Avatar = []\<rparr>"

definition demo_redis :: redis where
  "demo_redis = put_plain (metaKey 7) (VMeta demo_meta) empty_redis"

definition demo_svc :: svc where
  "demo_svc = \<lparr>mdb = empty_meta, mshards = empty_shards,
     mslots = \<lparr>mapping = replicate SlotCount (MsgShard 0 0), overrides = 0\<rparr>, mcache = Some demo_redis,
     mbloom = None, mids = \<lparr>ma_cur = 5, ma_last = 9\<rparr>, mconvs = [(7, 1, 64)], mlast = empty_batch, mpush = None\<rparr>"

definition demo_text :: Content where
  "demo_text = \<lparr>ct_type = 1, ct_text = ''hello'', ct_ref_msg_id = 0, ct_op_uid = 0\<rparr>"

definition demo_row :: "int \<Rightarrow> message_row" where
  "demo_row cmid = \<lparr>ms_id = 5, ms_conv = 7, ms_from = 1, ms_seq = 1, ms_type = 1, ms_content = ''hello'',
     ms_cmid = cmid, ms_time = 1000\<rparr>"

definition demo_sent :: "int \<Rightarrow> svc" where
  "demo_sent cmid = snd (SendMessage demo_codec demo_env cmid 7 1 demo_text demo_svc)"

lemma shard_of_demo: "mslots s = mslots demo_svc \<Longrightarrow> shard_of s c = MsgShard 0 0"
  using slot_of_lt [of c] by (simp add: shard_of_def RouteMsg_def demo_svc_def)

lemma demo_live: "live now demo_redis (metaKey 7) = Some (VMeta demo_meta)" "live now demo_redis (idemKey c k) = None"
  by (simp_all add: demo_redis_def)

lemma demo_tables: "table_of demo_svc c = []" "locals_of demo_svc c = []"
  by (simp_all add: table_of_def locals_of_def demo_svc_def)

definition demo_stored :: "int \<Rightarrow> msg_dbs" where
  "demo_stored k = with_tables 7 (demo_row k) \<lparr>lm_id = 5, lm_conv = 7, lm_status = 0, lm_create = 1000\<rparr> demo_svc"

definition demo_marked :: "int \<Rightarrow> redis" where
  "demo_marked k = put_ttl 1000 idemTTL (idemKey 7 k) (VIdem \<lparr>iv_msg_id = 5, iv_seq = 1\<rparr>) demo_redis"

lemma demo_write: "write_message demo_codec demo_env k 7 1 demo_text 5 1
      (demo_svc\<lparr>mcache := Some (demo_marked k), mconvs := [(7, 2, 64)], mids := \<lparr>ma_cur = 6, ma_last = 9\<rparr>\<rparr>) =
    (Inr (5, 1), demo_svc\<lparr>mcache := Some (demo_marked k), mconvs := [(7, 2, 64)],
       mids := \<lparr>ma_cur = 6, ma_last = 9\<rparr>, mlast := lastSeq_add (7, 1) empty_batch, mshards := demo_stored k\<rparr>)"
proof -
  let ?s = "demo_svc\<lparr>mcache := Some (demo_marked k), mconvs := [(7, 2, 64)], mids := \<lparr>ma_cur = 6, ma_last = 9\<rparr>\<rparr>"
  have T: "table_of ?s 7 = []" "locals_of ?s 7 = []"
    by (simp_all add: table_of_def locals_of_def demo_svc_def)
  have W: "with_tables 7 (demo_row k) \<lparr>lm_id = 5, lm_conv = 7, lm_status = 0, lm_create = 1000\<rparr> ?s = demo_stored k"
    by (simp add: demo_stored_def with_tables_def T demo_tables shard_of_def)
  show ?thesis
    using W unfolding write_message_def demo_row_def demo_env_def demo_codec_def demo_text_def
    by (simp add: T duplicate_key_def after_commit_def Let_def) (simp add: demo_svc_def)
qed

lemma demo_sends: "SendMessage demo_codec demo_env k 7 1 demo_text demo_svc =
    (Inr (5, 1), demo_svc\<lparr>mcache := Some (demo_marked k), mconvs := [(7, 2, 64)],
       mids := \<lparr>ma_cur = 6, ma_last = 9\<rparr>, mlast := lastSeq_add (7, 1) empty_batch, mshards := demo_stored k\<rparr>)"
proof -
  have G: "GetConvMeta (se_redis demo_env) (se_sql demo_env SMeta) (se_now demo_env) (mcache demo_svc) (mdb demo_svc) 7 =
      (Inr demo_meta, mcache demo_svc)"
    by (simp add: GetConvMeta_def rget_def demo_live demo_svc_def demo_env_def)
  have same: "demo_svc\<lparr>mcache := mcache demo_svc\<rparr> = demo_svc" by simp
  have "SendMessage demo_codec demo_env k 7 1 demo_text demo_svc =
      allocate_and_write demo_codec demo_env k 7 1 demo_text demo_svc"
    by (simp add: SendMessage_def G same Let_def bloom_hit_def) (simp add: demo_meta_def demo_svc_def)
  also have "\<dots> = mark_and_write demo_codec demo_env k 7 1 demo_text 5 1
      (demo_svc\<lparr>mconvs := [(7, 2, 64)], mids := \<lparr>ma_cur = 6, ma_last = 9\<rparr>\<rparr>)"
    by (simp add: allocate_and_write_def AllocConv_def AllocMsgID_def demo_svc_def)
  also have "\<dots> = write_message demo_codec demo_env k 7 1 demo_text 5 1
      (demo_svc\<lparr>mcache := Some (demo_marked k), mconvs := [(7, 2, 64)], mids := \<lparr>ma_cur = 6, ma_last = 9\<rparr>\<rparr>)"
    by (simp add: mark_and_write_def IdemPut_def demo_svc_def demo_env_def demo_live demo_marked_def Let_def)
  finally show ?thesis by (simp add: demo_write)
qed

lemma truthful_demo: "truthful demo_svc"
  by (simp add: truthful_def mark_of_def demo_svc_def demo_redis_def put_plain_def empty_redis_def)

lemma demo_stored_tables: "msg_table (demo_stored k) (MsgShard 0 0) = [demo_row k]"
    "local_table (demo_stored k) 0 = [\<lparr>lm_id = 5, lm_conv = 7, lm_status = 0, lm_create = 1000\<rparr>]"
  by (simp_all add: demo_stored_def with_tables_def demo_tables shard_of_demo)

lemma demo_sent_table: "mshards s = demo_stored k \<Longrightarrow> mslots s = mslots demo_svc \<Longrightarrow> table_of s c = [demo_row k]"
  by (simp add: table_of_def shard_of_demo demo_stored_tables)

lemma message_tables_consistent_witness:
  "pk_ok ms_ukey (msg_table (mshards (demo_sent 99)) (MsgShard 0 0)) \<and>
   msg_table (mshards (demo_sent 99)) (MsgShard 0 0) = [demo_row 99]"
proof -
  have "msg_run demo_svc" by (rule msg_run.start) (simp add: demo_svc_def)
  then have "msg_run (demo_sent 99)"
    using demo_sends [of 99] by (auto simp: demo_sent_def intro: msg_run.send)
  from message_tables_consistent [OF this, of "MsgShard 0 0" 0] show ?thesis
    by (simp add: demo_sent_def demo_sends demo_stored_tables)
qed

lemma send_success_is_stored_witness:
  "truthful (demo_sent 99) \<and> (\<exists>r \<in> set (table_of (demo_sent 99) 7). ms_ukey r = (7, 99) \<and> ms_id r = 5 \<and> ms_seq r = 1)"
proof -
  have "SendMessage demo_codec demo_env 99 7 1 demo_text demo_svc = (Inr (5, 1), demo_sent 99)"
    by (simp add: demo_sent_def demo_sends)
  from send_success_is_stored [OF truthful_demo this] show ?thesis by (simp add: demo_env_def)
qed

lemma demo_sent_ok: "truthful (demo_sent k)" "tables_ok (demo_sent k)"
    "row_get ms_ukey (table_of (demo_sent k) 7) (7, k) = Some (demo_row k)"
proof -
  show "truthful (demo_sent k)"
    by (rule truthfulI) (auto simp: demo_sent_def demo_sends mark_of_def demo_marked_def put_ttl_def backed_def
        demo_sent_table ms_ukey_def demo_row_def demo_redis_def put_plain_def empty_redis_def split: if_splits)
  have "tables_ok demo_svc" by (rule tables_ok_empty) (simp add: demo_svc_def)
  then show "tables_ok (demo_sent k)"
    using send_message_tables [OF demo_sends [of k]] by (simp add: demo_sent_def demo_sends)
  show "row_get ms_ukey (table_of (demo_sent k) 7) (7, k) = Some (demo_row k)"
    by (simp add: demo_sent_def demo_sends demo_sent_table ms_ukey_def demo_row_def)
qed

lemma retry_never_stores_twice_witness:
  "mshards (snd (SendMessage demo_codec (demo_env\<lparr>se_redis := redis_down\<rparr>) 99 7 1 demo_text (demo_sent 99))) =
   mshards (demo_sent 99)"
  using retry_never_stores_twice [OF demo_sent_ok surjective_pairing] by blast

lemma only_members_write_witness:
  "\<exists>ms. length ms \<le> 1 \<and> msg_table (mshards (demo_sent 99)) (MsgShard 0 0) = msg_table (mshards demo_svc) (MsgShard 0 0) @ ms"
proof -
  have "SendMessage demo_codec demo_env 99 7 1 demo_text demo_svc = (Inr (5, 1), demo_sent 99)"
    by (simp add: demo_sent_def demo_sends)
  from only_members_write [OF this, of "MsgShard 0 0"] show ?thesis by blast
qed

lemma begin_failure_loses_message_witness:
  "\<exists>s1 s2. SendMessage demo_codec (demo_env\<lparr>se_sql := no_fault(SBegin := Some ''bad connection'')\<rparr>) 99 7 1 demo_text demo_svc =
      (Inl (SendErr ''bad connection''), s1) \<and>
    SendMessage demo_codec (demo_env\<lparr>se_now := 5000\<rparr>) 99 7 1 demo_text s1 = (Inr (5, 1), s2) \<and>
    mshards s2 = empty_shards"
proof -
  let ?e1 = "demo_env\<lparr>se_sql := no_fault(SBegin := Some ''bad connection'')\<rparr>" and ?e2 = "demo_env\<lparr>se_now := 5000\<rparr>"
  obtain res1 s1 where 1: "SendMessage demo_codec ?e1 99 7 1 demo_text demo_svc = (res1, s1)" by force
  obtain res2 s2 where 2: "SendMessage demo_codec ?e2 99 7 1 demo_text s1 = (res2, s2)" by force
  have "res1 = Inl (SendErr ''bad connection'') \<and> res2 = Inr (ma_cur (mids demo_svc), 1) \<and> mshards s2 = mshards demo_svc"
    by (rule begin_failure_loses_message [where r = demo_redis and meta = demo_meta and q = 1 and hi = 64 and
          j = "''hello''", OF _ _ _ _ _ _ _ _ _ _ _ _ _ _ 1 2])
      (simp_all add: demo_live demo_svc_def demo_env_def demo_meta_def demo_codec_def demo_text_def idemTTL_def)
  with 1 2 show ?thesis by (auto simp: demo_svc_def)
qed

definition demo_revoke :: "int \<Rightarrow> (revoke_error + int \<times> int) \<times> svc" where
  "demo_revoke k = RevokeMessage (=) demo_codec (demo_env\<lparr>se_now := 2000\<rparr>) no_fault 5 7 1 (demo_sent k)"

lemma revoke_swallowed_by_client_id_witness:
  "mshards (snd (demo_revoke 5)) = mshards (demo_sent 5) \<and> table_of (demo_sent 5) 7 = [demo_row 5]"
proof -
  obtain res s' where R: "demo_revoke 5 = (res, s')" by force
  from revoke_swallowed_by_client_id [OF demo_sent_ok R [unfolded demo_revoke_def]] R
  show ?thesis by (simp add: demo_sent_def demo_sends demo_sent_table)
qed

lemma healthy_send:
  assumes r: "mcache s = Some r" "live (se_now env) r (metaKey c) = Some (VMeta meta)" "from \<in> set (MemberUIDs meta)"
    and fresh: "live (se_now env) r (idemKey c cmid) = None" "row_get ms_ukey (table_of s c) (c, cmid) = None"
      "row_get ms_key (table_of s c) (c, q) = None" "row_get lm_key (locals_of s c) (c, ma_cur (mids s)) = None"
    and q: "map_of (mconvs s) c = Some (q, hi)" "q \<le> hi"
    and i: "ma_cur (mids s) \<noteq> 0" "ma_cur (mids s) \<le> ma_last (mids s)"
    and env: "se_redis env = redis_up" "se_sql env = no_fault" "marshal_content cd content = Some j"
  shows "\<exists>s' m. SendMessage cd env cmid c from content s = (Inr (ma_cur (mids s), q), s') \<and>
    table_of s' c = table_of s c @ [m]"
proof -
  have same: "s\<lparr>mcache := Some r\<rparr> = s" using r by simp
  have G: "GetConvMeta (se_redis env) (se_sql env SMeta) (se_now env) (mcache s) (mdb s) c = (Inr meta, mcache s)"
    using r env by (simp add: GetConvMeta_def rget_def)
  have I: "IdemGet (se_redis env) (se_now env) (mcache s) c cmid = None"
    using r fresh by (simp add: IdemGet_def rget_def)
  let ?s1 = "s\<lparr>mconvs := AList.update c (q + 1, hi) (mconvs s), mids := (mids s)\<lparr>ma_cur := ma_cur (mids s) + 1\<rparr>\<rparr>"
  let ?s2 = "?s1\<lparr>mcache := Some (put_ttl (se_now env) idemTTL (idemKey c cmid)
      (VIdem \<lparr>iv_msg_id = ma_cur (mids s), iv_seq = q\<rparr>) r)\<rparr>"
  have "bloom_hit env s c cmid = None" using I by (simp add: bloom_hit_def split: option.split)
  then have "SendMessage cd env cmid c from content s = allocate_and_write cd env cmid c from content s"
    using G r by (simp add: SendMessage_def same Let_def)
  also have "\<dots> = mark_and_write cd env cmid c from content (ma_cur (mids s)) q ?s1"
    using q i by (simp add: allocate_and_write_def AllocConv_def AllocMsgID_def)
  also have "\<dots> = write_message cd env cmid c from content (ma_cur (mids s)) q ?s2"
    using r fresh env by (simp add: mark_and_write_def IdemPut_def Let_def)
  finally have S: "SendMessage cd env cmid c from content s = write_message cd env cmid c from content (ma_cur (mids s)) q ?s2" .
  have T: "table_of ?s2 c = table_of s c" "locals_of ?s2 c = locals_of s c"
    by (simp_all add: table_of_def locals_of_def shard_of_def)
  show ?thesis
    unfolding S using fresh env
    by (simp add: write_message_def T duplicate_key_def ms_key_def ms_ukey_def lm_key_def after_commit_def Let_def)
      (simp add: table_of_def with_tables_def shard_of_def)
qed

lemma demo_sent_fields: "mcache (demo_sent k) = Some (demo_marked k)" "mconvs (demo_sent k) = [(7, 2, 64)]"
    "mids (demo_sent k) = \<lparr>ma_cur = 6, ma_last = 9\<rparr>"
  by (simp_all add: demo_sent_def demo_sends)

lemma revoke_only_own_recent_witness:
  "\<exists>q \<in> set (table_of (demo_sent 99) 7). ms_id q = 5 \<and> ms_conv q = 7 \<and> ms_from q = 1 \<and> 2000 - ms_time q \<le> RevokeWindow"
proof -
  let ?env = "demo_env\<lparr>se_now := 2000\<rparr>" and ?s = "demo_sent 99"
  let ?content = "\<lparr>ct_type = 10, ct_text = [], ct_ref_msg_id = 5, ct_op_uid = 1\<rparr>"
  have tab: "table_of ?s 7 = [demo_row 99]" "locals_of ?s 7 = [\<lparr>lm_id = 5, lm_conv = 7, lm_status = 0, lm_create = 1000\<rparr>]"
    by (simp_all add: demo_sent_def demo_sends demo_sent_table locals_of_def shard_of_demo demo_stored_tables)
  have "\<exists>s' m. SendMessage demo_codec ?env 5 7 1 ?content ?s = (Inr (ma_cur (mids ?s), 2), s') \<and>
      table_of s' 7 = table_of ?s 7 @ [m]"
    by (rule healthy_send [where r = "demo_marked 99" and meta = demo_meta and hi = 64 and j = "[]"])
      (simp_all add: tab demo_row_def ms_ukey_def ms_key_def lm_key_def demo_sent_fields demo_env_def
        demo_codec_def demo_marked_def demo_redis_def demo_meta_def live_def put_ttl_def put_plain_def empty_redis_def)
  then obtain res s' m where S: "SendMessage demo_codec ?env 5 7 1 ?content ?s = (Inr res, s')"
    "table_of s' 7 = table_of ?s 7 @ [m]" by blast
  have "demo_revoke 99 = (Inr res, s')"
    using S(1) unfolding demo_revoke_def RevokeMessage_def
    by (simp add: tab demo_row_def demo_env_def RevokeWindow_def Let_def)
  moreover have "mshards s' \<noteq> mshards ?s"
  proof
    assume "mshards s' = mshards ?s"
    moreover have "mslots s' = mslots ?s"
    proof -
      obtain w where "send_ends demo_codec ?env 5 7 1 ?content ?s w (Inr res) s'" using send_message_ends [OF S(1)] ..
      from send_ends_store [OF this] show ?thesis by (auto simp: same_store_def)
    qed
    ultimately have "table_of s' 7 = table_of ?s 7" by (simp add: table_of_def shard_of_def)
    with S(2) show False by simp
  qed
  ultimately show ?thesis
    using revoke_only_own_recent [of "(=)" demo_codec ?env no_fault 5 7 1 ?s "Inr res" s']
    by (simp add: demo_revoke_def demo_env_def)
qed

end
