(* ===== verification/Profile.thy ===== *)
theory Profile
  imports Cache Like
begin

text \<open>
  User profiles and presence (\<open>internal/relation/profile.go\<close>, \<open>presence.go\<close>), and the state
  of the relation service (\<open>service.go\<close>): the meta database, the cache handle and the event
  producer (\<open>None\<close>: no producer, every emission is a no-op).
\<close>

type_synonym relation_event = "EventFrame \<times> uid list"

record rel =
  rdb :: meta_db
  rcache :: "redis option"
  rpub :: "relation_event list option"

definition CodeInternal :: int where "CodeInternal = 1"
definition CodeAlreadyFriends :: int where "CodeAlreadyFriends = 20"
definition CodeRequestInvalid :: int where "CodeRequestInvalid = 21"
definition CodeNotFriends :: int where "CodeNotFriends = 22"
definition CodeNotOwner :: int where "CodeNotOwner = 23"
definition CodeAlreadyMember :: int where "CodeAlreadyMember = 24"
definition CodeNotMember :: int where "CodeNotMember = 25"
definition CodeRequestHandled :: int where "CodeRequestHandled = 26"
definition CodeNicknameTaken :: int where "CodeNicknameTaken = 27"

lemmas code_defs = CodeInternal_def CodeAlreadyFriends_def CodeRequestInvalid_def
  CodeNotFriends_def CodeNotOwner_def CodeAlreadyMember_def CodeNotMember_def
  CodeRequestHandled_def CodeNicknameTaken_def

definition codeMsg :: "int \<Rightarrow> string" where
  "codeMsg code =
     (if code = CodeInternal then ''internal error''
      else if code = CodeAlreadyFriends then ''already friends''
      else if code = CodeRequestInvalid then ''friend request not found or forbidden''
      else if code = CodeNotFriends then ''not friends''
      else if code = CodeNotOwner then ''owner permission required''
      else if code = CodeAlreadyMember then ''already a member''
      else if code = CodeNotMember then ''not a member''
      else if code = CodeRequestHandled then ''request already handled''
      else if code = CodeNicknameTaken then ''nickname already taken''
      else [])"

definition bizErr :: "int \<Rightarrow> yim_error" where
  "bizErr code = YErr code (if codeMsg code = [] then ''unknown relation error'' else codeMsg code)"

lemma err_code_bizErr [simp]: "err_code (bizErr c) = c"
  by (simp add: bizErr_def)

definition Emit :: "string \<Rightarrow> uid \<Rightarrow> conv_id \<Rightarrow> uid list \<Rightarrow> rel \<Rightarrow> rel" where
  "Emit ty u conv targets s =
     s\<lparr>rpub := map_option (\<lambda>l. l @ [(\<lparr>ev_type = ty, ev_uid = u, ev_conv = conv,
        ev_online = False, ev_seq = 0\<rparr>, targets)]) (rpub s)\<rparr>"

definition EmitFrame :: "EventFrame \<Rightarrow> uid list \<Rightarrow> rel \<Rightarrow> rel" where
  "EmitFrame ev targets s = s\<lparr>rpub := map_option (\<lambda>l. l @ [(ev, targets)]) (rpub s)\<rparr>"

lemma Emit_simps [simp]: "rdb (Emit t u c ts s) = rdb s" "rcache (Emit t u c ts s) = rcache s"
  by (simp_all add: Emit_def)

definition EvFriendRequest :: string where "EvFriendRequest = ''FRIEND_REQUEST''"
definition EvFriendHandled :: string where "EvFriendHandled = ''FRIEND_HANDLED''"
definition EvFriendDeleted :: string where "EvFriendDeleted = ''FRIEND_DELETED''"
definition EvGroupChanged :: string where "EvGroupChanged = ''GROUP_CHANGED''"
definition EvPresence :: string where "EvPresence = ''PRESENCE''"

lemmas ev_defs = EvFriendRequest_def EvFriendHandled_def EvFriendDeleted_def EvGroupChanged_def
  EvPresence_def

record UserProfile =
  up_uid :: uid
  up_nickname :: string
  up_avatar :: string

definition profile_of_row :: "user_row \<Rightarrow> UserProfile" where
  "profile_of_row r = \<lparr>up_uid = us_uid r, up_nickname = us_nickname r, up_avatar = us_avatar r\<rparr>"

definition profile_of_cached :: "uid \<Rightarrow> Profile \<Rightarrow> UserProfile" where
  "profile_of_cached u p = \<lparr>up_uid = u, up_nickname = pf_nickname p, up_avatar = pf_avatar p\<rparr>"

definition profile_by_uid :: "user_row list \<Rightarrow> (uid \<Rightarrow> Profile option) \<Rightarrow> uid \<Rightarrow> UserProfile option" where
  \<comment> \<open>the map \<open>byUID\<close> the loop fills: the last row of the query wins over the cached profile\<close>
  "profile_by_uid rows hit u =
     (if u \<le> 0 then None
      else case row_get us_uid (rev rows) u of
          Some r \<Rightarrow> Some (profile_of_row r)
        | None \<Rightarrow> map_option (profile_of_cached u) (hit u))"

definition GetProfiles :: "rfaults \<Rightarrow> string option \<Rightarrow> int \<Rightarrow> uid list \<Rightarrow> rel \<Rightarrow>
    (yim_error + UserProfile list) \<times> rel" where
  "GetProfiles rf dberr now uids0 s =
     (let uids = take 50 uids0;
          hit = (\<lambda>u. if u \<le> 0 then None else GetProfile rf now (rcache s) u);
          missed = filter (\<lambda>u. 0 < u \<and> hit u = None) uids;
          rows = filter (\<lambda>r. us_uid r \<in> set missed) (users (rdb s));
          c' = fold (\<lambda>r c. SetProfile rf now c (us_uid r)
                 \<lparr>pf_nickname = us_nickname r, pf_avatar = us_avatar r\<rparr>) rows (rcache s)
      in if missed \<noteq> [] \<and> dberr \<noteq> None then (Inl (YErr CodeInternal (the dberr)), s)
         else (Inr (List.map_filter (profile_by_uid rows hit) uids),
               s\<lparr>rcache := (if missed = [] then rcache s else c')\<rparr>))"

lemma profile_by_uid_uid: "profile_by_uid rows hit u = Some p \<Longrightarrow> up_uid p = u"
  by (auto simp: profile_by_uid_def profile_of_row_def profile_of_cached_def
      dest!: row_get_SomeD split: if_splits option.splits)

lemma GetProfiles_uids:
  assumes "GetProfiles rf e now uids s = (Inr ps, s')"
  shows "up_uid ` set ps \<subseteq> set (take 50 uids)"
proof -
  obtain rows hit where "ps = List.map_filter (profile_by_uid rows hit) (take 50 uids)"
    using assms by (auto simp: GetProfiles_def Let_def split: if_splits)
  then show ?thesis
    by (auto simp: map_filter_def profile_by_uid_uid)
qed

lemma GetProfiles_rel: "GetProfiles rf e now uids s = (r, s') \<Longrightarrow> rdb s' = rdb s \<and> rpub s' = rpub s"
  by (auto simp: GetProfiles_def Let_def split: if_splits)

lemma GetProfiles_ok: "\<exists>ps s'. GetProfiles rf None now uids s = (Inr ps, s')"
  by (simp add: GetProfiles_def Let_def)

definition all_digits :: "string \<Rightarrow> bool" where
  "all_digits s \<longleftrightarrow> list_all (\<lambda>c. digit_val c \<noteq> None) s"

fun scan_users :: "nat \<Rightarrow> uid list \<Rightarrow> user_row list \<Rightarrow> UserProfile list" where
  \<comment> \<open>the scan loop: skip a uid already seen, stop once \<open>limit\<close> profiles are collected\<close>
  "scan_users limit seen [] = []"
| "scan_users limit seen (r # rs) =
     (if us_uid r \<in> set seen then scan_users limit seen rs
      else profile_of_row r #
        (if limit \<le> Suc (length seen) then [] else scan_users limit (us_uid r # seen) rs))"

definition SearchUsers :: "(char \<Rightarrow> char \<Rightarrow> bool) \<Rightarrow> string option \<Rightarrow> string \<Rightarrow> uid \<Rightarrow> int \<Rightarrow> rel \<Rightarrow>
    yim_error + UserProfile list" where
  "SearchUsers eq dberr keyword0 opUID limit0 s =
     (let keyword = trim_space keyword0;
          limit = nat (if limit0 \<le> 0 \<or> 20 < limit0 then 20 else limit0);
          pattern = likeEscape keyword @ ''%'';
          numeric = all_digits keyword;
          matches = (\<lambda>r. sql_like eq pattern (us_nickname r) \<or>
                         numeric \<and> parse_digits 0 keyword = Some (us_uid r));
          rows = take limit (filter (\<lambda>r. matches r \<and> us_uid r \<noteq> opUID) (users (rdb s)))
      in if keyword = [] then Inr []
         else case dberr of
             Some e \<Rightarrow> Inl (YErr CodeInternal e)
           | None \<Rightarrow> Inr (scan_users limit [] rows))"

datatype profile_sql = QProfiles | WUser

definition UpdateProfile :: "rfaults \<Rightarrow> profile_sql faults \<Rightarrow> int \<Rightarrow> uid \<Rightarrow> string \<Rightarrow> string \<Rightarrow> rel \<Rightarrow>
    (yim_error + UserProfile option) \<times> rel" where
  \<comment> \<open>\<open>Inr None\<close> is the code's \<open>nil, nil\<close> when the profile row does not exist\<close>
  "UpdateProfile rf flt now u nickname avatar s =
     (let finish = (\<lambda>s. case GetProfiles rf (flt QProfiles) now [u] s of
                       (Inl e, s') \<Rightarrow> (Inl e, s')
                     | (Inr [], s') \<Rightarrow> (Inr None, s')
                     | (Inr (p # _), s') \<Rightarrow> (Inr (Some p), s'))
      in if nickname \<noteq> [] \<and> 64 < length nickname then
           (Inl (YErr CodeNicknameTaken ''nickname too long (max 64)''), s)
         else if avatar \<noteq> [] \<and> 255 < length avatar then
           (Inl (YErr CodeInternal ''avatar url too long''), s)
         else if nickname = [] \<and> avatar = [] then finish s
         else case flt WUser of
             Some e \<Rightarrow> (Inl (YErr CodeInternal e), s)
           | None \<Rightarrow>
               if nickname \<noteq> [] \<and> u \<in> us_uid ` set (users (rdb s)) \<and>
                  list_ex (\<lambda>r. us_uid r \<noteq> u \<and> us_nickname r = nickname) (users (rdb s))
               then (Inl (bizErr CodeNicknameTaken), s)
               else
                 (let upd = row_upd (\<lambda>r. us_uid r = u)
                        (\<lambda>r. r\<lparr>us_nickname := (if nickname = [] then us_nickname r else nickname),
                              us_avatar := (if avatar = [] then us_avatar r else avatar)\<rparr>)
                  in finish (s\<lparr>rdb := (rdb s)\<lparr>users := upd (users (rdb s))\<rparr>,
                               rcache := InvalidateProfile rf (rcache s) u\<rparr>)))"

datatype Presence = PRESENCE_OFFLINE | PRESENCE_ONLINE

definition GetPresence :: "rfaults \<Rightarrow> int \<Rightarrow> uid list \<Rightarrow> rel \<Rightarrow> (uid \<times> Presence) list" where
  "GetPresence rf now uids0 s =
     (let uids = take 50 uids0;
          online = RouteOnlineBatch rf now (rcache s) uids
      in map (\<lambda>u. (u, if online u then PRESENCE_ONLINE else PRESENCE_OFFLINE)) uids)"

end
