(* ===== verification/Friend.thy ===== *)
theory Friend
  imports Profile
begin

text \<open>
  Friendship (\<open>internal/relation/friend.go\<close>, \<open>isFriend\<close> of \<open>service.go\<close>): the request state
  machine (status 0 pending, 1 accepted, 2 rejected), the pair of friendship rows, listing
  and deletion. A transaction works on a copy of the database and commits it at the end, so
  every early return leaves the database as it was.
\<close>

datatype friend_sql = QIsFriend | QReverse | WRequest | BeginTx | QLock | WStatus | WFriend1
  | WFriend2 | CommitFail | CommitLost | QRequests | QFriends | QFriendProfiles

type_synonym ffaults = "friend_sql faults"

definition isFriend :: "ffaults \<Rightarrow> uid \<Rightarrow> uid \<Rightarrow> meta_db \<Rightarrow> string + bool" where
  "isFriend flt a b db =
     (case flt QIsFriend of
        Some e \<Rightarrow> Inl (''check friendship: '' @ e)
      | None \<Rightarrow> Inr (list_ex (\<lambda>r. fs_uid r = a \<and> fs_friend r = b \<or> fs_uid r = b \<and> fs_friend r = a)
          (friendships db)))"

definition invalid :: "string \<Rightarrow> yim_error" where
  "invalid e = YErr CodeRequestInvalid e"

definition request_row :: "uid \<Rightarrow> uid \<Rightarrow> meta_db \<Rightarrow> friend_req option" where
  "request_row f t db = row_get fr_key (friend_requests db) (f, t)"

definition req_status :: "uid \<Rightarrow> uid \<Rightarrow> meta_db \<Rightarrow> int option" where
  \<comment> \<open>SELECT status FROM friend_requests WHERE from_uid=? AND to_uid=?\<close>
  "req_status f t db = map_option fr_status (request_row f t db)"

definition set_request :: "uid \<Rightarrow> uid \<Rightarrow> int \<Rightarrow> int \<Rightarrow> meta_db \<Rightarrow> meta_db" where
  \<comment> \<open>UPDATE friend_requests SET status=?, update_time_ms=? WHERE from_uid=? AND to_uid=?\<close>
  "set_request f t status now db = db\<lparr>friend_requests :=
     row_upd (\<lambda>r. fr_key r = (f, t)) (\<lambda>r. r\<lparr>fr_status := status, fr_update := now\<rparr>)
       (friend_requests db)\<rparr>"

definition add_friend_row :: "uid \<Rightarrow> uid \<Rightarrow> int \<Rightarrow> meta_db \<Rightarrow> meta_db" where
  \<comment> \<open>INSERT IGNORE INTO friendships\<close>
  "add_friend_row a b now db = db\<lparr>friendships :=
     row_ins_ignore fs_key \<lparr>fs_uid = a, fs_friend = b, fs_create = now\<rparr> (friendships db)\<rparr>"

definition del_friend_row :: "uid \<Rightarrow> uid \<Rightarrow> meta_db \<Rightarrow> meta_db" where
  "del_friend_row a b db = db\<lparr>friendships :=
     row_del (\<lambda>r. fs_key r = (a, b)) (friendships db)\<rparr>"

definition upsert_request :: "uid \<Rightarrow> uid \<Rightarrow> string \<Rightarrow> int \<Rightarrow> meta_db \<Rightarrow> meta_db" where
  \<comment> \<open>INSERT ... ON DUPLICATE KEY UPDATE status=IF(status=2,0,status), message, update_time_ms\<close>
  "upsert_request f t msg now db = db\<lparr>friend_requests :=
     row_upsert fr_key
       (\<lambda>r. r\<lparr>fr_status := (if fr_status r = 2 then 0 else fr_status r), fr_message := msg,
              fr_update := now\<rparr>)
       \<lparr>fr_from = f, fr_to = t, fr_message = msg, fr_status = 0, fr_create = now, fr_update = now\<rparr>
       (friend_requests db)\<rparr>"

definition HandleFriendRequest :: "ffaults \<Rightarrow> int \<Rightarrow> uid \<Rightarrow> uid \<Rightarrow> bool \<Rightarrow> rel \<Rightarrow>
    yim_error option \<times> rel" where
  "HandleFriendRequest flt now opUID fromUID accept s =
     (if flt BeginTx \<noteq> None then (Some (invalid (the (flt BeginTx))), s)
      else if flt QLock \<noteq> None then (Some (invalid (the (flt QLock))), s)
      else case request_row fromUID opUID (rdb s) of
          None \<Rightarrow> (Some (bizErr CodeRequestInvalid), s)
        | Some r \<Rightarrow>
            if fr_status r \<noteq> 0 then (Some (bizErr CodeRequestHandled), s)
            else if flt WStatus \<noteq> None then (Some (invalid (the (flt WStatus))), s)
            else if accept \<and> flt WFriend1 \<noteq> None then (Some (invalid (the (flt WFriend1))), s)
            else if accept \<and> flt WFriend2 \<noteq> None then (Some (invalid (the (flt WFriend2))), s)
            else
              (let db1 = set_request fromUID opUID (if accept then 1 else 2) now (rdb s);
                   db2 = (if accept then add_friend_row fromUID opUID now
                            (add_friend_row opUID fromUID now db1) else db1)
               in case commit (flt CommitFail) (flt CommitLost) (rdb s) db2 of
                    (Some e, db') \<Rightarrow> (Some (invalid e), s\<lparr>rdb := db'\<rparr>)
                  | (None, db') \<Rightarrow>
                      (None, (if accept then Emit EvFriendHandled opUID 0 [fromUID] else id)
                        (s\<lparr>rdb := db'\<rparr>))))"

definition SendFriendRequest :: "ffaults \<Rightarrow> int \<Rightarrow> uid \<Rightarrow> uid \<Rightarrow> string \<Rightarrow> rel \<Rightarrow>
    yim_error option \<times> rel" where
  "SendFriendRequest flt now fromUID toUID message s =
     (if fromUID = toUID then (Some (invalid ''cannot add yourself''), s)
      else case isFriend flt fromUID toUID (rdb s) of
          Inl e \<Rightarrow> (Some (invalid e), s)
        | Inr True \<Rightarrow> (Some (bizErr CodeAlreadyFriends), s)
        | Inr False \<Rightarrow>
            if flt QReverse = None \<and> req_status toUID fromUID (rdb s) = Some 0
            then HandleFriendRequest flt now toUID fromUID True s
            else (case flt WRequest of
                Some e \<Rightarrow> (Some (invalid e), s)
              | None \<Rightarrow> (None, Emit EvFriendRequest fromUID 0 [toUID]
                  (s\<lparr>rdb := upsert_request fromUID toUID message now (rdb s)\<rparr>))))"

definition DeleteFriend :: "ffaults \<Rightarrow> uid \<Rightarrow> uid \<Rightarrow> rel \<Rightarrow> yim_error option \<times> rel" where
  "DeleteFriend flt opUID friendUID s =
     (if flt BeginTx \<noteq> None then (Some (invalid (the (flt BeginTx))), s)
      else if flt WFriend1 \<noteq> None then (Some (invalid (the (flt WFriend1))), s)
      else if flt WFriend2 \<noteq> None then (Some (invalid (the (flt WFriend2))), s)
      else case commit (flt CommitFail) (flt CommitLost) (rdb s)
             (del_friend_row friendUID opUID (del_friend_row opUID friendUID (rdb s))) of
          (Some e, db') \<Rightarrow> (Some (invalid e), s\<lparr>rdb := db'\<rparr>)
        | (None, db') \<Rightarrow> (None, Emit EvFriendDeleted opUID 0 [friendUID] (s\<lparr>rdb := db'\<rparr>)))"

definition CheckFriendship :: "ffaults \<Rightarrow> uid \<Rightarrow> uid \<Rightarrow> rel \<Rightarrow> yim_error + bool" where
  "CheckFriendship flt a b s =
     (case isFriend flt a b (rdb s) of Inl e \<Rightarrow> Inl (YErr CodeNotFriends e) | Inr ok \<Rightarrow> Inr ok)"

definition ListFriendRequests :: "ffaults \<Rightarrow> uid \<Rightarrow> bool \<Rightarrow> rel \<Rightarrow> yim_error + friend_req list" where
  "ListFriendRequests flt u incoming s =
     (case flt QRequests of
        Some e \<Rightarrow> Inl (invalid e)
      | None \<Rightarrow> Inr (take 100 (sort_key (\<lambda>r. - fr_update r)
          (filter (\<lambda>r. (if incoming then fr_to r else fr_from r) = u) (friend_requests (rdb s))))))"

record FriendBrief =
  fb_uid :: uid
  fb_nickname :: string
  fb_avatar :: string
  fb_create :: int

definition page_size :: "int \<Rightarrow> int" where
  "page_size n = (if n \<le> 0 \<or> 100 < n then 50 else n)"

definition page_num :: "int \<Rightarrow> int" where
  "page_num n = (if n \<le> 0 then 1 else n)"

definition friend_offset :: "int \<Rightarrow> int \<Rightarrow> int" where
  \<comment> \<open>\<open>(pageNum-1)*pageSize\<close> in int32 arithmetic\<close>
  "friend_offset pageNum pageSize =
     sint ((word_of_int (pageNum - 1) * word_of_int pageSize) :: 32 word)"

definition brief_of :: "UserProfile list \<Rightarrow> friendship \<Rightarrow> FriendBrief" where
  "brief_of ps r =
     (let b = \<lparr>fb_uid = fs_friend r, fb_nickname = [], fb_avatar = [], fb_create = fs_create r\<rparr>
      in case row_get up_uid ps (fs_friend r) of
           None \<Rightarrow> b
         | Some p \<Rightarrow> b\<lparr>fb_nickname := up_nickname p, fb_avatar := up_avatar p\<rparr>)"

definition friend_rows :: "uid \<Rightarrow> meta_db \<Rightarrow> friendship list" where
  "friend_rows u db = sort_key (\<lambda>r. - fs_create r) (filter (\<lambda>r. fs_uid r = u) (friendships db))"

definition ListFriends :: "rfaults \<Rightarrow> ffaults \<Rightarrow> int \<Rightarrow> uid \<Rightarrow> int \<Rightarrow> int \<Rightarrow> rel \<Rightarrow>
    (yim_error + FriendBrief list \<times> bool) \<times> rel" where
  \<comment> \<open>a negative OFFSET is a syntax error of the server\<close>
  "ListFriends rf flt now u pageNum0 pageSize0 s =
     (let pageSize = page_size pageSize0;
          offset = friend_offset (page_num pageNum0) pageSize
      in if flt QFriends \<noteq> None then (Inl (invalid (the (flt QFriends))), s)
         else if offset < 0 then (Inl (invalid ''You have an error in your SQL syntax''), s)
         else
           (let rows = take (nat (pageSize + 1)) (drop (nat offset) (friend_rows u (rdb s)));
                hasMore = pageSize < int (length rows);
                page = (if hasMore then take (nat pageSize) rows else rows)
            in case GetProfiles rf (flt QFriendProfiles) now (map fs_friend page) s of
                 (Inl e, s') \<Rightarrow> (Inl e, s')
               | (Inr ps, s') \<Rightarrow> (Inr (map (brief_of ps) page, hasMore), s')))"

subsection \<open>What the statements do to the two tables\<close>

definition friends :: "uid \<Rightarrow> uid \<Rightarrow> meta_db \<Rightarrow> bool" where
  "friends a b db \<longleftrightarrow> row_get fs_key (friendships db) (a, b) \<noteq> None"

lemma friends_iff: "friends a b db \<longleftrightarrow> (\<exists>r \<in> set (friendships db). fs_key r = (a, b))"
  unfolding friends_def by (subst row_get_not_None) force

lemma isFriend_eq: "flt QIsFriend = None \<Longrightarrow> isFriend flt a b db = Inr (friends a b db \<or> friends b a db)"
  unfolding friends_iff by (auto simp: isFriend_def list_ex_iff fs_key_def)

lemma fr_key_simp [simp]: "fr_key (r\<lparr>fr_status := st, fr_update := now\<rparr>) = fr_key r"
  by (simp add: fr_key_def)

lemma set_request_simps [simp]:
  "friendships (set_request f t st now db) = friendships db"
  "req_status a b (set_request f t st now db) =
     (if (a, b) = (f, t) then map_option (\<lambda>_. st) (req_status f t db) else req_status a b db)"
  by (simp_all add: set_request_def req_status_def request_row_def row_get_upd_key fr_key_simp
      option.map_comp comp_def)

lemma friends_cong: "friendships db = friendships db' \<Longrightarrow> friends a b db = friends a b db'"
  by (simp add: friends_def)

lemma friends_request_writes [simp]:
  "friends a b (set_request f t st now db) = friends a b db"
  "friends a b (upsert_request f t m now db) = friends a b db"
  by (simp_all add: friends_def set_request_def upsert_request_def)

lemma upsert_request_simps [simp]:
  "friendships (upsert_request f t m now db) = friendships db"
  "req_status a b (upsert_request f t m now db) =
     (if (a, b) = (f, t) then
        Some (case req_status f t db of None \<Rightarrow> 0 | Some st \<Rightarrow> if st = 2 then 0 else st)
      else req_status a b db)"
  by (auto simp: upsert_request_def req_status_def request_row_def row_get_upsert fr_key_def
      split: option.split)

lemma add_friend_row_simps [simp]:
  "friend_requests (add_friend_row a b now db) = friend_requests db"
  "req_status x y (add_friend_row a b now db) = req_status x y db"
  "friends x y (add_friend_row a b now db) \<longleftrightarrow> (x, y) = (a, b) \<or> friends x y db"
  by (auto simp: friends_def add_friend_row_def req_status_def request_row_def table_simps fs_key_def
      split: option.split)

lemma del_friend_row_simps [simp]:
  "friend_requests (del_friend_row a b db) = friend_requests db"
  "req_status x y (del_friend_row a b db) = req_status x y db"
  "friends x y (del_friend_row a b db) \<longleftrightarrow> (x, y) \<noteq> (a, b) \<and> friends x y db"
  by (auto simp: friends_def del_friend_row_def req_status_def request_row_def table_simps)

lemma pk_ok_friend_writes [simp, intro]:
  "pk_ok fs_key (friendships db) \<Longrightarrow> pk_ok fs_key (friendships (add_friend_row a b now db))"
  "pk_ok fs_key (friendships db) \<Longrightarrow> pk_ok fs_key (friendships (del_friend_row a b db))"
  "pk_ok fr_key (friend_requests db) \<Longrightarrow> pk_ok fr_key (friend_requests (set_request f t st now db))"
  "pk_ok fr_key (friend_requests db) \<Longrightarrow> pk_ok fr_key (friend_requests (upsert_request f t m now db))"
  by (auto simp: add_friend_row_def del_friend_row_def set_request_def upsert_request_def fr_key_def
      intro: pk_ok_upd pk_ok_upsert)

subsection \<open>Invariant of the two tables\<close>

definition friends_inv :: "meta_db \<Rightarrow> bool" where
  "friends_inv db \<longleftrightarrow>
     pk_ok fs_key (friendships db) \<and> pk_ok fr_key (friend_requests db) \<and>
     (\<forall>a b. friends a b db \<longrightarrow>
        a \<noteq> b \<and> friends b a db \<and> (req_status a b db = Some 1 \<or> req_status b a db = Some 1)) \<and>
     (\<forall>a b st. req_status a b db = Some st \<longrightarrow> a \<noteq> b \<and> st \<in> {0, 1, 2})"

inductive friend_step :: "rel \<Rightarrow> rel \<Rightarrow> bool" where
  send: "friend_step s (snd (SendFriendRequest flt now a b m s))"
| handle: "friend_step s (snd (HandleFriendRequest flt now a b acc s))"
| delete: "friend_step s (snd (DeleteFriend flt a b s))"

inductive_cases friend_stepE: "friend_step s s'"

lemma friends_inv_empty [simp]: "friends_inv empty_meta"
  by (simp add: friends_inv_def empty_meta_def req_status_def request_row_def friends_def)

lemma commit_inv: "I old \<Longrightarrow> I new \<Longrightarrow> I (snd (commit f l old new))"
  by (auto simp: commit_def split: option.splits)

lemma rdb_commit_cases:
  "rdb (snd (case commit f l old new of
       (Some e, db') \<Rightarrow> (Some (E e), s\<lparr>rdb := db'\<rparr>)
     | (None, db') \<Rightarrow> (None, (if acc then Emit ty u c ts else id) (s\<lparr>rdb := db'\<rparr>)))) =
   snd (commit f l old new)"
  by (auto split: prod.split option.split)

lemma HandleFriendRequest_db:
  "rdb (snd (HandleFriendRequest flt now opUID fromUID accept s)) = rdb s \<or>
   req_status fromUID opUID (rdb s) = Some 0 \<and>
   rdb (snd (HandleFriendRequest flt now opUID fromUID accept s)) =
     (let db1 = set_request fromUID opUID (if accept then 1 else 2) now (rdb s)
      in if accept then add_friend_row fromUID opUID now (add_friend_row opUID fromUID now db1)
         else db1)"
  by (auto simp: HandleFriendRequest_def req_status_def Let_def commit_def
      split: option.split)

lemma friends_invD:
  assumes "friends_inv db"
  shows "friends a b db \<Longrightarrow> a \<noteq> b" and "friends a b db \<Longrightarrow> friends b a db"
    and "friends a b db \<Longrightarrow> req_status a b db = Some 1 \<or> req_status b a db = Some 1"
    and "req_status a b db = Some st \<Longrightarrow> a \<noteq> b"
    and "req_status a b db = Some st \<Longrightarrow> st = 0 \<or> st = 1 \<or> st = 2"
    and "pk_ok fs_key (friendships db)" and "pk_ok fr_key (friend_requests db)"
  using assms unfolding friends_inv_def by blast+

lemma friends_invI:
  assumes "pk_ok fs_key (friendships db)" "pk_ok fr_key (friend_requests db)"
    and "\<And>a b. friends a b db \<Longrightarrow>
      a \<noteq> b \<and> friends b a db \<and> (req_status a b db = Some 1 \<or> req_status b a db = Some 1)"
    and "\<And>a b st. req_status a b db = Some st \<Longrightarrow> a \<noteq> b \<and> st \<in> {0, 1, 2}"
  shows "friends_inv db"
  using assms unfolding friends_inv_def by blast

lemma set_request_inv:
  assumes I: "friends_inv db" and st: "st \<in> {0, 1, 2}" and p: "req_status f t db = Some 0"
  shows "friends_inv (set_request f t st now db)"
proof (rule friends_invI)
  fix a b
  assume "friends a b (set_request f t st now db)"
  then have F: "friends a b db" by simp
  with friends_invD [OF I] p
  show "a \<noteq> b \<and> friends b a (set_request f t st now db) \<and>
      (req_status a b (set_request f t st now db) = Some 1 \<or>
       req_status b a (set_request f t st now db) = Some 1)"
    by (auto split: if_splits) (metis option.inject zero_neq_one)+
next
  fix a b st'
  assume "req_status a b (set_request f t st now db) = Some st'"
  with st p friends_invD(4,5) [OF I] show "a \<noteq> b \<and> st' \<in> {0, 1, 2}"
    by (auto split: if_splits)
qed (use friends_invD [OF I] in auto)

lemma add_pair_inv:
  assumes I: "friends_inv db" and r: "req_status f t db = Some 1"
  shows "friends_inv (add_friend_row f t now (add_friend_row t f now db))"
proof (rule friends_invI)
  fix a b
  assume "friends a b (add_friend_row f t now (add_friend_row t f now db))"
  with r friends_invD(1,2,3) [OF I, of a b] friends_invD(4) [OF I r]
  show "a \<noteq> b \<and> friends b a (add_friend_row f t now (add_friend_row t f now db)) \<and>
      (req_status a b (add_friend_row f t now (add_friend_row t f now db)) = Some 1 \<or>
       req_status b a (add_friend_row f t now (add_friend_row t f now db)) = Some 1)"
    by auto
qed (use friends_invD [OF I] in auto)

lemma handle_friends_inv:
  assumes I: "friends_inv (rdb s)"
  shows "friends_inv (rdb (snd (HandleFriendRequest flt now opUID fromUID accept s)))"
  using HandleFriendRequest_db [of flt now opUID fromUID accept s]
proof
  assume "req_status fromUID opUID (rdb s) = Some 0 \<and>
   rdb (snd (HandleFriendRequest flt now opUID fromUID accept s)) =
     (let db1 = set_request fromUID opUID (if accept then 1 else 2) now (rdb s)
      in if accept then add_friend_row fromUID opUID now (add_friend_row opUID fromUID now db1)
         else db1)"
  with I show ?thesis
    by (simp add: Let_def set_request_inv add_pair_inv)
qed (use assms in simp)

lemma upsert_request_inv:
  assumes I: "friends_inv db" and "f \<noteq> t"
  shows "friends_inv (upsert_request f t m now db)"
proof (rule friends_invI)
  fix a b
  assume "friends a b (upsert_request f t m now db)"
  with friends_invD(1,2,3) [OF I, of a b]
  show "a \<noteq> b \<and> friends b a (upsert_request f t m now db) \<and>
      (req_status a b (upsert_request f t m now db) = Some 1 \<or>
       req_status b a (upsert_request f t m now db) = Some 1)"
    by auto
next
  fix a b st'
  assume "req_status a b (upsert_request f t m now db) = Some st'"
  with assms(2) friends_invD(4,5) [OF I] show "a \<noteq> b \<and> st' \<in> {0, 1, 2}"
    by (fastforce split: if_splits option.splits)
qed (use friends_invD [OF I] in auto)

lemma send_friends_inv:
  assumes "friends_inv (rdb s)"
  shows "friends_inv (rdb (snd (SendFriendRequest flt now a b m s)))"
  using assms
  by (simp add: SendFriendRequest_def handle_friends_inv upsert_request_inv
      split: sum.split bool.split option.split)

lemma delete_friends_inv:
  assumes I: "friends_inv (rdb s)"
  shows "friends_inv (rdb (snd (DeleteFriend flt a b s)))"
proof -
  have "friends_inv (del_friend_row b a (del_friend_row a b (rdb s)))"
    using friends_invD [OF I] by (intro friends_invI) auto
  with assms show ?thesis
    by (simp add: DeleteFriend_def commit_def split: option.split)
qed

text \<open>
  Whatever sequence of friendship calls runs, with any calls failing anywhere (also a
  commit whose reply is lost), the friendship table stays symmetric and irreflexive, keeps
  unique keys, and holds no friendship without consent: behind each there is a request
  between the two that was accepted.
\<close>

theorem friends_inv_reachable:
  assumes "friend_step\<^sup>*\<^sup>* s t" "friends_inv (rdb s)"
  shows "friends_inv (rdb t)"
  using assms
  by (induction rule: rtranclp_induct)
     (auto elim!: friend_stepE simp: send_friends_inv handle_friends_inv delete_friends_inv)

definition rel0 :: rel where
  "rel0 = \<lparr>rdb = empty_meta, rcache = None, rpub = Some []\<rparr>"

lemma rel0_simps [simp]: "rdb rel0 = empty_meta" "rcache rel0 = None" "rpub rel0 = Some []"
  by (simp_all add: rel0_def)

lemma friends_inv_reachable_witness:
  "friends_inv (rdb (snd (HandleFriendRequest no_fault 2 20 10 True
     (snd (SendFriendRequest no_fault 1 10 20 ''hi'' rel0)))))"
proof (rule friends_inv_reachable)
  show "friend_step\<^sup>*\<^sup>* rel0 (snd (HandleFriendRequest no_fault 2 20 10 True
     (snd (SendFriendRequest no_fault 1 10 20 ''hi'' rel0))))"
    by (meson friend_step.intros rtranclp.intros)
qed simp

subsection \<open>The state machine of the documentation\<close>

text \<open>
  The request state machine as the header of \<open>friend.go\<close> describes it, on the friendship graph: the
  status of each ordered request and the set of ordered friend pairs. A result is the error code, 0
  for success. A request that answers a pending one makes both requests accepted and the two
  friends; any other request ends up pending, also after a deletion, which keeps the history.
\<close>

record graph =
  g_status :: "uid \<times> uid \<Rightarrow> int option"
  g_friends :: "(uid \<times> uid) set"

definition graph_of :: "meta_db \<Rightarrow> graph" where
  "graph_of db = \<lparr>g_status = (\<lambda>(a, b). req_status a b db), g_friends = {(a, b). friends a b db}\<rparr>"

definition spec_handle :: "uid \<Rightarrow> uid \<Rightarrow> bool \<Rightarrow> graph \<Rightarrow> int \<times> graph" where
  "spec_handle opUID fromUID accept g =
     (case g_status g (fromUID, opUID) of
        None \<Rightarrow> (CodeRequestInvalid, g)
      | Some st \<Rightarrow>
          if st \<noteq> 0 then (CodeRequestHandled, g)
          else (0, \<lparr>g_status = (g_status g)((fromUID, opUID) \<mapsto> if accept then 1 else 2),
                    g_friends = (if accept
                      then g_friends g \<union> {(fromUID, opUID), (opUID, fromUID)} else g_friends g)\<rparr>))"

definition spec_send :: "uid \<Rightarrow> uid \<Rightarrow> graph \<Rightarrow> int \<times> graph" where
  "spec_send a b g =
     (if a = b then (CodeRequestInvalid, g)
      else if (a, b) \<in> g_friends g \<or> (b, a) \<in> g_friends g then (CodeAlreadyFriends, g)
      else if g_status g (b, a) = Some 0 then
        (0, \<lparr>g_status = (g_status g)((a, b) \<mapsto> 1, (b, a) \<mapsto> 1), g_friends = g_friends g \<union> {(a, b), (b, a)}\<rparr>)
      else (0, g\<lparr>g_status := (g_status g)((a, b) \<mapsto> 0)\<rparr>))"

definition spec_delete :: "uid \<Rightarrow> uid \<Rightarrow> graph \<Rightarrow> int \<times> graph" where
  "spec_delete a b g = (0, g\<lparr>g_friends := g_friends g - {(a, b), (b, a)}\<rparr>)"

definition code_of :: "yim_error option \<times> rel \<Rightarrow> int \<times> graph" where
  "code_of r = ((case fst r of None \<Rightarrow> 0 | Some e \<Rightarrow> err_code e), graph_of (rdb (snd r)))"

lemma graph_of_simps [simp]:
  "g_status (graph_of db) (a, b) = req_status a b db"
  "(a, b) \<in> g_friends (graph_of db) \<longleftrightarrow> friends a b db"
  by (simp_all add: graph_of_def)

lemma graph_eqI:
  "(\<And>a b. g_status g (a, b) = g_status h (a, b)) \<Longrightarrow>
   (\<And>a b. (a, b) \<in> g_friends g \<longleftrightarrow> (a, b) \<in> g_friends h) \<Longrightarrow> g = (h :: graph)"
  by (cases g; cases h) (auto simp: set_eq_iff)

lemma request_row_status: "(request_row f t db = None) = (req_status f t db = None)"
  by (simp add: req_status_def)

lemma handle_refines: "code_of (HandleFriendRequest no_fault now opUID fromUID accept s) =
    spec_handle opUID fromUID accept (graph_of (rdb s))"
proof (cases "request_row fromUID opUID (rdb s)")
  case None
  then show ?thesis
    by (simp add: code_of_def HandleFriendRequest_def spec_handle_def req_status_def)
next
  case (Some r)
  then have st: "req_status fromUID opUID (rdb s) = Some (fr_status r)"
    by (simp add: req_status_def)
  with Some show ?thesis
    by (auto simp: code_of_def HandleFriendRequest_def spec_handle_def intro!: graph_eqI)
qed

text \<open>The two situations in which the handler does not do what is documented.\<close>

definition answers_pending :: "uid \<Rightarrow> uid \<Rightarrow> graph \<Rightarrow> bool" where
  "answers_pending a b g \<longleftrightarrow> a \<noteq> b \<and> (a, b) \<notin> g_friends g \<and> (b, a) \<notin> g_friends g \<and> g_status g (b, a) = Some 0"

definition repeats_accepted :: "uid \<Rightarrow> uid \<Rightarrow> graph \<Rightarrow> bool" where
  "repeats_accepted a b g \<longleftrightarrow> a \<noteq> b \<and> (a, b) \<notin> g_friends g \<and> (b, a) \<notin> g_friends g \<and>
     g_status g (b, a) \<noteq> Some 0 \<and> g_status g (a, b) \<in> Some ` (- {0, 2})"

lemma send_answers_pending:
  assumes "answers_pending a b (graph_of (rdb s))"
  shows "code_of (SendFriendRequest no_fault now a b m s) = spec_handle b a True (graph_of (rdb s))"
proof -
  have "isFriend no_fault a b (rdb s) = Inr False" using assms by (simp add: answers_pending_def isFriend_eq)
  then show ?thesis using assms by (simp add: answers_pending_def SendFriendRequest_def handle_refines)
qed

lemma send_upserts:
  assumes "a \<noteq> b" "\<not> friends a b (rdb s)" "\<not> friends b a (rdb s)" "req_status b a (rdb s) \<noteq> Some 0"
  shows "code_of (SendFriendRequest no_fault now a b m s) =
    (0, (graph_of (rdb s))\<lparr>g_status := (g_status (graph_of (rdb s)))((a, b) \<mapsto>
       (case req_status a b (rdb s) of None \<Rightarrow> 0 | Some st \<Rightarrow> if st = 2 then 0 else st))\<rparr>)"
proof -
  have "isFriend no_fault a b (rdb s) = Inr False" using assms by (simp add: isFriend_eq)
  then show ?thesis using assms by (auto simp: code_of_def SendFriendRequest_def intro!: graph_eqI split: option.split)
qed

lemma send_repeats_accepted:
  assumes "repeats_accepted a b (graph_of (rdb s))"
  shows "code_of (SendFriendRequest no_fault now a b m s) = (0, graph_of (rdb s))"
  using assms by (subst send_upserts) (auto simp: repeats_accepted_def intro!: graph_eqI)

lemma send_refines:
  assumes "\<not> answers_pending a b (graph_of (rdb s))" "\<not> repeats_accepted a b (graph_of (rdb s))"
  shows "code_of (SendFriendRequest no_fault now a b m s) = spec_send a b (graph_of (rdb s))"
proof -
  have fr: "isFriend no_fault a b (rdb s) = Inr (friends a b (rdb s) \<or> friends b a (rdb s))"
    by (rule isFriend_eq) simp
  consider "a = b" | "a \<noteq> b" "friends a b (rdb s) \<or> friends b a (rdb s)"
    | "a \<noteq> b" "\<not> friends a b (rdb s)" "\<not> friends b a (rdb s)" "req_status b a (rdb s) \<noteq> Some 0"
      "\<forall>st. req_status a b (rdb s) = Some st \<longrightarrow> st = 0 \<or> st = 2"
    using assms by (auto simp: answers_pending_def repeats_accepted_def)
  then show ?thesis
  proof cases
    case 1
    then show ?thesis by (simp add: code_of_def SendFriendRequest_def spec_send_def invalid_def)
  next
    case 2
    then show ?thesis by (simp add: code_of_def SendFriendRequest_def spec_send_def fr)
  next
    case 3
    then show ?thesis by (subst send_upserts) (auto simp: spec_send_def intro!: graph_eqI split: option.split)
  qed
qed

text \<open>
  C13: The friendship service against its documentation, without failures: answering a request and
  deleting a friend do to the database exactly what the documented state machine does to the
  friendship graph, with its code on every branch (21 not found or to oneself, 26 already handled, 20
  already friends), and so does sending a request, but for two situations. A request that answers a
  pending one does not merge the two: it is refused with 21 or 26 and changes nothing when the sender
  has no pending request of his own, and otherwise makes the two friends with only that one request
  accepted. And a request that was accepted before the friend was deleted stays accepted instead of
  being pending again.
\<close>

theorem friend_handlers_refine:
  "code_of (HandleFriendRequest no_fault now opUID fromUID accept s) =
     spec_handle opUID fromUID accept (graph_of (rdb s)) \<and>
   code_of (SendFriendRequest no_fault now a b m s) =
     (let g = graph_of (rdb s)
      in if answers_pending a b g then
           (case g_status g (a, b) of
              None \<Rightarrow> (CodeRequestInvalid, g)
            | Some st \<Rightarrow> if st = 0
                then (0, \<lparr>g_status = (g_status g)((a, b) \<mapsto> 1), g_friends = g_friends g \<union> {(a, b), (b, a)}\<rparr>)
                else (CodeRequestHandled, g))
         else if repeats_accepted a b g then (0, g)
         else spec_send a b g) \<and>
   code_of (DeleteFriend no_fault a b s) = spec_delete a b (graph_of (rdb s))"
proof -
  have "code_of (DeleteFriend no_fault a b s) = spec_delete a b (graph_of (rdb s))"
    by (auto simp: code_of_def DeleteFriend_def spec_delete_def intro!: graph_eqI)
  then show ?thesis
    by (simp add: handle_refines send_answers_pending send_repeats_accepted send_refines Let_def)
      (simp add: spec_handle_def split: option.split)
qed

text \<open>
  Mutual requests are never merged, against the header of \<open>friend.go\<close>: when the other side
  has a request pending, sending one back calls \<open>HandleFriendRequest\<close> with the two users
  exchanged, so the call looks for the caller's own request instead. Unless that one is
  pending too, the caller gets an error (21 or 26), nothing is written and the two are not
  friends.
\<close>

theorem mutual_request_not_merged:
  assumes "a \<noteq> b" "\<not> friends a b (rdb s)" "\<not> friends b a (rdb s)"
    and "req_status b a (rdb s) = Some 0" "req_status a b (rdb s) \<noteq> Some 0"
  shows "\<exists>e. SendFriendRequest no_fault now a b m s = (Some e, s) \<and>
     err_code e = (if req_status a b (rdb s) = None then CodeRequestInvalid else CodeRequestHandled)"
proof -
  have "isFriend no_fault a b (rdb s) = Inr False"
    using assms by (simp add: isFriend_eq)
  with assms
  have "SendFriendRequest no_fault now a b m s = HandleFriendRequest no_fault now b a True s"
    by (simp add: SendFriendRequest_def)
  with assms(5) show ?thesis
    by (auto simp: HandleFriendRequest_def req_status_def split: option.split)
qed

lemma mutual_request_not_merged_witness:
  "let s = snd (SendFriendRequest no_fault 1 10 20 ''hi'' rel0)
   in \<exists>e. SendFriendRequest no_fault 2 20 10 ''hello'' s = (Some e, s) \<and> err_code e = 21"
proof -
  let ?s = "snd (SendFriendRequest no_fault 1 10 20 ''hi'' rel0)"
  have s: "friendships (rdb ?s) = []" "friend_requests (rdb ?s) = [\<lparr>fr_from = 10, fr_to = 20,
      fr_message = ''hi'', fr_status = 0, fr_create = 1, fr_update = 1\<rparr>]"
    by (simp_all add: SendFriendRequest_def isFriend_def empty_meta_def request_row_def req_status_def
        upsert_request_def row_upsert_def)
  then show ?thesis
    using mutual_request_not_merged [of 20 10 ?s 2 "''hello''"]
    by (simp add: friends_def req_status_def request_row_def fr_key_def Let_def code_defs)
qed

text \<open>
  Re-adding a deleted friend does not work in the original direction, against the header of
  \<open>friend.go\<close> (adding again is a normal request): the accepted request row keeps status 1, so
  the new request reports success but stays in status 1, and whatever the recipient answers is
  refused with code 26.
\<close>

theorem readd_after_delete_stuck:
  assumes "a \<noteq> b" "\<not> friends a b (rdb s)" "\<not> friends b a (rdb s)"
    and "req_status a b (rdb s) = Some 1" "req_status b a (rdb s) \<noteq> Some 0"
  shows "fst (SendFriendRequest no_fault now a b m s) = None \<and>
    fst (HandleFriendRequest no_fault now' b a accept (snd (SendFriendRequest no_fault now a b m s)))
      = Some (bizErr CodeRequestHandled)"
proof -
  have "isFriend no_fault a b (rdb s) = Inr False"
    using assms by (simp add: isFriend_eq)
  with assms
  have S: "SendFriendRequest no_fault now a b m s = (None, Emit EvFriendRequest a 0 [b]
      (s\<lparr>rdb := upsert_request a b m now (rdb s)\<rparr>))"
    by (simp add: SendFriendRequest_def)
  have "req_status a b (upsert_request a b m now (rdb s)) = Some 1"
    using assms by simp
  then obtain r where "request_row a b (upsert_request a b m now (rdb s)) = Some r" "fr_status r = 1"
    by (auto simp: req_status_def)
  then show ?thesis by (simp add: S HandleFriendRequest_def)
qed

definition readd_state :: rel where
  "readd_state = snd (DeleteFriend no_fault 10 20
     (snd (HandleFriendRequest no_fault 2 20 10 True
       (snd (SendFriendRequest no_fault 1 10 20 ''hi'' rel0)))))"

lemma readd_after_delete_stuck_witness:
  "fst (HandleFriendRequest no_fault 4 20 10 True
     (snd (SendFriendRequest no_fault 3 10 20 ''again'' readd_state))) =
   Some (bizErr CodeRequestHandled)"
proof -
  have s: "friendships (rdb readd_state) = []" "friend_requests (rdb readd_state) =
     [\<lparr>fr_from = 10, fr_to = 20, fr_message = ''hi'', fr_status = 1, fr_create = 1, fr_update = 2\<rparr>]"
    by (simp_all add: readd_state_def SendFriendRequest_def isFriend_def empty_meta_def
        request_row_def req_status_def upsert_request_def row_upsert_def HandleFriendRequest_def DeleteFriend_def
        set_request_def row_upd_def add_friend_row_def row_ins_ignore_def del_friend_row_def
        row_del_def fr_key_def fs_key_def)
  show ?thesis
    using readd_after_delete_stuck [of 10 20 readd_state 3 "''again''" 4 True]
    by (simp add: s friends_def req_status_def request_row_def fr_key_def)
qed

subsection \<open>Pages of the friend list\<close>

lemma page_size_bounds: "0 < page_size n \<and> page_size n \<le> 100"
  by (simp add: page_size_def)

lemma friend_offset_exact:
  assumes "0 < pn" "0 < ps" "pn * ps < 2 ^ 31"
  shows "friend_offset pn ps = (pn - 1) * ps"
proof -
  have "(pn - 1) * ps \<le> pn * ps" using assms by (intro mult_right_mono) auto
  moreover have "0 \<le> (pn - 1) * ps" using assms by simp
  ultimately have r: "- (2 ^ 31) \<le> (pn - 1) * ps" "(pn - 1) * ps < 2 ^ 31"
    using assms(3) by auto
  have "friend_offset pn ps = signed_take_bit 31 ((pn - 1) * ps)"
    by (simp only: friend_offset_def wi_hom_mult sint_sbintrunc') simp
  with r show ?thesis by (simp add: signed_take_bit_int_eq_self)
qed

text \<open>
  Paging of the friend list: while page number times page size fits in 31 bits, page \<open>n\<close> is
  the \<open>n\<close>-th slice of the list sorted by time, newest first, and \<open>hasMore\<close> says exactly that
  a later page is not empty; whatever the cache holds, the call succeeds and changes no table.
\<close>

theorem list_friends_page:
  assumes "0 < pn" "0 < ps" "ps \<le> 100" "pn * ps < 2 ^ 31"
  shows "\<exists>out hm s'. ListFriends rf no_fault now u pn ps s = (Inr (out, hm), s') \<and>
    map fb_uid out = map fs_friend (take (nat ps) (drop (nat ((pn - 1) * ps)) (friend_rows u (rdb s)))) \<and>
    (hm \<longleftrightarrow> nat (pn * ps) < length (friend_rows u (rdb s))) \<and> rdb s' = rdb s"
proof -
  let ?off = "nat ((pn - 1) * ps)" and ?rows = "friend_rows u (rdb s)"
  have off: "friend_offset (page_num pn) ps = (pn - 1) * ps" and size: "page_size ps = ps"
    using assms friend_offset_exact [of pn ps] by (simp_all add: page_num_def page_size_def)
  have nonneg: "\<not> (pn - 1) * ps < 0" using assms by (simp add: not_less)
  have "(pn - 1) * ps + ps = pn * ps" by (simp add: algebra_simps)
  then have sum: "nat (pn * ps) = ?off + nat ps" using assms nonneg by (simp add: nat_add_distrib)
  define rows where "rows = take (nat (ps + 1)) (drop ?off ?rows)"
  define page where "page = (if ps < int (length rows) then take (nat ps) rows else rows)"
  have len: "length rows = min (nat ps + 1) (length ?rows - ?off)"
    using assms by (simp add: rows_def nat_add_distrib)
  have page: "page = take (nat ps) (drop ?off ?rows)"
    using assms len by (auto simp: page_def rows_def min_def nat_add_distrib split: if_splits)
  have more: "ps < int (length rows) \<longleftrightarrow> nat (pn * ps) < length ?rows"
    using assms by (auto simp: len sum min_def)
  obtain ps' s' where P: "GetProfiles rf None now (map fs_friend page) s = (Inr ps', s')"
    using GetProfiles_ok by blast
  have names: "map (fb_uid \<circ> brief_of ps') page = map fs_friend page"
    by (auto simp: brief_of_def Let_def split: option.split)
  have "ListFriends rf no_fault now u pn ps s =
      (Inr (map (brief_of ps') page, ps < int (length rows)), s')"
    unfolding ListFriends_def Let_def size off rows_def [symmetric] page_def [symmetric]
    using P nonneg by simp
  with more names GetProfiles_rel [OF P] show ?thesis by (auto simp: page)
qed

lemma list_friends_page_witness:
  "\<exists>out hm s'. ListFriends redis_down no_fault 5 10 2 1 (rel0\<lparr>rdb := empty_meta\<lparr>friendships :=
     [\<lparr>fs_uid = 10, fs_friend = 20, fs_create = 1\<rparr>, \<lparr>fs_uid = 10, fs_friend = 30, fs_create = 2\<rparr>]\<rparr>\<rparr>)
     = (Inr (out, hm), s') \<and> map fb_uid out = [20]"
  using list_friends_page [of 2 1 redis_down 5 10 "rel0\<lparr>rdb := empty_meta\<lparr>friendships :=
     [\<lparr>fs_uid = 10, fs_friend = 20, fs_create = 1\<rparr>, \<lparr>fs_uid = 10, fs_friend = 30, fs_create = 2\<rparr>]\<rparr>\<rparr>"]
  by (auto simp: friend_rows_def)

text \<open>
  The page offset is computed in 32-bit arithmetic and wraps: page 42949674 of size 100,
  whose first row would be number 4294967300, shows the friends from the fifth on, instead of
  an empty page.
\<close>

theorem list_friends_offset_wraps:
  "\<exists>out hm s'. ListFriends rf no_fault now u 42949674 100 s = (Inr (out, hm), s') \<and>
     map fb_uid out = map fs_friend (take 100 (drop 4 (friend_rows u (rdb s))))"
proof -
  have off: "friend_offset (page_num 42949674) 100 = 4" and size: "page_size 100 = 100"
    by (simp_all add: friend_offset_def page_num_def page_size_def)
  let ?rows = "take (nat (100 + 1)) (drop (nat 4) (friend_rows u (rdb s)))"
  define page where "page = (if 100 < int (length ?rows) then take (nat 100) ?rows else ?rows)"
  have page: "page = take 100 (drop 4 (friend_rows u (rdb s)))"
    by (auto simp: page_def min_def)
  obtain ps' s' where P: "GetProfiles rf None now (map fs_friend page) s = (Inr ps', s')"
    using GetProfiles_ok by blast
  have names: "map (fb_uid \<circ> brief_of ps') page = map fs_friend page"
    by (auto simp: brief_of_def Let_def split: option.split)
  have "ListFriends rf no_fault now u 42949674 100 s =
      (Inr (map (brief_of ps') page, 100 < int (length ?rows)), s')"
    unfolding ListFriends_def Let_def size off page_def [symmetric] using P by simp
  with names page show ?thesis by auto
qed

lemma distinct_friends: "pk_ok fs_key (friendships db) \<Longrightarrow> distinct (map fs_friend (friend_rows u db))"
proof -
  assume "pk_ok fs_key (friendships db)"
  then have "distinct (map fs_friend (filter (\<lambda>r. fs_uid r = u) (friendships db)))"
    by (force simp: pk_ok_def distinct_map inj_on_def fs_key_def)
  then show ?thesis
    by (simp add: friend_rows_def distinct_map set_sort)
qed

text \<open>
  \<open>ListFriends\<close> allows pages of up to 100 friends but asks \<open>GetProfiles\<close> once, which keeps only
  the first 50 ids: on a larger page every friend from the 51st on comes without nickname and
  avatar.
\<close>

theorem list_friends_names_cut:
  assumes "pk_ok fs_key (friendships (rdb s))"
    and "ListFriends rf flt now u pn sz s = (Inr (out, hm), s')"
    and "50 \<le> i" "i < length out"
  shows "fb_nickname (out ! i) = [] \<and> fb_avatar (out ! i) = []"
proof -
  let ?off = "nat (friend_offset (page_num pn) (page_size sz))"
  define rows where "rows = take (nat (page_size sz + 1)) (drop ?off (friend_rows u (rdb s)))"
  define page where "page = (if page_size sz < int (length rows) then take (nat (page_size sz)) rows
      else rows)"
  obtain n k where page: "page = take n (drop k (friend_rows u (rdb s)))"
    unfolding page_def rows_def by (cases "page_size sz < int (length rows)") (metis rows_def take_take)+
  obtain ps' where out: "out = map (brief_of ps') page"
    and P: "GetProfiles rf (flt QFriendProfiles) now (map fs_friend page) s = (Inr ps', s')"
    using assms(2) unfolding ListFriends_def Let_def rows_def [symmetric] page_def [symmetric]
    by (auto split: if_splits prod.splits sum.splits)
  have "distinct (map fs_friend page)"
    using distinct_friends [OF assms(1), of u] by (simp add: page flip: drop_map take_map)
  then have d: "map fs_friend page ! i \<notin> set (take 50 (map fs_friend page))"
    using assms(3,4) out
    by (fastforce simp: in_set_conv_nth distinct_conv_nth)
  then have "row_get up_uid ps' (fs_friend (page ! i)) = None"
    using GetProfiles_uids [OF P] assms(4) out by (auto simp: row_get_None_iff)
  with assms(4) out show ?thesis by (simp add: brief_of_def)
qed

definition many_friends :: rel where
  "many_friends = rel0\<lparr>rdb := empty_meta\<lparr>friendships :=
     map (\<lambda>k. \<lparr>fs_uid = 10, fs_friend = int k, fs_create = - int k\<rparr>) [0..<60]\<rparr>\<rparr>"

lemma list_friends_names_cut_witness:
  "\<exists>out hm s'. ListFriends redis_down no_fault 5 10 1 100 many_friends = (Inr (out, hm), s') \<and>
     fb_nickname (out ! 55) = []"
proof -
  have pk: "pk_ok fs_key (friendships (rdb many_friends))"
    by (auto simp: many_friends_def pk_ok_def fs_key_def distinct_map inj_on_def)
  have len: "length (friend_rows 10 (rdb many_friends)) = 60"
    by (simp add: friend_rows_def many_friends_def)
  obtain ps s' where P: "GetProfiles redis_down None 5 (map fs_friend (friend_rows 10 (rdb many_friends)))
      many_friends = (Inr ps, s')"
    using GetProfiles_ok by blast
  have "ListFriends redis_down no_fault 5 10 1 100 many_friends =
      (Inr (map (brief_of ps) (friend_rows 10 (rdb many_friends)), False), s')"
    using P len by (simp add: ListFriends_def page_size_def page_num_def friend_offset_def)
  with list_friends_names_cut [OF pk this, of 55] len show ?thesis by auto
qed

end
