(* ===== verification/Group.thy ===== *)
theory Group
  imports Friend
begin

text \<open>
  Group membership (\<open>internal/relation/group.go\<close>, \<open>mutateConvMembers\<close> of \<open>service.go\<close>,
  \<open>memberUIDsOf\<close> of \<open>events.go\<close>). A group lives in three places that one transaction keeps
  together: the \<open>group_members\<close> rows, the \<open>user_conversations\<close> rows and the JSON column
  \<open>conversations.member_uids\<close>. Role 1 is the owner.
\<close>

datatype group_sql = GBegin | GCount | GRole | GIsMember | GUpsert nat | GIndex nat | GLoad
  | GStore | GCommitFail | GCommitLost | GDelMember | GDelIndex | GInfo | GMembersOf
  | GList | GProfiles

type_synonym gfaults = "group_sql faults"

definition bizErrDB :: "string \<Rightarrow> yim_error" where
  "bizErrDB e = YErr CodeInternal e"

definition member_row :: "conv_id \<Rightarrow> uid \<Rightarrow> meta_db \<Rightarrow> group_member option" where
  "member_row c u db = row_get gm_key (group_members db) (c, u)"

definition memberRole :: "gfaults \<Rightarrow> conv_id \<Rightarrow> uid \<Rightarrow> meta_db \<Rightarrow> string + int" where
  "memberRole flt c u db =
     (case flt GRole of
        Some e \<Rightarrow> Inl (''member role: '' @ e)
      | None \<Rightarrow> Inr (case member_row c u db of None \<Rightarrow> 0 | Some r \<Rightarrow> gm_role r))"

definition isMember :: "gfaults \<Rightarrow> conv_id \<Rightarrow> uid \<Rightarrow> meta_db \<Rightarrow> bool" where
  "isMember flt c u db \<longleftrightarrow> flt GIsMember = None \<and> member_row c u db \<noteq> None"

definition add_members :: "uid list \<Rightarrow> uid list \<Rightarrow> uid list" where
  "add_members add members = fold (\<lambda>a ms. if a \<in> set ms then ms else ms @ [a]) add members"

definition mutateConvMembers :: "gfaults \<Rightarrow> conv_id \<Rightarrow> uid list \<Rightarrow> uid \<Rightarrow> meta_db \<Rightarrow> string + meta_db" where
  "mutateConvMembers flt c add remove db =
     (case (flt GLoad, row_get cv_id (conversations db) c) of
        (Some e, _) \<Rightarrow> Inl (''load conv '' @ int_str c @ '': '' @ e)
      | (None, None) \<Rightarrow> Inl (''load conv '' @ int_str c @ '': sql: no rows in result set'')
      | (None, Some row) \<Rightarrow>
          (case cv_members row of
             None \<Rightarrow> Inl (''parse member_uids conv '' @ int_str c @ '': invalid JSON'')
           | Some ms \<Rightarrow>
               (let ms1 = (if 0 < remove then filter (\<lambda>m. m \<noteq> remove) ms else ms);
                    ms2 = add_members add ms1
                in case flt GStore of
                     Some e \<Rightarrow> Inl (''update member_uids conv '' @ int_str c @ '': '' @ e)
                   | None \<Rightarrow> Inr (db\<lparr>conversations :=
                       row_upd (\<lambda>r. cv_id r = c) (\<lambda>r. r\<lparr>cv_members := Some ms2\<rparr>) (conversations db)\<rparr>))))"

definition upsert_member :: "conv_id \<Rightarrow> uid \<Rightarrow> int \<Rightarrow> int \<Rightarrow> meta_db \<Rightarrow> meta_db" where
  \<comment> \<open>INSERT INTO group_members ... ON DUPLICATE KEY UPDATE role=GREATEST(role,VALUES(role))\<close>
  "upsert_member c u role now db = db\<lparr>group_members :=
     row_upsert gm_key (\<lambda>r. r\<lparr>gm_role := max (gm_role r) role\<rparr>)
       \<lparr>gm_conv = c, gm_uid = u, gm_role = role, gm_join = now\<rparr> (group_members db)\<rparr>"

definition index_member :: "conv_id \<Rightarrow> uid \<Rightarrow> int \<Rightarrow> meta_db \<Rightarrow> meta_db" where
  \<comment> \<open>INSERT IGNORE INTO user_conversations\<close>
  "index_member c u now db = db\<lparr>user_conversations :=
     row_ins_ignore uc_key \<lparr>uc_uid = u, uc_conv = c, uc_create = now\<rparr> (user_conversations db)\<rparr>"

fun add_loop :: "gfaults \<Rightarrow> nat \<Rightarrow> (uid \<Rightarrow> int) \<Rightarrow> int \<Rightarrow> conv_id \<Rightarrow> uid list \<Rightarrow> meta_db \<Rightarrow>
    string + meta_db" where
  "add_loop flt i role now c [] db = Inr db"
| "add_loop flt i role now c (u # us) db =
     (case flt (GUpsert i) of
        Some e \<Rightarrow> Inl e
      | None \<Rightarrow>
          (let db1 = upsert_member c u (role u) now db
           in case flt (GIndex i) of
                Some e \<Rightarrow> Inl e
              | None \<Rightarrow> add_loop flt (Suc i) role now c us (index_member c u now db1)))"

definition member_count :: "conv_id \<Rightarrow> meta_db \<Rightarrow> nat" where
  "member_count c db = length (filter (\<lambda>r. gm_conv r = c) (group_members db))"

definition AddGroupMembers :: "rfaults \<Rightarrow> gfaults \<Rightarrow> int \<Rightarrow> conv_id \<Rightarrow> uid list \<Rightarrow> uid \<Rightarrow> rel \<Rightarrow>
    yim_error option \<times> rel" where
  "AddGroupMembers rf flt now c memberUIDs ownerUID s =
     (if flt GBegin \<noteq> None then (Some (bizErrDB (the (flt GBegin))), s)
      else if flt GCount \<noteq> None then (Some (bizErrDB (the (flt GCount))), s)
      else
        (let count = member_count c (rdb s);
             denied = (if 0 < count then
                 (case memberRole flt c ownerUID (rdb s) of
                    Inl e \<Rightarrow> Some (bizErrDB e)
                  | Inr role \<Rightarrow> if role \<noteq> 1 then Some (bizErr CodeNotOwner) else None)
               else None)
         in case denied of
              Some e \<Rightarrow> (Some e, s)
            | None \<Rightarrow>
                (case add_loop flt 0 (\<lambda>u. if count = 0 \<and> u = ownerUID then 1 else 0) now c
                        memberUIDs (rdb s) of
                   Inl e \<Rightarrow> (Some (bizErrDB e), s)
                 | Inr db1 \<Rightarrow>
                     if count = 0 \<and> ownerUID \<notin> set memberUIDs
                     then (Some (bizErr CodeNotOwner), s)
                     else
                       (case mutateConvMembers flt c memberUIDs 0 db1 of
                          Inl e \<Rightarrow> (Some (bizErrDB e), s)
                        | Inr db2 \<Rightarrow>
                            (case commit (flt GCommitFail) (flt GCommitLost) (rdb s) db2 of
                               (Some e, db') \<Rightarrow> (Some (bizErrDB e), s\<lparr>rdb := db'\<rparr>)
                             | (None, db') \<Rightarrow>
                                 (None, Emit EvGroupChanged ownerUID c (ownerUID # memberUIDs)
                                   (s\<lparr>rdb := db', rcache := InvalidateConv rf (rcache s) c\<rparr>)))))))"

definition removeMember :: "rfaults \<Rightarrow> gfaults \<Rightarrow> conv_id \<Rightarrow> uid \<Rightarrow> rel \<Rightarrow> yim_error option \<times> rel" where
  "removeMember rf flt c u s =
     (if flt GBegin \<noteq> None then (Some (bizErrDB (the (flt GBegin))), s)
      else if flt GDelMember \<noteq> None then (Some (bizErrDB (the (flt GDelMember))), s)
      else if flt GDelIndex \<noteq> None then (Some (bizErrDB (the (flt GDelIndex))), s)
      else
        (let db1 = (rdb s)\<lparr>
               group_members := row_del (\<lambda>r. gm_key r = (c, u)) (group_members (rdb s)),
               user_conversations := row_del (\<lambda>r. uc_key r = (u, c)) (user_conversations (rdb s))\<rparr>
         in case mutateConvMembers flt c [] u db1 of
              Inl e \<Rightarrow> (Some (bizErrDB e), s)
            | Inr db2 \<Rightarrow>
                (case commit (flt GCommitFail) (flt GCommitLost) (rdb s) db2 of
                   (Some e, db') \<Rightarrow> (Some (bizErrDB e), s\<lparr>rdb := db'\<rparr>)
                 | (None, db') \<Rightarrow>
                     (None, s\<lparr>rdb := db', rcache := InvalidateConv rf (rcache s) c\<rparr>))))"

definition memberUIDsOf :: "gfaults \<Rightarrow> conv_id \<Rightarrow> uid \<Rightarrow> meta_db \<Rightarrow> uid list" where
  "memberUIDsOf flt c exclude db =
     (if flt GMembersOf \<noteq> None then []
      else map gm_uid (filter (\<lambda>r. gm_conv r = c \<and> gm_uid r \<noteq> exclude) (group_members db)) @
        (if 0 < exclude then [exclude] else []))"

definition RemoveGroupMember :: "rfaults \<Rightarrow> gfaults \<Rightarrow> uid \<Rightarrow> conv_id \<Rightarrow> uid \<Rightarrow> rel \<Rightarrow>
    yim_error option \<times> rel" where
  "RemoveGroupMember rf flt opUID c targetUID s =
     (if opUID = targetUID then (Some (bizErr CodeNotOwner), s)
      else case memberRole flt c opUID (rdb s) of
          Inl e \<Rightarrow> (Some (bizErrDB e), s)
        | Inr role \<Rightarrow>
            if role \<noteq> 1 then (Some (bizErr CodeNotOwner), s)
            else (case removeMember rf flt c targetUID s of
                (Some e, s') \<Rightarrow> (Some e, s')
              | (None, s') \<Rightarrow>
                  (None, Emit EvGroupChanged opUID c (memberUIDsOf flt c targetUID (rdb s')) s')))"

definition QuitGroup :: "rfaults \<Rightarrow> gfaults \<Rightarrow> uid \<Rightarrow> conv_id \<Rightarrow> rel \<Rightarrow> yim_error option \<times> rel" where
  "QuitGroup rf flt u c s =
     (case memberRole flt c u (rdb s) of
        Inl e \<Rightarrow> (Some (bizErrDB e), s)
      | Inr role \<Rightarrow>
          if role = 1 then (Some (bizErr CodeNotOwner), s)
          else if role = 0 \<and> \<not> isMember flt c u (rdb s) then (Some (bizErr CodeNotMember), s)
          else (case removeMember rf flt c u s of
              (Some e, s') \<Rightarrow> (Some e, s')
            | (None, s') \<Rightarrow> (None, Emit EvGroupChanged u c (memberUIDsOf flt c u (rdb s')) s')))"

definition group_name :: "string \<Rightarrow> string" where
  "group_name n = (let t = trim_space n in if 32 < rune_count t then take_runes 32 t else t)"

definition UpdateGroupInfo :: "rfaults \<Rightarrow> gfaults \<Rightarrow> uid \<Rightarrow> conv_id \<Rightarrow> string \<Rightarrow> string \<Rightarrow> rel \<Rightarrow>
    yim_error option \<times> rel" where
  \<comment> \<open>\<open>RowsAffected\<close> of the driver counts changed rows (\<open>clientFoundRows\<close> is off in the DSN)\<close>
  "UpdateGroupInfo rf flt opUID c name0 avatar s =
     (case memberRole flt c opUID (rdb s) of
        Inl e \<Rightarrow> (Some (bizErrDB e), s)
      | Inr role \<Rightarrow>
          if role \<noteq> 1 then (Some (bizErr CodeNotOwner), s)
          else
            (let name = group_name name0;
                 upd = (\<lambda>r. r\<lparr>cv_name := (if name = [] then cv_name r else name),
                              cv_avatar := (if avatar = [] then cv_avatar r else avatar)\<rparr>);
                 hit = (\<lambda>r. cv_id r = c);
                 affected = length (filter (\<lambda>r. hit r \<and> upd r \<noteq> r) (conversations (rdb s)))
             in if name = [] \<and> avatar = [] then (None, s)
                else if flt GInfo \<noteq> None then (Some (bizErrDB (the (flt GInfo))), s)
                else if affected = 0 then (Some (bizErr CodeNotMember), s)
                else
                  (let s' = s\<lparr>rdb := (rdb s)\<lparr>conversations := row_upd hit upd (conversations (rdb s))\<rparr>,
                              rcache := InvalidateConv rf (rcache s) c\<rparr>
                   in (None, Emit EvGroupChanged opUID c (memberUIDsOf flt c 0 (rdb s')) s'))))"

record GroupMember =
  gp_uid :: uid
  gp_role :: int
  gp_nickname :: string
  gp_avatar :: string
  gp_join :: int

definition group_entry :: "UserProfile list \<Rightarrow> group_member \<Rightarrow> GroupMember" where
  "group_entry ps r =
     (case row_get up_uid ps (gm_uid r) of
        None \<Rightarrow> \<lparr>gp_uid = gm_uid r, gp_role = gm_role r, gp_nickname = [], gp_avatar = [],
                 gp_join = gm_join r\<rparr>
      | Some p \<Rightarrow> \<lparr>gp_uid = gm_uid r, gp_role = gm_role r, gp_nickname = up_nickname p,
                   gp_avatar = up_avatar p, gp_join = gm_join r\<rparr>)"

definition ListGroupMembers :: "rfaults \<Rightarrow> gfaults \<Rightarrow> int \<Rightarrow> conv_id \<Rightarrow> rel \<Rightarrow>
    (yim_error + GroupMember list) \<times> rel" where
  "ListGroupMembers rf flt now c s =
     (case flt GList of
        Some e \<Rightarrow> (Inl (bizErrDB e), s)
      | None \<Rightarrow>
          (let raws = sort_key (\<lambda>r. - gm_role r) (sort_key gm_join
                 (filter (\<lambda>r. gm_conv r = c) (group_members (rdb s))))
           in case GetProfiles rf (flt GProfiles) now (map gm_uid raws) s of
                (Inl e, s') \<Rightarrow> (Inl e, s')
              | (Inr ps, s') \<Rightarrow> (Inr (map (group_entry ps) raws), s')))"

subsection \<open>What the transactions do to the three tables\<close>

definition role_of :: "conv_id \<Rightarrow> uid \<Rightarrow> meta_db \<Rightarrow> int option" where
  "role_of c u db = map_option gm_role (member_row c u db)"

definition in_index :: "conv_id \<Rightarrow> uid \<Rightarrow> meta_db \<Rightarrow> bool" where
  "in_index c u db \<longleftrightarrow> row_get uc_key (user_conversations db) (u, c) \<noteq> None"

definition json_members :: "conv_id \<Rightarrow> meta_db \<Rightarrow> uid list option" where
  "json_members c db = Option.bind (row_get cv_id (conversations db) c) cv_members"

definition agree :: "conv_id \<Rightarrow> meta_db \<Rightarrow> bool" where
  "agree c db \<longleftrightarrow> (\<exists>ms. json_members c db = Some ms \<and>
     (\<forall>u. (role_of c u db \<noteq> None \<longleftrightarrow> u \<in> set ms) \<and> (in_index c u db \<longleftrightarrow> u \<in> set ms)))"

definition sole_owner :: "conv_id \<Rightarrow> uid \<Rightarrow> meta_db \<Rightarrow> bool" where
  "sole_owner c ow db \<longleftrightarrow> (\<forall>u. role_of c u db = Some 1 \<longleftrightarrow> u = ow)"

lemma upsert_member_simps [simp]:
  "conversations (upsert_member c u role now db) = conversations db"
  "in_index x v (upsert_member c u role now db) = in_index x v db"
  "role_of x v (upsert_member c u role now db) =
     (if (x, v) = (c, u) then Some (case role_of c u db of None \<Rightarrow> role | Some r \<Rightarrow> max r role)
      else role_of x v db)"
  by (auto simp: upsert_member_def in_index_def role_of_def member_row_def row_get_upsert gm_key_def
      split: option.split)

lemma index_member_simps [simp]:
  "conversations (index_member c u now db) = conversations db"
  "role_of x v (index_member c u now db) = role_of x v db"
  "in_index x v (index_member c u now db) \<longleftrightarrow> (x, v) = (c, u) \<or> in_index x v db"
  by (auto simp: index_member_def in_index_def role_of_def member_row_def table_simps uc_key_def
      split: option.split)

lemma add_loop_effect:
  assumes "add_loop flt i role now c us db = Inr db'"
  shows "conversations db' = conversations db"
    and "role_of x v db' = (if x = c \<and> v \<in> set us
       then Some (case role_of c v db of None \<Rightarrow> role v | Some r \<Rightarrow> max r (role v))
       else role_of x v db)"
    and "in_index x v db' \<longleftrightarrow> x = c \<and> v \<in> set us \<or> in_index x v db"
proof -
  have "conversations db' = conversations db \<and>
    role_of x v db' = (if x = c \<and> v \<in> set us
       then Some (case role_of c v db of None \<Rightarrow> role v | Some r \<Rightarrow> max r (role v))
       else role_of x v db) \<and>
    (in_index x v db' \<longleftrightarrow> x = c \<and> v \<in> set us \<or> in_index x v db)"
    using assms
  proof (induction us arbitrary: i db)
    case (Cons u us)
    then have "add_loop flt (Suc i) role now c us (index_member c u now (upsert_member c u (role u) now db))
        = Inr db'"
      by (auto simp: Let_def split: option.splits)
    from Cons.IH [OF this] show ?case
      by (auto split: option.split)
  qed simp
  then show "conversations db' = conversations db"
    and "role_of x v db' = (if x = c \<and> v \<in> set us
       then Some (case role_of c v db of None \<Rightarrow> role v | Some r \<Rightarrow> max r (role v))
       else role_of x v db)"
    and "in_index x v db' \<longleftrightarrow> x = c \<and> v \<in> set us \<or> in_index x v db"
    by blast+
qed

lemma add_loop_ok: "\<exists>db'. add_loop no_fault i role now c us db = Inr db'"
  by (induction us arbitrary: i db) (simp_all add: Let_def)

lemma set_add_members [simp]: "set (add_members add ms) = set add \<union> set ms"
  unfolding add_members_def by (induction add arbitrary: ms) auto

lemma row_get_upd_conv: "row_get cv_id (row_upd (\<lambda>r. cv_id r = c) (\<lambda>r. r\<lparr>cv_members := m\<rparr>) t) x =
    (if x = c then map_option (\<lambda>r. r\<lparr>cv_members := m\<rparr>) (row_get cv_id t x) else row_get cv_id t x)"
  by (rule row_get_upd_key) simp

lemma mutateConvMembers_effect:
  assumes "mutateConvMembers flt c add remove db = Inr db'"
  shows "role_of x u db' = role_of x u db" and "in_index x u db' = in_index x u db"
    and "x \<noteq> c \<Longrightarrow> json_members x db' = json_members x db"
    and "\<exists>ms ms'. json_members c db = Some ms \<and> json_members c db' = Some ms' \<and>
      set ms' = set add \<union> (if 0 < remove then set ms - {remove} else set ms)"
  using assms
  by (auto simp: mutateConvMembers_def Let_def role_of_def member_row_def in_index_def json_members_def
      row_get_upd_conv split: option.splits if_splits)

lemma mutateConvMembers_ok:
  assumes "json_members c db = Some ms"
  shows "\<exists>db'. mutateConvMembers no_fault c add remove db = Inr db'"
  using assms by (auto simp: mutateConvMembers_def json_members_def Let_def Option.bind_eq_Some_conv)

definition del_member :: "conv_id \<Rightarrow> uid \<Rightarrow> meta_db \<Rightarrow> meta_db" where
  "del_member c u db = db\<lparr>
     group_members := row_del (\<lambda>r. gm_key r = (c, u)) (group_members db),
     user_conversations := row_del (\<lambda>r. uc_key r = (u, c)) (user_conversations db)\<rparr>"

lemma del_member_simps [simp]:
  "conversations (del_member c u db) = conversations db"
  "role_of x v (del_member c u db) = (if (x, v) = (c, u) then None else role_of x v db)"
  "in_index x v (del_member c u db) \<longleftrightarrow> (x, v) \<noteq> (c, u) \<and> in_index x v db"
  by (auto simp: del_member_def role_of_def member_row_def in_index_def table_simps)

lemma json_members_cong: "conversations db = conversations db' \<Longrightarrow> json_members c db = json_members c db'"
  by (simp add: json_members_def)

lemma member_count_0: "member_count c db = 0 \<longleftrightarrow> (\<forall>u. role_of c u db = None)"
proof -
  have "(\<forall>u. role_of c u db = None) \<longleftrightarrow> (\<forall>r \<in> set (group_members db). gm_conv r \<noteq> c)"
    by (auto simp: role_of_def member_row_def row_get_None_iff gm_key_def)
  then show ?thesis by (auto simp: member_count_def filter_empty_conv)
qed

lemma memberRole_eq: "memberRole flt c u db = Inr r \<Longrightarrow>
    r = (case role_of c u db of None \<Rightarrow> 0 | Some x \<Rightarrow> x)"
  by (auto simp: memberRole_def role_of_def split: option.splits)

text \<open>Every call of the group service leaves the database or commits one of two transactions.\<close>

definition add_tx :: "conv_id \<Rightarrow> uid list \<Rightarrow> uid \<Rightarrow> meta_db \<Rightarrow> meta_db \<Rightarrow> bool" where
  "add_tx c us ow db db' \<longleftrightarrow> (\<exists>flt now db1.
     (member_count c db = 0 \<or> role_of c ow db = Some 1) \<and>
     (member_count c db = 0 \<longrightarrow> ow \<in> set us) \<and>
     add_loop flt 0 (\<lambda>u. if member_count c db = 0 \<and> u = ow then 1 else 0) now c us db = Inr db1 \<and>
     mutateConvMembers flt c us 0 db1 = Inr db')"

definition del_tx :: "conv_id \<Rightarrow> uid \<Rightarrow> meta_db \<Rightarrow> meta_db \<Rightarrow> bool" where
  "del_tx c u db db' \<longleftrightarrow> (\<exists>flt. mutateConvMembers flt c [] u (del_member c u db) = Inr db')"

lemma AddGroupMembers_tx:
  "rdb (snd (AddGroupMembers rf flt now c us ow s)) = rdb s \<or>
   add_tx c us ow (rdb s) (rdb (snd (AddGroupMembers rf flt now c us ow s)))"
proof (rule disjCI)
  assume "\<not> add_tx c us ow (rdb s) (rdb (snd (AddGroupMembers rf flt now c us ow s)))"
  then show "rdb (snd (AddGroupMembers rf flt now c us ow s)) = rdb s"
    by (auto simp: AddGroupMembers_def add_tx_def Let_def commit_def
        dest!: memberRole_eq split: if_splits option.splits sum.splits)
qed

lemma removeMember_tx:
  "rdb (snd (removeMember rf flt c u s)) = rdb s \<or>
   del_tx c u (rdb s) (rdb (snd (removeMember rf flt c u s)))"
proof (rule disjCI)
  assume "\<not> del_tx c u (rdb s) (rdb (snd (removeMember rf flt c u s)))"
  then show "rdb (snd (removeMember rf flt c u s)) = rdb s"
    by (auto simp: removeMember_def del_tx_def Let_def commit_def del_member_def
        split: if_splits option.splits sum.splits)
qed

lemma add_tx_effect:
  assumes "add_tx c us ow db db'"
  shows "role_of x v db' = (if x = c \<and> v \<in> set us
       then Some (case role_of c v db of None \<Rightarrow> if (\<forall>u. role_of c u db = None) \<and> v = ow then 1 else 0
                  | Some r \<Rightarrow> max r 0)
       else role_of x v db)"
    and "in_index x v db' \<longleftrightarrow> x = c \<and> v \<in> set us \<or> in_index x v db"
    and "x \<noteq> c \<Longrightarrow> json_members x db' = json_members x db"
    and "\<exists>ms ms'. json_members c db = Some ms \<and> json_members c db' = Some ms' \<and>
      set ms' = set us \<union> set ms"
proof -
  obtain flt now db1 where
    loop: "add_loop flt 0 (\<lambda>u. if member_count c db = 0 \<and> u = ow then 1 else 0) now c us db = Inr db1"
    and mut: "mutateConvMembers flt c us 0 db1 = Inr db'"
    using assms unfolding add_tx_def by blast
  note L = add_loop_effect [OF loop] and M = mutateConvMembers_effect [OF mut]
  have J: "json_members y db1 = json_members y db" for y
    by (rule json_members_cong) (rule L(1))
  show "role_of x v db' = (if x = c \<and> v \<in> set us
       then Some (case role_of c v db of None \<Rightarrow> if (\<forall>u. role_of c u db = None) \<and> v = ow then 1 else 0
                  | Some r \<Rightarrow> max r 0)
       else role_of x v db)"
    by (auto simp: M(1) L(2) member_count_0 split: option.split)
  show "in_index x v db' \<longleftrightarrow> x = c \<and> v \<in> set us \<or> in_index x v db"
    by (simp add: M(2) L(3))
  show "x \<noteq> c \<Longrightarrow> json_members x db' = json_members x db"
    by (simp add: M(3) J)
  show "\<exists>ms ms'. json_members c db = Some ms \<and> json_members c db' = Some ms' \<and>
      set ms' = set us \<union> set ms"
    using M(4) by (simp add: J)
qed

lemma del_tx_effect:
  assumes "del_tx c u db db'"
  shows "role_of x v db' = (if (x, v) = (c, u) then None else role_of x v db)"
    and "in_index x v db' \<longleftrightarrow> (x, v) \<noteq> (c, u) \<and> in_index x v db"
    and "x \<noteq> c \<Longrightarrow> json_members x db' = json_members x db"
    and "\<exists>ms ms'. json_members c db = Some ms \<and> json_members c db' = Some ms' \<and>
      set ms' = (if 0 < u then set ms - {u} else set ms)"
proof -
  obtain flt where mut: "mutateConvMembers flt c [] u (del_member c u db) = Inr db'"
    using assms unfolding del_tx_def by blast
  note M = mutateConvMembers_effect [OF mut]
  have J: "json_members y (del_member c u db) = json_members y db" for y
    by (rule json_members_cong) simp
  show "role_of x v db' = (if (x, v) = (c, u) then None else role_of x v db)"
    by (simp add: M(1))
  show "in_index x v db' \<longleftrightarrow> (x, v) \<noteq> (c, u) \<and> in_index x v db"
    by (simp add: M(2))
  show "x \<noteq> c \<Longrightarrow> json_members x db' = json_members x db"
    by (simp add: M(3) J)
  show "\<exists>ms ms'. json_members c db = Some ms \<and> json_members c db' = Some ms' \<and>
      set ms' = (if 0 < u then set ms - {u} else set ms)"
    using M(4) by (simp add: J)
qed

inductive group_step :: "rel \<Rightarrow> rel \<Rightarrow> bool" where
  add: "group_step s (snd (AddGroupMembers rf flt now c us ow s))"
| remove: "0 < target \<Longrightarrow> group_step s (snd (RemoveGroupMember rf flt opUID c target s))"
| quit: "0 < u \<Longrightarrow> group_step s (snd (QuitGroup rf flt u c s))"
| info: "group_step s (snd (UpdateGroupInfo rf flt opUID c name avatar s))"

inductive_cases group_stepE: "group_step s s'"

lemma RemoveGroupMember_tx:
  "rdb (snd (RemoveGroupMember rf flt opUID c target s)) = rdb s \<or>
   opUID \<noteq> target \<and> role_of c opUID (rdb s) = Some 1 \<and>
   del_tx c target (rdb s) (rdb (snd (RemoveGroupMember rf flt opUID c target s)))"
proof -
  have "rdb (snd (RemoveGroupMember rf flt opUID c target s)) = rdb s \<or>
    opUID \<noteq> target \<and> role_of c opUID (rdb s) = Some 1 \<and>
    rdb (snd (RemoveGroupMember rf flt opUID c target s)) = rdb (snd (removeMember rf flt c target s))"
    by (auto simp: RemoveGroupMember_def dest!: memberRole_eq split: sum.split option.splits prod.split)
  with removeMember_tx [of rf flt c target s] show ?thesis by auto
qed

lemma QuitGroup_tx:
  "rdb (snd (QuitGroup rf flt u c s)) = rdb s \<or>
   role_of c u (rdb s) \<noteq> Some 1 \<and> role_of c u (rdb s) \<noteq> None \<and>
   del_tx c u (rdb s) (rdb (snd (QuitGroup rf flt u c s)))"
proof -
  have mem: "isMember flt c u db \<Longrightarrow> role_of c u db \<noteq> None" for db
    by (auto simp: isMember_def role_of_def)
  have "rdb (snd (QuitGroup rf flt u c s)) = rdb s \<or>
    role_of c u (rdb s) \<noteq> Some 1 \<and> role_of c u (rdb s) \<noteq> None \<and>
    rdb (snd (QuitGroup rf flt u c s)) = rdb (snd (removeMember rf flt c u s))"
    using mem [of "rdb s"]
    by (cases "role_of c u (rdb s)")
       (auto simp: QuitGroup_def dest!: memberRole_eq split: sum.split option.splits prod.split)
  with removeMember_tx [of rf flt c u s] show ?thesis by auto
qed

lemma UpdateGroupInfo_effect:
  defines "db' \<equiv> \<lambda>rf flt opUID c name avatar s. rdb (snd (UpdateGroupInfo rf flt opUID c name avatar s))"
  shows "role_of x u (db' rf flt opUID c name avatar s) = role_of x u (rdb s)"
    and "in_index x u (db' rf flt opUID c name avatar s) = in_index x u (rdb s)"
    and "json_members x (db' rf flt opUID c name avatar s) = json_members x (rdb s)"
proof -
  have upd: "Option.bind (row_get cv_id (row_upd (\<lambda>r. cv_id r = c) (\<lambda>r. r\<lparr>cv_name := f r, cv_avatar := g r\<rparr>) t) x)
      cv_members = Option.bind (row_get cv_id t x) cv_members" for f g t
    by (induction t) (auto simp: row_upd_def)
  show "role_of x u (db' rf flt opUID c name avatar s) = role_of x u (rdb s)"
    and "in_index x u (db' rf flt opUID c name avatar s) = in_index x u (rdb s)"
    and "json_members x (db' rf flt opUID c name avatar s) = json_members x (rdb s)"
    by (auto simp: db'_def UpdateGroupInfo_def Let_def role_of_def member_row_def in_index_def
        json_members_def upd Emit_def split: sum.split)
qed

lemma group_step_agree:
  assumes "group_step s t" "agree c (rdb s)"
  shows "agree c (rdb t)"
  using assms(1)
proof cases
  case (add rf flt now c' us ow)
  have "add_tx c' us ow (rdb s) (rdb t) \<Longrightarrow> agree c (rdb t)"
    using assms(2) add_tx_effect [of c' us ow "rdb s" "rdb t"]
    by (cases "c' = c") (fastforce simp: agree_def)+
  with assms(2) AddGroupMembers_tx [of rf flt now c' us ow s] add show ?thesis by auto
next
  case (remove target rf flt opUID c')
  have "del_tx c' target (rdb s) (rdb t) \<Longrightarrow> agree c (rdb t)"
    using assms(2) del_tx_effect [of c' target "rdb s" "rdb t"] remove(2)
    by (cases "c' = c") (fastforce simp: agree_def)+
  with assms(2) RemoveGroupMember_tx [of rf flt opUID c' target s] remove show ?thesis by auto
next
  case (quit u rf flt c')
  have "del_tx c' u (rdb s) (rdb t) \<Longrightarrow> agree c (rdb t)"
    using assms(2) del_tx_effect [of c' u "rdb s" "rdb t"] quit(2)
    by (cases "c' = c") (fastforce simp: agree_def)+
  with assms(2) QuitGroup_tx [of rf flt u c' s] quit show ?thesis by auto
next
  case (info rf flt opUID c' name avatar)
  with assms(2) show ?thesis by (simp add: agree_def UpdateGroupInfo_effect)
qed

lemma group_step_owner:
  assumes "group_step s t" "sole_owner c ow (rdb s)"
  shows "sole_owner c ow (rdb t)"
  using assms(1)
proof cases
  case (add rf flt now c' us ow')
  have own: "role_of c ow (rdb s) = Some 1" "\<And>v. role_of c v (rdb s) = Some 1 \<Longrightarrow> v = ow"
    using assms(2) by (simp_all add: sole_owner_def)
  have "sole_owner c ow (rdb t)" if tx: "add_tx c' us ow' (rdb s) (rdb t)"
    unfolding sole_owner_def
  proof
    fix v
    show "role_of c v (rdb t) = Some 1 \<longleftrightarrow> v = ow"
    proof (cases "c = c'")
      case True
      have some: "\<not> (\<forall>u. role_of c' u (rdb s) = None)"
        using own(1) True by (metis option.distinct(1))
      have eff: "role_of c v (rdb t) = (if v \<in> set us then Some (case role_of c v (rdb s) of
          None \<Rightarrow> 0 | Some r \<Rightarrow> max r 0) else role_of c v (rdb s))"
        using add_tx_effect(1) [OF tx, of c v] True
        unfolding Eq_FalseI [OF some] by (simp split: option.split)
      show ?thesis
      proof (cases "v = ow")
        case True
        with own(1) eff show ?thesis by simp
      next
        case False
        with own(2) have "role_of c v (rdb s) \<noteq> Some 1" by blast
        with eff False show ?thesis by (cases "role_of c v (rdb s)") (simp_all add: max_def)
      qed
    next
      case False
      then show ?thesis
        using assms(2) add_tx_effect(1) [OF tx, of c v] by (simp add: sole_owner_def)
    qed
  qed
  with assms(2) AddGroupMembers_tx [of rf flt now c' us ow' s] add show ?thesis by auto
next
  case (remove target rf flt opUID c')
  have "del_tx c' target (rdb s) (rdb t) \<Longrightarrow> opUID \<noteq> target \<Longrightarrow> role_of c' opUID (rdb s) = Some 1 \<Longrightarrow>
      sole_owner c ow (rdb t)"
    using assms(2) del_tx_effect(1) [of c' target "rdb s" "rdb t"] by (auto simp: sole_owner_def)
  with assms(2) RemoveGroupMember_tx [of rf flt opUID c' target s] remove show ?thesis by auto
next
  case (quit u rf flt c')
  have "del_tx c' u (rdb s) (rdb t) \<Longrightarrow> role_of c' u (rdb s) \<noteq> Some 1 \<Longrightarrow> sole_owner c ow (rdb t)"
    using assms(2) del_tx_effect(1) [of c' u "rdb s" "rdb t"] by (auto simp: sole_owner_def)
  with assms(2) QuitGroup_tx [of rf flt u c' s] quit show ?thesis by auto
next
  case (info rf flt opUID c' name avatar)
  with assms(2) show ?thesis by (simp add: sole_owner_def UpdateGroupInfo_effect)
qed

definition group_db :: meta_db where
  \<comment> \<open>a database with one fresh conversation 7 of users 1 and 2\<close>
  "group_db = empty_meta\<lparr>
     conversations := [\<lparr>cv_id = 7, cv_type = 2, cv_members = Some [1, 2], cv_last_seq = 0,
       cv_create = 0, cv_name = [], cv_avatar = []\<rparr>],
     user_conversations := [\<lparr>uc_uid = 1, uc_conv = 7, uc_create = 0\<rparr>,
       \<lparr>uc_uid = 2, uc_conv = 7, uc_create = 0\<rparr>]\<rparr>"

definition group_rel :: rel where
  "group_rel = \<lparr>rdb = group_db, rcache = None, rpub = Some []\<rparr>"

definition group_seeded :: rel where
  "group_seeded = group_rel\<lparr>rdb := group_db\<lparr>group_members :=
     [\<lparr>gm_conv = 7, gm_uid = 1, gm_role = 1, gm_join = 5\<rparr>,
      \<lparr>gm_conv = 7, gm_uid = 2, gm_role = 0, gm_join = 5\<rparr>]\<rparr>\<rparr>"

lemma group_seeded_facts:
  "agree 7 (rdb group_seeded)" "sole_owner 7 1 (rdb group_seeded)"
  by (auto simp: agree_def sole_owner_def group_seeded_def group_db_def json_members_def
      in_index_def role_of_def member_row_def gm_key_def uc_key_def empty_meta_def)

text \<open>
  With one call at a time the three representations of a group never drift apart: once member rows, the users'
  conversation index and the JSON member list of a conversation agree, they agree after any
  sequence of additions, removals, departures and renamings, whichever statements, commits
  and cache commands fail on the way.
\<close>

theorem group_tables_agree:
  assumes "group_step\<^sup>*\<^sup>* s t" "agree c (rdb s)"
  shows "agree c (rdb t)"
  using assms by (induction rule: rtranclp_induct) (auto intro: group_step_agree)

lemma group_tables_agree_witness:
  "agree 7 (rdb (snd (QuitGroup redis_up no_fault 2 7
     (snd (AddGroupMembers redis_up no_fault 9 7 [3] 1 group_seeded)))))"
proof (rule group_tables_agree [OF _ group_seeded_facts(1)])
  show "group_step\<^sup>*\<^sup>* group_seeded (snd (QuitGroup redis_up no_fault 2 7
     (snd (AddGroupMembers redis_up no_fault 9 7 [3] 1 group_seeded))))"
    by (meson group_step.quit group_step.add rtranclp.intros zero_less_numeral)
qed

text \<open>
  Ownership is stable: a group with exactly one owner keeps exactly that owner through
  every call of the service, made by anyone and failing anywhere; nobody is promoted, and the
  owner can neither leave nor be removed.
\<close>

theorem group_owner_stable:
  assumes "group_step\<^sup>*\<^sup>* s t" "sole_owner c ow (rdb s)"
  shows "sole_owner c ow (rdb t)"
  using assms by (induction rule: rtranclp_induct) (auto intro: group_step_owner)

lemma group_owner_stable_witness:
  "sole_owner 7 1 (rdb (snd (RemoveGroupMember redis_up no_fault 1 7 2 group_seeded)))"
proof (rule group_owner_stable [OF _ group_seeded_facts(2)])
  show "group_step\<^sup>*\<^sup>* group_seeded (snd (RemoveGroupMember redis_up no_fault 1 7 2 group_seeded))"
    by (meson group_step.remove rtranclp.intros zero_less_numeral)
qed

lemma AddGroupMembers_seed_ok:
  assumes "\<And>u. role_of c u (rdb s) = None" "json_members c (rdb s) = Some ms" "ow \<in> set us"
  shows "fst (AddGroupMembers rf no_fault now c us ow s) = None \<and>
    add_tx c us ow (rdb s) (rdb (snd (AddGroupMembers rf no_fault now c us ow s)))"
proof -
  have cnt: "member_count c (rdb s) = 0" using assms(1) by (simp add: member_count_0)
  let ?role = "\<lambda>u. if member_count c (rdb s) = 0 \<and> u = ow then 1 else 0"
  obtain db1 where loop: "add_loop no_fault 0 ?role now c us (rdb s) = Inr db1"
    using add_loop_ok by blast
  have "json_members c db1 = Some ms"
    using json_members_cong [OF add_loop_effect(1) [OF loop]] assms(2) by simp
  then obtain db2 where mut: "mutateConvMembers no_fault c us 0 db1 = Inr db2"
    using mutateConvMembers_ok by blast
  have "add_tx c us ow (rdb s) db2"
    unfolding add_tx_def using cnt assms(3) loop mut by blast
  moreover have "AddGroupMembers rf no_fault now c us ow s = (None, Emit EvGroupChanged ow c (ow # us)
      (s\<lparr>rdb := db2, rcache := InvalidateConv rf (rcache s) c\<rparr>))"
    using cnt loop mut assms(3) by (simp add: AddGroupMembers_def)
  ultimately show ?thesis by simp
qed

text \<open>
  Anyone can take over a conversation without member rows, single chats included:
  \<open>AddGroupMembers\<close> checks neither the conversation's type nor that the caller belongs to it, so
  a stranger who names himself among the new members succeeds, becomes its only owner and is
  added to the members and to the index.
\<close>

theorem stranger_takes_over_conversation:
  assumes "\<And>u. role_of c u (rdb s) = None" "json_members c (rdb s) = Some ms" "u \<notin> set ms"
  shows "fst (AddGroupMembers rf no_fault now c [u] u s) = None \<and>
    sole_owner c u (rdb (snd (AddGroupMembers rf no_fault now c [u] u s))) \<and>
    in_index c u (rdb (snd (AddGroupMembers rf no_fault now c [u] u s))) \<and>
    (\<exists>ms'. json_members c (rdb (snd (AddGroupMembers rf no_fault now c [u] u s))) = Some ms' \<and>
       set ms' = insert u (set ms))"
proof -
  note seed = AddGroupMembers_seed_ok [of c s ms u "[u]" rf now, OF assms(1,2)]
  note eff = add_tx_effect [OF seed [simplified, THEN conjunct2]]
  show ?thesis
    using seed eff(4) by (auto simp: sole_owner_def eff(1,2) assms(1,2))
qed

lemma stranger_takes_over_conversation_witness:
  "fst (AddGroupMembers redis_up no_fault 9 7 [66] 66 group_rel) = None \<and>
   sole_owner 7 66 (rdb (snd (AddGroupMembers redis_up no_fault 9 7 [66] 66 group_rel)))"
  using stranger_takes_over_conversation [of 7 group_rel "[1, 2]" 66 redis_up 9]
  by (simp add: role_of_def member_row_def json_members_def group_rel_def group_db_def empty_meta_def)

text \<open>
  Seeding a fresh group works: when the index and the JSON list of a new conversation hold
  the same members, none of them seeded, a creator among the named members gets success, is
  the sole owner, and the three representations agree on the union of members.
\<close>

theorem seed_establishes_group:
  assumes "\<And>u. role_of c u (rdb s) = None" "json_members c (rdb s) = Some ms"
    and "\<And>u. in_index c u (rdb s) \<longleftrightarrow> u \<in> set ms" "ow \<in> set us" "set ms \<subseteq> set us"
  shows "fst (AddGroupMembers rf no_fault now c us ow s) = None \<and>
    sole_owner c ow (rdb (snd (AddGroupMembers rf no_fault now c us ow s))) \<and>
    agree c (rdb (snd (AddGroupMembers rf no_fault now c us ow s)))"
proof -
  note seed = AddGroupMembers_seed_ok [of c s ms ow us rf now, OF assms(1,2,4)]
  note eff = add_tx_effect [OF seed [THEN conjunct2]]
  have "sole_owner c ow (rdb (snd (AddGroupMembers rf no_fault now c us ow s)))"
    using assms(4) by (auto simp: sole_owner_def eff(1) assms(1))
  moreover have "agree c (rdb (snd (AddGroupMembers rf no_fault now c us ow s)))"
    using eff(4) assms(2,3,5) by (auto simp: agree_def eff(1,2) assms(1))
  ultimately show ?thesis using seed by simp
qed

lemma seed_establishes_group_witness:
  "agree 7 (rdb (snd (AddGroupMembers redis_up no_fault 9 7 [1, 2] 1 group_rel)))"
  using seed_establishes_group [of 7 group_rel "[1, 2]" 1 "[1, 2]" redis_up 9]
  by (simp add: role_of_def member_row_def json_members_def group_rel_def group_db_def empty_meta_def
      in_index_def uc_key_def)

text \<open>
  Saving a group's name unchanged is refused: the driver counts changed rows, so an owner
  who submits the current name gets code 25, not a member, as if the group did not exist.
\<close>

theorem unchanged_group_name_refused:
  assumes "role_of c op (rdb s) = Some 1" "row_get cv_id (conversations (rdb s)) c = Some row"
    and "pk_ok cv_id (conversations (rdb s))" "group_name n = cv_name row" "n \<noteq> []" "cv_name row \<noteq> []"
  shows "UpdateGroupInfo rf no_fault op c n [] s = (Some (bizErr CodeNotMember), s)"
proof -
  have role: "memberRole no_fault c op (rdb s) = Inr 1"
    using assms(1) by (auto simp: memberRole_def role_of_def)
  have one: "r = row" if "r \<in> set (conversations (rdb s))" "cv_id r = c" for r
    using row_get_pk [OF assms(3) that(1)] that(2) assms(2) by simp
  have "length (filter (\<lambda>r. cv_id r = c \<and> r\<lparr>cv_name := group_name n, cv_avatar := cv_avatar r\<rparr> \<noteq> r)
      (conversations (rdb s))) = 0"
    using one assms(4) by (auto simp: filter_empty_conv)
  with role assms(4,6) show ?thesis by (simp add: UpdateGroupInfo_def)
qed

definition team_row :: conv_row where
  "team_row = \<lparr>cv_id = 7, cv_type = 2, cv_members = Some [1, 2], cv_last_seq = 0, cv_create = 0,
     cv_name = ''team'', cv_avatar = []\<rparr>"

definition team :: rel where
  "team = group_seeded\<lparr>rdb := (rdb group_seeded)\<lparr>conversations := [team_row]\<rparr>\<rparr>"

lemma unchanged_group_name_refused_witness:
  "UpdateGroupInfo redis_up no_fault 1 7 ''team'' [] team = (Some (bizErr CodeNotMember), team)"
proof (rule unchanged_group_name_refused)
  show "group_name ''team'' = cv_name team_row"
    by (simp add: group_name_def trim_space_def is_space_def rune_count_def is_cont_def team_row_def)
qed (simp_all add: team_def team_row_def group_seeded_def role_of_def member_row_def gm_key_def pk_ok_def)

end
