(* ===== verification/Conversations.thy ===== *)
theory Conversations
  imports MessageSafety Group
begin

text \<open>
  Conversations and the read path of the message service
  (\<open>internal/message/conversations.go\<close>, \<open>history.go\<close>, \<open>sync.go\<close>, \<open>search.go\<close>, \<open>readstate.go\<close>,
  \<open>relation_client.go\<close>): creating a conversation, the conversation list with unread counters,
  read marks, history pages, incremental synchronisation and search. The relation service is
  a record of functions, as the Go interface; \<open>relationAdapter\<close> is its instance on the model of
  the relation handlers.
\<close>

subsection \<open>The relation client\<close>

record relation_client =
  rc_check :: "uid \<Rightarrow> uid \<Rightarrow> svc \<Rightarrow> bool \<times> yim_error option"
  rc_seed :: "conv_id \<Rightarrow> uid list \<Rightarrow> uid \<Rightarrow> svc \<Rightarrow> yim_error option \<times> svc"

definition rel_view :: "svc \<Rightarrow> rel" where
  \<comment> \<open>the relation service works on the same databases\<close>
  "rel_view s = \<lparr>rdb = mdb s, rcache = mcache s, rpub = None\<rparr>"

definition relationAdapter :: "(nat \<Rightarrow> string option) \<Rightarrow> rfaults \<Rightarrow> ffaults \<Rightarrow> gfaults \<Rightarrow> int \<Rightarrow> relation_client" where
  \<comment> \<open>\<open>rpc 0\<close> and \<open>rpc 1\<close>: the transport errors of the two calls. The reply's \<open>Error\<close> of
     \<open>CheckFriendship\<close> is not looked at\<close>
  "relationAdapter rpc rf ff gf now = \<lparr>
     rc_check = (\<lambda>a b s. case rpc 0 of
         Some e \<Rightarrow> (False, Some (YErr 22 e))
       | None \<Rightarrow> (case CheckFriendship ff a b (rel_view s) of Inl _ \<Rightarrow> False | Inr ok \<Rightarrow> ok, None)),
     rc_seed = (\<lambda>c us ow s. case rpc 1 of
         Some e \<Rightarrow> (Some (YErr 1 e), s)
       | None \<Rightarrow> (let (e, r) = AddGroupMembers rf gf now c us ow (rel_view s)
                 in (e, s\<lparr>mdb := rdb r, mcache := rcache r\<rparr>)))\<rparr>"

subsection \<open>Creating a conversation\<close>

definition CONV_SINGLE :: int where "CONV_SINGLE = 1"
definition CONV_GROUP :: int where "CONV_GROUP = 2"

datatype create_sql = CIndex | CExist | CBegin | CInsert | CUser nat | CSingle | CCommitFail | CCommitLost

record create_env =
  ce_now :: int
  ce_redis :: rfaults
  ce_sql :: "create_sql faults"
  ce_alloc :: "string + int"

datatype create_error = ErrNotFriends | CreateErr string

definition index_members :: "int \<Rightarrow> conv_id \<Rightarrow> uid list \<Rightarrow> user_conv list \<Rightarrow> user_conv list" where
  "index_members now c us t = fold (\<lambda>u. row_ins_ignore uc_key \<lparr>uc_uid = u, uc_conv = c, uc_create = now\<rparr>) us t"

definition create_tx :: "create_env \<Rightarrow> int \<Rightarrow> uid list \<Rightarrow> string \<Rightarrow> conv_id \<Rightarrow> meta_db \<Rightarrow> string + meta_db" where
  \<comment> \<open>the statements of the transaction, before \<open>Commit\<close>\<close>
  "create_tx env typ members name convID db =
     (let single = \<lparr>sc_a = members ! 0, sc_b = members ! 1, sc_conv = convID\<rparr>
      in if ce_sql env CBegin \<noteq> None then Inl (the (ce_sql env CBegin))
         else if ce_sql env CInsert \<noteq> None then Inl (''insert conv: '' @ the (ce_sql env CInsert))
         else if row_get cv_id (conversations db) convID \<noteq> None then
           Inl ''insert conv: Error 1062: Duplicate entry''
         else case List.find (\<lambda>i. ce_sql env (CUser i) \<noteq> None) [0..<length members] of
             Some i \<Rightarrow> Inl (''insert user_conv index: '' @ the (ce_sql env (CUser i)))
           | None \<Rightarrow>
               if typ = CONV_SINGLE \<and> ce_sql env CSingle \<noteq> None then
                 Inl (''insert single chat index: '' @ the (ce_sql env CSingle))
               else if typ = CONV_SINGLE \<and> row_get sc_key (single_chat_index db) (sc_key single) \<noteq> None then
                 Inl ''insert single chat index: Error 1062: Duplicate entry''
               else Inr (db\<lparr>
                 conversations := conversations db @ [\<lparr>cv_id = convID, cv_type = typ, cv_members = Some members,
                   cv_last_seq = 0, cv_create = ce_now env, cv_name = name, cv_avatar = []\<rparr>],
                 user_conversations := index_members (ce_now env) convID members (user_conversations db),
                 single_chat_index := (if typ = CONV_SINGLE then single_chat_index db @ [single]
                                       else single_chat_index db)\<rparr>))"

definition create_new :: "relation_client option \<Rightarrow> create_env \<Rightarrow> int \<Rightarrow> uid list \<Rightarrow> uid \<Rightarrow> string \<Rightarrow> svc \<Rightarrow>
    (create_error + ConvMeta \<times> bool) \<times> svc" where
  "create_new rc env typ members ownerUID name s =
     (case ce_alloc env of
        Inl e \<Rightarrow> (Inl (CreateErr (''alloc conv_id: '' @ e)), s)
      | Inr convID \<Rightarrow>
          (case create_tx env typ members name convID (mdb s) of
             Inl e \<Rightarrow> (Inl (CreateErr e), s)
           | Inr db \<Rightarrow>
               (case commit (ce_sql env CCommitFail) (ce_sql env CCommitLost) (mdb s) db of
                  (Some e, db') \<Rightarrow> (Inl (CreateErr e), s\<lparr>mdb := db'\<rparr>)
                | (None, db') \<Rightarrow>
                    (let meta = \<lparr>ConvID = convID, Type = typ, MemberUIDs = members, LastSeq = 0,
                           CreateTimeMs = ce_now env, Name = name, Avatar = []\<rparr>;
                         s1 = s\<lparr>mdb := db', mcache := SetConvMeta (ce_redis env) (ce_now env) (mcache s) meta\<rparr>
                     in case (if typ = CONV_GROUP then rc else None) of
                          None \<Rightarrow> (Inr (meta, False), s1)
                        | Some r \<Rightarrow>
                            (case rc_seed r convID members ownerUID s1 of
                               (Some e, s2) \<Rightarrow> (Inl (CreateErr (''seed group members: '' @ err_msg e)), s2)
                             | (None, s2) \<Rightarrow> (Inr (meta, False), s2))))))"

definition CreateConv :: "relation_client option \<Rightarrow> create_env \<Rightarrow> int \<Rightarrow> uid list \<Rightarrow> uid \<Rightarrow> string \<Rightarrow> svc \<Rightarrow>
    (create_error + ConvMeta \<times> bool) \<times> svc" where
  "CreateConv rc env typ members0 ownerUID name s =
     (let members = dedup_on [] members0
      in if \<exists>u \<in> set members0. u \<le> 0 then (Inl (CreateErr ''invalid uid''), s)
         else if typ = CONV_SINGLE then
           (if length members \<noteq> 2 then (Inl (CreateErr ''single conv needs exactly 2 members''), s)
            else
              (let ms = sort members; a = ms ! 0; b = ms ! 1;
                   friend = (case rc of None \<Rightarrow> True
                     | Some r \<Rightarrow> (case rc_check r a b s of (ok, e) \<Rightarrow> e = None \<and> ok))
               in if \<not> friend then (Inl ErrNotFriends, s)
                  else if ce_sql env CIndex \<noteq> None then
                    (Inl (CreateErr (''single chat index: '' @ the (ce_sql env CIndex))), s)
                  else case row_get sc_key (single_chat_index (mdb s)) (a, b) of
                      Some row \<Rightarrow>
                        (case GetConvMeta (ce_redis env) (ce_sql env CExist) (ce_now env) (mcache s) (mdb s) (sc_conv row) of
                           (Inl e, ca) \<Rightarrow> (Inl (CreateErr (''load exist conv: '' @ load_err_text e)), s\<lparr>mcache := ca\<rparr>)
                         | (Inr meta, ca) \<Rightarrow> (Inr (meta, True), s\<lparr>mcache := ca\<rparr>))
                    | None \<Rightarrow> create_new rc env typ ms ownerUID name s))
         else if length members < 2 then (Inl (CreateErr ''conv needs >= 2 members''), s)
         else create_new rc env typ members ownerUID (take_runes 32 (trim_space name)) s)"

subsection \<open>History pages\<close>

record read_env =
  re_now :: int
  re_redis :: rfaults
  re_list :: "string option"
  re_meta :: "conv_id \<Rightarrow> string option"
  re_read :: "uid \<Rightarrow> conv_id \<Rightarrow> string option"
  re_rows :: "MsgShard \<Rightarrow> conv_id \<Rightarrow> string option"

fun decode_all :: "('a \<Rightarrow> 'b option) \<Rightarrow> 'a list \<Rightarrow> 'b list option" where
  "decode_all f [] = Some []"
| "decode_all f (x # xs) =
     (case f x of None \<Rightarrow> None | Some y \<Rightarrow> map_option ((#) y) (decode_all f xs))"

definition message_of_row :: "codec \<Rightarrow> message_row \<Rightarrow> ConvMessage option" where
  "message_of_row cd r = map_option (\<lambda>ct. \<lparr>cm_msg_id = ms_id r, cm_conv = ms_conv r, cm_from = ms_from r,
     cm_seq = ms_seq r, cm_time = ms_time r, cm_content = ct\<rparr>) (unmarshal_content cd (ms_content r))"

definition conv_rows :: "svc \<Rightarrow> conv_id \<Rightarrow> message_row list" where
  \<comment> \<open>the conversation's rows in primary-key order\<close>
  "conv_rows s c = sort_key ms_seq (filter (\<lambda>r. ms_conv r = c) (table_of s c))"

definition pullHistoryDB :: "codec \<Rightarrow> string option \<Rightarrow> svc \<Rightarrow> conv_id \<Rightarrow> int \<Rightarrow> nat \<Rightarrow> string + ConvMessage list" where
  \<comment> \<open>ORDER BY seq DESC LIMIT n, decoded row by row, then reversed\<close>
  "pullHistoryDB cd fault s c beforeSeq limit =
     (case fault of
        Some e \<Rightarrow> Inl (''pull history: '' @ e)
      | None \<Rightarrow>
          (let rows = take limit (rev (filter (\<lambda>r. 0 < beforeSeq \<longrightarrow> ms_seq r < beforeSeq) (conv_rows s c)))
           in case decode_all (message_of_row cd) rows of
                None \<Rightarrow> Inl ''unmarshal content''
              | Some ms \<Rightarrow> Inr (rev ms)))"

definition recentFromCache :: "codec \<Rightarrow> read_env \<Rightarrow> svc \<Rightarrow> conv_id \<Rightarrow> nat \<Rightarrow> ConvMessage list option" where
  "recentFromCache cd env s c limit =
     (case RecentList (re_redis env) (re_now env) (mcache s) c (int limit) of
        None \<Rightarrow> None
      | Some vals \<Rightarrow> if length vals \<noteq> limit then None else decode_all (unmarshal_msg cd) vals)"

definition fillRecent :: "codec \<Rightarrow> read_env \<Rightarrow> conv_id \<Rightarrow> ConvMessage list \<Rightarrow> svc \<Rightarrow> svc" where
  "fillRecent cd env c ms s = fold (\<lambda>m t. case marshal_msg cd m of
       Some b \<Rightarrow> t\<lparr>mcache := RecentAdd (re_redis env) (re_now env) (mcache t) c (cm_seq m) b\<rparr>
     | None \<Rightarrow> t) ms s"

datatype pull_error = PullNotMember | PullErr string

definition page_limit :: "int \<Rightarrow> nat" where
  "page_limit l = (if l \<le> 0 \<or> 100 < l then 50 else nat l)"

definition PullHistory :: "codec \<Rightarrow> read_env \<Rightarrow> uid \<Rightarrow> conv_id \<Rightarrow> int \<Rightarrow> int \<Rightarrow> svc \<Rightarrow>
    (pull_error + ConvMessage list) \<times> svc" where
  "PullHistory cd env opUID c beforeSeq limit0 s =
     (let limit = page_limit limit0;
          (denied, s1) = (if 0 < opUID then
              (case GetConvMeta (re_redis env) (re_meta env c) (re_now env) (mcache s) (mdb s) c of
                 (Inl e, ca) \<Rightarrow> (Some (PullErr (''conv meta '' @ int_str c @ '': '' @ load_err_text e)), s\<lparr>mcache := ca\<rparr>)
               | (Inr meta, ca) \<Rightarrow>
                   (if opUID \<in> set (MemberUIDs meta) then None else Some PullNotMember, s\<lparr>mcache := ca\<rparr>))
            else (None, s))
      in case denied of
           Some e \<Rightarrow> (Inl e, s1)
         | None \<Rightarrow>
             (case (if beforeSeq = 0 then recentFromCache cd env s1 c limit else None) of
                Some ms \<Rightarrow> (Inr ms, s1)
              | None \<Rightarrow>
                  (case pullHistoryDB cd (re_rows env (shard_of s1 c) c) s1 c beforeSeq limit of
                     Inl e \<Rightarrow> (Inl (PullErr e), s1)
                   | Inr ms \<Rightarrow> (Inr ms, if beforeSeq = 0 then fillRecent cd env c ms s1 else s1))))"

subsection \<open>Incremental synchronisation\<close>

definition syncMax :: nat where "syncMax = 200"

definition pullIncrement :: "codec \<Rightarrow> string option \<Rightarrow> svc \<Rightarrow> conv_id \<Rightarrow> int \<Rightarrow> nat \<Rightarrow> string + ConvMessage list \<times> bool" where
  "pullIncrement cd fault s c afterSeq limit =
     (case fault of
        Some e \<Rightarrow> Inl (''pull increment: '' @ e)
      | None \<Rightarrow>
          (case decode_all (message_of_row cd) (take (limit + 1) (filter (\<lambda>r. afterSeq < ms_seq r) (conv_rows s c))) of
             None \<Rightarrow> Inl ''unmarshal content''
           | Some ms \<Rightarrow> Inr (take limit ms, limit < length ms)))"

fun sync_loop :: "codec \<Rightarrow> read_env \<Rightarrow> svc \<Rightarrow> (conv_id \<times> int) list \<Rightarrow> string + ConvMessage list \<times> (conv_id \<times> int) list" where
  "sync_loop cd env s [] = Inr ([], [])"
| "sync_loop cd env s ((c, lastSeq) # wms) =
     (if c = 0 then sync_loop cd env s wms
      else case pullIncrement cd (re_rows env (shard_of s c) c) s c lastSeq syncMax of
          Inl e \<Rightarrow> Inl (''sync conv '' @ int_str c @ '': '' @ e)
        | Inr (page, hasMore) \<Rightarrow>
            (case sync_loop cd env s wms of
               Inl e \<Rightarrow> Inl e
             | Inr (ms, ov) \<Rightarrow>
                 Inr (page @ ms, if hasMore \<and> page \<noteq> [] then (c, cm_seq (last page)) # ov else ov)))"

definition SyncConvs :: "codec \<Rightarrow> read_env \<Rightarrow> uid \<Rightarrow> (conv_id \<times> int) list \<Rightarrow> svc \<Rightarrow>
    string + ConvMessage list \<times> (conv_id \<times> int) list" where
  \<comment> \<open>the user id is not looked at\<close>
  "SyncConvs cd env u wms s = sync_loop cd env s wms"

subsection \<open>Read marks\<close>

definition getReadSeq :: "read_env \<Rightarrow> uid \<Rightarrow> conv_id \<Rightarrow> svc \<Rightarrow> int \<times> svc" where
  "getReadSeq env u c s =
     (case GetReadSeq (re_redis env) (re_now env) (mcache s) u c of
        Some v \<Rightarrow> (v, s)
      | None \<Rightarrow>
          (case (if re_read env u c = None then row_get cs_key (user_conv_state (mdb s)) (u, c) else None) of
             None \<Rightarrow> (0, s)
           | Some r \<Rightarrow> (cs_read_seq r,
               s\<lparr>mcache := SetReadSeq (re_redis env) (re_now env) (mcache s) u c (cs_read_seq r)\<rparr>)))"

definition mark_row :: "uid \<Rightarrow> conv_id \<Rightarrow> int \<Rightarrow> int \<Rightarrow> conv_state list \<Rightarrow> conv_state list" where
  \<comment> \<open>INSERT ... ON DUPLICATE KEY UPDATE read_seq = GREATEST(read_seq, VALUES(read_seq))\<close>
  "mark_row u c q now t = row_upsert cs_key
     (\<lambda>r. r\<lparr>cs_read_seq := max (cs_read_seq r) q, cs_update := now\<rparr>)
     \<lparr>cs_uid = u, cs_conv = c, cs_read_seq = q, cs_update = now\<rparr> t"

definition MarkRead :: "read_env \<Rightarrow> string option \<Rightarrow> uid \<Rightarrow> conv_id \<Rightarrow> int \<Rightarrow> svc \<Rightarrow> string option \<times> svc" where
  \<comment> \<open>the string is the fault of the upsert\<close>
  "MarkRead env fault u c readSeq0 s =
     (case GetConvMeta (re_redis env) (re_meta env c) (re_now env) (mcache s) (mdb s) c of
        (Inl e, ca) \<Rightarrow> (Some (''conv '' @ int_str c @ '': '' @ load_err_text e), s\<lparr>mcache := ca\<rparr>)
      | (Inr meta, ca) \<Rightarrow>
          (let q = (if LastSeq meta < readSeq0 then LastSeq meta else readSeq0)
           in case fault of
                Some e \<Rightarrow> (Some (''mark read: '' @ e), s\<lparr>mcache := ca\<rparr>)
              | None \<Rightarrow>
                  (let ca1 = SetReadSeq (re_redis env) (re_now env) ca u c q;
                       ca2 = (if Type meta = CONV_SINGLE then
                           fold (\<lambda>m k. PublishEphemeral (re_redis env) k
                             \<lparr>em_t = ''read'', em_conv = c, em_from = u, em_to = m, em_seq = q\<rparr>)
                             (filter (\<lambda>m. m \<noteq> u) (MemberUIDs meta)) ca1
                         else ca1)
                   in (None, s\<lparr>mdb := (mdb s)\<lparr>user_conv_state := mark_row u c q (re_now env) (user_conv_state (mdb s))\<rparr>,
                        mcache := ca2\<rparr>))))"

fun read_states :: "read_env \<Rightarrow> conv_id \<Rightarrow> uid list \<Rightarrow> svc \<Rightarrow> (uid \<times> int) list \<times> svc" where
  "read_states env c [] s = ([], s)"
| "read_states env c (u # us) s =
     (let (q, s1) = getReadSeq env u c s; (xs, s2) = read_states env c us s1 in ((u, q) # xs, s2))"

definition GetReadState :: "read_env \<Rightarrow> uid \<Rightarrow> conv_id \<Rightarrow> svc \<Rightarrow> (yim_error + (uid \<times> int) list) \<times> svc" where
  "GetReadState env opUID c s =
     (case GetConvMeta (re_redis env) (re_meta env c) (re_now env) (mcache s) (mdb s) c of
        (Inl e, ca) \<Rightarrow> (Inl (YErr 1 ''conv not found''), s\<lparr>mcache := ca\<rparr>)
      | (Inr meta, ca) \<Rightarrow>
          (if opUID \<notin> set (MemberUIDs meta)
           then (Inl (YErr 25 ''not a member of this conversation''), s\<lparr>mcache := ca\<rparr>)
           else (let (xs, s2) = read_states env c (MemberUIDs meta) (s\<lparr>mcache := ca\<rparr>) in (Inr xs, s2))))"

subsection \<open>The conversation list\<close>

record ConversationBrief =
  cb_conv :: ConvMeta
  cb_unread :: int
  cb_last :: "ConvMessage option"

definition lastMessage :: "codec \<Rightarrow> read_env \<Rightarrow> svc \<Rightarrow> conv_id \<Rightarrow> ConvMessage option" where
  "lastMessage cd env s c =
     (case Option.bind (RecentTop (re_redis env) (re_now env) (mcache s) c) (unmarshal_msg cd) of
        Some m \<Rightarrow> Some m
      | None \<Rightarrow>
          (case pullHistoryDB cd (re_rows env (shard_of s c) c) s c 0 1 of
             Inl _ \<Rightarrow> None
           | Inr ms \<Rightarrow> (case ms of [] \<Rightarrow> None | m # _ \<Rightarrow> Some m)))"

fun brief_loop :: "codec \<Rightarrow> read_env \<Rightarrow> uid \<Rightarrow> conv_id list \<Rightarrow> svc \<Rightarrow> (string + ConversationBrief list) \<times> svc" where
  "brief_loop cd env u [] s = (Inr [], s)"
| "brief_loop cd env u (c # cs) s =
     (case GetConvMeta (re_redis env) (re_meta env c) (re_now env) (mcache s) (mdb s) c of
        (Inl e, ca) \<Rightarrow> (Inl (load_err_text e), s\<lparr>mcache := ca\<rparr>)
      | (Inr meta, ca) \<Rightarrow>
          (let (q, s1) = getReadSeq env u c (s\<lparr>mcache := ca\<rparr>);
               b = \<lparr>cb_conv = meta, cb_unread = (if LastSeq meta - q < 0 then 0 else LastSeq meta - q),
                    cb_last = lastMessage cd env s1 c\<rparr>
           in case brief_loop cd env u cs s1 of
                (Inl e, s2) \<Rightarrow> (Inl e, s2)
              | (Inr bs, s2) \<Rightarrow> (Inr (b # bs), s2)))"

definition user_convs :: "svc \<Rightarrow> uid \<Rightarrow> conv_id list" where
  \<comment> \<open>the user's conversations, ORDER BY conv_id DESC\<close>
  "user_convs s u = rev (sort (map uc_conv (filter (\<lambda>r. uc_uid r = u) (user_conversations (mdb s)))))"

definition ListConversations :: "codec \<Rightarrow> read_env \<Rightarrow> uid \<Rightarrow> int \<Rightarrow> int \<Rightarrow> svc \<Rightarrow>
    (string + ConversationBrief list \<times> bool) \<times> svc" where
  "ListConversations cd env u pageNum0 pageSize0 s =
     (let pageSize = (if pageSize0 \<le> 0 \<or> 100 < pageSize0 then 20 else pageSize0);
          pageNum = (if pageNum0 \<le> 0 then 1 else pageNum0);
          offset = (pageNum - 1) * pageSize
      in case re_list env of
           Some e \<Rightarrow> (Inl (''list user convs: '' @ e), s)
         | None \<Rightarrow>
             (let ids = take (nat (pageSize + 1)) (drop (nat offset) (user_convs s u));
                  hasMore = pageSize < int (length ids);
                  page = (if hasMore then take (nat pageSize) ids else ids)
              in case brief_loop cd env u page s of
                   (Inl e, s') \<Rightarrow> (Inl e, s')
                 | (Inr bs, s') \<Rightarrow> (Inr (bs, hasMore), s')))"

subsection \<open>Search\<close>

definition search_shard :: "(char \<Rightarrow> char \<Rightarrow> bool) \<Rightarrow> codec \<Rightarrow> string \<Rightarrow> nat \<Rightarrow> conv_id list \<Rightarrow> message_row list \<Rightarrow> ConvMessage list" where
  \<comment> \<open>one table: type 1, content LIKE the pattern, newest first, at most \<open>limit + 1\<close> rows; a row that
     does not decode is skipped. Rows of equal time come in no specified order, here that of the table\<close>
  "search_shard eq cd pattern limit cs t =
     List.map_filter (message_of_row cd) (take (limit + 1) (sort_key (\<lambda>r. - ms_time r)
       (filter (\<lambda>r. ms_conv r \<in> set cs \<and> ms_type r = 1 \<and> sql_like eq pattern (ms_content r)) t)))"

fun search_loop :: "(char \<Rightarrow> char \<Rightarrow> bool) \<Rightarrow> codec \<Rightarrow> (MsgShard \<Rightarrow> string option) \<Rightarrow> string \<Rightarrow> nat \<Rightarrow> conv_id list \<Rightarrow>
    svc \<Rightarrow> MsgShard list \<Rightarrow> string + ConvMessage list" where
  "search_loop eq cd flt pattern limit cs s [] = Inr []"
| "search_loop eq cd flt pattern limit cs s (sh # shs) =
     (case flt sh of
        Some e \<Rightarrow> Inl (''search shard: '' @ e)
      | None \<Rightarrow>
          (case search_loop eq cd flt pattern limit cs s shs of
             Inl e \<Rightarrow> Inl e
           | Inr ms \<Rightarrow> Inr (search_shard eq cd pattern limit cs (msg_table (mshards s) sh) @ ms)))"

definition newest_first :: "ConvMessage list \<Rightarrow> ConvMessage list" where
  "newest_first ms = sort_key (\<lambda>m. - cm_time m) (sort_key (\<lambda>m. - cm_msg_id m) ms)"

definition SearchMessages :: "(char \<Rightarrow> char \<Rightarrow> bool) \<Rightarrow> codec \<Rightarrow> read_env \<Rightarrow> (MsgShard \<Rightarrow> string option) \<Rightarrow> uid \<Rightarrow> string \<Rightarrow> int \<Rightarrow>
    svc \<Rightarrow> string + ConvMessage list \<times> bool" where
  "SearchMessages eq cd env flt u keyword0 limit0 s =
     (let keyword = trim_space keyword0;
          limit = (if limit0 \<le> 0 \<or> 20 < limit0 then 20 else nat limit0)
      in if keyword = [] then Inl ''keyword required''
         else case re_list env of
             Some e \<Rightarrow> Inl (''list user convs: '' @ e)
           | None \<Rightarrow>
               (let cs = take 200 (user_convs s u)
                in if cs = [] then Inr ([], False)
                   else case search_loop eq cd flt (''%'' @ likeEscape keyword @ ''%'') limit cs s AllMsgShards of
                       Inl e \<Rightarrow> Inl e
                     | Inr out \<Rightarrow>
                         (let sorted_out = newest_first out
                          in Inr (take limit sorted_out, limit < length sorted_out))))"

subsection \<open>The RPC handlers (\<open>cmd/yim-message/handler.go\<close>)\<close>

definition PULL_PAGE_BACKWARD :: int where "PULL_PAGE_BACKWARD = 2"

record PullHistoryRsp =
  ph_messages :: "ConvMessage list"
  ph_has_more :: bool
  ph_min_seq :: int
  ph_error :: "yim_error option"

definition rpc_PullHistory :: "codec \<Rightarrow> read_env \<Rightarrow> int \<Rightarrow> uid \<Rightarrow> conv_id \<Rightarrow> int \<Rightarrow> int \<Rightarrow> svc \<Rightarrow>
    (string + PullHistoryRsp) \<times> svc" where
  "rpc_PullHistory cd env mode opUID c beforeSeq limit s =
     (if mode \<noteq> PULL_PAGE_BACKWARD then (Inl ''pull mode not supported yet'', s)
      else case PullHistory cd env opUID c beforeSeq limit s of
          (Inl PullNotMember, s') \<Rightarrow> (Inr \<lparr>ph_messages = [], ph_has_more = False, ph_min_seq = 0,
              ph_error = Some (YErr 25 ''not a member of this conversation'')\<rparr>, s')
        | (Inl (PullErr e), s') \<Rightarrow> (Inl e, s')
        | (Inr [], s') \<Rightarrow> (Inr \<lparr>ph_messages = [], ph_has_more = False, ph_min_seq = 0, ph_error = None\<rparr>, s')
        | (Inr (m # ms), s') \<Rightarrow> (Inr \<lparr>ph_messages = m # ms,
              ph_has_more = (int (length (m # ms)) = limit \<and> 1 < cm_seq m),
              ph_min_seq = cm_seq m, ph_error = None\<rparr>, s'))"

definition rpc_Sync :: "codec \<Rightarrow> read_env \<Rightarrow> string + int \<Rightarrow> uid \<Rightarrow> (conv_id \<times> int) list \<Rightarrow> svc \<Rightarrow>
    string + int \<times> ConvMessage list \<times> (conv_id \<times> int) list" where
  \<comment> \<open>\<open>fallback\<close> is the answer of the sequence service's \<open>GetSyncSeq\<close>\<close>
  "rpc_Sync cd env fallback u wms s =
     (case SyncConvs cd env u wms s of
        Inl e \<Rightarrow> Inl e
      | Inr (ms, ov) \<Rightarrow>
          Inr (case SyncSeqGet (re_redis env) (re_now env) (mcache s) u of
                 Some v \<Rightarrow> v
               | None \<Rightarrow> (case fallback of Inl _ \<Rightarrow> 0 | Inr v \<Rightarrow> v), ms, ov))"

definition rpc_CreateConv :: "relation_client option \<Rightarrow> create_env \<Rightarrow> int \<Rightarrow> uid list \<Rightarrow> uid \<Rightarrow> string \<Rightarrow> svc \<Rightarrow>
    (string + (yim_error + ConvMeta \<times> bool)) \<times> svc" where
  "rpc_CreateConv rc env typ members owner name s =
     (case CreateConv rc env typ members owner name s of
        (Inl ErrNotFriends, s') \<Rightarrow> (Inr (Inl (YErr 22 ''not friends (single chat requires friendship)'')), s')
      | (Inl (CreateErr e), s') \<Rightarrow> (Inl e, s')
      | (Inr r, s') \<Rightarrow> (Inr (Inr r), s'))"

definition str_contains :: "string \<Rightarrow> string \<Rightarrow> bool" where
  \<comment> \<open>\<open>strings.Contains(s, p)\<close>, pattern first\<close>
  "str_contains p s = list_ex (\<lambda>i. has_prefix p (drop i s)) [0..<Suc (length s)]"

definition send_err_text :: "send_error \<Rightarrow> string" where
  "send_err_text e = (case e of ErrNotMember \<Rightarrow> ''not a member of this conversation'' | SendErr t \<Rightarrow> t)"

definition rpc_RevokeMessage :: "(char \<Rightarrow> char \<Rightarrow> bool) \<Rightarrow> codec \<Rightarrow> send_env \<Rightarrow> revoke_sql faults \<Rightarrow> int \<Rightarrow> conv_id \<Rightarrow> uid \<Rightarrow>
    svc \<Rightarrow> (string + (yim_error + int \<times> int)) \<times> svc" where
  \<comment> \<open>the window error is recognised by its text; the codes' messages are in Chinese in the source\<close>
  "rpc_RevokeMessage eq cd env flt msgID c op s =
     (case RevokeMessage eq cd env flt msgID c op s of
        (Inr r, s') \<Rightarrow> (Inr (Inr r), s')
      | (Inl ErrRevokeDenied, s') \<Rightarrow> (Inr (Inl (YErr 30 ''revoke denied'')), s')
      | (Inl (RevokeErr e), s') \<Rightarrow>
          (if str_contains ''revoke window'' e then Inr (Inl (YErr 31 ''revoke window exceeded'')) else Inl e, s')
      | (Inl (RevokeSend e), s') \<Rightarrow>
          (if str_contains ''revoke window'' (send_err_text e) then Inr (Inl (YErr 31 ''revoke window exceeded''))
           else Inl (send_err_text e), s'))"

end
