(* ===== verification/ConvSafety.thy ===== *)
theory ConvSafety
  imports Conversations
begin

text \<open>
  What the conversation and read handlers guarantee: paging through a conversation misses nothing
  below its newest page, synchronising returns exactly the increments, read marks only grow in the
  database, a single chat exists once and only between friends, and a created group is consistent
  with the relation service.
\<close>

subsection \<open>Pages\<close>

definition readable :: "codec \<Rightarrow> svc \<Rightarrow> conv_id \<Rightarrow> bool" where
  \<comment> \<open>every stored message of the conversation decodes, and numbers start at 1\<close>
  "readable cd s c \<longleftrightarrow> (\<forall>r \<in> set (table_of s c). ms_conv r = c \<longrightarrow> message_of_row cd r \<noteq> None \<and> 0 < ms_seq r)"

definition decoded :: "codec \<Rightarrow> message_row \<Rightarrow> ConvMessage" where
  "decoded cd r = the (message_of_row cd r)"

lemma set_conv_rows: "set (conv_rows s c) = {r \<in> set (table_of s c). ms_conv r = c}"
  by (auto simp: conv_rows_def)

lemma decode_all_Some: "(\<And>x. x \<in> set xs \<Longrightarrow> f x \<noteq> None) \<Longrightarrow> decode_all f xs = Some (map (the \<circ> f) xs)"
  by (induction xs) (auto split: option.splits)

lemma decode_rows: "readable cd s c \<Longrightarrow> set rs \<subseteq> set (conv_rows s c) \<Longrightarrow>
    decode_all (message_of_row cd) rs = Some (map (decoded cd) rs)"
  by (subst decode_all_Some) (auto simp: readable_def set_conv_rows decoded_def)

lemma decoded_simps: "message_of_row cd r \<noteq> None \<Longrightarrow> cm_seq (decoded cd r) = ms_seq r \<and> cm_msg_id (decoded cd r) = ms_id r \<and>
    cm_from (decoded cd r) = ms_from r \<and> cm_conv (decoded cd r) = ms_conv r"
  by (auto simp: decoded_def message_of_row_def)

lemma conv_rows_sorted:
  assumes "tables_ok s"
  shows "sorted_wrt (\<lambda>a b. ms_seq a < ms_seq b) (conv_rows s c)"
proof -
  have "pk_ok ms_key (table_of s c)" using assms by (simp add: tables_ok_def shard_ok_def table_of_def Let_def)
  then have "inj_on ms_key (set (table_of s c))" "distinct (table_of s c)"
    by (simp_all add: pk_ok_def distinct_map)
  then have inj: "inj_on ms_seq (set (conv_rows s c))" and d: "distinct (conv_rows s c)"
    by (auto simp: set_conv_rows inj_on_def ms_key_def) (simp add: conv_rows_def)
  then have "distinct (map ms_seq (conv_rows s c))" by (simp add: distinct_map)
  moreover have "sorted (map ms_seq (conv_rows s c))" by (simp add: conv_rows_def)
  ultimately have "sorted_wrt (<) (map ms_seq (conv_rows s c))" by (simp only: strict_sorted_iff)
  then show ?thesis by (simp add: sorted_wrt_map)
qed

lemma pullHistoryDB_page:
  assumes "readable cd s c"
  shows "pullHistoryDB cd None s c b limit = Inr (map (decoded cd)
    (rev (take limit (rev (filter (\<lambda>r. 0 < b \<longrightarrow> ms_seq r < b) (conv_rows s c))))))"
proof -
  have "set (take limit (rev (filter (\<lambda>r. 0 < b \<longrightarrow> ms_seq r < b) (conv_rows s c)))) \<subseteq> set (conv_rows s c)"
    using set_take_subset by fastforce
  from decode_rows [OF assms this] show ?thesis by (simp add: pullHistoryDB_def rev_map Let_def)
qed

text \<open>
  Who may read: an internal call names user 0; any other user must be in the stored member list,
  and in the cached copy of it where there is one.
\<close>

definition may_read :: "uid \<Rightarrow> conv_id \<Rightarrow> svc \<Rightarrow> bool" where
  "may_read u c s \<longleftrightarrow> u \<le> 0 \<or>
     (\<exists>row ms. row_get cv_id (conversations (mdb s)) c = Some row \<and> cv_members row = Some ms \<and> u \<in> set ms) \<and>
     (\<forall>r m. mcache s = Some r \<longrightarrow> kv r (metaKey c) = Some (VMeta m) \<longrightarrow> u \<in> set (MemberUIDs m))"

definition db_answers :: "conv_id \<Rightarrow> svc \<Rightarrow> read_env \<Rightarrow> bool" where
  \<comment> \<open>the two queries of a page come back; the Redis commands may fail\<close>
  "db_answers c s env \<longleftrightarrow> re_meta env c = None \<and> re_rows env (shard_of s c) c = None"

definition db_page :: "codec \<Rightarrow> svc \<Rightarrow> conv_id \<Rightarrow> int \<Rightarrow> nat \<Rightarrow> ConvMessage list" where
  "db_page cd s c b n = map (decoded cd)
     (rev (take n (rev (filter (\<lambda>r. 0 < b \<longrightarrow> ms_seq r < b) (conv_rows s c)))))"

lemma conv_rows_cache [simp]: "conv_rows (s\<lparr>mcache := ca\<rparr>) c = conv_rows s c"
  by (simp add: conv_rows_def table_of_def shard_of_def)

lemma shard_of_cache [simp]: "shard_of (s\<lparr>mcache := ca\<rparr>) c = shard_of s c"
  by (simp add: shard_of_def)

lemma readable_cache [simp]: "readable cd (s\<lparr>mcache := ca\<rparr>) c = readable cd s c"
  by (simp add: readable_def table_of_def shard_of_def)

lemma db_answers_cache [simp]: "db_answers c (s\<lparr>mcache := ca\<rparr>) = db_answers c s"
  by (rule ext) (simp add: db_answers_def)

lemma live_kv: "live now r k = Some v \<Longrightarrow> kv r k = Some v"
  by (auto simp: live_def split: option.splits if_splits)

lemma live_put_other: "k \<noteq> k' \<Longrightarrow> live t (put_ttl now ttl k' v r) k = live t r k"
  by (simp add: live_def put_ttl_def split: option.split)

lemma recent_meta_loaded:
  assumes "GetConvMeta f e now ca db c = (res, ca')"
  shows "RecentList g t ca' c n = RecentList g t ca c n"
  using GetConvMeta_cache [OF assms] by (cases ca) (auto simp: RecentList_def cmd_def live_put_other)

lemma member_check_passes:
  assumes "may_read u c s" "0 < u" "re_meta env c = None"
  obtains meta ca where "GetConvMeta (re_redis env) (re_meta env c) (re_now env) (mcache s) (mdb s) c = (Inr meta, ca)"
    "u \<in> set (MemberUIDs meta)" "may_read u c (s\<lparr>mcache := ca\<rparr>)"
proof -
  obtain row ms where row: "row_get cv_id (conversations (mdb s)) c = Some row" "cv_members row = Some ms" "u \<in> set ms"
    using assms(1,2) by (auto simp: may_read_def)
  show ?thesis
  proof (cases "\<exists>m. rget (re_redis env) (re_now env) (mcache s) (metaKey c) = Some (VMeta m)")
    case True
    then obtain m where m: "rget (re_redis env) (re_now env) (mcache s) (metaKey c) = Some (VMeta m)" by blast
    then obtain r where "mcache s = Some r" "kv r (metaKey c) = Some (VMeta m)"
      by (auto simp: rget_def live_kv split: option.splits if_splits)
    then have "u \<in> set (MemberUIDs m)" using assms(1,2) by (auto simp: may_read_def)
    then show ?thesis using that m assms(1) by (simp add: GetConvMeta_def)
  next
    case False
    let ?m = "meta_of_row row ms" and ?ca = "map_option (cmd (re_redis env) SET (metaKey c)
        (put_ttl (re_now env) metaTTL (metaKey c) (VMeta (meta_of_row row ms)))) (mcache s)"
    have "GetConvMeta (re_redis env) (re_meta env c) (re_now env) (mcache s) (mdb s) c = (Inr ?m, ?ca)"
      using False row assms(3) by (auto simp: GetConvMeta_def Let_def split: option.splits rval.splits)
    moreover have "u \<in> set (MemberUIDs ?m)" using row(3) by (simp add: meta_of_row_def)
    moreover have "may_read u c (s\<lparr>mcache := ?ca\<rparr>)"
      using assms(1,2) row by (auto simp: may_read_def cmd_def put_ttl_def meta_of_row_def)
    ultimately show ?thesis using that by blast
  qed
qed

lemma RecentAdd_meta: "RecentAdd f now (Some r) c q j = Some r' \<Longrightarrow> kv r' (metaKey d) = kv r (metaKey d)"
  by (auto simp: RecentAdd_def Let_def cmd_def put_keep_def expire_def)

lemma fillRecent_cache: "\<exists>ca. fillRecent cd env c ms s = s\<lparr>mcache := ca\<rparr> \<and> (may_read u d s \<longrightarrow> may_read u d (s\<lparr>mcache := ca\<rparr>))"
proof (induction ms arbitrary: s)
  case Nil
  then show ?case by (auto simp: fillRecent_def intro: exI [of _ "mcache s"])
next
  case (Cons m ms)
  define t where "t = (case marshal_msg cd m of
       Some b \<Rightarrow> s\<lparr>mcache := RecentAdd (re_redis env) (re_now env) (mcache s) c (cm_seq m) b\<rparr> | None \<Rightarrow> s)"
  have "\<exists>ca. t = s\<lparr>mcache := ca\<rparr> \<and> (may_read u d s \<longrightarrow> may_read u d t)"
  proof (cases "marshal_msg cd m")
    case None
    then show ?thesis by (auto simp: t_def intro: exI [of _ "mcache s"])
  next
    case (Some b)
    have "may_read u d t" if "may_read u d s"
    proof (cases "mcache s")
      case None
      then show ?thesis using that by (simp add: t_def Some may_read_def RecentAdd_def)
    next
      case (Some r)
      then obtain r' where r': "RecentAdd (re_redis env) (re_now env) (mcache s) c (cm_seq m) b = Some r'"
        by (simp add: RecentAdd_def Let_def)
      then have "kv r' (metaKey d) = kv r (metaKey d)" using RecentAdd_meta Some by metis
      then show ?thesis using that Some r' \<open>marshal_msg cd m = Some b\<close> by (auto simp: t_def may_read_def)
    qed
    then show ?thesis using Some by (auto simp: t_def)
  qed
  then obtain ca where t: "t = s\<lparr>mcache := ca\<rparr>" "may_read u d s \<longrightarrow> may_read u d t" by blast
  obtain ca' where "fillRecent cd env c ms t = t\<lparr>mcache := ca'\<rparr>" "may_read u d t \<longrightarrow> may_read u d (t\<lparr>mcache := ca'\<rparr>)"
    using Cons.IH by blast
  then show ?case using t by (auto simp: fillRecent_def t_def [symmetric] intro!: exI [of _ ca'])
qed

lemma PullHistory_page:
  assumes "readable cd s c" "may_read u c s" "db_answers c s env"
  shows "\<exists>ca. PullHistory cd env u c b l s =
      (Inr (case if b = 0 then recentFromCache cd env s c (page_limit l) else None of
          Some ms \<Rightarrow> ms | None \<Rightarrow> db_page cd s c b (page_limit l)), s\<lparr>mcache := ca\<rparr>) \<and>
    may_read u c (s\<lparr>mcache := ca\<rparr>)"
proof -
  obtain ca where chk: "(if 0 < u then
        (case GetConvMeta (re_redis env) (re_meta env c) (re_now env) (mcache s) (mdb s) c of
           (Inl e, ca) \<Rightarrow> (Some (PullErr (''conv meta '' @ int_str c @ '': '' @ load_err_text e)), s\<lparr>mcache := ca\<rparr>)
         | (Inr meta, ca) \<Rightarrow> (if u \<in> set (MemberUIDs meta) then None else Some PullNotMember, s\<lparr>mcache := ca\<rparr>))
      else (None, s)) = (None, s\<lparr>mcache := ca\<rparr>)" and may: "may_read u c (s\<lparr>mcache := ca\<rparr>)"
    and rec: "recentFromCache cd env (s\<lparr>mcache := ca\<rparr>) c n = recentFromCache cd env s c n" for n
  proof (cases "0 < u")
    case False
    then show ?thesis using that [of "mcache s"] assms(2) by simp
  next
    case True
    have e: "re_meta env c = None" using assms(3) by (simp add: db_answers_def)
    obtain meta ca where G: "GetConvMeta (re_redis env) (re_meta env c) (re_now env) (mcache s) (mdb s) c = (Inr meta, ca)"
      and m: "u \<in> set (MemberUIDs meta)" "may_read u c (s\<lparr>mcache := ca\<rparr>)"
      using member_check_passes [OF assms(2) True e] by metis
    have "recentFromCache cd env (s\<lparr>mcache := ca\<rparr>) c n = recentFromCache cd env s c n" for n
      by (simp add: recentFromCache_def recent_meta_loaded [OF G])
    then show ?thesis using that [of ca] G m True by simp
  qed
  let ?t = "s\<lparr>mcache := ca\<rparr>"
  have db: "pullHistoryDB cd (re_rows env (shard_of s c) c) ?t c b (page_limit l) = Inr (db_page cd s c b (page_limit l))"
    using assms(3) pullHistoryDB_page [of cd ?t c b "page_limit l"] assms(1) by (simp add: db_answers_def db_page_def)
  obtain ca' where fill: "fillRecent cd env c (db_page cd s c b (page_limit l)) ?t = ?t\<lparr>mcache := ca'\<rparr>"
    "may_read u c (?t\<lparr>mcache := ca'\<rparr>)"
    using fillRecent_cache [of cd env c "db_page cd s c b (page_limit l)" ?t u c] may by blast
  show ?thesis
  proof (cases "if b = 0 then recentFromCache cd env s c (page_limit l) else None")
    case (Some ms)
    then show ?thesis using may unfolding PullHistory_def chk Let_def
      by (intro exI [of _ ca]) (simp add: rec split: if_splits)
  next
    case None
    then have "PullHistory cd env u c b l s = (Inr (db_page cd s c b (page_limit l)),
        if b = 0 then ?t\<lparr>mcache := ca'\<rparr> else ?t)"
      unfolding PullHistory_def chk Let_def using db fill(1) by (auto simp: rec)
    then show ?thesis using None may fill(2) by (auto split: if_splits)
  qed
qed

text \<open>The client's loop: page after page, each before the smallest number of the one before.\<close>

fun history_walk :: "codec \<Rightarrow> uid \<Rightarrow> conv_id \<Rightarrow> int \<Rightarrow> read_env list \<Rightarrow> int \<Rightarrow> svc \<Rightarrow> ConvMessage list option" where
  \<comment> \<open>one environment per call; \<open>None\<close>: a call failed, or the calls granted do not suffice\<close>
  "history_walk cd u c l [] b s = None"
| "history_walk cd u c l (env # envs) b s =
     (case PullHistory cd env u c b l s of
        (Inl _, s') \<Rightarrow> None
      | (Inr [], s') \<Rightarrow> Some []
      | (Inr (m # ms), s') \<Rightarrow> map_option (\<lambda>old. old @ m # ms) (history_walk cd u c l envs (cm_seq m) s'))"

lemma sorted_filter_less:
  assumes "sorted_wrt (\<lambda>a b. ms_seq a < ms_seq b) (xs @ y # ys)"
  shows "filter (\<lambda>r. ms_seq r < ms_seq y) (xs @ y # ys) = xs"
  using assms by (auto simp: sorted_wrt_append filter_id_conv filter_empty_conv)

text \<open>A page from the database splits what lies below the cursor into the rest and the page.\<close>

lemma db_page_split:
  assumes "readable cd s c" "tables_ok s" "0 < n"
    and "filter (\<lambda>r. 0 < b \<longrightarrow> ms_seq r < b) (conv_rows s c) = xs"
  shows "(xs = [] \<and> db_page cd s c b n = []) \<or>
    (\<exists>r rs rest. db_page cd s c b n = decoded cd r # rs \<and> cm_seq (decoded cd r) = ms_seq r \<and> 0 < ms_seq r \<and>
      filter (\<lambda>q. ms_seq q < ms_seq r) (conv_rows s c) = rest \<and> length rest < length xs \<and>
      map (decoded cd) rest @ db_page cd s c b n = map (decoded cd) xs)"
proof -
  let ?page = "rev (take n (rev xs))" and ?rest = "take (length xs - n) xs"
  have pg: "?page = drop (length xs - n) xs" by (simp add: rev_take)
  have split: "xs = ?rest @ ?page" by (simp add: pg)
  have P: "db_page cd s c b n = map (decoded cd) ?page" by (simp add: db_page_def assms(4))
  show ?thesis
  proof (cases ?page)
    case Nil
    then have "xs = []" using assms(3) by simp
    then show ?thesis using P by simp
  next
    case (Cons r rs)
    have sub: "set xs \<subseteq> set (conv_rows s c)" using assms(4) by auto
    have r: "r \<in> set xs" using Cons split by (metis in_set_conv_decomp)
    have rr: "message_of_row cd r \<noteq> None" "0 < ms_seq r"
      using r sub assms(1) by (auto simp: readable_def set_conv_rows)
    have sx: "sorted_wrt (\<lambda>a b. ms_seq a < ms_seq b) xs"
      using conv_rows_sorted [OF assms(2), of c] assms(4) sorted_wrt_filter by blast
    have below: "0 < b \<Longrightarrow> ms_seq r < b" using r assms(4) by auto
    have "filter (\<lambda>q. ms_seq q < ms_seq r) (conv_rows s c) = filter (\<lambda>q. ms_seq q < ms_seq r) xs"
      using assms(4) below by (auto simp flip: assms(4) intro!: filter_cong)
    also have "\<dots> = ?rest"
    proof -
      have xs: "xs = ?rest @ r # rs" using split Cons by simp
      have "sorted_wrt (\<lambda>a b. ms_seq a < ms_seq b) (?rest @ r # rs)" using sx xs by metis
      from sorted_filter_less [OF this] xs show ?thesis by metis
    qed
    finally have rest: "filter (\<lambda>q. ms_seq q < ms_seq r) (conv_rows s c) = ?rest" .
    have "length xs > 0" using r by (cases xs) auto
    then have "length ?rest < length xs" using assms(3) by simp
    moreover have "map (decoded cd) ?rest @ map (decoded cd) ?page = map (decoded cd) xs"
      using split by (metis map_append)
    moreover have "db_page cd s c b n = decoded cd r # map (decoded cd) rs" using P Cons by simp
    moreover have "cm_seq (decoded cd r) = ms_seq r" using decoded_simps [OF rr(1)] by simp
    ultimately show ?thesis using rest rr(2) P by metis
  qed
qed

lemma page_limit_pos: "0 < page_limit l"
  by (simp add: page_limit_def)

text \<open>Below a cursor only the database answers, and the walk returns exactly what lies there.\<close>

lemma walk_below:
  assumes "tables_ok s" "readable cd s c" "0 < b" "may_read u c (s\<lparr>mcache := ca\<rparr>)"
    and "\<forall>env \<in> set envs. db_answers c s env"
    and "filter (\<lambda>r. ms_seq r < b) (conv_rows s c) = xs" "length xs < length envs"
  shows "history_walk cd u c l envs b (s\<lparr>mcache := ca\<rparr>) = Some (map (decoded cd) xs)"
  using assms(3-)
proof (induction envs arbitrary: b ca xs)
  case Nil
  then show ?case by simp
next
  case (Cons env envs)
  let ?s = "s\<lparr>mcache := ca\<rparr>" and ?P = "db_page cd s c b (page_limit l)"
  have "readable cd ?s c" "db_answers c ?s env" using assms(2) Cons.prems(3) by simp_all
  from PullHistory_page [OF this(1) Cons.prems(2) this(2), of b l] obtain ca' where
    P: "PullHistory cd env u c b l ?s = (Inr ?P, s\<lparr>mcache := ca'\<rparr>)" and may: "may_read u c (s\<lparr>mcache := ca'\<rparr>)"
    using Cons.prems(1) by (auto simp: db_page_def)
  have xs: "filter (\<lambda>r. 0 < b \<longrightarrow> ms_seq r < b) (conv_rows s c) = xs" using Cons.prems(1,4) by simp
  from db_page_split [OF assms(2,1) page_limit_pos xs, of l] show ?case
  proof (elim disjE exE conjE)
    assume "xs = []" "?P = []"
    then show ?thesis using P by simp
  next
    fix r rs rest assume h: "?P = decoded cd r # rs" "cm_seq (decoded cd r) = ms_seq r" "0 < ms_seq r"
      "filter (\<lambda>q. ms_seq q < ms_seq r) (conv_rows s c) = rest" "length rest < length xs"
      "map (decoded cd) rest @ ?P = map (decoded cd) xs"
    have "history_walk cd u c l envs (ms_seq r) (s\<lparr>mcache := ca'\<rparr>) = Some (map (decoded cd) rest)"
      using Cons.prems(3,5) h(5) by (intro Cons.IH [OF h(3) may _ h(4)]) auto
    then show ?thesis using P h(1,2,6) by simp
  qed
qed

lemma recent_full: "recentFromCache cd env s c n = Some ms \<Longrightarrow> 0 < n \<Longrightarrow> \<exists>m ms'. ms = m # ms'"
proof -
  have len: "decode_all f xs = Some ys \<Longrightarrow> length ys = length xs" for f :: "string \<Rightarrow> ConvMessage option" and xs ys
    by (induction xs arbitrary: ys) (auto split: option.splits)
  assume "recentFromCache cd env s c n = Some ms" "0 < n"
  then show ?thesis using len by (cases ms) (fastforce simp: recentFromCache_def split: option.splits if_splits)+
qed

lemma walk_from_newest:
  assumes "tables_ok s" "readable cd s c" "may_read u c s"
    and "\<forall>e \<in> set (env # envs). db_answers c s e" "length (conv_rows s c) < length envs"
    and "\<And>m ms. recentFromCache cd env s c (page_limit l) = Some (m # ms) \<Longrightarrow> 0 < cm_seq m"
  shows "history_walk cd u c l (env # envs) 0 s = Some
      (case recentFromCache cd env s c (page_limit l) of
         None \<Rightarrow> map (decoded cd) (conv_rows s c)
       | Some page \<Rightarrow> map (decoded cd) (filter (\<lambda>r. ms_seq r < cm_seq (hd page)) (conv_rows s c)) @ page)"
    and "recentFromCache cd env s c (page_limit l) \<in> {None, Some (db_page cd s c 0 (page_limit l))} \<Longrightarrow>
      history_walk cd u c l (env # envs) 0 s = Some (map (decoded cd) (conv_rows s c))"
proof -
  let ?P = "db_page cd s c 0 (page_limit l)" and ?R = "recentFromCache cd env s c (page_limit l)"
  obtain ca where P: "PullHistory cd env u c 0 l s = (Inr (case ?R of Some ms \<Rightarrow> ms | None \<Rightarrow> ?P), s\<lparr>mcache := ca\<rparr>)"
    and may: "may_read u c (s\<lparr>mcache := ca\<rparr>)"
    using PullHistory_page [OF assms(2,3), of env 0 l] assms(4) by auto
  have below: "history_walk cd u c l envs b (s\<lparr>mcache := ca\<rparr>) =
      Some (map (decoded cd) (filter (\<lambda>r. ms_seq r < b) (conv_rows s c)))" if "0 < b" for b
    using assms(4,5) by (intro walk_below [OF assms(1,2) that may]) (auto intro: le_less_trans [OF length_filter_le])
  from db_page_split [OF assms(2,1) page_limit_pos, of 0 "conv_rows s c" l]
  have pg: "(conv_rows s c = [] \<and> ?P = []) \<or> (\<exists>m ms. ?P = m # ms \<and> 0 < cm_seq m \<and>
      map (decoded cd) (filter (\<lambda>r. ms_seq r < cm_seq m) (conv_rows s c)) @ ?P = map (decoded cd) (conv_rows s c))"
    by auto
  show A: "history_walk cd u c l (env # envs) 0 s = Some (case ?R of None \<Rightarrow> map (decoded cd) (conv_rows s c)
       | Some page \<Rightarrow> map (decoded cd) (filter (\<lambda>r. ms_seq r < cm_seq (hd page)) (conv_rows s c)) @ page)"
  proof (cases ?R)
    case None
    then show ?thesis using pg P below by auto
  next
    case (Some page)
    then obtain m ms where "page = m # ms" using recent_full page_limit_pos by blast
    then show ?thesis using P Some below [OF assms(6)] by simp
  qed
  show "history_walk cd u c l (env # envs) 0 s = Some (map (decoded cd) (conv_rows s c))"
    if "?R \<in> {None, Some ?P}"
  proof (cases ?R)
    case (Some page)
    then obtain m ms where "page = m # ms" using recent_full page_limit_pos by blast
    then show ?thesis using A Some pg that by auto
  qed (use A in simp)
qed

text \<open>
  A message whose copy never reached the recent cache, while enough others did, is missed: the
  full page from the cache steps over it, and the next page starts below that page.
\<close>

lemma recent_page_skips_message:
  assumes "tables_ok s" "readable cd s c" "may_read u c s"
    and "\<forall>e \<in> set (env # envs). db_answers c s e" "length (conv_rows s c) < length envs"
    and "recentFromCache cd env s c (page_limit l) = Some (m # ms)" "0 < cm_seq m"
    and "r \<in> set (conv_rows s c)" "cm_seq m < ms_seq r" "decoded cd r \<notin> set (m # ms)"
  shows "\<exists>out. history_walk cd u c l (env # envs) 0 s = Some out \<and> decoded cd r \<notin> set out"
proof -
  have dec: "cm_seq (decoded cd q) = ms_seq q" if "q \<in> set (conv_rows s c)" for q
    using that assms(2) decoded_simps by (auto simp: readable_def set_conv_rows)
  have "decoded cd r \<noteq> decoded cd q" if "q \<in> set (conv_rows s c)" "ms_seq q < cm_seq m" for q
    using dec [OF assms(8)] dec [OF that(1)] that(2) assms(9) by auto
  moreover have "history_walk cd u c l (env # envs) 0 s =
      Some (map (decoded cd) (filter (\<lambda>r. ms_seq r < cm_seq m) (conv_rows s c)) @ m # ms)"
    using walk_from_newest(1) [OF assms(1-5), of l] assms(6,7) by simp
  ultimately show ?thesis using assms(10) by auto
qed

lemma RecentAdd_lost: "f ZADD (recentKey c) = RErr \<Longrightarrow> f ZREM (recentKey c) = RErr \<Longrightarrow>
    RecentList g t (RecentAdd f now (Some r) c q j) c n = RecentList g t (Some (cmd f EXPIRE (recentKey c) (expire now recentTTL (recentKey c)) r)) c n"
  by (simp add: RecentAdd_def cmd_def Let_def)

text \<open>
  C23: Paging back through a conversation by \<open>PullHistory\<close>, from the newest page and always before the
  smallest number received, with any page size and any Redis failures, ends for a user who may
  read. When the recent cache does not answer the first call with a full page, the pages put
  together are all stored messages, each once, in order. When it does, that page is returned as
  it was cached, and the pages after it are exactly the stored messages below its first number,
  each once, in order; so the walk is complete when the cached page is the newest page of the
  table (\<open>recent_page_repeats_message\<close> and \<open>recent_page_skips_message\<close> are what happens when it
  is not).
\<close>

theorem history_walk_complete:
  assumes "tables_ok s" "readable cd s c" "may_read u c s"
    and "\<forall>e \<in> set (env # envs). db_answers c s e" "length (conv_rows s c) < length envs"
    and "\<And>m ms. recentFromCache cd env s c (page_limit l) = Some (m # ms) \<Longrightarrow> 0 < cm_seq m"
  shows "history_walk cd u c l (env # envs) 0 s = Some
      (case recentFromCache cd env s c (page_limit l) of
         None \<Rightarrow> map (decoded cd) (conv_rows s c)
       | Some page \<Rightarrow> map (decoded cd) (filter (\<lambda>r. ms_seq r < cm_seq (hd page)) (conv_rows s c)) @ page) \<and>
    (recentFromCache cd env s c (page_limit l) \<in> {None, Some (db_page cd s c 0 (page_limit l))} \<longrightarrow>
      history_walk cd u c l (env # envs) 0 s = Some (map (decoded cd) (conv_rows s c))) \<and>
    sorted_wrt (<) (map ms_seq (conv_rows s c)) \<and> set (conv_rows s c) = {r \<in> set (table_of s c). ms_conv r = c}"
  using walk_from_newest [OF assms] conv_rows_sorted [OF assms(1), of c] by (simp add: set_conv_rows sorted_wrt_map)

subsection \<open>Incremental synchronisation\<close>

text \<open>
  One way to use \<open>overflow\<close>: synchronise again from the number it names, until there is none
  (not the one the comment of \<open>sync.go\<close> gives, see \<open>overflow_paged_backward_misses\<close>).
\<close>

fun sync_walk :: "nat \<Rightarrow> codec \<Rightarrow> read_env \<Rightarrow> svc \<Rightarrow> uid \<Rightarrow> conv_id \<Rightarrow> int \<Rightarrow> ConvMessage list option" where
  "sync_walk 0 cd env s u c w = None"
| "sync_walk (Suc n) cd env s u c w =
     (case SyncConvs cd env u [(c, w)] s of
        Inl _ \<Rightarrow> None
      | Inr (ms, []) \<Rightarrow> Some ms
      | Inr (ms, (d, w') # _) \<Rightarrow> map_option (\<lambda>more. ms @ more) (sync_walk n cd env s u c w'))"

lemma pullIncrement_page:
  assumes "readable cd s c"
  shows "pullIncrement cd None s c w limit =
    Inr (map (decoded cd) (take limit (filter (\<lambda>r. w < ms_seq r) (conv_rows s c))),
      limit < length (filter (\<lambda>r. w < ms_seq r) (conv_rows s c)))"
proof -
  let ?F = "filter (\<lambda>r. w < ms_seq r) (conv_rows s c)"
  have "set (take (limit + 1) ?F) \<subseteq> set (conv_rows s c)" using set_take_subset by fastforce
  from decode_rows [OF assms this] show ?thesis
    by (auto simp: pullIncrement_def take_map [symmetric] min_def)
qed

lemma sync_once:
  assumes "readable cd s c" "c \<noteq> 0" "re_rows env (shard_of s c) c = None"
    and "filter (\<lambda>r. w < ms_seq r) (conv_rows s c) = xs"
  shows "SyncConvs cd env u [(c, w)] s = Inr (map (decoded cd) (take syncMax xs),
    if syncMax < length xs then [(c, ms_seq (last (take syncMax xs)))] else [])"
proof -
  have "cm_seq (last (map (decoded cd) (take syncMax xs))) = ms_seq (last (take syncMax xs))" if "syncMax < length xs"
  proof -
    have ne: "take syncMax xs \<noteq> []" using that by (auto simp: syncMax_def)
    then have "last (take syncMax xs) \<in> set xs" by (meson in_set_takeD last_in_set)
    then have "message_of_row cd (last (take syncMax xs)) \<noteq> None"
      using assms(1,4) by (auto simp: readable_def set_conv_rows)
    then show ?thesis using ne by (simp add: last_map decoded_simps)
  qed
  moreover have "take syncMax xs \<noteq> []" if "syncMax < length xs" using that by (auto simp: syncMax_def)
  ultimately show ?thesis using assms pullIncrement_page [OF assms(1), of w syncMax]
    by (auto simp: SyncConvs_def)
qed

lemma sync_walk_rows:
  assumes "readable cd s c" "tables_ok s" "c \<noteq> 0" "re_rows env (shard_of s c) c = None"
    and "filter (\<lambda>r. w < ms_seq r) (conv_rows s c) = xs" "length xs < n"
  shows "sync_walk n cd env s u c w = Some (map (decoded cd) xs)"
  using assms(5,6)
proof (induction n arbitrary: w xs)
  case 0
  then show ?case by simp
next
  case (Suc n)
  note once = sync_once [OF assms(1,3,4) Suc.prems(1), of u]
  show ?case
  proof (cases "syncMax < length xs")
    case False
    then show ?thesis using once by simp
  next
    case True
    let ?page = "take syncMax xs" and ?rest = "drop syncMax xs" and ?w = "ms_seq (last (take syncMax xs))"
    have ne: "?page \<noteq> []" using True by (auto simp: syncMax_def)
    have sx: "sorted_wrt (\<lambda>a b. ms_seq a < ms_seq b) (?page @ ?rest)"
      using conv_rows_sorted [OF assms(2), of c] Suc.prems(1) sorted_wrt_filter by fastforce
    have hi: "ms_seq r \<le> ?w" if "r \<in> set ?page" for r
    proof -
      have pg: "butlast ?page @ [last ?page] = ?page" using ne by simp
      have "sorted_wrt (\<lambda>a b. ms_seq a < ms_seq b) (butlast ?page @ [last ?page])"
        using sx unfolding pg sorted_wrt_append by blast
      then have "\<forall>x \<in> set (butlast ?page). ms_seq x < ?w" by (simp add: sorted_wrt_append)
      moreover have "r \<in> set (butlast ?page @ [last ?page])" using that unfolding pg .
      ultimately have "r = last ?page \<or> ms_seq r < ?w" by auto
      then show ?thesis by auto
    qed
    have lo: "?w < ms_seq r" if "r \<in> set ?rest" for r
      using that sx last_in_set [OF ne] unfolding sorted_wrt_append by blast
    have "last ?page \<in> set xs" by (meson in_set_takeD last_in_set ne)
    then have w: "w < ?w" using Suc.prems(1) by auto
    have "filter (\<lambda>r. ?w < ms_seq r) (conv_rows s c) = filter (\<lambda>r. ?w < ms_seq r) xs"
      using w by (auto simp flip: Suc.prems(1) intro!: filter_cong)
    also have "\<dots> = filter (\<lambda>r. ?w < ms_seq r) (?page @ ?rest)" by simp
    also have "\<dots> = ?rest"
    proof -
      have "filter (\<lambda>r. ?w < ms_seq r) ?page = []" using hi by (auto simp: filter_empty_conv not_less)
      moreover have "filter (\<lambda>r. ?w < ms_seq r) ?rest = ?rest" using lo by (simp add: filter_id_conv)
      ultimately show ?thesis by (simp only: filter_append append_Nil)
    qed
    finally have rest: "filter (\<lambda>r. ?w < ms_seq r) (conv_rows s c) = ?rest" .
    have "length ?rest < n" using Suc.prems(2) True by (simp add: syncMax_def)
    from Suc.IH [OF rest this] have "sync_walk n cd env s u c ?w = Some (map (decoded cd) ?rest)" .
    then show ?thesis using once True by (simp flip: map_append)
  qed
qed

lemma resync_walk_complete:
  assumes "tables_ok s" "readable cd s c" "c \<noteq> 0" "re_rows env (shard_of s c) c = None" "length (conv_rows s c) < n"
  shows "sync_walk n cd env s u c w = Some (map (decoded cd) (filter (\<lambda>r. w < ms_seq r) (conv_rows s c)))"
  using assms(5) by (intro sync_walk_rows [OF assms(2,1,3,4) refl]) (meson length_filter_le order_le_less_trans)

definition newer :: "svc \<Rightarrow> conv_id \<Rightarrow> int \<Rightarrow> message_row list" where
  \<comment> \<open>the stored messages above a watermark\<close>
  "newer s c w = filter (\<lambda>r. w < ms_seq r) (conv_rows s c)"

definition resume_at :: "svc \<Rightarrow> conv_id \<Rightarrow> int \<Rightarrow> int" where
  "resume_at s c w = ms_seq (last (take syncMax (newer s c w)))"

lemma resume_facts:
  assumes "tables_ok s" "syncMax < length (newer s c w)"
  shows "newer s c (resume_at s c w) = drop syncMax (newer s c w)" "w < resume_at s c w"
    "r \<in> set (take syncMax (newer s c w)) \<Longrightarrow> ms_seq r \<le> resume_at s c w"
proof -
  let ?xs = "newer s c w" and ?w = "resume_at s c w"
  let ?page = "take syncMax ?xs" and ?rest = "drop syncMax ?xs"
  have ne: "?page \<noteq> []" using assms(2) by (auto simp: syncMax_def)
  have sx: "sorted_wrt (\<lambda>a b. ms_seq a < ms_seq b) (?page @ ?rest)"
    using conv_rows_sorted [OF assms(1), of c] by (simp add: newer_def sorted_wrt_filter)
  have hi: "ms_seq r \<le> ?w" if "r \<in> set ?page" for r
  proof -
    have pg: "butlast ?page @ [last ?page] = ?page" using ne by simp
    have "sorted_wrt (\<lambda>a b. ms_seq a < ms_seq b) (butlast ?page @ [last ?page])"
      using sx unfolding pg sorted_wrt_append by blast
    then have "\<forall>x \<in> set (butlast ?page). ms_seq x < ?w" by (simp add: sorted_wrt_append resume_at_def)
    moreover have "r \<in> set (butlast ?page @ [last ?page])" using that unfolding pg .
    ultimately have "r = last ?page \<or> ms_seq r < ?w" by auto
    then show ?thesis by (auto simp: resume_at_def)
  qed
  have lo: "?w < ms_seq r" if "r \<in> set ?rest" for r
    using that sx last_in_set [OF ne] unfolding sorted_wrt_append resume_at_def by blast
  have "last ?page \<in> set ?xs" by (meson in_set_takeD last_in_set ne)
  then show w: "w < ?w" by (auto simp: newer_def resume_at_def)
  show "r \<in> set ?page \<Longrightarrow> ms_seq r \<le> ?w" by (rule hi)
  have "newer s c ?w = filter (\<lambda>r. ?w < ms_seq r) ?xs"
    using w by (auto simp: newer_def intro!: filter_cong)
  also have "\<dots> = filter (\<lambda>r. ?w < ms_seq r) (?page @ ?rest)" by simp
  also have "\<dots> = ?rest"
  proof -
    have "filter (\<lambda>r. ?w < ms_seq r) ?page = []" using hi by (auto simp: filter_empty_conv not_less)
    moreover have "filter (\<lambda>r. ?w < ms_seq r) ?rest = ?rest" using lo by (simp add: filter_id_conv)
    ultimately show ?thesis by (simp only: filter_append append_Nil)
  qed
  finally show "newer s c ?w = ?rest" .
qed

lemma increment_page:
  assumes "readable cd s c" "c \<noteq> 0" "re_rows env (shard_of s c) c = None"
  shows "sync_loop cd env s ((c, w) # wms) = map_sum id (\<lambda>(ms, ov).
    (map (decoded cd) (take syncMax (newer s c w)) @ ms,
     (if syncMax < length (newer s c w) then [(c, resume_at s c w)] else []) @ ov)) (sync_loop cd env s wms)"
proof -
  have P: "pullIncrement cd (re_rows env (shard_of s c) c) s c w syncMax =
      Inr (map (decoded cd) (take syncMax (newer s c w)), syncMax < length (newer s c w))"
    using pullIncrement_page [OF assms(1), of w syncMax] by (simp add: assms(3) newer_def)
  have "cm_seq (last (map (decoded cd) (take syncMax (newer s c w)))) = resume_at s c w \<and> newer s c w \<noteq> []"
    if "syncMax < length (newer s c w)"
  proof -
    have ne: "take syncMax (newer s c w) \<noteq> []" using that by (auto simp: syncMax_def)
    then have "last (take syncMax (newer s c w)) \<in> set (newer s c w)" by (meson in_set_takeD last_in_set)
    then have "message_of_row cd (last (take syncMax (newer s c w))) \<noteq> None"
      using assms(1) by (auto simp: readable_def set_conv_rows newer_def)
    then show ?thesis using ne by (auto simp: last_map decoded_simps resume_at_def)
  qed
  moreover have "syncMax \<noteq> 0" by (simp add: syncMax_def)
  ultimately show ?thesis using assms(2) by (cases "sync_loop cd env s wms") (auto simp: P split: prod.split)
qed

lemma sync_pages:
  assumes "\<forall>(c, w) \<in> set wms. c \<noteq> 0 \<longrightarrow> readable cd s c"
  shows "if \<exists>(c, w) \<in> set wms. c \<noteq> 0 \<and> re_rows env (shard_of s c) c \<noteq> None then \<exists>e. sync_loop cd env s wms = Inl e
    else sync_loop cd env s wms = Inr
      (concat (map (\<lambda>(c, w). map (decoded cd) (take syncMax (newer s c w))) (filter (\<lambda>(c, w). c \<noteq> 0) wms)),
       concat (map (\<lambda>(c, w). if syncMax < length (newer s c w) then [(c, resume_at s c w)] else [])
         (filter (\<lambda>(c, w). c \<noteq> 0) wms)))"
  using assms
proof (induction wms)
  case Nil
  then show ?case by simp
next
  case (Cons p wms)
  obtain c w where p: "p = (c, w)" by (cases p)
  have IH: "if \<exists>(c, w) \<in> set wms. c \<noteq> 0 \<and> re_rows env (shard_of s c) c \<noteq> None then \<exists>e. sync_loop cd env s wms = Inl e
    else sync_loop cd env s wms = Inr
      (concat (map (\<lambda>(c, w). map (decoded cd) (take syncMax (newer s c w))) (filter (\<lambda>(c, w). c \<noteq> 0) wms)),
       concat (map (\<lambda>(c, w). if syncMax < length (newer s c w) then [(c, resume_at s c w)] else [])
         (filter (\<lambda>(c, w). c \<noteq> 0) wms)))"
    using Cons by simp
  consider "c = 0" | "c \<noteq> 0" "re_rows env (shard_of s c) c \<noteq> None" | "c \<noteq> 0" "re_rows env (shard_of s c) c = None" by blast
  then show ?case
  proof cases
    case 1
    then show ?thesis using IH by (simp add: p)
  next
    case 2
    then show ?thesis by (auto simp: p pullIncrement_def)
  next
    case 3
    have r: "readable cd s c" using Cons.prems 3 by (simp add: p)
    show ?thesis using IH unfolding p increment_page [OF r 3] by (auto simp: 3 split: if_splits)
  qed
qed

text \<open>
  The comment of \<open>sync.go\<close> tells the client to follow an overflow entry by paging backward from
  its number. The entry's number is the largest one returned, and paging backward from it returns
  smaller numbers only: of what did not fit, nothing.
\<close>

lemma overflow_paged_backward_misses:
  assumes "tables_ok s" "readable cd s c" "may_read u c s" "\<forall>e \<in> set envs. db_answers c s e"
    and "length (conv_rows s c) < length envs" "0 \<le> w" "syncMax < length (newer s c w)"
  shows "\<exists>out. history_walk cd u c l envs (resume_at s c w) s = Some out \<and>
    (\<forall>r \<in> set (drop syncMax (newer s c w)). decoded cd r \<notin> set out)"
proof -
  let ?w = "resume_at s c w"
  have w: "0 < ?w" using resume_facts(2) [OF assms(1,7)] assms(6) by simp
  have "may_read u c (s\<lparr>mcache := mcache s\<rparr>)" using assms(3) by simp
  from walk_below [OF assms(1,2) w this assms(4) refl, of l] assms(5)
  have "history_walk cd u c l envs ?w s = Some (map (decoded cd) (filter (\<lambda>r. ms_seq r < ?w) (conv_rows s c)))"
    by (simp add: le_less_trans [OF length_filter_le])
  moreover have "decoded cd r \<noteq> decoded cd q"
    if h: "r \<in> set (newer s c ?w)" "q \<in> set (conv_rows s c)" "ms_seq q < ?w" for r q
  proof -
    have dec: "cm_seq (decoded cd x) = ms_seq x" if "x \<in> set (conv_rows s c)" for x
      using that assms(2) decoded_simps by (auto simp: readable_def set_conv_rows)
    have "r \<in> set (conv_rows s c)" "?w < ms_seq r" using h(1) by (auto simp: newer_def)
    with h(3) show ?thesis using dec [of r] dec [OF h(2)] by auto
  qed
  ultimately show ?thesis unfolding resume_facts(1) [OF assms(1,7), symmetric] by fastforce
qed

text \<open>
  C24: A synchronisation returns, for every watermark with a conversation, in the order they are
  sent, the first 200 stored messages above the watermark, in order; and an overflow entry for
  exactly the conversations of which more is stored, with the largest number returned, above
  which lies exactly what was left out. When the query of one of the conversations fails the
  whole call fails and returns nothing. (What the comment of \<open>sync.go\<close> tells the client to do with
  an overflow entry does not fetch the rest, \<open>overflow_paged_backward_misses\<close>; synchronising again
  from it does, \<open>resync_walk_complete\<close>.)
\<close>

theorem sync_returns_increments:
  assumes "tables_ok s" "\<forall>(c, w) \<in> set wms. c \<noteq> 0 \<longrightarrow> readable cd s c"
  shows "(if \<exists>(c, w) \<in> set wms. c \<noteq> 0 \<and> re_rows env (shard_of s c) c \<noteq> None
      then \<exists>e. SyncConvs cd env u wms s = Inl e
      else SyncConvs cd env u wms s = Inr
        (concat (map (\<lambda>(c, w). map (decoded cd) (take 200 (newer s c w))) (filter (\<lambda>(c, w). c \<noteq> 0) wms)),
         concat (map (\<lambda>(c, w). if 200 < length (newer s c w) then [(c, resume_at s c w)] else [])
           (filter (\<lambda>(c, w). c \<noteq> 0) wms)))) \<and>
    (200 < length (newer s c w) \<longrightarrow>
      newer s c w = take 200 (newer s c w) @ newer s c (resume_at s c w) \<and>
      (\<forall>r \<in> set (take 200 (newer s c w)). ms_seq r \<le> resume_at s c w))"
proof -
  have n: "syncMax = 200" by (simp add: syncMax_def)
  have "newer s c w = take 200 (newer s c w) @ newer s c (resume_at s c w) \<and>
      (\<forall>r \<in> set (take 200 (newer s c w)). ms_seq r \<le> resume_at s c w)" if "200 < length (newer s c w)"
    using resume_facts [OF assms(1), of c w] that by (simp add: n)
  then show ?thesis using sync_pages [OF assms(2), of env] unfolding SyncConvs_def n by blast
qed

subsection \<open>Read marks\<close>

definition read_seq :: "svc \<Rightarrow> uid \<Rightarrow> conv_id \<Rightarrow> int" where
  "read_seq s u c = (case row_get cs_key (user_conv_state (mdb s)) (u, c) of None \<Rightarrow> 0 | Some r \<Rightarrow> cs_read_seq r)"

lemma row_get_mark_row: "row_get cs_key (mark_row u c q now t) (u', c') =
    (if (u', c') = (u, c) then (case row_get cs_key t (u, c) of
        None \<Rightarrow> Some \<lparr>cs_uid = u, cs_conv = c, cs_read_seq = q, cs_update = now\<rparr>
      | Some r \<Rightarrow> Some (r\<lparr>cs_read_seq := max (cs_read_seq r) q, cs_update := now\<rparr>))
     else row_get cs_key t (u', c'))"
  unfolding mark_row_def by (subst row_get_upsert) (auto simp: cs_key_def)

lemma MarkRead_db:
  assumes "MarkRead env fault u c q0 s = (None, s')"
  shows "\<exists>meta ca. GetConvMeta (re_redis env) (re_meta env c) (re_now env) (mcache s) (mdb s) c = (Inr meta, ca) \<and>
    mdb s' = (mdb s)\<lparr>user_conv_state := mark_row u c (min q0 (LastSeq meta)) (re_now env) (user_conv_state (mdb s))\<rparr>"
proof -
  obtain res ca where G: "GetConvMeta (re_redis env) (re_meta env c) (re_now env) (mcache s) (mdb s) c = (res, ca)" by force
  then show ?thesis using assms
    by (cases res; cases fault) (auto simp: MarkRead_def Let_def min_def split: if_splits)
qed

text \<open>
  In the database read marks only move forward: a successful \<open>MarkRead\<close> sets the caller's mark to
  the larger of the old mark and the number sent, the latter cut to the conversation's last
  number as the cache or the database gives it, and changes no other mark; a failing one changes
  none.
\<close>

theorem mark_read_moves_forward:
  assumes "MarkRead env fault u c q0 s = (e, s')" "0 \<le> q0"
    and "\<And>m ca. GetConvMeta (re_redis env) (re_meta env c) (re_now env) (mcache s) (mdb s) c = (Inr m, ca) \<Longrightarrow> 0 \<le> LastSeq m"
  shows "read_seq s u' c' \<le> read_seq s' u' c' \<and> ((u', c') \<noteq> (u, c) \<longrightarrow> read_seq s' u' c' = read_seq s u' c') \<and>
    (if e = None then \<exists>m ca. GetConvMeta (re_redis env) (re_meta env c) (re_now env) (mcache s) (mdb s) c = (Inr m, ca) \<and>
        read_seq s' u c = max (read_seq s u c) (min q0 (LastSeq m))
     else mdb s' = mdb s)"
proof (cases e)
  case None
  then obtain m ca where G: "GetConvMeta (re_redis env) (re_meta env c) (re_now env) (mcache s) (mdb s) c = (Inr m, ca)"
    and db: "mdb s' = (mdb s)\<lparr>user_conv_state := mark_row u c (min q0 (LastSeq m)) (re_now env) (user_conv_state (mdb s))\<rparr>"
    using MarkRead_db assms(1) by blast
  have "0 \<le> min q0 (LastSeq m)" using assms(2,3) G by simp
  then have "read_seq s' u' c' = (if (u', c') = (u, c) then max (read_seq s u c) (min q0 (LastSeq m)) else read_seq s u' c')" for u' c'
    by (auto simp: read_seq_def db row_get_mark_row split: option.splits)
  then show ?thesis using G None by auto
next
  case (Some x)
  obtain res ca where G: "GetConvMeta (re_redis env) (re_meta env c) (re_now env) (mcache s) (mdb s) c = (res, ca)" by force
  then have "mdb s' = mdb s" using assms(1) Some by (cases res; cases fault) (auto simp: MarkRead_def Let_def split: if_splits)
  then show ?thesis using Some by (simp add: read_seq_def)
qed

lemma getReadSeq_db [simp]: "mdb (snd (getReadSeq env u c s)) = mdb s"
  by (auto simp: getReadSeq_def split: option.splits)

text \<open>
  The mark that is shown can move backward: \<open>MarkRead\<close> writes the number it was sent to the cache
  even when the database keeps a larger one, so after a late or repeated acknowledgement every
  reader of the cache sees the smaller mark, and unread counters grow again.
\<close>

theorem mark_read_cache_regresses:
  assumes "mcache s = Some r" "live (re_now env) r (metaKey c) = Some (VMeta meta)" "re_redis env = redis_up"
    and "0 \<le> q" "q \<le> LastSeq meta" "q < read_seq s u c" "Type meta \<noteq> CONV_SINGLE"
    and "MarkRead env None u c q s = (e, s')"
  shows "e = None \<and> read_seq s' u c = read_seq s u c \<and> fst (getReadSeq env u c s') = q"
proof -
  have G: "GetConvMeta (re_redis env) (re_meta env c) (re_now env) (mcache s) (mdb s) c = (Inr meta, Some r)"
    using assms by (simp add: GetConvMeta_def rget_def)
  have s': "e = None" "mdb s' = (mdb s)\<lparr>user_conv_state := mark_row u c q (re_now env) (user_conv_state (mdb s))\<rparr>"
    "mcache s' = SetReadSeq (re_redis env) (re_now env) (Some r) u c q"
    using assms G by (auto simp: MarkRead_def Let_def)
  have "read_seq s' u c = read_seq s u c"
    using assms(4,6) by (auto simp: read_seq_def s' row_get_mark_row split: option.splits)
  moreover have "fst (getReadSeq env u c s') = q"
    using assms(3) by (simp add: getReadSeq_def GetReadSeq_def s' SetReadSeq_def rget_def cmd_def metaTTL_def)
  ultimately show ?thesis using s' by simp
qed

subsection \<open>The newest page from the cache\<close>

lemma RecentAdd_zset:
  "redis_up = f \<Longrightarrow> \<exists>r'. RecentAdd f now (Some r) c q j = Some r' \<and>
    zset_of (live now r' (recentKey c)) = ztrim recentMaxLen (zadd q j (zset_of (live now r (recentKey c))))"
  by (auto simp: RecentAdd_def cmd_def zset_of_def recentTTL_def Let_def)

text \<open>
  A page can show a message twice: the copy that \<open>SendMessage\<close> caches carries a time read after the
  commit, the row an earlier one; when the two differ, the refill after a page from the database
  adds the row's text as a second member with the same number, and the next full page from the
  cache holds both.
\<close>

theorem recent_page_repeats_message:
  assumes "mcache s = Some r" "re_redis env = redis_up" "re_rows env (shard_of s c) c = None"
    and "zset_of (live (re_now env) r (recentKey c)) = [(q, j1)]" "unmarshal_msg cd j1 = Some m1"
    and "conv_rows s c = [row]" "message_of_row cd row = Some m" "ms_seq row = q"
    and "marshal_msg cd m = Some j2" "unmarshal_msg cd j2 = Some m" "j1 \<noteq> j2"
    and "PullHistory cd env 0 c 0 2 s = (res, s1)" "PullHistory cd env 0 c 0 2 s1 = (res2, s2)"
  shows "res = Inr [m] \<and> (res2 = Inr [m1, m] \<or> res2 = Inr [m, m1])"
proof -
  have l: "page_limit 2 = 2" by (simp add: page_limit_def)
  have miss: "recentFromCache cd env s c 2 = None"
    using assms by (simp add: recentFromCache_def RecentList_def zrevrange0_def Let_def)
  have db: "pullHistoryDB cd None s c 0 2 = Inr [m]"
    using assms by (simp add: pullHistoryDB_def)
  have q: "cm_seq m = q" using assms(7,8) by (auto simp: message_of_row_def)
  obtain r' where r': "RecentAdd (re_redis env) (re_now env) (Some r) c q j2 = Some r'"
    "zset_of (live (re_now env) r' (recentKey c)) = ztrim recentMaxLen (zadd q j2 [(q, j1)])"
    using RecentAdd_zset [of "re_redis env" "re_now env" r c q j2] assms(2,4) by auto
  have s1: "res = Inr [m]" "s1 = s\<lparr>mcache := Some r'\<rparr>"
    using assms miss db l q r' by (auto simp: PullHistory_def fillRecent_def)
  have z: "zset_of (live (re_now env) r' (recentKey c)) \<in> {[(q, j1), (q, j2)], [(q, j2), (q, j1)]}"
    using assms(11) by (auto simp: r' zadd_def ztrim_def recentMaxLen_def)
  then have hit: "recentFromCache cd env s1 c 2 \<in> {Some [m1, m], Some [m, m1]}"
    using assms(2,5,10) s1 by (auto simp: recentFromCache_def RecentList_def zrevrange0_def Let_def)
  show ?thesis using assms(13) hit l s1 by (auto simp: PullHistory_def)
qed

subsection \<open>Single chats\<close>

definition single_ok :: "meta_db \<Rightarrow> bool" where
  \<comment> \<open>each pair has at most one single chat, stored with exactly the pair as members and indexed for both\<close>
  "single_ok db \<longleftrightarrow> pk_ok sc_key (single_chat_index db) \<and>
     (\<forall>r \<in> set (single_chat_index db). sc_a r < sc_b r \<and> json_members (sc_conv r) db = Some [sc_a r, sc_b r] \<and>
        in_index (sc_conv r) (sc_a r) db \<and> in_index (sc_conv r) (sc_b r) db)"

lemma in_index_members: "row_get uc_key (index_members now c us t) (u, x) \<noteq> None \<longleftrightarrow>
    x = c \<and> u \<in> set us \<or> row_get uc_key t (u, x) \<noteq> None"
  unfolding index_members_def
proof (induction us arbitrary: t)
  case Nil
  then show ?case by simp
next
  case (Cons a us)
  have "row_get uc_key (row_ins_ignore uc_key \<lparr>uc_uid = a, uc_conv = c, uc_create = now\<rparr> t) (u, x) \<noteq> None \<longleftrightarrow>
      (u, x) = (a, c) \<or> row_get uc_key t (u, x) \<noteq> None"
    by (auto simp: row_get_ins_ignore uc_key_def split: option.splits)
  then show ?case using Cons by auto
qed

lemma create_tx_effect:
  assumes "create_tx env typ us nm c db = Inr db'"
  shows "row_get cv_id (conversations db) c = None"
    and "json_members x db' = (if x = c then Some us else json_members x db)"
    and "in_index x u db' \<longleftrightarrow> x = c \<and> u \<in> set us \<or> in_index x u db"
    and "role_of x u db' = role_of x u db"
    and "typ = CONV_SINGLE \<Longrightarrow> row_get sc_key (single_chat_index db) (us ! 0, us ! 1) = None \<and>
      single_chat_index db' = single_chat_index db @ [\<lparr>sc_a = us ! 0, sc_b = us ! 1, sc_conv = c\<rparr>]"
    and "typ \<noteq> CONV_SINGLE \<Longrightarrow> single_chat_index db' = single_chat_index db"
proof -
  have c: "row_get cv_id (conversations db) c = None" and
    db': "db' = db\<lparr>conversations := conversations db @ [\<lparr>cv_id = c, cv_type = typ, cv_members = Some us,
                   cv_last_seq = 0, cv_create = ce_now env, cv_name = nm, cv_avatar = []\<rparr>],
       user_conversations := index_members (ce_now env) c us (user_conversations db),
       single_chat_index := (if typ = CONV_SINGLE
         then single_chat_index db @ [\<lparr>sc_a = us ! 0, sc_b = us ! 1, sc_conv = c\<rparr>] else single_chat_index db)\<rparr>"
    and sc: "typ = CONV_SINGLE \<Longrightarrow> row_get sc_key (single_chat_index db) (us ! 0, us ! 1) = None"
    using assms unfolding create_tx_def Let_def by (auto simp: sc_key_def split: if_splits option.splits)
  show "row_get cv_id (conversations db) c = None" by (rule c)
  show "json_members x db' = (if x = c then Some us else json_members x db)"
    using c by (auto simp: json_members_def db' row_get_append split: option.splits)
  show "in_index x u db' \<longleftrightarrow> x = c \<and> u \<in> set us \<or> in_index x u db"
    using in_index_members [of "ce_now env" c us "user_conversations db" u x] by (simp add: in_index_def db')
  show "role_of x u db' = role_of x u db" by (simp add: role_of_def member_row_def db')
  show "typ = CONV_SINGLE \<Longrightarrow> row_get sc_key (single_chat_index db) (us ! 0, us ! 1) = None \<and>
      single_chat_index db' = single_chat_index db @ [\<lparr>sc_a = us ! 0, sc_b = us ! 1, sc_conv = c\<rparr>]"
    using sc by (simp add: db')
  show "typ \<noteq> CONV_SINGLE \<Longrightarrow> single_chat_index db' = single_chat_index db" by (simp add: db')
qed

definition new_end :: "int \<Rightarrow> uid list \<Rightarrow> string \<Rightarrow> svc \<Rightarrow> create_error + ConvMeta \<times> bool \<Rightarrow> svc \<Rightarrow> bool" where
  \<comment> \<open>how \<open>create_new\<close> leaves the database when it seeds no group\<close>
  "new_end typ us nm s res s' \<longleftrightarrow>
     (\<exists>e. res = Inl e) \<and> mdb s' = mdb s \<or>
     (\<exists>env c db'. create_tx env typ us nm c (mdb s) = Inr db' \<and> mdb s' = db' \<and>
        ((\<exists>e. res = Inl e) \<or> (\<exists>meta. res = Inr (meta, False) \<and> ConvID meta = c \<and> MemberUIDs meta = us)))"

lemma create_new_end:
  assumes "create_new rc env typ us ow nm s = (res, s')" "typ \<noteq> CONV_GROUP \<or> rc = None"
  shows "new_end typ us nm s res s'"
proof (cases "ce_alloc env")
  case (Inl e)
  then show ?thesis using assms by (auto simp: create_new_def new_end_def)
next
  case (Inr c)
  note alloc = this
  show ?thesis
  proof (cases "create_tx env typ us nm c (mdb s)")
    case (Inl e)
    then show ?thesis using assms alloc by (auto simp: create_new_def new_end_def)
  next
    case (Inr db')
    then have "(\<exists>e. res = Inl e) \<and> mdb s' = mdb s \<or> mdb s' = db' \<and>
        ((\<exists>e. res = Inl e) \<or> (\<exists>meta. res = Inr (meta, False) \<and> ConvID meta = c \<and> MemberUIDs meta = us))"
      using assms alloc by (auto simp: create_new_def commit_def Let_def split: option.splits if_splits)
    then show ?thesis using Inr by (auto simp: new_end_def)
  qed
qed

lemma single_ok_create:
  assumes "single_ok db" "create_tx env typ [a, b] nm c db = Inr db'" "a < b"
  shows "single_ok db'"
proof -
  note eff = create_tx_effect [OF assms(2)]
  have old: "sc_conv r \<noteq> c" if "r \<in> set (single_chat_index db)" for r
    using assms(1) that eff(1) by (auto simp: single_ok_def json_members_def)
  have new: "pk_ok sc_key (single_chat_index db')"
    using assms(1) eff(5,6) by (cases "typ = CONV_SINGLE") (auto simp: single_ok_def pk_ok_snoc row_get_None_iff sc_key_def)
  show ?thesis
    unfolding single_ok_def
  proof (intro conjI ballI new)
    fix r assume r: "r \<in> set (single_chat_index db')"
    then have "r \<in> set (single_chat_index db) \<or> r = \<lparr>sc_a = a, sc_b = b, sc_conv = c\<rparr>"
      using eff(5,6) by (cases "typ = CONV_SINGLE") auto
    moreover have "r \<in> set (single_chat_index db) \<Longrightarrow> sc_a r < sc_b r \<and>
        json_members (sc_conv r) db = Some [sc_a r, sc_b r] \<and> in_index (sc_conv r) (sc_a r) db \<and> in_index (sc_conv r) (sc_b r) db"
      using assms(1) by (simp add: single_ok_def)
    ultimately show "sc_a r < sc_b r" "json_members (sc_conv r) db' = Some [sc_a r, sc_b r]"
      "in_index (sc_conv r) (sc_a r) db'" "in_index (sc_conv r) (sc_b r) db'"
      using assms(3) old by (auto simp: eff(2,3))
  qed
qed

definition single_pair :: "uid list \<Rightarrow> uid \<Rightarrow> uid \<Rightarrow> bool" where
  "single_pair us a b \<longleftrightarrow> sort (dedup_on [] us) = [a, b] \<and> 0 < a \<and> a < b \<and> set us = {a, b}"

lemma single_pairI:
  assumes "length (dedup_on [] us) = 2" "\<not> (\<exists>u \<in> set us. u \<le> 0)"
  obtains a b where "single_pair us a b"
proof -
  obtain a b where ab: "sort (dedup_on [] us) = [a, b]"
    using assms(1) by (metis (no_types, lifting) One_nat_def Suc_1 length_0_conv length_Suc_conv length_sort)
  have S: "set us = {a, b}" using set_dedup_on [of "[]" us] arg_cong [OF ab, of set] by simp
  have "sorted [a, b]" "distinct [a, b]"
    using sorted_sort [of "dedup_on [] us"] distinct_dedup_on [of "[]" us] ab by (metis, metis distinct_sort)
  then have "single_pair us a b" using ab S assms(2) by (auto simp: single_pair_def not_le)
  then show thesis by (rule that)
qed

definition may_chat :: "relation_client option \<Rightarrow> uid \<Rightarrow> uid \<Rightarrow> svc \<Rightarrow> bool" where
  "may_chat rc a b s \<longleftrightarrow> (case rc of None \<Rightarrow> True | Some r \<Rightarrow> (case rc_check r a b s of (ok, e) \<Rightarrow> e = None \<and> ok))"

lemma may_chat_friends:
  assumes "may_chat (Some (relationAdapter rpc rf ff gf now)) a b s"
  shows "friends a b (mdb s) \<or> friends b a (mdb s)"
  using assms isFriend_eq [of ff a b "mdb s"]
  by (auto simp: may_chat_def relationAdapter_def rel_view_def CheckFriendship_def isFriend_def
      split: option.splits sum.splits)

lemma CreateConv_pair:
  assumes "single_pair us a b"
  shows "CreateConv rc env CONV_SINGLE us ow nm s =
      (if \<not> may_chat rc a b s then (Inl ErrNotFriends, s)
       else if ce_sql env CIndex \<noteq> None then (Inl (CreateErr (''single chat index: '' @ the (ce_sql env CIndex))), s)
       else case row_get sc_key (single_chat_index (mdb s)) (a, b) of
           Some row \<Rightarrow>
             (case GetConvMeta (ce_redis env) (ce_sql env CExist) (ce_now env) (mcache s) (mdb s) (sc_conv row) of
                (Inl e, ca) \<Rightarrow> (Inl (CreateErr (''load exist conv: '' @ load_err_text e)), s\<lparr>mcache := ca\<rparr>)
              | (Inr meta, ca) \<Rightarrow> (Inr (meta, True), s\<lparr>mcache := ca\<rparr>))
         | None \<Rightarrow> create_new rc env CONV_SINGLE [a, b] ow nm s)"
proof -
  have nths: "[a, b] ! 0 = a" "[a, b] ! 1 = b" by simp_all
  have ab: "sort (dedup_on [] us) = [a, b]" using assms by (simp add: single_pair_def)
  have "length (dedup_on [] us) = 2" using ab by (metis One_nat_def Suc_1 length_Cons length_sort list.size(3))
  moreover have "\<not> (\<exists>u \<in> set us. u \<le> 0)" using assms by (auto simp: single_pair_def)
  ultimately show ?thesis unfolding CreateConv_def Let_def ab nths may_chat_def by simp
qed

definition single_end :: "uid \<Rightarrow> uid \<Rightarrow> svc \<Rightarrow> create_error + ConvMeta \<times> bool \<Rightarrow> svc \<Rightarrow> bool" where
  \<comment> \<open>an allowed request for a pair finds the indexed conversation or writes a new one\<close>
  "single_end a b s res s' \<longleftrightarrow>
     (\<exists>row. row_get sc_key (single_chat_index (mdb s)) (a, b) = Some row \<and> mdb s' = mdb s \<and>
        (\<forall>meta ex. res = Inr (meta, ex) \<longrightarrow> ex)) \<or>
     (\<exists>env nm c db'. row_get sc_key (single_chat_index (mdb s)) (a, b) = None \<and>
        create_tx env CONV_SINGLE [a, b] nm c (mdb s) = Inr db' \<and> mdb s' = db' \<and>
        (\<forall>meta ex. res = Inr (meta, ex) \<longrightarrow> \<not> ex \<and> ConvID meta = c \<and> MemberUIDs meta = [a, b]))"

lemma CreateConv_single_end:
  assumes "single_pair us a b" "CreateConv rc env CONV_SINGLE us ow nm s = (res, s')"
  shows "(\<exists>e. res = Inl e) \<and> mdb s' = mdb s \<or> may_chat rc a b s \<and> single_end a b s res s'"
proof (cases "may_chat rc a b s \<and> ce_sql env CIndex = None")
  case False
  then have "(\<exists>e. res = Inl e) \<and> s' = s"
    using assms(2) unfolding CreateConv_pair [OF assms(1)] by (auto split: if_splits)
  then show ?thesis by auto
next
  case True
  note go = this
  show ?thesis
  proof (cases "row_get sc_key (single_chat_index (mdb s)) (a, b)")
    case (Some row)
    then have "mdb s' = mdb s" "(\<exists>e. res = Inl e) \<or> (\<exists>meta. res = Inr (meta, True))"
      using assms(2) go unfolding CreateConv_pair [OF assms(1)] by (auto split: prod.splits sum.splits)
    then show ?thesis using go Some by (auto simp: single_end_def)
  next
    case None
    then have "create_new rc env CONV_SINGLE [a, b] ow nm s = (res, s')"
      using assms(2) go unfolding CreateConv_pair [OF assms(1)] by simp
    from create_new_end [OF this] have "new_end CONV_SINGLE [a, b] nm s res s'"
      by (simp add: CONV_SINGLE_def CONV_GROUP_def)
    then show ?thesis using go None unfolding new_end_def single_end_def by fastforce
  qed
qed

lemma single_end_index:
  assumes "single_ok (mdb s)" "a < b" "single_end a b s res s'"
  shows "single_ok (mdb s')"
    and "\<exists>row. row_get sc_key (single_chat_index (mdb s')) (a, b) = Some row \<and>
        (\<forall>meta ex. res = Inr (meta, ex) \<longrightarrow>
          (if ex then row_get sc_key (single_chat_index (mdb s)) (a, b) = Some row \<and> mdb s' = mdb s
           else row_get sc_key (single_chat_index (mdb s)) (a, b) = None \<and> sc_conv row = ConvID meta \<and>
             MemberUIDs meta = [a, b]))"
proof -
  have new: "row_get sc_key (single_chat_index db') (a, b) = Some \<lparr>sc_a = a, sc_b = b, sc_conv = c\<rparr>"
    if "create_tx e CONV_SINGLE [a, b] nm c (mdb s) = Inr db'" for e nm c db'
    using create_tx_effect(5) [OF that] by (simp add: row_get_append sc_key_def)
  show "single_ok (mdb s')"
    using assms single_ok_create by (auto simp: single_end_def)
  show "\<exists>row. row_get sc_key (single_chat_index (mdb s')) (a, b) = Some row \<and>
        (\<forall>meta ex. res = Inr (meta, ex) \<longrightarrow>
          (if ex then row_get sc_key (single_chat_index (mdb s)) (a, b) = Some row \<and> mdb s' = mdb s
           else row_get sc_key (single_chat_index (mdb s)) (a, b) = None \<and> sc_conv row = ConvID meta \<and>
             MemberUIDs meta = [a, b]))"
    using assms(3) new unfolding single_end_def by (elim disjE exE conjE) (force, fastforce)
qed

text \<open>
  C25: A pair of users has one single chat, and only friends get one: whatever fails, creating a
  single chat keeps the index unique per pair and in agreement with the conversation and both
  users' lists; success means the pair is indexed: an existing row is left as it is with the whole
  database (what is returned beside it is the metadata the cache or the database gives), a new row
  names the conversation returned, whose members are the pair; and with the relation service
  attached, success or any change means the two are friends.
\<close>

theorem single_chat_unique_and_gated:
  assumes "single_ok (mdb s)" "CreateConv rc env CONV_SINGLE us ow nm s = (res, s')"
  shows "single_ok (mdb s') \<and>
    ((\<exists>meta ex. res = Inr (meta, ex)) \<or> mdb s' \<noteq> mdb s \<longrightarrow> (\<exists>a b. set us = {a, b} \<and> 0 < a \<and> a < b \<and>
      (rc = Some (relationAdapter rpc rf ff gf now) \<longrightarrow> friends a b (mdb s) \<or> friends b a (mdb s)) \<and>
      (\<exists>row. row_get sc_key (single_chat_index (mdb s')) (a, b) = Some row \<and>
        (\<forall>meta ex. res = Inr (meta, ex) \<longrightarrow>
          (if ex then row_get sc_key (single_chat_index (mdb s)) (a, b) = Some row \<and> mdb s' = mdb s
           else row_get sc_key (single_chat_index (mdb s)) (a, b) = None \<and> sc_conv row = ConvID meta \<and>
             MemberUIDs meta = [a, b])))))"
proof (cases "(\<exists>u \<in> set us. u \<le> 0) \<or> length (dedup_on [] us) \<noteq> 2")
  case True
  then have "(\<exists>e. res = Inl e) \<and> s' = s" using assms(2) by (auto simp: CreateConv_def Let_def split: if_splits)
  then show ?thesis using assms(1) by auto
next
  case False
  then obtain a b where p: "single_pair us a b" using single_pairI by auto
  then have ab: "set us = {a, b}" "0 < a" "a < b" by (simp_all add: single_pair_def)
  from CreateConv_single_end [OF p assms(2)] show ?thesis
  proof
    assume "(\<exists>e. res = Inl e) \<and> mdb s' = mdb s"
    then show ?thesis using assms(1) by auto
  next
    assume e: "may_chat rc a b s \<and> single_end a b s res s'"
    then have F: "rc = Some (relationAdapter rpc rf ff gf now) \<longrightarrow> friends a b (mdb s) \<or> friends b a (mdb s)"
      using may_chat_friends by blast
    note ends = single_end_index [OF assms(1) ab(3) conjunct2 [OF e]]
    show ?thesis
      by (intro conjI impI exI [of _ a] exI [of _ b] ends ab F)
  qed
qed

subsection \<open>Groups\<close>

lemma AddGroupMembers_success:
  assumes "AddGroupMembers rf flt now c us ow s = (None, s')"
  shows "add_tx c us ow (rdb s) (rdb s')"
proof (rule ccontr)
  assume "\<not> add_tx c us ow (rdb s) (rdb s')"
  then show False using assms
    by (auto simp: AddGroupMembers_def add_tx_def Let_def commit_def
        dest!: memberRole_eq split: if_splits option.splits sum.splits)
qed

text \<open>
  A created group is consistent: when creating a group succeeds through the relation service,
  whatever fails on the way, the conversation row, every member's conversation list and the
  group's member rows agree, the creator is among the members and is the only owner.
\<close>

theorem group_created_consistent:
  assumes "CreateConv (Some (relationAdapter rpc rf ff gf now)) env CONV_GROUP us ow nm s = (Inr (meta, ex), s')"
    and "\<And>u. role_of (ConvID meta) u (mdb s) = None" "\<And>u. \<not> in_index (ConvID meta) u (mdb s)"
  shows "\<not> ex \<and> agree (ConvID meta) (mdb s') \<and> sole_owner (ConvID meta) ow (mdb s') \<and> ow \<in> set us \<and>
    (\<exists>ms. json_members (ConvID meta) (mdb s') = Some ms \<and> set ms = set us)"
proof -
  let ?us = "dedup_on [] us" and ?rc = "relationAdapter rpc rf ff gf now"
  have S: "set ?us = set us" by (simp add: set_dedup_on)
  have "create_new (Some ?rc) env CONV_GROUP ?us ow (take_runes 32 (trim_space nm)) s = (Inr (meta, ex), s')"
    using assms(1) by (auto simp: CreateConv_def CONV_GROUP_def CONV_SINGLE_def Let_def split: if_splits)
  then obtain c db' s1 where tx: "create_tx env CONV_GROUP ?us (take_runes 32 (trim_space nm)) c (mdb s) = Inr db'"
    and s1: "rc_seed ?rc c ?us ow s1 = (None, s')" "mdb s1 = db'" and m: "ConvID meta = c" "\<not> ex"
    by (fastforce simp: create_new_def commit_def Let_def split: sum.splits option.splits prod.splits)
  obtain r where add: "AddGroupMembers rf gf now c ?us ow (rel_view s1) = (None, r)" and s': "mdb s' = rdb r"
    using s1(1) by (auto simp: relationAdapter_def Let_def split: option.splits prod.splits)
  have tx2: "add_tx c ?us ow db' (mdb s')"
    using AddGroupMembers_success [OF add] s1 s' by (simp add: rel_view_def)
  note eff = create_tx_effect(2-4) [OF tx]
  have norole: "role_of c u db' = None" for u using assms(2) m eff(3) by simp
  then have cnt: "member_count c db' = 0" by (simp add: member_count_0)
  then have ow: "ow \<in> set us" using tx2 S unfolding add_tx_def by blast
  note add_eff = add_tx_effect [OF tx2]
  obtain ms' where ms': "json_members c (mdb s') = Some ms'" "set ms' = set us"
    using add_eff(4) eff(1) S by auto
  have "agree c (mdb s')"
    unfolding agree_def using ms' norole assms(3) m S
    by (intro exI [of _ ms']) (auto simp: add_eff(1,2) eff(2))
  moreover have "sole_owner c ow (mdb s')"
    using norole ow S by (auto simp: sole_owner_def add_eff(1))
  ultimately show ?thesis using m ow ms' by auto
qed

subsection \<open>Witnesses\<close>

definition demo_read :: read_env where
  "demo_read = \<lparr>re_now = 2000, re_redis = redis_up, re_list = None, re_meta = (\<lambda>_. None),
     re_read = (\<lambda>_ _. None), re_rows = (\<lambda>_ _. None)\<rparr>"

definition read_codec :: codec where
  "read_codec = demo_codec\<lparr>unmarshal_content := (\<lambda>_. Some demo_text)\<rparr>"

lemma demo_conv_rows: "conv_rows (demo_sent 99) 7 = [demo_row 99]"
  by (simp add: conv_rows_def demo_sent_def demo_sends demo_sent_table) (simp add: demo_row_def)

lemma demo_readable: "readable read_codec (demo_sent 99) 7"
  by (simp add: readable_def demo_sent_def demo_sends demo_sent_table message_of_row_def read_codec_def)
     (simp add: demo_row_def)

text \<open>A conversation of 201 messages.\<close>

definition long_rows :: "message_row list" where
  "long_rows = map (\<lambda>k. (demo_row k)\<lparr>ms_id := k, ms_seq := k\<rparr>) [1..201]"

definition long_svc :: svc where
  "long_svc = demo_svc\<lparr>mshards := (\<lambda>i. if i = 0 then \<lparr>messages = (\<lambda>t. if t = 0 then long_rows else []),
     local_message = map (\<lambda>k. \<lparr>lm_id = k, lm_conv = 7, lm_status = 0, lm_create = 0\<rparr>) [1..201]\<rparr>
   else \<lparr>messages = (\<lambda>_. []), local_message = []\<rparr>)\<rparr>"

lemma long_table: "table_of long_svc 7 = long_rows" "shard_of long_svc c = MsgShard 0 0"
  by (simp_all add: table_of_def shard_of_demo long_svc_def msg_table_def)

lemma long_conv_rows: "conv_rows long_svc 7 = long_rows"
proof -
  have "filter (\<lambda>r. ms_conv r = 7) long_rows = long_rows"
    by (simp add: long_rows_def filter_id_conv demo_row_def)
  moreover have "sorted (map ms_seq long_rows)" by (simp add: long_rows_def o_def)
  ultimately show ?thesis by (simp add: conv_rows_def long_table sort_key_id_if_sorted)
qed

lemma long_tables_ok: "tables_ok long_svc"
proof -
  have rows: "msg_table (mshards long_svc) sh = (if sh = MsgShard 0 0 then long_rows else [])"
    "local_table (mshards long_svc) i = (if i = 0 then map (\<lambda>k. \<lparr>lm_id = k, lm_conv = 7, lm_status = 0, lm_create = 0\<rparr>) [1..201] else [])"
    for sh i by (cases sh; simp add: long_svc_def msg_table_def local_table_def)+
  have "distinct (map key long_rows)" if "\<And>k. key ((demo_row k)\<lparr>ms_id := k, ms_seq := k\<rparr>) = (7, k)" for key :: "message_row \<Rightarrow> int \<times> int"
    by (simp add: long_rows_def o_def that distinct_map inj_on_def)
  then have "shard_ok long_svc sh" for sh
    by (auto simp: shard_ok_def rows pk_ok_def ms_key_def ms_ukey_def ms_idkey_def demo_row_def long_table)
  moreover have "tasks_ok long_svc i" for i
    by (force simp: tasks_ok_def rows pk_ok_def lm_key_def ms_idkey_def long_rows_def demo_row_def distinct_map inj_on_def o_def)
  ultimately show ?thesis by (simp add: tables_ok_def)
qed

lemma long_readable: "readable read_codec long_svc 7"
  by (auto simp: readable_def long_table long_rows_def message_of_row_def read_codec_def demo_row_def)

lemma long_newer: "newer long_svc 7 0 = long_rows" "length long_rows = 201" "resume_at long_svc 7 0 = 200"
proof -
  show n: "newer long_svc 7 0 = long_rows" by (simp add: newer_def long_conv_rows filter_id_conv long_rows_def)
  show l: "length long_rows = 201" by (simp add: long_rows_def)
  have "take 200 [1..201] = [1..200::int]" by code_simp
  then have "take syncMax long_rows = map (\<lambda>k. (demo_row k)\<lparr>ms_id := k, ms_seq := k\<rparr>) [1..200]"
    by (simp only: long_rows_def syncMax_def take_map)
  moreover have "last [1..200::int] = 200" by code_simp
  ultimately show "resume_at long_svc 7 0 = 200" by (simp add: resume_at_def n last_map)
qed

lemma sync_returns_increments_witness:
  "SyncConvs read_codec demo_read 1 [(7, 0), (0, 5)] long_svc = Inr (map (decoded read_codec) (take 200 long_rows), [(7, 200)]) \<and>
   newer long_svc 7 200 = drop 200 long_rows"
proof -
  have r: "\<forall>(c, w) \<in> set [(7, 0), (0, 5)]. c \<noteq> 0 \<longrightarrow> readable read_codec long_svc c" using long_readable by simp
  have f: "re_rows demo_read (shard_of long_svc 7) 7 = None" by (simp add: demo_read_def)
  from sync_returns_increments [OF long_tables_ok r, of demo_read 1 7 0]
  have T: "SyncConvs read_codec demo_read 1 [(7, 0), (0, 5)] long_svc =
      Inr (map (decoded read_codec) (take 200 long_rows), [(7, 200)])"
    "long_rows = take 200 long_rows @ newer long_svc 7 200"
    by (simp_all add: f long_newer)
  have "take 200 long_rows @ newer long_svc 7 200 = take 200 long_rows @ drop 200 long_rows"
    by (simp only: T(2) [symmetric] append_take_drop_id)
  then show ?thesis using T(1) by (simp only: same_append_eq simp_thms)
qed

definition mark_svc :: svc where
  "mark_svc = demo_svc\<lparr>mdb := empty_meta\<lparr>user_conv_state := [\<lparr>cs_uid = 1, cs_conv = 7, cs_read_seq = 10, cs_update = 0\<rparr>]\<rparr>,
     mcache := Some (put_plain (metaKey 7) (VMeta (demo_meta\<lparr>LastSeq := 20, Type := 2\<rparr>)) empty_redis)\<rparr>"

lemma mark_svc_meta: "GetConvMeta (re_redis demo_read) (re_meta demo_read 7) (re_now demo_read) (mcache mark_svc) (mdb mark_svc) 7 =
    (Inr (demo_meta\<lparr>LastSeq := 20, Type := 2\<rparr>), mcache mark_svc)"
  by (simp add: GetConvMeta_def rget_def demo_read_def mark_svc_def)

lemma mark_read_moves_forward_witness:
  "read_seq (snd (MarkRead demo_read None 1 7 15 mark_svc)) 1 7 = 15"
proof -
  obtain e s' where M: "MarkRead demo_read None 1 7 15 mark_svc = (e, s')" by force
  moreover have "e = None" using M by (auto simp: MarkRead_def mark_svc_meta Let_def)
  moreover have "read_seq mark_svc 1 7 = 10" by (simp add: read_seq_def mark_svc_def cs_key_def)
  ultimately show ?thesis
    using mark_read_moves_forward [OF M, of 1 7] by (simp add: mark_svc_meta demo_meta_def)
qed

lemma mark_read_cache_regresses_witness:
  "read_seq (snd (MarkRead demo_read None 1 7 5 mark_svc)) 1 7 = 10 \<and>
   fst (getReadSeq demo_read 1 7 (snd (MarkRead demo_read None 1 7 5 mark_svc))) = 5"
proof -
  have r: "read_seq mark_svc 1 7 = 10" by (simp add: read_seq_def mark_svc_def cs_key_def)
  obtain e s' where M: "MarkRead demo_read None 1 7 5 mark_svc = (e, s')" by force
  have "e = None \<and> read_seq s' 1 7 = read_seq mark_svc 1 7 \<and> fst (getReadSeq demo_read 1 7 s') = 5"
    by (rule mark_read_cache_regresses [where meta = "demo_meta\<lparr>LastSeq := 20, Type := 2\<rparr>" and
          r = "put_plain (metaKey 7) (VMeta (demo_meta\<lparr>LastSeq := 20, Type := 2\<rparr>)) empty_redis", OF _ _ _ _ _ _ _ M])
      (simp_all add: r, simp_all add: mark_svc_def demo_read_def demo_meta_def CONV_SINGLE_def)
  then show ?thesis using M r by simp
qed

definition page_message :: "int \<Rightarrow> ConvMessage" where
  "page_message t = \<lparr>cm_msg_id = 5, cm_conv = 7, cm_from = 1, cm_seq = 1, cm_time = t, cm_content = demo_text\<rparr>"

definition page_codec :: codec where
  "page_codec = read_codec\<lparr>marshal_msg := (\<lambda>m. Some (if cm_time m = 1000 then ''t1000'' else ''t1001'')),
     unmarshal_msg := (\<lambda>j. Some (page_message (if j = ''t1000'' then 1000 else 1001)))\<rparr>"

definition page_svc :: svc where
  "page_svc = (demo_sent 99)\<lparr>mcache := Some (put_plain (recentKey 7) (VZset [(1, ''t1001'')]) empty_redis)\<rparr>"

lemma page_svc_rows: "conv_rows page_svc 7 = [demo_row 99]"
  using demo_conv_rows by (simp add: conv_rows_def page_svc_def table_of_def shard_of_def)

definition walk_svc :: svc where
  "walk_svc = page_svc\<lparr>mdb := empty_meta\<lparr>conversations := [\<lparr>cv_id = 7, cv_type = 1, cv_members = Some [1, 2],
     cv_last_seq = 1, cv_create = 0, cv_name = [], cv_avatar = []\<rparr>]\<rparr>\<rparr>"

lemma walk_svc_facts: "conv_rows walk_svc 7 = [demo_row 99]" "tables_ok walk_svc" "readable page_codec walk_svc 7"
    "may_read 1 7 walk_svc" "decoded page_codec (demo_row 99) = page_message 1000"
proof -
  have sh: "mshards walk_svc = mshards (demo_sent 99)" "mslots walk_svc = mslots (demo_sent 99)"
    by (simp_all add: walk_svc_def page_svc_def)
  show "conv_rows walk_svc 7 = [demo_row 99]"
    using demo_conv_rows by (simp add: conv_rows_def table_of_def shard_of_def sh)
  show "tables_ok walk_svc" using demo_sent_ok(2) [of 99] tables_ok_same [of "demo_sent 99" walk_svc] by (simp add: same_store_def sh)
  show "readable page_codec walk_svc 7"
    using demo_readable by (simp add: readable_def table_of_def shard_of_def sh message_of_row_def page_codec_def)
  show "may_read 1 7 walk_svc"
    by (simp add: may_read_def walk_svc_def page_svc_def put_plain_def empty_redis_def)
  show "decoded page_codec (demo_row 99) = page_message 1000"
    by (simp add: decoded_def message_of_row_def page_codec_def read_codec_def demo_row_def page_message_def)
qed

lemma walk_svc_recent: "0 < n \<Longrightarrow> recentFromCache page_codec demo_read walk_svc 7 n =
    (if n = 1 then Some [page_message 1001] else None)"
  by (auto simp: recentFromCache_def RecentList_def zrevrange0_def walk_svc_def page_svc_def zset_of_def demo_read_def
      page_codec_def Let_def)

lemma history_walk_complete_witness:
  "history_walk page_codec 1 7 50 [demo_read, demo_read, demo_read] 0 walk_svc = Some [page_message 1000] \<and>
   history_walk page_codec 1 7 1 [demo_read, demo_read, demo_read] 0 walk_svc = Some [page_message 1001]"
proof -
  have d: "\<forall>e \<in> set [demo_read, demo_read, demo_read]. db_answers 7 walk_svc e"
    by (simp add: db_answers_def demo_read_def)
  have l: "page_limit 50 = 50" "page_limit 1 = 1" by (simp_all add: page_limit_def)
  from history_walk_complete [OF walk_svc_facts(2-4) d, of 50] history_walk_complete [OF walk_svc_facts(2-4) d, of 1]
  show ?thesis by (simp add: l walk_svc_recent walk_svc_facts(1,5)) (simp add: page_message_def demo_row_def)
qed

lemma recent_page_repeats_message_witness:
  "\<exists>s1 ms s2. PullHistory page_codec demo_read 0 7 0 2 page_svc = (Inr [page_message 1000], s1) \<and>
    PullHistory page_codec demo_read 0 7 0 2 s1 = (Inr ms, s2) \<and> map cm_msg_id ms = [5, 5]"
proof -
  obtain res s1 where 1: "PullHistory page_codec demo_read 0 7 0 2 page_svc = (res, s1)" by force
  obtain res2 s2 where 2: "PullHistory page_codec demo_read 0 7 0 2 s1 = (res2, s2)" by force
  have "res = Inr [page_message 1000] \<and>
      (res2 = Inr [page_message 1001, page_message 1000] \<or> res2 = Inr [page_message 1000, page_message 1001])"
    by (rule recent_page_repeats_message [where ?j1.0 = "''t1001''" and ?j2.0 = "''t1000''" and
          r = "put_plain (recentKey 7) (VZset [(1, ''t1001'')]) empty_redis",
          OF _ _ _ _ _ page_svc_rows _ _ _ _ _ 1 2])
      (simp_all add: page_svc_def demo_read_def page_codec_def read_codec_def page_message_def message_of_row_def
        demo_row_def zset_of_def)
  then show ?thesis using 1 2 by (auto simp: page_message_def)
qed

definition demo_create :: create_env where
  "demo_create = \<lparr>ce_now = 1, ce_redis = redis_up, ce_sql = no_fault, ce_alloc = Inr 8\<rparr>"

definition demo_rel :: relation_client where
  "demo_rel = relationAdapter (\<lambda>_. None) redis_up no_fault no_fault 1"

definition friend_svc :: svc where
  "friend_svc = demo_svc\<lparr>mdb := empty_meta\<lparr>friendships := [\<lparr>fs_uid = 1, fs_friend = 2, fs_create = 0\<rparr>]\<rparr>\<rparr>"

lemma single_chat_unique_and_gated_witness:
  "\<exists>meta. fst (CreateConv (Some demo_rel) demo_create CONV_SINGLE [2, 1] 1 [] friend_svc) = Inr (meta, False) \<and>
     single_ok (mdb (snd (CreateConv (Some demo_rel) demo_create CONV_SINGLE [2, 1] 1 [] friend_svc)))"
proof -
  obtain res s' where C: "CreateConv (Some demo_rel) demo_create CONV_SINGLE [2, 1] 1 [] friend_svc = (res, s')" by force
  have f: "rc_check demo_rel 1 2 friend_svc = (True, None)"
    by (simp add: demo_rel_def relationAdapter_def CheckFriendship_def isFriend_def rel_view_def friend_svc_def)
  have "create_tx demo_create CONV_SINGLE [1, 2] [] 8 (mdb friend_svc) \<noteq> Inl e" for e
    by (simp add: create_tx_def demo_create_def friend_svc_def empty_meta_def Let_def)
  then obtain db where tx: "create_tx demo_create CONV_SINGLE [1, 2] [] 8 (mdb friend_svc) = Inr db"
    by (cases "create_tx demo_create CONV_SINGLE [1, 2] [] 8 (mdb friend_svc)") auto
  have "\<exists>meta. res = Inr (meta, False)"
    using C f tx by (auto simp: CreateConv_def create_new_def demo_create_def CONV_SINGLE_def CONV_GROUP_def Let_def friend_svc_def empty_meta_def)
  moreover have "single_ok (mdb friend_svc)" by (simp add: single_ok_def friend_svc_def empty_meta_def)
  ultimately show ?thesis using single_chat_unique_and_gated [OF _ C] C by auto
qed

lemma demo_group_created:
  "\<exists>meta s'. CreateConv (Some demo_rel) demo_create CONV_GROUP [1, 2, 3] 1 ''team'' demo_svc = (Inr (meta, False), s') \<and>
     ConvID meta = 8"
proof -
  let ?us = "[1, 2, 3] :: int list"
  have m0: "mdb demo_svc = empty_meta" by (simp add: demo_svc_def)
  have d: "dedup_on [] ?us = ?us" by simp
  have nm: "take_runes 32 (trim_space ''team'') = ''team''"
    by (simp add: trim_space_def is_space_def is_cont_def eval_nat_numeral)
  have "create_tx demo_create CONV_GROUP ?us ''team'' 8 empty_meta \<noteq> Inl e" for e
    by (simp add: create_tx_def demo_create_def empty_meta_def CONV_GROUP_def CONV_SINGLE_def Let_def)
  then obtain db where tx: "create_tx demo_create CONV_GROUP ?us ''team'' 8 empty_meta = Inr db"
    by (cases "create_tx demo_create CONV_GROUP ?us ''team'' 8 empty_meta") auto
  note eff = create_tx_effect [OF tx]
  let ?meta = "\<lparr>ConvID = 8, Type = CONV_GROUP, MemberUIDs = ?us, LastSeq = 0, CreateTimeMs = 1, Name = ''team'', Avatar = []\<rparr>"
  let ?s1 = "demo_svc\<lparr>mdb := db, mcache := SetConvMeta redis_up 1 (mcache demo_svc) ?meta\<rparr>"
  have "fst (AddGroupMembers redis_up no_fault 1 8 ?us 1 (rel_view ?s1)) = None"
    using AddGroupMembers_seed_ok [of 8 "rel_view ?s1" ?us 1 ?us redis_up 1] eff(2) [of 8] eff(4)
    by (simp add: rel_view_def role_of_def member_row_def empty_meta_def)
  then obtain r where add: "AddGroupMembers redis_up no_fault 1 8 ?us 1 (rel_view ?s1) = (None, r)"
    by (cases "AddGroupMembers redis_up no_fault 1 8 ?us 1 (rel_view ?s1)") auto
  have sql: "ce_alloc demo_create = Inr 8" "ce_sql demo_create CCommitFail = None" "ce_sql demo_create CCommitLost = None"
    "ce_now demo_create = 1" "ce_redis demo_create = redis_up" by (simp_all add: demo_create_def)
  have "create_new (Some demo_rel) demo_create CONV_GROUP ?us 1 ''team'' demo_svc =
      (Inr (?meta, False), ?s1\<lparr>mdb := rdb r, mcache := rcache r\<rparr>)"
    by (simp add: create_new_def sql m0 tx demo_rel_def relationAdapter_def add)
  then have "CreateConv (Some demo_rel) demo_create CONV_GROUP ?us 1 ''team'' demo_svc =
      (Inr (?meta, False), ?s1\<lparr>mdb := rdb r, mcache := rcache r\<rparr>)"
    unfolding CreateConv_def Let_def d nm by (simp add: CONV_GROUP_def CONV_SINGLE_def)
  then show ?thesis by fastforce
qed

lemma group_created_consistent_witness:
  "\<exists>meta s'. CreateConv (Some demo_rel) demo_create CONV_GROUP [1, 2, 3] 1 ''team'' demo_svc = (Inr (meta, False), s') \<and>
     agree (ConvID meta) (mdb s') \<and> sole_owner (ConvID meta) 1 (mdb s')"
proof -
  obtain meta s' where C: "CreateConv (Some demo_rel) demo_create CONV_GROUP [1, 2, 3] 1 ''team'' demo_svc = (Inr (meta, False), s')"
    "ConvID meta = 8" using demo_group_created by blast
  from group_created_consistent [OF C(1) [unfolded demo_rel_def]]
  have "agree (ConvID meta) (mdb s') \<and> sole_owner (ConvID meta) 1 (mdb s')"
    by (simp add: C(2) demo_svc_def empty_meta_def role_of_def member_row_def in_index_def)
  with C show ?thesis by blast
qed

end
