(* ===== verification/RelationRpc.thy ===== *)
theory RelationRpc
  imports Group
begin

text \<open>
  The RPC face of the relation service (\<open>cmd/yim-relation/handler.go\<close>): the requests and
  replies of \<open>service_relation.proto\<close> and the handler that turns one into the other, and the loop
  that adds the friends of a user to a raw presence event (\<open>EnrichPresence\<close> in
  \<open>internal/relation/events.go\<close>).
\<close>

subsection \<open>Requests and replies\<close>

datatype relation_req =
    SendFriendRequestReq uid uid string
  | HandleFriendRequestReq uid uid bool
  | ListFriendRequestsReq uid bool
  | ListFriendsReq uid "(int \<times> int) option"
  | DeleteFriendReq uid uid
  | CheckFriendshipReq uid uid
  | AddGroupMembersReq conv_id "uid list" uid
  | RemoveGroupMemberReq uid conv_id uid
  | QuitGroupReq uid conv_id
  | ListGroupMembersReq conv_id
  | UpdateGroupInfoReq uid conv_id string string
  | GetProfilesReq "uid list"
  | SearchUsersReq string uid int
  | UpdateProfileReq uid string string
  | GetPresenceReq "uid list"

datatype relation_rsp =
    AckRsp (rsp_error: "yim_error option")
  | RequestsRsp "friend_req list" (rsp_error: "yim_error option")
  | FriendsRsp "FriendBrief list" bool (rsp_error: "yim_error option")
  | CheckRsp bool
  | MembersRsp "GroupMember list" (rsp_error: "yim_error option")
  | ProfilesRsp "UserProfile list" (rsp_error: "yim_error option")
  | ProfileRsp "UserProfile option" (rsp_error: "yim_error option")
  | PresencesRsp "(uid \<times> Presence) list" (rsp_error: "yim_error option")
where "rsp_error (CheckRsp b) = None"

record relation_env =
  rl_redis :: rfaults
  rl_friend :: ffaults
  rl_group :: gfaults
  rl_profile :: "profile_sql faults"
  rl_query :: "string option"  \<comment> \<open>the failure of the query of \<open>GetProfiles\<close> and of \<open>SearchUsers\<close>\<close>
  rl_like :: "char \<Rightarrow> char \<Rightarrow> bool"
  rl_now :: int

definition err_of :: "yim_error + 'a \<Rightarrow> yim_error option" where
  "err_of r = (case r of Inl e \<Rightarrow> Some e | Inr _ \<Rightarrow> None)"

definition value_or :: "'a \<Rightarrow> yim_error + 'a \<Rightarrow> 'a" where
  \<comment> \<open>the zero value the service returns beside an error\<close>
  "value_or z r = (case r of Inl _ \<Rightarrow> z | Inr v \<Rightarrow> v)"

subsection \<open>The handler\<close>

fun relation_rpc :: "relation_env \<Rightarrow> relation_req \<Rightarrow> rel \<Rightarrow> relation_rsp \<times> rel" where
  "relation_rpc env (SendFriendRequestReq f t m) s =
     (let (e, s') = SendFriendRequest (rl_friend env) (rl_now env) f t m s in (AckRsp e, s'))"
| "relation_rpc env (HandleFriendRequestReq op f acc) s =
     (let (e, s') = HandleFriendRequest (rl_friend env) (rl_now env) op f acc s in (AckRsp e, s'))"
| "relation_rpc env (ListFriendRequestsReq u incoming) s =
     (let r = ListFriendRequests (rl_friend env) u incoming s in (RequestsRsp (value_or [] r) (err_of r), s))"
| "relation_rpc env (ListFriendsReq u page) s =
     (let (pageNum, pageSize) = (case page of None \<Rightarrow> (0, 0) | Some p \<Rightarrow> p);
          (r, s') = ListFriends (rl_redis env) (rl_friend env) (rl_now env) u pageNum pageSize s;
          (fs, hasMore) = value_or ([], False) r
      in (FriendsRsp fs hasMore (err_of r), s'))"
| "relation_rpc env (DeleteFriendReq op f) s =
     (let (e, s') = DeleteFriend (rl_friend env) op f s in (AckRsp e, s'))"
| "relation_rpc env (CheckFriendshipReq a b) s =
     (CheckRsp (value_or False (CheckFriendship (rl_friend env) a b s)), s)"
| "relation_rpc env (AddGroupMembersReq c us ow) s =
     (let (e, s') = AddGroupMembers (rl_redis env) (rl_group env) (rl_now env) c us ow s in (AckRsp e, s'))"
| "relation_rpc env (RemoveGroupMemberReq op c t) s =
     (let (e, s') = RemoveGroupMember (rl_redis env) (rl_group env) op c t s in (AckRsp e, s'))"
| "relation_rpc env (QuitGroupReq u c) s =
     (let (e, s') = QuitGroup (rl_redis env) (rl_group env) u c s in (AckRsp e, s'))"
| "relation_rpc env (ListGroupMembersReq c) s =
     (let (r, s') = ListGroupMembers (rl_redis env) (rl_group env) (rl_now env) c s
      in (MembersRsp (value_or [] r) (err_of r), s'))"
| "relation_rpc env (UpdateGroupInfoReq op c nm av) s =
     (let (e, s') = UpdateGroupInfo (rl_redis env) (rl_group env) op c nm av s in (AckRsp e, s'))"
| "relation_rpc env (GetProfilesReq us) s =
     (let (r, s') = GetProfiles (rl_redis env) (rl_query env) (rl_now env) us s
      in (ProfilesRsp (value_or [] r) (err_of r), s'))"
| "relation_rpc env (SearchUsersReq kw op limit) s =
     (let r = SearchUsers (rl_like env) (rl_query env) kw op limit s
      in (ProfilesRsp (value_or [] r) (err_of r), s))"
| "relation_rpc env (UpdateProfileReq u nick av) s =
     (let (r, s') = UpdateProfile (rl_redis env) (rl_profile env) (rl_now env) u nick av s
      in (ProfileRsp (value_or None r) (err_of r), s'))"
| "relation_rpc env (GetPresenceReq us) s =
     (PresencesRsp (GetPresence (rl_redis env) (rl_now env) us s) None, s)"

subsection \<open>Presence events\<close>

definition friendUIDs :: "string option \<Rightarrow> uid \<Rightarrow> meta_db \<Rightarrow> uid list" where
  "friendUIDs e u db = (if e \<noteq> None then [] else map fs_friend (filter (\<lambda>r. fs_uid r = u) (friendships db)))"

type_synonym topic_msg = "(EventFrame option \<times> uid list) option"
  \<comment> \<open>a record of \<open>yim.relation.event\<close>; \<open>None\<close> does not unmarshal\<close>

definition enrich_one :: "string option \<Rightarrow> topic_msg \<Rightarrow> rel \<Rightarrow> rel" where
  "enrich_one e m s =
     (case m of
        None \<Rightarrow> s
      | Some (ev, targets) \<Rightarrow>
          if targets \<noteq> [] then s
          else case ev of
              None \<Rightarrow> s
            | Some f \<Rightarrow>
                if ev_type f = EvPresence
                then (let fs = friendUIDs e (ev_uid f) (rdb s) in if fs \<noteq> [] then EmitFrame f fs s else s)
                else s)"

definition produced :: "rel \<Rightarrow> topic_msg list" where
  \<comment> \<open>what the service has put on the topic\<close>
  "produced s = (case rpub s of None \<Rightarrow> [] | Some l \<Rightarrow> map (\<lambda>(ev, ts). Some (Some ev, ts)) l)"

definition EnrichPresence :: "(nat \<Rightarrow> string option) \<Rightarrow> topic_msg list \<Rightarrow> rel \<Rightarrow> rel" where
  \<comment> \<open>the rounds of the loop over the records fetched, the failures of their queries given\<close>
  "EnrichPresence flt ms s = fold (\<lambda>(i, m). enrich_one (flt i) m) (enumerate 0 ms) s"

definition raw_presence :: "topic_msg \<Rightarrow> EventFrame option" where
  "raw_presence m = (case m of Some (Some f, []) \<Rightarrow> if ev_type f = EvPresence then Some f else None | _ \<Rightarrow> None)"

definition enriched :: "meta_db \<Rightarrow> topic_msg \<Rightarrow> relation_event list" where
  \<comment> \<open>what one record must lead to\<close>
  "enriched db m = (case raw_presence m of
       None \<Rightarrow> []
     | Some f \<Rightarrow> (let fs = map fs_friend (filter (\<lambda>r. fs_uid r = ev_uid f) (friendships db))
                 in if fs = [] then [] else [(f, fs)]))"

lemma enrich_one_spec:
  "rdb (enrich_one e m s) = rdb s"
  "rpub (enrich_one e m s) = map_option (\<lambda>l. l @ (if e = None then enriched (rdb s) m else [])) (rpub s)"
  by (auto simp: enrich_one_def enriched_def raw_presence_def friendUIDs_def EmitFrame_def Let_def
      option.map_ident split: option.split list.split if_splits)

lemma fold_enrich:
  assumes "\<And>i. flt i = None"
  shows "rdb (fold (\<lambda>(i, m). enrich_one (flt i) m) (enumerate n ms) s) = rdb s"
    and "rpub (fold (\<lambda>(i, m). enrich_one (flt i) m) (enumerate n ms) s) =
      map_option (\<lambda>l. l @ concat (map (enriched (rdb s)) ms)) (rpub s)"
  by (induction ms arbitrary: n s) (auto simp: enrich_one_spec assms option.map_comp comp_def option.map_ident)

lemma enriched_targets: "(f, ts) \<in> set (enriched db m) \<Longrightarrow> ts \<noteq> [] \<and> (\<forall>t. t \<in> set ts \<longleftrightarrow> friends (ev_uid f) t db)"
  by (auto simp: enriched_def friends_iff fs_key_def Let_def split: option.splits if_splits)

lemma enriched_skipped: "ts \<noteq> [] \<Longrightarrow> enriched db (Some (Some f, ts)) = []"
  by (auto simp: enriched_def raw_presence_def split: list.split)

text \<open>
  C40: A presence change reaches exactly the friends, once: the loop answers each raw presence event
  with one event for the same user, with the same online flag, whose targets are his friends, and
  every other record with nothing; and it does not feed itself, because the events it has put on
  the topic produce nothing when it reads them back.
\<close>

theorem presence_reaches_friends_once:
  assumes "\<And>i. flt i = None" "rpub s = Some old"
  shows "\<exists>new. rpub (EnrichPresence flt ms s) = Some (old @ new) \<and> rdb (EnrichPresence flt ms s) = rdb s \<and>
    map fst new = filter (\<lambda>f. \<exists>t. friends (ev_uid f) t (rdb s)) (List.map_filter raw_presence ms) \<and>
    (\<forall>(f, ts) \<in> set new. \<forall>t. t \<in> set ts \<longleftrightarrow> friends (ev_uid f) t (rdb s)) \<and>
    EnrichPresence flt (map (\<lambda>(f, ts). Some (Some f, ts)) new) (EnrichPresence flt ms s) = EnrichPresence flt ms s"
proof -
  let ?new = "concat (map (enriched (rdb s)) ms)"
  have one: "map fst (enriched (rdb s) m) =
      (case raw_presence m of None \<Rightarrow> [] | Some f \<Rightarrow> if \<exists>t. friends (ev_uid f) t (rdb s) then [f] else [])" for m
    by (auto simp: enriched_def friends_iff fs_key_def Let_def filter_empty_conv split: option.split)
  have firsts: "map fst ?new = filter (\<lambda>f. \<exists>t. friends (ev_uid f) t (rdb s)) (List.map_filter raw_presence ms)"
    by (induction ms) (auto simp: one List.map_filter_simps split: option.split)
  have nonempty: "\<forall>(f, ts) \<in> set ?new. ts \<noteq> [] \<and> (\<forall>t. t \<in> set ts \<longleftrightarrow> friends (ev_uid f) t (rdb s))"
    using enriched_targets by fastforce
  have again: "EnrichPresence flt (map (\<lambda>(f, ts). Some (Some f, ts)) new) s' = s'"
    if "\<forall>(f, ts) \<in> set new. ts \<noteq> []" for new s'
  proof -
    have "fold (\<lambda>(i, m). enrich_one (flt i) m) (enumerate n (map (\<lambda>(f, ts). Some (Some f, ts)) new)) s' = s'" for n
      using that by (induction new arbitrary: n) (auto simp: enrich_one_def)
    then show ?thesis by (simp add: EnrichPresence_def)
  qed
  have pub: "rpub (EnrichPresence flt ms s) = Some (old @ ?new)" and db: "rdb (EnrichPresence flt ms s) = rdb s"
    using fold_enrich [of flt, OF assms(1)] assms by (simp_all add: EnrichPresence_def)
  have targets: "\<forall>(f, ts) \<in> set ?new. \<forall>t. t \<in> set ts \<longleftrightarrow> friends (ev_uid f) t (rdb s)"
    and ne: "\<forall>(f, ts) \<in> set ?new. ts \<noteq> []"
    using nonempty by fast+
  show ?thesis
    by (rule exI [of _ ?new]) (intro conjI pub db firsts targets again [OF ne])
qed

lemma presence_reaches_friends_once_witness:
  "\<exists>s new. rpub s = Some [] \<and> friends 1 2 (rdb s) \<and>
     rpub (EnrichPresence (\<lambda>_. None) [Some (Some \<lparr>ev_type = EvPresence, ev_uid = 1, ev_conv = 0, ev_online = True, ev_seq = 0\<rparr>, [])] s)
       = Some new \<and> map fst new = [\<lparr>ev_type = EvPresence, ev_uid = 1, ev_conv = 0, ev_online = True, ev_seq = 0\<rparr>]"
proof -
  let ?ev = "\<lparr>ev_type = EvPresence, ev_uid = 1, ev_conv = 0, ev_online = True, ev_seq = 0\<rparr>"
  let ?s = "rel0\<lparr>rdb := add_friend_row 2 1 0 (add_friend_row 1 2 0 empty_meta)\<rparr>"
  have p: "rpub ?s = Some []" by (simp add: rel0_def)
  have f: "friends 1 2 (rdb ?s)" by simp
  have r: "List.map_filter raw_presence [Some (Some ?ev, [])] = [?ev]"
    by (simp add: List.map_filter_simps raw_presence_def)
  from presence_reaches_friends_once [of "\<lambda>_. None" ?s "[]" "[Some (Some ?ev, [])]", OF refl p]
  obtain new where "rpub (EnrichPresence (\<lambda>_. None) [Some (Some ?ev, [])] ?s) = Some ([] @ new)"
    "map fst new = filter (\<lambda>f. \<exists>t. friends (ev_uid f) t (rdb ?s)) [?ev]"
    unfolding r by blast
  with p f show ?thesis by (intro exI [of _ ?s] exI [of _ new]) auto
qed

end
