(* ===== verification/Tokens.thy ===== *)
theory Tokens
  imports Prelude
begin

text \<open>
  Login tokens: \<open>Tokenizer\<close> of \<open>internal/logic/jwt.go\<close> (issue and verify), and the two verifiers
  that repeat it, \<open>JWTAuthenticator\<close> of \<open>internal/comet/auth.go\<close> and \<open>jwtVerifier\<close> of
  \<open>internal/middleware/auth.go\<close> with the middleware around it.

  \<open>base64.RawURLEncoding\<close> is written out. The signature is HMAC-SHA256 of a key and a text, a
  parameter returning the 32 bytes as a string; \<open>json.Unmarshal\<close> of a claims object is a
  parameter that returns the decoded fields. Times are in milliseconds; \<open>Unix()\<close> is the quotient by 1000.
\<close>

subsection \<open>\<open>base64.RawURLEncoding\<close>\<close>

definition b64_alphabet :: string where
  "b64_alphabet = ''ABCDEFGHIJKLMNOPQRSTUVWXYZabcdefghijklmnopqrstuvwxyz0123456789-_''"

definition b64_char :: "nat \<Rightarrow> char" where "b64_char n = b64_alphabet ! n"

definition b64_val :: "char \<Rightarrow> nat option" where
  "b64_val c = map_of (zip b64_alphabet [0..<64]) c"

definition byte :: "char \<Rightarrow> nat" where "byte c = of_char c"

fun b64_encode :: "string \<Rightarrow> string" where
  "b64_encode [] = []"
| "b64_encode [a] = [b64_char (byte a div 4), b64_char (byte a mod 4 * 16)]"
| "b64_encode [a, b] = [b64_char (byte a div 4), b64_char (byte a mod 4 * 16 + byte b div 16),
     b64_char (byte b mod 16 * 4)]"
| "b64_encode (a # b # c # s) = b64_char (byte a div 4) # b64_char (byte a mod 4 * 16 + byte b div 16) #
     b64_char (byte b mod 16 * 4 + byte c div 64) # b64_char (byte c mod 64) # b64_encode s"

fun b64_groups :: "nat list \<Rightarrow> string option" where
  \<comment> \<open>the spare bits of a short last group are ignored: the encoding is not \<open>Strict\<close>\<close>
  "b64_groups [] = Some []"
| "b64_groups [v] = None"
| "b64_groups [v, w] = Some [char_of (v * 4 + w div 16)]"
| "b64_groups [v, w, x] = Some [char_of (v * 4 + w div 16), char_of (w mod 16 * 16 + x div 4)]"
| "b64_groups (v # w # x # y # r) = map_option (\<lambda>s. char_of (v * 4 + w div 16) #
     char_of (w mod 16 * 16 + x div 4) # char_of (x mod 4 * 64 + y) # s) (b64_groups r)"

fun all_some :: "'a option list \<Rightarrow> 'a list option" where
  "all_some [] = Some []"
| "all_some (x # xs) = (case x of None \<Rightarrow> None | Some y \<Rightarrow> map_option (Cons y) (all_some xs))"

definition b64_decode :: "string \<Rightarrow> string option" where
  \<comment> \<open>\<open>DecodeString\<close>: line breaks are skipped\<close>
  "b64_decode s =
     (case all_some (map b64_val (filter (\<lambda>c. c \<noteq> CHR 0x0A \<and> c \<noteq> CHR 0x0D) s)) of
        None \<Rightarrow> None | Some vs \<Rightarrow> b64_groups vs)"

lemma length_alphabet: "length b64_alphabet = 64"
  by (simp add: b64_alphabet_def)

lemma distinct_alphabet: "distinct b64_alphabet"
  by (simp add: b64_alphabet_def)

lemma alphabet_plain: "c \<in> set b64_alphabet \<Longrightarrow> c \<noteq> CHR 0x0A \<and> c \<noteq> CHR 0x0D \<and> c \<noteq> CHR ''.''"
  by (auto simp: b64_alphabet_def)

lemma b64_val_char: "n < 64 \<Longrightarrow> b64_val (b64_char n) = Some n"
  using map_of_zip_nth [of b64_alphabet "[0..<64]" n] length_alphabet distinct_alphabet
  by (simp add: b64_val_def b64_char_def)

lemma b64_char_in: "n < 64 \<Longrightarrow> b64_char n \<in> set b64_alphabet"
  by (simp add: b64_char_def length_alphabet)

lemma byte_lt: "byte c < 256"
  by (simp add: byte_def)

lemma char_of_byte [simp]: "char_of (byte c) = c"
  by (simp add: byte_def)

lemma b64_encode_chars: "set (b64_encode s) \<subseteq> set b64_alphabet"
proof (induction s rule: b64_encode.induct)
  case (2 a)
  then show ?case using byte_lt [of a] by (simp add: b64_char_in)
next
  case (3 a b)
  then show ?case using byte_lt [of a] byte_lt [of b] by (simp add: b64_char_in)
next
  case (4 a b c s)
  then show ?case using byte_lt [of a] byte_lt [of b] byte_lt [of c] by (simp add: b64_char_in)
qed simp

lemma b64_decode_encode [simp]: "b64_decode (b64_encode s) = Some s"
proof -
  have "filter (\<lambda>c. c \<noteq> CHR 0x0A \<and> c \<noteq> CHR 0x0D) (b64_encode s) = b64_encode s"
    using b64_encode_chars [of s] alphabet_plain by (auto simp: filter_id_conv)
  moreover have "\<exists>vs. all_some (map b64_val (b64_encode s)) = Some vs \<and> b64_groups vs = Some s"
  proof (induction s rule: b64_encode.induct)
    case (2 a)
    have "byte a div 4 * 4 + byte a mod 4 = byte a" by simp
    then show ?case using byte_lt [of a] by (simp add: b64_val_char)
  next
    case (3 a b)
    have "(byte a mod 4 * 16 + byte b div 16) div 16 = byte a mod 4"
      "(byte a mod 4 * 16 + byte b div 16) mod 16 = byte b div 16"
      using byte_lt [of b] by auto
    then show ?case using byte_lt [of a] byte_lt [of b] by (simp add: b64_val_char)
  next
    case (4 a b c s)
    have "(byte a mod 4 * 16 + byte b div 16) div 16 = byte a mod 4"
      "(byte a mod 4 * 16 + byte b div 16) mod 16 = byte b div 16"
      "(byte b mod 16 * 4 + byte c div 64) div 4 = byte b mod 16"
      "(byte b mod 16 * 4 + byte c div 64) mod 4 = byte c div 64"
      using byte_lt [of b] byte_lt [of c] by auto
    then show ?case using 4 byte_lt [of a] byte_lt [of b] byte_lt [of c] by (auto simp: b64_val_char)
  qed simp
  ultimately show ?thesis by (auto simp: b64_decode_def)
qed

lemma b64_no_dot: "CHR ''.'' \<notin> set (b64_encode s)"
  using b64_encode_chars alphabet_plain by blast

subsection \<open>Issuing and verifying\<close>

record json_claims =
  jc_uid :: int
  jc_exp :: int
  jc_iat :: "int option"   \<comment> \<open>\<open>None\<close>: an \<open>iat\<close> that is not an integer\<close>

record crypto =
  hmac :: "string \<Rightarrow> string \<Rightarrow> string"
  unmarshal_claims :: "string \<Rightarrow> json_claims option"   \<comment> \<open>missing fields are 0\<close>

definition tokenTTL :: int where "tokenTTL = 7 * 24 * 3600 * 1000"

datatype token_error = ErrTokenExpired | ErrTokenInvalid

definition dot :: string where "dot = ''.''"

definition quoted :: "string \<Rightarrow> string" where
  "quoted s = [CHR 0x22] @ s @ [CHR 0x22]"

definition headerB64 :: string where
  "headerB64 = b64_encode (''{'' @ quoted ''alg'' @ '':'' @ quoted ''HS256'' @ '','' @
     quoted ''typ'' @ '':'' @ quoted ''JWT'' @ ''}'')"

definition marshal_claims :: "int \<Rightarrow> int \<Rightarrow> int \<Rightarrow> string" where
  "marshal_claims uid exp iat = ''{'' @ quoted ''uid'' @ '':'' @ int_str uid @ '','' @
     quoted ''exp'' @ '':'' @ int_str exp @ '','' @ quoted ''iat'' @ '':'' @ int_str iat @ ''}''"

definition sign_token :: "crypto \<Rightarrow> string \<Rightarrow> string \<Rightarrow> string \<Rightarrow> string" where
  "sign_token cr secret header payload = b64_encode (hmac cr secret (header @ dot @ payload))"

definition Issue :: "crypto \<Rightarrow> string \<Rightarrow> int \<Rightarrow> uid \<Rightarrow> string \<times> int" where
  "Issue cr secret now uid =
     (let exp = now + tokenTTL;
          payload = b64_encode (marshal_claims uid (exp div 1000) (now div 1000))
      in (headerB64 @ dot @ payload @ dot @ sign_token cr secret headerB64 payload, exp))"

definition Verify :: "crypto \<Rightarrow> string \<Rightarrow> int \<Rightarrow> string \<Rightarrow> token_error + uid" where
  "Verify cr secret now token =
     (case split_on CHR ''.'' token of
        [h, p, g] \<Rightarrow>
          (if sign_token cr secret h p \<noteq> g then Inl ErrTokenInvalid
           else if h \<noteq> headerB64 then Inl ErrTokenInvalid
           else case b64_decode p of
               None \<Rightarrow> Inl ErrTokenInvalid
             | Some raw \<Rightarrow>
                 (case unmarshal_claims cr raw of
                    None \<Rightarrow> Inl ErrTokenInvalid
                  | Some c \<Rightarrow>
                      if jc_iat c = None \<or> jc_uid c \<le> 0 then Inl ErrTokenInvalid
                      else if jc_exp c \<le> now div 1000 then Inl ErrTokenExpired
                      else Inr (jc_uid c)))
      | _ \<Rightarrow> Inl ErrTokenInvalid)"

subsection \<open>The verifier of the connection servers\<close>

definition DevAuth :: "string \<Rightarrow> string + uid" where
  \<comment> \<open>\<open>DevAuthenticator.Auth\<close>\<close>
  "DevAuth token =
     (if \<not> has_prefix ''dev.'' token then Inl ''invalid token format''
      else case parse_int (drop 4 token) of
          None \<Rightarrow> Inl ''invalid token uid''
        | Some uid \<Rightarrow> if uid \<le> 0 then Inl ''invalid token uid'' else Inr uid)"

definition JWTAuthenticate :: "crypto \<Rightarrow> string \<Rightarrow> bool \<Rightarrow> int \<Rightarrow> string \<Rightarrow> string + uid" where
  \<comment> \<open>\<open>JWTAuthenticator.Auth\<close>\<close>
  "JWTAuthenticate cr secret allowDev now token =
     (if allowDev \<and> has_prefix ''dev.'' token then DevAuth token
      else case split_on CHR ''.'' token of
        [h, p, g] \<Rightarrow>
          (if sign_token cr secret h p \<noteq> g then Inl ''bad signature''
           else if h \<noteq> headerB64 then Inl ''unexpected alg''
           else case b64_decode p of
               None \<Rightarrow> Inl ''bad payload''
             | Some raw \<Rightarrow>
                 (case unmarshal_claims cr raw of
                    None \<Rightarrow> Inl ''bad claims''
                  | Some c \<Rightarrow>
                      if jc_uid c \<le> 0 then Inl ''bad claims''
                      else if jc_exp c \<le> now div 1000 then Inl ''token expired''
                      else Inr (jc_uid c)))
      | _ \<Rightarrow> Inl ''malformed token'')"

subsection \<open>The verifier of the HTTP gateway\<close>

definition gw_verify :: "crypto \<Rightarrow> string \<Rightarrow> bool \<Rightarrow> int \<Rightarrow> string \<Rightarrow> string + uid" where
  \<comment> \<open>\<open>jwtVerifier.verify\<close>; a development token whose number is not positive gives \<open>return 0, err\<close> with \<open>err = nil\<close>\<close>
  "gw_verify cr secret allowDev now token =
     (if allowDev \<and> has_prefix ''dev.'' token then
        (case parse_int (drop 4 token) of
           None \<Rightarrow> Inl ''strconv.ParseInt''
         | Some uid \<Rightarrow> if uid \<le> 0 then Inr 0 else Inr uid)
      else case split_on CHR ''.'' token of
        [h, p, g] \<Rightarrow>
          (if b64_encode (hmac cr secret (h @ dot @ p)) \<noteq> g then Inl ''invalid token''
           else if h \<noteq> headerB64 then Inl ''invalid token''
           else case b64_decode p of
               None \<Rightarrow> Inl ''invalid token''
             | Some raw \<Rightarrow>
                 (case unmarshal_claims cr raw of
                    None \<Rightarrow> Inl ''invalid token''
                  | Some c \<Rightarrow>
                      if jc_uid c \<le> 0 then Inl ''invalid token''
                      else if jc_exp c \<le> now div 1000 then Inl ''invalid token''
                      else Inr (jc_uid c)))
      | _ \<Rightarrow> Inl ''invalid token'')"

definition isPublic :: "string \<Rightarrow> string \<Rightarrow> bool" where
  "isPublic method path \<longleftrightarrow>
     method = ''POST'' \<and> (path = ''/api/v1/register'' \<or> path = ''/api/v1/login'') \<or> has_prefix ''/files/'' path"

definition bearer :: "string \<Rightarrow> string" where
  "bearer h = (if has_prefix ''Bearer '' h then trim_space (drop 7 h) else [])"

datatype gateway = Proceed "uid option" | Unauthorized
  \<comment> \<open>the handler runs, with the uid stored in the request context; or status 401\<close>

definition JWTAuth :: "crypto \<Rightarrow> string \<Rightarrow> bool \<Rightarrow> int \<Rightarrow> string \<Rightarrow> string \<Rightarrow> string \<Rightarrow> gateway" where
  "JWTAuth cr secret allowDev now method path authorization =
     (if isPublic method path then Proceed None
      else if bearer authorization = [] then Unauthorized
      else case gw_verify cr secret allowDev now (bearer authorization) of
          Inl _ \<Rightarrow> Unauthorized
        | Inr uid \<Rightarrow> Proceed (Some uid))"

definition UID :: "gateway \<Rightarrow> uid" where
  \<comment> \<open>what a handler reads\<close>
  "UID g = (case g of Proceed (Some uid) \<Rightarrow> uid | _ \<Rightarrow> 0)"

subsection \<open>What the verifiers accept\<close>

definition signed :: "crypto \<Rightarrow> string \<Rightarrow> string \<Rightarrow> string" where
  \<comment> \<open>the token with the fixed header and this payload\<close>
  "signed cr secret p = headerB64 @ dot @ p @ dot @ sign_token cr secret headerB64 p"

definition claims_in :: "crypto \<Rightarrow> string \<Rightarrow> json_claims option" where
  "claims_in cr p = (case b64_decode p of None \<Rightarrow> None | Some raw \<Rightarrow> unmarshal_claims cr raw)"

definition accepts :: "crypto \<Rightarrow> string \<Rightarrow> int \<Rightarrow> string \<Rightarrow> json_claims \<Rightarrow> bool" where
  \<comment> \<open>the token is signed over the fixed header, and its claims are good at the time\<close>
  "accepts cr secret now token c \<longleftrightarrow>
     (case split_on CHR ''.'' token of
        [h, p, g] \<Rightarrow> h = headerB64 \<and> g = sign_token cr secret headerB64 p \<and> claims_in cr p = Some c \<and>
          0 < jc_uid c \<and> now div 1000 < jc_exp c
      | _ \<Rightarrow> False)"

lemma header_no_dot: "CHR ''.'' \<notin> set headerB64"
  unfolding headerB64_def by (rule b64_no_dot)

lemma split_parts:
  "split_on CHR ''.'' t = [h, p, g] \<Longrightarrow> t = h @ dot @ p @ dot @ g"
proof -
  have intercalated: "hd (split_on c t) @ concat (map (\<lambda>w. c # w) (tl (split_on c t))) = t" for c
    by (induction t) (auto split: list.splits)
  assume "split_on CHR ''.'' t = [h, p, g]"
  with intercalated [of "CHR ''.''"] show ?thesis by (simp add: dot_def)
qed

lemma split_signed: "CHR ''.'' \<notin> set p \<Longrightarrow>
    split_on CHR ''.'' (signed cr secret p) = [headerB64, p, sign_token cr secret headerB64 p]"
  using header_no_dot b64_no_dot
  by (simp add: signed_def dot_def split_on_append split_on_no_sep sign_token_def)

lemma accepts_signed: "accepts cr secret now token c \<Longrightarrow> \<exists>p. token = signed cr secret p \<and> claims_in cr p = Some c"
  by (auto simp: accepts_def signed_def dest: split_parts split: list.splits)

lemma JWTAuthenticate_iff:
  "JWTAuthenticate cr secret False now token = Inr u \<longleftrightarrow> (\<exists>c. accepts cr secret now token c \<and> u = jc_uid c)"
  by (auto simp: JWTAuthenticate_def accepts_def claims_in_def split: list.splits option.splits if_splits)

lemma gw_verify_iff:
  "gw_verify cr secret False now token = Inr u \<longleftrightarrow> (\<exists>c. accepts cr secret now token c \<and> u = jc_uid c)"
  by (auto simp: gw_verify_def accepts_def claims_in_def sign_token_def split: list.splits option.splits if_splits)

lemma Verify_iff:
  "Verify cr secret now token = Inr u \<longleftrightarrow>
    (\<exists>c. accepts cr secret now token c \<and> u = jc_uid c \<and> jc_iat c \<noteq> None)"
  by (auto simp: Verify_def accepts_def claims_in_def split: list.splits option.splits if_splits)

text \<open>
  C20: Where the three copies of the verifier agree, and where not. Without the development back door the gateway and
  the connection servers accept the same tokens, for the same user; the login service's own
  \<open>Verify\<close> accepts those of them whose \<open>iat\<close> claim is well typed. With the back door the
  gateway and the connection servers still agree on every user other than 0.
\<close>

theorem verifiers_agree:
  "(gw_verify cr secret False now token = Inr u) = (JWTAuthenticate cr secret False now token = Inr u) \<and>
   (Verify cr secret now token = Inr u) =
     (JWTAuthenticate cr secret False now token = Inr u \<and> (\<exists>c. accepts cr secret now token c \<and> jc_iat c \<noteq> None)) \<and>
   (u = 0 \<or> (gw_verify cr secret dev now token = Inr u) = (JWTAuthenticate cr secret dev now token = Inr u))"
proof -
  have plain: "(gw_verify cr secret False now token = Inr u) = (JWTAuthenticate cr secret False now token = Inr u)"
    by (simp add: gw_verify_iff JWTAuthenticate_iff)
  have same: "c = c'" if "accepts cr secret now token c" "accepts cr secret now token c'" for c c'
    using that by (auto simp: accepts_def split: list.splits)
  have "(gw_verify cr secret dev now token = Inr u) = (JWTAuthenticate cr secret dev now token = Inr u)" if "u \<noteq> 0"
  proof (cases "dev \<and> has_prefix ''dev.'' token")
    case True
    with that show ?thesis
      by (auto simp: gw_verify_def JWTAuthenticate_def DevAuth_def split: option.splits if_splits)
  next
    case False
    then have "gw_verify cr secret dev now token = gw_verify cr secret False now token"
      "JWTAuthenticate cr secret dev now token = JWTAuthenticate cr secret False now token"
      by (auto simp: gw_verify_def JWTAuthenticate_def)
    with plain show ?thesis by simp
  qed
  with plain same show ?thesis by (auto simp: Verify_iff JWTAuthenticate_iff)
qed

text \<open>
  C21: No token is accepted that the key did not sign over the fixed HS256 header: a token that a
  verifier accepts without the back door is the header, a payload, and the keyed hash of the two;
  its user is positive, and it has not expired. A header naming another algorithm is of no use.
\<close>

theorem accepted_token_is_signed:
  assumes "gw_verify cr secret False now token = Inr u \<or> JWTAuthenticate cr secret False now token = Inr u \<or>
    Verify cr secret now token = Inr u"
  shows "\<exists>p c. token = headerB64 @ dot @ p @ dot @ b64_encode (hmac cr secret (headerB64 @ dot @ p)) \<and>
    claims_in cr p = Some c \<and> jc_uid c = u \<and> 0 < u \<and> now div 1000 < jc_exp c"
proof -
  from assms obtain c where c: "accepts cr secret now token c" "u = jc_uid c"
    by (auto simp: gw_verify_iff JWTAuthenticate_iff Verify_iff)
  moreover from c(1) have "0 < jc_uid c \<and> now div 1000 < jc_exp c"
    by (auto simp: accepts_def split: list.splits)
  ultimately show ?thesis
    using accepts_signed [of cr secret now token c] by (auto simp: signed_def sign_token_def)
qed

subsection \<open>Round trip\<close>

definition reads_back :: "crypto \<Rightarrow> uid \<Rightarrow> int \<Rightarrow> int \<Rightarrow> bool" where
  \<comment> \<open>\<open>json.Unmarshal\<close> inverts \<open>json.Marshal\<close> on these claims\<close>
  "reads_back cr uid exp iat \<longleftrightarrow>
     unmarshal_claims cr (marshal_claims uid exp iat) = Some \<lparr>jc_uid = uid, jc_exp = exp, jc_iat = Some iat\<rparr>"

lemma Issue_signed: "fst (Issue cr secret now uid) =
    signed cr secret (b64_encode (marshal_claims uid ((now + tokenTTL) div 1000) (now div 1000)))"
  by (simp add: Issue_def signed_def Let_def)

lemma header_start: "\<not> has_prefix ''dev.'' (headerB64 @ x)"
  by (simp add: headerB64_def quoted_def byte_def b64_char_def b64_alphabet_def)

lemma accepts_issued:
  assumes "reads_back cr uid ((now + tokenTTL) div 1000) (now div 1000)" "0 < uid"
  shows "accepts cr secret t (fst (Issue cr secret now uid)) c \<longleftrightarrow>
    c = \<lparr>jc_uid = uid, jc_exp = (now + tokenTTL) div 1000, jc_iat = Some (now div 1000)\<rparr> \<and>
    t div 1000 < (now + tokenTTL) div 1000"
  using assms by (auto simp: Issue_signed accepts_def split_signed b64_no_dot claims_in_def reads_back_def)

lemma trim_id:
  assumes "\<forall>c \<in> set s. \<not> is_space c"
  shows "trim_space s = s"
proof -
  have "dropWhile is_space s = s" using assms by (auto simp: dropWhile_eq_self_iff)
  moreover have "dropWhile is_space (rev s) = rev s"
    using assms by (auto simp: dropWhile_eq_self_iff hd_rev)
  ultimately show ?thesis by (simp add: trim_space_def)
qed

lemma trim_token: "trim_space (fst (Issue cr secret now uid)) = fst (Issue cr secret now uid)"
proof -
  let ?t = "fst (Issue cr secret now uid)"
  have dot: "\<not> is_space CHR ''.''" by (simp add: is_space_def)
  have alpha: "\<not> is_space c" if "c \<in> set (b64_encode s)" for c s
    using that b64_encode_chars [of s] by (auto simp: is_space_def b64_alphabet_def)
  have "\<forall>c \<in> set ?t. \<not> is_space c"
    using dot alpha by (auto simp: Issue_signed signed_def dot_def sign_token_def headerB64_def)
  then show ?thesis by (rule trim_id)
qed

text \<open>
  C19: A token is good until it expires and no longer: what \<open>Issue\<close> returned for a user at some
  time is, at every time before seven days have passed (in whole seconds), accepted for that user
  by the login service, by the connection servers and by the gateway, with or without the
  back door; from then on the login service answers that it has expired and the two others
  refuse it.
\<close>

theorem issued_token_round_trip:
  assumes "reads_back cr uid ((now + tokenTTL) div 1000) (now div 1000)" "0 < uid"
    and "Issue cr secret now uid = (token, exp)"
    and "\<not> isPublic method path"
  shows "exp = now + 604800000 \<and>
    Verify cr secret t token = (if t div 1000 < exp div 1000 then Inr uid else Inl ErrTokenExpired) \<and>
    JWTAuthenticate cr secret dev t token = (if t div 1000 < exp div 1000 then Inr uid else Inl ''token expired'') \<and>
    JWTAuth cr secret dev t method path (''Bearer '' @ token) =
      (if t div 1000 < exp div 1000 then Proceed (Some uid) else Unauthorized)"
proof -
  let ?p = "b64_encode (marshal_claims uid ((now + tokenTTL) div 1000) (now div 1000))"
  have tok: "token = signed cr secret ?p" "exp = now + tokenTTL"
    using assms(3) Issue_signed [of cr secret now uid] by (auto simp: Issue_def Let_def signed_def)
  have split: "split_on CHR ''.'' token = [headerB64, ?p, sign_token cr secret headerB64 ?p]"
    by (simp add: tok split_signed b64_no_dot)
  have nodev: "\<not> has_prefix ''dev.'' token" by (simp add: tok signed_def header_start)
  have trim: "bearer (''Bearer '' @ token) = token" "token \<noteq> []"
    using trim_token [of cr secret now uid] assms(3) by (simp_all add: bearer_def tok signed_def dot_def)
  show ?thesis
    using assms(1,2,4) split nodev trim tok(2)
    by (auto simp: Verify_def JWTAuthenticate_def gw_verify_def JWTAuth_def reads_back_def tokenTTL_def sign_token_def)
qed

definition demo_crypto :: crypto where
  "demo_crypto = \<lparr>hmac = (\<lambda>k t. take 8 (k @ rev t)),
     unmarshal_claims = (\<lambda>j. if j = marshal_claims 10 605800 1000
        then Some \<lparr>jc_uid = 10, jc_exp = 605800, jc_iat = Some 1000\<rparr> else None)\<rparr>"

lemma issued_token_round_trip_witness:
  "\<exists>token. Issue demo_crypto ''key'' 1000000 10 = (token, 605800000) \<and>
     JWTAuth demo_crypto ''key'' False 605799999 ''GET'' ''/api/v1/friends'' (''Bearer '' @ token) = Proceed (Some 10) \<and>
     Verify demo_crypto ''key'' 605800000 token = Inl ErrTokenExpired"
proof -
  obtain token e where i: "Issue demo_crypto ''key'' 1000000 10 = (token, e)" by force
  have r: "reads_back demo_crypto 10 ((1000000 + tokenTTL) div 1000) (1000000 div 1000)"
    by (simp add: reads_back_def demo_crypto_def tokenTTL_def)
  have np: "\<not> isPublic ''GET'' ''/api/v1/friends''" by (simp add: isPublic_def)
  show ?thesis
    using issued_token_round_trip [OF r _ i np, of 605799999 False] i
      issued_token_round_trip [OF r _ i np, of 605800000 False]
    by auto
qed

lemma accepted_token_is_signed_witness:
  "\<exists>token p c. token = headerB64 @ dot @ p @ dot @ b64_encode (hmac demo_crypto ''key'' (headerB64 @ dot @ p)) \<and>
    claims_in demo_crypto p = Some c \<and> jc_uid c = 10"
proof -
  have r: "reads_back demo_crypto 10 ((1000000 + tokenTTL) div 1000) (1000000 div 1000)"
    by (simp add: reads_back_def demo_crypto_def tokenTTL_def)
  have "Verify demo_crypto ''key'' 1000000 (fst (Issue demo_crypto ''key'' 1000000 10)) = Inr 10"
    using accepts_issued [OF r, of "''key''" 1000000] by (auto simp: Verify_iff tokenTTL_def)
  with accepted_token_is_signed [of demo_crypto "''key''" 1000000 _ 10] show ?thesis by blast
qed

subsection \<open>The back door\<close>

text \<open>
  The gateway lets development tokens through that the connection servers refuse: with the
  back door open, \<open>dev.<n>\<close> with \<open>n\<close> not positive is answered with a nil error, so the request
  goes on as user 0 instead of being stopped with 401, although the two are meant to behave the
  same.
\<close>

theorem gateway_accepts_nonpositive_dev_token:
  assumes "- (2 ^ 63) \<le> n" "n \<le> 0" "\<not> isPublic method path"
  shows "JWTAuth cr secret True now method path (''Bearer dev.'' @ int_str n) = Proceed (Some 0) \<and>
    JWTAuthenticate cr secret True now (''dev.'' @ int_str n) = Inl ''invalid token uid''"
proof -
  have p: "parse_int (int_str n) = Some n" using assms by (intro parse_int_str) auto
  have "trim_space (''dev.'' @ int_str n) = ''dev.'' @ int_str n"
  proof -
    have "\<not> is_space c" if "c \<in> set (int_str n)" for c
      using that nat_str_digits [of c] by (auto simp: int_str_def is_space_def digit_val_def split: if_splits)
    then have "\<forall>c \<in> set (''dev.'' @ int_str n). \<not> is_space c" by (auto simp: is_space_def)
    then show ?thesis by (rule trim_id)
  qed
  then have "bearer (''Bearer dev.'' @ int_str n) = ''dev.'' @ int_str n" by (simp add: bearer_def)
  with p assms show ?thesis
    by (simp add: JWTAuth_def gw_verify_def JWTAuthenticate_def DevAuth_def)
qed

lemma gateway_accepts_nonpositive_dev_token_witness:
  "JWTAuth demo_crypto ''key'' True 0 ''GET'' ''/api/v1/friends'' (''Bearer dev.'' @ int_str (- 5)) = Proceed (Some 0)"
  using gateway_accepts_nonpositive_dev_token [of "- 5" "''GET''" "''/api/v1/friends''" demo_crypto "''key''" 0]
  by (simp add: isPublic_def)

end
