(* ===== verification/Frame.thy ===== *)
theory Frame
  imports Message
begin

text \<open>
  The wire protocol of the connection servers (\<open>internal/comet/protocol.go\<close>): the frame
  header, \<open>EncodeFrame\<close>, \<open>readFrame\<close> over any stream with \<open>Peek\<close> and \<open>Skip\<close> (\<open>readFrameOn\<close>), and
  the stream adapter of \<open>stream_windows.go\<close>, which turns the reads of a socket into blocking \<open>Peek\<close>
  and \<open>Skip\<close>. On other systems \<open>stream_netpoll.go\<close> hands both calls to the netpoll library; its
  buffers are not modelled.

  The protobuf serialisation of a frame is a parameter (\<open>frame_codec\<close>). A socket is the list of
  the byte chunks that still arrive on it; when the list is empty the peer has closed.
\<close>

subsection \<open>Frames\<close>

record DeviceInfo =
  dv_type :: int
  dv_id :: string

datatype Payload =
    NoPayload
  | PConnect string "DeviceInfo option"
  | PConnectRsp int int
  | PHeartbeat int
  | PKick string int
  | PDisconnect string int
  | PMessageUp int conv_id "Content option"
  | PMessageUpRsp int int int int
  | PMessagePush conv_id int uid int
  | PAck conv_id int int int
  | PSync int "(conv_id \<times> int) list"
  | PSyncRsp int "ConvMessage list" "(conv_id \<times> int) list"
  | PEvent EventFrame
  | PTyping conv_id

record Frame =
  frame_id :: int
  fcmd :: int
  ferror :: "yim_error option"
  payload :: Payload

definition CMD_UNKNOWN :: int where "CMD_UNKNOWN = 0"
definition CMD_CONNECT :: int where "CMD_CONNECT = 1"
definition CMD_CONNECT_RSP :: int where "CMD_CONNECT_RSP = 2"
definition CMD_HEARTBEAT :: int where "CMD_HEARTBEAT = 3"
definition CMD_KICK :: int where "CMD_KICK = 4"
definition CMD_DISCONNECT :: int where "CMD_DISCONNECT = 5"
definition CMD_MESSAGE_UP :: int where "CMD_MESSAGE_UP = 10"
definition CMD_MESSAGE_UP_RSP :: int where "CMD_MESSAGE_UP_RSP = 11"
definition CMD_MESSAGE_PUSH :: int where "CMD_MESSAGE_PUSH = 12"
definition CMD_ACK :: int where "CMD_ACK = 13"
definition CMD_SYNC :: int where "CMD_SYNC = 14"
definition CMD_SYNC_RSP :: int where "CMD_SYNC_RSP = 15"
definition CMD_EVENT :: int where "CMD_EVENT = 16"
definition CMD_TYPING :: int where "CMD_TYPING = 17"

lemmas cmd_defs = CMD_UNKNOWN_def CMD_CONNECT_def CMD_CONNECT_RSP_def CMD_HEARTBEAT_def CMD_KICK_def
  CMD_DISCONNECT_def CMD_MESSAGE_UP_def CMD_MESSAGE_UP_RSP_def CMD_MESSAGE_PUSH_def CMD_ACK_def
  CMD_SYNC_def CMD_SYNC_RSP_def CMD_EVENT_def CMD_TYPING_def

definition empty_frame :: Frame where
  \<comment> \<open>\<open>&yim.Frame{}\<close>\<close>
  "empty_frame = \<lparr>frame_id = 0, fcmd = CMD_UNKNOWN, ferror = None, payload = NoPayload\<rparr>"

type_synonym bytes = "8 word list"

record frame_codec =
  marshal_frame :: "Frame \<Rightarrow> bytes option"
  unmarshal_frame :: "bytes \<Rightarrow> Frame option"

definition VersionV1 :: "8 word" where "VersionV1 = 1"
definition HeaderSize :: nat where "HeaderSize = 8"
definition MaxBodySize :: nat where "MaxBodySize = 65536"

datatype frame_error =
    ErrCmdUnknown | ErrMarshal | ErrBodyTooLarge | ErrBadVersion | ErrBadFlag
  | ErrPeekHeader | ErrPeekBody | ErrSkip | ErrUnmarshal

subsection \<open>Encoding\<close>

definition put_u32 :: "32 word \<Rightarrow> bytes" where
  \<comment> \<open>\<open>binary.BigEndian.PutUint32\<close>\<close>
  "put_u32 w = [ucast (drop_bit 24 w), ucast (drop_bit 16 w), ucast (drop_bit 8 w), ucast w]"

definition put_u16 :: "16 word \<Rightarrow> bytes" where
  "put_u16 w = [ucast (drop_bit 8 w), ucast w]"

definition get_u32 :: "bytes \<Rightarrow> 32 word" where
  \<comment> \<open>\<open>binary.BigEndian.Uint32\<close>\<close>
  "get_u32 b = (ucast (b ! 3) :: 32 word) OR push_bit 8 (ucast (b ! 2)) OR push_bit 16 (ucast (b ! 1))
     OR push_bit 24 (ucast (b ! 0))"

definition EncodeFrame :: "frame_codec \<Rightarrow> Frame \<Rightarrow> frame_error + bytes" where
  "EncodeFrame fc f =
     (if fcmd f = CMD_UNKNOWN then Inl ErrCmdUnknown
      else case marshal_frame fc f of
          None \<Rightarrow> Inl ErrMarshal
        | Some body \<Rightarrow>
            if MaxBodySize < length body then Inl ErrBodyTooLarge
            else Inr (put_u32 (word_of_nat (length body)) @ [VersionV1, 0] @ put_u16 (word_of_int (fcmd f)) @ body))"

subsection \<open>The socket adapter of \<open>stream_windows.go\<close>\<close>

record netStream =
  st_buf :: bytes             \<comment> \<open>read from the socket, not consumed\<close>
  st_conn :: "bytes list"     \<comment> \<open>the chunks to come\<close>

fun read_at_least :: "nat \<Rightarrow> nat \<Rightarrow> bytes list \<Rightarrow> bytes \<times> bytes list" where
  \<comment> \<open>\<open>io.ReadAtLeast(conn, tmp, need)\<close> with \<open>len(tmp) = cap\<close>: one \<open>Read\<close> per chunk or part of one\<close>
  "read_at_least need cap [] = ([], [])"
| "read_at_least need cap (c # cs) =
     (if need = 0 then ([], c # cs)
      else if length c \<le> cap then
        (case read_at_least (need - length c) (cap - length c) cs of (b, rest) \<Rightarrow> (c @ b, rest))
      else (take cap c, drop cap c # cs))"

definition stream_Peek :: "nat \<Rightarrow> netStream \<Rightarrow> bytes option \<times> netStream" where
  \<comment> \<open>\<open>None\<close>: the peer closed before \<open>n\<close> bytes were there\<close>
  "stream_Peek n s =
     (if n \<le> length (st_buf s) then (Some (take n (st_buf s)), s)
      else
        (let need = n - length (st_buf s);
             (tmp, rest) = read_at_least need (need + 4096) (st_conn s);
             buf = st_buf s @ tmp
         in (if length buf < n then None else Some (take n buf), \<lparr>st_buf = buf, st_conn = rest\<rparr>)))"

definition stream_Skip :: "nat \<Rightarrow> netStream \<Rightarrow> netStream option" where
  "stream_Skip n s = (if length (st_buf s) < n then None else Some (s\<lparr>st_buf := drop n (st_buf s)\<rparr>))"

subsection \<open>Reading a frame\<close>

definition decode_body :: "frame_codec \<Rightarrow> bytes \<Rightarrow> frame_error + Frame" where
  \<comment> \<open>the end of \<open>readFrame\<close>: an empty body is the zero frame\<close>
  "decode_body fc body =
     (case (if body = [] then Some empty_frame else unmarshal_frame fc body) of
        None \<Rightarrow> Inl ErrUnmarshal
      | Some f \<Rightarrow> if fcmd f = CMD_UNKNOWN then Inl ErrCmdUnknown else Inr f)"

definition readFrameOn :: "(nat \<Rightarrow> 's \<Rightarrow> bytes option \<times> 's) \<Rightarrow> (nat \<Rightarrow> 's \<Rightarrow> 's option) \<Rightarrow> frame_codec \<Rightarrow> 's \<Rightarrow>
    (frame_error + Frame) \<times> 's" where
  \<comment> \<open>over the \<open>Peek\<close> and \<open>Skip\<close> of any stream\<close>
  "readFrameOn peek skip fc s =
     (case peek HeaderSize s of
        (None, s1) \<Rightarrow> (Inl ErrPeekHeader, s1)
      | (Some hdr, s1) \<Rightarrow>
          (let bodyLen = get_u32 (take 4 hdr)
           in if hdr ! 4 \<noteq> VersionV1 then (Inl ErrBadVersion, s1)
              else if hdr ! 5 \<noteq> 0 then (Inl ErrBadFlag, s1)
              else if MaxBodySize < unat bodyLen then (Inl ErrBodyTooLarge, s1)
              else
                (case peek (HeaderSize + unat bodyLen) s1 of
                   (None, s2) \<Rightarrow> (Inl ErrPeekBody, s2)
                 | (Some full, s2) \<Rightarrow>
                     (case skip (HeaderSize + unat bodyLen) s2 of
                        None \<Rightarrow> (Inl ErrSkip, s2)
                      | Some s3 \<Rightarrow> (decode_body fc (drop HeaderSize full), s3)))))"

definition readFrame :: "frame_codec \<Rightarrow> netStream \<Rightarrow> (frame_error + Frame) \<times> netStream" where
  "readFrame = readFrameOn stream_Peek stream_Skip"

fun read_frames :: "frame_codec \<Rightarrow> nat \<Rightarrow> netStream \<Rightarrow> (frame_error + Frame list) \<times> netStream" where
  \<comment> \<open>the reads of \<open>pump\<close>\<close>
  "read_frames fc 0 s = (Inr [], s)"
| "read_frames fc (Suc n) s =
     (case readFrame fc s of
        (Inl e, s1) \<Rightarrow> (Inl e, s1)
      | (Inr f, s1) \<Rightarrow> (case read_frames fc n s1 of
          (Inl e, s2) \<Rightarrow> (Inl e, s2)
        | (Inr fs, s2) \<Rightarrow> (Inr (f # fs), s2)))"

subsection \<open>The stream as a byte string\<close>

definition content :: "netStream \<Rightarrow> bytes" where
  "content s = st_buf s @ concat (st_conn s)"

lemma read_at_least_content: "read_at_least n k cs = (b, r) \<Longrightarrow> b @ concat r = concat cs"
  by (induction n k cs arbitrary: b r rule: read_at_least.induct) (auto split: if_splits prod.splits)

lemma read_at_least_length:
  "read_at_least n k cs = (b, r) \<Longrightarrow> n \<le> k \<Longrightarrow> length b \<le> k \<and> (n \<le> length b \<or> r = [])"
proof (induction n k cs arbitrary: b r rule: read_at_least.induct)
  case (2 n k c cs)
  show ?case
  proof (cases "n \<noteq> 0 \<and> length c \<le> k")
    case True
    obtain b' r' where br: "read_at_least (n - length c) (k - length c) cs = (b', r')" by force
    with True 2 have "length b' \<le> k - length c \<and> (n - length c \<le> length b' \<or> r' = [])" by simp
    with True br 2(2) show ?thesis by auto
  next
    case False
    with 2(2,3) show ?thesis by (auto split: if_splits)
  qed
qed simp

lemma Peek_spec:
  assumes "stream_Peek n s = (r, s')"
  shows "content s' = content s"
    and "r = (if n \<le> length (content s) then Some (take n (content s)) else None)"
    and "r \<noteq> None \<Longrightarrow> n \<le> length (st_buf s')"
    and "length (st_buf s') \<le> max (length (st_buf s)) (n + 4096)"
proof -
  have "content s' = content s \<and> r = (if n \<le> length (content s) then Some (take n (content s)) else None) \<and>
    (r \<noteq> None \<longrightarrow> n \<le> length (st_buf s')) \<and> length (st_buf s') \<le> max (length (st_buf s)) (n + 4096)"
  proof (cases "n \<le> length (st_buf s)")
    case True
    with assms show ?thesis by (auto simp: stream_Peek_def content_def)
  next
    case False
    define k where "k = n - length (st_buf s)"
    obtain tmp rest where r: "read_at_least k (k + 4096) (st_conn s) = (tmp, rest)" by force
    have c: "tmp @ concat rest = concat (st_conn s)" using read_at_least_content [OF r] .
    have l: "length tmp \<le> k + 4096" "k \<le> length tmp \<or> rest = []"
      using read_at_least_length [OF r] by auto
    have s': "r = (if length (st_buf s @ tmp) < n then None else Some (take n (st_buf s @ tmp)))"
      "s' = \<lparr>st_buf = st_buf s @ tmp, st_conn = rest\<rparr>"
      using assms False r by (auto simp: stream_Peek_def k_def Let_def)
    have "content s = st_buf s @ tmp @ concat rest" by (simp add: content_def c)
    with s' l False show ?thesis by (auto simp: content_def k_def)
  qed
  then show "content s' = content s" "r = (if n \<le> length (content s) then Some (take n (content s)) else None)"
    "r \<noteq> None \<Longrightarrow> n \<le> length (st_buf s')" "length (st_buf s') \<le> max (length (st_buf s)) (n + 4096)"
    by auto
qed

lemma Skip_spec: "n \<le> length (st_buf s) \<Longrightarrow> \<exists>s'. stream_Skip n s = Some s' \<and> content s' = drop n (content s) \<and>
    length (st_buf s') \<le> length (st_buf s)"
  by (simp add: stream_Skip_def content_def)

definition parse_frame :: "frame_codec \<Rightarrow> bytes \<Rightarrow> (frame_error + Frame) \<times> bytes" where
  \<comment> \<open>what \<open>readFrame\<close> means on the byte string the peer sends: the result and what is left\<close>
  "parse_frame fc bs =
     (let n = unat (get_u32 (take 4 bs))
      in if length bs < HeaderSize then (Inl ErrPeekHeader, bs)
         else if bs ! 4 \<noteq> VersionV1 then (Inl ErrBadVersion, bs)
         else if bs ! 5 \<noteq> 0 then (Inl ErrBadFlag, bs)
         else if MaxBodySize < n then (Inl ErrBodyTooLarge, bs)
         else if length bs < HeaderSize + n then (Inl ErrPeekBody, bs)
         else (decode_body fc (take n (drop HeaderSize bs)), drop (HeaderSize + n) bs))"

definition frame_buf_limit :: nat where "frame_buf_limit = HeaderSize + MaxBodySize + 4096"

lemma readFrame_spec:
  assumes "readFrame fc s = (r, s')"
  shows "parse_frame fc (content s) = (r, content s')"
    and "length (st_buf s) \<le> frame_buf_limit \<Longrightarrow> length (st_buf s') \<le> frame_buf_limit"
proof -
  obtain o1 s1 where p1: "stream_Peek HeaderSize s = (o1, s1)" by force
  note P1 = Peek_spec [OF p1]
  have "parse_frame fc (content s) = (r, content s') \<and>
    (length (st_buf s) \<le> frame_buf_limit \<longrightarrow> length (st_buf s') \<le> frame_buf_limit)"
  proof (cases "length (content s) < HeaderSize")
    case True
    with P1 p1 assms show ?thesis
      by (auto simp: readFrame_def readFrameOn_def parse_frame_def Let_def frame_buf_limit_def)
  next
    case False
    define n where "n = unat (get_u32 (take 4 (content s)))"
    from False P1 have o1: "o1 = Some (take HeaderSize (content s))" by simp
    have h4: "take 4 (take HeaderSize (content s)) = take 4 (content s)" by (simp add: HeaderSize_def)
    have hd: "take HeaderSize (content s) ! 4 = content s ! 4" "take HeaderSize (content s) ! 5 = content s ! 5"
      by (simp_all add: HeaderSize_def)
    obtain o2 s2 where p2: "stream_Peek (HeaderSize + n) s1 = (o2, s2)" by force
    note P2 = Peek_spec [OF p2]
    have b1: "length (st_buf s) \<le> frame_buf_limit \<Longrightarrow> length (st_buf s1) \<le> frame_buf_limit"
      using P1(4) by (simp add: frame_buf_limit_def)
    have b2: "n \<le> MaxBodySize \<Longrightarrow> length (st_buf s) \<le> frame_buf_limit \<Longrightarrow> length (st_buf s2) \<le> frame_buf_limit"
      using P2(4) b1 by (simp add: frame_buf_limit_def)
    show ?thesis
    proof (cases "content s ! 4 = VersionV1 \<and> content s ! 5 = 0 \<and> n \<le> MaxBodySize")
      case head: False
      then show ?thesis
        using assms False P1 p1 o1 b1 h4 hd
        by (auto simp: readFrame_def readFrameOn_def parse_frame_def Let_def n_def split: if_splits)
    next
      case head: True
      show ?thesis
      proof (cases "length (content s) < HeaderSize + n")
        case True
        with P2 P1 have "o2 = None" by simp
        with assms True False head P1 P2 p1 p2 o1 b2 h4 hd show ?thesis
          by (auto simp: readFrame_def readFrameOn_def parse_frame_def Let_def n_def split: if_splits)
      next
        case enough: False
        with P2 P1 have o2: "o2 = Some (take (HeaderSize + n) (content s))" by simp
        then have "o2 \<noteq> None" by simp
        from P2(3) [OF this] have "HeaderSize + n \<le> length (st_buf s2)" .
        from Skip_spec [OF this] obtain s3 where s3: "stream_Skip (HeaderSize + n) s2 = Some s3"
          "content s3 = drop (HeaderSize + n) (content s2)" "length (st_buf s3) \<le> length (st_buf s2)" by auto
        have body: "drop HeaderSize (take (HeaderSize + n) (content s)) = take n (drop HeaderSize (content s))"
          by (simp add: drop_take)
        have "readFrame fc s = (decode_body fc (take n (drop HeaderSize (content s))), s3)"
          using False head p1 p2 o1 o2 s3(1) body h4 hd
          by (simp add: readFrame_def readFrameOn_def Let_def n_def [symmetric] not_less)
        with assms have "r = decode_body fc (take n (drop HeaderSize (content s)))" "s' = s3" by auto
        with False head enough P1 P2 s3 b2 show ?thesis
          by (auto simp: parse_frame_def Let_def n_def [symmetric] not_less)
      qed
    qed
  qed
  then show "parse_frame fc (content s) = (r, content s')"
    "length (st_buf s) \<le> frame_buf_limit \<Longrightarrow> length (st_buf s') \<le> frame_buf_limit" by auto
qed

text \<open>
  Chunking is invisible: reading a frame from a socket gives what the byte string in front of
  the reader says, error cases included, and leaves the rest of that string; how the bytes were
  split into arrivals, and how many of them were already buffered, does not matter.
\<close>

theorem readFrame_ignores_chunking:
  "map_prod id content (readFrame fc s) = parse_frame fc (content s)"
  using readFrame_spec(1) [of fc s] by (cases "readFrame fc s") simp

text \<open>A stream that keeps a list of the sizes it was asked for.\<close>

definition logged_peek :: "(nat \<Rightarrow> 's \<Rightarrow> bytes option \<times> 's) \<Rightarrow> nat \<Rightarrow> 's \<times> nat list \<Rightarrow> bytes option \<times> 's \<times> nat list" where
  "logged_peek peek n x = (case peek n (fst x) of (r, s) \<Rightarrow> (r, s, n # snd x))"

definition logged_skip :: "(nat \<Rightarrow> 's \<Rightarrow> 's option) \<Rightarrow> nat \<Rightarrow> 's \<times> nat list \<Rightarrow> ('s \<times> nat list) option" where
  "logged_skip skip n x = map_option (\<lambda>s. (s, n # snd x)) (skip n (fst x))"

lemma readFrameOn_requests:
  assumes "readFrameOn (logged_peek peek) (logged_skip skip) fc x = (r, x')" "\<forall>n \<in> set (snd x). n \<le> HeaderSize + MaxBodySize"
  shows "\<forall>n \<in> set (snd x'). n \<le> HeaderSize + MaxBodySize"
  using assms
  by (auto simp: readFrameOn_def logged_peek_def logged_skip_def Let_def split: prod.splits option.splits if_splits)

text \<open>
  C18: Whatever a peer sends, reading a frame never asks the stream for more than the header and one
  maximal body, 65544 bytes, on any stream: the length in the header is checked before the body is
  asked for. With the stream of \<open>stream_windows.go\<close>, which reads 4096 bytes ahead, the bytes held for
  a connection therefore never exceed 69640 however many frames are read; how much netpoll buffers on
  other systems is up to that library.
\<close>

theorem frame_buffer_bounded:
  "set (snd (snd (readFrameOn (logged_peek peek) (logged_skip skip) fc (s, [])))) \<subseteq> {..65544} \<and>
   length (st_buf (snd (read_frames fc n \<lparr>st_buf = [], st_conn = chunks\<rparr>))) \<le> 69640"
proof
  obtain r x' where "readFrameOn (logged_peek peek) (logged_skip skip) fc (s, []) = (r, x')"
    by (rule prod.exhaust)
  from readFrameOn_requests [OF this] this
  show "set (snd (snd (readFrameOn (logged_peek peek) (logged_skip skip) fc (s, [])))) \<subseteq> {..65544}"
    by (auto simp: HeaderSize_def MaxBodySize_def)
next
  have "length (st_buf s) \<le> frame_buf_limit \<Longrightarrow> length (st_buf (snd (read_frames fc n s))) \<le> frame_buf_limit" for s
  proof (induction n arbitrary: s)
    case (Suc n)
    obtain r s1 where r: "readFrame fc s = (r, s1)" by force
    from Suc.IH [OF readFrame_spec(2) [OF r Suc.prems]] readFrame_spec(2) [OF r Suc.prems] r
    show ?case by (auto split: sum.splits prod.splits)
  qed simp
  then show "length (st_buf (snd (read_frames fc n \<lparr>st_buf = [], st_conn = chunks\<rparr>))) \<le> 69640"
    by (simp add: frame_buf_limit_def HeaderSize_def MaxBodySize_def)
qed

subsection \<open>Round trip\<close>

lemma get_put_u32: "get_u32 (take 4 (put_u32 w @ x)) = w"
proof (rule bit_word_eqI)
  fix n
  assume "n < LENGTH(32)"
  then consider "n < 8" | "8 \<le> n" "n < 16" | "16 \<le> n" "n < 24" | "24 \<le> n" "n < 32" by force
  moreover have "get_u32 (take 4 (put_u32 w @ x)) = (ucast (ucast w :: 8 word) :: 32 word) OR
      push_bit 8 (ucast (ucast (drop_bit 8 w) :: 8 word)) OR push_bit 16 (ucast (ucast (drop_bit 16 w) :: 8 word)) OR
      push_bit 24 (ucast (ucast (drop_bit 24 w) :: 8 word))"
    by (simp add: get_u32_def put_u32_def)
  ultimately show "bit (get_u32 (take 4 (put_u32 w @ x))) n = bit w n"
    by (cases; simp only: bit_or_iff bit_push_bit_iff bit_ucast_iff bit_drop_bit_eq comp_apply) auto
qed

definition survives :: "frame_codec \<Rightarrow> Frame \<Rightarrow> bool" where
  \<comment> \<open>what protobuf promises of a frame: it is parsed back from its encoding, which is not empty\<close>
  "survives fc f \<longleftrightarrow> (case marshal_frame fc f of None \<Rightarrow> False
     | Some b \<Rightarrow> b \<noteq> [] \<and> unmarshal_frame fc b = Some f)"

lemma parse_encoded:
  assumes "EncodeFrame fc f = Inr b" "survives fc f"
  shows "parse_frame fc (b @ rest) = (Inr f, rest)"
proof -
  from assms obtain body where m: "marshal_frame fc f = Some body" "body \<noteq> []" "unmarshal_frame fc body = Some f"
    by (auto simp: survives_def split: option.splits)
  define w :: "32 word" where "w = word_of_nat (length body)"
  from assms(1) m have c: "fcmd f \<noteq> CMD_UNKNOWN" "length body \<le> MaxBodySize"
    and b: "b = put_u32 w @ [VersionV1, 0] @ put_u16 (word_of_int (fcmd f)) @ body"
    by (auto simp: EncodeFrame_def w_def split: if_splits)
  from c(2) have w: "unat w = length body" by (simp add: w_def unat_of_nat MaxBodySize_def)
  have "get_u32 (take 4 (b @ rest)) = w" unfolding b append_assoc by (rule get_put_u32)
  moreover have "(b @ rest) ! 4 = VersionV1" "(b @ rest) ! 5 = 0" "drop HeaderSize (b @ rest) = body @ rest"
    "length (b @ rest) = HeaderSize + length body + length rest"
    by (simp_all add: b put_u32_def put_u16_def HeaderSize_def)
  moreover from this(3) have "drop (HeaderSize + length body) (b @ rest) = rest"
    by (metis add.commute append_eq_conv_conj drop_drop)
  ultimately show ?thesis using c m w by (simp add: parse_frame_def decode_body_def)
qed

lemma read_encoded:
  "EncodeFrame fc f = Inr b \<Longrightarrow> survives fc f \<Longrightarrow> content s = b @ rest \<Longrightarrow>
    \<exists>s'. readFrame fc s = (Inr f, s') \<and> content s' = rest"
  using readFrame_spec(1) [of fc s] parse_encoded [of fc f b rest] by (cases "readFrame fc s") auto

text \<open>
  C17: Frames survive the wire: when a peer sends the encodings of some frames one after the other,
  followed by anything, the reader gets exactly those frames, in order, and stands right behind
  them, however the bytes arrive: several frames in one chunk, a frame in several chunks, a cut
  inside a header.
\<close>

theorem frames_round_trip:
  assumes "list_all (survives fc) fs" "map (EncodeFrame fc) fs = map Inr bs"
    and "st_buf s @ concat (st_conn s) = concat bs @ rest"
  shows "\<exists>s'. read_frames fc (length fs) s = (Inr fs, s') \<and> st_buf s' @ concat (st_conn s') = rest"
proof -
  have "list_all (survives fc) fs \<Longrightarrow> map (EncodeFrame fc) fs = map Inr bs \<Longrightarrow> content s = concat bs @ rest \<Longrightarrow>
     \<exists>s'. read_frames fc (length fs) s = (Inr fs, s') \<and> content s' = rest" for fs bs s
  proof (induction fs arbitrary: bs s)
    case (Cons f fs)
    from Cons.prems(2) obtain b bs' where bs: "bs = b # bs'" by (cases bs) auto
    with Cons.prems obtain s1 where "readFrame fc s = (Inr f, s1)" "content s1 = concat bs' @ rest"
      using read_encoded [of fc f b s "concat bs' @ rest"] by auto
    with Cons.IH [of bs' s1] Cons.prems bs show ?case by auto
  qed simp
  from this [OF assms [folded content_def]] show ?thesis by (simp add: content_def)
qed

definition demo_frames :: frame_codec where
  "demo_frames = \<lparr>marshal_frame = (\<lambda>f. Some [word_of_int (fcmd f), word_of_int (frame_id f)]),
     unmarshal_frame = (\<lambda>b. Some (empty_frame\<lparr>fcmd := uint (b ! 0), frame_id := uint (b ! 1)\<rparr>))\<rparr>"

lemma frames_round_trip_witness:
  "\<exists>s'. read_frames demo_frames 2
      \<lparr>st_buf = [0], st_conn = [[0, 0], [2, 1, 0, 0, 3, 3, 77, 0, 0, 0, 2, 1, 0, 0], [], [13, 13, 78, 99]]\<rparr> =
    (Inr [empty_frame\<lparr>fcmd := CMD_HEARTBEAT, frame_id := 77\<rparr>, empty_frame\<lparr>fcmd := CMD_ACK, frame_id := 78\<rparr>], s') \<and>
    st_buf s' @ concat (st_conn s') = [99]"
proof -
  let ?fs = "[empty_frame\<lparr>fcmd := CMD_HEARTBEAT, frame_id := 77\<rparr>, empty_frame\<lparr>fcmd := CMD_ACK, frame_id := 78\<rparr>]"
  let ?bs = "[[0, 0, 0, 2, 1, 0, 0, 3, 3, 77], [0, 0, 0, 2, 1, 0, 0, 13, 13, 78]] :: bytes list"
  have "list_all (survives demo_frames) ?fs"
    by (simp add: survives_def demo_frames_def cmd_defs empty_frame_def)
  moreover have "map (EncodeFrame demo_frames) ?fs = map Inr ?bs"
    by (simp add: demo_frames_def EncodeFrame_def cmd_defs empty_frame_def MaxBodySize_def VersionV1_def
        put_u32_def put_u16_def)
  ultimately show ?thesis
    using frames_round_trip [of demo_frames ?fs ?bs
        "\<lparr>st_buf = [0], st_conn = [[0, 0], [2, 1, 0, 0, 3, 3, 77, 0, 0, 0, 2, 1, 0, 0], [], [13, 13, 78, 99]]\<rparr>" "[99]"]
    by (simp add: numeral_2_eq_2 del: read_frames.simps)
qed

end
