(* ===== verification/Gateway.thy ===== *)
theory Gateway
  imports RelationRpc Conversations Tokens Frame
begin

text \<open>
  The HTTP gateway (\<open>cmd/yimd/http.go\<close>): the handlers behind the authentication middleware of
  \<open>Tokens\<close>. A handler turns a request into a rejection or one RPC call and maps the reply to a
  status. The JSON decoders (\<open>protojson\<close>, \<open>encoding/json\<close>), the router of the HTTP framework and the
  services are parameters; the relation service can be plugged in as modelled.
\<close>

subsection \<open>Numbers in queries\<close>

fun scan_uint :: "nat \<Rightarrow> string \<Rightarrow> nat option" where
  \<comment> \<open>\<open>strconv.ParseUint\<close>: the value it returns, also with \<open>ErrRange\<close>; \<open>None\<close> for \<open>ErrSyntax\<close>\<close>
  "scan_uint n [] = Some n"
| "scan_uint n (c # cs) =
     (case digit_val c of
        None \<Rightarrow> None
      | Some d \<Rightarrow> if 2 ^ 64 \<le> n * 10 + nat d then Some (2 ^ 64 - 1) else scan_uint (n * 10 + nat d) cs)"

definition parse_value :: "string \<Rightarrow> int" where
  \<comment> \<open>\<open>v, _ := strconv.ParseInt(s, 10, 64)\<close> and \<open>strconv.Atoi\<close>: what is left when the error is ignored\<close>
  "parse_value s =
     (let neg = has_prefix ''-'' s;
          body = (if neg \<or> has_prefix ''+'' s then tl s else s)
      in if body = [] then 0
         else case scan_uint 0 body of
             None \<Rightarrow> 0
           | Some n \<Rightarrow> if neg then - min (int n) (2 ^ 63) else min (int n) (2 ^ 63 - 1))"

definition int32 :: "int \<Rightarrow> int" where
  "int32 v = sint (word_of_int v :: 32 word)"

fun parse_uids :: "string list \<Rightarrow> uid list option" where
  "parse_uids [] = Some []"
| "parse_uids (p # ps) =
     (case parse_int (trim_space p) of
        None \<Rightarrow> None
      | Some v \<Rightarrow> if v \<le> 0 then None else map_option (Cons v) (parse_uids ps))"

definition parseUIDs :: "string \<Rightarrow> uid list option" where
  "parseUIDs s = (if s = [] then None else parse_uids (split_on CHR '','' s))"

subsection \<open>Calls and replies\<close>

datatype logic_req =
    RegisterReq string string
  | LoginReq string string "DeviceInfo option"

datatype message_req =
    SendMessageReq int conv_id uid "Content option"
  | RevokeMessageReq int conv_id uid
  | SearchMessagesReq uid string
  | CreateConvReq int "uid list" uid string
  | PullHistoryReq conv_id int int uid  \<comment> \<open>\<open>PULL_PAGE_BACKWARD\<close>: \<open>before_seq\<close>, \<open>limit\<close>, \<open>op_uid\<close>\<close>
  | ListConversationsReq uid "int \<times> int"
  | MarkReadReq uid conv_id int
  | GetReadStateReq uid conv_id

datatype rpc_call = ToLogic logic_req | ToMessage message_req | ToRelation relation_req

type_synonym rpc_answer = "(yim_error option \<times> string option) option"
  \<comment> \<open>\<open>None\<close>: the call failed; else \<open>rsp.GetError()\<close> and the reply as JSON, \<open>None\<close> if it does not marshal\<close>

datatype http_body = ErrBody string | ProtoBody string | JsonBody string int | FileBody string

record http_rsp =
  hr_status :: nat
  hr_body :: http_body

definition writeErr :: "nat \<Rightarrow> string \<Rightarrow> http_rsp" where
  "writeErr code msg = \<lparr>hr_status = code, hr_body = ErrBody msg\<rparr>"

definition writeProto :: "string option \<Rightarrow> http_rsp" where
  "writeProto p = (case p of None \<Rightarrow> writeErr 500 ''marshal response'' | Some b \<Rightarrow> \<lparr>hr_status = 200, hr_body = ProtoBody b\<rparr>)"

definition reply :: "string \<Rightarrow> rpc_answer \<Rightarrow> http_rsp" where
  \<comment> \<open>the routes that do not look at \<open>rsp.GetError()\<close>\<close>
  "reply failed a = (case a of None \<Rightarrow> writeErr 500 failed | Some (_, p) \<Rightarrow> writeProto p)"

definition reply_checked :: "nat \<Rightarrow> string \<Rightarrow> rpc_answer \<Rightarrow> http_rsp" where
  "reply_checked code failed a = (case a of
       None \<Rightarrow> writeErr 500 failed
     | Some (Some e, _) \<Rightarrow> writeErr code (err_msg e)
     | Some (None, p) \<Rightarrow> writeProto p)"

subsection \<open>Requests and handlers\<close>

record http_req =
  hq_method :: string
  hq_path :: string
  hq_auth :: string  \<comment> \<open>the \<open>Authorization\<close> header\<close>
  hq_param :: "string \<Rightarrow> string"
  hq_query :: "string \<Rightarrow> string option"
  hq_body :: string

definition Query :: "http_req \<Rightarrow> string \<Rightarrow> string" where
  "Query rq k = (case hq_query rq k of None \<Rightarrow> [] | Some v \<Rightarrow> v)"

definition DefaultQuery :: "http_req \<Rightarrow> string \<Rightarrow> string \<Rightarrow> string" where
  "DefaultQuery rq k d = (case hq_query rq k of None \<Rightarrow> d | Some v \<Rightarrow> v)"

record json_api =  \<comment> \<open>the decoders, by what they fill in; \<open>None\<close>: an error\<close>
  pj_register :: "string \<Rightarrow> (string \<times> string) option"
  pj_login :: "string \<Rightarrow> (string \<times> string \<times> DeviceInfo option) option"
  pj_send :: "string \<Rightarrow> (int \<times> conv_id \<times> uid \<times> Content option) option"
  js_revoke :: "string \<Rightarrow> (conv_id \<times> int) option"
  pj_create :: "string \<Rightarrow> (int \<times> uid list \<times> uid \<times> string) option"
  js_read :: "string \<Rightarrow> int option"
  pj_friend :: "string \<Rightarrow> (uid \<times> uid \<times> string) option"
  js_action :: "string \<Rightarrow> string option"
  pj_members :: "string \<Rightarrow> (conv_id \<times> uid list \<times> uid) option"
  js_info :: "string \<Rightarrow> (string \<times> string) option"
  pj_profile :: "string \<Rightarrow> (uid \<times> string \<times> string) option"

datatype decision = Reject http_rsp | Forward rpc_call "rpc_answer \<Rightarrow> http_rsp"

definition pos_param :: "http_req \<Rightarrow> string \<Rightarrow> int option" where
  \<comment> \<open>\<open>strconv.ParseInt(c.Param(k), 10, 64)\<close>, \<open>None\<close> also if the number is not positive\<close>
  "pos_param rq k = (case parse_int (hq_param rq k) of None \<Rightarrow> None | Some v \<Rightarrow> if v \<le> 0 then None else Some v)"

definition post_register :: "json_api \<Rightarrow> http_req \<Rightarrow> decision" where
  "post_register js rq = (case pj_register js (hq_body rq) of
       None \<Rightarrow> Reject (writeErr 400 ''invalid json body'')
     | Some (nick, pw) \<Rightarrow>
         if nick = [] \<or> pw = [] then Reject (writeErr 400 ''nickname and password are required'')
         else Forward (ToLogic (RegisterReq nick pw)) (reply_checked 400 ''register failed''))"

definition post_login :: "json_api \<Rightarrow> http_req \<Rightarrow> decision" where
  "post_login js rq = (case pj_login js (hq_body rq) of
       None \<Rightarrow> Reject (writeErr 400 ''invalid json body'')
     | Some (nick, pw, dev) \<Rightarrow>
         if nick = [] \<or> pw = [] then Reject (writeErr 400 ''nickname and password are required'')
         else Forward (ToLogic (LoginReq nick pw dev)) (reply_checked 401 ''login failed''))"

definition post_message :: "json_api \<Rightarrow> uid \<Rightarrow> http_req \<Rightarrow> decision" where
  "post_message js uid rq = (case pj_send js (hq_body rq) of
       None \<Rightarrow> Reject (writeErr 400 ''invalid json body'')
     | Some (cmid, conv, from, msg) \<Rightarrow>
         if msg = None \<or> cmid = 0 \<or> conv = 0
         then Reject (writeErr 400 ''client_msg_id, conv_id, content are required'')
         else Forward (ToMessage (SendMessageReq cmid conv uid msg)) (reply ''send message failed''))"

definition post_revoke :: "json_api \<Rightarrow> uid \<Rightarrow> http_req \<Rightarrow> decision" where
  "post_revoke js uid rq = (case js_revoke js (hq_body rq) of
       None \<Rightarrow> Reject (writeErr 400 ''conv_id and msg_id required'')
     | Some (conv, msg) \<Rightarrow>
         if conv = 0 \<or> msg = 0 then Reject (writeErr 400 ''conv_id and msg_id required'')
         else Forward (ToMessage (RevokeMessageReq msg conv uid)) (reply_checked 400 ''revoke failed''))"

definition get_search :: "uid \<Rightarrow> http_req \<Rightarrow> decision" where
  "get_search uid rq = (if trim_space (Query rq ''keyword'') = []
     then Reject (writeErr 400 ''keyword query required'')
     else Forward (ToMessage (SearchMessagesReq uid (Query rq ''keyword''))) (reply ''search failed''))"

definition post_conversation :: "json_api \<Rightarrow> uid \<Rightarrow> http_req \<Rightarrow> decision" where
  "post_conversation js uid rq = (case pj_create js (hq_body rq) of
       None \<Rightarrow> Reject (writeErr 400 ''invalid json body'')
     | Some (typ, us, owner, nm) \<Rightarrow>
         (let us' = (if uid \<in> set us then us else us @ [uid])
          in if length us' < 2 then Reject (writeErr 400 ''member_uids requires at least 2 users'')
             else Forward (ToMessage (CreateConvReq (if typ = 0 then CONV_SINGLE else typ) us' uid nm))
                    (reply_checked 400 ''create conv failed'')))"

definition get_messages :: "uid \<Rightarrow> http_req \<Rightarrow> decision" where
  "get_messages uid rq = (case pos_param rq ''id'' of
       None \<Rightarrow> Reject (writeErr 400 ''invalid conversation id'')
     | Some conv \<Rightarrow>
         Forward (ToMessage (PullHistoryReq conv (parse_value (DefaultQuery rq ''before_seq'' ''0''))
                    (int32 (parse_value (DefaultQuery rq ''limit'' ''50''))) uid))
           (reply_checked 403 ''pull history failed''))"

definition page_query :: "http_req \<Rightarrow> int \<times> int" where
  "page_query rq = (int32 (parse_value (DefaultQuery rq ''page'' ''1'')),
                    int32 (parse_value (DefaultQuery rq ''page_size'' ''50'')))"

definition get_conversations :: "uid \<Rightarrow> http_req \<Rightarrow> decision" where
  "get_conversations uid rq =
     Forward (ToMessage (ListConversationsReq uid (page_query rq))) (reply ''list conversations failed'')"

definition post_read :: "json_api \<Rightarrow> uid \<Rightarrow> http_req \<Rightarrow> decision" where
  "post_read js uid rq = (case pos_param rq ''id'' of
       None \<Rightarrow> Reject (writeErr 400 ''invalid conversation id'')
     | Some conv \<Rightarrow>
         (case js_read js (hq_body rq) of
            None \<Rightarrow> Reject (writeErr 400 ''invalid json body'')
          | Some sq \<Rightarrow> Forward (ToMessage (MarkReadReq uid conv sq)) (reply ''mark read failed'')))"

definition get_read_states :: "uid \<Rightarrow> http_req \<Rightarrow> decision" where
  "get_read_states uid rq = (case pos_param rq ''id'' of
       None \<Rightarrow> Reject (writeErr 400 ''invalid conversation id'')
     | Some conv \<Rightarrow> Forward (ToMessage (GetReadStateReq uid conv)) (reply_checked 403 ''get read state failed''))"

definition post_friend_request :: "json_api \<Rightarrow> uid \<Rightarrow> http_req \<Rightarrow> decision" where
  "post_friend_request js uid rq = (case pj_friend js (hq_body rq) of
       None \<Rightarrow> Reject (writeErr 400 ''invalid json body'')
     | Some (from, to, msg) \<Rightarrow>
         Forward (ToRelation (SendFriendRequestReq uid to msg)) (reply_checked 400 ''send friend request failed''))"

definition post_friend_answer :: "json_api \<Rightarrow> uid \<Rightarrow> http_req \<Rightarrow> decision" where
  "post_friend_answer js uid rq = (case pos_param rq ''from_uid'' of
       None \<Rightarrow> Reject (writeErr 400 ''invalid from_uid'')
     | Some from \<Rightarrow>
         (case js_action js (hq_body rq) of
            None \<Rightarrow> Reject (writeErr 400 ''action must be accept or reject'')
          | Some act \<Rightarrow>
              if act \<noteq> ''accept'' \<and> act \<noteq> ''reject'' then Reject (writeErr 400 ''action must be accept or reject'')
              else Forward (ToRelation (HandleFriendRequestReq uid from (act = ''accept'')))
                     (reply_checked 400 ''handle friend request failed'')))"

definition get_friend_requests :: "uid \<Rightarrow> http_req \<Rightarrow> decision" where
  "get_friend_requests uid rq =
     Forward (ToRelation (ListFriendRequestsReq uid (DefaultQuery rq ''direction'' ''in'' \<noteq> ''out'')))
       (reply ''list friend requests failed'')"

definition get_friends :: "uid \<Rightarrow> http_req \<Rightarrow> decision" where
  "get_friends uid rq =
     Forward (ToRelation (ListFriendsReq uid (Some (page_query rq)))) (reply ''list friends failed'')"

definition delete_friend :: "uid \<Rightarrow> http_req \<Rightarrow> decision" where
  "delete_friend uid rq = (case pos_param rq ''uid'' of
       None \<Rightarrow> Reject (writeErr 400 ''invalid uid'')
     | Some f \<Rightarrow> Forward (ToRelation (DeleteFriendReq uid f)) (reply_checked 400 ''delete friend failed''))"

definition post_members :: "json_api \<Rightarrow> uid \<Rightarrow> http_req \<Rightarrow> decision" where
  "post_members js uid rq = (case pos_param rq ''conv_id'' of
       None \<Rightarrow> Reject (writeErr 400 ''invalid conv_id'')
     | Some conv \<Rightarrow>
         (case pj_members js (hq_body rq) of
            None \<Rightarrow> Reject (writeErr 400 ''invalid json body'')
          | Some (_, us, _) \<Rightarrow>
              Forward (ToRelation (AddGroupMembersReq conv us uid)) (reply_checked 400 ''add group members failed'')))"

definition delete_member :: "uid \<Rightarrow> http_req \<Rightarrow> decision" where
  "delete_member uid rq = (case (pos_param rq ''conv_id'', pos_param rq ''uid'') of
       (Some conv, Some target) \<Rightarrow>
         Forward (ToRelation (RemoveGroupMemberReq uid conv target)) (reply_checked 400 ''remove group member failed'')
     | _ \<Rightarrow> Reject (writeErr 400 ''invalid conv_id or uid''))"

definition post_quit :: "uid \<Rightarrow> http_req \<Rightarrow> decision" where
  "post_quit uid rq = (case pos_param rq ''conv_id'' of
       None \<Rightarrow> Reject (writeErr 400 ''invalid conv_id'')
     | Some conv \<Rightarrow> Forward (ToRelation (QuitGroupReq uid conv)) (reply_checked 400 ''quit group failed''))"

definition get_members :: "http_req \<Rightarrow> decision" where
  "get_members rq = (case pos_param rq ''conv_id'' of
       None \<Rightarrow> Reject (writeErr 400 ''invalid conv_id'')
     | Some conv \<Rightarrow> Forward (ToRelation (ListGroupMembersReq conv)) (reply ''list group members failed''))"

definition patch_group :: "json_api \<Rightarrow> uid \<Rightarrow> http_req \<Rightarrow> decision" where
  "patch_group js uid rq = (case pos_param rq ''conv_id'' of
       None \<Rightarrow> Reject (writeErr 400 ''invalid conv_id'')
     | Some conv \<Rightarrow>
         (case js_info js (hq_body rq) of
            None \<Rightarrow> Reject (writeErr 400 ''invalid json body'')
          | Some (nm, av) \<Rightarrow>
              Forward (ToRelation (UpdateGroupInfoReq uid conv nm av)) (reply_checked 400 ''update group info failed'')))"

definition uids_query :: "(uid list \<Rightarrow> relation_req) \<Rightarrow> string \<Rightarrow> http_req \<Rightarrow> decision" where
  "uids_query call failed rq = (case parseUIDs (Query rq ''uids'') of
       None \<Rightarrow> Reject (writeErr 400 ''uids query required (comma separated)'')
     | Some us \<Rightarrow>
         if us = [] then Reject (writeErr 400 ''uids query required (comma separated)'')
         else Forward (ToRelation (call us)) (reply failed))"

definition get_profiles :: "http_req \<Rightarrow> decision" where
  "get_profiles = uids_query GetProfilesReq ''get profiles failed''"

definition get_user_search :: "uid \<Rightarrow> http_req \<Rightarrow> decision" where
  "get_user_search uid rq = (if Query rq ''keyword'' = [] then Reject (writeErr 400 ''keyword query required'')
     else Forward (ToRelation (SearchUsersReq (Query rq ''keyword'') uid 0)) (reply ''search users failed''))"

definition patch_me :: "json_api \<Rightarrow> uid \<Rightarrow> http_req \<Rightarrow> decision" where
  "patch_me js uid rq = (case pj_profile js (hq_body rq) of
       None \<Rightarrow> Reject (writeErr 400 ''invalid json body'')
     | Some (_, nick, _) \<Rightarrow>
         Forward (ToRelation (UpdateProfileReq uid nick [])) (reply_checked 400 ''update profile failed''))"

definition get_presence :: "http_req \<Rightarrow> decision" where
  "get_presence = uids_query GetPresenceReq ''get presence failed''"

subsection \<open>Routes\<close>

datatype route = PostRegister | PostLogin | PostMessage | PostRevoke | GetSearch | PostConversation
  | GetMessages | GetConversations | PostRead | GetReadStates | PostFriendRequest | PostFriendAnswer
  | GetFriendRequests | GetFriends | DeleteFriendRoute | PostMembers | DeleteMember | PostQuit
  | GetMembers | PatchGroup | GetProfilesRoute | GetUserSearch | PatchMe | GetPresenceRoute

definition api :: "string \<Rightarrow> string" where "api p = ''/api/v1'' @ p"

fun route_pattern :: "route \<Rightarrow> string \<times> string" where
  \<comment> \<open>method and path of the registration\<close>
  "route_pattern PostRegister = (''POST'', api ''/register'')"
| "route_pattern PostLogin = (''POST'', api ''/login'')"
| "route_pattern PostMessage = (''POST'', api ''/messages'')"
| "route_pattern PostRevoke = (''POST'', api ''/messages/revoke'')"
| "route_pattern GetSearch = (''GET'', api ''/messages/search'')"
| "route_pattern PostConversation = (''POST'', api ''/conversations'')"
| "route_pattern GetMessages = (''GET'', api ''/conversations/:id/messages'')"
| "route_pattern GetConversations = (''GET'', api ''/conversations'')"
| "route_pattern PostRead = (''POST'', api ''/conversations/:id/read'')"
| "route_pattern GetReadStates = (''GET'', api ''/conversations/:id/read-states'')"
| "route_pattern PostFriendRequest = (''POST'', api ''/friend/requests'')"
| "route_pattern PostFriendAnswer = (''POST'', api ''/friend/requests/:from_uid'')"
| "route_pattern GetFriendRequests = (''GET'', api ''/friend/requests'')"
| "route_pattern GetFriends = (''GET'', api ''/friends'')"
| "route_pattern DeleteFriendRoute = (''DELETE'', api ''/friends/:uid'')"
| "route_pattern PostMembers = (''POST'', api ''/groups/:conv_id/members'')"
| "route_pattern DeleteMember = (''DELETE'', api ''/groups/:conv_id/members/:uid'')"
| "route_pattern PostQuit = (''POST'', api ''/groups/:conv_id/quit'')"
| "route_pattern GetMembers = (''GET'', api ''/groups/:conv_id/members'')"
| "route_pattern PatchGroup = (''PATCH'', api ''/groups/:conv_id/info'')"
| "route_pattern GetProfilesRoute = (''GET'', api ''/users/profiles'')"
| "route_pattern GetUserSearch = (''GET'', api ''/users/search'')"
| "route_pattern PatchMe = (''PATCH'', api ''/users/me'')"
| "route_pattern GetPresenceRoute = (''GET'', api ''/presence'')"

fun handle_route :: "json_api \<Rightarrow> uid \<Rightarrow> http_req \<Rightarrow> route \<Rightarrow> decision" where
  "handle_route js uid rq PostRegister = post_register js rq"
| "handle_route js uid rq PostLogin = post_login js rq"
| "handle_route js uid rq PostMessage = post_message js uid rq"
| "handle_route js uid rq PostRevoke = post_revoke js uid rq"
| "handle_route js uid rq GetSearch = get_search uid rq"
| "handle_route js uid rq PostConversation = post_conversation js uid rq"
| "handle_route js uid rq GetMessages = get_messages uid rq"
| "handle_route js uid rq GetConversations = get_conversations uid rq"
| "handle_route js uid rq PostRead = post_read js uid rq"
| "handle_route js uid rq GetReadStates = get_read_states uid rq"
| "handle_route js uid rq PostFriendRequest = post_friend_request js uid rq"
| "handle_route js uid rq PostFriendAnswer = post_friend_answer js uid rq"
| "handle_route js uid rq GetFriendRequests = get_friend_requests uid rq"
| "handle_route js uid rq GetFriends = get_friends uid rq"
| "handle_route js uid rq DeleteFriendRoute = delete_friend uid rq"
| "handle_route js uid rq PostMembers = post_members js uid rq"
| "handle_route js uid rq DeleteMember = delete_member uid rq"
| "handle_route js uid rq PostQuit = post_quit uid rq"
| "handle_route js uid rq GetMembers = get_members rq"
| "handle_route js uid rq PatchGroup = patch_group js uid rq"
| "handle_route js uid rq GetProfilesRoute = get_profiles rq"
| "handle_route js uid rq GetUserSearch = get_user_search uid rq"
| "handle_route js uid rq PatchMe = patch_me js uid rq"
| "handle_route js uid rq GetPresenceRoute = get_presence rq"

record gw_config =
  gc_crypto :: crypto
  gc_secret :: string
  gc_dev :: bool
  gc_json :: json_api

definition serve :: "gw_config \<Rightarrow> int \<Rightarrow> http_req \<Rightarrow> route \<Rightarrow> decision" where
  \<comment> \<open>the middleware, then the handler of the route\<close>
  "serve cfg now rq r =
     (case JWTAuth (gc_crypto cfg) (gc_secret cfg) (gc_dev cfg) now (hq_method rq) (hq_path rq) (hq_auth rq) of
        Unauthorized \<Rightarrow> Reject (writeErr 401 ''unauthorized'')
      | Proceed who \<Rightarrow> handle_route (gc_json cfg) (UID (Proceed who)) rq r)"

end
