(* ===== verification/GatewaySafety.thy ===== *)
theory GatewaySafety
  imports Gateway
begin

text \<open>
  What the gateway lets through (\<open>cmd/yimd/http.go\<close> with \<open>internal/middleware/auth.go\<close>): the calls
  it forwards carry the identity of the token, and, composed with the relation service, a request
  changes the relations of that user only.
\<close>

subsection \<open>The relation service changes what its caller owns\<close>

definition own_change :: "uid \<Rightarrow> meta_db \<Rightarrow> meta_db \<Rightarrow> bool" where
  \<comment> \<open>a new friendship answers a pending request of the other one; only his own friendships end; a
     group changes for himself, or because he owns it, or because it has no members yet\<close>
  "own_change u db db' \<longleftrightarrow>
     (\<forall>a b. friends a b db' \<and> \<not> friends a b db \<longrightarrow>
        a = u \<and> req_status b u db = Some 0 \<or> b = u \<and> req_status a u db = Some 0) \<and>
     (\<forall>a b. friends a b db \<and> \<not> friends a b db' \<longrightarrow> u \<in> {a, b}) \<and>
     (\<forall>c x. role_of c x db' \<noteq> role_of c x db \<longrightarrow> x = u \<or> role_of c u db = Some 1 \<or> (\<forall>y. role_of c y db = None)) \<and>
     (\<forall>x. row_get us_uid (users db') x \<noteq> row_get us_uid (users db) x \<longrightarrow> x = u)"

lemma own_change_refl [simp]: "own_change u db db"
  by (simp add: own_change_def)

lemma role_of_cong: "group_members db' = group_members db \<Longrightarrow> role_of c x db' = role_of c x db"
  by (simp add: role_of_def member_row_def)

lemma friend_writes_frame [simp]:
  "group_members (set_request f t st now db) = group_members db" "users (set_request f t st now db) = users db"
  "group_members (upsert_request f t m now db) = group_members db" "users (upsert_request f t m now db) = users db"
  "group_members (add_friend_row a b now db) = group_members db" "users (add_friend_row a b now db) = users db"
  "group_members (del_friend_row a b db) = group_members db" "users (del_friend_row a b db) = users db"
  by (simp_all add: set_request_def upsert_request_def add_friend_row_def del_friend_row_def)

lemma own_change_friendsI:
  assumes "group_members db' = group_members db" "users db' = users db"
    and "\<And>a b. friends a b db' \<Longrightarrow> \<not> friends a b db \<Longrightarrow>
      a = u \<and> req_status b u db = Some 0 \<or> b = u \<and> req_status a u db = Some 0"
    and "\<And>a b. friends a b db \<Longrightarrow> \<not> friends a b db' \<Longrightarrow> u \<in> {a, b}"
  shows "own_change u db db'"
  using assms role_of_cong [OF assms(1)] by (simp add: own_change_def)

lemma own_change_groupI:
  assumes "friendships db' = friendships db" "users db' = users db"
    and "\<And>c x. role_of c x db' \<noteq> role_of c x db \<Longrightarrow> x = u \<or> role_of c u db = Some 1 \<or> (\<forall>y. role_of c y db = None)"
  shows "own_change u db db'"
  using assms friends_cong [OF assms(1)] by (auto simp: own_change_def)

lemma HandleFriendRequest_own:
  "own_change opUID (rdb s) (rdb (snd (HandleFriendRequest flt now opUID fromUID accept s)))"
proof -
  consider "rdb (snd (HandleFriendRequest flt now opUID fromUID accept s)) = rdb s"
    | "req_status fromUID opUID (rdb s) = Some 0"
      "rdb (snd (HandleFriendRequest flt now opUID fromUID accept s)) =
        (let db1 = set_request fromUID opUID (if accept then 1 else 2) now (rdb s)
         in if accept then add_friend_row fromUID opUID now (add_friend_row opUID fromUID now db1) else db1)"
    using HandleFriendRequest_db [of flt now opUID fromUID accept s] by argo
  then show ?thesis
    by cases (auto simp: Let_def intro!: own_change_friendsI split: if_splits)
qed

lemma SendFriendRequest_db:
  "rdb (snd (SendFriendRequest flt now u t m s)) \<in> {rdb s, upsert_request u t m now (rdb s)} \<or>
   req_status t u (rdb s) = Some 0 \<and>
   rdb (snd (SendFriendRequest flt now u t m s)) = rdb (snd (HandleFriendRequest flt now t u True s))"
  by (auto simp: SendFriendRequest_def split: sum.split bool.split option.split)

lemma SendFriendRequest_own: "own_change u (rdb s) (rdb (snd (SendFriendRequest flt now u t m s)))"
proof -
  consider "rdb (snd (SendFriendRequest flt now u t m s)) = rdb s"
    | "rdb (snd (SendFriendRequest flt now u t m s)) = upsert_request u t m now (rdb s)"
    | "req_status t u (rdb s) = Some 0"
      "rdb (snd (SendFriendRequest flt now u t m s)) = rdb (snd (HandleFriendRequest flt now t u True s))"
    using SendFriendRequest_db [of flt now u t m s] by blast
  then show ?thesis
  proof cases
    case 3
    consider "rdb (snd (HandleFriendRequest flt now t u True s)) = rdb s"
      | "rdb (snd (HandleFriendRequest flt now t u True s)) =
          add_friend_row u t now (add_friend_row t u now (set_request u t 1 now (rdb s)))"
      using HandleFriendRequest_db [of flt now t u True s] by (auto simp: Let_def)
    then show ?thesis
      by cases (use 3 in \<open>auto intro!: own_change_friendsI\<close>)
  qed (auto intro!: own_change_friendsI)
qed

lemma DeleteFriend_own: "own_change u (rdb s) (rdb (snd (DeleteFriend flt u f s)))"
proof -
  have "rdb (snd (DeleteFriend flt u f s)) \<in> {rdb s, del_friend_row f u (del_friend_row u f (rdb s))}"
    by (auto simp: DeleteFriend_def commit_def split: option.splits)
  then show ?thesis by (auto intro!: own_change_friendsI)
qed

lemma add_loop_frame:
  assumes "add_loop flt i role now c us db = Inr db'"
  shows "friendships db' = friendships db \<and> users db' = users db"
  using assms
proof (induction us arbitrary: i db)
  case (Cons u us)
  then have "add_loop flt (Suc i) role now c us (index_member c u now (upsert_member c u (role u) now db)) = Inr db'"
    by (auto simp: Let_def split: option.splits)
  from Cons.IH [OF this] show ?case by (simp add: index_member_def upsert_member_def)
qed simp

lemma mutateConvMembers_frame:
  "mutateConvMembers flt c add remove db = Inr db' \<Longrightarrow> friendships db' = friendships db \<and> users db' = users db"
  by (auto simp: mutateConvMembers_def Let_def split: option.splits)

lemma add_tx_own:
  assumes "add_tx c us u db db'"
  shows "own_change u db db'"
proof (rule own_change_groupI)
  obtain flt role now db1 where "add_loop flt 0 role now c us db = Inr db1" "mutateConvMembers flt c us 0 db1 = Inr db'"
    using assms unfolding add_tx_def by blast
  then show "friendships db' = friendships db" "users db' = users db"
    using add_loop_frame mutateConvMembers_frame by metis+
next
  fix c' x assume "role_of c' x db' \<noteq> role_of c' x db"
  then have c: "c' = c" using add_tx_effect(1) [OF assms] by (auto split: if_splits)
  have "(\<forall>y. role_of c y db = None) \<or> role_of c u db = Some 1"
    using assms by (auto simp: add_tx_def member_count_0)
  then show "x = u \<or> role_of c' u db = Some 1 \<or> (\<forall>y. role_of c' y db = None)"
    unfolding c by blast
qed

lemma del_tx_own:
  assumes "del_tx c t db db'" "t = u \<or> role_of c u db = Some 1"
  shows "own_change u db db'"
proof (rule own_change_groupI)
  obtain flt where "mutateConvMembers flt c [] t (del_member c t db) = Inr db'"
    using assms(1) unfolding del_tx_def by blast
  then show "friendships db' = friendships db" "users db' = users db"
    using mutateConvMembers_frame by (fastforce simp: del_member_def)+
next
  fix c' x assume "role_of c' x db' \<noteq> role_of c' x db"
  then show "x = u \<or> role_of c' u db = Some 1 \<or> (\<forall>y. role_of c' y db = None)"
    using assms(2) del_tx_effect(1) [OF assms(1)] by (auto split: if_splits)
qed

lemma UpdateGroupInfo_own: "own_change u (rdb s) (rdb (snd (UpdateGroupInfo rf flt u c nm av s)))"
proof (rule own_change_groupI)
  show "friendships (rdb (snd (UpdateGroupInfo rf flt u c nm av s))) = friendships (rdb s)"
    "users (rdb (snd (UpdateGroupInfo rf flt u c nm av s))) = users (rdb s)"
    by (auto simp: UpdateGroupInfo_def Let_def Emit_def split: sum.split)
qed (simp add: UpdateGroupInfo_effect(1))

lemma GetProfiles_db: "rdb (snd (GetProfiles rf e now us s)) = rdb s"
  using GetProfiles_rel [of rf e now us s] by (metis prod.collapse)

lemma UpdateProfile_db:
  "\<exists>f. (\<forall>r. us_uid (f r) = us_uid r) \<and>
     rdb (snd (UpdateProfile rf flt now u nick av s)) \<in>
       {rdb s, (rdb s)\<lparr>users := row_upd (\<lambda>r. us_uid r = u) f (users (rdb s))\<rparr>}"
proof -
  let ?f = "\<lambda>r. r\<lparr>us_nickname := (if nick = [] then us_nickname r else nick),
              us_avatar := (if av = [] then us_avatar r else av)\<rparr>"
  define fin where "fin t = (case GetProfiles rf (flt QProfiles) now [u] t of (Inl e, t') \<Rightarrow> (Inl e, t')
      | (Inr [], t') \<Rightarrow> (Inr None, t') | (Inr (p # _), t') \<Rightarrow> (Inr (Some p), t'))" for t
  have fin: "rdb (snd (fin t)) = rdb t" for t
  proof -
    obtain r t' where g: "GetProfiles rf (flt QProfiles) now [u] t = (r, t')" by force
    then show ?thesis using GetProfiles_rel [OF g] by (cases r) (auto simp: fin_def split: list.split)
  qed
  define upd where "upd = row_upd (\<lambda>r. us_uid r = u) ?f (users (rdb s))"
  have "rdb (snd (UpdateProfile rf flt now u nick av s)) \<in> {rdb s, (rdb s)\<lparr>users := upd\<rparr>}"
    unfolding UpdateProfile_def Let_def fin_def [symmetric] upd_def [symmetric]
    by (simp only: fin split: if_split) (simp add: fin split: option.split)
  then show ?thesis unfolding upd_def by (intro exI [of _ ?f] conjI) simp_all
qed

lemma UpdateProfile_own: "own_change u (rdb s) (rdb (snd (UpdateProfile rf flt now u nick av s)))"
proof -
  obtain f where f: "\<forall>r. us_uid (f r) = us_uid r"
    "rdb (snd (UpdateProfile rf flt now u nick av s)) \<in>
       {rdb s, (rdb s)\<lparr>users := row_upd (\<lambda>r. us_uid r = u) f (users (rdb s))\<rparr>}"
    using UpdateProfile_db by blast
  have "own_change u db (db\<lparr>users := row_upd (\<lambda>r. us_uid r = u) f (users db)\<rparr>)" for db
    using f(1) by (auto simp: own_change_def friends_def role_of_def member_row_def row_get_upd_key)
  with f(2) show ?thesis by auto
qed

lemma profile_reader_db:
  "rdb (snd (case GetProfiles rf e now us s of (Inl e, s') \<Rightarrow> (Inl (f e), s') | (Inr ps, s') \<Rightarrow> (Inr (h ps), s'))) = rdb s"
proof -
  obtain r t where g: "GetProfiles rf e now us s = (r, t)" by force
  then show ?thesis using GetProfiles_rel [OF g] by (cases r) simp_all
qed

lemma ListFriends_db: "rdb (snd (ListFriends rf ff now u n k s)) = rdb s"
  by (simp add: ListFriends_def Let_def profile_reader_db [where f = "\<lambda>e. e"] split: option.split)

lemma ListGroupMembers_db: "rdb (snd (ListGroupMembers rf gf now c s)) = rdb s"
  by (simp add: ListGroupMembers_def Let_def profile_reader_db [where f = "\<lambda>e. e"] split: option.split)

fun relation_actor :: "relation_req \<Rightarrow> uid option" where
  \<comment> \<open>the identity a request claims\<close>
  "relation_actor (SendFriendRequestReq f _ _) = Some f"
| "relation_actor (HandleFriendRequestReq op _ _) = Some op"
| "relation_actor (ListFriendRequestsReq u _) = Some u"
| "relation_actor (ListFriendsReq u _) = Some u"
| "relation_actor (DeleteFriendReq op _) = Some op"
| "relation_actor (AddGroupMembersReq _ _ ow) = Some ow"
| "relation_actor (RemoveGroupMemberReq op _ _) = Some op"
| "relation_actor (QuitGroupReq u _) = Some u"
| "relation_actor (UpdateGroupInfoReq op _ _ _) = Some op"
| "relation_actor (SearchUsersReq _ op _) = Some op"
| "relation_actor (UpdateProfileReq u _ _) = Some u"
| "relation_actor _ = None"

lemma relation_rpc_own:
  "case relation_actor q of
     None \<Rightarrow> rdb (snd (relation_rpc env q s)) = rdb s
   | Some u \<Rightarrow> own_change u (rdb s) (rdb (snd (relation_rpc env q s)))"
proof (cases q)
  case (ListFriendsReq u page)
  then show ?thesis by (auto simp: split_beta ListFriends_db split: option.split)
next
  case (AddGroupMembersReq c us u)
  then show ?thesis
    using AddGroupMembers_tx [of "rl_redis env" "rl_group env" "rl_now env" c us u s] add_tx_own
    by (auto simp: split_beta)
next
  case (RemoveGroupMemberReq u c t)
  then show ?thesis
    using RemoveGroupMember_tx [of "rl_redis env" "rl_group env" u c t s] del_tx_own
    by (auto simp: split_beta)
next
  case (QuitGroupReq u c)
  then show ?thesis
    using QuitGroup_tx [of "rl_redis env" "rl_group env" u c s] del_tx_own
    by (auto simp: split_beta)
next
  case (ListGroupMembersReq c)
  then show ?thesis
    by (simp add: split_beta ListGroupMembers_db)
next
  case (GetProfilesReq us)
  then show ?thesis by (simp add: split_beta GetProfiles_db)
qed (simp_all add: split_beta Let_def HandleFriendRequest_own SendFriendRequest_own DeleteFriend_own
      UpdateGroupInfo_own UpdateProfile_own)

subsection \<open>Identity of forwarded calls\<close>

text \<open>The router of the HTTP framework picks a route whose pattern matches the request, segment by segment.\<close>

fun seg_match :: "string list \<Rightarrow> string list \<Rightarrow> bool" where
  "seg_match [] [] = True"
| "seg_match (p # ps) (x # xs) = ((if has_prefix '':'' p then x \<noteq> [] else x = p) \<and> seg_match ps xs)"
| "seg_match _ _ = False"

definition route_matches :: "route \<Rightarrow> http_req \<Rightarrow> bool" where
  "route_matches r rq \<longleftrightarrow> hq_method rq = fst (route_pattern r) \<and>
     seg_match (split_on CHR ''/'' (snd (route_pattern r))) (split_on CHR ''/'' (hq_path rq))"

fun message_actor :: "message_req \<Rightarrow> uid" where
  "message_actor (SendMessageReq _ _ u _) = u"
| "message_actor (RevokeMessageReq _ _ u) = u"
| "message_actor (SearchMessagesReq u _) = u"
| "message_actor (CreateConvReq _ _ u _) = u"
| "message_actor (PullHistoryReq _ _ _ u) = u"
| "message_actor (ListConversationsReq u _) = u"
| "message_actor (MarkReadReq u _ _) = u"
| "message_actor (GetReadStateReq u _) = u"

fun call_actor :: "rpc_call \<Rightarrow> uid option" where
  "call_actor (ToLogic _) = None"
| "call_actor (ToMessage q) = Some (message_actor q)"
| "call_actor (ToRelation q) = relation_actor q"

definition token_user :: "gw_config \<Rightarrow> int \<Rightarrow> http_req \<Rightarrow> uid option" where
  \<comment> \<open>the user of the bearer token, if the verifier accepts one\<close>
  "token_user cfg now rq =
     (if bearer (hq_auth rq) = [] then None
      else case gw_verify (gc_crypto cfg) (gc_secret cfg) (gc_dev cfg) now (bearer (hq_auth rq)) of
          Inl _ \<Rightarrow> None | Inr u \<Rightarrow> Some u)"

definition open_call :: "rpc_call \<Rightarrow> bool" where
  \<comment> \<open>calls that name no caller: profiles, presence, the members of a group\<close>
  "open_call call \<longleftrightarrow> (\<exists>us c. call \<in> {ToRelation (GetProfilesReq us), ToRelation (GetPresenceReq us),
     ToRelation (ListGroupMembersReq c)})"

lemma public_routes:
  assumes "route_matches r rq" "isPublic (hq_method rq) (hq_path rq)"
  shows "r \<in> {PostRegister, PostLogin}"
proof -
  have files: "\<not> has_prefix ''/files/'' (hq_path rq)"
  proof
    assume "has_prefix ''/files/'' (hq_path rq)"
    then obtain rest where "hq_path rq = ''/files/'' @ rest" by (auto simp: has_prefix_iff)
    then have "split_on CHR ''/'' (hq_path rq) = [] # ''files'' # split_on CHR ''/'' rest" by simp
    with assms(1) show False by (cases r) (simp_all add: route_matches_def api_def has_prefix_iff)
  qed
  with assms show ?thesis
    by (cases r) (auto simp: isPublic_def route_matches_def api_def has_prefix_iff)
qed

lemma handle_route_actor:
  assumes "handle_route js u rq r = Forward call k"
  shows "(\<exists>l. call = ToLogic l) \<and> r \<in> {PostRegister, PostLogin} \<or>
    r \<notin> {PostRegister, PostLogin} \<and> (call_actor call = Some u \<or> open_call call) \<and>
    (\<forall>typ us ow nm. call = ToMessage (CreateConvReq typ us ow nm) \<longrightarrow> u \<in> set us)"
  using assms
  by (cases r)
     (auto simp: post_register_def post_login_def post_message_def post_revoke_def get_search_def
        post_conversation_def get_messages_def get_conversations_def post_read_def get_read_states_def
        post_friend_request_def post_friend_answer_def get_friend_requests_def get_friends_def
        delete_friend_def post_members_def delete_member_def post_quit_def get_members_def patch_group_def
        get_profiles_def get_user_search_def patch_me_def get_presence_def uids_query_def open_call_def Let_def
      split: option.splits if_splits)

lemma serve_token:
  assumes "route_matches r rq" "r \<notin> {PostRegister, PostLogin}"
  shows "serve cfg now rq r = (case token_user cfg now rq of
     None \<Rightarrow> Reject (writeErr 401 ''unauthorized'') | Some u \<Rightarrow> handle_route (gc_json cfg) u rq r)"
  using public_routes [OF assms(1)] assms(2)
  by (auto simp: serve_def JWTAuth_def token_user_def UID_def split: sum.splits)

lemma serve_public:
  assumes "r \<in> {PostRegister, PostLogin}" "serve cfg now rq r = Forward call k"
  shows "\<exists>l. call = ToLogic l"
proof -
  obtain u where "handle_route (gc_json cfg) u rq r = Forward call k"
    using assms(2) by (auto simp: serve_def split: gateway.splits)
  from handle_route_actor [OF this] assms(1) show ?thesis by blast
qed

lemma forwarded_from:
  assumes "route_matches r rq" "serve cfg now rq r = Forward call k"
  shows "(\<exists>l. call = ToLogic l) \<and> r \<in> {PostRegister, PostLogin} \<or>
    (\<exists>u. token_user cfg now rq = Some u \<and> (call_actor call = Some u \<or> open_call call) \<and>
      (\<forall>typ us ow nm. call = ToMessage (CreateConvReq typ us ow nm) \<longrightarrow> u \<in> set us))"
proof (cases "r \<in> {PostRegister, PostLogin}")
  case True
  then show ?thesis using serve_public [OF True assms(2)] by blast
next
  case False
  then obtain u where "token_user cfg now rq = Some u" "handle_route (gc_json cfg) u rq r = Forward call k"
    using serve_token [OF assms(1)] assms(2) by (auto split: option.splits)
  from handle_route_actor [OF this(2)] this(1) False show ?thesis by auto
qed

text \<open>What leaves the gateway through the routes of \<open>http.go\<close>; the routes of \<open>files.go\<close> are added in \<open>Files\<close>.\<close>

lemma api_calls_act_as_token:
  assumes "route_matches r rq"
  shows "case serve cfg now rq r of
      Forward call k \<Rightarrow>
        (\<exists>l. call = ToLogic l) \<and> r \<in> {PostRegister, PostLogin} \<or>
        (\<exists>u. token_user cfg now rq = Some u \<and> (call_actor call = Some u \<or> open_call call) \<and>
          (\<forall>typ us ow nm. call = ToMessage (CreateConvReq typ us ow nm) \<longrightarrow> u \<in> set us))
    | Reject rsp \<Rightarrow>
        r \<notin> {PostRegister, PostLogin} \<and> token_user cfg now rq = None \<longrightarrow> rsp = writeErr 401 ''unauthorized''"
proof (cases "serve cfg now rq r")
  case (Reject rsp)
  then show ?thesis using serve_token [OF assms, of cfg now] by auto
next
  case (Forward call k)
  then show ?thesis using forwarded_from [OF assms Forward] by simp
qed

subsection \<open>Gateway and relation service together\<close>

definition serve_relation :: "gw_config \<Rightarrow> relation_env \<Rightarrow> (relation_rsp \<Rightarrow> string option) \<Rightarrow> (rpc_call \<Rightarrow> rpc_answer) \<Rightarrow>
    bool \<Rightarrow> int \<Rightarrow> http_req \<Rightarrow> route \<Rightarrow> rel \<Rightarrow> http_rsp \<times> rel" where
  \<comment> \<open>one request with the relation service as modelled, the other services as \<open>others\<close>; with \<open>lost\<close>
     the reply does not come back\<close>
  "serve_relation cfg env render others lost now rq r s =
     (case serve cfg now rq r of
        Reject rsp \<Rightarrow> (rsp, s)
      | Forward (ToRelation q) k \<Rightarrow>
          (let (a, s') = relation_rpc env q s
           in (k (if lost then None else Some (rsp_error a, render a)), s'))
      | Forward call k \<Rightarrow> (k (others call), s))"

lemma open_call_reads: "open_call (ToRelation q) \<Longrightarrow> relation_actor q = None"
  by (auto simp: open_call_def)

lemma serve_relation_db:
  assumes "route_matches r rq" "serve_relation cfg env render others lost now rq r s = (rsp, s')"
  shows "rdb s' = rdb s \<or> (\<exists>u. token_user cfg now rq = Some u \<and> own_change u (rdb s) (rdb s'))"
proof (cases "serve cfg now rq r")
  case (Forward call k)
  show ?thesis
  proof (cases call)
    case (ToRelation q)
    then have s': "rdb s' = rdb (snd (relation_rpc env q s))"
      using assms(2) Forward by (auto simp: serve_relation_def split: prod.splits)
    obtain u where u: "token_user cfg now rq = Some u" "relation_actor q = Some u \<or> open_call call"
      using forwarded_from [OF assms(1) Forward] ToRelation by auto
    then show ?thesis
      using relation_rpc_own [where q = q and env = env and s = s] open_call_reads [of q] s' ToRelation by (auto split: option.splits)
  qed (use assms(2) Forward in \<open>auto simp: serve_relation_def\<close>)
qed (use assms(2) in \<open>auto simp: serve_relation_def\<close>)

subsection \<open>A run\<close>

definition demo_json :: json_api where
  "demo_json = \<lparr>pj_register = (\<lambda>_. None), pj_login = (\<lambda>_. None), pj_send = (\<lambda>_. None), js_revoke = (\<lambda>_. None),
     pj_create = (\<lambda>_. None), js_read = (\<lambda>_. None), pj_friend = (\<lambda>b. Some (7, 2, b)), js_action = Some,
     pj_members = (\<lambda>_. None), js_info = (\<lambda>_. None), pj_profile = (\<lambda>_. None)\<rparr>"

definition demo_gateway :: gw_config where
  "demo_gateway = \<lparr>gc_crypto = demo_crypto, gc_secret = ''key'', gc_dev = True, gc_json = demo_json\<rparr>"

definition demo_accept :: http_req where
  \<comment> \<open>user 2 accepts the request of user 1\<close>
  "demo_accept = \<lparr>hq_method = ''POST'', hq_path = ''/api/v1/friend/requests/1'', hq_auth = ''Bearer dev.2'',
     hq_param = (\<lambda>_. ''1''), hq_query = (\<lambda>_. None), hq_body = ''accept''\<rparr>"

definition demo_asked :: rel where
  "demo_asked = rel0\<lparr>rdb := upsert_request 1 2 [] 5 empty_meta\<rparr>"

definition demo_relation_env :: relation_env where
  "demo_relation_env = \<lparr>rl_redis = (\<lambda>_ _. ROk), rl_friend = no_fault, rl_group = no_fault, rl_profile = no_fault,
     rl_query = None, rl_like = (=), rl_now = 6\<rparr>"

lemma demo_route: "route_matches PostFriendAnswer demo_accept"
  by (simp add: route_matches_def demo_accept_def api_def has_prefix_iff)

lemma demo_token: "token_user demo_gateway now demo_accept = Some 2"
  by (simp add: token_user_def demo_gateway_def demo_accept_def bearer_def gw_verify_def has_prefix_iff trim_space_def
      is_space_def parse_int_def digit_val_def)

lemma demo_forward: "serve demo_gateway now demo_accept PostFriendAnswer =
    Forward (ToRelation (HandleFriendRequestReq 2 1 True)) (reply_checked 400 ''handle friend request failed'')"
proof -
  have "handle_route (gc_json demo_gateway) 2 demo_accept PostFriendAnswer =
      Forward (ToRelation (HandleFriendRequestReq 2 1 True)) (reply_checked 400 ''handle friend request failed'')"
    by (simp add: post_friend_answer_def pos_param_def demo_accept_def demo_gateway_def demo_json_def
        parse_int_def has_prefix_iff digit_val_def)
  then show ?thesis by (simp add: serve_token [OF demo_route] demo_token)
qed

end
