(* ===== verification/Comet.thy ===== *)
theory Comet
  imports Frame Tokens "HOL-Library.AList"
begin

text \<open>
  The connection server (\<open>internal/comet\<close>, \<open>cmd/yim-comet\<close>): the index of connections (\<open>bucket.go\<close>),
  a connection (\<open>connection.go\<close>), the frame handlers (\<open>handler.go\<close>, \<open>ephemeral.go\<close>), the server with
  its read loop, sweep and drain (\<open>server.go\<close>), the events pushed to clients (\<open>events.go\<close>), and the
  calls the other services make (\<open>comet_handler.go\<close>).

  A \<open>*Conn\<close> is a number, and \<open>cconns\<close> the heap it points into: the index and a read loop hold the
  same connection. Bytes written to a socket are appended to \<open>co_out\<close>. The message and sequence
  services, the clock, Redis and the sockets answer through \<open>comet_env\<close>.
\<close>

subsection \<open>The index of connections\<close>

definition bucketCount :: nat where "bucketCount = 16"

type_synonym bucket = "(uid \<times> (string \<times> nat) list) list"
type_synonym Keeper = "bucket list"

definition NewKeeper :: Keeper where "NewKeeper = replicate bucketCount []"

definition bucketFor :: "uid \<Rightarrow> nat" where
  \<comment> \<open>\<open>uid & (bucketCount - 1)\<close>\<close>
  "bucketFor uid = nat (uid AND 15)"

definition keeper_add :: "nat \<Rightarrow> uid \<Rightarrow> string \<Rightarrow> Keeper \<Rightarrow> Keeper" where
  "keeper_add c uid dev k =
     (let i = bucketFor uid; b = k ! i;
          dm = (case map_of b uid of None \<Rightarrow> [] | Some dm \<Rightarrow> dm)
      in k[i := AList.update uid (AList.update dev c dm) b])"

definition keeper_remove :: "nat \<Rightarrow> uid \<Rightarrow> string \<Rightarrow> Keeper \<Rightarrow> bool \<times> Keeper" where
  "keeper_remove c uid dev k =
     (if uid = 0 then (False, k)
      else
        (let i = bucketFor uid; b = k ! i
         in case map_of b uid of
              None \<Rightarrow> (False, k)
            | Some dm \<Rightarrow>
                (let dm' = (if map_of dm dev = Some c then AList.delete dev dm else dm)
                 in if dm' = [] then (True, k[i := AList.delete uid b])
                    else (False, k[i := AList.update uid dm' b]))))"

definition keeper_get :: "Keeper \<Rightarrow> uid \<Rightarrow> string \<Rightarrow> nat option" where
  "keeper_get k uid dev =
     (case map_of (k ! bucketFor uid) uid of None \<Rightarrow> None | Some dm \<Rightarrow> map_of dm dev)"

definition Devices :: "Keeper \<Rightarrow> uid \<Rightarrow> nat list" where
  "Devices k uid = (case map_of (k ! bucketFor uid) uid of None \<Rightarrow> [] | Some dm \<Rightarrow> map snd dm)"

definition keeper_all :: "Keeper \<Rightarrow> nat list" where
  "keeper_all k = concat (map (\<lambda>b. concat (map (\<lambda>(uid, dm). map snd dm) b)) k)"

definition keeper_count :: "Keeper \<Rightarrow> nat" where
  "keeper_count k = length (keeper_all k)"

text \<open>What the server relies on of the index, and that the bucketed maps provide it.\<close>

locale conn_index =
  fixes wf :: "'k \<Rightarrow> bool"
    and new :: 'k
    and get :: "'k \<Rightarrow> uid \<Rightarrow> string \<Rightarrow> nat option"
    and add :: "nat \<Rightarrow> uid \<Rightarrow> string \<Rightarrow> 'k \<Rightarrow> 'k"
    and remove :: "nat \<Rightarrow> uid \<Rightarrow> string \<Rightarrow> 'k \<Rightarrow> bool \<times> 'k"
    and devices :: "'k \<Rightarrow> uid \<Rightarrow> nat list"
    and all :: "'k \<Rightarrow> nat list"
  assumes wf_new: "wf new"
    and get_new: "get new u d = None"
    and wf_add: "wf k \<Longrightarrow> wf (add c u d k)"
    and get_add: "wf k \<Longrightarrow> get (add c u d k) u' d' = (if u' = u \<and> d' = d then Some c else get k u' d')"
    and wf_remove: "wf k \<Longrightarrow> wf (snd (remove c u d k))"
    and get_remove: "wf k \<Longrightarrow> u \<noteq> 0 \<Longrightarrow> get (snd (remove c u d k)) u' d' =
          (if u' = u \<and> d' = d \<and> get k u d = Some c then None else get k u' d')"
    and remove_unauthed: "remove c 0 d k = (False, k)"
    and remove_last: "wf k \<Longrightarrow> u \<noteq> 0 \<Longrightarrow>
          fst (remove c u d k) \<longleftrightarrow> get k u d = Some c \<and> (\<forall>d'. d' \<noteq> d \<longrightarrow> get k u d' = None)"
    and set_devices: "wf k \<Longrightarrow> set (devices k u) = {c. \<exists>d. get k u d = Some c}"
    and set_all: "wf k \<Longrightarrow> set (all k) = {c. \<exists>u d. get k u d = Some c}"
begin

lemma remove_get_mono: "wf k \<Longrightarrow> get (snd (remove c u d k)) u' d' = Some x \<Longrightarrow> get k u' d' = Some x"
  by (cases "u = 0") (auto simp: get_remove remove_unauthed split: if_splits)

lemma remove_gone: "wf k \<Longrightarrow> u \<noteq> 0 \<Longrightarrow> get k u d = Some c \<Longrightarrow> get (snd (remove c u d k)) u d = None"
  by (simp add: get_remove)

lemma remove_stale: "wf k \<Longrightarrow> get k u d \<noteq> Some c \<Longrightarrow>
    fst (remove c u d k) = False \<and> get (snd (remove c u d k)) = get k"
  by (cases "u = 0") (auto simp: remove_unauthed remove_last get_remove fun_eq_iff)

lemma devices_in_all: "wf k \<Longrightarrow> c \<in> set (devices k u) \<Longrightarrow> c \<in> set (all k)"
  by (auto simp: set_devices set_all)

end

definition bucket_wf :: "nat \<Rightarrow> bucket \<Rightarrow> bool" where
  "bucket_wf i b \<longleftrightarrow> distinct (map fst b) \<and>
     (\<forall>u dm. map_of b u = Some dm \<longrightarrow> bucketFor u = i \<and> dm \<noteq> [] \<and> distinct (map fst dm))"

definition keeper_wf :: "Keeper \<Rightarrow> bool" where
  "keeper_wf k \<longleftrightarrow> length k = bucketCount \<and> (\<forall>i < bucketCount. bucket_wf i (k ! i))"

lemma bucketFor_lt: "bucketFor u < bucketCount"
proof -
  have "u AND 15 = u mod 16" using take_bit_eq_mask [of 4 u] by (simp add: take_bit_eq_mod mask_eq_exp_minus_1 flip: take_bit_eq_mask)
  then show ?thesis by (simp add: bucketFor_def bucketCount_def nat_less_iff)
qed

lemma keeper_wf_bucket: "keeper_wf k \<Longrightarrow> bucket_wf (bucketFor u) (k ! bucketFor u)"
  using bucketFor_lt by (simp add: keeper_wf_def)

lemma keeper_wf_upd: "keeper_wf k \<Longrightarrow> bucket_wf i b \<Longrightarrow> keeper_wf (k[i := b])"
  by (cases "i < length k") (auto simp: keeper_wf_def nth_list_update list_update_beyond)

lemma bucket_wfD: "bucket_wf i b \<Longrightarrow> map_of b u = Some dm \<Longrightarrow> bucketFor u = i \<and> dm \<noteq> [] \<and> distinct (map fst dm)"
  by (simp add: bucket_wf_def)

lemma bucket_wf_update: "bucket_wf i b \<Longrightarrow> bucketFor u = i \<Longrightarrow> dm \<noteq> [] \<Longrightarrow> distinct (map fst dm) \<Longrightarrow>
    bucket_wf i (AList.update u dm b)"
  by (auto simp: bucket_wf_def distinct_update update_conv' split: if_splits)

lemma bucket_wf_delete: "bucket_wf i b \<Longrightarrow> bucket_wf i (AList.delete u b)"
  by (auto simp: bucket_wf_def distinct_delete delete_conv' fun_upd_def split: if_splits)

lemma get_bucket_upd: "keeper_wf k \<Longrightarrow> keeper_get (k[bucketFor u := b]) u' d =
    (if bucketFor u' = bucketFor u then (case map_of b u' of None \<Rightarrow> None | Some dm \<Rightarrow> map_of dm d)
     else keeper_get k u' d)"
  using bucketFor_lt [of u] by (simp add: keeper_get_def keeper_wf_def nth_list_update)

lemma keeper_add_wf: "keeper_wf k \<Longrightarrow> keeper_wf (keeper_add c u d k)"
  unfolding keeper_add_def Let_def
  by (rule keeper_wf_upd, assumption, rule bucket_wf_update)
    (auto simp: keeper_wf_bucket distinct_update update_nonempty split: option.split
      dest: bucket_wfD [OF keeper_wf_bucket])

lemma keeper_get_add: "keeper_wf k \<Longrightarrow>
    keeper_get (keeper_add c u d k) u' d' = (if u' = u \<and> d' = d then Some c else keeper_get k u' d')"
  unfolding keeper_add_def Let_def
  by (subst get_bucket_upd) (auto simp: keeper_get_def update_conv' split: option.split)

lemma delete_Nil_iff: "AList.delete d dm = [] \<longleftrightarrow> (\<forall>d'. d' \<noteq> d \<longrightarrow> map_of dm d' = None)"
  by (force simp: AList.delete_eq filter_empty_conv map_of_eq_None_iff)

lemma keeper_remove_cases:
  assumes wf: "keeper_wf k" and u: "u \<noteq> 0"
  obtains (absent) "map_of (k ! bucketFor u) u = None" "keeper_remove c u d k = (False, k)"
  | (stale) dm where "map_of (k ! bucketFor u) u = Some dm" "map_of dm d \<noteq> Some c" "dm \<noteq> []"
      "keeper_remove c u d k = (False, k[bucketFor u := AList.update u dm (k ! bucketFor u)])"
  | (last) dm where "map_of (k ! bucketFor u) u = Some dm" "map_of dm d = Some c" "AList.delete d dm = []"
      "keeper_remove c u d k = (True, k[bucketFor u := AList.delete u (k ! bucketFor u)])"
  | (more) dm where "map_of (k ! bucketFor u) u = Some dm" "map_of dm d = Some c" "AList.delete d dm \<noteq> []"
      "keeper_remove c u d k = (False, k[bucketFor u := AList.update u (AList.delete d dm) (k ! bucketFor u)])"
proof (cases "map_of (k ! bucketFor u) u")
  case None
  with u show ?thesis by (intro absent) (simp_all add: keeper_remove_def Let_def)
next
  case (Some dm)
  with bucket_wfD [OF keeper_wf_bucket [OF wf]] have "dm \<noteq> []" by blast
  show ?thesis
  proof (cases "map_of dm d = Some c")
    case False
    with Some u \<open>dm \<noteq> []\<close> show ?thesis by (intro stale) (simp_all add: keeper_remove_def Let_def)
  next
    case True
    with Some u last [of dm] more [of dm] show ?thesis
      by (cases "AList.delete d dm = []") (simp_all add: keeper_remove_def Let_def)
  qed
qed

lemma keeper_remove_wf:
  assumes wf: "keeper_wf k"
  shows "keeper_wf (snd (keeper_remove c u d k))"
proof (cases "u = 0")
  case False
  note B = keeper_wf_bucket [OF wf, of u]
  show ?thesis
  proof (cases rule: keeper_remove_cases [OF wf False, where c = c and d = d, case_names absent stale last more])
    case (more dm)
    with bucket_wfD [OF B] have "distinct (map fst (AList.delete d dm))" by (blast intro: distinct_delete)
    with more(3) have "bucket_wf (bucketFor u) (AList.update u (AList.delete d dm) (k ! bucketFor u))"
      by (intro bucket_wf_update B refl)
    with more(4) show ?thesis by (simp add: keeper_wf_upd [OF wf])
  next
    case (stale dm)
    with bucket_wfD [OF B] have "bucket_wf (bucketFor u) (AList.update u dm (k ! bucketFor u))"
      by (blast intro: bucket_wf_update B)
    with stale(4) show ?thesis by (simp add: keeper_wf_upd [OF wf])
  next
    case (last dm)
    then show ?thesis by (simp add: keeper_wf_upd [OF wf] bucket_wf_delete B)
  qed (use wf in simp)
qed (use wf in \<open>simp add: keeper_remove_def\<close>)

lemma keeper_get_remove:
  assumes wf: "keeper_wf k" and u: "u \<noteq> 0"
  shows "keeper_get (snd (keeper_remove c u d k)) u' d' =
    (if u' = u \<and> d' = d \<and> keeper_get k u d = Some c then None else keeper_get k u' d')"
proof (cases rule: keeper_remove_cases [OF wf u, where c = c and d = d, case_names absent stale last more])
  case (last dm)
  show ?thesis
    unfolding last(4) snd_conv get_bucket_upd [OF wf] using last
    by (cases "u' = u") (auto simp: keeper_get_def delete_conv' delete_Nil_iff split: option.split)
next
  case (more dm)
  show ?thesis
    unfolding more(4) snd_conv get_bucket_upd [OF wf] using more
    by (cases "u' = u") (auto simp: keeper_get_def delete_conv' update_conv' split: option.split)
next
  case (stale dm)
  show ?thesis
    unfolding stale(4) snd_conv get_bucket_upd [OF wf] using stale
    by (cases "u' = u") (auto simp: keeper_get_def update_conv' split: option.split)
qed (auto simp: keeper_get_def)

lemma keeper_remove_last:
  assumes wf: "keeper_wf k" and u: "u \<noteq> 0"
  shows "fst (keeper_remove c u d k) \<longleftrightarrow> keeper_get k u d = Some c \<and> (\<forall>d'. d' \<noteq> d \<longrightarrow> keeper_get k u d' = None)"
  by (cases rule: keeper_remove_cases [OF wf u, where c = c and d = d, case_names absent stale last more]) (auto simp: keeper_get_def delete_Nil_iff)

lemma Devices_set: "keeper_wf k \<Longrightarrow> set (Devices k u) = {c. \<exists>d. keeper_get k u d = Some c}"
  using bucket_wfD [OF keeper_wf_bucket, of k u u]
  by (cases "map_of (k ! bucketFor u) u") (force simp: Devices_def keeper_get_def)+

lemma keeper_all_set:
  assumes wf: "keeper_wf k"
  shows "set (keeper_all k) = {c. \<exists>u d. keeper_get k u d = Some c}"
proof -
  have "c \<in> set (keeper_all k) \<longleftrightarrow> (\<exists>u d. keeper_get k u d = Some c)" for c
  proof
    assume "c \<in> set (keeper_all k)"
    then obtain b u dm d where m: "b \<in> set k" "(u, dm) \<in> set b" "(d, c) \<in> set dm"
      by (auto simp: keeper_all_def)
    then obtain i where i: "i < length k" "b = k ! i" by (auto simp: in_set_conv_nth)
    with wf have bw: "bucket_wf i b" by (simp add: keeper_wf_def)
    then have u: "map_of b u = Some dm" using m(2) by (simp add: bucket_wf_def)
    with bucket_wfD [OF bw u] i m(3) have "keeper_get k u d = Some c" by (simp add: keeper_get_def)
    then show "\<exists>u d. keeper_get k u d = Some c" by blast
  next
    assume "\<exists>u d. keeper_get k u d = Some c"
    then obtain u d dm where "map_of (k ! bucketFor u) u = Some dm" "map_of dm d = Some c"
      by (auto simp: keeper_get_def split: option.splits)
    then have "(u, dm) \<in> set (k ! bucketFor u)" "(d, c) \<in> set dm" by (auto dest: map_of_SomeD)
    moreover have "k ! bucketFor u \<in> set k" using bucketFor_lt [of u] wf by (simp add: keeper_wf_def)
    ultimately show "c \<in> set (keeper_all k)" by (force simp: keeper_all_def)
  qed
  then show ?thesis by blast
qed

interpretation ix: conn_index keeper_wf NewKeeper keeper_get keeper_add keeper_remove Devices keeper_all
proof
  show "keeper_wf NewKeeper" by (simp add: keeper_wf_def NewKeeper_def bucket_wf_def)
  show "keeper_get NewKeeper u d = None" for u d
    using bucketFor_lt [of u] by (simp add: keeper_get_def NewKeeper_def)
  show "keeper_remove c 0 d k = (False, k)" for c d k by (simp add: keeper_remove_def)
qed (fact keeper_add_wf keeper_get_add keeper_remove_wf keeper_get_remove keeper_remove_last Devices_set keeper_all_set)+

subsection \<open>Connections\<close>

record Conn =
  co_uid :: uid                  \<comment> \<open>0: not authenticated\<close>
  co_dev :: string
  co_type :: int
  co_stream :: netStream
  co_out :: "bytes list"         \<comment> \<open>what was written to the socket\<close>
  co_closed :: bool
  co_last :: int

record up_req =
  up_cmid :: int
  up_conv :: conv_id
  up_from :: uid
  up_content :: Content

record comet =
  cconns :: "nat \<Rightarrow> Conn"
  cseq :: nat                    \<comment> \<open>\<open>connSeq\<close>: the connections are 1 to \<open>cseq\<close>\<close>
  ckeeper :: Keeper
  cdraining :: bool
  ctimeouts :: int
  ccache :: "redis option"
  cpresence :: "(uid \<times> bool) list option"   \<comment> \<open>published presence events; \<open>None\<close>: no Kafka\<close>
  cups :: "up_req list"                        \<comment> \<open>\<open>SendMessage\<close> calls made\<close>
  cacks :: "(uid \<times> conv_id \<times> int) list"        \<comment> \<open>\<open>AckPush\<close> calls made\<close>

record comet_env =
  ce_fc :: frame_codec
  ce_now :: int
  ce_write :: "nat \<Rightarrow> bool"                     \<comment> \<open>the socket takes a write\<close>
  ce_redis :: rfaults
  ce_crypto :: crypto
  ce_secret :: string
  ce_dev :: bool
  ce_addr :: string
  ce_syncseq :: "uid \<Rightarrow> string + int"           \<comment> \<open>\<open>GetSyncSeq\<close> of the sequence service\<close>
  ce_send :: "up_req \<Rightarrow> string + int \<times> int"
  ce_sync :: "uid \<Rightarrow> int \<Rightarrow> (conv_id \<times> int) list \<Rightarrow> string + int \<times> ConvMessage list \<times> (conv_id \<times> int) list"

definition upd_conn :: "nat \<Rightarrow> (Conn \<Rightarrow> Conn) \<Rightarrow> comet \<Rightarrow> comet" where
  "upd_conn c f s = s\<lparr>cconns := (cconns s)(c := f (cconns s c))\<rparr>"

definition IsAuthed :: "comet \<Rightarrow> nat \<Rightarrow> bool" where
  "IsAuthed s c \<longleftrightarrow> co_uid (cconns s c) \<noteq> 0"

definition newConn :: "int \<Rightarrow> bytes list \<Rightarrow> Conn" where
  "newConn now chunks = \<lparr>co_uid = 0, co_dev = [], co_type = 0, co_stream = \<lparr>st_buf = [], st_conn = chunks\<rparr>,
     co_out = [], co_closed = False, co_last = now\<rparr>"

definition SendRaw :: "comet_env \<Rightarrow> nat \<Rightarrow> bytes \<Rightarrow> comet \<Rightarrow> bool \<times> comet" where
  "SendRaw env c b s =
     (if co_closed (cconns s c) \<or> \<not> ce_write env c then (False, s)
      else (True, upd_conn c (\<lambda>k. k\<lparr>co_out := co_out k @ [b], co_last := ce_now env\<rparr>) s))"

definition Send :: "comet_env \<Rightarrow> nat \<Rightarrow> Frame \<Rightarrow> comet \<Rightarrow> bool \<times> comet" where
  "Send env c f s =
     (if co_closed (cconns s c) then (False, s)
      else case EncodeFrame (ce_fc env) f of Inl _ \<Rightarrow> (False, s) | Inr b \<Rightarrow> SendRaw env c b s)"

definition PublishPresence :: "uid \<Rightarrow> bool \<Rightarrow> comet \<Rightarrow> comet" where
  "PublishPresence u online s = s\<lparr>cpresence := map_option (\<lambda>l. l @ [(u, online)]) (cpresence s)\<rparr>"

definition onOffline :: "comet_env \<Rightarrow> uid \<Rightarrow> comet \<Rightarrow> comet" where
  \<comment> \<open>the hook \<open>main\<close> installs, with and without Kafka\<close>
  "onOffline env u s =
     (if ccache s = None then s
      else if cpresence s = None then
        s\<lparr>ccache := RouteRem (ce_redis env) (ce_now env) (ccache s) u (ce_addr env)\<rparr>
      else (case RouteRemLast (ce_redis env) (ce_now env) (ccache s) u (ce_addr env) of
          (gone, ca) \<Rightarrow> (if gone then PublishPresence u False (s\<lparr>ccache := ca\<rparr>) else s\<lparr>ccache := ca\<rparr>)))"

definition onConnClosed :: "comet_env \<Rightarrow> nat \<Rightarrow> comet \<Rightarrow> comet" where
  "onConnClosed env c s =
     (let u = co_uid (cconns s c); (last, k) = keeper_remove c u (co_dev (cconns s c)) (ckeeper s);
          s1 = s\<lparr>ckeeper := k\<rparr>
      in if last then onOffline env u s1 else s1)"

definition Close :: "comet_env \<Rightarrow> nat \<Rightarrow> comet \<Rightarrow> bool \<times> comet" where
  "Close env c s =
     (if co_closed (cconns s c) then (False, s)
      else (True, onConnClosed env c (upd_conn c (\<lambda>k. k\<lparr>co_closed := True\<rparr>) s)))"

subsection \<open>The frame handlers\<close>

definition ErrCodeInvalidToken :: int where "ErrCodeInvalidToken = 1"
definition ErrCodeBadRequest :: int where "ErrCodeBadRequest = 2"
definition ErrCodeInternal :: int where "ErrCodeInternal = 3"

definition err_frame :: "int \<Rightarrow> int \<Rightarrow> int \<Rightarrow> string \<Rightarrow> Frame" where
  "err_frame fid cd code msg = \<lparr>frame_id = fid, fcmd = cd, ferror = Some (YErr code msg), payload = NoPayload\<rparr>"

definition ok_frame :: "int \<Rightarrow> int \<Rightarrow> Payload \<Rightarrow> Frame" where
  "ok_frame fid cd p = \<lparr>frame_id = fid, fcmd = cd, ferror = None, payload = p\<rparr>"

definition GetConnect :: "Frame \<Rightarrow> string \<times> DeviceInfo" where
  \<comment> \<open>the getters of a missing message give the zero values\<close>
  "GetConnect f = (case payload f of
       PConnect t (Some d) \<Rightarrow> (t, d) | PConnect t None \<Rightarrow> (t, \<lparr>dv_type = 0, dv_id = []\<rparr>)
     | _ \<Rightarrow> ([], \<lparr>dv_type = 0, dv_id = []\<rparr>))"

definition connect_begin :: "comet_env \<Rightarrow> nat \<Rightarrow> Frame \<Rightarrow> comet \<Rightarrow> (uid \<times> DeviceInfo) option \<times> comet" where
  \<comment> \<open>\<open>onConnect\<close> up to and with the old connection's end; \<open>None\<close>: the handler has returned\<close>
  "connect_begin env c f s =
     (let (token, d) = GetConnect f
      in if IsAuthed s c then
           (None, snd (Send env c (err_frame (frame_id f) CMD_CONNECT_RSP ErrCodeBadRequest ''already connected'') s))
         else if dv_id d = [] then
           (None, snd (Send env c (err_frame (frame_id f) CMD_CONNECT_RSP ErrCodeBadRequest ''device_id required'') s))
         else case JWTAuthenticate (ce_crypto env) (ce_secret env) (ce_dev env) (ce_now env) token of
             Inl _ \<Rightarrow> (None, snd (Close env c
                 (snd (Send env c (err_frame (frame_id f) CMD_CONNECT_RSP ErrCodeInvalidToken ''auth failed'') s))))
           | Inr uid \<Rightarrow>
               (Some (uid, d),
                case keeper_get (ckeeper s) uid (dv_id d) of
                  None \<Rightarrow> s
                | Some old \<Rightarrow> snd (Close env old
                    (snd (Send env old (ok_frame 0 CMD_KICK (PKick ''device_replaced'' 0)) s)))))"

definition connect_register :: "comet_env \<Rightarrow> nat \<Rightarrow> uid \<Rightarrow> DeviceInfo \<Rightarrow> comet \<Rightarrow> comet" where
  \<comment> \<open>\<open>setIdentity\<close>, \<open>keeper.Add\<close>, \<open>RouteAdd\<close>, \<open>PublishPresence\<close>\<close>
  "connect_register env c uid d s =
     (let s1 = upd_conn c (\<lambda>k. k\<lparr>co_uid := uid, co_type := dv_type d, co_dev := dv_id d\<rparr>) s;
          s2 = s1\<lparr>ckeeper := keeper_add c uid (dv_id d) (ckeeper s1),
                  ccache := RouteAdd (ce_redis env) (ce_now env) (ccache s1) uid (ce_addr env)\<rparr>
      in PublishPresence uid True s2)"

definition user_sync_seq :: "comet_env \<Rightarrow> uid \<Rightarrow> comet \<Rightarrow> int" where
  "user_sync_seq env uid s =
     (case SyncSeqGet (ce_redis env) (ce_now env) (ccache s) uid of
        Some v \<Rightarrow> v
      | None \<Rightarrow> (case ce_syncseq env uid of Inr v \<Rightarrow> v | Inl _ \<Rightarrow> 0))"

definition connect_end :: "comet_env \<Rightarrow> nat \<Rightarrow> int \<Rightarrow> uid \<Rightarrow> DeviceInfo \<Rightarrow> comet \<Rightarrow> comet" where
  "connect_end env c fid uid d s =
     (let s1 = connect_register env c uid d s
      in snd (Send env c (ok_frame fid CMD_CONNECT_RSP (PConnectRsp (ce_now env) (user_sync_seq env uid s1))) s1))"

definition onConnect :: "comet_env \<Rightarrow> nat \<Rightarrow> Frame \<Rightarrow> comet \<Rightarrow> comet" where
  "onConnect env c f s =
     (case connect_begin env c f s of
        (None, s1) \<Rightarrow> s1 | (Some (uid, d), s1) \<Rightarrow> connect_end env c (frame_id f) uid d s1)"

definition onMessageUp :: "comet_env \<Rightarrow> nat \<Rightarrow> Frame \<Rightarrow> comet \<Rightarrow> comet" where
  "onMessageUp env c f s =
     (let refuse = (\<lambda>msg. snd (Send env c (err_frame (frame_id f) CMD_MESSAGE_UP_RSP ErrCodeBadRequest msg) s))
      in if \<not> IsAuthed s c then refuse ''not connected''
         else case payload f of
             PMessageUp cmid conv (Some body) \<Rightarrow>
               (if cmid = 0 \<or> conv = 0 then refuse ''client_msg_id, conv_id, content required''
                else
                  (let req = \<lparr>up_cmid = cmid, up_conv = conv, up_from = co_uid (cconns s c), up_content = body\<rparr>;
                       s1 = s\<lparr>cups := cups s @ [req]\<rparr>
                   in case ce_send env req of
                        Inl _ \<Rightarrow> snd (Send env c (err_frame (frame_id f) CMD_MESSAGE_UP_RSP ErrCodeInternal ''send failed'') s1)
                      | Inr (msg_id, q) \<Rightarrow>
                          snd (Send env c (ok_frame (frame_id f) CMD_MESSAGE_UP_RSP
                            (PMessageUpRsp cmid msg_id q (ce_now env))) s1)))
           | _ \<Rightarrow> refuse ''client_msg_id, conv_id, content required'')"

definition GetSync :: "Frame \<Rightarrow> int \<times> (conv_id \<times> int) list" where
  "GetSync f = (case payload f of PSync v ws \<Rightarrow> (v, ws) | _ \<Rightarrow> (0, []))"

definition onSync :: "comet_env \<Rightarrow> nat \<Rightarrow> Frame \<Rightarrow> comet \<Rightarrow> comet" where
  "onSync env c f s =
     (if \<not> IsAuthed s c then
        snd (Send env c (err_frame (frame_id f) CMD_SYNC_RSP ErrCodeBadRequest ''not connected'') s)
      else case ce_sync env (co_uid (cconns s c)) (fst (GetSync f)) (snd (GetSync f)) of
          Inl _ \<Rightarrow> snd (Send env c (err_frame (frame_id f) CMD_SYNC_RSP ErrCodeInternal ''sync failed'') s)
        | Inr (v, ms, over) \<Rightarrow> snd (Send env c (ok_frame (frame_id f) CMD_SYNC_RSP (PSyncRsp v ms over)) s))"

definition ACK_FOR_PUSH :: int where "ACK_FOR_PUSH = 2"

definition onAck :: "nat \<Rightarrow> Frame \<Rightarrow> comet \<Rightarrow> comet" where
  "onAck c f s =
     (case payload f of
        PAck conv q cmid target \<Rightarrow>
          (if IsAuthed s c \<and> target = ACK_FOR_PUSH \<and> conv \<noteq> 0
           then s\<lparr>cacks := cacks s @ [(co_uid (cconns s c), conv, q)]\<rparr> else s)
      | _ \<Rightarrow> s)"

definition onTyping :: "comet_env \<Rightarrow> nat \<Rightarrow> Frame \<Rightarrow> comet \<Rightarrow> comet" where
  "onTyping env c f s =
     (let conv = (case payload f of PTyping v \<Rightarrow> v | _ \<Rightarrow> 0); from = co_uid (cconns s c)
      in if \<not> IsAuthed s c \<or> conv = 0 then s
         else case ConvMembersCacheOnly (ce_redis env) (ce_now env) (ccache s) conv of
             None \<Rightarrow> s
           | Some members \<Rightarrow> s\<lparr>ccache := fold (\<lambda>u ca. PublishEphemeral (ce_redis env) ca
                 \<lparr>em_t = ''typing'', em_conv = conv, em_from = from, em_to = u, em_seq = 0\<rparr>)
               (filter (\<lambda>u. u \<noteq> from) members) (ccache s)\<rparr>)"

definition HandleFrame :: "comet_env \<Rightarrow> nat \<Rightarrow> Frame \<Rightarrow> comet \<Rightarrow> comet" where
  "HandleFrame env c f s =
     (if fcmd f = CMD_CONNECT then onConnect env c f s
      else if fcmd f = CMD_HEARTBEAT then
        (let s1 = (if IsAuthed s c then s\<lparr>ccache := RouteTouch (ce_redis env) (ce_now env) (ccache s) (co_uid (cconns s c))\<rparr>
                   else s)
         in snd (Send env c (ok_frame (frame_id f) CMD_HEARTBEAT
              (PHeartbeat (case payload f of PHeartbeat v \<Rightarrow> v | _ \<Rightarrow> 0))) s1))
      else if fcmd f = CMD_MESSAGE_UP then onMessageUp env c f s
      else if fcmd f = CMD_ACK then onAck c f s
      else if fcmd f = CMD_TYPING then onTyping env c f s
      else if fcmd f = CMD_SYNC then onSync env c f s
      else if fcmd f \<in> {CMD_KICK, CMD_DISCONNECT, CMD_MESSAGE_PUSH, CMD_SYNC_RSP} then snd (Close env c s)
      else snd (Send env c (err_frame (frame_id f) (fcmd f) ErrCodeBadRequest ''unknown command'') s))"

subsection \<open>The server\<close>

definition IdleTimeout :: int where "IdleTimeout = 3 * 30000"

definition NewServer :: "redis option \<Rightarrow> bool \<Rightarrow> comet" where
  "NewServer ca kafka = \<lparr>cconns = (\<lambda>_. newConn 0 []), cseq = 0, ckeeper = NewKeeper, cdraining = False,
     ctimeouts = 0, ccache = ca, cpresence = (if kafka then Some [] else None), cups = [], cacks = []\<rparr>"

definition onStream :: "comet_env \<Rightarrow> bytes list \<Rightarrow> comet \<Rightarrow> comet" where
  "onStream env chunks s =
     (if cdraining s then s
      else s\<lparr>cseq := cseq s + 1, cconns := (cconns s)(cseq s + 1 := newConn (ce_now env) chunks)\<rparr>)"

definition pump_read :: "comet_env \<Rightarrow> nat \<Rightarrow> comet \<Rightarrow> Frame option \<times> comet" where
  \<comment> \<open>the head of a round of \<open>pump\<close>; \<open>None\<close>: the loop ends, and its deferred \<open>Close\<close> has run\<close>
  "pump_read env c s =
     (case readFrame (ce_fc env) (co_stream (cconns s c)) of
        (Inl _, st) \<Rightarrow> (None, snd (Close env c (upd_conn c (\<lambda>k. k\<lparr>co_stream := st\<rparr>) s)))
      | (Inr f, st) \<Rightarrow> (Some f, upd_conn c (\<lambda>k. k\<lparr>co_stream := st, co_last := ce_now env\<rparr>) s))"

definition pump_round :: "comet_env \<Rightarrow> nat \<Rightarrow> comet \<Rightarrow> bool \<times> comet" where
  \<comment> \<open>a round of \<open>pump\<close>; \<open>False\<close>: the loop has ended\<close>
  "pump_round env c s =
     (case pump_read env c s of (None, s1) \<Rightarrow> (False, s1) | (Some f, s1) \<Rightarrow> (True, HandleFrame env c f s1))"

fun pump :: "comet_env \<Rightarrow> nat \<Rightarrow> nat \<Rightarrow> comet \<Rightarrow> comet" where
  \<comment> \<open>at most so many rounds; the bytes a peer sent hold fewer frames than bytes\<close>
  "pump env c 0 s = s"
| "pump env c (Suc n) s = (case pump_round env c s of (False, s1) \<Rightarrow> s1 | (True, s1) \<Rightarrow> pump env c n s1)"

definition Sweep :: "int \<Rightarrow> int \<Rightarrow> comet \<Rightarrow> nat list" where
  "Sweep now idleMs s = filter (\<lambda>c. idleMs < now - co_last (cconns s c)) (keeper_all (ckeeper s))"

definition sweep_conn :: "comet_env \<Rightarrow> nat \<Rightarrow> comet \<Rightarrow> comet" where
  "sweep_conn env c s = (case Close env c s of (True, s1) \<Rightarrow> s1\<lparr>ctimeouts := ctimeouts s1 + 1\<rparr> | (False, s1) \<Rightarrow> s1)"

definition sweep :: "comet_env \<Rightarrow> comet \<Rightarrow> comet" where
  \<comment> \<open>a tick of \<open>sweepLoop\<close>\<close>
  "sweep env s = fold (sweep_conn env) (Sweep (ce_now env) IdleTimeout s) s"

definition drain_begin :: "comet_env \<Rightarrow> comet \<Rightarrow> nat list \<times> comet" where
  \<comment> \<open>\<open>Drain\<close> up to the wait: the connections it took note of\<close>
  "drain_begin env s =
     (let s1 = s\<lparr>cdraining := True\<rparr>; conns = keeper_all (ckeeper s1)
      in (conns, fold (\<lambda>c. snd \<circ> Send env c (ok_frame 0 CMD_DISCONNECT (PDisconnect ''server_maintenance'' 3000))) conns s1))"

definition drain_end :: "comet_env \<Rightarrow> nat list \<Rightarrow> comet \<Rightarrow> comet" where
  "drain_end env conns s = fold (\<lambda>c. snd \<circ> Close env c) conns s"

subsection \<open>Calls from the other services\<close>

definition target_devices :: "uid \<Rightarrow> string \<Rightarrow> comet \<Rightarrow> nat list" where
  "target_devices u dev s = filter (\<lambda>c. dev = [] \<or> co_dev (cconns s c) = dev) (Devices (ckeeper s) u)"

fun send_all :: "comet_env \<Rightarrow> bytes \<Rightarrow> nat list \<Rightarrow> comet \<Rightarrow> bool \<times> comet" where
  "send_all env b [] s = (False, s)"
| "send_all env b (c # cs) s =
     (let (d, s1) = SendRaw env c b s; (ds, s2) = send_all env b cs s1 in (d \<or> ds, s2))"

definition PushMessage :: "comet_env \<Rightarrow> uid \<Rightarrow> string \<Rightarrow> conv_id \<Rightarrow> int \<Rightarrow> uid \<Rightarrow> int \<Rightarrow> comet \<Rightarrow> bool \<times> comet" where
  "PushMessage env u dev conv maxSeq from sync s =
     (let targets = target_devices u dev s
      in if targets = [] then (False, s)
         else case EncodeFrame (ce_fc env) (ok_frame 0 CMD_MESSAGE_PUSH (PMessagePush conv maxSeq from sync)) of
             Inl _ \<Rightarrow> (False, s)
           | Inr raw \<Rightarrow> send_all env raw targets s)"

fun kick_all :: "comet_env \<Rightarrow> Frame \<Rightarrow> string \<Rightarrow> nat list \<Rightarrow> comet \<Rightarrow> comet" where
  "kick_all env f dev [] s = s"
| "kick_all env f dev (c # cs) s =
     kick_all env f dev cs
       (if dev \<noteq> [] \<and> co_dev (cconns s c) \<noteq> dev then s else snd (Close env c (snd (Send env c f s))))"

definition Kick :: "comet_env \<Rightarrow> uid \<Rightarrow> string \<Rightarrow> string \<Rightarrow> int \<Rightarrow> comet \<Rightarrow> comet" where
  "Kick env u dev reason sync s =
     kick_all env (ok_frame 0 CMD_KICK (PKick reason sync)) dev (Devices (ckeeper s) u) s"

definition Stats :: "comet \<Rightarrow> int \<times> int" where
  "Stats s = (int (keeper_count (ckeeper s)), ctimeouts s)"

definition send_event :: "comet_env \<Rightarrow> EventFrame \<Rightarrow> uid \<Rightarrow> comet \<Rightarrow> comet" where
  "send_event env ev u s =
     fold (\<lambda>c. snd \<circ> Send env c (ok_frame 0 CMD_EVENT (PEvent ev))) (Devices (ckeeper s) u) s"

definition consume_relation_event :: "comet_env \<Rightarrow> EventFrame \<Rightarrow> uid list \<Rightarrow> comet \<Rightarrow> comet" where
  \<comment> \<open>\<open>ConsumeRelationEvents\<close>: an event without targets is for the relation service\<close>
  "consume_relation_event env ev targets s = fold (send_event env ev) targets s"

definition consume_ephemeral :: "comet_env \<Rightarrow> EphemeralMsg \<Rightarrow> comet \<Rightarrow> comet" where
  \<comment> \<open>a message of \<open>SubscribeEphemeralLoop\<close>\<close>
  "consume_ephemeral env m s =
     (if em_to m = 0 then s
      else send_event env (if em_t m = ''read''
          then \<lparr>ev_type = ''READ'', ev_uid = em_from m, ev_conv = em_conv m, ev_online = False, ev_seq = em_seq m\<rparr>
          else \<lparr>ev_type = ''TYPING'', ev_uid = em_from m, ev_conv = em_conv m, ev_online = False, ev_seq = 0\<rparr>)
        (em_to m) s)"

end
