(* ===== verification/CometSafety.thy ===== *)
theory CometSafety
  imports Comet
begin

text \<open>
  What the connection server guarantees: the index points at connections of the identity it says,
  pushes reach the user they are for and nobody else, a frame acts in the name of its connection;
  and what it does not: a closed connection can stay registered, and two handshakes of one
  device that overlap leave a connection nobody can reach.
\<close>

subsection \<open>What a write leaves alone\<close>

definition same_ids :: "comet \<Rightarrow> comet \<Rightarrow> bool" where
  \<comment> \<open>only output, activity, cache, and logs differ\<close>
  "same_ids s s' \<longleftrightarrow> ckeeper s' = ckeeper s \<and> cseq s' = cseq s \<and>
     (\<forall>x. co_uid (cconns s' x) = co_uid (cconns s x) \<and> co_dev (cconns s' x) = co_dev (cconns s x) \<and>
          co_closed (cconns s' x) = co_closed (cconns s x))"

lemma same_ids_refl [simp]: "same_ids s s"
  by (simp add: same_ids_def)

lemma same_ids_trans: "same_ids s s' \<Longrightarrow> same_ids s' s'' \<Longrightarrow> same_ids s s''"
  by (simp add: same_ids_def)

lemma SendRaw_same: "same_ids s (snd (SendRaw env c b s))"
  by (simp add: SendRaw_def same_ids_def upd_conn_def)

lemma Send_same: "same_ids s (snd (Send env c f s))"
  by (simp add: Send_def SendRaw_same split: sum.split)

lemma Send_logs [simp]: "cups (snd (Send env c f s)) = cups s" "cacks (snd (Send env c f s)) = cacks s"
  by (simp_all add: Send_def SendRaw_def upd_conn_def split: sum.split)

lemma same_ids_fields [simp]:
  "same_ids s (s\<lparr>ccache := a\<rparr>)" "same_ids s (s\<lparr>cups := b\<rparr>)" "same_ids s (s\<lparr>cacks := d\<rparr>)"
  "same_ids s (s\<lparr>ctimeouts := t\<rparr>)" "same_ids s (s\<lparr>cdraining := g\<rparr>)" "same_ids s (PublishPresence u on s)"
  "same_ids s (upd_conn c (\<lambda>k. k\<lparr>co_stream := st\<rparr>) s)"
  "same_ids s (upd_conn c (\<lambda>k. k\<lparr>co_stream := st, co_last := now\<rparr>) s)"
  by (simp_all add: same_ids_def PublishPresence_def upd_conn_def)

lemma onOffline_same: "same_ids s (onOffline env u s)"
proof (cases "RouteRemLast (ce_redis env) (ce_now env) (ccache s) u (ce_addr env)")
  case (Pair g ca)
  have "same_ids s (PublishPresence u False (s\<lparr>ccache := ca\<rparr>))"
    using same_ids_trans [OF same_ids_fields(1) same_ids_fields(6)] .
  with Pair show ?thesis by (simp add: onOffline_def)
qed

subsection \<open>The index invariant\<close>

definition keeper_inv :: "comet \<Rightarrow> bool" where
  "keeper_inv s \<longleftrightarrow> keeper_wf (ckeeper s) \<and>
     (\<forall>u d c. keeper_get (ckeeper s) u d = Some c \<longrightarrow>
        0 < u \<and> d \<noteq> [] \<and> co_uid (cconns s c) = u \<and> co_dev (cconns s c) = d \<and> c \<le> cseq s)"

definition all_open :: "comet \<Rightarrow> bool" where
  "all_open s \<longleftrightarrow> (\<forall>u d c. keeper_get (ckeeper s) u d = Some c \<longrightarrow> \<not> co_closed (cconns s c))"

lemma keeper_invD: "keeper_inv s \<Longrightarrow> keeper_get (ckeeper s) u d = Some c \<Longrightarrow>
    0 < u \<and> d \<noteq> [] \<and> co_uid (cconns s c) = u \<and> co_dev (cconns s c) = d \<and> c \<le> cseq s"
  by (simp add: keeper_inv_def)

lemma keeper_inv_wf: "keeper_inv s \<Longrightarrow> keeper_wf (ckeeper s)"
  by (simp add: keeper_inv_def)

lemma keeper_inv_same: "same_ids s s' \<Longrightarrow> keeper_inv s \<Longrightarrow> keeper_inv s'"
  by (simp add: keeper_inv_def same_ids_def)

lemma all_open_same: "same_ids s s' \<Longrightarrow> all_open s \<Longrightarrow> all_open s'"
  by (simp add: all_open_def same_ids_def)

lemma Close_spec:
  assumes "keeper_inv s"
  shows "keeper_inv (snd (Close env c s))"
    and "all_open s \<Longrightarrow> all_open (snd (Close env c s))"
    and "cseq (snd (Close env c s)) = cseq s"
    and "co_uid (cconns (snd (Close env c s)) x) = co_uid (cconns s x)"
    and "co_dev (cconns (snd (Close env c s)) x) = co_dev (cconns s x)"
    and "co_closed (cconns (snd (Close env c s)) x) \<longleftrightarrow> co_closed (cconns s x) \<or> x = c"
    and "keeper_get (ckeeper (snd (Close env c s))) u d =
      (if keeper_get (ckeeper s) u d = Some c \<and> \<not> co_closed (cconns s c) then None else keeper_get (ckeeper s) u d)"
proof -
  let ?s' = "snd (Close env c s)"
  have "cseq ?s' = cseq s \<and> (\<forall>x. co_uid (cconns ?s' x) = co_uid (cconns s x) \<and> co_dev (cconns ?s' x) = co_dev (cconns s x) \<and>
      (co_closed (cconns ?s' x) \<longleftrightarrow> co_closed (cconns s x) \<or> x = c)) \<and> keeper_wf (ckeeper ?s') \<and>
    (\<forall>u d. keeper_get (ckeeper ?s') u d =
      (if keeper_get (ckeeper s) u d = Some c \<and> \<not> co_closed (cconns s c) then None else keeper_get (ckeeper s) u d))"
  proof (cases "co_closed (cconns s c)")
    case True
    with keeper_inv_wf [OF assms] show ?thesis by (auto simp: Close_def)
  next
    case False
    let ?u = "co_uid (cconns s c)" let ?d = "co_dev (cconns s c)"
    let ?k = "snd (keeper_remove c ?u ?d (ckeeper s))"
    let ?s1 = "(upd_conn c (\<lambda>k. k\<lparr>co_closed := True\<rparr>) s)\<lparr>ckeeper := ?k\<rparr>"
    have wf: "keeper_wf ?k" by (rule ix.wf_remove [OF keeper_inv_wf [OF assms]])
    have get: "keeper_get ?k u d = (if keeper_get (ckeeper s) u d = Some c then None else keeper_get (ckeeper s) u d)" for u d
    proof (cases "?u = 0")
      case True
      with keeper_invD [OF assms, of u d c] show ?thesis by (auto simp: ix.remove_unauthed)
    next
      case nz: False
      show ?thesis
      proof (cases "keeper_get (ckeeper s) u d = Some c")
        case True
        with keeper_invD [OF assms True] nz show ?thesis
          by (simp add: ix.get_remove [OF keeper_inv_wf [OF assms]])
      next
        case False
        then show ?thesis by (auto simp: ix.get_remove [OF keeper_inv_wf [OF assms] nz])
      qed
    qed
    have "?s' = (if fst (keeper_remove c ?u ?d (ckeeper s)) then onOffline env ?u ?s1 else ?s1)"
      using False by (simp add: Close_def onConnClosed_def Let_def upd_conn_def case_prod_beta)
    then have same: "same_ids ?s1 ?s'" using onOffline_same by simp
    have "cseq ?s1 = cseq s" "ckeeper ?s1 = ?k" "\<And>x. co_uid (cconns ?s1 x) = co_uid (cconns s x)"
      "\<And>x. co_dev (cconns ?s1 x) = co_dev (cconns s x)"
      "\<And>x. co_closed (cconns ?s1 x) \<longleftrightarrow> co_closed (cconns s x) \<or> x = c"
      by (simp_all add: upd_conn_def)
    with same have "cseq ?s' = cseq s" "ckeeper ?s' = ?k" "\<And>x. co_uid (cconns ?s' x) = co_uid (cconns s x)"
      "\<And>x. co_dev (cconns ?s' x) = co_dev (cconns s x)"
      "\<And>x. co_closed (cconns ?s' x) \<longleftrightarrow> co_closed (cconns s x) \<or> x = c"
      unfolding same_ids_def by metis+
    then show ?thesis using False wf get by simp
  qed
  then have seq: "cseq ?s' = cseq s" and ids: "\<forall>x. co_uid (cconns ?s' x) = co_uid (cconns s x) \<and>
      co_dev (cconns ?s' x) = co_dev (cconns s x) \<and> (co_closed (cconns ?s' x) \<longleftrightarrow> co_closed (cconns s x) \<or> x = c)"
    and wf: "keeper_wf (ckeeper ?s')" and gets: "\<forall>u d. keeper_get (ckeeper ?s') u d =
        (if keeper_get (ckeeper s) u d = Some c \<and> \<not> co_closed (cconns s c) then None else keeper_get (ckeeper s) u d)"
    by - (elim conjE, assumption)+
  from ids have uid: "co_uid (cconns ?s' x) = co_uid (cconns s x)"
    and dev: "co_dev (cconns ?s' x) = co_dev (cconns s x)"
    and cl: "co_closed (cconns ?s' x) \<longleftrightarrow> co_closed (cconns s x) \<or> x = c" for x
    by simp_all
  have get: "keeper_get (ckeeper ?s') u d =
        (if keeper_get (ckeeper s) u d = Some c \<and> \<not> co_closed (cconns s c) then None else keeper_get (ckeeper s) u d)" for u d
    using gets by (elim allE)
  have mono: "keeper_get (ckeeper s) u d = Some x" if "keeper_get (ckeeper ?s') u d = Some x" for u d x
    using that unfolding get by (simp split: if_splits)
  show "keeper_inv ?s'"
    unfolding keeper_inv_def seq uid dev using wf mono keeper_invD [OF assms] by blast
  show "all_open ?s'" if "all_open s"
    unfolding all_open_def
  proof (intro allI impI)
    fix u d x
    assume x: "keeper_get (ckeeper ?s') u d = Some x"
    with mono that have "\<not> co_closed (cconns s x)" unfolding all_open_def by blast
    moreover have "x \<noteq> c" using x calculation unfolding get by (auto split: if_splits)
    ultimately show "\<not> co_closed (cconns ?s' x)" by (simp add: cl)
  qed
  show "cseq ?s' = cseq s" by (rule seq)
  show "co_uid (cconns ?s' x) = co_uid (cconns s x)" by (rule uid)
  show "co_dev (cconns ?s' x) = co_dev (cconns s x)" by (rule dev)
  show "co_closed (cconns ?s' x) \<longleftrightarrow> co_closed (cconns s x) \<or> x = c" by (rule cl)
  show "keeper_get (ckeeper ?s') u d =
        (if keeper_get (ckeeper s) u d = Some c \<and> \<not> co_closed (cconns s c) then None else keeper_get (ckeeper s) u d)"
    by (rule get)
qed

lemma JWTAuthenticate_positive: "JWTAuthenticate cr secret dev now t = Inr u \<Longrightarrow> 0 < u"
  by (auto simp: JWTAuthenticate_def DevAuth_def split: if_splits option.splits list.splits)

definition same_idents :: "comet \<Rightarrow> comet \<Rightarrow> bool" where
  \<comment> \<open>every connection keeps its identity, and none is created\<close>
  "same_idents s s' \<longleftrightarrow> cseq s' = cseq s \<and> (\<forall>x. co_uid (cconns s' x) = co_uid (cconns s x) \<and>
     co_dev (cconns s' x) = co_dev (cconns s x))"

lemma same_idents_trans: "same_idents s s' \<Longrightarrow> same_idents s' s'' \<Longrightarrow> same_idents s s''"
  by (simp add: same_idents_def)

lemma same_ids_idents: "same_ids s s' \<Longrightarrow> same_idents s s'"
  by (simp add: same_ids_def same_idents_def)

definition good :: "comet \<Rightarrow> comet \<Rightarrow> bool" where
  \<comment> \<open>a step that keeps identities and both invariants\<close>
  "good s s' \<longleftrightarrow> same_idents s s' \<and> (keeper_inv s \<longrightarrow> keeper_inv s') \<and>
     (keeper_inv s \<and> all_open s \<longrightarrow> all_open s')"

lemma good_same: "same_ids s s' \<Longrightarrow> good s s'"
  using keeper_inv_same all_open_same same_ids_idents by (simp add: good_def)

lemma good_trans: "keeper_inv s \<Longrightarrow> good s s' \<Longrightarrow> good s' s'' \<Longrightarrow> good s s''"
  using same_idents_trans by (auto simp: good_def)

lemma good_Send: "good s (snd (Send env c f s))"
  by (rule good_same [OF Send_same])

lemma good_Close: "keeper_inv s \<Longrightarrow> good s (snd (Close env c s))"
  using Close_spec [of s env c] by (simp add: good_def same_idents_def)

lemma good_inv: "good s s' \<Longrightarrow> keeper_inv s \<Longrightarrow> keeper_inv s'"
  by (simp add: good_def)

lemma good_Send_Close: "keeper_inv s \<Longrightarrow> good s (snd (Close env c (snd (Send env' c' f s))))"
  using good_trans [OF _ good_Send good_Close] good_inv [OF good_Send] by blast

lemma connect_begin_good:
  assumes "keeper_inv s" "connect_begin env c f s = (r, s')"
  shows "good s s'"
    and "r = Some (u, d) \<Longrightarrow> 0 < u \<and> dv_id d \<noteq> [] \<and> co_uid (cconns s c) = 0"
  using assms good_Send [of s env c] good_Send_Close [OF assms(1), of env] JWTAuthenticate_positive
  by (auto simp: connect_begin_def IsAuthed_def split: prod.splits if_splits sum.splits option.splits
      intro: good_same)

lemma upd_conn_other [simp]: "x \<noteq> c \<Longrightarrow> cconns (upd_conn c f s) x = cconns s x"
  and upd_conn_self [simp]: "cconns (upd_conn c f s) c = f (cconns s c)"
  and upd_conn_keeper [simp]: "ckeeper (upd_conn c f s) = ckeeper s" "cseq (upd_conn c f s) = cseq s"
  by (simp_all add: upd_conn_def)

lemma connect_end_spec:
  assumes inv: "keeper_inv s" and u: "0 < u" "dv_id d \<noteq> []" and c: "co_uid (cconns s c) = 0" "c \<le> cseq s"
    and s': "s' = connect_end env c fid u d s"
  shows "keeper_inv s'" and "all_open s \<Longrightarrow> \<not> co_closed (cconns s c) \<Longrightarrow> all_open s'"
    and "keeper_get (ckeeper s') u' d' = (if u' = u \<and> d' = dv_id d then Some c else keeper_get (ckeeper s) u' d')"
    and "co_uid (cconns s' x) = (if x = c then u else co_uid (cconns s x))"
    and "cseq s' = cseq s" and "co_closed (cconns s' x) = co_closed (cconns s x)"
    and "co_dev (cconns s' x) = (if x = c then dv_id d else co_dev (cconns s x))"
proof -
  let ?s1 = "connect_register env c u d s"
  have same: "same_ids ?s1 s'" unfolding s' connect_end_def Let_def by (rule Send_same)
  have get1: "keeper_get (ckeeper ?s1) v e = (if v = u \<and> e = dv_id d then Some c else keeper_get (ckeeper s) v e)" for v e
    by (simp add: connect_register_def PublishPresence_def Let_def ix.get_add [OF keeper_inv_wf [OF inv]])
  have wf1: "keeper_wf (ckeeper ?s1)"
    by (simp add: connect_register_def PublishPresence_def Let_def ix.wf_add [OF keeper_inv_wf [OF inv]])
  have ids: "co_uid (cconns ?s1 x) = (if x = c then u else co_uid (cconns s x))"
    "co_dev (cconns ?s1 x) = (if x = c then dv_id d else co_dev (cconns s x))"
    "co_closed (cconns ?s1 x) = co_closed (cconns s x)" "cseq ?s1 = cseq s" for x
    by (auto simp: connect_register_def PublishPresence_def upd_conn_def Let_def)
  have old: "x \<noteq> c" if "keeper_get (ckeeper s) v e = Some x" for v e x
    using keeper_invD [OF inv that] c by auto
  have inv1: "keeper_inv ?s1"
    unfolding keeper_inv_def get1 ids
    using wf1 keeper_invD [OF inv] old u c by (auto split: if_splits)
  show "keeper_inv s'" by (rule keeper_inv_same [OF same inv1])
  show "all_open s'" if "all_open s" "\<not> co_closed (cconns s c)"
  proof (rule all_open_same [OF same])
    show "all_open ?s1" unfolding all_open_def get1 ids using that by (auto simp: all_open_def)
  qed
  show "keeper_get (ckeeper s') u' d' = (if u' = u \<and> d' = dv_id d then Some c else keeper_get (ckeeper s) u' d')"
    "co_uid (cconns s' x) = (if x = c then u else co_uid (cconns s x))"
    "cseq s' = cseq s" "co_closed (cconns s' x) = co_closed (cconns s x)"
    "co_dev (cconns s' x) = (if x = c then dv_id d else co_dev (cconns s x))"
    using same get1 ids by (simp_all add: same_ids_def)
qed

lemma HandleFrame_good:
  assumes inv: "keeper_inv s" and c: "fcmd f \<noteq> CMD_CONNECT"
  shows "good s (HandleFrame env c f s)"
proof -
  have S: "good s' (snd (Send env c g (s'\<lparr>ccache := a\<rparr>)))" "good s' (snd (Send env c g (s'\<lparr>cups := b\<rparr>)))" for g s' a b
    using same_ids_trans [OF same_ids_fields(1) Send_same] same_ids_trans [OF same_ids_fields(2) Send_same]
    by (auto intro: good_same)
  have "good s (onMessageUp env c f s)"
    by (auto simp: onMessageUp_def Let_def good_Send S split: Payload.splits option.splits sum.splits prod.splits)
  moreover have "good s (onSync env c f s)"
    by (auto simp: onSync_def good_Send split: sum.splits prod.splits)
  moreover have "good s (onAck c f s)"
    by (auto simp: onAck_def intro: good_same split: Payload.splits)
  moreover have "good s (onTyping env c f s)"
    by (auto simp: onTyping_def Let_def intro: good_same split: option.splits)
  ultimately show ?thesis
    using c good_Close [OF inv] good_Send [of s env c] S(1) by (auto simp: HandleFrame_def Let_def)
qed

subsection \<open>Runs of the server\<close>

text \<open>
  The goroutines of the server: per connection a read loop, which may stand in the middle of
  \<open>onConnect\<close> (\<open>ph c\<close>: between the end of the old connection and \<open>setIdentity\<close>), and the others,
  which may close or write to a connection they found in the index at some time. With \<open>strict\<close> a
  loop handles no frame on a connection that was closed under it.
\<close>

type_synonym phases = "nat \<Rightarrow> (int \<times> uid \<times> DeviceInfo) option"

inductive comet_run :: "bool \<Rightarrow> comet \<Rightarrow> phases \<Rightarrow> bool" for strict where
  start: "comet_run strict (NewServer ca kafka) (\<lambda>_. None)"
| accept: "comet_run strict s ph \<Longrightarrow> comet_run strict (onStream env chunks s) ph"
| read_end: "comet_run strict s ph \<Longrightarrow> ph c = None \<Longrightarrow> pump_read env c s = (None, s1) \<Longrightarrow> comet_run strict s1 ph"
| frame: "comet_run strict s ph \<Longrightarrow> ph c = None \<Longrightarrow> pump_read env c s = (Some f, s1) \<Longrightarrow>
    fcmd f \<noteq> CMD_CONNECT \<Longrightarrow> comet_run strict (HandleFrame env c f s1) ph"
| connect: "comet_run strict s ph \<Longrightarrow> ph c = None \<Longrightarrow> 0 < c \<Longrightarrow> c \<le> cseq s \<Longrightarrow> (strict \<longrightarrow> \<not> co_closed (cconns s c)) \<Longrightarrow>
    pump_read env c s = (Some f, s1) \<Longrightarrow> fcmd f = CMD_CONNECT \<Longrightarrow> connect_begin env c f s1 = (r, s2) \<Longrightarrow>
    comet_run strict s2 (ph(c := map_option (\<lambda>(u, d). (frame_id f, u, d)) r))"
| registered: "comet_run strict s ph \<Longrightarrow> ph c = Some (fid, u, d) \<Longrightarrow>
    comet_run strict (connect_end env c fid u d s) (ph(c := None))"
| closing: "comet_run strict s ph \<Longrightarrow> IsAuthed s c \<Longrightarrow> comet_run strict (snd (Close env c s)) ph"
| sending: "comet_run strict s ph \<Longrightarrow> comet_run strict (snd (Send env c f s)) ph"
| writing: "comet_run strict s ph \<Longrightarrow> comet_run strict (snd (SendRaw env c b s)) ph"

definition phases_ok :: "bool \<Rightarrow> comet \<Rightarrow> phases \<Rightarrow> bool" where
  "phases_ok strict s ph \<longleftrightarrow> (\<forall>c fid u d. ph c = Some (fid, u, d) \<longrightarrow>
     0 < u \<and> dv_id d \<noteq> [] \<and> co_uid (cconns s c) = 0 \<and> c \<le> cseq s \<and> (strict \<longrightarrow> \<not> co_closed (cconns s c)))"

lemma phases_okD: "phases_ok strict s ph \<Longrightarrow> ph c = Some (fid, u, d) \<Longrightarrow>
    0 < u \<and> dv_id d \<noteq> [] \<and> co_uid (cconns s c) = 0 \<and> c \<le> cseq s \<and> (strict \<longrightarrow> \<not> co_closed (cconns s c))"
  unfolding phases_ok_def by blast

lemma phases_ok_step:
  assumes "phases_ok strict s ph" "same_idents s s'"
    and "\<And>c. strict \<Longrightarrow> ph c \<noteq> None \<Longrightarrow> co_closed (cconns s' c) \<Longrightarrow> co_closed (cconns s c)"
  shows "phases_ok strict s' ph"
  unfolding phases_ok_def
proof (intro allI impI)
  fix c fid u d
  assume p: "ph c = Some (fid, u, d)"
  with phases_okD [OF assms(1) p] assms(2) assms(3) [of c]
  show "0 < u \<and> dv_id d \<noteq> [] \<and> co_uid (cconns s' c) = 0 \<and> c \<le> cseq s' \<and> (strict \<longrightarrow> \<not> co_closed (cconns s' c))"
    unfolding same_idents_def by (metis option.distinct(1))
qed

definition comet_ok :: "bool \<Rightarrow> comet \<Rightarrow> phases \<Rightarrow> bool" where
  "comet_ok strict s ph \<longleftrightarrow> keeper_inv s \<and> (strict \<longrightarrow> all_open s) \<and> phases_ok strict s ph"

lemma comet_ok_good:
  assumes "comet_ok strict s ph" "good s s'"
    and "\<And>c. strict \<Longrightarrow> ph c \<noteq> None \<Longrightarrow> co_closed (cconns s' c) \<Longrightarrow> co_closed (cconns s c)"
  shows "comet_ok strict s' ph"
  using assms phases_ok_step [of strict s ph s'] unfolding comet_ok_def good_def by blast

lemma comet_ok_same: "comet_ok strict s ph \<Longrightarrow> same_ids s s' \<Longrightarrow> comet_ok strict s' ph"
  by (rule comet_ok_good [OF _ good_same]) (auto simp: same_ids_def)

lemma HandleFrame_closes_own:
  assumes "keeper_inv s" "fcmd f \<noteq> CMD_CONNECT" "x \<noteq> c"
  shows "co_closed (cconns (HandleFrame env c f s) x) = co_closed (cconns s x)"
proof -
  have S: "co_closed (cconns (snd (Send env c g s')) x) = co_closed (cconns s' x)" for g s'
    using Send_same [of s' env c g] by (simp add: same_ids_def)
  have "co_closed (cconns (snd (Close env c s)) x) = co_closed (cconns s x)"
    using Close_spec(6) [OF assms(1), of env c x] assms(3) by simp
  moreover have "co_closed (cconns (onMessageUp env c f s) x) = co_closed (cconns s x)"
    by (simp add: onMessageUp_def Let_def S split: Payload.split option.split sum.split prod.split)
  moreover have "co_closed (cconns (onSync env c f s) x) = co_closed (cconns s x)"
    by (simp add: onSync_def S split: sum.split prod.split)
  moreover have "co_closed (cconns (onAck c f s) x) = co_closed (cconns s x)"
    by (simp add: onAck_def split: Payload.split)
  moreover have "co_closed (cconns (onTyping env c f s) x) = co_closed (cconns s x)"
    by (simp add: onTyping_def Let_def split: option.split)
  ultimately show ?thesis using assms(2) by (simp add: HandleFrame_def Let_def S)
qed

lemma connect_begin_closes:
  assumes "keeper_inv s" "connect_begin env c f s = (r, s')" "x \<noteq> c" "co_closed (cconns s' x)"
  shows "co_closed (cconns s x) \<or> co_uid (cconns s x) \<noteq> 0"
proof -
  have S: "co_closed (cconns (snd (Send e y g s')) x) = co_closed (cconns s' x)" for e y g s'
    using Send_same [of s' e y g] by (simp add: same_ids_def)
  have C: "co_closed (cconns (snd (Close env y (snd (Send env z g s)))) x) \<longleftrightarrow> co_closed (cconns s x) \<or> x = y" for y z g
    using Close_spec(6) [OF keeper_inv_same [OF Send_same assms(1)]] by (simp add: S)
  have K: "co_uid (cconns s y) \<noteq> 0" if "keeper_get (ckeeper s) v e = Some y" for v e y
    using keeper_invD [OF assms(1) that] by auto
  show ?thesis
    using assms(2-4)
    by (auto simp: connect_begin_def S C dest: K split: prod.splits if_splits sum.splits option.splits)
qed

lemma connect_begin_open:
  assumes "keeper_inv s" "connect_begin env c f s = (Some (u, d), s')" "co_uid (cconns s c) = 0"
  shows "co_closed (cconns s' c) = co_closed (cconns s c)"
proof -
  have C: "co_closed (cconns (snd (Close env y (snd (Send env z g s)))) c) \<longleftrightarrow> co_closed (cconns s c) \<or> c = y" for y z g
    using Close_spec(6) [OF keeper_inv_same [OF Send_same assms(1)]] Send_same [of s env z g] by (simp add: same_ids_def)
  have "keeper_get (ckeeper s) v e \<noteq> Some c" for v e
    using keeper_invD [OF assms(1), of v e c] assms(3) by auto
  then show ?thesis
    using assms(2) by (auto simp: connect_begin_def C split: prod.splits if_splits sum.splits option.splits)
qed

lemma pump_read_same:
  "pump_read env c s = (Some f, s') \<Longrightarrow> same_ids s s'"
  by (auto simp: pump_read_def split: prod.splits sum.splits)

lemma comet_run_ok: "comet_run strict s ph \<Longrightarrow> comet_ok strict s ph"
proof (induction rule: comet_run.induct)
  case (start ca kafka)
  show ?case by (simp add: comet_ok_def keeper_inv_def all_open_def phases_ok_def NewServer_def ix.wf_new ix.get_new)
next
  case (accept s ph env chunks)
  show ?case
  proof (cases "cdraining s")
    case False
    let ?s' = "onStream env chunks s"
    have eq: "ckeeper ?s' = ckeeper s" "cseq ?s' = Suc (cseq s)" "\<And>x. x \<le> cseq s \<Longrightarrow> cconns ?s' x = cconns s x"
      using False by (simp_all add: onStream_def)
    from accept.IH have inv: "keeper_inv s" "strict \<Longrightarrow> all_open s" "phases_ok strict s ph" by (auto simp: comet_ok_def)
    note K = keeper_invD [OF inv(1)]
    have "keeper_inv ?s'" unfolding keeper_inv_def eq(1,2) using keeper_inv_wf [OF inv(1)] K eq(3) by (metis le_SucI)
    moreover have "all_open ?s'" if strict
      using inv(2) [OF that] K eq(3) unfolding all_open_def eq(1) by metis
    moreover have "phases_ok strict ?s' ph" using inv(3) eq(2,3) unfolding phases_ok_def by (metis le_SucI)
    ultimately show ?thesis by (simp add: comet_ok_def)
  qed (use accept.IH in \<open>simp add: onStream_def\<close>)
next
  case (read_end s ph c env s1)
  let ?f = "\<lambda>st. upd_conn c (\<lambda>k. k\<lparr>co_stream := st\<rparr>) s"
  from read_end obtain st where s1: "s1 = snd (Close env c (?f st))"
    by (auto simp: pump_read_def split: prod.splits sum.splits)
  have ok: "comet_ok strict (?f st) ph" by (rule comet_ok_same [OF read_end.IH]) simp
  then have inv: "keeper_inv (?f st)" by (simp add: comet_ok_def)
  show ?case unfolding s1
    by (rule comet_ok_good [OF ok good_Close [OF inv]]) (use read_end Close_spec(6) [OF inv] in auto)
next
  case (frame s ph c env f s1)
  have ok: "comet_ok strict s1 ph" by (rule comet_ok_same [OF frame.IH pump_read_same [OF frame(3)]])
  then have inv: "keeper_inv s1" by (simp add: comet_ok_def)
  show ?case
    by (rule comet_ok_good [OF ok HandleFrame_good [OF inv frame(4)]])
      (use frame HandleFrame_closes_own [OF inv frame(4), of _ c env] in metis)
next
  case (connect s ph c env f s1 r s2)
  have same: "same_ids s s1" by (rule pump_read_same [OF connect(6)])
  have ok: "comet_ok strict s1 ph" by (rule comet_ok_same [OF connect.IH same])
  then have inv: "keeper_inv s1" and ph1: "phases_ok strict s1 ph" by (auto simp: comet_ok_def)
  note G = connect_begin_good(1) [OF inv connect(8)]
  have ok2: "comet_ok strict s2 ph"
  proof (rule comet_ok_good [OF ok G])
    fix x
    assume x: "ph x \<noteq> None" "co_closed (cconns s2 x)"
    then have "x \<noteq> c" using connect(2) by auto
    with connect_begin_closes [OF inv connect(8) _ x(2)] x(1) phases_okD [OF ph1, of x]
    show "co_closed (cconns s1 x)" by auto
  qed
  show ?case
  proof (cases r)
    case None
    with ok2 connect(2) show ?thesis by (simp add: fun_upd_idem)
  next
    case (Some ud)
    obtain u d where r: "r = Some (u, d)" using Some by (cases ud) auto
    have own: "0 < u" "dv_id d \<noteq> []" "co_uid (cconns s1 c) = 0"
      using connect_begin_good(2) [OF inv connect(8) r] by auto
    have "co_uid (cconns s2 c) = 0" "cseq s2 = cseq s1" using G own(3) by (auto simp: good_def same_idents_def)
    moreover have "co_closed (cconns s2 c) = co_closed (cconns s1 c)"
      using connect_begin_open [OF inv connect(8) [unfolded r] own(3)] .
    ultimately show ?thesis
      using ok2 own connect(4,5) same unfolding comet_ok_def phases_ok_def r same_ids_def by auto
  qed
next
  case (registered s ph c fid u d env)
  from registered.IH have inv: "keeper_inv s" "strict \<Longrightarrow> all_open s" and p: "phases_ok strict s ph" by (auto simp: comet_ok_def)
  have own: "0 < u" "dv_id d \<noteq> []" "co_uid (cconns s c) = 0" "c \<le> cseq s" "strict \<Longrightarrow> \<not> co_closed (cconns s c)"
    using phases_okD [OF p registered(2)] by auto
  note E = connect_end_spec [OF inv(1) own(1-4) refl, of env fid]
  have "phases_ok strict (connect_end env c fid u d s) (ph(c := None))"
    using p unfolding phases_ok_def E by auto
  with E(1,2) inv(2) own(5) show ?case unfolding comet_ok_def by blast
next
  case (closing s ph c env)
  then have inv: "keeper_inv s" and p: "phases_ok strict s ph" by (auto simp: comet_ok_def)
  show ?case
    by (rule comet_ok_good [OF closing.IH good_Close [OF inv]])
      (use closing(2) phases_okD [OF p] Close_spec(6) [OF inv] in \<open>auto simp: IsAuthed_def\<close>)
next
  case (sending s ph env c f)
  show ?case by (rule comet_ok_same [OF sending.IH Send_same])
next
  case (writing s ph env c b)
  show ?case by (rule comet_ok_same [OF writing.IH SendRaw_same])
qed

text \<open>
  C14: The index of connections never lies about who a connection belongs to: after any
  interleaving of accepted connections, frames, overlapping handshakes, kicks, sweeps, drains and
  pushes, every connection registered for a user and a device is an accepted one that
  authenticated as that user on that device, and the user is positive; and if no read loop
  handles a \<open>CONNECT\<close> on a connection that was closed, every registered connection is open.
\<close>

theorem registered_connections_are_the_users:
  assumes "comet_run strict s ph" "keeper_get (ckeeper s) u d = Some c"
  shows "0 < u \<and> co_uid (cconns s c) = u \<and> co_dev (cconns s c) = d \<and> c \<le> cseq s \<and>
    c \<in> set (Devices (ckeeper s) u) \<and> c \<in> set (keeper_all (ckeeper s)) \<and>
    (strict \<longrightarrow> \<not> co_closed (cconns s c))"
proof -
  from comet_run_ok [OF assms(1)] have ok: "keeper_inv s" "strict \<longrightarrow> all_open s" by (auto simp: comet_ok_def)
  with assms(2) keeper_invD [OF ok(1) assms(2)] show ?thesis
    by (auto simp: all_open_def ix.set_devices [OF keeper_inv_wf [OF ok(1)]] ix.set_all [OF keeper_inv_wf [OF ok(1)]])
qed

subsection \<open>Pushes\<close>

lemma distinct_Devices:
  assumes "keeper_inv s"
  shows "distinct (Devices (ckeeper s) u)"
proof (cases "map_of (ckeeper s ! bucketFor u) u")
  case (Some dm)
  with bucket_wfD [OF keeper_wf_bucket [OF keeper_inv_wf [OF assms]]] have d: "distinct (map fst dm)" by blast
  have "inj_on snd (set dm)"
  proof (rule inj_onI)
    fix x y
    assume xy: "x \<in> set dm" "y \<in> set dm" "snd x = snd y"
    have "co_dev (cconns s (snd z)) = fst z" if "z \<in> set dm" for z
      using that keeper_invD [OF assms, of u "fst z" "snd z"] Some d by (simp add: keeper_get_def)
    with xy show "x = y" by (metis prod_eqI)
  qed
  with d Some show ?thesis by (simp add: Devices_def distinct_map)
qed (simp add: Devices_def)

lemma send_all_spec:
  "distinct cs \<Longrightarrow> send_all env b cs s = (dl, s') \<Longrightarrow>
    (\<forall>x. co_out (cconns s' x) = co_out (cconns s x) @
      (if x \<in> set cs \<and> \<not> co_closed (cconns s x) \<and> ce_write env x then [b] else [])) \<and>
    (dl \<longleftrightarrow> (\<exists>x \<in> set cs. \<not> co_closed (cconns s x) \<and> ce_write env x))"
proof (induction cs arbitrary: s dl s')
  case (Cons c cs)
  obtain d s1 ds where r: "SendRaw env c b s = (d, s1)" "send_all env b cs s1 = (ds, s')" "dl = (d \<or> ds)"
    using Cons.prems(2) by (auto split: prod.splits)
  have one: "d \<longleftrightarrow> \<not> co_closed (cconns s c) \<and> ce_write env c" "co_closed (cconns s1 x) = co_closed (cconns s x)"
    "co_out (cconns s1 x) = co_out (cconns s x) @ (if x = c \<and> d then [b] else [])" for x
    using r(1) by (auto simp: SendRaw_def upd_conn_def split: if_splits)
  from Cons.IH [OF _ r(2)] Cons.prems(1) show ?case unfolding one(2,3) r(3) by (auto simp: one(1))
qed simp

definition takes_push :: "comet_env \<Rightarrow> comet \<Rightarrow> uid \<Rightarrow> string \<Rightarrow> nat \<Rightarrow> bool" where
  \<comment> \<open>an open, writable connection registered for the user, and the device if one is named\<close>
  "takes_push env s u dev x \<longleftrightarrow> co_uid (cconns s x) = u \<and> (dev = [] \<or> co_dev (cconns s x) = dev) \<and>
     keeper_get (ckeeper s) u (co_dev (cconns s x)) = Some x \<and> \<not> co_closed (cconns s x) \<and> ce_write env x"

lemma send_all_same: "same_ids s (snd (send_all env b cs s))"
  by (induction cs arbitrary: s) (auto simp: Let_def case_prod_beta intro: same_ids_trans [OF SendRaw_same])

lemma PushMessage_same: "same_ids s (snd (PushMessage env u dev conv q from sync s))"
  by (simp add: PushMessage_def send_all_same Let_def split: sum.split)

lemma PushMessage_effect:
  assumes inv: "keeper_inv s"
    and enc: "EncodeFrame (ce_fc env) (ok_frame 0 CMD_MESSAGE_PUSH (PMessagePush conv q from sync)) = Inr raw"
    and push: "PushMessage env u dev conv q from sync s = (delivered, s')"
  shows "co_out (cconns s' x) = co_out (cconns s x) @ (if takes_push env s u dev x then [raw] else [])"
    and "delivered \<longleftrightarrow> (\<exists>x. takes_push env s u dev x)"
proof -
  let ?T = "target_devices u dev s"
  have T: "x \<in> set ?T \<longleftrightarrow> co_uid (cconns s x) = u \<and> (dev = [] \<or> co_dev (cconns s x) = dev) \<and>
      keeper_get (ckeeper s) u (co_dev (cconns s x)) = Some x" for x
    using keeper_invD [OF inv, of u _ x]
    by (auto simp: target_devices_def ix.set_devices [OF keeper_inv_wf [OF inv]])
  have "send_all env raw ?T s = (delivered, s')"
    using enc push by (auto simp: PushMessage_def Let_def split: if_splits)
  from send_all_spec [OF _ this] distinct_Devices [OF inv, of u] T
  show "co_out (cconns s' x) = co_out (cconns s x) @ (if takes_push env s u dev x then [raw] else [])"
    "delivered \<longleftrightarrow> (\<exists>x. takes_push env s u dev x)"
    by (auto simp: takes_push_def target_devices_def)
qed

text \<open>
  C15: A push reaches its user, once, and nobody else: \<open>PushMessage\<close> writes the notification exactly
  once to each open, writable connection that is registered for the user (and the device, if one
  is named), writes nothing to any other connection, and reports delivery just when at least
  one such connection took it.
\<close>

theorem push_reaches_owner_once:
  assumes "comet_run strict s ph"
    and "EncodeFrame (ce_fc env) (ok_frame 0 CMD_MESSAGE_PUSH (PMessagePush conv q from sync)) = Inr raw"
    and "PushMessage env u dev conv q from sync s = (delivered, s')"
  defines "takes x \<equiv> co_uid (cconns s x) = u \<and> (dev = [] \<or> co_dev (cconns s x) = dev) \<and>
      keeper_get (ckeeper s) u (co_dev (cconns s x)) = Some x \<and> \<not> co_closed (cconns s x) \<and> ce_write env x"
  shows "(\<forall>x. co_out (cconns s' x) = co_out (cconns s x) @ (if takes x then [raw] else [])) \<and>
    (delivered \<longleftrightarrow> (\<exists>x. takes x))"
proof -
  from comet_run_ok [OF assms(1)] have inv: "keeper_inv s" by (simp add: comet_ok_def)
  show ?thesis
    using PushMessage_effect [OF inv assms(2,3)] by (simp add: takes_def takes_push_def)
qed

subsection \<open>Frames act in the name of their connection\<close>

text \<open>
  C16: What a client sends is done in the name of its connection: handling a frame forwards at
  most one message and at most one acknowledgement, each carries the user the connection
  authenticated as and not one the frame names, and a connection that has not authenticated
  forwards nothing.
\<close>

theorem frames_act_as_their_connection:
  "(cups (HandleFrame env c f s) = cups s \<or>
     (\<exists>r. cups (HandleFrame env c f s) = cups s @ [r] \<and> up_from r = co_uid (cconns s c) \<and> up_from r \<noteq> 0 \<and>
        up_conv r \<noteq> 0 \<and> up_cmid r \<noteq> 0)) \<and>
   (cacks (HandleFrame env c f s) = cacks s \<or>
     (\<exists>conv q. cacks (HandleFrame env c f s) = cacks s @ [(co_uid (cconns s c), conv, q)] \<and> co_uid (cconns s c) \<noteq> 0))"
proof -
  have close: "cups (snd (Close env x s')) = cups s'" "cacks (snd (Close env x s')) = cacks s'" for x s'
    by (auto simp: Close_def onConnClosed_def onOffline_def PublishPresence_def upd_conn_def Let_def split: prod.split)
  have conn: "cups (onConnect env c f s) = cups s" "cacks (onConnect env c f s) = cacks s"
    by (auto simp: onConnect_def connect_begin_def connect_end_def connect_register_def PublishPresence_def
        upd_conn_def close Let_def split: prod.splits sum.splits option.splits)
  have up: "cacks (onMessageUp env c f s) = cacks s"
    "cups (onMessageUp env c f s) = cups s \<or>
     (\<exists>r. cups (onMessageUp env c f s) = cups s @ [r] \<and> up_from r = co_uid (cconns s c) \<and> up_from r \<noteq> 0 \<and>
        up_conv r \<noteq> 0 \<and> up_cmid r \<noteq> 0)"
    by (auto simp: onMessageUp_def IsAuthed_def Let_def split: Payload.splits option.splits sum.splits prod.splits)
  have sync: "cups (onSync env c f s) = cups s" "cacks (onSync env c f s) = cacks s"
    by (auto simp: onSync_def split: sum.splits prod.splits)
  have ack: "cups (onAck c f s) = cups s" "cacks (onAck c f s) = cacks s \<or>
     (\<exists>conv q. cacks (onAck c f s) = cacks s @ [(co_uid (cconns s c), conv, q)] \<and> co_uid (cconns s c) \<noteq> 0)"
    by (auto simp: onAck_def IsAuthed_def split: Payload.splits)
  have tying: "cups (onTyping env c f s) = cups s" "cacks (onTyping env c f s) = cacks s"
    by (auto simp: onTyping_def Let_def split: option.splits)
  show ?thesis unfolding HandleFrame_def Let_def using conn up sync ack tying by (simp add: close)
qed

subsection \<open>What goes wrong\<close>

lemma Send_stream [simp]: "co_stream (cconns (snd (Send env c f s)) x) = co_stream (cconns s x)"
  by (simp add: Send_def SendRaw_def upd_conn_def split: sum.split)

lemma Close_stream [simp]: "co_stream (cconns (snd (Close env c s)) x) = co_stream (cconns s x)"
  by (simp add: Close_def onConnClosed_def onOffline_def PublishPresence_def upd_conn_def Let_def split: prod.split)

lemma pump_read_encoded:
  assumes "EncodeFrame (ce_fc env) f = Inr b" "survives (ce_fc env) f"
    and "content (co_stream (cconns s c)) = b @ rest"
  obtains st where "pump_read env c s = (Some f, upd_conn c (\<lambda>k. k\<lparr>co_stream := st, co_last := ce_now env\<rparr>) s)"
    "content st = rest"
  using read_encoded [OF assms] by (auto simp: pump_read_def)

lemma pump_read_eof:
  "content (co_stream (cconns s c)) = [] \<Longrightarrow> co_closed (cconns s c) \<Longrightarrow> \<exists>st. pump_read env c s = (None, upd_conn c (\<lambda>k. k\<lparr>co_stream := st\<rparr>) s)"
  using readFrame_spec(1) [of "ce_fc env" "co_stream (cconns s c)"]
  by (cases "readFrame (ce_fc env) (co_stream (cconns s c))")
    (auto simp: pump_read_def parse_frame_def HeaderSize_def Close_def)

text \<open>
  A closed connection can be registered for good. A peer sends two \<open>CONNECT\<close> frames in one go,
  the first with a bad token, the second with a good one: the first makes the server close the
  connection, the read loop goes on with the bytes it has already buffered, and the second
  registers the closed connection. Its loop ends, and no \<open>Close\<close> will ever take it out of
  the index, since \<open>Close\<close> does nothing on a closed connection; the user's pushes to it fail, and
  the sweep finds it again and again.
\<close>

theorem closed_connection_stays_registered:
  assumes "comet_run strict s ph" "c \<le> cseq s" "co_uid (cconns s c) = 0" "\<not> co_closed (cconns s c)"
    and "EncodeFrame (ce_fc env) f1 = Inr b1" "survives (ce_fc env) f1"
    and "EncodeFrame (ce_fc env) f2 = Inr b2" "survives (ce_fc env) f2"
    and "st_buf (co_stream (cconns s c)) @ concat (st_conn (co_stream (cconns s c))) = b1 @ b2"
    and "fcmd f1 = CMD_CONNECT" "fcmd f2 = CMD_CONNECT"
    and "JWTAuthenticate (ce_crypto env) (ce_secret env) (ce_dev env) (ce_now env) (fst (GetConnect f1)) = Inl e"
    and "JWTAuthenticate (ce_crypto env) (ce_secret env) (ce_dev env) (ce_now env) (fst (GetConnect f2)) = Inr u"
    and "dv_id (snd (GetConnect f1)) \<noteq> []" "dv_id (snd (GetConnect f2)) = dev" "dev \<noteq> []"
    and "keeper_get (ckeeper s) u dev = None"
  shows "\<exists>s'. pump env c 3 s = s' \<and> co_closed (cconns s' c) \<and> keeper_get (ckeeper s') u dev = Some c \<and>
    (\<forall>env'. Close env' c s' = (False, s'))"
proof -
  have "content (co_stream (cconns s c)) = b1 @ b2" using assms(9) by (simp add: content_def)
  then obtain st1 where r1: "pump_read env c s = (Some f1, upd_conn c (\<lambda>k. k\<lparr>co_stream := st1, co_last := ce_now env\<rparr>) s)"
    and st1: "content st1 = b2" by (rule pump_read_encoded [OF assms(5,6)])
  define s1 where "s1 = upd_conn c (\<lambda>k. k\<lparr>co_stream := st1, co_last := ce_now env\<rparr>) s"
  have "keeper_inv s" using comet_run_ok [OF assms(1)] by (simp add: comet_ok_def)
  then have inv1: "keeper_inv s1" by (rule keeper_inv_same [rotated]) (simp add: s1_def)
  have c1: "co_uid (cconns s1 c) = 0" "co_closed (cconns s1 c) = False" "content (co_stream (cconns s1 c)) = b2"
    "keeper_get (ckeeper s1) u dev = None" "c \<le> cseq s1"
    using assms(2-4,17) st1 by (simp_all add: s1_def)
  let ?bad = "snd (Send env c (err_frame (frame_id f1) CMD_CONNECT_RSP ErrCodeInvalidToken ''auth failed'') s1)"
  define s2 where "s2 = snd (Close env c ?bad)"
  obtain tk1 d1 where g1: "GetConnect f1 = (tk1, d1)" by force
  have h1: "HandleFrame env c f1 s1 = s2"
    using assms(10,12,14) c1(1) g1 by (simp add: HandleFrame_def onConnect_def connect_begin_def IsAuthed_def s2_def)
  have sb: "same_ids s1 ?bad" by (rule Send_same)
  note invb = keeper_inv_same [OF sb inv1]
  note C = Close_spec [OF invb, where env = env and c = c, folded s2_def]
  have c2: "keeper_inv s2" "co_uid (cconns s2 c) = 0" "co_closed (cconns s2 c)" "content (co_stream (cconns s2 c)) = b2"
    "keeper_get (ckeeper s2) u dev = None" "c \<le> cseq s2"
    using C(1) C(3,4,6) C(7) [of u dev] sb c1 by (simp_all add: same_ids_def) (simp add: s2_def c1)
  obtain st3 where r2: "pump_read env c s2 = (Some f2, upd_conn c (\<lambda>k. k\<lparr>co_stream := st3, co_last := ce_now env\<rparr>) s2)"
    and st3: "content st3 = []" using pump_read_encoded [OF assms(7,8), of s2 c "[]"] c2(4) by auto
  define s3 where "s3 = upd_conn c (\<lambda>k. k\<lparr>co_stream := st3, co_last := ce_now env\<rparr>) s2"
  have inv3: "keeper_inv s3" by (rule keeper_inv_same [OF _ c2(1)]) (simp add: s3_def)
  obtain tk d where g2: "GetConnect f2 = (tk, d)" by force
  have h2: "HandleFrame env c f2 s3 = connect_end env c (frame_id f2) u d s3"
    using assms(11,13,15,16) c2(2,5) g2
    by (simp add: HandleFrame_def onConnect_def connect_begin_def IsAuthed_def s3_def)
  have u: "0 < u" by (rule JWTAuthenticate_positive [OF assms(13)])
  define s4 where "s4 = connect_end env c (frame_id f2) u d s3"
  have "dv_id d \<noteq> []" "co_uid (cconns s3 c) = 0" "c \<le> cseq s3" using assms(15,16) g2 c2(2,6) by (simp_all add: s3_def)
  note E = connect_end_spec [OF inv3 u this s4_def]
  have str4: "content (co_stream (cconns s4 c)) = []"
    by (simp add: s4_def connect_end_def connect_register_def PublishPresence_def Let_def s3_def upd_conn_def st3)
  have cl4: "co_closed (cconns s4 c)" unfolding E(6) by (simp add: s3_def c2(3))
  have get4: "keeper_get (ckeeper s4) u dev = Some c" unfolding E(3) using g2 assms(15) by simp
  obtain st5 where r3: "pump_read env c s4 = (None, upd_conn c (\<lambda>k. k\<lparr>co_stream := st5\<rparr>) s4)"
    using pump_read_eof [OF str4 cl4] by blast
  have "pump env c 3 s = upd_conn c (\<lambda>k. k\<lparr>co_stream := st5\<rparr>) s4"
    using r1 r2 r3 h1 h2 by (simp add: numeral_3_eq_3 pump_round_def s1_def s3_def s4_def)
  with cl4 get4 show ?thesis by (simp add: Close_def)
qed

text \<open>
  Two handshakes of one device that overlap leave a connection nobody can reach: when both have
  looked for an old connection before either has registered, the second registration takes
  the first one's place, and the first connection stays open and authenticated but is found
  neither by pushes and kicks nor by the sweep and the drain.
\<close>

theorem overlapping_handshakes_orphan_one:
  assumes "comet_run strict s ph" "c \<noteq> c'" "c \<le> cseq s" "c' \<le> cseq s"
    and "keeper_get (ckeeper s) u (dv_id d) = None" "dv_id d' = dv_id d"
    and "connect_begin env c f s = (Some (u, d), s)" "connect_begin env' c' f' s = (Some (u, d'), s)"
    and "s' = connect_end env' c' fid' u d' (connect_end env c fid u d s)"
  shows "co_uid (cconns s' c) = u \<and> co_closed (cconns s' c) = co_closed (cconns s c) \<and>
    keeper_get (ckeeper s') u (dv_id d) = Some c' \<and>
    c \<notin> set (Devices (ckeeper s') v) \<and> c \<notin> set (keeper_all (ckeeper s')) \<and> c \<notin> set (Sweep now idle s')"
proof -
  have inv: "keeper_inv s" using comet_run_ok [OF assms(1)] by (simp add: comet_ok_def)
  have a: "0 < u" "dv_id d \<noteq> []" "co_uid (cconns s c) = 0"
    using connect_begin_good(2) [OF inv assms(7) refl] by auto
  have a': "dv_id d' \<noteq> []" "co_uid (cconns s c') = 0"
    using connect_begin_good(2) [OF inv assms(8) refl] by auto
  let ?m = "connect_end env c fid u d s"
  note M = connect_end_spec [OF inv a assms(3) refl, of env fid]
  have m': "co_uid (cconns ?m c') = 0" "c' \<le> cseq ?m" unfolding M using a' assms(2,4) by auto
  note E = connect_end_spec [OF M(1) a(1) a'(1) m' assms(9)]
  have nowhere: "keeper_get (ckeeper s') v e \<noteq> Some c" for v e
    unfolding E(3) M(3) using keeper_invD [OF inv, of v e c] a assms(2,6) by auto
  then have "c \<notin> set (keeper_all (ckeeper s'))" "c \<notin> set (Devices (ckeeper s') v)"
    by (simp_all add: ix.set_all [OF keeper_inv_wf [OF E(1)]] ix.set_devices [OF keeper_inv_wf [OF E(1)]])
  moreover have "co_uid (cconns s' c) = u" "co_closed (cconns s' c) = co_closed (cconns s c)"
    unfolding E M using assms(2) by auto
  moreover have "keeper_get (ckeeper s') u (dv_id d) = Some c'" unfolding E(3) using assms(6) by simp
  ultimately show ?thesis by (simp add: Sweep_def)
qed

subsection \<open>Witnesses\<close>

definition demo_phone :: DeviceInfo where "demo_phone = \<lparr>dv_type = 1, dv_id = ''phone''\<rparr>"

definition demo_connect :: "int \<Rightarrow> string \<Rightarrow> Frame" where
  "demo_connect i token = ok_frame i CMD_CONNECT (PConnect token (Some demo_phone))"

definition demo_wire :: frame_codec where
  "demo_wire = \<lparr>marshal_frame = (\<lambda>f. Some [if fcmd f = CMD_CONNECT then word_of_int (frame_id f) else 9]),
     unmarshal_frame = (\<lambda>b. Some (if b = [1] then demo_connect 1 ''bad'' else demo_connect 2 ''dev.10''))\<rparr>"

definition demo_comet_env :: comet_env where
  "demo_comet_env = \<lparr>ce_fc = demo_wire, ce_now = 0, ce_write = (\<lambda>_. True), ce_redis = redis_up, ce_crypto = demo_crypto,
     ce_secret = ''key'', ce_dev = True, ce_addr = ''comet-1'', ce_syncseq = (\<lambda>_. Inr 5), ce_send = (\<lambda>_. Inr (1, 1)),
     ce_sync = (\<lambda>_ _ _. Inr (0, [], []))\<rparr>"

definition demo_bytes :: "8 word \<Rightarrow> bytes" where
  "demo_bytes i = [0, 0, 0, 1, 1, 0, 0, 1, i]"

definition demo_server :: "bytes list \<Rightarrow> comet" where
  "demo_server chunks = onStream demo_comet_env chunks (NewServer None True)"

lemmas demo_comet_defs = demo_comet_env_def demo_wire_def demo_connect_def demo_phone_def demo_bytes_def ok_frame_def

lemma demo_server_run: "comet_run strict (demo_server chunks) (\<lambda>_. None)"
  unfolding demo_server_def by (rule comet_run.accept, rule comet_run.start)

lemma demo_encoded:
  "EncodeFrame demo_wire (demo_connect 1 t) = Inr (demo_bytes 1)" "EncodeFrame demo_wire (demo_connect 2 t) = Inr (demo_bytes 2)"
  "survives demo_wire (demo_connect 1 ''bad'')" "survives demo_wire (demo_connect 2 ''dev.10'')"
  by (simp_all add: EncodeFrame_def survives_def demo_comet_defs CMD_CONNECT_def CMD_UNKNOWN_def MaxBodySize_def
      put_u32_def put_u16_def VersionV1_def)

lemma demo_auth: "JWTAuthenticate demo_crypto ''key'' True 0 ''dev.10'' = Inr 10"
  "JWTAuthenticate demo_crypto ''key'' True 0 ''bad'' = Inl ''malformed token''"
  by (simp_all add: JWTAuthenticate_def DevAuth_def parse_int_def digit_val_def)

lemma demo_server_simps [simp]:
  "cseq (demo_server ch) = 1" "ckeeper (demo_server ch) = NewKeeper" "cconns (demo_server ch) (Suc 0) = newConn 0 ch"
  "ccache (demo_server ch) = None"
  by (simp_all add: demo_server_def onStream_def NewServer_def demo_comet_env_def)

lemma closed_connection_stays_registered_witness:
  "\<exists>s'. pump demo_comet_env 1 3 (demo_server [demo_bytes 1 @ demo_bytes 2]) = s' \<and> co_closed (cconns s' 1) \<and>
    keeper_get (ckeeper s') 10 ''phone'' = Some 1 \<and> (\<forall>env'. Close env' 1 s' = (False, s'))"
  by (rule closed_connection_stays_registered [where strict = False and ?f1.0 = "demo_connect 1 ''bad''" and ?f2.0 = "demo_connect 2 ''dev.10''"
        and ?b1.0 = "demo_bytes 1" and ?b2.0 = "demo_bytes 2", OF demo_server_run])
    (use demo_encoded demo_auth in \<open>simp_all add: newConn_def ix.get_new demo_comet_env_def demo_connect_def ok_frame_def
      GetConnect_def demo_phone_def\<close>)

definition demo_ready :: comet where
  \<comment> \<open>connection 1 registered\<close>
  "demo_ready = connect_end demo_comet_env 1 2 10 demo_phone (snd (pump_read demo_comet_env 1 (demo_server [demo_bytes 2])))"

lemma demo_begin: "ckeeper s = NewKeeper \<Longrightarrow> co_uid (cconns s c) = 0 \<Longrightarrow>
    connect_begin demo_comet_env c (demo_connect i ''dev.10'') s = (Some (10, demo_phone), s)"
  by (simp add: connect_begin_def GetConnect_def demo_connect_def ok_frame_def IsAuthed_def demo_phone_def
      demo_comet_env_def demo_auth ix.get_new)

lemma demo_read: "\<exists>st. pump_read demo_comet_env 1 (demo_server [demo_bytes 2]) = (Some (demo_connect 2 ''dev.10''),
    upd_conn 1 (\<lambda>k. k\<lparr>co_stream := st, co_last := 0\<rparr>) (demo_server [demo_bytes 2]))"
proof -
  have e: "EncodeFrame (ce_fc demo_comet_env) (demo_connect 2 ''dev.10'') = Inr (demo_bytes 2)"
    "survives (ce_fc demo_comet_env) (demo_connect 2 ''dev.10'')"
    using demo_encoded by (simp_all add: demo_comet_env_def)
  have "content (co_stream (cconns (demo_server [demo_bytes 2]) 1)) = demo_bytes 2 @ []"
    by (simp add: content_def newConn_def)
  then obtain st where "pump_read demo_comet_env 1 (demo_server [demo_bytes 2]) = (Some (demo_connect 2 ''dev.10''),
      upd_conn 1 (\<lambda>k. k\<lparr>co_stream := st, co_last := ce_now demo_comet_env\<rparr>) (demo_server [demo_bytes 2]))"
    by (rule pump_read_encoded [OF e])
  moreover have "ce_now demo_comet_env = 0" by (simp add: demo_comet_env_def)
  ultimately show ?thesis by auto
qed

lemma demo_ready_run: "comet_run True demo_ready (\<lambda>_. None)"
  and demo_ready_get: "keeper_get (ckeeper demo_ready) 10 ''phone'' = Some 1"
  and demo_ready_conn: "co_uid (cconns demo_ready 1) = 10" "co_dev (cconns demo_ready 1) = ''phone''" "\<not> co_closed (cconns demo_ready 1)"
proof -
  obtain st where r: "pump_read demo_comet_env 1 (demo_server [demo_bytes 2]) = (Some (demo_connect 2 ''dev.10''),
      upd_conn 1 (\<lambda>k. k\<lparr>co_stream := st, co_last := 0\<rparr>) (demo_server [demo_bytes 2]))" using demo_read by blast
  define s1 where "s1 = upd_conn 1 (\<lambda>k. k\<lparr>co_stream := st, co_last := 0\<rparr>) (demo_server [demo_bytes 2])"
  have s1: "ckeeper s1 = NewKeeper" "co_uid (cconns s1 1) = 0" "cseq s1 = 1" "\<not> co_closed (cconns s1 1)"
    by (simp_all add: s1_def newConn_def)
  have b: "connect_begin demo_comet_env 1 (demo_connect 2 ''dev.10'') s1 = (Some (10, demo_phone), s1)"
    by (rule demo_begin [OF s1(1,2)])
  have "comet_run True s1 ((\<lambda>_. None)(1 := Some (2, 10, demo_phone)))"
    using comet_run.connect [OF demo_server_run [of True] _ _ _ _ r [folded s1_def] _ b]
    by (simp add: newConn_def demo_connect_def ok_frame_def)
  from comet_run.registered [OF this, of 1 2 10 demo_phone demo_comet_env]
  have run: "comet_run True (connect_end demo_comet_env 1 2 10 demo_phone s1) (\<lambda>_. None)"
    by (simp add: fun_upd_idem)
  have ready: "demo_ready = connect_end demo_comet_env 1 2 10 demo_phone s1" unfolding demo_ready_def r s1_def by simp
  show "comet_run True demo_ready (\<lambda>_. None)" using run by (simp add: ready)
  have "keeper_inv s1" by (simp add: keeper_inv_def s1(1) ix.wf_new ix.get_new)
  from connect_end_spec [OF this, of 10 demo_phone 1 demo_ready demo_comet_env 2] s1 ready
  show "keeper_get (ckeeper demo_ready) 10 ''phone'' = Some 1" "co_uid (cconns demo_ready 1) = 10"
    "co_dev (cconns demo_ready 1) = ''phone''" "\<not> co_closed (cconns demo_ready 1)"
    by (simp_all add: demo_phone_def)
qed

lemma registered_connections_are_the_users_witness:
  "co_uid (cconns demo_ready 1) = 10 \<and> 1 \<in> set (Devices (ckeeper demo_ready) 10) \<and> \<not> co_closed (cconns demo_ready 1)"
  using registered_connections_are_the_users [OF demo_ready_run demo_ready_get] by simp

lemma push_reaches_owner_once_witness:
  "\<exists>raw s'. PushMessage demo_comet_env 10 [] 7 3 20 0 demo_ready = (True, s') \<and>
    co_out (cconns s' 1) = co_out (cconns demo_ready 1) @ [raw]"
proof -
  obtain raw where raw: "EncodeFrame (ce_fc demo_comet_env) (ok_frame 0 CMD_MESSAGE_PUSH (PMessagePush 7 3 20 0)) = Inr raw"
    by (simp add: EncodeFrame_def demo_comet_defs cmd_defs MaxBodySize_def)
  obtain dl s' where p: "PushMessage demo_comet_env 10 [] 7 3 20 0 demo_ready = (dl, s')" by force
  have w: "ce_write demo_comet_env 1" by (simp add: demo_comet_env_def)
  from push_reaches_owner_once [OF demo_ready_run raw p] demo_ready_get demo_ready_conn w p
  show ?thesis by auto
qed

lemma overlapping_handshakes_orphan_one_witness:
  "\<exists>s'. co_uid (cconns s' 1) = 10 \<and> keeper_get (ckeeper s') 10 ''phone'' = Some 2 \<and>
    1 \<notin> set (Devices (ckeeper s') 10) \<and> 1 \<notin> set (Sweep 100000 IdleTimeout s')"
proof -
  let ?s = "onStream demo_comet_env [] (demo_server [])"
  have run: "comet_run True ?s (\<lambda>_. None)" by (rule comet_run.accept [OF demo_server_run])
  have k: "ckeeper ?s = NewKeeper" "cseq ?s = 2" "co_uid (cconns ?s 1) = 0" "co_uid (cconns ?s 2) = 0"
    by (simp_all add: onStream_def demo_server_def NewServer_def newConn_def)
  let ?s' = "connect_end demo_comet_env 2 2 10 demo_phone (connect_end demo_comet_env 1 2 10 demo_phone ?s)"
  have "keeper_get (ckeeper ?s) 10 (dv_id demo_phone) = None" by (simp add: k ix.get_new)
  from overlapping_handshakes_orphan_one [OF run _ _ _ this refl demo_begin [OF k(1,3)] demo_begin [OF k(1,4)] refl,
      of 2 2 10 100000 IdleTimeout] k(2)
  show ?thesis by (intro exI [of _ ?s']) (simp add: demo_phone_def)
qed

end
