(* ===== verification/MessageRpc.thy ===== *)
theory MessageRpc
  imports ConvSafety GatewaySafety CometSafety
begin

text \<open>
  The RPC face of the message service (\<open>cmd/yim-message/handler.go\<close>) and the compositions it makes
  possible: a message posted over HTTP, and a synchronisation asked for on a connection, followed
  through to the message tables.
\<close>

subsection \<open>Requests and replies\<close>

record message_env =
  mv_codec :: codec
  mv_send :: send_env
  mv_revoke :: "revoke_sql faults"
  mv_create :: create_env
  mv_relation :: "relation_client option"
  mv_read :: read_env
  mv_mark :: "string option"
  mv_search :: "MsgShard \<Rightarrow> string option"
  mv_like :: "char \<Rightarrow> char \<Rightarrow> bool"

datatype message_rsp =
    SendMessageRsp int int
  | PullRsp PullHistoryRsp
  | CreateConvRsp "yim_error + ConvMeta \<times> bool"
  | MarkReadRsp
  | ReadStateRsp "yim_error + (uid \<times> int) list"
  | ConversationsRsp "ConversationBrief list" bool
  | RevokeRsp "yim_error + int \<times> int"
  | SearchRsp "ConvMessage list" bool

definition message_error :: "message_rsp \<Rightarrow> yim_error option" where
  \<comment> \<open>\<open>rsp.GetError()\<close>\<close>
  "message_error a = (case a of
       PullRsp r \<Rightarrow> ph_error r
     | CreateConvRsp r \<Rightarrow> err_of r | ReadStateRsp r \<Rightarrow> err_of r | RevokeRsp r \<Rightarrow> err_of r
     | _ \<Rightarrow> None)"

definition no_content :: Content where
  \<comment> \<open>what the getters of a nil message return\<close>
  "no_content = \<lparr>ct_type = 0, ct_text = [], ct_ref_msg_id = 0, ct_op_uid = 0\<rparr>"

subsection \<open>The handler\<close>

fun message_rpc :: "message_env \<Rightarrow> message_req \<Rightarrow> svc \<Rightarrow> (string + message_rsp) \<times> svc" where
  "message_rpc env (SendMessageReq cmid c from msg) s =
     (case SendMessage (mv_codec env) (mv_send env) cmid c from (case msg of None \<Rightarrow> no_content | Some m \<Rightarrow> m) s of
        (Inl e, s') \<Rightarrow> (Inl (send_err_text e), s')
      | (Inr (mid, q), s') \<Rightarrow> (Inr (SendMessageRsp mid q), s'))"
| "message_rpc env (PullHistoryReq c before limit op) s =
     (case rpc_PullHistory (mv_codec env) (mv_read env) PULL_PAGE_BACKWARD op c before limit s of
        (Inl e, s') \<Rightarrow> (Inl e, s') | (Inr r, s') \<Rightarrow> (Inr (PullRsp r), s'))"
| "message_rpc env (CreateConvReq typ us ow nm) s =
     (case rpc_CreateConv (mv_relation env) (mv_create env) typ us ow nm s of
        (Inl e, s') \<Rightarrow> (Inl e, s') | (Inr r, s') \<Rightarrow> (Inr (CreateConvRsp r), s'))"
| "message_rpc env (MarkReadReq u c q) s =
     (case MarkRead (mv_read env) (mv_mark env) u c q s of
        (Some e, s') \<Rightarrow> (Inl e, s') | (None, s') \<Rightarrow> (Inr MarkReadRsp, s'))"
| "message_rpc env (GetReadStateReq op c) s =
     (case GetReadState (mv_read env) op c s of (r, s') \<Rightarrow> (Inr (ReadStateRsp r), s'))"
| "message_rpc env (ListConversationsReq u page) s =
     (case ListConversations (mv_codec env) (mv_read env) u (fst page) (snd page) s of
        (Inl e, s') \<Rightarrow> (Inl e, s') | (Inr (bs, hasMore), s') \<Rightarrow> (Inr (ConversationsRsp bs hasMore), s'))"
| "message_rpc env (RevokeMessageReq msg c op) s =
     (case rpc_RevokeMessage (mv_like env) (mv_codec env) (mv_send env) (mv_revoke env) msg c op s of
        (Inl e, s') \<Rightarrow> (Inl e, s') | (Inr r, s') \<Rightarrow> (Inr (RevokeRsp r), s'))"
| "message_rpc env (SearchMessagesReq u kw) s =
     (case SearchMessages (mv_like env) (mv_codec env) (mv_read env) (mv_search env) u kw 0 s of
        Inl e \<Rightarrow> (Inl e, s) | Inr (ms, truncated) \<Rightarrow> (Inr (SearchRsp ms truncated), s))"

definition serve_message :: "gw_config \<Rightarrow> message_env \<Rightarrow> (message_rsp \<Rightarrow> string option) \<Rightarrow> (rpc_call \<Rightarrow> rpc_answer) \<Rightarrow>
    bool \<Rightarrow> int \<Rightarrow> http_req \<Rightarrow> route \<Rightarrow> svc \<Rightarrow> http_rsp \<times> svc" where
  \<comment> \<open>one request with the message service as modelled, the other services as \<open>others\<close>\<close>
  "serve_message cfg env render others lost now rq r s =
     (case serve cfg now rq r of
        Reject rsp \<Rightarrow> (rsp, s)
      | Forward (ToMessage q) k \<Rightarrow>
          (case message_rpc env q s of
             (Inl _, s') \<Rightarrow> (k None, s')
           | (Inr a, s') \<Rightarrow> (k (if lost then None else Some (message_error a, render a)), s'))
      | Forward call k \<Rightarrow> (k (others call), s))"

subsection \<open>Who writes messages\<close>

lemma fillRecent_shards [simp]: "mshards (fillRecent cd env c ms s) = mshards s"
  unfolding fillRecent_def by (induction ms arbitrary: s) (auto split: option.split)

lemma PullHistory_shards: "mshards (snd (PullHistory cd env op c b l s)) = mshards s"
  by (auto simp: PullHistory_def Let_def split: prod.splits sum.splits option.splits if_splits)

lemma rpc_PullHistory_shards: "mshards (snd (rpc_PullHistory cd env m op c b l s)) = mshards s"
  using PullHistory_shards [of cd env op c b l s]
  by (auto simp: rpc_PullHistory_def split: prod.splits sum.splits pull_error.splits list.splits)

lemma seed_shards:
  "mshards (snd (rc_seed (relationAdapter rpc rf ff gf now) c us ow s)) = mshards s"
  by (auto simp: relationAdapter_def Let_def split: option.split prod.split)

lemma create_new_shards:
  assumes "rc \<in> {None, Some (relationAdapter rpc rf ff gf now)}"
  shows "mshards (snd (create_new rc env typ us ow nm s)) = mshards s"
proof -
  have "mshards s2 = mshards s1" if "rc_seed (relationAdapter rpc rf ff gf now) c us ow s1 = (e, s2)" for c s1 e s2
    using seed_shards [of rpc rf ff gf now c us ow s1] that by simp
  then show ?thesis
    using assms by (auto simp: create_new_def Let_def split: sum.split option.split prod.split)
qed

lemma CreateConv_shards:
  assumes "rc \<in> {None, Some (relationAdapter rpc rf ff gf now)}"
  shows "mshards (snd (CreateConv rc env typ us ow nm s)) = mshards s"
  using create_new_shards [OF assms]
  by (auto simp: CreateConv_def Let_def split: prod.split sum.split option.split)

lemma getReadSeq_shards: "mshards (snd (getReadSeq env u c s)) = mshards s"
  by (auto simp: getReadSeq_def split: option.split)

lemma read_states_shards: "mshards (snd (read_states env c us s)) = mshards s"
proof (induction us arbitrary: s)
  case (Cons u us)
  then show ?case using getReadSeq_shards [of env u c s] by (simp add: split_beta Let_def)
qed simp

lemma GetReadState_shards: "mshards (snd (GetReadState env u c s)) = mshards s"
  using read_states_shards by (auto simp: GetReadState_def split_beta Let_def split: sum.split)

lemma brief_loop_shards: "mshards (snd (brief_loop cd env u cs s)) = mshards s"
proof (induction cs arbitrary: s)
  case (Cons c cs)
  obtain r ca where g: "GetConvMeta (re_redis env) (re_meta env c) (re_now env) (mcache s) (mdb s) c = (r, ca)" by force
  obtain q s1 where q: "getReadSeq env u c (s\<lparr>mcache := ca\<rparr>) = (q, s1)" by force
  obtain x s2 where b: "brief_loop cd env u cs s1 = (x, s2)" by force
  show ?case
    using g q b Cons [of s1] getReadSeq_shards [of env u c "s\<lparr>mcache := ca\<rparr>"]
    by (cases r; cases x) (simp_all add: Let_def)
qed simp

lemma ListConversations_shards: "mshards (snd (ListConversations cd env u n k s)) = mshards s"
proof -
  have loop: "mshards (snd (case brief_loop cd env u cs s of (Inl e, s') \<Rightarrow> (Inl e, s') | (Inr bs, s') \<Rightarrow> (Inr (bs, h), s'))) = mshards s"
    for cs and h :: bool
  proof -
    obtain x s' where b: "brief_loop cd env u cs s = (x, s')" by force
    then show ?thesis using brief_loop_shards [of cd env u cs s] by (cases x) simp_all
  qed
  show ?thesis by (simp only: ListConversations_def Let_def loop snd_conv split: option.split) simp
qed

definition member_of :: "message_env \<Rightarrow> svc \<Rightarrow> conv_id \<Rightarrow> uid \<Rightarrow> bool" where
  \<comment> \<open>what the service reads of the member list when it sends\<close>
  "member_of env s c u \<longleftrightarrow> (\<exists>meta. u \<in> set (MemberUIDs meta) \<and>
     fst (GetConvMeta (se_redis (mv_send env)) (se_sql (mv_send env) SMeta) (se_now (mv_send env)) (mcache s) (mdb s) c) = Inr meta)"

definition appended :: "svc \<Rightarrow> svc \<Rightarrow> message_row list \<Rightarrow> bool" where
  \<comment> \<open>the new messages, each at the end of its conversation's table, are all that changed in the tables\<close>
  "appended s s' ms \<longleftrightarrow>
     (\<forall>sh. msg_table (mshards s') sh = msg_table (mshards s) sh @ filter (\<lambda>m. shard_of s (ms_conv m) = sh) ms)"

lemma appended_Nil: "mshards s' = mshards s \<Longrightarrow> appended s s' []"
  by (simp add: appended_def)

lemma send_appends:
  assumes "SendMessage (mv_codec env) (mv_send env) cmid c from msg s = (res, s')"
  shows "\<exists>ms. length ms \<le> 1 \<and> appended s s' ms \<and> (\<forall>m \<in> set ms. ms_from m = from \<and> member_of env s (ms_conv m) from)"
proof -
  let ?sh = "shard_of s c"
  let ?meta = "fst (GetConvMeta (se_redis (mv_send env)) (se_sql (mv_send env) SMeta) (se_now (mv_send env)) (mcache s) (mdb s) c)"
  have W: "\<exists>ms. length ms \<le> 1 \<and> msg_table (mshards s') sh = msg_table (mshards s) sh @ ms \<and>
    (\<forall>m \<in> set ms. sh = ?sh \<and> ms_conv m = c \<and> ms_from m = from \<and> ms_cmid m = cmid \<and>
      (\<exists>meta. ?meta = Inr meta \<and> from \<in> set (MemberUIDs meta)))" for sh
    by (rule only_members_write [OF assms])
  from W [of ?sh] obtain ms where ms: "length ms \<le> 1" "msg_table (mshards s') ?sh = msg_table (mshards s) ?sh @ ms"
    "\<forall>m \<in> set ms. ms_conv m = c \<and> ms_from m = from \<and> (\<exists>meta. ?meta = Inr meta \<and> from \<in> set (MemberUIDs meta))" by auto
  have "msg_table (mshards s') sh = msg_table (mshards s) sh @ filter (\<lambda>m. shard_of s (ms_conv m) = sh) ms" for sh
  proof (cases "sh = ?sh")
    case True
    have "filter (\<lambda>m. shard_of s (ms_conv m) = ?sh) ms = ms" using ms(3) by (simp add: filter_id_conv)
    with True ms(2) show ?thesis by simp
  next
    case False
    have "filter (\<lambda>m. shard_of s (ms_conv m) = sh) ms = []" using ms(3) False by (auto simp: filter_empty_conv)
    moreover have "msg_table (mshards s') sh = msg_table (mshards s) sh"
      using W [of sh] False by (metis append_Nil2 last_in_set)
    ultimately show ?thesis by simp
  qed
  then show ?thesis using ms unfolding member_of_def appended_def by (intro exI [of _ ms]) auto
qed

lemma message_rpc_appends:
  assumes "mv_relation env \<in> {None, Some (relationAdapter rpc rf ff gf now)}"
  shows "\<exists>ms. length ms \<le> 1 \<and> appended s (snd (message_rpc env q s)) ms \<and>
    (\<forall>m \<in> set ms. ms_from m = message_actor q \<and> member_of env s (ms_conv m) (message_actor q))" (is "?P q")
proof -
  have same: "?P q" if "mshards (snd (message_rpc env q s)) = mshards s"
    by (rule exI [of _ "[]"]) (simp add: appended_Nil that)
  show ?thesis
  proof (cases q)
    case (SendMessageReq cmid c fr msg)
    let ?m = "case msg of None \<Rightarrow> no_content | Some m \<Rightarrow> m"
    obtain res s' where r: "SendMessage (mv_codec env) (mv_send env) cmid c fr ?m s = (res, s')" by force
    then have "snd (message_rpc env q s) = s'" using SendMessageReq by (auto split: sum.split)
    with send_appends [OF r] show ?thesis using SendMessageReq by simp
  next
    case (RevokeMessageReq msg c op)
    obtain res s' where r: "RevokeMessage (mv_like env) (mv_codec env) (mv_send env) (mv_revoke env) msg c op s = (res, s')"
      by force
    then have s': "snd (message_rpc env q s) = s'"
      using RevokeMessageReq by (auto simp: rpc_RevokeMessage_def split: sum.split revoke_error.split)
    from revoke_message_store [OF r] show ?thesis
    proof
      assume "s' = s"
      then show ?thesis by (intro same) (simp add: s')
    next
      assume "\<exists>content res'. SendMessage (mv_codec env) (mv_send env) msg c op content s = (res', s')"
      then show ?thesis using send_appends [of env msg c op _ s _ s'] s' RevokeMessageReq by auto
    qed
  next
    case (PullHistoryReq c b l op)
    obtain x s' where h: "rpc_PullHistory (mv_codec env) (mv_read env) PULL_PAGE_BACKWARD op c b l s = (x, s')" by force
    then have "snd (message_rpc env q s) = s'" using PullHistoryReq by (auto split: sum.split)
    then show ?thesis
      using rpc_PullHistory_shards [of "mv_codec env" "mv_read env" PULL_PAGE_BACKWARD op c b l s] h by (intro same) simp
  next
    case (CreateConvReq ty us ow nm)
    obtain x s' where c: "CreateConv (mv_relation env) (mv_create env) ty us ow nm s = (x, s')" by force
    then have "snd (message_rpc env q s) = s'"
      using CreateConvReq by (auto simp: rpc_CreateConv_def split: sum.split create_error.split)
    then show ?thesis using CreateConv_shards [OF assms, of "mv_create env" ty us ow nm s] c by (intro same) simp
  next
    case (MarkReadReq u c v)
    then show ?thesis by (intro same) (auto simp: MarkRead_def Let_def split: sum.split prod.split option.split)
  next
    case (GetReadStateReq u c)
    then show ?thesis using GetReadState_shards by (intro same) (simp add: split_beta)
  next
    case (ListConversationsReq u pg)
    obtain x s' where l: "ListConversations (mv_codec env) (mv_read env) u (fst pg) (snd pg) s = (x, s')" by force
    then have "snd (message_rpc env q s) = s'" using ListConversationsReq by (auto split: sum.split prod.split)
    then show ?thesis using ListConversations_shards [of "mv_codec env" "mv_read env" u "fst pg" "snd pg" s] l
      by (intro same) simp
  next
    case (SearchMessagesReq u kw)
    then show ?thesis by (intro same) (auto split: sum.split)
  qed
qed

text \<open>
  C36: A posted message is signed by the holder of the token: through the gateway and the message
  service, whatever the request says and whatever fails, one request appends at most one message to
  the table of its conversation and leaves all tables as they are otherwise, and the message carries
  the user the token was accepted for, who is in the conversation's member list.
\<close>

theorem posted_messages_carry_token_user:
  assumes "route_matches r rq" "mv_relation env \<in> {None, Some (relationAdapter rpc rf ff gf t)}"
    and "serve_message cfg env render others lost now rq r s = (rsp, s')"
  shows "\<exists>ms. length ms \<le> 1 \<and>
    (\<forall>sh. msg_table (mshards s') sh = msg_table (mshards s) sh @ filter (\<lambda>m. shard_of s (ms_conv m) = sh) ms) \<and>
    (\<forall>m \<in> set ms. token_user cfg now rq = Some (ms_from m) \<and> member_of env s (ms_conv m) (ms_from m))"
proof (cases "serve cfg now rq r")
  case (Reject rsp')
  then show ?thesis using assms(3) by (intro exI [of _ "[]"]) (simp add: serve_message_def appended_def)
next
  case (Forward call k)
  show ?thesis
  proof (cases call)
    case (ToMessage q)
    then have s': "s' = snd (message_rpc env q s)"
      using assms(3) Forward by (auto simp: serve_message_def split: prod.splits sum.splits)
    have "token_user cfg now rq = Some (message_actor q)"
      using forwarded_from [OF assms(1) Forward] ToMessage by (auto simp: open_call_def)
    with message_rpc_appends [OF assms(2), of s q] show ?thesis unfolding s' appended_def by fastforce
  qed (use assms(3) Forward in \<open>auto simp: serve_message_def appended_def intro: exI [of _ "[]"]\<close>)
qed

subsection \<open>Who reads messages\<close>

text \<open>
  Synchronisation serves everybody: with the message service behind the connection server, a SYNC
  frame that names a conversation is answered with its messages above the watermark (at most 200)
  on any authenticated connection, whether or not its user is a member of the conversation.
\<close>

theorem sync_serves_strangers:
  assumes "fcmd f = CMD_SYNC" "payload f = PSync v [(conv, w)]" "IsAuthed s k"
    and "ce_sync env = (\<lambda>u _ wms. rpc_Sync cd renv (fallback u) u wms db)"
    and "readable cd db conv" "conv \<noteq> 0" "re_rows renv (shard_of db conv) conv = None"
  shows "\<exists>v' over. HandleFrame env k f s =
    snd (Send env k (ok_frame (frame_id f) CMD_SYNC_RSP (PSyncRsp v'
      (map (decoded cd) (take syncMax (filter (\<lambda>r. w < ms_seq r) (conv_rows db conv)))) over)) s)"
proof -
  from sync_once [OF assms(5-7) refl, of "co_uid (cconns s k)"] obtain over where
    "SyncConvs cd renv (co_uid (cconns s k)) [(conv, w)] db =
      Inr (map (decoded cd) (take syncMax (filter (\<lambda>r. w < ms_seq r) (conv_rows db conv))), over)" by blast
  then obtain v' where "ce_sync env (co_uid (cconns s k)) v [(conv, w)] =
      Inr (v', map (decoded cd) (take syncMax (filter (\<lambda>r. w < ms_seq r) (conv_rows db conv))), over)"
    unfolding assms(4) by (simp add: rpc_Sync_def)
  then have "onSync env k f s = snd (Send env k (ok_frame (frame_id f) CMD_SYNC_RSP (PSyncRsp v'
      (map (decoded cd) (take syncMax (filter (\<lambda>r. w < ms_seq r) (conv_rows db conv)))) over)) s)"
    using assms(2,3) by (simp add: onSync_def GetSync_def)
  moreover have "HandleFrame env k f s = onSync env k f s"
    using assms(1) by (simp add: HandleFrame_def CMD_SYNC_def CMD_CONNECT_def CMD_HEARTBEAT_def CMD_MESSAGE_UP_def
        CMD_ACK_def CMD_TYPING_def)
  ultimately show ?thesis by auto
qed

text \<open>
  In the development mode the token \<open>dev.0\<close> reads every conversation: the gateway goes on as user 0,
  and for that user the message service skips the member check.
\<close>

lemma dev_zero_reads_history:
  assumes "gc_dev cfg" "bearer (hq_auth rq) = ''dev.0''" "route_matches GetMessages rq" "pos_param rq ''id'' = Some conv"
    and "0 < before" "parse_value (DefaultQuery rq ''before_seq'' ''0'') = before"
    and "readable cd s conv" "re_rows renv (shard_of s conv) conv = None"
  shows "\<exists>limit k. serve cfg now rq GetMessages = Forward (ToMessage (PullHistoryReq conv before limit 0)) k \<and>
    PullHistory cd renv 0 conv before limit s = (Inr (map (decoded cd)
      (rev (take (page_limit limit) (rev (filter (\<lambda>r. ms_seq r < before) (conv_rows s conv)))))), s)"
proof -
  have "token_user cfg now rq = Some 0"
    using assms(1,2) by (simp add: token_user_def gw_verify_def has_prefix_iff parse_int_def digit_val_def)
  then have "\<exists>limit k. serve cfg now rq GetMessages = Forward (ToMessage (PullHistoryReq conv before limit 0)) k"
    using serve_token [OF assms(3)] assms(4,6) by (simp add: get_messages_def)
  then obtain limit k where f: "serve cfg now rq GetMessages = Forward (ToMessage (PullHistoryReq conv before limit 0)) k"
    by blast
  have "PullHistory cd renv 0 conv before limit s = (Inr (map (decoded cd)
      (rev (take (page_limit limit) (rev (filter (\<lambda>r. ms_seq r < before) (conv_rows s conv)))))), s)"
    using assms(5,8) pullHistoryDB_page [OF assms(7), of before "page_limit limit"]
    by (simp add: PullHistory_def Let_def)
  with f show ?thesis by blast
qed

subsection \<open>Runs\<close>

definition demo_post_cfg :: gw_config where
  "demo_post_cfg = demo_gateway\<lparr>gc_json := demo_json\<lparr>pj_send := (\<lambda>_. Some (99, 7, 55, Some demo_text))\<rparr>\<rparr>"

definition demo_post :: http_req where
  \<comment> \<open>user 1 posts to conversation 7; the body names user 55 as the sender\<close>
  "demo_post = \<lparr>hq_method = ''POST'', hq_path = ''/api/v1/messages'', hq_auth = ''Bearer dev.1'',
     hq_param = (\<lambda>_. []), hq_query = (\<lambda>_. None), hq_body = ''{}''\<rparr>"

definition demo_message_env :: message_env where
  "demo_message_env = \<lparr>mv_codec = demo_codec, mv_send = demo_env, mv_revoke = no_fault,
     mv_create = create_env.make 0 redis_up no_fault (Inr 1), mv_relation = None,
     mv_read = demo_read, mv_mark = None, mv_search = (\<lambda>_. None), mv_like = (=)\<rparr>"

lemma demo_post_route: "route_matches PostMessage demo_post"
  by (simp add: route_matches_def demo_post_def api_def has_prefix_iff)

lemma demo_post_token: "token_user demo_post_cfg now demo_post = Some 1"
  by (simp add: token_user_def demo_post_cfg_def demo_gateway_def demo_post_def bearer_def gw_verify_def has_prefix_iff
      trim_space_def is_space_def parse_int_def digit_val_def)

lemma demo_post_served: "serve_message demo_post_cfg demo_message_env (\<lambda>_. Some []) (\<lambda>_. None) False now demo_post PostMessage demo_svc =
    (\<lparr>hr_status = 200, hr_body = ProtoBody []\<rparr>, demo_sent 99)"
proof -
  have "handle_route (gc_json demo_post_cfg) 1 demo_post PostMessage =
      Forward (ToMessage (SendMessageReq 99 7 1 (Some demo_text))) (reply ''send message failed'')"
    by (simp add: post_message_def demo_post_cfg_def demo_json_def)
  then have "serve demo_post_cfg now demo_post PostMessage =
      Forward (ToMessage (SendMessageReq 99 7 1 (Some demo_text))) (reply ''send message failed'')"
    by (simp add: serve_token [OF demo_post_route] demo_post_token)
  then show ?thesis
    by (simp add: serve_message_def demo_message_env_def demo_sends demo_sent_def message_error_def reply_def writeProto_def)
qed

lemma posted_messages_carry_token_user_witness:
  "\<exists>rsp. serve_message demo_post_cfg demo_message_env (\<lambda>_. Some []) (\<lambda>_. None) False 0 demo_post PostMessage demo_svc =
      (rsp, demo_sent 99) \<and>
    (\<exists>ms. msg_table (mshards (demo_sent 99)) (MsgShard 0 0) = msg_table (mshards demo_svc) (MsgShard 0 0) @ ms \<and>
      (\<forall>m \<in> set ms. ms_from m = 1))"
proof -
  have rel: "mv_relation demo_message_env \<in> {None, Some (relationAdapter (\<lambda>_. None) redis_up no_fault no_fault 0)}"
    by (simp add: demo_message_env_def)
  from posted_messages_carry_token_user [OF demo_post_route rel demo_post_served, of 0]
  show ?thesis using demo_post_served by (auto simp: demo_post_token)
qed

lemma sync_serves_strangers_witness:
  "\<exists>v' over. HandleFrame (demo_comet_env\<lparr>ce_sync := (\<lambda>u _ wms. rpc_Sync read_codec demo_read (Inr 0) u wms (demo_sent 99))\<rparr>) 1
      (ok_frame 3 CMD_SYNC (PSync 0 [(7, 0)])) demo_ready =
    snd (Send (demo_comet_env\<lparr>ce_sync := (\<lambda>u _ wms. rpc_Sync read_codec demo_read (Inr 0) u wms (demo_sent 99))\<rparr>) 1
      (ok_frame 3 CMD_SYNC_RSP (PSyncRsp v' [decoded read_codec (demo_row 99)] over)) demo_ready) \<and>
    co_uid (cconns demo_ready 1) = 10 \<and> 10 \<notin> set (MemberUIDs demo_meta)"
proof -
  have auth: "IsAuthed demo_ready 1" unfolding IsAuthed_def demo_ready_conn(1) by simp
  have f: "fcmd (ok_frame 3 CMD_SYNC (PSync 0 [(7, 0)])) = CMD_SYNC" "payload (ok_frame 3 CMD_SYNC (PSync 0 [(7, 0)])) = PSync 0 [(7, 0)]"
    and id: "frame_id (ok_frame 3 CMD_SYNC (PSync 0 [(7, 0)])) = 3" by (simp_all add: ok_frame_def)
  have rows: "filter (\<lambda>r. 0 < ms_seq r) (conv_rows (demo_sent 99) 7) = [demo_row 99]"
    by (simp add: demo_conv_rows) (simp add: demo_row_def)
  have m: "10 \<notin> set (MemberUIDs demo_meta)" by (simp add: demo_meta_def)
  let ?env = "demo_comet_env\<lparr>ce_sync := (\<lambda>u _ wms. rpc_Sync read_codec demo_read (Inr 0) u wms (demo_sent 99))\<rparr>"
  have e: "ce_sync ?env = (\<lambda>u _ wms. rpc_Sync read_codec demo_read ((\<lambda>_. Inr 0) u) u wms (demo_sent 99))"
    and nf: "re_rows demo_read (shard_of (demo_sent 99) 7) 7 = None" by (simp_all add: demo_read_def)
  from sync_serves_strangers [OF f auth e demo_readable _ nf] show ?thesis
    unfolding rows id using m demo_ready_conn(1) by (simp add: syncMax_def)
qed

end
