(* ===== verification/Accounts.thy ===== *)
theory Accounts
  imports Tokens Schema
begin

text \<open>
  Accounts: \<open>Register\<close> and \<open>Login\<close> of \<open>internal/logic/service.go\<close> and the error codes of
  \<open>cmd/yim-logic/main.go\<close>. The number service, the password hash (\<open>bcrypt\<close>), the collation of
  the \<open>nickname\<close> column and the driver answer through \<open>account_env\<close>.
\<close>

record account_env =
  ae_alloc :: "string + uid"                       \<comment> \<open>\<open>AllocUID\<close>\<close>
  ae_hash :: "string + string"                     \<comment> \<open>\<open>bcrypt.GenerateFromPassword\<close> of this call\<close>
  ae_check :: "string \<Rightarrow> string \<Rightarrow> bool"            \<comment> \<open>\<open>bcrypt.CompareHashAndPassword(hash, password) == nil\<close>\<close>
  ae_coll :: "string \<Rightarrow> string \<Rightarrow> bool"             \<comment> \<open>equality of the column's collation\<close>
  ae_fail :: "string option"                       \<comment> \<open>the statement fails\<close>
  ae_lost :: "string option"                       \<comment> \<open>the INSERT is done and its reply lost\<close>

datatype account_error = ErrNicknameTaken | ErrBadCredential | AccountErr string

definition nick_ascii :: "char \<Rightarrow> bool" where
  "nick_ascii c \<longleftrightarrow> (let n = of_char c :: nat in
     97 \<le> n \<and> n \<le> 122 \<or> 65 \<le> n \<and> n \<le> 90 \<or> 48 \<le> n \<and> n \<le> 57 \<or> n = 95 \<or> n = 45)"

fun nick_runes :: "string \<Rightarrow> nat option" where
  \<comment> \<open>the number of runes, all in the class of \<open>nicknameRe\<close>; the CJK range is three bytes in UTF-8\<close>
  "nick_runes [] = Some 0"
| "nick_runes (a # s) =
     (if nick_ascii a then map_option Suc (nick_runes s)
      else (case s of
          b # c # r \<Rightarrow>
            (let x = of_char a :: nat; y = of_char b :: nat; z = of_char c :: nat;
                 v = (x mod 16) * 4096 + (y mod 64) * 64 + z mod 64
             in if x div 16 = 14 \<and> y div 64 = 2 \<and> z div 64 = 2 \<and> 0x4e00 \<le> v \<and> v \<le> 0x9fa5
                then map_option Suc (nick_runes r) else None)
        | _ \<Rightarrow> None))"

definition nickname_ok :: "string \<Rightarrow> bool" where
  "nickname_ok s = (case nick_runes s of None \<Rightarrow> False | Some n \<Rightarrow> 2 \<le> n \<and> n \<le> 32)"

definition Register :: "account_env \<Rightarrow> string \<Rightarrow> string \<Rightarrow> user_row list \<Rightarrow> (account_error + uid) \<times> user_row list" where
  "Register env nickname password t =
     (if \<not> nickname_ok nickname then (Inl (AccountErr ''nickname: 2-32''), t)
      else if length password < 6 \<or> 64 < length password then (Inl (AccountErr ''password: 6-64''), t)
      else case ae_alloc env of
          Inl e \<Rightarrow> (Inl (AccountErr (''alloc uid: '' @ e)), t)
        | Inr uid \<Rightarrow>
            (case ae_hash env of
               Inl e \<Rightarrow> (Inl (AccountErr (''bcrypt: '' @ e)), t)
             | Inr h \<Rightarrow>
                 (let row = \<lparr>us_uid = uid, us_nickname = nickname, us_hash = h, us_avatar = []\<rparr>
                  in if ae_fail env \<noteq> None then (Inl (AccountErr (''insert user: '' @ the (ae_fail env))), t)
                     else if list_ex (\<lambda>r. us_uid r = uid \<or> ae_coll env (us_nickname r) nickname) t
                       then (Inl ErrNicknameTaken, t)
                     else if ae_lost env \<noteq> None then (Inl (AccountErr (''insert user: '' @ the (ae_lost env))), t @ [row])
                     else (Inr uid, t @ [row]))))"

record LoginResult =
  lr_uid :: uid
  lr_token :: string
  lr_expire :: int

definition Login :: "account_env \<Rightarrow> crypto \<Rightarrow> string \<Rightarrow> int \<Rightarrow> string \<Rightarrow> string \<Rightarrow> user_row list \<Rightarrow> account_error + LoginResult" where
  "Login env cr secret now nickname password t =
     (if ae_fail env \<noteq> None then Inl (AccountErr (''query user: '' @ the (ae_fail env)))
      else case find (\<lambda>r. ae_coll env (us_nickname r) nickname) t of
          None \<Rightarrow> Inl ErrBadCredential
        | Some r \<Rightarrow>
            if \<not> ae_check env (us_hash r) password then Inl ErrBadCredential
            else (case Issue cr secret now (us_uid r) of
                (token, e) \<Rightarrow> Inr \<lparr>lr_uid = us_uid r, lr_token = token, lr_expire = e\<rparr>))"

definition logicError :: "account_error \<Rightarrow> yim_error" where
  "logicError e = (case e of
       ErrNicknameTaken \<Rightarrow> YErr 10 ''nickname already taken''
     | ErrBadCredential \<Rightarrow> YErr 11 ''invalid nickname or password''
     | AccountErr m \<Rightarrow> YErr 2 m)"

definition rpc_Register :: "account_env \<Rightarrow> string \<Rightarrow> string \<Rightarrow> user_row list \<Rightarrow> (yim_error + uid) \<times> user_row list" where
  "rpc_Register env nickname password t =
     (case Register env nickname password t of
        (Inl e, t') \<Rightarrow> (Inl (logicError e), t') | (Inr u, t') \<Rightarrow> (Inr u, t'))"

definition rpc_Login :: "account_env \<Rightarrow> crypto \<Rightarrow> string \<Rightarrow> int \<Rightarrow> string \<Rightarrow> string \<Rightarrow> user_row list \<Rightarrow> yim_error + LoginResult" where
  "rpc_Login env cr secret now nickname password t =
     (case Login env cr secret now nickname password t of Inl e \<Rightarrow> Inl (logicError e) | Inr r \<Rightarrow> Inr r)"

subsection \<open>Unique accounts\<close>

definition accounts_ok :: "(string \<Rightarrow> string \<Rightarrow> bool) \<Rightarrow> user_row list \<Rightarrow> bool" where
  "accounts_ok coll t \<longleftrightarrow> distinct (map us_uid t) \<and>
     (\<forall>i j. i < j \<and> j < length t \<longrightarrow> \<not> coll (us_nickname (t ! i)) (us_nickname (t ! j)))"

lemma Register_cases:
  assumes "Register env nickname password t = (res, t')"
  shows "(t' = t \<and> (\<forall>u. res \<noteq> Inr u)) \<or>
    (\<exists>uid h. t' = t @ [\<lparr>us_uid = uid, us_nickname = nickname, us_hash = h, us_avatar = []\<rparr>] \<and>
       ae_alloc env = Inr uid \<and> ae_hash env = Inr h \<and> nickname_ok nickname \<and>
       6 \<le> length password \<and> length password \<le> 64 \<and> (\<forall>u. res = Inr u \<longrightarrow> u = uid) \<and>
       (\<forall>r \<in> set t. us_uid r \<noteq> uid \<and> \<not> ae_coll env (us_nickname r) nickname))"
  using assms
  by (auto simp: Register_def Let_def list_ex_iff split: if_splits sum.splits)

lemma Register_accounts_ok:
  "accounts_ok (ae_coll env) t \<Longrightarrow> Register env n p t = (res, t') \<Longrightarrow> accounts_ok (ae_coll env) t'"
  using Register_cases [of env n p t res t'] by (fastforce simp: accounts_ok_def nth_append)

inductive accounts_run :: "(string \<Rightarrow> string \<Rightarrow> bool) \<Rightarrow> user_row list \<Rightarrow> bool" for coll where
  start: "accounts_run coll []"
| register: "accounts_run coll t \<Longrightarrow> ae_coll env = coll \<Longrightarrow> Register env n p t = (res, t') \<Longrightarrow> accounts_run coll t'"

lemma accounts_run_ok: "accounts_run coll t \<Longrightarrow> accounts_ok coll t"
proof (induction rule: accounts_run.induct)
  case start
  show ?case by (simp add: accounts_ok_def)
next
  case (register t env n p res t')
  then show ?case using Register_accounts_ok [of env t n p res t'] by blast
qed

text \<open>
  C22: A registered user can log in, as himself: after any history of registrations, with failed
  statements and lost replies, if \<open>Register\<close> answers a user id then \<open>Login\<close> with the same nickname
  and password answers that id, with a token that the gateway accepts for exactly that user
  until the expiry the answer names; nobody else got the id or the nickname.
\<close>

theorem registered_user_can_log_in:
  assumes "accounts_run (ae_coll env) t" "Register env nickname password t = (Inr uid, t')"
    and "ae_coll env nickname nickname"
    and "\<And>h. ae_hash env = Inr h \<Longrightarrow> ae_check env h password"
    and "0 < uid" "reads_back cr uid ((now + tokenTTL) div 1000) (now div 1000)"
  shows "\<exists>r. rpc_Login (env\<lparr>ae_fail := None\<rparr>) cr secret now nickname password t' = Inr r \<and> lr_uid r = uid \<and>
    (\<forall>u \<in> set t. us_uid u \<noteq> uid \<and> \<not> ae_coll env (us_nickname u) nickname) \<and> accounts_ok (ae_coll env) t' \<and>
    (\<forall>s. JWTAuth cr secret dev s ''GET'' ''/api/v1/friends'' (''Bearer '' @ lr_token r) =
      (if s div 1000 < lr_expire r div 1000 then Proceed (Some uid) else Unauthorized))"
proof -
  from Register_cases [OF assms(2)] obtain h
    where t': "t' = t @ [\<lparr>us_uid = uid, us_nickname = nickname, us_hash = h, us_avatar = []\<rparr>]"
      and h: "ae_hash env = Inr h" and new: "\<forall>u \<in> set t. us_uid u \<noteq> uid \<and> \<not> ae_coll env (us_nickname u) nickname"
    by auto
  obtain token e where i: "Issue cr secret now uid = (token, e)" by force
  from new have "find (\<lambda>u. ae_coll env (us_nickname u) nickname) t = None" by (auto simp: find_None_iff)
  then have f: "find (\<lambda>u. ae_coll env (us_nickname u) nickname) t' =
      Some \<lparr>us_uid = uid, us_nickname = nickname, us_hash = h, us_avatar = []\<rparr>"
    unfolding t' using assms(3) by (induction t) (auto split: if_splits)
  have np: "\<not> isPublic ''GET'' ''/api/v1/friends''" by (simp add: isPublic_def)
  have "rpc_Login (env\<lparr>ae_fail := None\<rparr>) cr secret now nickname password t' =
      Inr \<lparr>lr_uid = uid, lr_token = token, lr_expire = e\<rparr>"
    using f assms(4) [OF h] i by (simp add: rpc_Login_def Login_def)
  moreover have "accounts_ok (ae_coll env) t'"
    using Register_accounts_ok [OF accounts_run_ok [OF assms(1)] assms(2)] .
  ultimately show ?thesis
    using new issued_token_round_trip [OF assms(6,5) i np] by auto
qed

definition demo_account_env :: account_env where
  "demo_account_env = \<lparr>ae_alloc = Inr 10, ae_hash = Inr ''h1'', ae_check = (\<lambda>h p. h = ''h1'' \<and> p = ''secret9''),
     ae_coll = (=), ae_fail = None, ae_lost = None\<rparr>"

lemma registered_user_can_log_in_witness:
  "\<exists>r. rpc_Login demo_account_env demo_crypto ''key'' 1000000 ''bob_1'' ''secret9''
      (snd (Register demo_account_env ''bob_1'' ''secret9'' [])) = Inr r \<and> lr_uid r = 10 \<and>
    JWTAuth demo_crypto ''key'' False 1000000 ''GET'' ''/api/v1/friends'' (''Bearer '' @ lr_token r) = Proceed (Some 10)"
proof -
  let ?t = "[\<lparr>us_uid = 10, us_nickname = ''bob_1'', us_hash = ''h1'', us_avatar = []\<rparr>]"
  have reg: "Register demo_account_env ''bob_1'' ''secret9'' [] = (Inr 10, ?t)"
    by (simp add: Register_def demo_account_env_def nickname_ok_def nick_ascii_def)
  have run: "accounts_run (ae_coll demo_account_env) []" by (rule accounts_run.start)
  have r: "reads_back demo_crypto 10 ((1000000 + tokenTTL) div 1000) (1000000 div 1000)"
    by (simp add: reads_back_def demo_crypto_def tokenTTL_def)
  have "\<exists>r. rpc_Login (demo_account_env\<lparr>ae_fail := None\<rparr>) demo_crypto ''key'' 1000000 ''bob_1'' ''secret9'' ?t = Inr r \<and>
      lr_uid r = 10 \<and> (\<forall>s. JWTAuth demo_crypto ''key'' False s ''GET'' ''/api/v1/friends'' (''Bearer '' @ lr_token r) =
      (if s div 1000 < lr_expire r div 1000 then Proceed (Some 10) else Unauthorized))"
    using registered_user_can_log_in [OF run reg _ _ _ r, of "''key''" False]
    by (auto simp: demo_account_env_def)
  moreover have "lr_expire r = 605800000" if "rpc_Login (demo_account_env\<lparr>ae_fail := None\<rparr>) demo_crypto ''key'' 1000000 ''bob_1'' ''secret9'' ?t = Inr r" for r
    using that by (auto simp: rpc_Login_def Login_def demo_account_env_def Issue_def Let_def tokenTTL_def)
  ultimately show ?thesis
    unfolding reg by (auto simp: demo_account_env_def)
qed

end
