(* ===== verification/Sched.thy ===== *)
theory Sched
  imports Prelude
begin

text \<open>
  The scheduler of background tasks (\<open>internal/sched/sched.go\<close>): the leader's trigger, the queues in
  Redis, the workers that claim a shard under an execution lock, and the election loop around it.
  What a task does is in \<open>Compensation\<close>; here an execution is an entry of \<open>sx_done\<close>. JSON is
  faithful on the descriptors the leader writes; an item another client put into a queue may not
  parse (\<open>None\<close>).
\<close>

record shardDesc =
  sd_task :: string
  sd_window :: int
  sd_shard :: string

record task =
  tk_name :: string
  tk_interval :: int            \<comment> \<open>in seconds\<close>
  tk_shards :: "string list"

definition lockTTL :: int where "lockTTL = 2 * 60 * 1000"

definition queueKey :: "string \<Rightarrow> string" where "queueKey t = ''sched:q:'' @ t"

definition lockKey :: "shardDesc \<Rightarrow> string" where
  "lockKey d = ''sched:lock:'' @ sd_task d @ '':'' @ int_str (sd_window d) @ '':'' @ sd_shard d"

record sched =
  sx_tasks :: "task list"
  sx_redis :: bool                                   \<comment> \<open>\<open>rdb != nil\<close>\<close>
  sx_queue :: "string \<Rightarrow> shardDesc option list"
  sx_lock :: "string \<Rightarrow> int option"                  \<comment> \<open>the time until which a lock key is there\<close>
  sx_done :: "(shardDesc \<times> int) list"               \<comment> \<open>executions of \<open>Exec\<close>, with their time\<close>

definition runTask :: "int \<Rightarrow> shardDesc \<Rightarrow> sched \<Rightarrow> sched" where
  \<comment> \<open>an unknown task is an error that is logged\<close>
  "runTask now d s =
     (if list_ex (\<lambda>t. tk_name t = sd_task d) (sx_tasks s) then s\<lparr>sx_done := sx_done s @ [(d, now)]\<rparr> else s)"

definition execInline :: "int \<Rightarrow> shardDesc \<Rightarrow> sched \<Rightarrow> sched" where
  \<comment> \<open>without queue and lock; an error is logged\<close>
  "execInline now d s = runTask now d s"

declare execInline_def [simp]

definition window_of :: "int \<Rightarrow> task \<Rightarrow> int" where
  "window_of now t = now div 1000 div tk_interval t"

definition trigger_shard :: "(string \<Rightarrow> bool) \<Rightarrow> int \<Rightarrow> task \<Rightarrow> string \<Rightarrow> sched \<Rightarrow> sched" where
  \<comment> \<open>\<open>push sh\<close>: the RPUSH of this shard succeeds\<close>
  "trigger_shard push now t sh s =
     (let d = \<lparr>sd_task = tk_name t, sd_window = window_of now t, sd_shard = sh\<rparr>; k = queueKey (tk_name t)
      in if \<not> sx_redis s \<or> \<not> push sh then execInline now d s
         else s\<lparr>sx_queue := (sx_queue s)(k := sx_queue s k @ [Some d])\<rparr>)"

definition trigger :: "(string \<Rightarrow> bool) \<Rightarrow> int \<Rightarrow> task \<Rightarrow> sched \<Rightarrow> sched" where
  "trigger push now t s = fold (trigger_shard push now t) (tk_shards t) s"

datatype setnx = LockTaken | LockHeld | LockUnknown

definition set_nx :: "bool \<Rightarrow> int \<Rightarrow> string \<Rightarrow> sched \<Rightarrow> setnx \<times> sched" where
  \<comment> \<open>SETNX with the TTL; \<open>ok\<close>: Redis answers\<close>
  "set_nx ok now k s =
     (if \<not> ok then (LockUnknown, s)
      else if (case sx_lock s k of None \<Rightarrow> False | Some t \<Rightarrow> now < t) then (LockHeld, s)
      else (LockTaken, s\<lparr>sx_lock := (sx_lock s)(k \<mapsto> now + lockTTL)\<rparr>))"

definition claim :: "bool \<Rightarrow> int \<Rightarrow> shardDesc \<Rightarrow> sched \<Rightarrow> sched" where
  "claim ok now d s =
     (case set_nx ok now (lockKey d) s of
        (LockHeld, s1) \<Rightarrow> s1
      | (_, s1) \<Rightarrow> runTask now d s1)"

definition pop :: "string \<Rightarrow> sched \<Rightarrow> shardDesc option option \<times> sched" where
  \<comment> \<open>BLPOP; \<open>None\<close>: nothing within a second\<close>
  "pop task s = (case sx_queue s (queueKey task) of [] \<Rightarrow> (None, s)
     | x # xs \<Rightarrow> (Some x, s\<lparr>sx_queue := (sx_queue s)(queueKey task := xs)\<rparr>))"

definition worker_round :: "bool \<Rightarrow> bool \<Rightarrow> int \<Rightarrow> string \<Rightarrow> sched \<Rightarrow> sched" where
  \<comment> \<open>a round of \<open>workerLoop\<close>; \<open>popok\<close>: BLPOP is answered\<close>
  "worker_round popok ok now task s =
     (if \<not> sx_redis s \<or> \<not> popok then s
      else case pop task s of
          (None, s1) \<Rightarrow> s1
        | (Some None, s1) \<Rightarrow> s1
        | (Some (Some d), s1) \<Rightarrow> claim ok now d s1)"

subsection \<open>Election\<close>

datatype lead_end = SessionError string | CampaignError string | Cancelled | SessionLost
  \<comment> \<open>how \<open>leadLoop\<close> ends\<close>

definition lead_error :: "lead_end \<Rightarrow> bool" where
  \<comment> \<open>the value returned is not nil\<close>
  "lead_error e = (case e of SessionLost \<Rightarrow> False | _ \<Rightarrow> True)"

fun Run :: "(lead_end \<times> bool) list \<Rightarrow> nat option" where
  \<comment> \<open>the loop of \<open>Run\<close> over the ends of \<open>leadLoop\<close>, each with whether the context is cancelled then;
      the number of campaigns until \<open>Run\<close> returns, \<open>None\<close> if it goes on\<close>
  "Run [] = None"
| "Run ((e, cancelled) # es) =
     (if lead_error e \<and> \<not> cancelled then map_option Suc (Run es) else Some 1)"

text \<open>
  A scheduler that loses its session never campaigns again: \<open>Run\<close> returns, although the context
  is not cancelled and the comment promises a new campaign, exactly after the first lost session
  or cancellation; errors of the session or the campaign are retried as many times as they come.
\<close>

theorem lost_session_ends_run:
  assumes "\<forall>x \<in> set errs. lead_error (fst x) \<and> \<not> snd x"
  shows "Run (errs @ (SessionLost, False) # later) = Some (length errs + 1) \<and> Run errs = None"
  using assms by (induction errs) (auto simp: lead_error_def)

lemma lost_session_ends_run_witness:
  "Run [(SessionError ''dial'', False), (SessionLost, False), (Cancelled, True)] = Some 2"
  using lost_session_ends_run [of "[(SessionError ''dial'', False)]" "[(Cancelled, True)]"]
  by (simp add: lead_error_def)

subsection \<open>One execution per window\<close>

definition plain :: "string \<Rightarrow> bool" where
  "plain s \<longleftrightarrow> CHR '':'' \<notin> set s"

lemma nat_str_plain: "plain (nat_str n)"
  using nat_str_digits [of "CHR '':''" n] by (auto simp: plain_def digit_val_def)

lemma int_str_plain: "plain (int_str v)"
  using nat_str_plain by (auto simp: int_str_def plain_def)

lemma int_str_inj: "int_str v = int_str w \<Longrightarrow> v = w"
proof -
  have n: "nat_str a = nat_str b \<Longrightarrow> a = b" for a b
    by (metis option.inject of_nat_eq_iff parse_digits_nat_str)
  have m: "nat_str a \<noteq> CHR ''-'' # s" for a s
    using nat_str_digits [of "CHR ''-''" a] by (cases "nat_str a") auto
  assume eq: "int_str v = int_str w"
  consider "v < 0" "w < 0" | "v < 0" "\<not> w < 0" | "\<not> v < 0" "w < 0" | "\<not> v < 0" "\<not> w < 0" by blast
  then show "v = w"
  proof cases
    case 1
    with eq n [of "nat (- v)" "nat (- w)"] show ?thesis by (simp add: int_str_def)
  next
    case 2
    with eq m [of "nat w" "nat_str (nat (- v))"] show ?thesis by (simp add: int_str_def)
  next
    case 3
    with eq m [of "nat v" "nat_str (nat (- w))"] show ?thesis by (simp add: int_str_def)
  next
    case 4
    with eq n [of "nat v" "nat w"] show ?thesis by (simp add: int_str_def)
  qed
qed

lemma lockKey_inj:
  assumes "plain (sd_task d)" "plain (sd_task e)" "lockKey d = lockKey e"
  shows "d = e"
proof -
  have s: "split_on CHR '':'' (sd_task x @ '':'' @ int_str (sd_window x) @ '':'' @ sd_shard x) =
      sd_task x # int_str (sd_window x) # split_on CHR '':'' (sd_shard x)" if "plain (sd_task x)" for x
    using that int_str_plain [of "sd_window x"] by (simp add: split_on_append plain_def)
  have eq: "sd_task d @ '':'' @ int_str (sd_window d) @ '':'' @ sd_shard d = sd_task e @ '':'' @ int_str (sd_window e) @ '':'' @ sd_shard e"
    using assms(3) by (simp add: lockKey_def)
  with s [OF assms(1)] s [OF assms(2)] have "sd_task d = sd_task e" "int_str (sd_window d) = int_str (sd_window e)" by simp_all
  with eq int_str_inj show ?thesis by (auto intro: shardDesc.equality)
qed

text \<open>
  Runs with the clock: the leader (or several, or one that was restarted) triggers, the workers of any
  instance take rounds, keys of Redis are lost when it restarts (\<open>forget\<close>), a worker dies between
  BLPOP and the claim (\<open>crash\<close>). \<open>healthy\<close>: no command fails and Redis keeps its keys. The third
  component holds the descriptors that were queued, the fourth those lost with a worker.
\<close>

inductive sched_run :: "bool \<Rightarrow> task list \<Rightarrow> int \<Rightarrow> sched \<Rightarrow> shardDesc set \<Rightarrow> shardDesc set \<Rightarrow> bool" for healthy tasks where
  start: "sched_run healthy tasks now \<lparr>sx_tasks = tasks, sx_redis = True, sx_queue = (\<lambda>_. []), sx_lock = (\<lambda>_. None), sx_done = []\<rparr> {} {}"
| clock: "sched_run healthy tasks now s Q L \<Longrightarrow> now \<le> later \<Longrightarrow> sched_run healthy tasks later s Q L"
| trigger: "sched_run healthy tasks now s Q L \<Longrightarrow> t \<in> set tasks \<Longrightarrow> (healthy \<longrightarrow> push sh) \<Longrightarrow>
    d = \<lparr>sd_task = tk_name t, sd_window = window_of now t, sd_shard = sh\<rparr> \<Longrightarrow>
    sched_run healthy tasks now (trigger_shard push now t sh s) (if push sh then insert d Q else Q) L"
| work: "sched_run healthy tasks now s Q L \<Longrightarrow> (healthy \<longrightarrow> ok) \<Longrightarrow>
    sched_run healthy tasks now (worker_round popok ok now task s) Q L"
| crash: "sched_run healthy tasks now s Q L \<Longrightarrow> pop task s = (Some (Some d), s') \<Longrightarrow> sched_run healthy tasks now s' Q (insert d L)"
| forget: "sched_run healthy tasks now s Q L \<Longrightarrow> \<not> healthy \<Longrightarrow> sched_run healthy tasks now (s\<lparr>sx_lock := \<lambda>_. None\<rparr>) Q L"

definition spaced :: "(shardDesc \<times> int) list \<Rightarrow> bool" where
  \<comment> \<open>two executions of a descriptor are at least the lock's lifetime apart\<close>
  "spaced l \<longleftrightarrow> (\<forall>i j. i < j \<and> j < length l \<and> fst (l ! i) = fst (l ! j) \<longrightarrow> snd (l ! i) + lockTTL \<le> snd (l ! j))"

definition queued :: "sched \<Rightarrow> shardDesc set" where
  "queued s = {d. Some d \<in> set (sx_queue s (queueKey (sd_task d)))}"

definition sched_ok :: "bool \<Rightarrow> task list \<Rightarrow> int \<Rightarrow> sched \<Rightarrow> shardDesc set \<Rightarrow> shardDesc set \<Rightarrow> bool" where
  "sched_ok healthy tasks now s Q L \<longleftrightarrow> sx_tasks s = tasks \<and> sx_redis s \<and>
     (\<forall>k d. Some d \<in> set (sx_queue s k) \<longrightarrow> d \<in> Q \<and> k = queueKey (sd_task d)) \<and>
     (\<forall>d \<in> Q. sd_task d \<in> tk_name ` set tasks) \<and>
     (\<forall>(d, t) \<in> set (sx_done s). sd_task d \<in> tk_name ` set tasks) \<and>
     (\<forall>d. sx_lock s (lockKey d) \<noteq> None \<and> sd_task d \<in> tk_name ` set tasks \<longrightarrow> d \<in> fst ` set (sx_done s)) \<and>
     Q \<subseteq> queued s \<union> fst ` set (sx_done s) \<union> L \<and>
     (healthy \<longrightarrow> spaced (sx_done s) \<and>
       (\<forall>(d, t) \<in> set (sx_done s). t \<le> now \<and> (\<exists>u. sx_lock s (lockKey d) = Some u \<and> t + lockTTL \<le> u)))"

lemma spaced_snoc:
  "spaced l \<Longrightarrow> (\<And>t. (d, t) \<in> set l \<Longrightarrow> t + lockTTL \<le> now) \<Longrightarrow> spaced (l @ [(d, now)])"
  unfolding spaced_def by (auto simp: nth_append less_Suc_eq)

lemma runTask_known: "sd_task d \<in> tk_name ` set (sx_tasks s) \<Longrightarrow> runTask now d s = s\<lparr>sx_done := sx_done s @ [(d, now)]\<rparr>"
  by (auto simp: runTask_def list_ex_iff)

lemma sched_okD:
  assumes "sched_ok healthy tasks now s Q L"
  shows "sx_tasks s = tasks" "sx_redis s" "Some d \<in> set (sx_queue s k) \<Longrightarrow> d \<in> Q \<and> k = queueKey (sd_task d)"
    "d \<in> Q \<Longrightarrow> sd_task d \<in> tk_name ` set tasks" "(d, t) \<in> set (sx_done s) \<Longrightarrow> sd_task d \<in> tk_name ` set tasks"
    "sx_lock s (lockKey d) \<noteq> None \<Longrightarrow> sd_task d \<in> tk_name ` set tasks \<Longrightarrow> d \<in> fst ` set (sx_done s)"
    "Q \<subseteq> queued s \<union> fst ` set (sx_done s) \<union> L" "healthy \<Longrightarrow> spaced (sx_done s)"
    "healthy \<Longrightarrow> (d, t) \<in> set (sx_done s) \<Longrightarrow> t \<le> now \<and> (\<exists>u. sx_lock s (lockKey d) = Some u \<and> t + lockTTL \<le> u)"
  using assms unfolding sched_ok_def by blast+

lemma sched_ok_pop:
  assumes "sched_ok healthy tasks now s Q L" "pop task s = (x, s')"
  shows "sched_ok healthy tasks now s' Q (case x of Some (Some d) \<Rightarrow> insert d L | _ \<Rightarrow> L)"
    and "x = Some (Some d) \<Longrightarrow> sd_task d \<in> tk_name ` set tasks"
proof -
  note D = sched_okD [OF assms(1)]
  have "sched_ok healthy tasks now s' Q (case x of Some (Some d) \<Rightarrow> insert d L | _ \<Rightarrow> L) \<and>
    (x = Some (Some d) \<longrightarrow> sd_task d \<in> tk_name ` set tasks)"
  proof (cases "sx_queue s (queueKey task)")
    case Nil
    with assms show ?thesis by (simp add: pop_def)
  next
    case (Cons y ys)
    with assms(2) have s': "x = Some y" "s' = s\<lparr>sx_queue := (sx_queue s)(queueKey task := ys)\<rparr>" by (simp_all add: pop_def)
    have sub: "Some e \<in> set (sx_queue s' k) \<Longrightarrow> Some e \<in> set (sx_queue s k)" for e k
      using Cons by (auto simp: s' split: if_splits)
    have kept: "queued s \<subseteq> queued s' \<union> {e. y = Some e}"
      using Cons by (auto simp: queued_def s')
    have "Q \<subseteq> queued s' \<union> fst ` set (sx_done s') \<union> (case x of Some (Some d) \<Rightarrow> insert d L | _ \<Rightarrow> L)"
      using D(7) kept by (auto simp: s' split: option.splits)
    moreover have "\<forall>k e. Some e \<in> set (sx_queue s' k) \<longrightarrow> e \<in> Q \<and> k = queueKey (sd_task e)"
      using sub D(3) by blast
    ultimately have "sched_ok healthy tasks now s' Q (case x of Some (Some d) \<Rightarrow> insert d L | _ \<Rightarrow> L)"
      using assms(1) unfolding sched_ok_def by (simp add: s')
    moreover have "sd_task d \<in> tk_name ` set tasks" if "x = Some (Some d)"
      using that D(3) [of d "queueKey task"] D(4) Cons s' by auto
    ultimately show ?thesis by blast
  qed
  then show "sched_ok healthy tasks now s' Q (case x of Some (Some d) \<Rightarrow> insert d L | _ \<Rightarrow> L)"
    "x = Some (Some d) \<Longrightarrow> sd_task d \<in> tk_name ` set tasks" by blast+
qed

lemma sched_ok_claim:
  assumes ok: "sched_ok healthy tasks now s Q (insert d L)" and d: "sd_task d \<in> tk_name ` set tasks"
    and h: "healthy \<longrightarrow> up" and names: "\<forall>t \<in> set tasks. plain (tk_name t)"
  shows "sched_ok healthy tasks now (claim up now d s) Q L"
proof -
  note D = sched_okD [OF ok]
  have inj: "lockKey e = lockKey d \<longleftrightarrow> e = d" if "sd_task e \<in> tk_name ` set tasks" for e
    using that d names lockKey_inj [of e d] by auto
  have run: "runTask now d t = t\<lparr>sx_done := sx_done t @ [(d, now)]\<rparr>" if "sx_tasks t = tasks" for t
    using d that by (simp add: runTask_known)
  show ?thesis
  proof (cases "up \<and> (case sx_lock s (lockKey d) of None \<Rightarrow> False | Some t \<Rightarrow> now < t)")
    case True
    then have c: "claim up now d s = s" and held: "sx_lock s (lockKey d) \<noteq> None"
      by (auto simp: claim_def set_nx_def split: option.splits)
    from D(6) [OF held d] D(7) have "Q \<subseteq> queued s \<union> fst ` set (sx_done s) \<union> L" by auto
    with ok show ?thesis unfolding c sched_ok_def by blast
  next
    case free: False
    let ?s' = "claim up now d s"
    have done': "sx_done ?s' = sx_done s @ [(d, now)]" and same: "sx_tasks ?s' = tasks" "sx_redis ?s'" "sx_queue ?s' = sx_queue s"
      and lock: "sx_lock ?s' = (if up then (sx_lock s)(lockKey d \<mapsto> now + lockTTL) else sx_lock s)"
      using free D(1,2) by (auto simp: claim_def set_nx_def run)
    have q: "queued ?s' = queued s" by (simp add: queued_def same)
    have "Q \<subseteq> queued ?s' \<union> fst ` set (sx_done ?s') \<union> L" using D(7) by (auto simp: q done')
    moreover have "\<forall>e. sx_lock ?s' (lockKey e) \<noteq> None \<and> sd_task e \<in> tk_name ` set tasks \<longrightarrow> e \<in> fst ` set (sx_done ?s')"
    proof (intro allI impI)
      fix e
      assume e: "sx_lock ?s' (lockKey e) \<noteq> None \<and> sd_task e \<in> tk_name ` set tasks"
      show "e \<in> fst ` set (sx_done ?s')"
      proof (cases "e = d")
        case False
        with e inj [of e] have "sx_lock s (lockKey e) \<noteq> None" by (auto simp: lock split: if_splits)
        with D(6) [of e] e show ?thesis by (auto simp: done')
      qed (simp add: done')
    qed
    moreover have "spaced (sx_done ?s') \<and> (\<forall>(e, t) \<in> set (sx_done ?s'). t \<le> now \<and>
        (\<exists>u. sx_lock ?s' (lockKey e) = Some u \<and> t + lockTTL \<le> u))" if healthy
    proof -
      from that h have up: up by simp
      have before: "t + lockTTL \<le> now" if "(d, t) \<in> set (sx_done s)" for t
        using D(9) [OF \<open>healthy\<close> that] free up by (auto split: option.splits)
      have "spaced (sx_done ?s')" unfolding done' by (rule spaced_snoc [OF D(8) [OF \<open>healthy\<close>] before])
      moreover have "t \<le> now \<and> (\<exists>u. sx_lock ?s' (lockKey e) = Some u \<and> t + lockTTL \<le> u)" if "(e, t) \<in> set (sx_done ?s')" for e t
      proof (cases "e = d")
        case True
        with that have "(d, t) \<in> set (sx_done s) \<or> t = now" by (auto simp: done')
        with before D(9) [OF \<open>healthy\<close>, of d t] have "t \<le> now" by auto
        with True up show ?thesis unfolding lock by auto
      next
        case False
        with that have "(e, t) \<in> set (sx_done s)" by (auto simp: done')
        with D(9) [OF \<open>healthy\<close> this] inj [OF D(5) [OF this]] False up show ?thesis unfolding lock by auto
      qed
      ultimately show ?thesis by blast
    qed
    moreover have "\<forall>(e, t) \<in> set (sx_done ?s'). sd_task e \<in> tk_name ` set tasks"
      using D(5) d by (auto simp: done')
    moreover have "\<forall>k e. Some e \<in> set (sx_queue ?s' k) \<longrightarrow> e \<in> Q \<and> k = queueKey (sd_task e)"
      using D(3) by (simp add: same)
    moreover have "\<forall>e \<in> Q. sd_task e \<in> tk_name ` set tasks" using D(4) by blast
    ultimately show ?thesis using same(1,2) unfolding sched_ok_def by (intro conjI impI; assumption?) blast+
  qed
qed

lemma sched_run_ok:
  assumes names: "\<forall>t \<in> set tasks. plain (tk_name t)"
  shows "sched_run healthy tasks now s Q L \<Longrightarrow> sched_ok healthy tasks now s Q L"
proof (induction rule: sched_run.induct)
  case (start now)
  show ?case by (simp add: sched_ok_def spaced_def)
next
  case (clock now s Q L later)
  then show ?case unfolding sched_ok_def by fastforce
next
  case (trigger now s Q L t push sh d)
  note D = sched_okD [OF trigger.IH]
  have d: "sd_task d \<in> tk_name ` set tasks" using trigger by simp
  show ?case
  proof (cases "push sh")
    case True
    let ?s' = "s\<lparr>sx_queue := (sx_queue s)(queueKey (tk_name t) := sx_queue s (queueKey (tk_name t)) @ [Some d])\<rparr>"
    have s': "trigger_shard push now t sh s = ?s'" using True D(2) trigger(4) by (simp add: trigger_shard_def Let_def)
    have dt: "sd_task d = tk_name t" using trigger(4) by simp
    have "insert d Q \<subseteq> queued ?s' \<union> fst ` set (sx_done ?s') \<union> L" using D(7) dt by (auto simp: queued_def)
    moreover have "\<forall>k e. Some e \<in> set (sx_queue ?s' k) \<longrightarrow> e \<in> insert d Q \<and> k = queueKey (sd_task e)"
      using D(3) dt by auto
    ultimately show ?thesis
      using trigger.IH d True unfolding s' sched_ok_def by simp
  next
    case False
    then have nh: "\<not> healthy" using trigger(3) by simp
    have "trigger_shard push now t sh s = s\<lparr>sx_done := sx_done s @ [(d, now)]\<rparr>"
      using False d D(1) trigger(4) by (simp add: trigger_shard_def runTask_known)
    with trigger.IH nh d False show ?thesis unfolding sched_ok_def queued_def by auto
  qed
next
  case (work now s Q L ok popok task)
  show ?case
  proof (cases "popok")
    case True
    obtain x s1 where p: "pop task s = (x, s1)" by force
    note P = sched_ok_pop [OF work.IH p]
    show ?thesis
    proof (cases "\<exists>d. x = Some (Some d)")
      case True
      then obtain d where x: "x = Some (Some d)" by blast
      from P x have "sched_ok healthy tasks now s1 Q (insert d L)" "sd_task d \<in> tk_name ` set tasks" by auto
      from sched_ok_claim [OF this work(2) names] show ?thesis
        using x p \<open>popok\<close> sched_okD(2) [OF work.IH] by (simp add: worker_round_def)
    next
      case False
      then have "sched_ok healthy tasks now s1 Q L" using P(1) by (auto split: option.splits)
      moreover have "worker_round popok ok now task s = s1"
        using False p \<open>popok\<close> sched_okD(2) [OF work.IH] by (auto simp: worker_round_def split: option.split)
      ultimately show ?thesis by simp
    qed
  qed (use work.IH in \<open>simp add: worker_round_def\<close>)
next
  case (crash now s Q L task d s')
  from sched_ok_pop(1) [OF crash.IH crash(2)] show ?case by simp
next
  case (forget now s Q L)
  then show ?case unfolding sched_ok_def queued_def by simp
qed

text \<open>
  C30: Executions of one shard of a task in one window are at least two minutes apart while no Redis
  command fails and Redis keeps its keys, however many leaders trigger it, however often, and
  however many workers race for it; and in every run, failures included, a shard that was queued
  is still in its queue, has been executed, or was lost with a worker that died in between.
\<close>

theorem shards_run_once_per_window:
  assumes "sched_run healthy tasks now s Q L" "\<forall>t \<in> set tasks. plain (tk_name t)"
  shows "(healthy \<and> i < j \<and> j < length (sx_done s) \<and> sx_done s ! i = (d, t) \<and> sx_done s ! j = (d, u) \<longrightarrow> t + 120000 \<le> u) \<and>
    (e \<in> Q \<longrightarrow> Some e \<in> set (sx_queue s (queueKey (sd_task e))) \<or> e \<in> fst ` set (sx_done s) \<or> e \<in> L)"
proof -
  from sched_run_ok [OF assms(2,1)] have ok: "sched_ok healthy tasks now s Q L" .
  have "healthy \<Longrightarrow> spaced (sx_done s)" by (rule sched_okD(8) [OF ok])
  moreover have "Q \<subseteq> queued s \<union> fst ` set (sx_done s) \<union> L" by (rule sched_okD(7) [OF ok])
  ultimately show ?thesis by (fastforce simp: spaced_def queued_def lockTTL_def)
qed

definition demo_task :: task where
  "demo_task = \<lparr>tk_name = ''scan'', tk_interval = 30, tk_shards = [''0'']\<rparr>"

definition demo_sched :: sched where
  \<comment> \<open>triggered by two leaders, then taken by two workers\<close>
  "demo_sched = (worker_round True True 60000 ''scan'' ^^ 2) ((trigger (\<lambda>_. True) 60000 demo_task ^^ 2)
     \<lparr>sx_tasks = [demo_task], sx_redis = True, sx_queue = (\<lambda>_. []), sx_lock = (\<lambda>_. None), sx_done = []\<rparr>)"

lemma shards_run_once_per_window_witness:
  "\<lparr>sd_task = ''scan'', sd_window = 2, sd_shard = ''0''\<rparr> \<in> fst ` set (sx_done demo_sched)"
proof -
  let ?d = "\<lparr>sd_task = ''scan'', sd_window = 2, sd_shard = ''0''\<rparr>"
  let ?s0 = "\<lparr>sx_tasks = [demo_task], sx_redis = True, sx_queue = (\<lambda>_. []), sx_lock = (\<lambda>_. None), sx_done = []\<rparr>"
  have d: "?d = \<lparr>sd_task = tk_name demo_task, sd_window = window_of 60000 demo_task, sd_shard = ''0''\<rparr>"
    by (simp add: demo_task_def window_of_def)
  have t: "trigger (\<lambda>_. True) 60000 demo_task s = trigger_shard (\<lambda>_. True) 60000 demo_task ''0'' s" for s
    by (simp add: trigger_def demo_task_def)
  have step: "sched_run True [demo_task] 60000 (trigger (\<lambda>_. True) 60000 demo_task s) (insert ?d Q) {}"
    if "sched_run True [demo_task] 60000 s Q {}" for s Q
    unfolding t using sched_run.trigger [OF that _ _ d, of "\<lambda>_. True"] by simp
  have "sched_run True [demo_task] 60000 ?s0 {} {}" by (rule sched_run.start)
  from step [OF step [OF this]]
  have "sched_run True [demo_task] 60000 ((trigger (\<lambda>_. True) 60000 demo_task ^^ 2) ?s0) {?d} {}"
    by (simp add: numeral_2_eq_2)
  from sched_run.work [OF sched_run.work [OF this, of True True "''scan''"], of True True "''scan''"]
  have run: "sched_run True [demo_task] 60000 demo_sched {?d} {}"
    by (simp add: demo_sched_def numeral_2_eq_2)
  have "sx_queue demo_sched (queueKey ''scan'') = []"
    by (simp add: demo_sched_def numeral_2_eq_2 trigger_def trigger_shard_def worker_round_def pop_def claim_def set_nx_def
        demo_task_def Let_def runTask_def window_of_def queueKey_def)
  with shards_run_once_per_window [OF run, where e = ?d] show ?thesis
    by (auto simp: demo_task_def plain_def)
qed

end
