(* ===== verification/Config.thy ===== *)
theory Config
  imports Prelude
begin

text \<open>
  The configuration all services share (\<open>internal/config/config.go\<close>): \<open>Load\<close> reads the
  environment, with a default for every variable that is unset or empty.
\<close>

record Config =
  HTTPAddr :: string
  GRPCAddr :: string
  CometTCP :: string
  MySQLDSN :: string
  RedisAddrs :: "string list"
  EtcdEndpoints :: "string list"
  MessageRPCAddr :: string
  SeqRPCAddr :: string
  CometRPCAddr :: string
  LogicRPCAddr :: string
  RelationRPCAddr :: string
  FilesDir :: string
  MaxAvatarBytes :: int
  MaxImageBytes :: int
  MaxUploadBytes :: int
  TLSCert :: string
  TLSKey :: string
  JWTSecret :: string
  AuthMode :: string
  OTelEndpoint :: string
  KafkaBrokers :: "string list"
  SeqStep :: int

type_synonym environment = "string \<Rightarrow> string"  \<comment> \<open>\<open>os.Getenv\<close>: empty if unset\<close>

definition envOr :: "environment \<Rightarrow> string \<Rightarrow> string \<Rightarrow> string" where
  "envOr env key d = (if env key \<noteq> [] then env key else d)"

definition broker_list :: "string \<Rightarrow> string list" where
  "broker_list v = (if v = [] then [] else filter (\<lambda>b. b \<noteq> []) (map trim_space (split_on CHR '','' v)))"

definition Load :: "environment \<Rightarrow> string + Config" where
  "Load env =
     (case parse_int (envOr env ''YIM_MAX_AVATAR_BYTES'' ''2097152'') of
        None \<Rightarrow> Inl ''YIM_MAX_AVATAR_BYTES''
      | Some maxAvatar \<Rightarrow>
          (case parse_int (envOr env ''YIM_MAX_IMAGE_BYTES'' ''10485760'') of
             None \<Rightarrow> Inl ''YIM_MAX_IMAGE_BYTES''
           | Some maxImage \<Rightarrow>
               (case parse_int (envOr env ''YIM_SEQ_STEP'' ''10000'') of
                  None \<Rightarrow> Inl ''YIM_SEQ_STEP''
                | Some step \<Rightarrow> Inr \<lparr>
                    HTTPAddr = envOr env ''YIM_HTTP_ADDR'' '':8080'',
                    GRPCAddr = envOr env ''YIM_GRPC_ADDR'' '':9000'',
                    CometTCP = envOr env ''YIM_COMET_TCP'' '':8900'',
                    MySQLDSN = envOr env ''YIM_MYSQL_DSN''
                      ''root:root@tcp(127.0.0.1:3307)/yim?charset=utf8mb4&parseTime=true&loc=Local'',
                    RedisAddrs = [envOr env ''YIM_REDIS_ADDR'' ''127.0.0.1:6379''],
                    EtcdEndpoints = [envOr env ''YIM_ETCD_ENDPOINTS'' ''127.0.0.1:2379''],
                    MessageRPCAddr = envOr env ''YIM_MESSAGE_RPC_ADDR'' '':9001'',
                    SeqRPCAddr = envOr env ''YIM_SEQ_RPC_ADDR'' '':9002'',
                    CometRPCAddr = envOr env ''YIM_COMET_RPC_ADDR'' '':9003'',
                    LogicRPCAddr = envOr env ''YIM_LOGIC_RPC_ADDR'' '':9004'',
                    RelationRPCAddr = envOr env ''YIM_RELATION_RPC_ADDR'' '':9005'',
                    FilesDir = envOr env ''YIM_FILES_DIR'' ''./data/files'',
                    MaxAvatarBytes = maxAvatar,
                    MaxImageBytes = maxImage,
                    MaxUploadBytes = sint (word_of_int (maxImage + 64 * 1024) :: 64 word),
                    TLSCert = env ''YIM_TLS_CERT'',
                    TLSKey = env ''YIM_TLS_KEY'',
                    JWTSecret = envOr env ''YIM_JWT_SECRET'' ''dev-secret-do-not-use-in-prod'',
                    AuthMode = envOr env ''YIM_AUTH_MODE'' ''dev'',
                    OTelEndpoint = envOr env ''YIM_OTEL_ENDPOINT'' ''127.0.0.1:4317'',
                    KafkaBrokers = broker_list (env ''YIM_KAFKA_BROKERS''),
                    SeqStep = step\<rparr>)))"

lemma envOr_not_Nil: "d \<noteq> [] \<Longrightarrow> envOr env key d \<noteq> []"
  by (simp add: envOr_def)

lemma Load_FilesDir: "Load env = Inr c \<Longrightarrow> FilesDir c \<noteq> []"
  by (auto simp: Load_def envOr_not_Nil split: option.splits)

lemma Load_brokers: "Load env = Inr c \<Longrightarrow> b \<in> set (KafkaBrokers c) \<Longrightarrow> b \<noteq> []"
  by (auto simp: Load_def broker_list_def split: option.splits if_splits)

end
