(* ===== verification/Files.thy ===== *)
theory Files
  imports GatewaySafety Config
begin

text \<open>
  Uploaded images (\<open>cmd/yimd/files.go\<close>): recognising the type by its first bytes, storing under the
  hash of the content, and the public read of \<open>/files\<close>. The file system is a map from cleaned paths
  to contents; SHA-1 is a parameter. With these routes the gateway is complete: a request through it
  and the relation service changes the relations of its own user only.
\<close>

subsection \<open>Paths\<close>

type_synonym path = "bool \<times> string list"  \<comment> \<open>a cleaned path: rooted, and its components\<close>
type_synonym files = "path \<Rightarrow> string option"

fun clean_parts :: "bool \<Rightarrow> string list \<Rightarrow> string list \<Rightarrow> string list" where
  "clean_parts rooted acc [] = rev acc"
| "clean_parts rooted acc (x # xs) =
     (if x = [] \<or> x = ''.'' then clean_parts rooted acc xs
      else if x = ''..'' then
        (case acc of
           [] \<Rightarrow> clean_parts rooted (if rooted then [] else [x]) xs
         | y # ys \<Rightarrow> clean_parts rooted (if y = ''..'' then x # acc else ys) xs)
      else clean_parts rooted (x # acc) xs)"

definition Clean :: "string \<Rightarrow> path" where
  \<comment> \<open>\<open>filepath.Clean\<close>\<close>
  "Clean p = (has_prefix ''/'' p, clean_parts (has_prefix ''/'' p) [] (split_on CHR ''/'' p))"

definition Join :: "string \<Rightarrow> string \<Rightarrow> path" where
  \<comment> \<open>\<open>filepath.Join\<close> of two elements that are not empty\<close>
  "Join dir p = Clean (dir @ ''/'' @ p)"

definition hex_char :: "char \<Rightarrow> bool" where
  "hex_char c \<longleftrightarrow> c \<in> set ''0123456789abcdef''"

definition static_path_ok :: "string \<Rightarrow> bool" where
  \<comment> \<open>\<open>staticPathRe\<close>\<close>
  "static_path_ok p \<longleftrightarrow>
     (case split_on CHR ''/'' (if has_prefix ''/'' p then tl p else p) of
        [d, b, f] \<Rightarrow>
          (d = ''avatar'' \<or> d = ''img'') \<and> length b = 2 \<and> list_all hex_char b \<and>
          length (take 40 f) = 40 \<and> list_all hex_char (take 40 f) \<and> drop 40 f \<in> {''.png'', ''.jpg'', ''.webp''}
      | _ \<Rightarrow> False)"

subsection \<open>Storing an image\<close>

definition avatarExtByMagic :: "(string \<times> string) list" where
  "avatarExtByMagic = [
     ([CHR 0x89, CHR ''P'', CHR ''N'', CHR ''G'', CHR 0x0D, CHR 0x0A, CHR 0x1A, CHR 0x0A], ''png''),
     ([CHR 0xFF, CHR 0xD8, CHR 0xFF], ''jpg''), (''RIFF'', ''webp'')]"

fun sniff :: "(string \<times> string) list \<Rightarrow> string \<Rightarrow> string" where
  \<comment> \<open>the loop over the magic numbers in the order the map iteration takes; empty: no type\<close>
  "sniff [] buf = []"
| "sniff ((magic, e) # ms) buf =
     (if has_prefix magic buf \<and> \<not> (e = ''webp'' \<and> (length buf < 12 \<or> take 4 (drop 8 buf) \<noteq> ''WEBP''))
      then e else sniff ms buf)"

definition hex_digit :: "nat \<Rightarrow> char" where
  "hex_digit n = ''0123456789abcdef'' ! n"

fun hex_encode :: "string \<Rightarrow> string" where
  "hex_encode [] = []"
| "hex_encode (c # cs) = hex_digit (of_char c div 16) # hex_digit (of_char c mod 16) # hex_encode cs"

record store_env =
  so_sha1 :: "string \<Rightarrow> string"
  so_order :: "(string \<times> string) list"
  so_mkdir :: "string option"
  so_write :: "(string \<times> nat) option"  \<comment> \<open>the error of \<open>WriteFile\<close> and the bytes that reached the file\<close>

definition image_path :: "string \<Rightarrow> string \<Rightarrow> string \<Rightarrow> string" where
  \<comment> \<open>\<open>/subdir/ab/abcdef...ext\<close>\<close>
  "image_path subdir name ext = ''/'' @ subdir @ ''/'' @ take 2 name @ ''/'' @ name @ ''.'' @ ext"

definition storeImage :: "store_env \<Rightarrow> string \<Rightarrow> string \<Rightarrow> string \<Rightarrow> int \<Rightarrow> files \<Rightarrow> (string + string) \<times> files" where
  "storeImage env dir subdir src sz fs =
     (if sz \<le> 0 then (Inl ''empty file'', fs)
      else if int (length src) < sz then (Inl ''read upload: unexpected EOF'', fs)
      else
        (let buf = take (nat sz) src; ext = sniff (so_order env) buf
         in if ext = [] then (Inl ''unsupported image type (png/jpeg/webp only)'', fs)
            else
              (let name = hex_encode (so_sha1 env buf);
                   rel = ''/files'' @ image_path subdir name ext;
                   file = Join dir (image_path subdir name ext)
               in case so_mkdir env of
                    Some e \<Rightarrow> (Inl (''mkdir: '' @ e), fs)
                  | None \<Rightarrow>
                      if fs file \<noteq> None then (Inr rel, fs)
                      else case so_write env of
                          Some (e, n) \<Rightarrow> (Inl (''write: '' @ e), fs(file \<mapsto> take n buf))
                        | None \<Rightarrow> (Inr rel, fs(file \<mapsto> buf)))))"

subsection \<open>The routes\<close>

record form =
  fo_length :: int  \<comment> \<open>\<open>Content-Length\<close>, -1 if the header is missing\<close>
  fo_file :: "(int \<times> string) option"  \<comment> \<open>the part \<open>file\<close>: its size and its bytes\<close>
  fo_open :: bool

datatype uploaded = TooLarge | NoFile | GotFile int string

definition uploadFile :: "Config \<Rightarrow> int \<Rightarrow> form \<Rightarrow> uploaded" where
  "uploadFile cfg maxFileBytes f =
     (if MaxUploadBytes cfg < fo_length f then TooLarge
      else case fo_file f of
          None \<Rightarrow> NoFile
        | Some (sz, src) \<Rightarrow> if maxFileBytes < sz then TooLarge else GotFile sz src)"

definition stored_upload :: "Config \<Rightarrow> store_env \<Rightarrow> string \<Rightarrow> int \<Rightarrow> form \<Rightarrow> files \<Rightarrow> (http_rsp + string \<times> int) \<times> files" where
  \<comment> \<open>what both upload routes do before their own answer: the URL and the size\<close>
  "stored_upload cfg env subdir maxFileBytes f fs =
     (case uploadFile cfg maxFileBytes f of
        TooLarge \<Rightarrow> (Inl (writeErr 413 ''file too large''), fs)
      | NoFile \<Rightarrow> (Inl (writeErr 400 ''multipart field 'file' required''), fs)
      | GotFile sz src \<Rightarrow>
          if \<not> fo_open f then (Inl (writeErr 400 ''cannot read upload''), fs)
          else (case storeImage env (FilesDir cfg) subdir src sz fs of
              (Inl e, fs') \<Rightarrow> (Inl (writeErr 400 e), fs')
            | (Inr url, fs') \<Rightarrow> (Inr (url, sz), fs')))"

definition post_avatar :: "Config \<Rightarrow> store_env \<Rightarrow> uid \<Rightarrow> form \<Rightarrow> files \<Rightarrow> decision \<times> files" where
  "post_avatar cfg env uid f fs =
     (case stored_upload cfg env ''avatar'' (MaxAvatarBytes cfg) f fs of
        (Inl rsp, fs') \<Rightarrow> (Reject rsp, fs')
      | (Inr (url, _), fs') \<Rightarrow>
          (Forward (ToRelation (UpdateProfileReq uid [] url)) (reply_checked 400 ''save avatar failed''), fs'))"

definition post_image :: "Config \<Rightarrow> store_env \<Rightarrow> form \<Rightarrow> files \<Rightarrow> http_rsp \<times> files" where
  "post_image cfg env f fs =
     (case stored_upload cfg env ''img'' (MaxImageBytes cfg) f fs of
        (Inl rsp, fs') \<Rightarrow> (rsp, fs')
      | (Inr (url, sz), fs') \<Rightarrow> (\<lparr>hr_status = 200, hr_body = JsonBody url sz\<rparr>, fs'))"

definition get_static :: "Config \<Rightarrow> string \<Rightarrow> files \<Rightarrow> http_rsp" where
  \<comment> \<open>\<open>c.File\<close> of the framework answers a missing file with its own 404\<close>
  "get_static cfg p fs =
     (if \<not> static_path_ok p then writeErr 404 ''not found''
      else case fs (Join (FilesDir cfg) p) of
          None \<Rightarrow> writeErr 404 ''''
        | Some c \<Rightarrow> \<lparr>hr_status = 200, hr_body = FileBody c\<rparr>)"

subsection \<open>Names and paths\<close>

lemma length_hex_encode [simp]: "length (hex_encode s) = 2 * length s"
  by (induction s) auto

lemma hex_digit_char: "n < 16 \<Longrightarrow> hex_char (hex_digit n)"
  unfolding hex_char_def hex_digit_def by (rule nth_mem) simp

lemma hex_digit_inj: "m < 16 \<Longrightarrow> n < 16 \<Longrightarrow> hex_digit m = hex_digit n \<longleftrightarrow> m = n"
  unfolding hex_digit_def by (rule nth_eq_iff_index_eq) simp_all

lemma byte_halves: "(of_char c :: nat) div 16 < 16" "(of_char c :: nat) mod 16 < 16"
  using byte_lt [of c] by (simp_all add: byte_def less_mult_imp_div_less)

lemma hex_encode_chars: "list_all hex_char (hex_encode s)"
  by (induction s) (simp_all add: hex_digit_char byte_halves)

lemma hex_encode_inj: "hex_encode s = hex_encode t \<longleftrightarrow> s = t"
proof (induction s arbitrary: t)
  case Nil
  then show ?case by (cases t) auto
next
  case (Cons c s)
  have "c = d" if "(of_char c :: nat) div 16 = of_char d div 16" "(of_char c :: nat) mod 16 = of_char d mod 16" for d
  proof -
    have "(of_char c :: nat) = of_char d" using that by (metis div_mult_mod_eq)
    then show ?thesis by simp
  qed
  with Cons show ?case by (cases t) (auto simp: hex_digit_inj byte_halves)
qed

lemma split_on_join: "split_on c (a @ c # s) = split_on c a @ split_on c s"
  by (induction a) (auto split: list.splits)

lemma clean_parts_append: "clean_parts r acc (xs @ ys) = clean_parts r (rev (clean_parts r acc xs)) ys"
  by (induction r acc xs rule: clean_parts.induct) (auto split: list.splits)

definition plain_part :: "string \<Rightarrow> bool" where
  "plain_part x \<longleftrightarrow> x \<noteq> [] \<and> x \<noteq> ''.'' \<and> x \<noteq> ''..''"

lemma clean_parts_plain: "list_all plain_part xs \<Longrightarrow> clean_parts r acc xs = rev acc @ xs"
  by (induction xs arbitrary: acc) (auto simp: plain_part_def)

lemma Join_plain:
  assumes "dir \<noteq> []" "split_on CHR ''/'' p = xs \<or> split_on CHR ''/'' p = [] # xs" "list_all plain_part xs"
  shows "Join dir p = (fst (Clean dir), snd (Clean dir) @ xs)"
proof -
  have pre: "has_prefix ''/'' (dir @ CHR ''/'' # p) = has_prefix ''/'' dir"
    using assms(1) by (cases dir) (auto simp: has_prefix_iff)
  have "clean_parts r acc (split_on CHR ''/'' p) = rev acc @ xs" for r acc
    using assms(2) clean_parts_plain [OF assms(3)] by auto
  then show ?thesis
    by (simp add: Join_def Clean_def pre split_on_join clean_parts_append)
qed

lemma hex_plain: "list_all hex_char x \<Longrightarrow> x \<noteq> [] \<Longrightarrow> plain_part x"
  by (cases x) (auto simp: plain_part_def hex_char_def)

lemma long_plain: "2 < length x \<Longrightarrow> plain_part x"
  by (auto simp: plain_part_def)

lemma static_path_parts:
  assumes "static_path_ok p"
  obtains d b f where "split_on CHR ''/'' p = [d, b, f] \<or> split_on CHR ''/'' p = [] # [d, b, f]"
    "list_all plain_part [d, b, f]" "d = ''avatar'' \<or> d = ''img''" "length b = 2" "40 < length f"
proof -
  obtain d b f where s: "split_on CHR ''/'' (if has_prefix ''/'' p then tl p else p) = [d, b, f]"
    and ok: "d = ''avatar'' \<or> d = ''img''" "length b = 2" "list_all hex_char b" "length (take 40 f) = 40"
      "drop 40 f \<in> {''.png'', ''.jpg'', ''.webp''}"
    using assms unfolding static_path_ok_def by (auto split: list.splits)
  have len: "40 < length f" using ok(5) by (cases "40 < length f") auto
  have "split_on CHR ''/'' p = [d, b, f] \<or> split_on CHR ''/'' p = [] # [d, b, f]"
    using s by (cases p) (auto simp: has_prefix_iff split: if_splits)
  moreover have "list_all plain_part [d, b, f]"
    using ok len hex_plain [of b] by (cases b) (auto intro: long_plain)
  ultimately show thesis using that ok(1,2) len by blast
qed

text \<open>
  The public read stays inside the directory of uploads: whatever path is asked for, a file whose
  content is answered lies three components below the configured directory, in \<open>avatar\<close> or in
  \<open>img\<close>.
\<close>

theorem static_read_stays_inside:
  assumes "FilesDir cfg \<noteq> []" "get_static cfg p fs = \<lparr>hr_status = 200, hr_body = FileBody c\<rparr>"
  shows "\<exists>d b f. fs (fst (Clean (FilesDir cfg)), snd (Clean (FilesDir cfg)) @ [d, b, f]) = Some c \<and>
    d \<in> {''avatar'', ''img''} \<and> list_all plain_part [d, b, f]"
proof -
  have ok: "static_path_ok p" and c: "fs (Join (FilesDir cfg) p) = Some c"
    using assms(2) by (auto simp: get_static_def writeErr_def split: if_splits option.splits)
  obtain d b f where s: "split_on CHR ''/'' p = [d, b, f] \<or> split_on CHR ''/'' p = [] # [d, b, f]"
    and pl: "list_all plain_part [d, b, f]" and d: "d = ''avatar'' \<or> d = ''img''"
    using static_path_parts [OF ok] by blast
  show ?thesis
    using c Join_plain [OF assms(1) s pl] d pl by (intro exI [of _ d] exI [of _ b] exI [of _ f]) simp
qed

subsection \<open>A stored image is served\<close>

definition magic_hit :: "string \<Rightarrow> string \<times> string \<Rightarrow> bool" where
  "magic_hit buf m \<longleftrightarrow> has_prefix (fst m) buf \<and>
     \<not> (snd m = ''webp'' \<and> (length buf < 12 \<or> take 4 (drop 8 buf) \<noteq> ''WEBP''))"

lemma sniff_step: "sniff (m # ms) buf = (if magic_hit buf m then snd m else sniff ms buf)"
  by (cases m) (simp only: sniff.simps magic_hit_def fst_conv snd_conv)

lemma sniff_hit: "sniff ms buf = (case find (magic_hit buf) ms of None \<Rightarrow> [] | Some m \<Rightarrow> snd m)"
proof (induction ms)
  case (Cons m ms)
  then show ?case by (simp only: sniff_step find.simps split: if_split) simp
qed simp

lemma magic_head:
  assumes "m \<in> set avatarExtByMagic" "magic_hit buf m"
  shows "hd (fst m) = hd buf"
proof -
  have "fst m \<noteq> []" using assms(1) by (auto simp: avatarExtByMagic_def)
  then show ?thesis using assms(2) by (auto simp: magic_hit_def has_prefix_iff)
qed

lemma magic_unique:
  assumes "m \<in> set avatarExtByMagic" "m' \<in> set avatarExtByMagic" "magic_hit buf m" "magic_hit buf m'"
  shows "m = m'"
proof -
  have "inj_on (hd \<circ> fst) (set avatarExtByMagic)" by (simp add: avatarExtByMagic_def)
  then show ?thesis using assms magic_head [of m buf] magic_head [of m' buf] by (simp add: inj_on_def)
qed

lemma sniff_order:
  assumes "set order = set avatarExtByMagic"
  shows "sniff order buf = sniff avatarExtByMagic buf"
proof (cases "find (magic_hit buf) order")
  case None
  then have "find (magic_hit buf) avatarExtByMagic = None" using assms by (auto simp: find_None_iff)
  with None show ?thesis by (simp only: sniff_hit)
next
  case (Some m)
  then have m: "m \<in> set avatarExtByMagic" "magic_hit buf m"
    using assms by (auto simp: find_Some_iff)
  then have "find (magic_hit buf) avatarExtByMagic \<noteq> None" unfolding find_None_iff by blast
  then obtain m' where m': "find (magic_hit buf) avatarExtByMagic = Some m'" by blast
  then have "m' \<in> set avatarExtByMagic" "magic_hit buf m'" by (auto simp: find_Some_iff)
  with m magic_unique have "m' = m" by blast
  with Some m' show ?thesis by (simp only: sniff_hit)
qed

lemma sniff_exts: "sniff avatarExtByMagic buf \<noteq> [] \<Longrightarrow> sniff avatarExtByMagic buf \<in> {''png'', ''jpg'', ''webp''}"
  by (auto simp: avatarExtByMagic_def split: if_splits)

definition image_kind :: "string \<Rightarrow> string \<Rightarrow> bool" where
  "image_kind sub e \<longleftrightarrow> sub \<in> {''avatar'', ''img''} \<and> e \<in> {''png'', ''jpg'', ''webp''}"

lemma hex_no_slash: "CHR ''/'' \<notin> set (hex_encode s)"
  using hex_encode_chars [of s] by (auto simp: list_all_iff hex_char_def)

lemma image_path_split:
  assumes "image_kind sub e"
  shows "split_on CHR ''/'' (image_path sub (hex_encode s) e) =
    [[], sub, take 2 (hex_encode s), hex_encode s @ ''.'' @ e]"
proof -
  have "CHR ''/'' \<notin> set sub" "CHR ''/'' \<notin> set (hex_encode s @ CHR ''.'' # e)" "CHR ''/'' \<notin> set (take 2 (hex_encode s))"
    using assms hex_no_slash [of s] by (auto simp: image_kind_def dest: in_set_takeD)
  then show ?thesis by (simp add: image_path_def split_on_append split_on_no_sep)
qed

lemma image_path_ok:
  assumes "image_kind sub e" "length s = 20"
  shows "static_path_ok (image_path sub (hex_encode s) e)" "static_path_ok (tl (image_path sub (hex_encode s) e))"
proof -
  let ?p = "image_path sub (hex_encode s) e"
  have p: "?p = CHR ''/'' # tl ?p" by (simp add: image_path_def)
  then have t: "split_on CHR ''/'' (tl ?p) = [sub, take 2 (hex_encode s), hex_encode s @ ''.'' @ e]"
    using image_path_split [OF assms(1), of s] by (metis list.inject split_on.simps(2))
  have rest: "list_all hex_char (take 2 (hex_encode s))"
    using hex_encode_chars [of s] by (auto simp: list_all_iff dest: in_set_takeD)
  have "\<not> has_prefix ''/'' (tl ?p)"
    using assms(1) by (auto simp: image_path_def image_kind_def has_prefix_iff)
  moreover have "has_prefix ''/'' ?p" by (simp add: image_path_def has_prefix_iff)
  ultimately show "static_path_ok ?p" "static_path_ok (tl ?p)"
    using assms rest hex_encode_chars [of s] by (auto simp: static_path_ok_def t image_kind_def)
qed

lemma image_join:
  assumes "dir \<noteq> []" "image_kind sub e" "length s = 20"
    and "q = image_path sub (hex_encode s) e \<or> q = tl (image_path sub (hex_encode s) e)"
  shows "Join dir q = (fst (Clean dir), snd (Clean dir) @ [sub, take 2 (hex_encode s), hex_encode s @ ''.'' @ e])"
proof (rule Join_plain [OF assms(1)])
  have p: "image_path sub (hex_encode s) e = CHR ''/'' # tl (image_path sub (hex_encode s) e)" by (simp add: image_path_def)
  show "split_on CHR ''/'' q = [sub, take 2 (hex_encode s), hex_encode s @ ''.'' @ e] \<or>
      split_on CHR ''/'' q = [] # [sub, take 2 (hex_encode s), hex_encode s @ ''.'' @ e]"
    using assms(4) image_path_split [OF assms(2), of s] p by (metis list.inject split_on.simps(2))
  have "list_all hex_char (take 2 (hex_encode s))"
    using hex_encode_chars [of s] by (auto simp: list_all_iff dest: in_set_takeD)
  moreover have "take 2 (hex_encode s) \<noteq> []" using assms(3) by (cases s) auto
  ultimately have "plain_part (take 2 (hex_encode s))" by (rule hex_plain)
  then show "list_all plain_part [sub, take 2 (hex_encode s), hex_encode s @ ''.'' @ e]"
    using assms(2,3) by (auto simp: image_kind_def intro: long_plain)
qed

definition intact :: "(string \<Rightarrow> string) \<Rightarrow> string \<Rightarrow> files \<Rightarrow> bool" where
  \<comment> \<open>a file under an image name holds a content with that hash\<close>
  "intact sha1 dir fs \<longleftrightarrow> (\<forall>sub e x c. image_kind sub e \<and>
     fs (Join dir (image_path sub (hex_encode (sha1 x)) e)) = Some c \<longrightarrow> sha1 c = sha1 x)"

definition image_url :: "store_env \<Rightarrow> string \<Rightarrow> string \<Rightarrow> string" where
  "image_url env sub buf = image_path sub (hex_encode (so_sha1 env buf)) (sniff avatarExtByMagic buf)"

lemma storeImage_ok:
  assumes "set (so_order env) = set avatarExtByMagic" "storeImage env dir sub src sz fs = (Inr url, fs')"
  shows "sniff avatarExtByMagic (take (nat sz) src) \<noteq> []"
    and "url = ''/files'' @ image_url env sub (take (nat sz) src)"
    and "fs' = fs \<and> fs (Join dir (image_url env sub (take (nat sz) src))) \<noteq> None \<or>
      fs (Join dir (image_url env sub (take (nat sz) src))) = None \<and>
      fs' = fs(Join dir (image_url env sub (take (nat sz) src)) \<mapsto> take (nat sz) src)"
  using assms(2)
  by (auto simp: storeImage_def Let_def sniff_order [OF assms(1)] image_url_def split: if_splits option.splits)

lemma image_address:
  assumes "dir \<noteq> []" "image_kind sub e" "image_kind sub' e'" "length s = 20" "length s' = 20"
    and "Join dir (image_path sub (hex_encode s) e) = Join dir (image_path sub' (hex_encode s') e')"
  shows "s = s'"
proof -
  have "hex_encode s @ ''.'' @ e = hex_encode s' @ ''.'' @ e'"
    using assms(6) image_join [OF assms(1,2,4) disjI1 [OF refl]] image_join [OF assms(1,3,5) disjI1 [OF refl]] by simp
  then have "hex_encode s = hex_encode s'" using assms(4,5) by (metis append_eq_append_conv length_hex_encode)
  then show ?thesis by (simp add: hex_encode_inj)
qed

lemma intact_store:
  assumes "dir \<noteq> []" "\<And>x. length (so_sha1 env x) = 20" "set (so_order env) = set avatarExtByMagic"
    and "sub \<in> {''avatar'', ''img''}" "intact (so_sha1 env) dir fs"
    and "storeImage env dir sub src sz fs = (Inr url, fs')"
  shows "intact (so_sha1 env) dir fs'"
proof -
  let ?buf = "take (nat sz) src" and ?h = "so_sha1 env" and ?p = "image_url env sub (take (nat sz) src)"
  note st = storeImage_ok [OF assms(3,6)]
  have kind: "image_kind sub (sniff avatarExtByMagic ?buf)" using sniff_exts st(1) assms(4) by (auto simp: image_kind_def)
  show ?thesis
    using st(3)
  proof
    assume new: "fs (Join dir ?p) = None \<and> fs' = fs(Join dir ?p \<mapsto> ?buf)"
    have "?h c = ?h x" if "image_kind s e" "fs' (Join dir (image_path s (hex_encode (?h x)) e)) = Some c" for s e x c
    proof (cases "Join dir (image_path s (hex_encode (?h x)) e) = Join dir ?p")
      case True
      then have "?h x = ?h ?buf"
        using image_address [OF assms(1) that(1) kind assms(2) assms(2)] by (simp add: image_url_def)
      with True that(2) new show ?thesis by simp
    next
      case False
      with that new assms(5) show ?thesis by (auto simp: intact_def)
    qed
    then show ?thesis by (auto simp: intact_def)
  qed (use assms(5) in simp)
qed

lemma storeImage_fails: "storeImage env dir sub src sz fs = (Inl e, fs') \<Longrightarrow> so_write env = None \<Longrightarrow> fs' = fs"
  by (auto simp: storeImage_def Let_def split: if_splits option.splits)

inductive uploads :: "(string \<Rightarrow> string) \<Rightarrow> string \<Rightarrow> files \<Rightarrow> bool" for sha1 dir where
  start: "(\<And>sub e x. image_kind sub e \<Longrightarrow> fs (Join dir (image_path sub (hex_encode (sha1 x)) e)) = None) \<Longrightarrow>
    uploads sha1 dir fs"
  \<comment> \<open>a directory without images\<close>
| store: "uploads sha1 dir fs \<Longrightarrow> so_sha1 env = sha1 \<Longrightarrow> set (so_order env) = set avatarExtByMagic \<Longrightarrow>
    sub \<in> {''avatar'', ''img''} \<Longrightarrow> so_write env = None \<Longrightarrow> storeImage env dir sub src sz fs = (res, fs') \<Longrightarrow>
    uploads sha1 dir fs'"
  \<comment> \<open>any upload, refused or stored, but no write that breaks off\<close>

lemma uploads_intact:
  assumes "uploads sha1 dir fs" "dir \<noteq> []" "\<And>x. length (sha1 x) = 20"
  shows "intact sha1 dir fs"
  using assms(1)
proof (induction rule: uploads.induct)
  case (start fs)
  show ?case unfolding intact_def using start by (metis option.distinct(1))
next
  case (store fs env sub src sz res fs')
  show ?case
  proof (cases res)
    case (Inl e)
    then show ?thesis using storeImage_fails [of env dir sub src sz fs e fs'] store by simp
  next
    case (Inr url)
    have "intact (so_sha1 env) dir fs'"
      by (rule intact_store [OF assms(2) _ store(3,4), of fs src sz url]) (use store assms(3) Inr in simp_all)
    then show ?thesis using store(2) by simp
  qed
qed

text \<open>
  C39: What is uploaded is what is served: after any sequence of uploads into a directory that held no
  images, refused or stored, in which no write of a file broke off, an upload that succeeds, whatever
  order the type table is searched in, answers a URL that names the hash and the recognised type,
  reading it (with or without the leading slash the router may leave) answers a file with the hash of
  the upload, and no older file changes. After a write that broke off this fails:
  \<open>broken_write_poisons_image\<close>.
\<close>

theorem stored_image_is_served:
  assumes "FilesDir cfg \<noteq> []" "\<And>x. length (so_sha1 env x) = 20" "set (so_order env) = set avatarExtByMagic"
    and "sub \<in> {''avatar'', ''img''}" "uploads (so_sha1 env) (FilesDir cfg) fs"
    and "storeImage env (FilesDir cfg) sub src sz fs = (Inr url, fs')"
  shows "\<exists>p c. url = ''/files'' @ p \<and> p = image_url env sub (take (nat sz) src) \<and>
    get_static cfg p fs' = \<lparr>hr_status = 200, hr_body = FileBody c\<rparr> \<and>
    get_static cfg (tl p) fs' = \<lparr>hr_status = 200, hr_body = FileBody c\<rparr> \<and>
    so_sha1 env c = so_sha1 env (take (nat sz) src) \<and> fs \<subseteq>\<^sub>m fs'"
proof -
  let ?buf = "take (nat sz) src" and ?dir = "FilesDir cfg" and ?p = "image_url env sub (take (nat sz) src)"
  note st = storeImage_ok [OF assms(3,6)]
  have kind: "image_kind sub (sniff avatarExtByMagic ?buf)" using sniff_exts st(1) assms(4) by (auto simp: image_kind_def)
  have tl: "Join ?dir (tl ?p) = Join ?dir ?p"
    unfolding image_url_def
    using image_join [OF assms(1) kind assms(2) disjI1 [OF refl]] image_join [OF assms(1) kind assms(2) disjI2 [OF refl]]
    by simp
  have "intact (so_sha1 env) ?dir fs'"
    using intact_store [OF assms(1-4) uploads_intact [OF assms(5,1,2)] assms(6)] .
  moreover obtain c where c: "fs' (Join ?dir ?p) = Some c" using st(3) by auto
  ultimately have "so_sha1 env c = so_sha1 env ?buf" using kind by (auto simp: intact_def image_url_def)
  moreover have "fs \<subseteq>\<^sub>m fs'" using st(3) by (auto simp: map_le_def)
  ultimately show ?thesis
    using c tl image_path_ok [OF kind assms(2)] st(2)
    by (intro exI [of _ ?p] exI [of _ c]) (simp add: get_static_def image_url_def)
qed

text \<open>
  A failed upload poisons the image: when writing a new file breaks off, the file stays with what
  was written, and uploading the same image again is answered with success although its URL
  serves the cut content; the file is never written again.
\<close>

theorem broken_write_poisons_image:
  assumes "FilesDir cfg \<noteq> []" "length (so_sha1 env buf) = 20" "set (so_order env) = set avatarExtByMagic"
    and "sub \<in> {''avatar'', ''img''}" "sniff avatarExtByMagic buf \<noteq> []" "buf \<noteq> []"
    and "fs (Join (FilesDir cfg) (image_url env sub buf)) = None" "so_mkdir env = None" "n < length buf"
  shows "\<exists>fs'. storeImage (env\<lparr>so_write := Some (e, n)\<rparr>) (FilesDir cfg) sub buf (int (length buf)) fs = (Inl (''write: '' @ e), fs') \<and>
    storeImage (env\<lparr>so_write := None\<rparr>) (FilesDir cfg) sub buf (int (length buf)) fs' = (Inr (''/files'' @ image_url env sub buf), fs') \<and>
    get_static cfg (image_url env sub buf) fs' = \<lparr>hr_status = 200, hr_body = FileBody (take n buf)\<rparr> \<and> take n buf \<noteq> buf"
proof -
  let ?fs = "fs(Join (FilesDir cfg) (image_url env sub buf) \<mapsto> take n buf)"
  have kind: "image_kind sub (sniff avatarExtByMagic buf)" using sniff_exts assms(4,5) by (auto simp: image_kind_def)
  have "take n buf \<noteq> buf" using assms(9) by (metis length_take min_less_iff_conj nat_neq_iff)
  then show ?thesis
    using assms(5-8) image_path_ok(1) [OF kind assms(2)]
    by (intro exI [of _ ?fs])
       (simp add: storeImage_def Let_def sniff_order [OF assms(3)] get_static_def image_url_def)
qed

subsection \<open>The whole gateway\<close>

text \<open>
  The routes of \<open>http.go\<close> and those of \<open>files.go\<close>, behind the same middleware. The multipart form of
  an upload comes parsed.
\<close>

datatype gw_route = Api route | AvatarUpload | ImageUpload | StaticFile

fun gw_matches :: "gw_route \<Rightarrow> http_req \<Rightarrow> bool" where
  "gw_matches (Api r) rq = route_matches r rq"
| "gw_matches AvatarUpload rq = (hq_method rq = ''POST'' \<and> hq_path rq = api ''/files/avatar'')"
| "gw_matches ImageUpload rq = (hq_method rq = ''POST'' \<and> hq_path rq = api ''/files/image'')"
| "gw_matches StaticFile rq = (hq_method rq = ''GET'' \<and> has_prefix ''/files/'' (hq_path rq))"

fun handle_gateway :: "gw_config \<Rightarrow> Config \<Rightarrow> store_env \<Rightarrow> form \<Rightarrow> uid \<Rightarrow> http_req \<Rightarrow> gw_route \<Rightarrow> files \<Rightarrow> decision \<times> files" where
  "handle_gateway cfg fcfg env f u rq (Api r) fs = (handle_route (gc_json cfg) u rq r, fs)"
| "handle_gateway cfg fcfg env f u rq AvatarUpload fs = post_avatar fcfg env u f fs"
| "handle_gateway cfg fcfg env f u rq ImageUpload fs = map_prod Reject id (post_image fcfg env f fs)"
| "handle_gateway cfg fcfg env f u rq StaticFile fs = (Reject (get_static fcfg (hq_param rq ''filepath'') fs), fs)"
  \<comment> \<open>\<open>Reject\<close>: the gateway answers by itself\<close>

definition serve_gateway :: "gw_config \<Rightarrow> Config \<Rightarrow> store_env \<Rightarrow> int \<Rightarrow> form \<Rightarrow> http_req \<Rightarrow> gw_route \<Rightarrow> files \<Rightarrow> decision \<times> files" where
  "serve_gateway cfg fcfg env now f rq g fs =
     (case JWTAuth (gc_crypto cfg) (gc_secret cfg) (gc_dev cfg) now (hq_method rq) (hq_path rq) (hq_auth rq) of
        Unauthorized \<Rightarrow> (Reject (writeErr 401 ''unauthorized''), fs)
      | Proceed who \<Rightarrow> handle_gateway cfg fcfg env f (UID (Proceed who)) rq g fs)"

definition gateway_relation :: "gw_config \<Rightarrow> Config \<Rightarrow> store_env \<Rightarrow> relation_env \<Rightarrow> (relation_rsp \<Rightarrow> string option) \<Rightarrow>
    (rpc_call \<Rightarrow> rpc_answer) \<Rightarrow> bool \<Rightarrow> int \<Rightarrow> form \<Rightarrow> http_req \<Rightarrow> gw_route \<Rightarrow> files \<Rightarrow> rel \<Rightarrow> http_rsp \<times> files \<times> rel" where
  \<comment> \<open>one request with the relation service as modelled; see \<open>serve_relation\<close>\<close>
  "gateway_relation cfg fcfg env renv render others lost now f rq g fs s =
     (case serve_gateway cfg fcfg env now f rq g fs of
        (Reject rsp, fs') \<Rightarrow> (rsp, fs', s)
      | (Forward (ToRelation q) k, fs') \<Rightarrow>
          (let (a, s') = relation_rpc renv q s
           in (k (if lost then None else Some (rsp_error a, render a)), fs', s'))
      | (Forward call k, fs') \<Rightarrow> (k (others call), fs', s))"

lemma serve_gateway_Api: "serve_gateway cfg fcfg env now f rq (Api r) fs = (serve cfg now rq r, fs)"
  by (simp add: serve_gateway_def serve_def split: gateway.split)

lemma uploads_not_public: "gw_matches AvatarUpload rq \<Longrightarrow> \<not> isPublic (hq_method rq) (hq_path rq)"
  by (simp add: isPublic_def api_def has_prefix_iff)

lemma avatar_forwards_own_profile:
  assumes "gw_matches AvatarUpload rq" "serve_gateway cfg fcfg env now f rq AvatarUpload fs = (Forward call k, fs')"
  shows "\<exists>u url. token_user cfg now rq = Some u \<and> call = ToRelation (UpdateProfileReq u [] url)"
proof -
  have np: "\<not> isPublic (hq_method rq) (hq_path rq)" by (rule uploads_not_public [OF assms(1)])
  from assms(2) np obtain u where u: "token_user cfg now rq = Some u" "post_avatar fcfg env u f fs = (Forward call k, fs')"
    by (auto simp: serve_gateway_def JWTAuth_def token_user_def UID_def split: if_splits sum.splits)
  then show ?thesis by (auto simp: post_avatar_def split: sum.splits prod.splits)
qed

text \<open>
  C35: The gateway speaks for the holder of the token: whatever the body, the path, the query and the
  uploaded form say, a call that leaves the gateway, by any route of \<open>http.go\<close> or \<open>files.go\<close>, is a
  registration or a login, or the bearer token was accepted for a user and the call names that user as
  the one who acts (or is one of the three reads that name nobody), and a conversation is created with
  him among its members; a request with any other token, but for the public read of files, ends in
  status 401.
\<close>

theorem forwarded_calls_act_as_token:
  assumes "gw_matches g rq"
  shows "case fst (serve_gateway cfg fcfg env now f rq g fs) of
      Forward call k \<Rightarrow>
        (\<exists>l. call = ToLogic l) \<and> g \<in> {Api PostRegister, Api PostLogin} \<or>
        (\<exists>u. token_user cfg now rq = Some u \<and> (call_actor call = Some u \<or> open_call call) \<and>
          (\<forall>typ us ow nm. call = ToMessage (CreateConvReq typ us ow nm) \<longrightarrow> u \<in> set us))
    | Reject rsp \<Rightarrow>
        g \<notin> {Api PostRegister, Api PostLogin, StaticFile} \<and> token_user cfg now rq = None \<longrightarrow> rsp = writeErr 401 ''unauthorized''"
proof (cases g)
  case (Api r)
  then have "route_matches r rq" using assms by simp
  from api_calls_act_as_token [OF this, of cfg now] show ?thesis by (simp add: Api serve_gateway_Api split: decision.splits)
next
  case AvatarUpload
  obtain d fs1 where D: "serve_gateway cfg fcfg env now f rq g fs = (d, fs1)" by force
  show ?thesis
  proof (cases d)
    case (Forward call k)
    with D AvatarUpload assms show ?thesis
      using avatar_forwards_own_profile [of rq cfg fcfg env now f fs call k fs1] by auto
  next
    case (Reject rsp)
    then show ?thesis using D AvatarUpload uploads_not_public [of rq] assms
      by (auto simp: serve_gateway_def JWTAuth_def token_user_def split: if_splits sum.splits)
  qed
next
  case ImageUpload
  then have "\<not> isPublic (hq_method rq) (hq_path rq)" using assms by (simp add: isPublic_def api_def has_prefix_iff)
  then show ?thesis using ImageUpload
    by (auto simp: serve_gateway_def JWTAuth_def token_user_def split: gateway.splits sum.splits if_splits decision.splits prod.splits)
next
  case StaticFile
  then show ?thesis by (auto simp: serve_gateway_def split: gateway.splits)
qed

lemma gateway_relation_db:
  assumes "gw_matches g rq" "gateway_relation cfg fcfg env renv render others lost now f rq g fs s = (rsp, fs', s')"
  shows "rdb s' = rdb s \<or> (\<exists>u. token_user cfg now rq = Some u \<and> own_change u (rdb s) (rdb s'))"
proof (cases g)
  case (Api r)
  obtain rsp1 s1 where R: "serve_relation cfg renv render others lost now rq r s = (rsp1, s1)" by force
  have "s1 = s'" using assms(2) R
    by (auto simp: gateway_relation_def serve_relation_def serve_gateway_Api Api Let_def
        split: decision.splits rpc_call.splits prod.splits)
  with serve_relation_db [OF _ R] assms(1) Api show ?thesis by simp
next
  case AvatarUpload
  obtain d fs1 where D: "serve_gateway cfg fcfg env now f rq g fs = (d, fs1)" by force
  show ?thesis
  proof (cases d)
    case (Forward call k)
    with D AvatarUpload assms(1) obtain u url where u: "token_user cfg now rq = Some u" "call = ToRelation (UpdateProfileReq u [] url)"
      using avatar_forwards_own_profile [of rq cfg fcfg env now f fs call k fs1] by auto
    then have "rdb s' = rdb (snd (relation_rpc renv (UpdateProfileReq u [] url) s))"
      using assms(2) D Forward by (auto simp: gateway_relation_def split: prod.splits)
    with u relation_rpc_own [where q = "UpdateProfileReq u [] url" and env = renv and s = s] show ?thesis
      by (auto split: option.splits)
  qed (use assms(2) D in \<open>auto simp: gateway_relation_def\<close>)
next
  case ImageUpload
  then show ?thesis using assms(2) by (auto simp: gateway_relation_def serve_gateway_def map_prod_def split: gateway.splits prod.splits)
next
  case StaticFile
  then show ?thesis using assms(2) by (auto simp: gateway_relation_def serve_gateway_def split: gateway.splits prod.splits)
qed

text \<open>
  C38: A request changes only what its user may change: through the gateway, with every route of
  \<open>http.go\<close> and \<open>files.go\<close>, and the relation service, whatever fails, friendships, roles in groups and
  profiles stay as they are unless the token was accepted for a user; then a friendship appears only
  if he is one of the two and the other one had asked for it, only his friendships end, no profile but
  his changes, and a role changes only if it is his own, or in a group he owns, or in a conversation
  that had no members.
\<close>

theorem requests_change_own_relations:
  assumes "gw_matches g rq" "gateway_relation cfg fcfg env renv render others lost now f rq g fs s = (rsp, fs', s')"
  shows "(friends a b (rdb s') \<and> \<not> friends a b (rdb s) \<longrightarrow> (\<exists>u. token_user cfg now rq = Some u \<and>
      (a = u \<and> req_status b u (rdb s) = Some 0 \<or> b = u \<and> req_status a u (rdb s) = Some 0))) \<and>
    (friends a b (rdb s) \<and> \<not> friends a b (rdb s') \<longrightarrow> (\<exists>u. token_user cfg now rq = Some u \<and> u \<in> {a, b})) \<and>
    (role_of c x (rdb s') \<noteq> role_of c x (rdb s) \<longrightarrow> (\<exists>u. token_user cfg now rq = Some u \<and>
      (x = u \<or> role_of c u (rdb s) = Some 1 \<or> (\<forall>y. role_of c y (rdb s) = None)))) \<and>
    (row_get us_uid (users (rdb s')) x \<noteq> row_get us_uid (users (rdb s)) x \<longrightarrow> token_user cfg now rq = Some x)"
  using gateway_relation_db [OF assms]
proof
  assume "rdb s' = rdb s"
  then show ?thesis by simp
next
  assume "\<exists>u. token_user cfg now rq = Some u \<and> own_change u (rdb s) (rdb s')"
  then obtain u where u: "token_user cfg now rq = Some u" and own: "own_change u (rdb s) (rdb s')" by blast
  show ?thesis unfolding u using own by (auto simp: own_change_def)
qed

subsection \<open>A run\<close>

definition demo_png :: string where
  "demo_png = [CHR 0x89, CHR ''P'', CHR ''N'', CHR ''G'', CHR 0x0D, CHR 0x0A, CHR 0x1A, CHR 0x0A] @ ''data''"

definition demo_store :: store_env where
  "demo_store = \<lparr>so_sha1 = (\<lambda>x. take 20 (x @ replicate 20 CHR 0x00)), so_order = rev avatarExtByMagic,
     so_mkdir = None, so_write = None\<rparr>"

lemma demo_config: "\<exists>cfg. Load (\<lambda>_. []) = Inr cfg \<and> FilesDir cfg \<noteq> []"
proof -
  have "\<exists>cfg. Load (\<lambda>_. []) = Inr cfg"
    by (simp add: Load_def envOr_def parse_int_def has_prefix_iff digit_val_def)
  then show ?thesis using Load_FilesDir by blast
qed

lemma demo_store_facts:
  "length (so_sha1 demo_store x) = 20" "set (so_order demo_store) = set avatarExtByMagic"
  "so_mkdir demo_store = None" "so_write demo_store = None"
  "sniff avatarExtByMagic demo_png = ''png''" "length demo_png = 12" "demo_png \<noteq> []"
  subgoal by (simp add: demo_store_def)
  subgoal by (simp only: demo_store_def store_env.simps set_rev)
  by (simp_all add: demo_store_def demo_png_def avatarExtByMagic_def has_prefix_iff)

lemma demo_stores: "storeImage demo_store dir sub demo_png 12 Map.empty =
    (Inr (''/files'' @ image_url demo_store sub demo_png), [Join dir (image_url demo_store sub demo_png) \<mapsto> demo_png])"
  by (simp add: storeImage_def Let_def sniff_order [OF demo_store_facts(2)] demo_store_facts image_url_def)

lemma stored_image_is_served_witness:
  "\<exists>cfg p c fs'. Load (\<lambda>_. []) = Inr cfg \<and>
     storeImage demo_store (FilesDir cfg) ''img'' demo_png 12 Map.empty = (Inr (''/files'' @ p), fs') \<and>
     get_static cfg p fs' = \<lparr>hr_status = 200, hr_body = FileBody c\<rparr> \<and> so_sha1 demo_store c = so_sha1 demo_store demo_png"
proof -
  obtain cfg where cfg: "Load (\<lambda>_. []) = Inr cfg" "FilesDir cfg \<noteq> []" using demo_config by blast
  have i: "uploads (so_sha1 demo_store) (FilesDir cfg) Map.empty" by (rule uploads.start) simp
  from stored_image_is_served [OF cfg(2) demo_store_facts(1,2) _ i demo_stores, of "''img''"]
  show ?thesis using cfg(1) demo_stores by (auto simp: demo_store_facts)
qed

definition demo_form :: form where
  "demo_form = \<lparr>fo_length = 0, fo_file = None, fo_open = False\<rparr>"

lemma forwarded_calls_act_as_token_witness:
  "\<exists>fcfg q. Load (\<lambda>_. []) = Inr fcfg \<and>
     fst (serve_gateway demo_gateway fcfg demo_store 0 demo_form demo_accept (Api PostFriendAnswer) Map.empty) =
       Forward (ToRelation q) (reply_checked 400 ''handle friend request failed'') \<and> relation_actor q = Some 2"
proof -
  obtain fcfg where cfg: "Load (\<lambda>_. []) = Inr fcfg" using demo_config by blast
  have "gw_matches (Api PostFriendAnswer) demo_accept" by (simp add: demo_route)
  from forwarded_calls_act_as_token [OF this, where cfg = demo_gateway and fcfg = fcfg and env = demo_store and
      now = 0 and f = demo_form and fs = Map.empty] cfg show ?thesis
    by (auto simp: serve_gateway_Api demo_forward demo_token open_call_def)
qed

lemma requests_change_own_relations_witness:
  "\<exists>fcfg rsp s'. Load (\<lambda>_. []) = Inr fcfg \<and>
     gateway_relation demo_gateway fcfg demo_store demo_relation_env (\<lambda>_. Some []) (\<lambda>_. None) False 0 demo_form demo_accept
       (Api PostFriendAnswer) Map.empty demo_asked = (rsp, Map.empty, s') \<and>
     friends 1 2 (rdb s') \<and> \<not> friends 1 2 (rdb demo_asked) \<and> req_status 1 2 (rdb demo_asked) = Some 0"
proof -
  obtain fcfg where cfg: "Load (\<lambda>_. []) = Inr fcfg" using demo_config by blast
  obtain rsp fs' s' where r: "gateway_relation demo_gateway fcfg demo_store demo_relation_env (\<lambda>_. Some []) (\<lambda>_. None) False 0 demo_form
      demo_accept (Api PostFriendAnswer) Map.empty demo_asked = (rsp, fs', s')"
    by (metis surj_pair)
  then have fs': "fs' = Map.empty"
    by (auto simp: gateway_relation_def serve_gateway_Api demo_forward split: prod.splits)
  have pending: "req_status a b (rdb demo_asked) = (if (a, b) = (1, 2) then Some 0 else None)" for a b
  proof -
    have "req_status x y empty_meta = None" for x y by (simp add: empty_meta_def req_status_def request_row_def)
    then show ?thesis by (simp add: demo_asked_def)
  qed
  have no: "\<not> friends 1 2 (rdb demo_asked)" by (simp add: demo_asked_def friends_def empty_meta_def upsert_request_def)
  have yes: "friends 1 2 (rdb s')"
    using r handle_refines [of 6 2 1 True demo_asked] pending [of 1 2]
    by (auto simp: gateway_relation_def serve_gateway_Api demo_forward demo_relation_env_def code_of_def spec_handle_def graph_of_def
        split: prod.splits)
  have "gw_matches (Api PostFriendAnswer) demo_accept" by (simp add: demo_route)
  from requests_change_own_relations [OF this r, of 1 2] r yes no pending fs' cfg show ?thesis by (auto simp: demo_token)
qed

lemma static_read_stays_inside_witness:
  "\<exists>cfg d b f c. Load (\<lambda>_. []) = Inr cfg \<and>
     [Join (FilesDir cfg) (image_url demo_store ''img'' demo_png) \<mapsto> demo_png]
       (fst (Clean (FilesDir cfg)), snd (Clean (FilesDir cfg)) @ [d, b, f]) = Some c \<and> d \<in> {''avatar'', ''img''}"
proof -
  obtain cfg where cfg: "Load (\<lambda>_. []) = Inr cfg" "FilesDir cfg \<noteq> []" using demo_config by blast
  let ?p = "image_url demo_store ''img'' demo_png"
  have "static_path_ok ?p"
    unfolding image_url_def by (rule image_path_ok(1)) (simp_all add: image_kind_def demo_store_facts)
  then have "get_static cfg ?p [Join (FilesDir cfg) ?p \<mapsto> demo_png] = \<lparr>hr_status = 200, hr_body = FileBody demo_png\<rparr>"
    by (simp add: get_static_def)
  from static_read_stays_inside [OF cfg(2) this] show ?thesis using cfg(1) by blast
qed

lemma broken_write_poisons_image_witness:
  "\<exists>cfg fs'. Load (\<lambda>_. []) = Inr cfg \<and>
     fst (storeImage (demo_store\<lparr>so_write := Some (''no space left on device'', 8)\<rparr>) (FilesDir cfg) ''img'' demo_png 12 Map.empty) =
       Inl ''write: no space left on device'' \<and>
     storeImage (demo_store\<lparr>so_write := None\<rparr>) (FilesDir cfg) ''img'' demo_png 12 fs' =
       (Inr (''/files'' @ image_url demo_store ''img'' demo_png), fs') \<and>
     get_static cfg (image_url demo_store ''img'' demo_png) fs' = \<lparr>hr_status = 200, hr_body = FileBody (take 8 demo_png)\<rparr>"
proof -
  obtain cfg where cfg: "Load (\<lambda>_. []) = Inr cfg" "FilesDir cfg \<noteq> []" using demo_config by blast
  from broken_write_poisons_image [OF cfg(2), of demo_store demo_png "''img''" Map.empty 8 "''no space left on device''"]
  show ?thesis using cfg(1) by (auto simp: demo_store_facts)
qed

end
