(* ===== verification/Delivery.thy ===== *)
theory Delivery
  imports Message
begin

text \<open>
  The delivery layer: the push client for the connection servers
  (\<open>internal/message/comet_cluster.go\<close>, \<open>route_cache.go\<close>), the \<open>Deliverer\<close> with its registry of
  unacknowledged pushes, retry timers and offline box (\<open>delivery.go\<close>), the in-process queue
  \<open>JobPusher\<close>, and the consumer of \<open>cmd/yim-job/main.go\<close>.

  The connection servers and the etcd resolver answer through \<open>push_env\<close>. A retry timer that was
  started is an entry of \<open>vtimers\<close>; one whose callback has passed the \<open>alive\<close> check and not
  returned is in \<open>vfiring\<close>, so that acknowledgements and deliveries can come in between.
\<close>

subsection \<open>Pushing to the connection servers\<close>

record comet_req =
  cr_uid :: uid
  cr_conv :: conv_id
  cr_max_seq :: int
  cr_from :: uid
  cr_sync :: int

record push_env =
  pv_now :: int
  pv_redis :: rfaults
  pv_resolve :: "string list option"            \<comment> \<open>the resolver's answer\<close>
  pv_rpc :: "string \<Rightarrow> comet_req \<Rightarrow> bool"       \<comment> \<open>\<open>Delivered\<close> of the reply; False if the call fails\<close>

record cluster =
  instances :: "string list"
  last_resolve :: int
  routes :: "(uid \<Rightarrow> string list) option"         \<comment> \<open>the route cache; the empty list is a missing entry\<close>
  push_log :: "(string \<times> comet_req) list"

definition instanceRefresh :: int where "instanceRefresh = 5000"

definition route_seed :: "uid \<Rightarrow> string list \<Rightarrow> cluster \<Rightarrow> cluster" where
  "route_seed u addrs cl = cl\<lparr>routes := map_option (\<lambda>m. m(u := addrs)) (routes cl)\<rparr>"

definition route_apply :: "string \<Rightarrow> uid \<Rightarrow> string \<Rightarrow> cluster \<Rightarrow> cluster" where
  "route_apply op u addr cl = cl\<lparr>routes := map_option (\<lambda>m.
     if op = ''add'' then m(u := (if addr \<in> set (m u) then m u else m u @ [addr]))
     else if op = ''rem'' then m(u := filter (\<lambda>a. a \<noteq> addr) (m u))
     else m) (routes cl)\<rparr>"

definition route_reset :: "cluster \<Rightarrow> cluster" where
  "route_reset cl = cl\<lparr>routes := map_option (\<lambda>_ _. []) (routes cl)\<rparr>"

definition route_lookup :: "push_env \<Rightarrow> redis option \<Rightarrow> uid \<Rightarrow> cluster \<Rightarrow> string list option \<times> cluster" where
  "route_lookup env rc u cl =
     (case routes cl of
        None \<Rightarrow> (RouteGet (pv_redis env) (pv_now env) rc u, cl)
      | Some m \<Rightarrow>
          (if m u \<noteq> [] then (Some (m u), cl)
           else case RouteGet (pv_redis env) (pv_now env) rc u of
               None \<Rightarrow> (None, cl)
             | Some addrs \<Rightarrow> (Some addrs, route_seed u addrs cl)))"

definition snapshotInstances :: "push_env \<Rightarrow> cluster \<Rightarrow> string list \<times> cluster" where
  "snapshotInstances env cl =
     (if pv_now env - last_resolve cl < instanceRefresh then (instances cl, cl)
      else case pv_resolve env of
          None \<Rightarrow> (instances cl, cl)
        | Some addrs \<Rightarrow> (addrs, cl\<lparr>instances := addrs, last_resolve := pv_now env\<rparr>))"

definition pushOne :: "push_env \<Rightarrow> string \<Rightarrow> comet_req \<Rightarrow> cluster \<Rightarrow> bool \<times> cluster" where
  "pushOne env addr req cl = (pv_rpc env addr req, cl\<lparr>push_log := push_log cl @ [(addr, req)]\<rparr>)"

fun push_each :: "push_env \<Rightarrow> comet_req \<Rightarrow> string list \<Rightarrow> cluster \<Rightarrow> bool \<times> cluster" where
  "push_each env req [] cl = (False, cl)"
| "push_each env req (a # as) cl =
     (let (d, cl1) = pushOne env a req cl; (ds, cl2) = push_each env req as cl1 in (d \<or> ds, cl2))"

definition PushAll :: "push_env \<Rightarrow> comet_req \<Rightarrow> cluster \<Rightarrow> bool \<times> cluster" where
  "PushAll env req cl = (let (addrs, cl1) = snapshotInstances env cl in push_each env req addrs cl1)"

definition PushRouted :: "push_env \<Rightarrow> redis option \<Rightarrow> comet_req \<Rightarrow> cluster \<Rightarrow> bool \<times> cluster" where
  "PushRouted env rc req cl =
     (case route_lookup env rc (cr_uid req) cl of
        (None, cl1) \<Rightarrow> PushAll env req cl1
      | (Some addrs, cl1) \<Rightarrow>
          (let (delivered, cl2) = push_each env req addrs cl1
           in if delivered then (True, cl2) else PushAll env req cl2))"

subsection \<open>The registry of unacknowledged pushes\<close>

type_synonym pendingAcks = "uid \<times> conv_id \<Rightarrow> (int \<times> PushEvent) list"
  \<comment> \<open>\<open>seq \<mapsto>\<close> the event whose closure is registered; an empty bucket is a missing one\<close>

definition retryDelays :: "int list" where "retryDelays = [1000, 4000, 16000]"

record retry_timer =
  rt_level :: nat
  rt_uid :: uid
  rt_event :: PushEvent
  rt_due :: int

definition rt_key :: "retry_timer \<Rightarrow> uid \<times> conv_id \<times> int" where
  "rt_key t = (rt_uid t, pe_conv (rt_event t), pe_max_seq (rt_event t))"

definition alive :: "uid \<Rightarrow> conv_id \<Rightarrow> int \<Rightarrow> pendingAcks \<Rightarrow> bool" where
  "alive u c q p \<longleftrightarrow> map_of (p (u, c)) q \<noteq> None"

definition ack :: "uid \<Rightarrow> conv_id \<Rightarrow> int \<Rightarrow> pendingAcks \<Rightarrow> pendingAcks" where
  "ack u c ackSeq p = p((u, c) := filter (\<lambda>x. \<not> fst x \<le> ackSeq) (p (u, c)))"

definition remove_pend :: "uid \<Rightarrow> conv_id \<Rightarrow> int \<Rightarrow> pendingAcks \<Rightarrow> pendingAcks" where
  "remove_pend u c q p = p((u, c) := filter (\<lambda>x. fst x \<noteq> q) (p (u, c)))"

subsection \<open>The deliverer\<close>

record deliverer =
  vdb :: meta_db
  vshards :: msg_dbs
  vslots :: SlotTable
  vcache :: "redis option"
  vsync :: "RedisSyncSeqClient option"   \<comment> \<open>\<open>None\<close>: the plain RPC client, as in \<open>cmd/yim-sched\<close>\<close>
  vcluster :: cluster
  vpend :: pendingAcks
  vtimers :: "retry_timer list"
  vfiring :: "retry_timer list"
  vmarks :: markBatcher

record deliver_env =
  de_push :: push_env
  de_members :: "string option"
  de_floor :: "uid \<Rightarrow> string option"
  de_seq :: "uid \<Rightarrow> string + int"
  de_box :: "uid \<Rightarrow> string option"

definition fire :: "int \<Rightarrow> nat \<Rightarrow> uid \<Rightarrow> PushEvent \<Rightarrow> deliverer \<Rightarrow> deliverer" where
  \<comment> \<open>the closure \<open>retryFire(e, uid)\<close> at a level: start the timer\<close>
  "fire now level u e s = s\<lparr>vtimers := vtimers s @
     [\<lparr>rt_level = level, rt_uid = u, rt_event = e, rt_due = now + retryDelays ! (level - 1)\<rparr>]\<rparr>"

definition register :: "int \<Rightarrow> uid \<Rightarrow> PushEvent \<Rightarrow> deliverer \<Rightarrow> deliverer" where
  "register now u e s =
     (let k = (u, pe_conv e); q = pe_max_seq e
      in if map_of (vpend s k) q \<noteq> None then s
         else fire now 1 u e (s\<lparr>vpend := (vpend s)(k := (q, e) # vpend s k)\<rparr>))"

definition schedule :: "int \<Rightarrow> uid \<Rightarrow> conv_id \<Rightarrow> int \<Rightarrow> nat \<Rightarrow> deliverer \<Rightarrow> deliverer" where
  "schedule now u c q level s =
     (case map_of (vpend s (u, c)) q of None \<Rightarrow> s | Some e \<Rightarrow> fire now level u e s)"

definition box_row :: "int \<Rightarrow> uid \<Rightarrow> conv_id \<Rightarrow> int \<Rightarrow> offline_row" where
  "box_row now u c q = \<lparr>ob_uid = u, ob_conv = c, ob_msg = 0, ob_seq = q, ob_status = 0, ob_create = now\<rparr>"

definition writeOfflineBox :: "string option \<Rightarrow> int \<Rightarrow> uid \<Rightarrow> conv_id \<Rightarrow> int \<Rightarrow> deliverer \<Rightarrow> deliverer" where
  \<comment> \<open>an error is logged and forgotten\<close>
  "writeOfflineBox fault now u c q s =
     (if fault \<noteq> None then s
      else s\<lparr>vdb := (vdb s)\<lparr>offline_box := row_ins_ignore ob_key (box_row now u c q) (offline_box (vdb s))\<rparr>\<rparr>)"

definition bump_receiver :: "deliver_env \<Rightarrow> uid \<Rightarrow> deliverer \<Rightarrow> int \<times> deliverer" where
  \<comment> \<open>\<open>syncSeq, _ := d.seqs.BumpSyncSeq(ctx, uid)\<close>: an error leaves 0\<close>
  "bump_receiver env u s =
     (case vsync s of
        None \<Rightarrow> (case de_seq env u of Inl _ \<Rightarrow> 0 | Inr v \<Rightarrow> v, s)
      | Some y0 \<Rightarrow>
          (case sync_BumpSyncSeq (pv_redis (de_push env)) (de_floor env u) (pv_now (de_push env)) (de_seq env u) u
                  (y0\<lparr>sync_cache := vcache s\<rparr>) of
             (r, y) \<Rightarrow> (case r of Inl _ \<Rightarrow> 0 | Inr v \<Rightarrow> v, s\<lparr>vsync := Some y, vcache := sync_cache y\<rparr>)))"

definition push_user :: "push_env \<Rightarrow> PushEvent \<Rightarrow> uid \<Rightarrow> int \<Rightarrow> deliverer \<Rightarrow> bool \<times> deliverer" where
  "push_user pv e u sync s =
     (let (d, cl) = PushRouted pv (vcache s) \<lparr>cr_uid = u, cr_conv = pe_conv e, cr_max_seq = pe_max_seq e,
            cr_from = pe_from e, cr_sync = sync\<rparr> (vcluster s)
      in (d, s\<lparr>vcluster := cl\<rparr>))"

definition deliver_one :: "deliver_env \<Rightarrow> PushEvent \<Rightarrow> uid \<Rightarrow> deliverer \<Rightarrow> deliverer" where
  "deliver_one env e u s =
     (let (sync, s1) = bump_receiver env u s;
          (delivered, s2) = push_user (de_push env) e u sync s1;
          now = pv_now (de_push env)
      in if delivered then register now u e s2
         else writeOfflineBox (de_box env u) now u (pe_conv e) (pe_max_seq e) s2)"

definition Deliver :: "deliver_env \<Rightarrow> PushEvent \<Rightarrow> deliverer \<Rightarrow> deliverer" where
  "Deliver env e s =
     (case ConvMembers (pv_redis (de_push env)) (de_members env) (pv_now (de_push env)) (vcache s) (vdb s) (pe_conv e) of
        (Inl _, ca) \<Rightarrow> s\<lparr>vcache := ca\<rparr>
      | (Inr members, ca) \<Rightarrow>
          (let s1 = fold (deliver_one env e) (filter (\<lambda>u. u \<noteq> pe_from e) members) (s\<lparr>vcache := ca\<rparr>)
           in if pe_msg_id e \<noteq> 0
              then s1\<lparr>vmarks := mark_add (vslots s1) (pe_conv e, pe_msg_id e) (vmarks s1)\<rparr> else s1))"

definition AckPush :: "uid \<Rightarrow> conv_id \<Rightarrow> int \<Rightarrow> deliverer \<Rightarrow> deliverer" where
  "AckPush u c ackSeq s = s\<lparr>vpend := ack u c ackSeq (vpend s)\<rparr>"

definition retry_begin :: "push_env \<Rightarrow> retry_timer \<Rightarrow> deliverer \<Rightarrow> deliverer" where
  \<comment> \<open>the timer goes off: the \<open>alive\<close> check and the push\<close>
  "retry_begin pv t s =
     (let s1 = s\<lparr>vtimers := remove1 t (vtimers s)\<rparr>; e = rt_event t
      in if \<not> alive (rt_uid t) (pe_conv e) (pe_max_seq e) (vpend s) then s1
         else (snd (push_user pv e (rt_uid t) 0 s1))\<lparr>vfiring := vfiring s @ [t]\<rparr>)"

definition retry_end :: "string option \<Rightarrow> int \<Rightarrow> retry_timer \<Rightarrow> deliverer \<Rightarrow> deliverer" where
  \<comment> \<open>the rest of the callback\<close>
  "retry_end fault now t s =
     (let s1 = s\<lparr>vfiring := remove1 t (vfiring s)\<rparr>; u = rt_uid t; c = pe_conv (rt_event t); q = pe_max_seq (rt_event t)
      in if length retryDelays \<le> rt_level t
         then writeOfflineBox fault now u c q (s1\<lparr>vpend := remove_pend u c q (vpend s1)\<rparr>)
         else schedule now u c q (rt_level t + 1) s1)"

definition flush_marks :: "nat \<times> string option \<Rightarrow> deliverer \<Rightarrow> deliverer" where
  "flush_marks f s = (case mark_flush f (vmarks s, vshards s) of (m, dbs) \<Rightarrow> s\<lparr>vmarks := m, vshards := dbs\<rparr>)"

subsection \<open>The in-process queue\<close>

definition DeliverWorkers :: nat where "DeliverWorkers = 8"
definition deliveryQueueSize :: nat where "deliveryQueueSize = 1024"

type_synonym chans = "PushEvent list list"

definition NewChans :: chans where "NewChans = replicate DeliverWorkers []"

definition chan_of :: "conv_id \<Rightarrow> chans \<Rightarrow> nat option" where
  \<comment> \<open>\<open>p.chans[e.ConvID % len]\<close>; \<open>None\<close>: the index is negative and the runtime panics\<close>
  "chan_of c chs = (let i = go_mod c (int (length chs)) in if i < 0 then None else Some (nat i))"

definition chan_send :: "nat \<Rightarrow> PushEvent \<Rightarrow> chans \<Rightarrow> chans option" where
  \<comment> \<open>\<open>None\<close>: the channel is full and the send blocks\<close>
  "chan_send i e chs =
     (if length (chs ! i) < deliveryQueueSize then Some (chs[i := chs ! i @ [e]]) else None)"

datatype push_out = PushPanics | PushQueued chans | PushWaits nat
  \<comment> \<open>a waiting push ends with a \<open>chan_send\<close> that finds room, or after two seconds with the event dropped\<close>

definition JobPush :: "PushEvent \<Rightarrow> chans \<Rightarrow> push_out" where
  "JobPush e chs =
     (case chan_of (pe_conv e) chs of
        None \<Rightarrow> PushPanics
      | Some i \<Rightarrow> (case chan_send i e chs of Some chs' \<Rightarrow> PushQueued chs' | None \<Rightarrow> PushWaits i))"

definition chan_take :: "nat \<Rightarrow> chans \<Rightarrow> (PushEvent \<times> chans) option" where
  \<comment> \<open>one round of \<open>consumeLoop(idx)\<close>\<close>
  "chan_take i chs = (if length chs \<le> i then None
     else case chs ! i of [] \<Rightarrow> None | e # es \<Rightarrow> Some (e, chs[i := es]))"

definition run_workers :: "int \<Rightarrow> chans \<Rightarrow> nat list" where
  \<comment> \<open>the indices for which \<open>Run\<close> starts a worker\<close>
  "run_workers n chs = [0..<(if n \<le> 0 \<or> int (length chs) < n then length chs else nat n)]"

subsection \<open>The Kafka consumer of the job service\<close>

record job_codec =
  decode_push :: "string \<Rightarrow> PushEvent option"            \<comment> \<open>\<open>proto.Unmarshal\<close>\<close>
  decode_ack :: "string \<Rightarrow> (uid \<times> conv_id \<times> int) option"

definition handlePush :: "job_codec \<Rightarrow> deliver_env \<Rightarrow> string \<Rightarrow> deliverer \<Rightarrow> deliverer" where
  "handlePush jc env v s = (case decode_push jc v of None \<Rightarrow> s | Some e \<Rightarrow> Deliver env e s)"

definition handleAck :: "job_codec \<Rightarrow> string \<Rightarrow> deliverer \<Rightarrow> deliverer" where
  "handleAck jc v s = (case decode_ack jc v of None \<Rightarrow> s | Some (u, c, q) \<Rightarrow> AckPush u c q s)"

text \<open>One reader on one partition: offsets are positions in the partition's log.\<close>

record consumer =
  cn_next :: nat            \<comment> \<open>the offset the next fetch returns\<close>
  cn_pending :: "nat list"  \<comment> \<open>handled, not yet committed\<close>
  cn_committed :: nat       \<comment> \<open>the group's offset at the broker\<close>
  cn_last_commit :: int
  cn_handled :: "nat list"  \<comment> \<open>every message given to the handler, in order\<close>

definition commit_offset :: "nat list \<Rightarrow> nat \<Rightarrow> nat" where
  \<comment> \<open>\<open>CommitMessages\<close> sets the group's offset behind the last message\<close>
  "commit_offset ms old = (if ms = [] then old else Suc (last ms))"

definition consume_one :: "bool \<Rightarrow> int \<Rightarrow> consumer \<Rightarrow> consumer" where
  \<comment> \<open>a round of \<open>consumeLoop\<close> whose fetch succeeds; \<open>ok\<close>: the commit, if one is due, succeeds\<close>
  "consume_one ok now s =
     (let p = cn_pending s @ [cn_next s];
          s1 = s\<lparr>cn_next := Suc (cn_next s), cn_handled := cn_handled s @ [cn_next s], cn_pending := p\<rparr>
      in if 64 \<le> length p \<or> 500 < now - cn_last_commit s
         then s1\<lparr>cn_committed := (if ok then commit_offset p (cn_committed s) else cn_committed s),
                 cn_pending := [], cn_last_commit := now\<rparr>
         else s1)"

definition reassigned :: "int \<Rightarrow> consumer \<Rightarrow> consumer" where
  \<comment> \<open>a crash or rebalance: the next reader starts at the group's offset\<close>
  "reassigned now s = s\<lparr>cn_next := cn_committed s, cn_pending := [], cn_last_commit := now\<rparr>"

end
