(* ===== verification/DeliverySafety.thy ===== *)
theory DeliverySafety
  imports Delivery
begin

text \<open>
  What the delivery layer guarantees: a push that waits for its acknowledgement always has a
  retry to come, its retries end in the offline box, a delivery reaches every member, the
  consumer loses no message; and the failures that do lose a notification.
\<close>

subsection \<open>Steps\<close>

inductive dstep :: "deliverer \<Rightarrow> deliverer \<Rightarrow> bool" where
  register: "dstep s (register now u e s)"
| ack: "dstep s (AckPush u c q s)"
| begin_retry: "t \<in> set (vtimers s) \<Longrightarrow> dstep s (retry_begin pv t s)"
| end_retry: "t \<in> set (vfiring s) \<Longrightarrow> dstep s (retry_end fault now t s)"
| other: "vpend s' = vpend s \<Longrightarrow> vtimers s' = vtimers s \<Longrightarrow> vfiring s' = vfiring s \<Longrightarrow> dstep s s'"
  \<comment> \<open>pushes, sync numbers, offline rows, marks, routes: whatever does not touch the registry\<close>

definition fresh_deliverer :: "deliverer \<Rightarrow> bool" where
  "fresh_deliverer s \<longleftrightarrow> vpend s = (\<lambda>_. []) \<and> vtimers s = [] \<and> vfiring s = []"

definition waits :: "deliverer \<Rightarrow> retry_timer set" where
  "waits s = set (vtimers s) \<union> set (vfiring s)"

definition pend_ok :: "deliverer \<Rightarrow> bool" where
  "pend_ok s \<longleftrightarrow>
     (\<forall>k q e. (q, e) \<in> set (vpend s k) \<longrightarrow> pe_max_seq e = q \<and> pe_conv e = snd k \<and>
        (\<exists>t \<in> waits s. rt_key t = (fst k, snd k, q))) \<and>
     (\<forall>t \<in> waits s. 1 \<le> rt_level t \<and> rt_level t \<le> length retryDelays)"

lemma pend_okD: "pend_ok s \<Longrightarrow> (q, e) \<in> set (vpend s k) \<Longrightarrow> pe_max_seq e = q \<and> pe_conv e = snd k \<and>
    (\<exists>t \<in> waits s. rt_key t = (fst k, snd k, q))"
  unfolding pend_ok_def by blast

lemma pend_ok_level: "pend_ok s \<Longrightarrow> t \<in> waits s \<Longrightarrow> 1 \<le> rt_level t \<and> rt_level t \<le> length retryDelays"
  unfolding pend_ok_def by blast

lemma length_retryDelays [simp]: "length retryDelays = 3"
  by (simp add: retryDelays_def)

lemma fire_simps [simp]: "vpend (fire now l u e s) = vpend s" "vfiring (fire now l u e s) = vfiring s"
    "vdb (fire now l u e s) = vdb s" "waits (fire now l u e s) =
      insert \<lparr>rt_level = l, rt_uid = u, rt_event = e, rt_due = now + retryDelays ! (l - 1)\<rparr> (waits s)"
  by (auto simp: fire_def waits_def)

lemma box_simps [simp]: "vpend (writeOfflineBox f now u c q s) = vpend s" "vtimers (writeOfflineBox f now u c q s) = vtimers s"
    "vfiring (writeOfflineBox f now u c q s) = vfiring s"
  by (simp_all add: writeOfflineBox_def)

lemma push_user_simps [simp]: "vpend (snd (push_user pv e u y s)) = vpend s" "vtimers (snd (push_user pv e u y s)) = vtimers s"
    "vfiring (snd (push_user pv e u y s)) = vfiring s" "vdb (snd (push_user pv e u y s)) = vdb s"
  by (simp_all add: push_user_def Let_def split: prod.split)

lemma bump_simps [simp]: "vpend (snd (bump_receiver env u s)) = vpend s" "vtimers (snd (bump_receiver env u s)) = vtimers s"
    "vfiring (snd (bump_receiver env u s)) = vfiring s" "vdb (snd (bump_receiver env u s)) = vdb s"
  by (simp_all add: bump_receiver_def split: prod.split option.split)

lemma pend_ok_mono:
  assumes "pend_ok s" "\<And>k. set (vpend s' k) \<subseteq> set (vpend s k)"
    and "\<And>k q e t. (q, e) \<in> set (vpend s' k) \<Longrightarrow> t \<in> waits s \<Longrightarrow> rt_key t = (fst k, snd k, q) \<Longrightarrow>
      \<exists>t' \<in> waits s'. rt_key t' = rt_key t"
    and "\<And>t. t \<in> waits s' \<Longrightarrow> 1 \<le> rt_level t \<and> rt_level t \<le> length retryDelays"
  shows "pend_ok s'"
  unfolding pend_ok_def
proof (intro conjI allI impI ballI)
  fix k q e assume h: "(q, e) \<in> set (vpend s' k)"
  then have "(q, e) \<in> set (vpend s k)" using assms(2) by blast
  note old = pend_okD [OF assms(1) this]
  then show "pe_max_seq e = q" "pe_conv e = snd k" by simp_all
  obtain t where "t \<in> waits s" "rt_key t = (fst k, snd k, q)" using old by blast
  with assms(3) [OF h] show "\<exists>t \<in> waits s'. rt_key t = (fst k, snd k, q)" by metis
qed (use assms(4) in auto)

lemma pend_ok_register: "pend_ok s \<Longrightarrow> pend_ok (register now u e s)"
  by (auto simp: register_def pend_ok_def rt_key_def retryDelays_def waits_def fire_def Let_def split: if_splits)

lemma set_remove1_cases: "t' \<in> set xs \<Longrightarrow> t' = t \<or> t' \<in> set (remove1 t xs)"
  by (cases "t' = t") simp_all

lemma pend_ok_begin:
  assumes "pend_ok s" "t \<in> set (vtimers s)"
  shows "pend_ok (retry_begin pv t s)"
proof (cases "alive (rt_uid t) (pe_conv (rt_event t)) (pe_max_seq (rt_event t)) (vpend s)")
  case True
  then have w: "waits (retry_begin pv t s) = waits s"
    using assms(2) by (auto simp: retry_begin_def waits_def Let_def dest: set_remove1_subset [THEN subsetD] set_remove1_cases)
  have p: "vpend (retry_begin pv t s) = vpend s" by (simp add: retry_begin_def Let_def)
  show ?thesis using assms(1) unfolding pend_ok_def w p .
next
  case False
  then have s': "retry_begin pv t s = s\<lparr>vtimers := remove1 t (vtimers s)\<rparr>" by (simp add: retry_begin_def Let_def)
  show ?thesis
  proof (rule pend_ok_mono [OF assms(1)])
    fix k q e t' assume h: "(q, e) \<in> set (vpend (retry_begin pv t s) k)" "t' \<in> waits s" "rt_key t' = (fst k, snd k, q)"
    have "t' \<noteq> t"
    proof
      assume "t' = t"
      then have "k = (rt_uid t, pe_conv (rt_event t))" "q = pe_max_seq (rt_event t)"
        using h(3) by (auto simp: rt_key_def prod_eq_iff)
      with h(1) False show False
        by (auto simp: s' alive_def map_of_eq_None_iff image_iff)
    qed
    then show "\<exists>t'' \<in> waits (retry_begin pv t s). rt_key t'' = rt_key t'"
      using h(2) by (auto simp: s' waits_def)
  next
    fix t' assume "t' \<in> waits (retry_begin pv t s)"
    then have "t' \<in> waits s" by (auto simp: s' waits_def dest: set_remove1_subset [THEN subsetD])
    then show "1 \<le> rt_level t' \<and> rt_level t' \<le> length retryDelays" using assms(1) by (rule pend_ok_level [rotated])
  qed (auto simp: s')
qed

lemma pend_ok_end:
  assumes "pend_ok s" "t \<in> set (vfiring s)"
  shows "pend_ok (retry_end fault now t s)"
proof -
  let ?u = "rt_uid t" and ?c = "pe_conv (rt_event t)" and ?q = "pe_max_seq (rt_event t)"
  have lv: "1 \<le> rt_level t" "rt_level t \<le> 3" using pend_ok_level [OF assms(1), of t] assms(2) by (simp_all add: waits_def)
  have old: "t' \<in> waits s \<Longrightarrow> t' = t \<or> t' \<in> set (vtimers s) \<union> set (remove1 t (vfiring s))" for t'
    by (auto simp: waits_def dest: set_remove1_cases)
  have key: "(q, e) \<in> set (vpend s k) \<Longrightarrow> rt_key t = (fst k, snd k, q) \<Longrightarrow> k = (?u, ?c) \<and> q = ?q" for k q e
    by (auto simp: rt_key_def prod_eq_iff)
  show ?thesis
  proof (cases "length retryDelays \<le> rt_level t")
    case True
    then have p: "vpend (retry_end fault now t s) = remove_pend ?u ?c ?q (vpend s)"
      and w: "waits (retry_end fault now t s) = set (vtimers s) \<union> set (remove1 t (vfiring s))"
      by (simp_all add: retry_end_def waits_def Let_def)
    show ?thesis
    proof (rule pend_ok_mono [OF assms(1)])
      fix k q e t' assume h: "(q, e) \<in> set (vpend (retry_end fault now t s) k)" "t' \<in> waits s" "rt_key t' = (fst k, snd k, q)"
      have "t' \<noteq> t"
      proof
        assume "t' = t"
        then have "k = (?u, ?c)" "q = ?q" using h(3) by (auto simp: rt_key_def prod_eq_iff)
        then show False using h(1) by (simp add: p remove_pend_def)
      qed
      then show "\<exists>t'' \<in> waits (retry_end fault now t s). rt_key t'' = rt_key t'"
        using old [OF h(2)] by (auto simp: w)
    next
      fix t' assume "t' \<in> waits (retry_end fault now t s)"
      then have "t' \<in> waits s" unfolding w by (auto simp: waits_def dest: set_remove1_subset [THEN subsetD])
      then show "1 \<le> rt_level t' \<and> rt_level t' \<le> length retryDelays" using assms(1) by (rule pend_ok_level [rotated])
    qed (auto simp: p remove_pend_def)
  next
    case False
    note low = this
    show ?thesis
    proof (cases "map_of (vpend s (?u, ?c)) ?q")
      case None
      then have s': "retry_end fault now t s = s\<lparr>vfiring := remove1 t (vfiring s)\<rparr>"
        using low by (simp add: retry_end_def schedule_def Let_def)
      show ?thesis
      proof (rule pend_ok_mono [OF assms(1)])
        fix k q e t' assume h: "(q, e) \<in> set (vpend (retry_end fault now t s) k)" "t' \<in> waits s" "rt_key t' = (fst k, snd k, q)"
        have "t' \<noteq> t" using key [of q e k] h None by (force simp: s' map_of_eq_None_iff)
        then show "\<exists>t'' \<in> waits (retry_end fault now t s). rt_key t'' = rt_key t'"
          using old [OF h(2)] by (auto simp: s' waits_def)
      next
        fix t' assume "t' \<in> waits (retry_end fault now t s)"
        then have "t' \<in> waits s" by (auto simp: s' waits_def dest: set_remove1_subset [THEN subsetD])
        then show "1 \<le> rt_level t' \<and> rt_level t' \<le> length retryDelays" using assms(1) by (rule pend_ok_level [rotated])
      qed (auto simp: s')
    next
      case (Some e)
      let ?t = "\<lparr>rt_level = rt_level t + 1, rt_uid = ?u, rt_event = e, rt_due = now + retryDelays ! (rt_level t + 1 - 1)\<rparr>"
      have e: "pe_max_seq e = ?q" "pe_conv e = ?c"
        using pend_okD [OF assms(1) map_of_SomeD [OF Some]] by simp_all
      have p: "vpend (retry_end fault now t s) = vpend s"
        and w: "waits (retry_end fault now t s) = insert ?t (set (vtimers s) \<union> set (remove1 t (vfiring s)))"
        using low Some by (simp_all add: retry_end_def schedule_def Let_def) (simp add: waits_def)
      have kt: "rt_key ?t = rt_key t" by (simp add: rt_key_def e)
      show ?thesis
      proof (rule pend_ok_mono [OF assms(1)])
        fix k q e' t' assume h: "t' \<in> waits s"
        then show "\<exists>t'' \<in> waits (retry_end fault now t s). rt_key t'' = rt_key t'"
          using old [OF h] kt by (auto simp: w)
      next
        fix t' assume "t' \<in> waits (retry_end fault now t s)"
        then have "t' = ?t \<or> t' \<in> waits s" unfolding w by (auto simp: waits_def dest: set_remove1_subset [THEN subsetD])
        then show "1 \<le> rt_level t' \<and> rt_level t' \<le> length retryDelays" using pend_ok_level [OF assms(1)] low by auto
      qed (auto simp: p)
    qed
  qed
qed

lemma pend_ok_step: "dstep s s' \<Longrightarrow> pend_ok s \<Longrightarrow> pend_ok s'"
proof (induction rule: dstep.induct)
  case (register s now u e)
  then show ?case by (rule pend_ok_register)
next
  case (ack s u c q)
  have "pend_ok (AckPush u c q s)"
  proof (rule pend_ok_mono [OF ack])
    fix t assume "t \<in> waits (AckPush u c q s)"
    then have "t \<in> waits s" by (simp add: AckPush_def waits_def)
    then show "1 \<le> rt_level t \<and> rt_level t \<le> length retryDelays" using ack by (rule pend_ok_level [rotated])
  qed (auto simp: AckPush_def ack_def waits_def)
  then show ?case .
next
  case (begin_retry t s pv)
  then show ?case by (simp add: pend_ok_begin)
next
  case (end_retry t s fault now)
  then show ?case by (simp add: pend_ok_end)
next
  case (other s' s)
  then show ?case by (simp add: pend_ok_def waits_def)
qed

lemma pend_ok_reach: "dstep\<^sup>*\<^sup>* s0 s \<Longrightarrow> fresh_deliverer s0 \<Longrightarrow> pend_ok s"
proof (induction rule: rtranclp_induct)
  case base
  then show ?case by (simp add: pend_ok_def waits_def fresh_deliverer_def)
next
  case (step y z)
  then show ?case using pend_ok_step by blast
qed

text \<open>
  C7: No unacknowledged push is forgotten: in every state the delivery layer can reach, with
  deliveries, acknowledgements and the two halves of retry callbacks interleaved in any order, a
  push that waits for its acknowledgement has a retry that was started and has not finished, at
  one of the three levels.
\<close>

theorem pending_push_has_retry:
  assumes "dstep\<^sup>*\<^sup>* s0 s" "fresh_deliverer s0" "alive u c q (vpend s)"
  shows "\<exists>t \<in> set (vtimers s) \<union> set (vfiring s). rt_uid t = u \<and> pe_conv (rt_event t) = c \<and>
    pe_max_seq (rt_event t) = q \<and> 1 \<le> rt_level t \<and> rt_level t \<le> 3"
proof -
  obtain e where "(q, e) \<in> set (vpend s (u, c))"
    using assms(3) by (auto simp: alive_def dest: map_of_SomeD)
  then show ?thesis
    using pend_okD [OF pend_ok_reach [OF assms(1,2)]] pend_ok_level [OF pend_ok_reach [OF assms(1,2)]]
    by (fastforce simp: waits_def rt_key_def)
qed

subsection \<open>Retries end\<close>

definition boxed :: "uid \<Rightarrow> conv_id \<Rightarrow> int \<Rightarrow> deliverer \<Rightarrow> bool" where
  "boxed u c q s \<longleftrightarrow> row_get ob_key (offline_box (vdb s)) (u, c, q) \<noteq> None"

record timer_env =   \<comment> \<open>what a timer meets when it goes off\<close>
  te_push :: push_env
  te_now :: int
  te_box :: "string option"   \<comment> \<open>why the row of the offline box is refused, if it is\<close>

definition run_timer :: "uid \<times> conv_id \<times> int \<Rightarrow> timer_env \<Rightarrow> deliverer \<Rightarrow> deliverer" where
  \<comment> \<open>the oldest timer of one push goes off and its callback runs\<close>
  "run_timer k x s =
     (case List.find (\<lambda>t. rt_key t = k) (vtimers s) of
        None \<Rightarrow> s | Some t \<Rightarrow> retry_end (te_box x) (te_now x) t (retry_begin (te_push x) t s))"

definition retries_left :: "uid \<times> conv_id \<times> int \<Rightarrow> retry_timer list \<Rightarrow> nat" where
  "retries_left k ts = sum_list (map (\<lambda>t. if rt_key t = k then 4 - rt_level t else 0) ts)"

lemma retries_left_simps [simp]: "retries_left k [] = 0"
    "retries_left k (t # ts) = (if rt_key t = k then 4 - rt_level t else 0) + retries_left k ts"
  by (simp_all add: retries_left_def)

lemma retries_left_remove1: "t \<in> set ts \<Longrightarrow>
    retries_left k ts = retries_left k (remove1 t ts) + (if rt_key t = k then 4 - rt_level t else 0)"
  unfolding retries_left_def by (subst sum_list_map_remove1 [of t]) simp_all

lemma retries_left_append: "retries_left k (ts @ us) = retries_left k ts + retries_left k us"
  by (simp add: retries_left_def)

lemma retries_left_0: "retries_left k ts = 0 \<Longrightarrow> t \<in> set ts \<Longrightarrow> rt_level t \<le> 3 \<Longrightarrow> rt_key t \<noteq> k"
  by (induction ts) auto

lemma retries_left_pos: "0 < retries_left k ts \<Longrightarrow> \<exists>t \<in> set ts. rt_key t = k"
  by (induction ts) (auto split: if_splits)

lemma remove1_snoc: "x \<notin> set xs \<Longrightarrow> remove1 x (xs @ [x]) = xs"
  by (simp add: remove1_append)

lemma boxed_write: "boxed u' c' q' (writeOfflineBox None now u c q s) \<longleftrightarrow> (u', c', q') = (u, c, q) \<or> boxed u' c' q' s"
  by (auto simp: boxed_def writeOfflineBox_def row_get_ins_ignore box_row_def ob_key_def split: option.splits)

lemma boxed_write_mono: "boxed u c q s \<Longrightarrow> boxed u c q (writeOfflineBox f now v d p s)"
  by (cases f) (simp add: boxed_write, simp add: writeOfflineBox_def)

lemma boxed_write_or: "boxed u c q (writeOfflineBox f now u c q s) \<or> f \<noteq> None"
  by (cases f) (simp_all add: boxed_write)

lemma box_cluster [simp]: "boxed u c q (s\<lparr>vtimers := a\<rparr>) = boxed u c q s" "boxed u c q (s\<lparr>vfiring := b\<rparr>) = boxed u c q s"
    "boxed u c q (s\<lparr>vpend := p\<rparr>) = boxed u c q s" "boxed u c q (fire now l v e s) = boxed u c q s"
    "boxed u c q (snd (push_user pv e v y s)) = boxed u c q s"
  by (simp_all add: boxed_def)

lemma run_timer_step:
  assumes "pend_ok s" "\<forall>t \<in> set (vfiring s). rt_key t \<noteq> (u, c, q)" "0 < retries_left (u, c, q) (vtimers s)"
    and s'_def: "s' = run_timer (u, c, q) x s"
  shows "retries_left (u, c, q) (vtimers s') < retries_left (u, c, q) (vtimers s) \<and>
    (\<forall>t \<in> set (vfiring s'). rt_key t \<noteq> (u, c, q)) \<and> pend_ok s' \<and>
    (alive u c q (vpend s') \<longrightarrow> alive u c q (vpend s)) \<and>
    (alive u c q (vpend s) \<longrightarrow> alive u c q (vpend s') \<or> boxed u c q s' \<or> te_box x \<noteq> None) \<and> (boxed u c q s \<longrightarrow> boxed u c q s')"
proof -
  define fault now pv where "fault = te_box x" and "now = te_now x" and "pv = te_push x"
  have "\<exists>t \<in> set (vtimers s). rt_key t = (u, c, q)" using retries_left_pos [OF assms(3)] .
  then obtain t where t: "List.find (\<lambda>t. rt_key t = (u, c, q)) (vtimers s) = Some t"
    by (meson find_None_iff not_None_eq)
  then have k: "t \<in> set (vtimers s)" "rt_key t = (u, c, q)" by (auto simp: find_Some_iff)
  have key: "rt_uid t = u" "pe_conv (rt_event t) = c" "pe_max_seq (rt_event t) = q" using k(2) by (simp_all add: rt_key_def)
  have lv: "1 \<le> rt_level t" "rt_level t \<le> 3" using pend_ok_level [OF assms(1)] k(1) by (auto simp: waits_def)
  have tf: "t \<notin> set (vfiring s)" using assms(2) k(2) by auto
  have left: "retries_left (u, c, q) (vtimers s) = retries_left (u, c, q) (remove1 t (vtimers s)) + (4 - rt_level t)"
    using retries_left_remove1 [OF k(1), of "(u, c, q)"] k(2) by simp
  have s': "s' = retry_end fault now t (retry_begin pv t s)" by (simp add: s'_def run_timer_def t fault_def now_def pv_def)
  show ?thesis
  proof (cases "alive u c q (vpend s)")
    case False
    then have b: "retry_begin pv t s = s\<lparr>vtimers := remove1 t (vtimers s)\<rparr>" by (simp add: retry_begin_def key Let_def)
    have ok: "pend_ok (retry_begin pv t s)" using pend_ok_begin [OF assms(1) k(1)] .
    have none: "map_of (vpend s (u, c)) q = None" using False by (simp add: alive_def)
    show ?thesis
    proof (cases "3 \<le> rt_level t")
      case True
      have rm: "remove_pend u c q (vpend s) = vpend s"
        using none by (auto simp: remove_pend_def map_of_eq_None_iff image_iff intro!: ext filter_True)
      have e: "s' = writeOfflineBox fault now u c q (s\<lparr>vtimers := remove1 t (vtimers s)\<rparr>)"
        using True tf rm by (simp add: s' b retry_end_def key Let_def remove1_idem)
      have w: "waits s' = waits (retry_begin pv t s)" by (simp add: e b waits_def)
      have "pend_ok s'" using ok unfolding pend_ok_def w by (simp add: e b)
      then show ?thesis using left lv False assms(2) by (auto simp: e boxed_write_mono)
    next
      case low: False
      have e: "s' = s\<lparr>vtimers := remove1 t (vtimers s)\<rparr>"
        using low tf none by (simp add: s' b retry_end_def schedule_def key Let_def remove1_idem)
      show ?thesis using left lv False assms(2) ok by (auto simp: e b)
    qed
  next
    case True
    let ?p = "snd (push_user pv (rt_event t) u 0 (s\<lparr>vtimers := remove1 t (vtimers s)\<rparr>))"
    have b: "retry_begin pv t s = ?p\<lparr>vfiring := vfiring s @ [t]\<rparr>" using True by (simp add: retry_begin_def key Let_def)
    have ok: "pend_ok (retry_begin pv t s)" using pend_ok_begin [OF assms(1) k(1)] .
    have ok': "pend_ok s'" unfolding s' by (rule pend_ok_end [OF ok]) (simp add: b)
    obtain e where e: "map_of (vpend s (u, c)) q = Some e" using True by (auto simp: alive_def)
    have ek: "rt_key \<lparr>rt_level = l, rt_uid = u, rt_event = e, rt_due = d\<rparr> = (u, c, q)" for l d
      using pend_okD [OF assms(1) map_of_SomeD [OF e]] by (simp add: rt_key_def)
    show ?thesis
    proof (cases "3 \<le> rt_level t")
      case hi: True
      have e': "s' = writeOfflineBox fault now u c q (?p\<lparr>vfiring := vfiring s, vpend := remove_pend u c q (vpend s)\<rparr>)"
        using hi tf by (simp add: s' b retry_end_def key Let_def remove1_snoc)
      have "\<not> alive u c q (vpend s')" by (auto simp: e' alive_def remove_pend_def map_of_eq_None_iff)
      then show ?thesis using left lv assms(2) ok' boxed_write_or by (auto simp: e' boxed_write_mono fault_def)
    next
      case low: False
      have e': "s' = fire now (rt_level t + 1) u e (?p\<lparr>vfiring := vfiring s\<rparr>)"
        using low tf e by (simp add: s' b retry_end_def schedule_def key Let_def remove1_snoc)
      have "vtimers s' = remove1 t (vtimers s) @ [\<lparr>rt_level = rt_level t + 1, rt_uid = u, rt_event = e,
          rt_due = now + retryDelays ! (rt_level t + 1 - 1)\<rparr>]" by (simp add: e' fire_def)
      then have "retries_left (u, c, q) (vtimers s') = retries_left (u, c, q) (remove1 t (vtimers s)) + (3 - rt_level t)"
        using ek by (simp add: retries_left_append)
      then show ?thesis using left lv low assms(2) ok' True by (auto simp: e')
    qed
  qed
qed

lemma run_timer_idle:
  assumes "retries_left k (vtimers s) = 0" "pend_ok s"
  shows "run_timer k x s = s"
proof -
  have "rt_key t \<noteq> k" if "t \<in> set (vtimers s)" for t
    using retries_left_0 [OF assms(1) that] pend_ok_level [OF assms(2), of t] that by (simp add: waits_def)
  then have "List.find (\<lambda>t. rt_key t = k) (vtimers s) = None" by (simp add: find_None_iff)
  then show ?thesis by (simp add: run_timer_def)
qed

lemma run_timers:
  assumes "pend_ok s" "\<forall>t \<in> set (vfiring s). rt_key t \<noteq> (u, c, q)" "retries_left (u, c, q) (vtimers s) \<le> length xs"
  shows "\<not> alive u c q (vpend (fold (run_timer (u, c, q)) xs s)) \<and>
    (alive u c q (vpend s) \<or> boxed u c q s \<longrightarrow>
       boxed u c q (fold (run_timer (u, c, q)) xs s) \<or> (\<exists>x \<in> set xs. te_box x \<noteq> None))"
  using assms
proof (induction xs arbitrary: s)
  case Nil
  have "\<not> alive u c q (vpend s)"
  proof
    assume "alive u c q (vpend s)"
    then obtain e where "(q, e) \<in> set (vpend s (u, c))" by (auto simp: alive_def dest: map_of_SomeD)
    from pend_okD [OF Nil(1) this] obtain t where t: "t \<in> waits s" "rt_key t = (u, c, q)" by auto
    moreover have "rt_level t \<le> 3" using pend_ok_level [OF Nil(1) t(1)] by simp
    ultimately show False using Nil(2,3) retries_left_0 [of "(u, c, q)" "vtimers s" t] by (auto simp: waits_def)
  qed
  then show ?case by simp
next
  case (Cons x xs)
  show ?case
  proof (cases "retries_left (u, c, q) (vtimers s) = 0")
    case True
    then have "run_timer (u, c, q) x s = s" using Cons.prems(1) by (rule run_timer_idle)
    then show ?thesis using Cons.IH [OF Cons.prems(1,2)] True by auto
  next
    case False
    let ?s = "run_timer (u, c, q) x s"
    have st: "retries_left (u, c, q) (vtimers ?s) < retries_left (u, c, q) (vtimers s)"
      "\<forall>t \<in> set (vfiring ?s). rt_key t \<noteq> (u, c, q)" "pend_ok ?s"
      "alive u c q (vpend s) \<longrightarrow> alive u c q (vpend ?s) \<or> boxed u c q ?s \<or> te_box x \<noteq> None" "boxed u c q s \<longrightarrow> boxed u c q ?s"
      using run_timer_step [OF Cons.prems(1,2) _ refl] False by simp_all
    have "retries_left (u, c, q) (vtimers ?s) \<le> length xs" using st(1) Cons.prems(3) by simp
    from Cons.IH [OF st(3,2) this] st(4,5) show ?thesis by auto
  qed
qed

text \<open>
  C8: Retries end: from any reachable state in which no callback of the push is half done, its timers
  go off one after the other, each with its own answers of the connection servers and of the
  database. After three runs for each timer that was started for the push (one, unless the same push
  was registered again) it waits no longer; and if it was waiting, it is then in the offline box,
  unless the database refused that row: the error is dropped.
\<close>

theorem retries_end_in_offline_box:
  assumes "dstep\<^sup>*\<^sup>* s0 s" "fresh_deliverer s0" "\<forall>t \<in> set (vfiring s). rt_key t \<noteq> (u, c, q)"
    and "3 * length (filter (\<lambda>t. rt_key t = (u, c, q)) (vtimers s)) \<le> length xs"
  shows "\<not> alive u c q (vpend (fold (run_timer (u, c, q)) xs s)) \<and>
    (alive u c q (vpend s) \<longrightarrow>
       boxed u c q (fold (run_timer (u, c, q)) xs s) \<or> (\<exists>x \<in> set xs. te_box x \<noteq> None))"
proof -
  have ok: "pend_ok s" by (rule pend_ok_reach [OF assms(1,2)])
  have "retries_left (u, c, q) ts \<le> 3 * length (filter (\<lambda>t. rt_key t = (u, c, q)) ts)"
    if "\<forall>t \<in> set ts. 1 \<le> rt_level t" for ts
    using that by (induction ts) auto
  moreover have "\<forall>t \<in> set (vtimers s). 1 \<le> rt_level t" using pend_ok_level [OF ok] by (simp add: waits_def)
  ultimately have "retries_left (u, c, q) (vtimers s) \<le> length xs" using assms(4) order_trans by blast
  from run_timers [OF ok assms(3) this] show ?thesis by blast
qed

subsection \<open>A delivery reaches every member\<close>

lemma alive_register: "alive u c q (vpend (register now v e s)) \<longleftrightarrow>
    (u, c, q) = (v, pe_conv e, pe_max_seq e) \<or> alive u c q (vpend s)"
  by (auto simp: register_def alive_def Let_def split: if_splits)

lemma boxed_register [simp]: "boxed u c q (register now v e s) = boxed u c q s"
  by (simp add: register_def boxed_def Let_def)

lemma bump_boxed [simp]: "boxed u c q (snd (bump_receiver env v s)) = boxed u c q s"
  by (simp add: boxed_def)

definition settled :: "deliver_env \<Rightarrow> uid \<Rightarrow> conv_id \<Rightarrow> int \<Rightarrow> deliverer \<Rightarrow> bool" where
  \<comment> \<open>waiting for an acknowledgement, in the offline box, or its offline row could not be written\<close>
  "settled env u c q s \<longleftrightarrow> alive u c q (vpend s) \<or> boxed u c q s \<or> de_box env u \<noteq> None"

lemma deliver_one_settled:
  "settled env u (pe_conv e) (pe_max_seq e) (deliver_one env e u s)"
  "settled env v c q s \<Longrightarrow> settled env v c q (deliver_one env e u s)"
proof -
  obtain y s1 where b: "bump_receiver env u s = (y, s1)" by force
  obtain d s2 where p: "push_user (de_push env) e u y s1 = (d, s2)" by force
  have s1: "vpend s1 = vpend s" "boxed v c q s1 = boxed v c q s" for v c q
    using bump_simps [of env u s] bump_boxed [of v c q env u s] b by simp_all
  have s2: "vpend s2 = vpend s" "boxed v c q s2 = boxed v c q s" for v c q
    using push_user_simps [of "de_push env" e u y s1] box_cluster(5) [of v c q "de_push env" e u y s1] p s1 by simp_all
  have D: "deliver_one env e u s = (if d then register (pv_now (de_push env)) u e s2
      else writeOfflineBox (de_box env u) (pv_now (de_push env)) u (pe_conv e) (pe_max_seq e) s2)"
    by (simp add: deliver_one_def b p Let_def)
  show "settled env u (pe_conv e) (pe_max_seq e) (deliver_one env e u s)"
    by (cases "de_box env u") (auto simp: settled_def D alive_register boxed_write)
  show "settled env v c q s \<Longrightarrow> settled env v c q (deliver_one env e u s)"
    by (auto simp: settled_def D alive_register s2 boxed_write_mono)
qed

lemma fold_settled: "settled env v (pe_conv e) (pe_max_seq e) s \<or> v \<in> set us \<Longrightarrow>
    settled env v (pe_conv e) (pe_max_seq e) (fold (deliver_one env e) us s)"
  by (induction us arbitrary: s) (auto intro: deliver_one_settled)

lemma Deliver_settled:
  assumes "ConvMembers (pv_redis (de_push env)) (de_members env) (pv_now (de_push env)) (vcache s) (vdb s) (pe_conv e) = (Inr ms, ca)"
    and "u \<in> set ms" "u \<noteq> pe_from e"
  shows "settled env u (pe_conv e) (pe_max_seq e) (Deliver env e s)"
proof -
  let ?s1 = "fold (deliver_one env e) (filter (\<lambda>u. u \<noteq> pe_from e) ms) (s\<lparr>vcache := ca\<rparr>)"
  have "settled env u (pe_conv e) (pe_max_seq e) ?s1" by (rule fold_settled) (use assms in auto)
  moreover have "vpend (Deliver env e s) = vpend ?s1" "vdb (Deliver env e s) = vdb ?s1"
    using assms(1) by (simp_all add: Deliver_def Let_def)
  ultimately show ?thesis by (simp add: settled_def boxed_def)
qed

text \<open>
  C9: A delivery reaches every member: when the member list can be read, then after \<open>Deliver\<close> every
  member but the author has the push waiting for an acknowledgement or registered in the offline
  box, whatever the connection servers answer, unless the database refused that row
  (\<open>failed_box_write_is_marked_done\<close> shows what then becomes of him).
\<close>

theorem deliver_reaches_members:
  assumes "ConvMembers (pv_redis (de_push env)) (de_members env) (pv_now (de_push env)) (vcache s) (vdb s) (pe_conv e) = (Inr ms, ca)"
    and "u \<in> set ms" "u \<noteq> pe_from e"
  shows "alive u (pe_conv e) (pe_max_seq e) (vpend (Deliver env e s)) \<or>
    (\<exists>r \<in> set (offline_box (vdb (Deliver env e s))). ob_key r = (u, pe_conv e, pe_max_seq e)) \<or>
    de_box env u \<noteq> None"
  using Deliver_settled [OF assms] row_get_not_None [of ob_key]
  by (auto simp: settled_def boxed_def)

subsection \<open>A failed offline row\<close>

lemma push_each_False: "(\<And>a. \<not> pv_rpc env a req) \<Longrightarrow> \<not> fst (push_each env req as cl)"
  by (induction as arbitrary: cl) (auto simp: pushOne_def Let_def split: prod.splits)

lemma PushRouted_False: "(\<And>a. \<not> pv_rpc env a req) \<Longrightarrow> \<not> fst (PushRouted env rc req cl)"
  using push_each_False [of env req]
  by (auto simp: PushRouted_def PushAll_def Let_def split: prod.splits option.splits) (metis fst_conv)+

lemma deliver_one_offline:
  assumes "\<And>a r. \<not> pv_rpc (de_push env) a r" "de_box env u \<noteq> None"
  shows "vpend (deliver_one env e v s) = vpend s"
    and "\<not> boxed u c q s \<Longrightarrow> \<not> boxed u c q (deliver_one env e v s)"
    and "vmarks (deliver_one env e v s) = vmarks s" "vslots (deliver_one env e v s) = vslots s"
    and "vshards (deliver_one env e v s) = vshards s"
proof -
  obtain y s1 where b: "bump_receiver env v s = (y, s1)" by force
  obtain d s2 where p: "push_user (de_push env) e v y s1 = (d, s2)" by force
  have "\<not> d" using PushRouted_False [of "de_push env"] assms(1) p by (auto simp: push_user_def Let_def split: prod.splits) (metis fst_conv)
  then have D: "deliver_one env e v s =
      writeOfflineBox (de_box env v) (pv_now (de_push env)) v (pe_conv e) (pe_max_seq e) s2"
    by (simp add: deliver_one_def b p Let_def)
  have s2: "vpend s2 = vpend s" "vdb s2 = vdb s" "vmarks s2 = vmarks s" "vslots s2 = vslots s" "vshards s2 = vshards s"
    using b p by (auto simp: bump_receiver_def push_user_def Let_def split: prod.splits option.splits)
  show "vpend (deliver_one env e v s) = vpend s" by (simp add: D s2)
  show "vmarks (deliver_one env e v s) = vmarks s" "vslots (deliver_one env e v s) = vslots s"
    "vshards (deliver_one env e v s) = vshards s" by (simp_all add: D s2 writeOfflineBox_def)
  assume "\<not> boxed u c q s"
  then show "\<not> boxed u c q (deliver_one env e v s)"
    using assms(2) by (auto simp: D writeOfflineBox_def boxed_def s2 row_get_ins_ignore box_row_def ob_key_def split: option.splits)
qed

lemma fold_deliver_offline:
  assumes "\<And>a r. \<not> pv_rpc (de_push env) a r" "de_box env u \<noteq> None"
  shows "vpend (fold (deliver_one env e) us s) = vpend s \<and>
    (\<not> boxed u c q s \<longrightarrow> \<not> boxed u c q (fold (deliver_one env e) us s)) \<and>
    vmarks (fold (deliver_one env e) us s) = vmarks s \<and> vslots (fold (deliver_one env e) us s) = vslots s \<and>
    vshards (fold (deliver_one env e) us s) = vshards s"
  by (induction us arbitrary: s) (simp_all add: deliver_one_offline [OF assms])

lemma in_AList_update: "x \<in> fst ` set (AList.update x v al)"
  by (induction al) auto

lemma mark_added: "x \<in> fst ` set (b_buf (mark_add slots x m (DBIndex (RouteMsg slots (fst x)))))"
  by (simp add: mark_add_def start_flush_def Let_def in_AList_update)

lemma flush_marks_done:
  assumes "x \<in> fst ` set (b_buf (m i))" "r \<in> set (local_table (snd (mark_flush (i, None) (m, dbs))) i)" "lm_key r = x"
  shows "lm_status r \<noteq> 0"
  using assms by (auto simp: mark_flush_def swap_out_def mark_done_def set_row_upd lm_key_def Let_def image_iff split: if_splits)

text \<open>
  A refused offline row loses the notification: when no connection server takes the push and the
  offline row of a member cannot be written, the error is dropped and the delivery task is marked
  done all the same, so the member is in neither list and the scan for undelivered messages does
  not look at the message again.
\<close>

theorem failed_box_write_is_marked_done:
  assumes "ConvMembers (pv_redis (de_push env)) (de_members env) (pv_now (de_push env)) (vcache s) (vdb s) (pe_conv e) = (Inr ms, ca)"
    and "\<And>a r. \<not> pv_rpc (de_push env) a r" "de_box env u \<noteq> None" "pe_msg_id e \<noteq> 0"
    and "\<not> alive u (pe_conv e) (pe_max_seq e) (vpend s)" "\<not> boxed u (pe_conv e) (pe_max_seq e) s"
    and "i = DBIndex (RouteMsg (vslots s) (pe_conv e))" "s' = flush_marks (i, None) (Deliver env e s)"
  shows "\<not> alive u (pe_conv e) (pe_max_seq e) (vpend s') \<and> \<not> boxed u (pe_conv e) (pe_max_seq e) s' \<and>
    (\<forall>r \<in> set (local_table (vshards s') i). lm_key r = (pe_conv e, pe_msg_id e) \<longrightarrow> lm_status r \<noteq> 0)"
proof -
  let ?s1 = "fold (deliver_one env e) (filter (\<lambda>u. u \<noteq> pe_from e) ms) (s\<lparr>vcache := ca\<rparr>)"
  have b0: "\<not> boxed u (pe_conv e) (pe_max_seq e) (s\<lparr>vcache := ca\<rparr>)" using assms(6) by (simp add: boxed_def)
  note F = fold_deliver_offline [OF assms(2,3), of e "filter (\<lambda>u. u \<noteq> pe_from e) ms" "s\<lparr>vcache := ca\<rparr>"]
  have D: "Deliver env e s = ?s1\<lparr>vmarks := mark_add (vslots s) (pe_conv e, pe_msg_id e) (vmarks s)\<rparr>"
    using assms(1,4) F by (simp add: Deliver_def Let_def)
  obtain m dbs where M: "mark_flush (i, None) (mark_add (vslots s) (pe_conv e, pe_msg_id e) (vmarks s), vshards s) = (m, dbs)"
    by force
  have s': "s' = (Deliver env e s)\<lparr>vmarks := m, vshards := dbs\<rparr>"
    using M F by (simp add: assms(8) flush_marks_def D)
  have "\<not> alive u (pe_conv e) (pe_max_seq e) (vpend s')" using assms(5) F by (simp add: s' D)
  moreover have "\<not> boxed u (pe_conv e) (pe_max_seq e) s'" using F b0 by (simp add: s' D boxed_def)
  moreover have "lm_status r \<noteq> 0" if "r \<in> set (local_table (vshards s') i)" "lm_key r = (pe_conv e, pe_msg_id e)" for r
    using flush_marks_done [where i = i and m = "mark_add (vslots s) (pe_conv e, pe_msg_id e) (vmarks s)" and
        r = r and dbs = "vshards s" and x = "(pe_conv e, pe_msg_id e)"]
      mark_added [of "(pe_conv e, pe_msg_id e)" "vslots s" "vmarks s"] that M by (simp add: s' assms(7))
  ultimately show ?thesis by blast
qed

subsection \<open>The in-process queue\<close>

inductive qrun :: "chans \<Rightarrow> PushEvent list \<Rightarrow> PushEvent list \<Rightarrow> bool" where
  start: "qrun NewChans [] []"
| send: "qrun chs sent taken \<Longrightarrow> chan_of (pe_conv e) chs = Some i \<Longrightarrow> chan_send i e chs = Some chs' \<Longrightarrow>
    qrun chs' (sent @ [e]) taken"
  \<comment> \<open>by \<open>JobPush\<close>, or by a waiting push that found room\<close>
| recv: "qrun chs sent taken \<Longrightarrow> chan_take i chs = Some (e, chs') \<Longrightarrow> qrun chs' sent (taken @ [e])"

definition of_conv :: "conv_id \<Rightarrow> PushEvent list \<Rightarrow> PushEvent list" where
  "of_conv c es = filter (\<lambda>e. pe_conv e = c) es"

lemma of_conv_simps [simp]: "of_conv c [] = []" "of_conv c (e # es) = (if pe_conv e = c then e # of_conv c es else of_conv c es)"
    "of_conv c (es @ fs) = of_conv c es @ of_conv c fs"
  by (simp_all add: of_conv_def)

lemma chan_of_length: "length chs' = length chs \<Longrightarrow> chan_of c chs' = chan_of c chs"
  by (simp add: chan_of_def)

lemma chan_of_lt: "chan_of c chs = Some i \<Longrightarrow> chs \<noteq> [] \<Longrightarrow> i < length chs"
  using go_mod_bounds [of "int (length chs)" c] by (auto simp: chan_of_def Let_def split: if_splits)

definition queue_ok :: "chans \<Rightarrow> PushEvent list \<Rightarrow> PushEvent list \<Rightarrow> bool" where
  "queue_ok chs sent taken \<longleftrightarrow> length chs = DeliverWorkers \<and>
     (\<forall>i < length chs. \<forall>e \<in> set (chs ! i). chan_of (pe_conv e) chs = Some i) \<and>
     (\<forall>c i. chan_of c chs = Some i \<longrightarrow> of_conv c sent = of_conv c taken @ of_conv c (chs ! i))"

lemma queue_ok_send:
  assumes "queue_ok chs sent taken" "chan_of (pe_conv e) chs = Some i" "chan_send i e chs = Some chs'"
  shows "queue_ok chs' (sent @ [e]) taken"
proof -
  have chs': "chs' = chs[i := chs ! i @ [e]]" using assms(3) by (auto simp: chan_send_def split: if_splits)
  have ne: "chs \<noteq> []" using assms(1) by (auto simp: queue_ok_def DeliverWorkers_def)
  have co: "chan_of c chs' = chan_of c chs" for c by (rule chan_of_length) (simp add: chs')
  have i: "i < length chs" by (rule chan_of_lt [OF assms(2) ne])
  show ?thesis
    unfolding queue_ok_def co
  proof (intro conjI allI impI ballI)
    show "length chs' = DeliverWorkers" using assms(1) by (simp add: chs' queue_ok_def)
    fix j x assume "j < length chs'" "x \<in> set (chs' ! j)"
    then show "chan_of (pe_conv x) chs = Some j"
      using assms(1,2) i by (auto simp: chs' queue_ok_def nth_list_update split: if_splits)
  next
    fix c j assume j: "chan_of c chs = Some j"
    then have "of_conv c sent = of_conv c taken @ of_conv c (chs ! j)" using assms(1) by (simp add: queue_ok_def)
    then show "of_conv c (sent @ [e]) = of_conv c taken @ of_conv c (chs' ! j)"
      using j assms(2) i chan_of_lt [OF j ne] by (auto simp: chs' nth_list_update)
  qed
qed

lemma queue_ok_recv:
  assumes "queue_ok chs sent taken" "chan_take i chs = Some (e, chs')"
  shows "queue_ok chs' sent (taken @ [e])"
proof -
  obtain es where i: "i < length chs" "chs ! i = e # es" "chs' = chs[i := es]"
    using assms(2) by (auto simp: chan_take_def split: if_splits list.splits)
  have ne: "chs \<noteq> []" using i by auto
  have co: "chan_of c chs' = chan_of c chs" for c by (rule chan_of_length) (simp add: i)
  have e: "chan_of (pe_conv e) chs = Some i" using assms(1) i by (auto simp: queue_ok_def)
  show ?thesis
    unfolding queue_ok_def co
  proof (intro conjI allI impI ballI)
    show "length chs' = DeliverWorkers" using assms(1) by (simp add: i queue_ok_def)
    fix j x assume "j < length chs'" "x \<in> set (chs' ! j)"
    then show "chan_of (pe_conv x) chs = Some j"
      using assms(1) i by (auto simp: queue_ok_def nth_list_update split: if_splits)
  next
    fix c j assume j: "chan_of c chs = Some j"
    then have "of_conv c sent = of_conv c taken @ of_conv c (chs ! j)" using assms(1) by (simp add: queue_ok_def)
    then show "of_conv c sent = of_conv c (taken @ [e]) @ of_conv c (chs' ! j)"
      using j e i chan_of_lt [OF j ne] by (auto simp: nth_list_update)
  qed
qed

lemma queue_ok_run: "qrun chs sent taken \<Longrightarrow> queue_ok chs sent taken"
proof (induction rule: qrun.induct)
  case start
  have "NewChans \<noteq> []" by (simp add: NewChans_def DeliverWorkers_def)
  then show ?case using chan_of_lt [of _ NewChans] by (auto simp: queue_ok_def) (auto simp: NewChans_def)
qed (auto intro: queue_ok_send queue_ok_recv)

text \<open>
  Order within a conversation: with any number of senders and workers, the events of a
  conversation leave the in-process queue in the order in which they entered it, none twice and
  none missing; those not yet taken are in the conversation's own channel.
\<close>

theorem queue_keeps_conversation_order:
  assumes "qrun chs sent taken" "chan_of c chs = Some i"
  shows "of_conv c sent = of_conv c taken @ of_conv c (chs ! i)"
  using queue_ok_run [OF assms(1)] assms(2) by (simp add: queue_ok_def)

subsection \<open>The consumer\<close>

inductive crun :: "nat \<Rightarrow> consumer \<Rightarrow> bool" for n0 :: nat where
  start: "crun n0 \<lparr>cn_next = n0, cn_pending = [], cn_committed = n0, cn_last_commit = now, cn_handled = []\<rparr>"
| consume: "crun n0 s \<Longrightarrow> crun n0 (consume_one ok now s)"
| reassign: "crun n0 s \<Longrightarrow> crun n0 (reassigned now s)"

definition consumer_ok :: "nat \<Rightarrow> consumer \<Rightarrow> bool" where
  "consumer_ok n0 s \<longleftrightarrow> n0 \<le> cn_committed s \<and> cn_committed s \<le> cn_next s \<and>
     {n0..<cn_next s} \<subseteq> set (cn_handled s) \<and> length (cn_pending s) < 64"

lemma consumer_ok_step: "consumer_ok n0 s \<Longrightarrow> consumer_ok n0 (consume_one ok now s)"
  by (auto simp: consumer_ok_def consume_one_def commit_offset_def Let_def atLeastLessThanSuc)

text \<open>
  At least once: along any sequence of fetches, commits that succeed or fail, crashes and
  rebalances, every message below the offset the broker has committed was given to the handler,
  and fewer than 64 handled messages are uncommitted in the reader's batch.
\<close>

theorem consumer_at_least_once:
  assumes "crun n0 s"
  shows "{n0..<cn_committed s} \<subseteq> set (cn_handled s) \<and> cn_committed s \<le> cn_next s \<and> length (cn_pending s) < 64"
proof -
  have "consumer_ok n0 s"
    using assms
  proof (induction rule: crun.induct)
    case (start now)
    then show ?case by (simp add: consumer_ok_def)
  next
    case (consume s ok now)
    then show ?case by (simp add: consumer_ok_step)
  next
    case (reassign s now)
    then show ?case by (auto simp: consumer_ok_def reassigned_def)
  qed
  then show ?thesis by (auto simp: consumer_ok_def)
qed

subsection \<open>Witnesses\<close>

definition demo_event :: PushEvent where
  "demo_event = \<lparr>pe_conv = 7, pe_max_seq = 3, pe_from = 1, pe_sync = 0, pe_msg_id = 5\<rparr>"

definition demo_deliverer :: deliverer where
  "demo_deliverer = \<lparr>vdb = empty_meta\<lparr>conversations := [\<lparr>cv_id = 7, cv_type = 2, cv_members = Some [1, 2],
       cv_last_seq = 0, cv_create = 0, cv_name = [], cv_avatar = []\<rparr>]\<rparr>,
     vshards = set_local_table 0 [\<lparr>lm_id = 5, lm_conv = 7, lm_status = 0, lm_create = 0\<rparr>] empty_shards,
     vslots = \<lparr>mapping = replicate SlotCount (MsgShard 0 0), overrides = 0\<rparr>, vcache = None, vsync = Some sync_start,
     vcluster = \<lparr>instances = [''c1''], last_resolve = 0, routes = None, push_log = []\<rparr>,
     vpend = (\<lambda>_. []), vtimers = [], vfiring = [], vmarks = (\<lambda>_. empty_batch)\<rparr>"

definition demo_push :: "bool \<Rightarrow> push_env" where
  "demo_push d = \<lparr>pv_now = 100, pv_redis = redis_up, pv_resolve = None, pv_rpc = (\<lambda>_ _. d)\<rparr>"

definition demo_denv :: "bool \<Rightarrow> string option \<Rightarrow> deliver_env" where
  "demo_denv d box = \<lparr>de_push = demo_push d, de_members = None, de_floor = (\<lambda>_. None), de_seq = (\<lambda>_. Inr 1), de_box = (\<lambda>_. box)\<rparr>"

lemma demo_members: "ConvMembers (pv_redis (de_push (demo_denv d b))) (de_members (demo_denv d b)) (pv_now (de_push (demo_denv d b)))
    (vcache demo_deliverer) (vdb demo_deliverer) (pe_conv demo_event) = (Inr [1, 2], None)"
  by (simp add: ConvMembers_def demo_denv_def demo_push_def demo_deliverer_def demo_event_def)

lemma deliver_reaches_members_witness:
  "alive 2 7 3 (vpend (Deliver (demo_denv True None) demo_event demo_deliverer)) \<or>
   (\<exists>r \<in> set (offline_box (vdb (Deliver (demo_denv True None) demo_event demo_deliverer))). ob_key r = (2, 7, 3))"
  using deliver_reaches_members [OF demo_members, of 2 True None] by (simp add: demo_event_def demo_denv_def)

lemma demo_slot: "DBIndex (RouteMsg (vslots demo_deliverer) c) = 0"
  using slot_of_lt [of c] by (simp add: RouteMsg_def demo_deliverer_def)

lemma failed_box_write_is_marked_done_witness:
  "\<not> alive 2 7 3 (vpend (flush_marks (0, None) (Deliver (demo_denv False (Some ''down'')) demo_event demo_deliverer))) \<and>
   (\<forall>r \<in> set (local_table (vshards (flush_marks (0, None) (Deliver (demo_denv False (Some ''down'')) demo_event demo_deliverer))) 0).
      lm_key r = (7, 5) \<longrightarrow> lm_status r \<noteq> 0)"
proof -
  have "\<not> alive 2 (pe_conv demo_event) (pe_max_seq demo_event) (vpend demo_deliverer)"
    "\<not> boxed 2 (pe_conv demo_event) (pe_max_seq demo_event) demo_deliverer"
    by (simp_all add: alive_def boxed_def demo_deliverer_def empty_meta_def)
  from failed_box_write_is_marked_done [OF demo_members _ _ _ this demo_slot [symmetric] refl, of False "Some ''down''"]
  show ?thesis by (simp add: demo_denv_def demo_push_def) (simp add: demo_event_def)
qed

lemma demo_waiting: "fresh_deliverer demo_deliverer" "dstep demo_deliverer (register 100 2 demo_event demo_deliverer)"
    "alive 2 7 3 (vpend (register 100 2 demo_event demo_deliverer))"
  by (simp_all add: fresh_deliverer_def demo_deliverer_def dstep.register alive_register demo_event_def)

lemma pending_push_has_retry_witness:
  "\<exists>t \<in> set (vtimers (register 100 2 demo_event demo_deliverer)) \<union> set (vfiring (register 100 2 demo_event demo_deliverer)).
     rt_uid t = 2 \<and> 1 \<le> rt_level t \<and> rt_level t \<le> 3"
  using pending_push_has_retry [OF r_into_rtranclp [where r = dstep, OF demo_waiting(2)] demo_waiting(1,3)] by blast

lemma retries_end_in_offline_box_witness:
  "boxed 2 7 3 (fold (run_timer (2, 7, 3)) (replicate 3 \<lparr>te_push = demo_push False, te_now = 100, te_box = None\<rparr>)
     (register 100 2 demo_event demo_deliverer))"
proof -
  let ?xs = "replicate 3 \<lparr>te_push = demo_push False, te_now = 100, te_box = None\<rparr>"
  have "3 * length (filter (\<lambda>t. rt_key t = (2, 7, 3)) (vtimers (register 100 2 demo_event demo_deliverer))) \<le> length ?xs"
    "\<forall>t \<in> set (vfiring (register 100 2 demo_event demo_deliverer)). rt_key t \<noteq> (2, 7, 3)"
    by (simp_all add: register_def fire_def demo_deliverer_def Let_def)
  from retries_end_in_offline_box [OF r_into_rtranclp [where r = dstep, OF demo_waiting(2)] demo_waiting(1) this(2,1)]
    demo_waiting(3) show ?thesis by (auto simp del: replicate.simps)
qed

lemma queue_keeps_conversation_order_witness:
  "\<exists>chs. chan_send 7 demo_event NewChans = Some chs \<and> of_conv 7 [demo_event] = of_conv 7 (chs ! 7)"
proof -
  have c: "chan_of (pe_conv demo_event) NewChans = Some 7"
    by (simp add: chan_of_def NewChans_def DeliverWorkers_def demo_event_def go_mod_def)
  obtain chs where s: "chan_send 7 demo_event NewChans = Some chs"
    by (simp add: chan_send_def NewChans_def DeliverWorkers_def deliveryQueueSize_def)
  have r: "qrun chs ([] @ [demo_event]) []" by (rule qrun.send [OF qrun.start c s])
  have "length chs = length NewChans" using s by (auto simp: chan_send_def split: if_splits)
  then have "chan_of 7 chs = Some 7" using c chan_of_length [of chs NewChans 7] by (simp add: demo_event_def)
  from queue_keeps_conversation_order [OF r this] s show ?thesis by simp
qed

lemma consumer_at_least_once_witness:
  "{4..<cn_committed (consume_one True 900 \<lparr>cn_next = 4, cn_pending = [], cn_committed = 4, cn_last_commit = 0, cn_handled = []\<rparr>)}
     \<subseteq> {4} \<and>
   cn_committed (consume_one True 900 \<lparr>cn_next = 4, cn_pending = [], cn_committed = 4, cn_last_commit = 0, cn_handled = []\<rparr>) = 5"
  using consumer_at_least_once [OF crun.consume [OF crun.start], of 4 True 900 0]
  by (simp add: consume_one_def commit_offset_def)

end
