(* ===== verification/Kafka.thy ===== *)
theory Kafka
  imports DeliverySafety
begin

text \<open>
  The Kafka producers of the delivery layer (\<open>internal/message/kafka.go\<close>): partition keys, the push
  and the acknowledgement topic. The writers are asynchronous: an event can be lost, and its loss
  is only logged. The protobuf encoding and the hash of the balancer are parameters.
\<close>

type_synonym kbytes = "8 word list"
type_synonym kafka_log = "nat \<Rightarrow> (kbytes \<times> string) list"  \<comment> \<open>the partitions of a topic\<close>

record kafka_codec =
  kc_push :: "PushEvent \<Rightarrow> string option"  \<comment> \<open>\<open>proto.Marshal\<close>\<close>
  kc_ack :: "uid \<times> conv_id \<times> int \<Rightarrow> string option"
  kc_job :: job_codec
  kc_part :: "kbytes \<Rightarrow> nat"  \<comment> \<open>\<open>kafka.Hash\<close>\<close>

definition PutUint64 :: "64 word \<Rightarrow> kbytes" where
  "PutUint64 w = map (\<lambda>n. ucast (drop_bit n w)) [56, 48, 40, 32, 24, 16, 8, 0]"

definition convKey :: "conv_id \<Rightarrow> kbytes" where
  "convKey c = PutUint64 (word_of_int c)"

definition WriteMessages :: "kafka_codec \<Rightarrow> bool \<Rightarrow> kbytes \<Rightarrow> string \<Rightarrow> kafka_log \<Rightarrow> kafka_log" where
  "WriteMessages cd lost key v l =
     (if lost then l else l(kc_part cd key := l (kc_part cd key) @ [(key, v)]))"

definition KafkaPush :: "kafka_codec \<Rightarrow> bool \<Rightarrow> PushEvent \<Rightarrow> kafka_log \<Rightarrow> kafka_log" where
  "KafkaPush cd lost e l =
     (case kc_push cd e of None \<Rightarrow> l | Some v \<Rightarrow> WriteMessages cd lost (convKey (pe_conv e)) v l)"

definition KafkaAckPush :: "kafka_codec \<Rightarrow> bool \<Rightarrow> uid \<Rightarrow> conv_id \<Rightarrow> int \<Rightarrow> kafka_log \<Rightarrow> kafka_log" where
  "KafkaAckPush cd lost u c q l =
     (case kc_ack cd (u, c, q) of None \<Rightarrow> l | Some v \<Rightarrow> WriteMessages cd lost (convKey c) v l)"

subsection \<open>Keys and order\<close>

lemma PutUint64_inj: "PutUint64 v = PutUint64 w \<longleftrightarrow> v = w"
proof
  assume eq: "PutUint64 v = PutUint64 w"
  have bits: "bit (ucast (drop_bit n x) :: 8 word) i \<longleftrightarrow> i < 8 \<and> bit x (n + i)" for x :: "64 word" and n i
    by (simp add: bit_simps)
  have part: "bit v (n + i) = bit w (n + i)" if "n \<in> {56, 48, 40, 32, 24, 16, 8, 0}" "i < 8" for n i
  proof -
    have "(ucast (drop_bit n v) :: 8 word) = ucast (drop_bit n w)" using eq that(1) by (auto simp: PutUint64_def)
    then have "bit (ucast (drop_bit n v) :: 8 word) i = bit (ucast (drop_bit n w) :: 8 word) i" by simp
    then show ?thesis using that(2) by (simp add: bits)
  qed
  show "v = w"
  proof (rule bit_word_eqI)
    fix k assume "k < LENGTH(64)"
    then have "8 * (k div 8) \<in> {56, 48, 40, 32, 24, 16, 8, 0}" by (auto simp: less_mult_imp_div_less)
    then show "bit v k = bit w k" using part [of "8 * (k div 8)" "k mod 8"] by simp
  qed
qed simp

definition int64 :: "int \<Rightarrow> bool" where
  "int64 v \<longleftrightarrow> - (2 ^ 63) \<le> v \<and> v < 2 ^ 63"

lemma convKey_inj:
  assumes "int64 c" "int64 d" "convKey c = convKey d"
  shows "c = d"
proof -
  have "(word_of_int c :: 64 word) = word_of_int d" using assms(3) by (simp add: convKey_def PutUint64_inj)
  then have "sint (word_of_int c :: 64 word) = sint (word_of_int d :: 64 word)" by simp
  then show ?thesis using assms(1,2) by (simp add: int64_def sint_sbintrunc' signed_take_bit_int_eq_self)
qed

definition events_of :: "job_codec \<Rightarrow> conv_id \<Rightarrow> (kbytes \<times> string) list \<Rightarrow> PushEvent list" where
  \<comment> \<open>what the consumer of a partition decodes for a conversation\<close>
  "events_of jc c l = filter (\<lambda>e. pe_conv e = c) (List.map_filter (decode_push jc \<circ> snd) l)"

definition sent :: "kafka_codec \<Rightarrow> conv_id \<Rightarrow> (bool \<times> PushEvent) list \<Rightarrow> PushEvent list" where
  \<comment> \<open>the events of a conversation that were not lost\<close>
  "sent cd c es = map snd (filter (\<lambda>(lost, e). \<not> lost \<and> kc_push cd e \<noteq> None \<and> pe_conv e = c) es)"

lemma events_of_snoc: "events_of jc c (l @ [(k, v)]) =
    events_of jc c l @ (case decode_push jc v of None \<Rightarrow> [] | Some e \<Rightarrow> if pe_conv e = c then [e] else [])"
  by (auto simp: events_of_def List.map_filter_def split: option.split)

text \<open>
  A conversation is one partition in order: whatever events the senders produce and whichever the
  asynchronous writer loses, all events of a conversation that arrive lie in the partition of its
  key, in the order they were sent and as they were sent, and every record there carries the key of
  its event.
\<close>

theorem kafka_keeps_conversation_order:
  fixes es :: "(bool \<times> PushEvent) list"
  assumes "\<And>e v. kc_push cd e = Some v \<Longrightarrow> decode_push (kc_job cd) v = Some e"
  defines "l \<equiv> fold (\<lambda>(lost, e). KafkaPush cd lost e) es (\<lambda>_. [])"
  shows "events_of (kc_job cd) c (l p) = (if p = kc_part cd (convKey c) then sent cd c es else []) \<and>
    (\<forall>(k, v) \<in> set (l p). \<exists>e. decode_push (kc_job cd) v = Some e \<and> k = convKey (pe_conv e) \<and> kc_part cd k = p)"
  unfolding l_def
proof (induction es rule: rev_induct)
  case Nil
  then show ?case by (simp add: events_of_def sent_def List.map_filter_simps)
next
  case (snoc x es)
  obtain lost e where x: "x = (lost, e)" by force
  let ?l = "fold (\<lambda>(lost, e). KafkaPush cd lost e) es (\<lambda>_. [])"
  show ?case
  proof (cases "kc_push cd e = None \<or> lost")
    case True
    then have "KafkaPush cd lost e ?l = ?l" by (auto simp: KafkaPush_def WriteMessages_def split: option.split)
    moreover have "sent cd c (es @ [x]) = sent cd c es" using True x by (auto simp: sent_def)
    ultimately show ?thesis using snoc x by simp
  next
    case False
    then obtain v where v: "kc_push cd e = Some v" by auto
    let ?k = "convKey (pe_conv e)"
    have push: "KafkaPush cd lost e ?l = ?l(kc_part cd ?k := ?l (kc_part cd ?k) @ [(?k, v)])"
      using v False by (simp add: KafkaPush_def WriteMessages_def)
    have "sent cd c (es @ [x]) = sent cd c es @ (if pe_conv e = c then [e] else [])"
      using False x v by (simp add: sent_def)
    then show ?thesis
      using snoc x push assms(1) [OF v] by (auto simp: events_of_snoc)
  qed
qed

lemma kafka_keeps_conversation_order_witness:
  "\<exists>cd l. kc_part cd (convKey 7) = 7 \<and> (\<forall>e v. kc_push cd e = Some v \<longrightarrow> decode_push (kc_job cd) v = Some e) \<and>
     l = fold (\<lambda>(lost, e). KafkaPush cd lost e)
       [(False, demo_event), (True, demo_event\<lparr>pe_conv := 8\<rparr>), (False, demo_event\<lparr>pe_conv := 8\<rparr>)] (\<lambda>_. []) \<and>
     events_of (kc_job cd) 7 (l 7) = [demo_event] \<and> events_of (kc_job cd) 7 (l 8) = []"
proof -
  let ?dec = "\<lambda>v. if v = ''7'' then Some demo_event else if v = ''8'' then Some (demo_event\<lparr>pe_conv := 8\<rparr>) else None"
  let ?enc = "\<lambda>e. if e = demo_event then Some ''7'' else if e = demo_event\<lparr>pe_conv := 8\<rparr> then Some ''8'' else None"
  let ?cd = "\<lparr>kc_push = ?enc, kc_ack = (\<lambda>_. None), kc_job = \<lparr>decode_push = ?dec, decode_ack = (\<lambda>_. None)\<rparr>,
    kc_part = (\<lambda>k. unat (last k))\<rparr>"
  let ?es = "[(False, demo_event), (True, demo_event\<lparr>pe_conv := 8\<rparr>), (False, demo_event\<lparr>pe_conv := 8\<rparr>)]"
  have ne: "demo_event\<lparr>pe_conv := 8\<rparr> \<noteq> demo_event" by (simp add: demo_event_def)
  have codec: "kc_push ?cd e = Some v \<Longrightarrow> decode_push (kc_job ?cd) v = Some e" for e v
    using ne by (auto split: if_splits)
  have key: "kc_part ?cd (convKey 7) = 7" by (simp add: convKey_def PutUint64_def)
  have s: "sent ?cd 7 ?es = [demo_event]" using ne by (simp add: sent_def demo_event_def)
  from kafka_keeps_conversation_order [of ?cd 7 ?es, OF codec] key s codec
  show ?thesis by (intro exI [of _ ?cd] exI [of _ "fold (\<lambda>(lost, e). KafkaPush ?cd lost e) ?es (\<lambda>_. [])"]) simp
qed

end
