(* ===== verification/Compensation.thy ===== *)
theory Compensation
  imports DeliverySafety
begin

text \<open>
  The background tasks of \<open>internal/message/compensation.go\<close>, over the state of the deliverer they share
  with the job service: the scan that redelivers what was left over, the offline box, the
  reconciliation of the conversations' last sequence numbers, the signal to rebuild the Bloom
  filter, and the cleanup of finished delivery tasks. A query without \<open>ORDER BY\<close> returns rows in
  the order in which the table holds them, which is any order.
\<close>

definition scanGrace :: int where "scanGrace = 60 * 1000"
definition scanBatch :: nat where "scanBatch = 200"
definition offlineBoxTTL :: int where "offlineBoxTTL = 7 * 24 * 3600 * 1000"

definition scan_int :: "string \<Rightarrow> int option" where
  \<comment> \<open>\<open>fmt.Sscanf(shard, "%d", &n)\<close>: leading blanks, a sign, digits; what follows them is not looked at\<close>
  "scan_int s =
     (let s1 = dropWhile (\<lambda>c. c = CHR '' '') s;
          neg = has_prefix ''-'' s1;
          body = takeWhile (\<lambda>c. digit_val c \<noteq> None) (if neg \<or> has_prefix ''+'' s1 then tl s1 else s1)
      in parse_int (if neg then ''-'' @ body else body))"

definition dbShards :: "string list" where
  "dbShards = map nat_str [0..<MsgDBCount]"

datatype exec_result = ExecOk | ExecErr string | ExecPanic
  \<comment> \<open>\<open>ExecPanic\<close>: a negative number of a message database\<close>

subsection \<open>The scan for leftovers\<close>

record scan_env =
  sn_now :: int
  sn_query :: "string option"
  sn_load :: "conv_id \<times> int \<Rightarrow> string option"
  sn_mark :: "conv_id \<times> int \<Rightarrow> string option"
  sn_deliver :: "conv_id \<times> int \<Rightarrow> deliver_env"

definition leftovers :: "int \<Rightarrow> local_row list \<Rightarrow> (conv_id \<times> int) list" where
  "leftovers now t = take scanBatch
     (map lm_key (filter (\<lambda>r. lm_status r = 0 \<and> lm_create r < now - scanGrace) t))"

definition redeliverOne :: "scan_env \<Rightarrow> nat \<Rightarrow> conv_id \<times> int \<Rightarrow> deliverer \<Rightarrow> deliverer" where
  \<comment> \<open>an error is logged by the caller and the next row follows\<close>
  "redeliverOne env db k s =
     (if sn_load env k \<noteq> None then s
      else case find (\<lambda>r. ms_conv r = fst k \<and> ms_id r = snd k) (msg_table (vshards s) (RouteMsg (vslots s) (fst k))) of
          None \<Rightarrow> (if sn_mark env k \<noteq> None then s
                   else s\<lparr>vshards := set_local_table db (mark_done [k] (local_table (vshards s) db)) (vshards s)\<rparr>)
        | Some r \<Rightarrow> Deliver (sn_deliver env k)
            \<lparr>pe_conv = fst k, pe_max_seq = ms_seq r, pe_from = ms_from r, pe_sync = 0, pe_msg_id = snd k\<rparr> s)"

definition scan_Exec :: "scan_env \<Rightarrow> string \<Rightarrow> deliverer \<Rightarrow> exec_result \<times> deliverer" where
  "scan_Exec env shard s =
     (case scan_int shard of
        None \<Rightarrow> (ExecErr ''bad shard'', s)
      | Some i \<Rightarrow>
          (if int MsgDBCount \<le> i then (ExecErr ''bad shard'', s)
           else if i < 0 then (ExecPanic, s)
           else case sn_query env of
               Some e \<Rightarrow> (ExecErr (''scan local_message: '' @ e), s)
             | None \<Rightarrow> (ExecOk, fold (redeliverOne env (nat i)) (leftovers (sn_now env) (local_table (vshards s) (nat i))) s)))"

subsection \<open>The offline box\<close>

record box_env =
  bx_now :: int
  bx_query :: "string option"
  bx_push :: "offline_row \<Rightarrow> push_env"
  bx_mark :: "offline_row \<Rightarrow> string option"

definition box_batch :: "int \<Rightarrow> offline_row list \<Rightarrow> offline_row list" where
  "box_batch bucket t = take scanBatch (filter (\<lambda>r. ob_status r = 0 \<and> go_mod (ob_uid r) 16 = bucket) t)"

definition box_markDone :: "string option \<Rightarrow> offline_row \<Rightarrow> deliverer \<Rightarrow> deliverer" where
  "box_markDone fault e s =
     (if fault \<noteq> None then s
      else s\<lparr>vdb := (vdb s)\<lparr>offline_box :=
        row_upd (\<lambda>r. ob_key r = ob_key e \<and> ob_status r = 0) (\<lambda>r. r\<lparr>ob_status := 1\<rparr>) (offline_box (vdb s))\<rparr>\<rparr>)"

definition box_expired :: "int \<Rightarrow> offline_row \<Rightarrow> bool" where
  "box_expired now e \<longleftrightarrow> offlineBoxTTL < now - ob_create e"

definition box_entry :: "box_env \<Rightarrow> offline_row \<Rightarrow> deliverer \<Rightarrow> deliverer" where
  "box_entry env e s =
     (if box_expired (bx_now env) e then box_markDone (bx_mark env e) e s
      else (case PushAll (bx_push env e) \<lparr>cr_uid = ob_uid e, cr_conv = ob_conv e, cr_max_seq = ob_seq e, cr_from = 0, cr_sync = 0\<rparr>
                   (vcluster s) of
          (delivered, cl) \<Rightarrow> (if delivered then box_markDone (bx_mark env e) e (s\<lparr>vcluster := cl\<rparr>) else s\<lparr>vcluster := cl\<rparr>)))"

definition box_Shards :: "string list" where "box_Shards = map nat_str [0..<16]"

definition box_Exec :: "box_env \<Rightarrow> string \<Rightarrow> deliverer \<Rightarrow> exec_result \<times> deliverer" where
  "box_Exec env shard s =
     (case scan_int shard of
        None \<Rightarrow> (ExecErr ''bad shard'', s)
      | Some bucket \<Rightarrow>
          (case bx_query env of
             Some e \<Rightarrow> (ExecErr (''scan offline_box: '' @ e), s)
           | None \<Rightarrow> (ExecOk, fold (box_entry env) (box_batch bucket (offline_box (vdb s))) s)))"

subsection \<open>The last sequence numbers\<close>

record unread_env =
  un_query :: "string option"
  un_max :: "conv_id \<Rightarrow> string option"
  un_update :: "conv_id \<Rightarrow> string option"

definition max_seq_of :: "message_row list \<Rightarrow> conv_id \<Rightarrow> int" where
  \<comment> \<open>SELECT COALESCE(MAX(seq), 0)\<close>
  "max_seq_of t c = (case map ms_seq (filter (\<lambda>r. ms_conv r = c) t) of [] \<Rightarrow> 0 | q # qs \<Rightarrow> fold max qs q)"

definition conv_max :: "deliverer \<Rightarrow> conv_id \<Rightarrow> int" where
  "conv_max s c = max_seq_of (msg_table (vshards s) (RouteMsg (vslots s) c)) c"

definition unread_batch :: "int \<Rightarrow> conv_row list \<Rightarrow> (conv_id \<times> int) list" where
  "unread_batch bucket t = map (\<lambda>r. (cv_id r, cv_last_seq r)) (take 500 (filter (\<lambda>r. go_mod (cv_id r) 8 = bucket) t))"

fun reconcile :: "unread_env \<Rightarrow> (conv_id \<times> int) list \<Rightarrow> deliverer \<Rightarrow> exec_result \<times> deliverer" where
  "reconcile env [] s = (ExecOk, s)"
| "reconcile env ((c, lastSeq) # cs) s =
     (if un_max env c \<noteq> None then (ExecErr (''max seq conv'' @ the (un_max env c)), s)
      else if conv_max s c \<le> lastSeq then reconcile env cs s
      else if un_update env c \<noteq> None then reconcile env cs s
      else reconcile env cs (s\<lparr>vdb := bump_last_seq c (conv_max s c) (vdb s)\<rparr>))"

definition unread_Shards :: "string list" where "unread_Shards = map nat_str [0..<8]"

definition unread_Exec :: "unread_env \<Rightarrow> string \<Rightarrow> deliverer \<Rightarrow> exec_result \<times> deliverer" where
  "unread_Exec env shard s =
     (case scan_int shard of
        None \<Rightarrow> (ExecErr ''bad shard'', s)
      | Some bucket \<Rightarrow>
          (case un_query env of
             Some e \<Rightarrow> (ExecErr (''scan conversations: '' @ e), s)
           | None \<Rightarrow> reconcile env (unread_batch bucket (conversations (vdb s))) s))"

subsection \<open>The cleanup\<close>

definition finished :: "int \<Rightarrow> local_row \<Rightarrow> bool" where
  "finished cutoff r \<longleftrightarrow> lm_status r = 1 \<and> lm_create r < cutoff"

fun delete_limit :: "nat \<Rightarrow> ('r \<Rightarrow> bool) \<Rightarrow> 'r list \<Rightarrow> nat \<times> 'r list" where
  \<comment> \<open>DELETE ... WHERE ... LIMIT: the rows affected, and what stays\<close>
  "delete_limit n P [] = (0, [])"
| "delete_limit 0 P t = (0, t)"
| "delete_limit (Suc n) P (r # t) =
     (if P r then (case delete_limit n P t of (k, t') \<Rightarrow> (Suc k, t'))
      else (case delete_limit (Suc n) P t of (k, t') \<Rightarrow> (k, r # t')))"

lemma delete_limit_count: "fst (delete_limit n P t) = min n (length (filter P t)) \<and>
    length (snd (delete_limit n P t)) + fst (delete_limit n P t) = length t"
  by (induction n P t rule: delete_limit.induct) (auto split: prod.split)

lemma delete_limit_less: "delete_limit n P t = (k, t') \<Longrightarrow> \<not> k < 1000 \<Longrightarrow> length t' < length t"
  using delete_limit_count [of n P t] by simp

function cleanup_loop :: "(nat \<Rightarrow> string option) \<Rightarrow> int \<Rightarrow> nat \<Rightarrow> local_row list \<Rightarrow> exec_result \<times> local_row list" where
  \<comment> \<open>round \<open>i\<close> of the loop; \<open>flt i\<close>: its statement fails\<close>
  "cleanup_loop flt cutoff i t =
     (if flt i \<noteq> None then (ExecErr (''cleanup local_message: '' @ the (flt i)), t)
      else (case delete_limit 1000 (finished cutoff) t of
          (n, t') \<Rightarrow> if n < 1000 then (ExecOk, t') else cleanup_loop flt cutoff (Suc i) t'))"
  by pat_completeness auto
termination
  by (relation "measure (\<lambda>(flt, cutoff, i, t). length t)") (auto dest: delete_limit_less [OF sym])

declare cleanup_loop.simps [simp del]

definition cleanup_Exec :: "(nat \<Rightarrow> string option) \<Rightarrow> int \<Rightarrow> string \<Rightarrow> deliverer \<Rightarrow> exec_result \<times> deliverer" where
  "cleanup_Exec flt now shard s =
     (case scan_int shard of
        None \<Rightarrow> (ExecErr ''bad shard'', s)
      | Some i \<Rightarrow>
          (if int MsgDBCount \<le> i then (ExecErr ''bad shard'', s)
           else if i < 0 then (ExecPanic, s)
           else (case cleanup_loop flt (now - offlineBoxTTL) 0 (local_table (vshards s) (nat i)) of
               (r, t) \<Rightarrow> (r, s\<lparr>vshards := set_local_table (nat i) t (vshards s)\<rparr>))))"

subsection \<open>The rebuild signal\<close>

definition bloom_Exec :: "bool \<Rightarrow> string option \<Rightarrow> string list \<Rightarrow> exec_result \<times> string list" where
  \<comment> \<open>\<open>BloomRebuildTask.Exec\<close>: whether there is a client, the failure of PUBLISH, the messages on the channel\<close>
  "bloom_Exec client fault ch =
     (if \<not> client then (ExecErr ''redis unavailable (bloom rebuild needs pub/sub)'', ch)
      else case fault of Some e \<Rightarrow> (ExecErr e, ch) | None \<Rightarrow> (ExecOk, ch @ [''7'']))"

subsection \<open>The cleanup deletes what is finished and nothing else\<close>

lemma delete_limit_keeps: "filter (\<lambda>r. \<not> P r) (snd (delete_limit n P t)) = filter (\<lambda>r. \<not> P r) t"
  by (induction n P t rule: delete_limit.induct) (auto split: prod.splits)

lemma delete_limit_all: "fst (delete_limit n P t) < n \<Longrightarrow> snd (delete_limit n P t) = filter (\<lambda>r. \<not> P r) t"
  by (induction n P t rule: delete_limit.induct) (auto split: prod.splits)

lemma cleanup_loop_spec:
  "cleanup_loop flt cutoff i t = (r, t') \<Longrightarrow>
    filter (\<lambda>x. \<not> finished cutoff x) t' = filter (\<lambda>x. \<not> finished cutoff x) t \<and> r \<noteq> ExecPanic \<and>
    (r = ExecOk \<longrightarrow> t' = filter (\<lambda>x. \<not> finished cutoff x) t) \<and> ((\<forall>j. flt j = None) \<longrightarrow> r = ExecOk)"
proof (induction flt cutoff i t rule: cleanup_loop.induct)
  case (1 flt cutoff i t)
  obtain n u where d: "delete_limit 1000 (finished cutoff) t = (n, u)" by force
  have k: "filter (\<lambda>x. \<not> finished cutoff x) u = filter (\<lambda>x. \<not> finished cutoff x) t"
    "n < 1000 \<Longrightarrow> u = filter (\<lambda>x. \<not> finished cutoff x) t"
    using delete_limit_keeps [of "finished cutoff" 1000 t] delete_limit_all [of 1000 "finished cutoff" t] d by auto
  show ?case
  proof (cases "flt i")
    case None
    show ?thesis
    proof (cases "n < 1000")
      case True
      with 1 None d k show ?thesis by (auto simp: cleanup_loop.simps [of flt cutoff i t])
    next
      case False
      then have "cleanup_loop flt cutoff (Suc i) u = (r, t')"
        using 1(2) None d by (simp add: cleanup_loop.simps [of flt cutoff i t])
      from 1(1) [OF _ d [symmetric] _ this] None False k show ?thesis by auto
    qed
  next
    case (Some e)
    with 1(2) show ?thesis by (auto simp: cleanup_loop.simps [of flt cutoff i t])
  qed
qed

text \<open>
  C29: The cleanup of delivery tasks ends, whatever the database answers, and loses no task that is
  open or recent: on every outcome the tasks that are not both done and older than seven days are
  still there, in order, in the database it was given, and no other table has changed; when it
  reports success all the others are gone, and it does when no statement fails.
\<close>

theorem cleanup_total_and_exact:
  assumes "cleanup_Exec flt now shard s = (r, s')" "scan_int shard = Some i" "0 \<le> i" "i < int MsgDBCount"
  shows "filter (\<lambda>x. \<not> (lm_status x = 1 \<and> lm_create x < now - 604800000)) (local_table (vshards s') (nat i)) =
      filter (\<lambda>x. \<not> (lm_status x = 1 \<and> lm_create x < now - 604800000)) (local_table (vshards s) (nat i)) \<and>
    (j \<noteq> nat i \<longrightarrow> local_table (vshards s') j = local_table (vshards s) j) \<and>
    msg_table (vshards s') sh = msg_table (vshards s) sh \<and> r \<noteq> ExecPanic \<and>
    (r = ExecOk \<longrightarrow> local_table (vshards s') (nat i) = filter (\<lambda>x. \<not> (lm_status x = 1 \<and> lm_create x < now - 604800000)) (local_table (vshards s) (nat i))) \<and>
    ((\<forall>n. flt n = None) \<longrightarrow> r = ExecOk)"
proof -
  obtain q t where q: "cleanup_loop flt (now - 604800000) 0 (local_table (vshards s) (nat i)) = (q, t)" by force
  then have "r = q" "s' = s\<lparr>vshards := set_local_table (nat i) t (vshards s)\<rparr>"
    using assms by (auto simp: cleanup_Exec_def offlineBoxTTL_def)
  with cleanup_loop_spec [OF q, unfolded finished_def] show ?thesis by auto
qed

subsection \<open>Last sequence numbers catch up\<close>

lemma unread_bump_simps [simp]: "vshards (s\<lparr>vdb := d\<rparr>) = vshards s" "conv_max (s\<lparr>vdb := d\<rparr>) c = conv_max s c"
  by (simp_all add: conv_max_def)

definition caught_up :: "deliverer \<Rightarrow> conv_row \<Rightarrow> conv_row" where
  "caught_up s r = r\<lparr>cv_last_seq := max (cv_last_seq r) (conv_max s (cv_id r))\<rparr>"

lemma reconcile_all:
  assumes "\<And>c. un_max env c = None" "\<And>c. un_update env c = None"
  shows "reconcile env rows s = (ExecOk, s\<lparr>vdb := fold (\<lambda>(c, l) d. if conv_max s c \<le> l then d else bump_last_seq c (conv_max s c) d) rows (vdb s)\<rparr>)"
proof (induction rows arbitrary: s)
  case (Cons x rows)
  obtain c l where x: "x = (c, l)" by force
  show ?case by (simp add: assms x Cons cong: if_cong)
qed simp

lemma fold_bump:
  "distinct (map fst rows) \<Longrightarrow> (\<And>r. r \<in> set t \<Longrightarrow> cv_id r \<in> fst ` set rows \<Longrightarrow> map_of rows (cv_id r) = Some (cv_last_seq r)) \<Longrightarrow>
    conversations (fold (\<lambda>(c, l) d. if m c \<le> l then d else bump_last_seq c (m c) d) rows (db\<lparr>conversations := t\<rparr>)) =
    map (\<lambda>r. if cv_id r \<in> fst ` set rows then r\<lparr>cv_last_seq := max (cv_last_seq r) (m (cv_id r))\<rparr> else r) t"
proof (induction rows arbitrary: t)
  case (Cons x rows)
  obtain c l where x: "x = (c, l)" by force
  let ?t = "if m c \<le> l then t else row_upd (\<lambda>r. cv_id r = c \<and> cv_last_seq r < m c) (\<lambda>r. r\<lparr>cv_last_seq := m c\<rparr>) t"
  have new: "c \<notin> fst ` set rows" "distinct (map fst rows)" using Cons.prems(1) x by auto
  have step: "(case x of (c, l) \<Rightarrow> \<lambda>d. if m c \<le> l then d else bump_last_seq c (m c) d) (db\<lparr>conversations := t\<rparr>) = db\<lparr>conversations := ?t\<rparr>"
    by (simp add: x bump_last_seq_def)
  have pre: "map_of rows (cv_id r) = Some (cv_last_seq r)" if "r \<in> set ?t" "cv_id r \<in> fst ` set rows" for r
  proof -
    have "r \<in> set t"
    proof (cases "m c \<le> l")
      case False
      with that(1) obtain y where y: "y \<in> set t" "r = (if cv_id y = c \<and> cv_last_seq y < m c then y\<lparr>cv_last_seq := m c\<rparr> else y)"
        by (auto simp: set_row_upd)
      with that(2) new(1) show ?thesis by (cases "cv_id y = c \<and> cv_last_seq y < m c") simp_all
    qed (use that(1) in simp)
    with Cons.prems(2) [of r] that(2) new x show ?thesis by (auto split: if_splits)
  qed
  have l: "l = cv_last_seq r" if "r \<in> set t" "cv_id r = c" for r
    using Cons.prems(2) [OF that(1)] that(2) x by simp
  have "conversations (fold (\<lambda>(c, l) d. if m c \<le> l then d else bump_last_seq c (m c) d) (x # rows) (db\<lparr>conversations := t\<rparr>)) =
      conversations (fold (\<lambda>(c, l) d. if m c \<le> l then d else bump_last_seq c (m c) d) rows (db\<lparr>conversations := ?t\<rparr>))"
    by (simp only: fold_simps comp_apply step)
  also have "\<dots> = map (\<lambda>r. if cv_id r \<in> fst ` set rows then r\<lparr>cv_last_seq := max (cv_last_seq r) (m (cv_id r))\<rparr> else r) ?t"
    by (rule Cons.IH [OF new(2) pre])
  also have "\<dots> = map (\<lambda>r. if cv_id r \<in> fst ` set (x # rows) then r\<lparr>cv_last_seq := max (cv_last_seq r) (m (cv_id r))\<rparr> else r) t"
    using new(1) x l by (auto simp: row_upd_def max_def)
  finally show ?case .
qed simp

text \<open>
  The reconciliation brings the last sequence numbers up to the messages and never down: with
  nothing failing, a run of a bucket sets \<open>last_seq\<close> of each of its first 500 conversations to the
  larger of its old value and the largest number among the conversation's messages, and
  changes no other row; the conversations of the bucket after the first 500 the query returns are left
  behind in every run.
\<close>

theorem reconcile_catches_up_first_500:
  assumes "scan_int shard = Some bucket" "un_query env = None" "\<And>c. un_max env c = None" "\<And>c. un_update env c = None"
    and "pk_ok cv_id (conversations (vdb s))"
  shows "\<exists>s'. unread_Exec env shard s = (ExecOk, s') \<and>
    conversations (vdb s') = map (\<lambda>r. if r \<in> set (take 500 (filter (\<lambda>r. go_mod (cv_id r) 8 = bucket) (conversations (vdb s))))
       then caught_up s r else r) (conversations (vdb s))"
proof -
  let ?t = "conversations (vdb s)"
  let ?b = "take 500 (filter (\<lambda>r. go_mod (cv_id r) 8 = bucket) ?t)"
  let ?rows = "unread_batch bucket ?t"
  have inj: "inj_on cv_id (set ?t)" "distinct ?t" using assms(5) by (simp_all add: pk_ok_def distinct_map)
  have sub: "set ?b \<subseteq> set ?t" using set_take_subset by fastforce
  have ids: "fst ` set ?rows = cv_id ` set ?b" by (auto simp: unread_batch_def image_iff)
  have "distinct ?b" using inj(2) by simp
  then have d: "distinct (map fst ?rows)"
    using inj_on_subset [OF inj(1) sub] by (simp add: unread_batch_def comp_def distinct_map)
  have hit: "cv_id r \<in> fst ` set ?rows \<longleftrightarrow> r \<in> set ?b" if "r \<in> set ?t" for r
    unfolding ids using inj_on_image_mem_iff [OF inj(1) that sub] .
  have m: "map_of ?rows (cv_id r) = Some (cv_last_seq r)" if "r \<in> set ?t" "cv_id r \<in> fst ` set ?rows" for r
    using hit [OF that(1)] that(2) d by (auto simp: unread_batch_def intro!: map_of_is_SomeI)
  have "conversations (fold (\<lambda>(c, l) d. if conv_max s c \<le> l then d else bump_last_seq c (conv_max s c) d) ?rows
      ((vdb s)\<lparr>conversations := ?t\<rparr>)) = map (\<lambda>r. if r \<in> set ?b then caught_up s r else r) ?t"
    by (subst fold_bump [OF d m], assumption, assumption) (intro map_cong refl, simp only: hit caught_up_def)
  then show ?thesis
    using assms(1,2) by (simp add: unread_Exec_def reconcile_all [OF assms(3,4)])
qed

subsection \<open>The offline box\<close>

definition box_req :: "offline_row \<Rightarrow> comet_req" where
  "box_req e = \<lparr>cr_uid = ob_uid e, cr_conv = ob_conv e, cr_max_seq = ob_seq e, cr_from = 0, cr_sync = 0\<rparr>"

definition was_pushed :: "box_env \<Rightarrow> deliverer \<Rightarrow> offline_row \<Rightarrow> bool" where
  \<comment> \<open>a server has taken the push of this entry\<close>
  "was_pushed env s e \<longleftrightarrow> (\<exists>a. (a, box_req e) \<in> set (push_log (vcluster s)) \<and> pv_rpc (bx_push env e) a (box_req e))"

definition may_close :: "box_env \<Rightarrow> deliverer \<Rightarrow> offline_row list \<Rightarrow> offline_row \<Rightarrow> bool" where
  "may_close env s B r \<longleftrightarrow> (\<exists>e \<in> set B. ob_key e = ob_key r \<and> (box_expired (bx_now env) e \<or> was_pushed env s e))"

definition closed_rows :: "box_env \<Rightarrow> deliverer \<Rightarrow> offline_row list \<Rightarrow> offline_row list \<Rightarrow> offline_row list \<Rightarrow> bool" where
  "closed_rows env s B = list_all2 (\<lambda>r r'. r' = r \<or> ob_status r = 0 \<and> r' = r\<lparr>ob_status := 1\<rparr> \<and> may_close env s B r)"

lemma PushAll_log:
  "PushAll pv req cl = (d, cl') \<Longrightarrow> \<exists>l. push_log cl' = push_log cl @ map (\<lambda>a. (a, req)) l \<and> (d \<longleftrightarrow> (\<exists>a \<in> set l. pv_rpc pv a req))"
proof -
  have each: "push_each pv req as cl = (d, cl') \<Longrightarrow>
    push_log cl' = push_log cl @ map (\<lambda>a. (a, req)) as \<and> (d \<longleftrightarrow> (\<exists>a \<in> set as. pv_rpc pv a req))" for as cl d cl'
    by (induction as arbitrary: cl d) (fastforce simp: pushOne_def split: prod.splits)+
  have snap: "push_log (snd (snapshotInstances pv cl)) = push_log cl"
    by (auto simp: snapshotInstances_def split: option.split)
  assume "PushAll pv req cl = (d, cl')"
  then obtain as cl1 where "snapshotInstances pv cl = (as, cl1)" "push_each pv req as cl1 = (d, cl')"
    by (auto simp: PushAll_def split: prod.splits)
  with each [of as cl1 d cl'] snap show ?thesis by auto
qed

lemma closed_rows_refl: "closed_rows env s B t t"
  by (simp add: closed_rows_def list_all2_same)

lemma closed_rows_trans:
  assumes "closed_rows env s1 B1 t t1" "closed_rows env s2 B2 t1 t2"
    and "\<And>r. may_close env s1 B1 r \<Longrightarrow> may_close env s B r" "\<And>r. may_close env s2 B2 r \<Longrightarrow> may_close env s B r"
  shows "closed_rows env s B t t2"
  using assms(1,2) unfolding closed_rows_def
proof (rule list_all2_trans [rotated])
  fix a b c
  assume "b = a \<or> ob_status a = 0 \<and> b = a\<lparr>ob_status := 1\<rparr> \<and> may_close env s1 B1 a"
    "c = b \<or> ob_status b = 0 \<and> c = b\<lparr>ob_status := 1\<rparr> \<and> may_close env s2 B2 b"
  then show "c = a \<or> ob_status a = 0 \<and> c = a\<lparr>ob_status := 1\<rparr> \<and> may_close env s B a"
    using assms(3,4) by auto
qed

lemma box_markDone_rows:
  "box_expired (bx_now env) e \<or> was_pushed env s e \<Longrightarrow>
    closed_rows env s [e] (offline_box (vdb s)) (offline_box (vdb (box_markDone f e s)))"
  by (auto simp: closed_rows_def box_markDone_def row_upd_def list_all2_map2 may_close_def list_all2_same)

lemma box_markDone_cluster [simp]: "vcluster (box_markDone f e s) = vcluster s"
  by (simp add: box_markDone_def)

lemma box_entry_rows:
  "closed_rows env (box_entry env e s) [e] (offline_box (vdb s)) (offline_box (vdb (box_entry env e s))) \<and>
    set (push_log (vcluster s)) \<subseteq> set (push_log (vcluster (box_entry env e s)))"
proof (cases "box_expired (bx_now env) e")
  case True
  then show ?thesis
    using box_markDone_rows [of env e s "bx_mark env e"] by (simp add: box_entry_def closed_rows_def may_close_def)
next
  case False
  obtain d cl where p: "PushAll (bx_push env e) (box_req e) (vcluster s) = (d, cl)" by force
  from PushAll_log [OF p] obtain l where l: "push_log cl = push_log (vcluster s) @ map (\<lambda>a. (a, box_req e)) l"
    "d \<longleftrightarrow> (\<exists>a \<in> set l. pv_rpc (bx_push env e) a (box_req e))" by blast
  have e: "box_entry env e s = (if d then box_markDone (bx_mark env e) e (s\<lparr>vcluster := cl\<rparr>) else s\<lparr>vcluster := cl\<rparr>)"
    using False p by (simp add: box_entry_def box_req_def)
  show ?thesis
  proof (cases d)
    case True
    with l have "was_pushed env (s\<lparr>vcluster := cl\<rparr>) e" by (auto simp: was_pushed_def)
    with box_markDone_rows [of env e "s\<lparr>vcluster := cl\<rparr>" "bx_mark env e"] True l show ?thesis
      by (simp add: e closed_rows_def may_close_def was_pushed_def)
  next
    case False
    with l show ?thesis by (simp add: e closed_rows_refl)
  qed
qed

lemma box_fold_rows:
  "closed_rows env (fold (box_entry env) B s) B (offline_box (vdb s)) (offline_box (vdb (fold (box_entry env) B s))) \<and>
    set (push_log (vcluster s)) \<subseteq> set (push_log (vcluster (fold (box_entry env) B s)))"
proof (induction B arbitrary: s)
  case (Cons e B)
  let ?s1 = "box_entry env e s" let ?s2 = "fold (box_entry env) B ?s1"
  from Cons.IH [of ?s1] have c2: "closed_rows env ?s2 B (offline_box (vdb ?s1)) (offline_box (vdb ?s2))"
    and l2: "set (push_log (vcluster ?s1)) \<subseteq> set (push_log (vcluster ?s2))" by auto
  from box_entry_rows [of env e s] have c1: "closed_rows env ?s1 [e] (offline_box (vdb s)) (offline_box (vdb ?s1))"
    and l1: "set (push_log (vcluster s)) \<subseteq> set (push_log (vcluster ?s1))" by auto
  have "may_close env ?s1 [e] r \<Longrightarrow> may_close env ?s2 (e # B) r" for r
    using l2 by (auto simp: may_close_def was_pushed_def)
  moreover have "may_close env ?s2 B r \<Longrightarrow> may_close env ?s2 (e # B) r" for r by (auto simp: may_close_def)
  ultimately have "closed_rows env ?s2 (e # B) (offline_box (vdb s)) (offline_box (vdb ?s2))"
    by (rule closed_rows_trans [OF c1 c2])
  with l1 l2 show ?case by auto
qed (simp add: closed_rows_refl)

text \<open>
  The offline box forgets nobody: a run of the box task leaves every row in place and changes at
  most its status, from open to closed, and only where the row was more than seven days old or
  a connection server answered in this run or before that it had delivered exactly that push.
\<close>

theorem box_closes_only_delivered_or_expired:
  assumes "box_Exec env shard s = (r, s')" "i < length (offline_box (vdb s))"
  shows "length (offline_box (vdb s')) = length (offline_box (vdb s)) \<and>
    (offline_box (vdb s') ! i = offline_box (vdb s) ! i \<or>
     ob_status (offline_box (vdb s) ! i) = 0 \<and>
     offline_box (vdb s') ! i = (offline_box (vdb s) ! i)\<lparr>ob_status := 1\<rparr> \<and>
     (\<exists>e. ob_key e = ob_key (offline_box (vdb s) ! i) \<and> e \<in> set (offline_box (vdb s)) \<and>
        (604800000 < bx_now env - ob_create e \<or>
         (\<exists>a. (a, box_req e) \<in> set (push_log (vcluster s')) \<and> pv_rpc (bx_push env e) a (box_req e)))))"
proof -
  have "\<exists>B. set B \<subseteq> set (offline_box (vdb s)) \<and> closed_rows env s' B (offline_box (vdb s)) (offline_box (vdb s'))"
  proof (cases "s' = s")
    case True
    then show ?thesis by (intro exI [of _ "[]"]) (simp add: closed_rows_refl)
  next
    case False
    with assms(1) obtain bucket where s': "s' = fold (box_entry env) (box_batch bucket (offline_box (vdb s))) s"
      by (auto simp: box_Exec_def split: option.splits)
    have "set (box_batch bucket (offline_box (vdb s))) \<subseteq> set (offline_box (vdb s))"
      using set_take_subset by (fastforce simp: box_batch_def)
    with box_fold_rows [of env "box_batch bucket (offline_box (vdb s))" s] s' show ?thesis by blast
  qed
  then obtain B where "set B \<subseteq> set (offline_box (vdb s))" "closed_rows env s' B (offline_box (vdb s)) (offline_box (vdb s'))"
    by blast
  then have sub: "set B \<subseteq> set (offline_box (vdb s))" and len: "length (offline_box (vdb s')) = length (offline_box (vdb s))"
    and rows: "offline_box (vdb s') ! i = offline_box (vdb s) ! i \<or> ob_status (offline_box (vdb s) ! i) = 0 \<and>
      offline_box (vdb s') ! i = (offline_box (vdb s) ! i)\<lparr>ob_status := 1\<rparr> \<and> may_close env s' B (offline_box (vdb s) ! i)"
    using assms(2) by (auto simp: closed_rows_def list_all2_conv_all_nth)
  from rows sub show ?thesis
    unfolding len may_close_def was_pushed_def box_expired_def offlineBoxTTL_def by (fastforce simp: subset_iff)
qed

text \<open>
  Two hundred entries of absent users block the box: when the first 200 open entries of a bucket
  are recent and no server delivers their pushes, a run changes no row and pushes to nobody else, so the next run
  takes the same entries, and the entry of a user of the bucket who is back online waits until
  they expire.
\<close>

theorem absent_users_block_the_box:
  assumes "scan_int shard = Some bucket" "bx_query env = None"
    and "\<And>e a. e \<in> set (box_batch bucket (offline_box (vdb s))) \<Longrightarrow> \<not> pv_rpc (bx_push env e) a (box_req e)"
    and "\<And>e. e \<in> set (box_batch bucket (offline_box (vdb s))) \<Longrightarrow> bx_now env - ob_create e \<le> 604800000"
  shows "\<exists>s'. box_Exec env shard s = (ExecOk, s') \<and> vdb s' = vdb s \<and>
    box_batch bucket (offline_box (vdb s')) = box_batch bucket (offline_box (vdb s)) \<and>
    (\<forall>a q. (a, q) \<in> set (push_log (vcluster s')) \<longrightarrow> (a, q) \<in> set (push_log (vcluster s)) \<or>
      (\<exists>e \<in> set (take 200 (filter (\<lambda>r. ob_status r = 0 \<and> go_mod (ob_uid r) 16 = bucket) (offline_box (vdb s)))). q = box_req e))"
proof -
  have one: "vdb (box_entry env e s) = vdb s \<and>
      (\<forall>a q. (a, q) \<in> set (push_log (vcluster (box_entry env e s))) \<longrightarrow> (a, q) \<in> set (push_log (vcluster s)) \<or> q = box_req e)"
    if "\<And>a. \<not> pv_rpc (bx_push env e) a (box_req e)" "bx_now env - ob_create e \<le> 604800000" for e s
  proof -
    obtain d cl where p: "PushAll (bx_push env e) (box_req e) (vcluster s) = (d, cl)" by force
    from PushAll_log [OF p] that(1) obtain l where l: "push_log cl = push_log (vcluster s) @ map (\<lambda>a. (a, box_req e)) l" "\<not> d"
      by blast
    have "box_entry env e s = s\<lparr>vcluster := cl\<rparr>"
      using that(2) p l(2) by (simp add: box_entry_def box_req_def box_expired_def offlineBoxTTL_def)
    with l show ?thesis by auto
  qed
  have all: "(\<And>e. e \<in> set B \<Longrightarrow> (\<forall>a. \<not> pv_rpc (bx_push env e) a (box_req e)) \<and> bx_now env - ob_create e \<le> 604800000) \<Longrightarrow>
      vdb (fold (box_entry env) B s) = vdb s \<and>
      (\<forall>a q. (a, q) \<in> set (push_log (vcluster (fold (box_entry env) B s))) \<longrightarrow> (a, q) \<in> set (push_log (vcluster s)) \<or>
        (\<exists>e \<in> set B. q = box_req e))" for B s
  proof (induction B arbitrary: s)
    case (Cons e B)
    from one [of e s] Cons.prems [of e] Cons.IH [of "box_entry env e s"] Cons.prems show ?case by fastforce
  qed simp
  let ?B = "box_batch bucket (offline_box (vdb s))" let ?s' = "fold (box_entry env) ?B s"
  have B: "?B = take 200 (filter (\<lambda>r. ob_status r = 0 \<and> go_mod (ob_uid r) 16 = bucket) (offline_box (vdb s)))"
    by (simp add: box_batch_def scanBatch_def)
  have "vdb ?s' = vdb s \<and> (\<forall>a q. (a, q) \<in> set (push_log (vcluster ?s')) \<longrightarrow> (a, q) \<in> set (push_log (vcluster s)) \<or>
      (\<exists>e \<in> set ?B. q = box_req e))"
    using assms(3,4) by (intro all) blast
  moreover have "box_Exec env shard s = (ExecOk, ?s')" using assms(1,2) by (simp add: box_Exec_def)
  ultimately show ?thesis unfolding B [symmetric] by (intro exI [of _ ?s']) simp
qed

subsection \<open>Witnesses\<close>

lemma scan_int_nat_str: "int n < 2 ^ 63 \<Longrightarrow> scan_int (nat_str n) = Some (int n)"
proof -
  assume n: "int n < 2 ^ 63"
  have d: "\<forall>c \<in> set (nat_str n). digit_val c \<noteq> None" using nat_str_digits by blast
  obtain c cs where c: "nat_str n = c # cs" by (cases "nat_str n") auto
  with d have "digit_val c \<noteq> None" by simp
  then have "c \<noteq> CHR '' ''" "c \<noteq> CHR ''-''" "c \<noteq> CHR ''+''" by (auto simp: digit_val_def)
  moreover have "takeWhile (\<lambda>c. digit_val c \<noteq> None) (nat_str n) = nat_str n" using d by (simp add: takeWhile_eq_all_conv)
  ultimately show ?thesis
    using parse_int_str [of "int n"] n by (simp add: scan_int_def Let_def c int_str_def)
qed

lemma box_shards_scan: "scan_int (nat_str 2) = Some 2" "scan_int (nat_str 0) = Some 0" "scan_int (nat_str 7) = Some 7"
  using scan_int_nat_str [of 2] scan_int_nat_str [of 0] scan_int_nat_str [of 7] by simp_all

lemma cleanup_total_and_exact_witness:
  "\<exists>s'. cleanup_Exec (\<lambda>_. None) 700000000 (nat_str 0) demo_deliverer = (ExecOk, s') \<and>
    local_table (vshards s') 0 = [\<lparr>lm_id = 5, lm_conv = 7, lm_status = 0, lm_create = 0\<rparr>]"
proof -
  obtain r s' where c: "cleanup_Exec (\<lambda>_. None) 700000000 (nat_str 0) demo_deliverer = (r, s')" by force
  from cleanup_total_and_exact [OF c box_shards_scan(2), of 0 undefined] c show ?thesis
    by (auto simp: MsgDBCount_def demo_deliverer_def finished_def)
qed

definition demo_lagging :: deliverer where
  \<comment> \<open>the demo conversation 7 has a message with number 3, and \<open>last_seq\<close> 0\<close>
  "demo_lagging = demo_deliverer\<lparr>vshards := set_msg_table (MsgShard 0 0)
     [\<lparr>ms_id = 5, ms_conv = 7, ms_from = 1, ms_seq = 3, ms_type = 1, ms_content = [], ms_cmid = 9, ms_time = 0\<rparr>] empty_shards\<rparr>"

lemma reconcile_catches_up_first_500_witness:
  "\<exists>s'. unread_Exec \<lparr>un_query = None, un_max = (\<lambda>_. None), un_update = (\<lambda>_. None)\<rparr> (nat_str 7) demo_lagging = (ExecOk, s') \<and>
    map cv_last_seq (conversations (vdb s')) = [3]"
proof -
  have pk: "pk_ok cv_id (conversations (vdb demo_lagging))" by (simp add: demo_lagging_def demo_deliverer_def pk_ok_def)
  have route: "RouteMsg (vslots demo_lagging) 7 = MsgShard 0 0"
    using slot_of_lt [of 7] by (simp add: RouteMsg_def demo_lagging_def demo_deliverer_def)
  have m: "conv_max demo_lagging 7 = 3"
    unfolding conv_max_def route by (simp add: max_seq_of_def demo_lagging_def)
  obtain s' where "unread_Exec \<lparr>un_query = None, un_max = (\<lambda>_. None), un_update = (\<lambda>_. None)\<rparr> (nat_str 7) demo_lagging = (ExecOk, s')"
    "conversations (vdb s') = map (\<lambda>r. if r \<in> set (take 500 (filter (\<lambda>r. go_mod (cv_id r) 8 = 7) (conversations (vdb demo_lagging))))
       then caught_up demo_lagging r else r) (conversations (vdb demo_lagging))"
    using reconcile_catches_up_first_500 [OF box_shards_scan(3), of "\<lparr>un_query = None, un_max = (\<lambda>_. None), un_update = (\<lambda>_. None)\<rparr>" demo_lagging] pk
    by auto
  moreover have "conversations (vdb demo_lagging) = [\<lparr>cv_id = 7, cv_type = 2, cv_members = Some [1, 2],
       cv_last_seq = 0, cv_create = 0, cv_name = [], cv_avatar = []\<rparr>]" by (simp add: demo_lagging_def demo_deliverer_def)
  ultimately show ?thesis by (simp add: caught_up_def m go_mod_def)
qed

definition demo_absent :: deliverer where
  "demo_absent = demo_deliverer\<lparr>vdb := empty_meta\<lparr>offline_box := [box_row 0 2 7 3]\<rparr>\<rparr>"

definition demo_box_env :: "int \<Rightarrow> box_env" where
  "demo_box_env now = \<lparr>bx_now = now, bx_query = None, bx_push = (\<lambda>_. demo_push False), bx_mark = (\<lambda>_. None)\<rparr>"

lemma box_closes_only_delivered_or_expired_witness:
  "ob_status (offline_box (vdb (snd (box_Exec (demo_box_env 604800001) (nat_str 2) demo_absent))) ! 0) = 1 \<and>
   604800000 < (604800001 :: int) - ob_create (box_row 0 2 7 3)"
proof -
  let ?s' = "snd (box_Exec (demo_box_env 604800001) (nat_str 2) demo_absent)"
  have row: "offline_box (vdb demo_absent) = [box_row 0 2 7 3]" by (simp add: demo_absent_def)
  have e: "box_Exec (demo_box_env 604800001) (nat_str 2) demo_absent = (fst (box_Exec (demo_box_env 604800001) (nat_str 2) demo_absent), ?s')"
    by simp
  have "ob_status (offline_box (vdb ?s') ! 0) = 1"
    by (simp add: box_Exec_def box_shards_scan demo_box_env_def box_batch_def scanBatch_def row box_row_def go_mod_def
        box_entry_def box_expired_def offlineBoxTTL_def box_markDone_def row_upd_def)
  with box_closes_only_delivered_or_expired [OF e, of 0] row show ?thesis
    by (auto simp: box_row_def demo_box_env_def demo_push_def)
qed

lemma absent_users_block_the_box_witness:
  "\<exists>s'. box_Exec (demo_box_env 1000) (nat_str 2) demo_absent = (ExecOk, s') \<and> vdb s' = vdb demo_absent"
  using absent_users_block_the_box [OF box_shards_scan(1), of "demo_box_env 1000" demo_absent]
  by (auto simp: demo_box_env_def demo_push_def demo_absent_def box_batch_def scanBatch_def box_row_def go_mod_def)

end
