(* ===== verification/Pipeline.thy ===== *)
theory Pipeline
  imports MessageSafety Compensation Kafka
begin

text \<open>
  The way of a message through the processes: the message service stores it and hands an event to
  Kafka, job services read the topic and fan it out, the scheduler (\<open>cmd/yim-sched\<close>) redelivers what
  was left over, marks are flushed, finished tasks cleaned up. The processes share the databases;
  each has a deliverer of its own, whose registry, timers and mark buffer are lost with it.
\<close>

subsection \<open>The processes\<close>

datatype process = Job nat | Scheduler

text \<open>A fan-out that ended, as the history records it: what was delivered, to whom, and the state then.\<close>

record fanout =
  fo_event :: PushEvent
  fo_members :: "uid list"
  fo_refused :: "uid \<Rightarrow> bool"   \<comment> \<open>the database refused the offline row of this user\<close>
  fo_end :: deliverer

record pipe =
  pw_svc :: svc                       \<comment> \<open>the message service, and the databases all share\<close>
  pw_topic :: kafka_log               \<comment> \<open>\<open>yim.push\<close>\<close>
  pw_mem :: "process \<Rightarrow> deliverer"    \<comment> \<open>the deliverers; their database fields are not looked at\<close>
  pw_log :: "fanout list"             \<comment> \<open>history\<close>

definition job_view :: "process \<Rightarrow> pipe \<Rightarrow> deliverer" where
  "job_view p w = (pw_mem w p)\<lparr>vdb := mdb (pw_svc w), vshards := mshards (pw_svc w), vslots := mslots (pw_svc w)\<rparr>"

definition job_store :: "process \<Rightarrow> deliverer \<Rightarrow> fanout list \<Rightarrow> pipe \<Rightarrow> pipe" where
  "job_store p d fs w = w\<lparr>pw_svc := (pw_svc w)\<lparr>mdb := vdb d, mshards := vshards d\<rparr>,
     pw_mem := (pw_mem w)(p := d), pw_log := pw_log w @ fs\<rparr>"

definition fanouts :: "deliver_env \<Rightarrow> PushEvent \<Rightarrow> deliverer \<Rightarrow> fanout list" where
  \<comment> \<open>what a run of \<open>Deliver\<close> completes: nothing when the members cannot be read\<close>
  "fanouts env e d =
     (case fst (ConvMembers (pv_redis (de_push env)) (de_members env) (pv_now (de_push env)) (vcache d) (vdb d) (pe_conv e)) of
        Inl _ \<Rightarrow> []
      | Inr ms \<Rightarrow> [\<lparr>fo_event = e, fo_members = ms, fo_refused = (\<lambda>u. de_box env u \<noteq> None), fo_end = Deliver env e d\<rparr>])"

definition rebuilt_event :: "message_row \<Rightarrow> PushEvent" where
  \<comment> \<open>the event \<open>redeliverOne\<close> builds from the row\<close>
  "rebuilt_event r = \<lparr>pe_conv = ms_conv r, pe_max_seq = ms_seq r, pe_from = ms_from r, pe_sync = 0, pe_msg_id = ms_id r\<rparr>"

definition message_of :: "conv_id \<times> int \<Rightarrow> deliverer \<Rightarrow> message_row option" where
  "message_of k d = find (\<lambda>r. ms_conv r = fst k \<and> ms_id r = snd k) (msg_table (vshards d) (RouteMsg (vslots d) (fst k)))"

definition scan_fanouts :: "scan_env \<Rightarrow> conv_id \<times> int \<Rightarrow> deliverer \<Rightarrow> fanout list" where
  "scan_fanouts env k d =
     (if sn_load env k \<noteq> None then []
      else case message_of k d of None \<Rightarrow> [] | Some r \<Rightarrow> fanouts (sn_deliver env k) (rebuilt_event r) d)"

lemma message_ofD: "message_of k d = Some r \<Longrightarrow> ms_conv r = fst k \<and> ms_id r = snd k \<and>
    r \<in> set (msg_table (vshards d) (RouteMsg (vslots d) (fst k)))"
  unfolding message_of_def find_Some_iff by (metis nth_mem)

lemma redeliverOne_eq: "redeliverOne env db k d =
    (if sn_load env k \<noteq> None then d
     else case message_of k d of
         None \<Rightarrow> (if sn_mark env k \<noteq> None then d
                  else d\<lparr>vshards := set_local_table db (mark_done [k] (local_table (vshards d) db)) (vshards d)\<rparr>)
       | Some r \<Rightarrow> Deliver (sn_deliver env k) (rebuilt_event r) d)"
  using message_ofD [of k d] by (auto simp: redeliverOne_def message_of_def [symmetric] rebuilt_event_def split: option.splits)

subsection \<open>Steps\<close>

definition sent_events :: "svc \<Rightarrow> svc \<Rightarrow> PushEvent list" where
  \<comment> \<open>the calls of \<open>Push\<close> between two states of the message service\<close>
  "sent_events s s' = (case (mpush s, mpush s') of (Some p, Some p') \<Rightarrow> drop (length p) p' | _ \<Rightarrow> [])"

definition svc_store :: "kafka_codec \<Rightarrow> (PushEvent \<Rightarrow> bool) \<Rightarrow> svc \<Rightarrow> pipe \<Rightarrow> pipe" where
  "svc_store cd lost s' w = w\<lparr>pw_svc := s',
     pw_topic := fold (\<lambda>e. KafkaPush cd (lost e) e) (sent_events (pw_svc w) s') (pw_topic w)\<rparr>"

definition ids_unique :: "svc \<Rightarrow> bool" where
  \<comment> \<open>what the sequence service gives: no message id is issued twice\<close>
  "ids_unique s \<longleftrightarrow> (\<forall>sh. pk_ok ms_idkey (msg_table (mshards s) sh))"

definition fresh_memory :: "deliverer \<Rightarrow> bool" where
  "fresh_memory d \<longleftrightarrow> fresh_deliverer d \<and> vmarks d = (\<lambda>_. empty_batch)"

inductive pipe_step :: "kafka_codec \<Rightarrow> pipe \<Rightarrow> pipe \<Rightarrow> bool" for kcd where
  send: "SendMessage cd env cmid c from content (pw_svc w) = (res, s') \<Longrightarrow> ids_unique s' \<Longrightarrow>
    pipe_step kcd w (svc_store kcd lost s' w)"
| revoke: "RevokeMessage eq cd env flt msgID c op (pw_svc w) = (rres, s') \<Longrightarrow> ids_unique s' \<Longrightarrow>
    pipe_step kcd w (svc_store kcd lost s' w)"
| consume: "(k, v) \<in> set (pw_topic w part) \<Longrightarrow> decode_push (kc_job kcd) v = Some e \<Longrightarrow>
    pipe_step kcd w (job_store (Job n) (handlePush (kc_job kcd) env v (job_view (Job n) w)) (fanouts env e (job_view (Job n) w)) w)"
  \<comment> \<open>any record, any number of times, at any job service\<close>
| redeliver: "pipe_step kcd w (job_store Scheduler (redeliverOne senv db x (job_view Scheduler w)) (scan_fanouts senv x (job_view Scheduler w)) w)"
| ack: "pipe_step kcd w (job_store (Job n) (handleAck (kc_job kcd) v (job_view (Job n) w)) [] w)"
| retry_start: "pipe_step kcd w (job_store p (retry_begin pv t (job_view p w)) [] w)"
| retry_finish: "pipe_step kcd w (job_store p (retry_end fault now t (job_view p w)) [] w)"
| flush: "pipe_step kcd w (job_store p (flush_marks f (job_view p w)) [] w)"
| offline: "pipe_step kcd w (job_store Scheduler (snd (box_Exec benv shard (job_view Scheduler w))) [] w)"
| unread: "pipe_step kcd w (job_store Scheduler (snd (unread_Exec uenv shard (job_view Scheduler w))) [] w)"
| cleanup: "pipe_step kcd w (job_store Scheduler (snd (cleanup_Exec cflt now shard (job_view Scheduler w))) [] w)"
| restart: "fresh_memory d \<Longrightarrow> pipe_step kcd w (w\<lparr>pw_mem := (pw_mem w)(p := d)\<rparr>)"
| other: "mshards s' = mshards (pw_svc w) \<Longrightarrow> mslots s' = mslots (pw_svc w) \<Longrightarrow>
    (\<And>p. vmarks (m p) = vmarks (pw_mem w p) \<and> vpend (m p) = vpend (pw_mem w p) \<and> vtimers (m p) = vtimers (pw_mem w p) \<and>
       vfiring (m p) = vfiring (pw_mem w p)) \<Longrightarrow> pipe_step kcd w (w\<lparr>pw_svc := s', pw_mem := m\<rparr>)"
  \<comment> \<open>whatever leaves the message databases, the registries and the mark buffers alone: another instance of
     the message service, Redis losing or inventing keys, changes of membership, the connection servers\<close>

definition pipe_start :: "pipe \<Rightarrow> bool" where
  "pipe_start w \<longleftrightarrow> mshards (pw_svc w) = empty_shards \<and> (\<forall>part. pw_topic w part = []) \<and>
     (\<forall>p. fresh_memory (pw_mem w p)) \<and> pw_log w = []"

subsection \<open>Events name stored messages\<close>

definition event_of :: "message_row \<Rightarrow> PushEvent \<Rightarrow> bool" where
  "event_of r e \<longleftrightarrow> pe_conv e = ms_conv r \<and> pe_max_seq e = ms_seq r \<and> pe_from e = ms_from r \<and> pe_msg_id e = ms_id r"

definition stored_event :: "svc \<Rightarrow> PushEvent \<Rightarrow> bool" where
  "stored_event s e \<longleftrightarrow> (\<exists>r \<in> set (table_of s (pe_conv e)). event_of r e)"

lemma write_push:
  assumes "write_ends cd env cmid c from content msgID seq s w res s'"
  shows "mpush s' = mpush s \<or> (\<exists>e. mpush s' = map_option (\<lambda>p. p @ [e]) (mpush s) \<and> stored_event s' e)"
proof (cases w)
  case (WWritten m l)
  then have f: "ms_conv m = c" and s': "s' = after_commit cd env c cmid content m (s\<lparr>mshards := with_tables c m l s\<rparr>)"
    using assms by (auto simp: write_ends_def fresh_pair_def)
  have "m \<in> set (table_of s' c)" by (simp add: s' after_commit_def table_of_write Let_def table_of_def with_tables_def shard_of_def)
  then have "stored_event s' \<lparr>pe_conv = c, pe_max_seq = ms_seq m, pe_from = ms_from m, pe_sync = bumpSyncSeq env, pe_msg_id = ms_id m\<rparr>"
    using f by (auto simp: stored_event_def event_of_def)
  then show ?thesis by (intro disjI2) (auto simp: s' after_commit_def Let_def)
qed (use assms in \<open>auto simp: write_ends_def unmarked_def\<close>)

lemma mark_and_write_write:
  "mark_and_write cd env cmid c from content msgID seq s = (res, s') \<Longrightarrow> mpush s' = mpush s \<or>
    (\<exists>s1. mpush s1 = mpush s \<and> write_message cd env cmid c from content msgID seq s1 = (res, s'))"
  unfolding mark_and_write_def Let_def by (force split: if_splits prod.splits option.splits sum.splits)

lemma allocate_and_write_write:
  "allocate_and_write cd env cmid c from content s = (res, s') \<Longrightarrow> mpush s' = mpush s \<or>
    (\<exists>s1 msgID seq. mpush s1 = mpush s \<and> write_message cd env cmid c from content msgID seq s1 = (res, s'))"
  unfolding allocate_and_write_def
  by (auto split: sum.splits prod.splits dest!: mark_and_write_write)

lemma send_push:
  assumes "SendMessage cd env cmid c from content s = (res, s')"
  shows "mpush s' = mpush s \<or> (\<exists>e. mpush s' = map_option (\<lambda>p. p @ [e]) (mpush s) \<and> stored_event s' e)"
proof -
  have "mpush s' = mpush s \<or>
    (\<exists>s1 msgID seq. mpush s1 = mpush s \<and> write_message cd env cmid c from content msgID seq s1 = (res, s'))"
    using assms unfolding SendMessage_def Let_def
    by (auto split: if_splits prod.splits option.splits sum.splits dest!: allocate_and_write_write)
  then show ?thesis using write_push by (metis write_message_ends)
qed

lemma sent_events_send: "mpush s' = mpush s \<or> (\<exists>e. mpush s' = map_option (\<lambda>p. p @ [e]) (mpush s) \<and> stored_event s' e) \<Longrightarrow>
    e \<in> set (sent_events s s') \<Longrightarrow> stored_event s' e"
  by (cases "mpush s") (auto simp: sent_events_def)

lemma KafkaPush_record: "(k, v) \<in> set (KafkaPush cd lost e l part) \<Longrightarrow> (k, v) \<in> set (l part) \<or> kc_push cd e = Some v"
  by (auto simp: KafkaPush_def WriteMessages_def split: option.splits if_splits)

lemma fold_push_record: "(k, v) \<in> set (fold (\<lambda>e. KafkaPush cd (lost e) e) es l part) \<Longrightarrow>
    (k, v) \<in> set (l part) \<or> (\<exists>e \<in> set es. kc_push cd e = Some v)"
  by (induction es arbitrary: l) (auto dest: KafkaPush_record)

subsection \<open>The invariant\<close>

definition codec_ok :: "kafka_codec \<Rightarrow> bool" where
  "codec_ok cd \<longleftrightarrow> (\<forall>e v. kc_push cd e = Some v \<longrightarrow> decode_push (kc_job cd) v = Some e)"

definition fanned :: "pipe \<Rightarrow> conv_id \<times> int \<Rightarrow> bool" where
  "fanned w x \<longleftrightarrow> (\<exists>f \<in> set (pw_log w). (pe_conv (fo_event f), pe_msg_id (fo_event f)) = x)"

definition open_task :: "svc \<Rightarrow> MsgShard \<Rightarrow> message_row \<Rightarrow> bool" where
  "open_task s sh r \<longleftrightarrow> (\<exists>l \<in> set (local_table (mshards s) (DBIndex sh)). lm_key l = ms_idkey r \<and> lm_status l = 0)"

definition reached :: "fanout \<Rightarrow> bool" where
  \<comment> \<open>what a completed fan-out has done\<close>
  "reached f \<longleftrightarrow> (\<forall>u \<in> set (fo_members f). u \<noteq> pe_from (fo_event f) \<longrightarrow> \<not> fo_refused f u \<longrightarrow>
     alive u (pe_conv (fo_event f)) (pe_max_seq (fo_event f)) (vpend (fo_end f)) \<or>
     (\<exists>b \<in> set (offline_box (vdb (fo_end f))). ob_key b = (u, pe_conv (fo_event f), pe_max_seq (fo_event f))))"

definition pipe_ok :: "kafka_codec \<Rightarrow> pipe \<Rightarrow> bool" where
  "pipe_ok cd w \<longleftrightarrow> ids_unique (pw_svc w) \<and>
     (\<forall>sh. \<forall>r \<in> set (msg_table (mshards (pw_svc w)) sh). shard_of (pw_svc w) (ms_conv r) = sh) \<and>
     (\<forall>part. \<forall>(k, v) \<in> set (pw_topic w part). \<forall>e. decode_push (kc_job cd) v = Some e \<longrightarrow> stored_event (pw_svc w) e) \<and>
     (\<forall>p i. \<forall>x \<in> fst ` set (b_buf (vmarks (pw_mem w p) i)). fanned w x) \<and>
     (\<forall>f \<in> set (pw_log w). stored_event (pw_svc w) (fo_event f) \<and> reached f) \<and>
     (\<forall>sh. \<forall>r \<in> set (msg_table (mshards (pw_svc w)) sh). open_task (pw_svc w) sh r \<or> fanned w (ms_idkey r))"

lemma pipe_okD:
  assumes "pipe_ok cd w"
  shows "ids_unique (pw_svc w)"
    and "r \<in> set (msg_table (mshards (pw_svc w)) sh) \<Longrightarrow> shard_of (pw_svc w) (ms_conv r) = sh"
    and "(k, v) \<in> set (pw_topic w part) \<Longrightarrow> decode_push (kc_job cd) v = Some e \<Longrightarrow> stored_event (pw_svc w) e"
    and "x \<in> fst ` set (b_buf (vmarks (pw_mem w p) i)) \<Longrightarrow> fanned w x"
    and "f \<in> set (pw_log w) \<Longrightarrow> stored_event (pw_svc w) (fo_event f) \<and> reached f"
    and "r \<in> set (msg_table (mshards (pw_svc w)) sh) \<Longrightarrow> open_task (pw_svc w) sh r \<or> fanned w (ms_idkey r)"
  using assms unfolding pipe_ok_def by blast+

lemma pipe_okI:
  assumes "ids_unique (pw_svc w)"
    and "\<And>r sh. r \<in> set (msg_table (mshards (pw_svc w)) sh) \<Longrightarrow> shard_of (pw_svc w) (ms_conv r) = sh"
    and "\<And>k v part e. (k, v) \<in> set (pw_topic w part) \<Longrightarrow> decode_push (kc_job cd) v = Some e \<Longrightarrow> stored_event (pw_svc w) e"
    and "\<And>x p i. x \<in> fst ` set (b_buf (vmarks (pw_mem w p) i)) \<Longrightarrow> fanned w x"
    and "\<And>f. f \<in> set (pw_log w) \<Longrightarrow> stored_event (pw_svc w) (fo_event f) \<and> reached f"
    and "\<And>r sh. r \<in> set (msg_table (mshards (pw_svc w)) sh) \<Longrightarrow> open_task (pw_svc w) sh r \<or> fanned w (ms_idkey r)"
  shows "pipe_ok cd w"
  using assms unfolding pipe_ok_def by blast

subsection \<open>Steps of the message service\<close>

lemma stored_event_mono: "stored_event s e \<Longrightarrow> (\<And>c. set (table_of s c) \<subseteq> set (table_of s' c)) \<Longrightarrow> stored_event s' e"
  by (auto simp: stored_event_def)

lemma svc_store_simps [simp]: "pw_svc (svc_store cd lost s' w) = s'" "pw_mem (svc_store cd lost s' w) = pw_mem w"
    "pw_log (svc_store cd lost s' w) = pw_log w" "fanned (svc_store cd lost s' w) = fanned w"
  by (simp_all add: svc_store_def fanned_def fun_eq_iff)

lemma written_tables:
  assumes "same_store s s' \<or> (\<exists>m l. fresh_pair c cmid from m l s \<and> mshards s' = with_tables c m l s \<and> mslots s' = mslots s)"
  shows "set (table_of s x) \<subseteq> set (table_of s' x)" and "shard_of s' = shard_of s"
    and "r \<in> set (msg_table (mshards s') sh) \<Longrightarrow>
      r \<in> set (msg_table (mshards s) sh) \<and> (open_task s sh r \<longrightarrow> open_task s' sh r) \<or> shard_of s (ms_conv r) = sh \<and> open_task s' sh r"
proof -
  show "shard_of s' = shard_of s" using assms by (auto simp: same_store_def shard_of_def fun_eq_iff)
  show "set (table_of s x) \<subseteq> set (table_of s' x)" using assms
    by (auto simp: same_store_def table_of_def shard_of_def with_tables_def)
  show "r \<in> set (msg_table (mshards s') sh) \<Longrightarrow>
      r \<in> set (msg_table (mshards s) sh) \<and> (open_task s sh r \<longrightarrow> open_task s' sh r) \<or> shard_of s (ms_conv r) = sh \<and> open_task s' sh r"
    using assms by (auto simp: same_store_def open_task_def with_tables_def fresh_pair_def table_of_def locals_of_def
        ms_idkey_def split: if_splits)
qed

lemma pipe_ok_send:
  assumes ok: "pipe_ok kcd w" and codec: "codec_ok kcd" and S: "SendMessage cd env cmid c from content (pw_svc w) = (res, s')"
    and ids: "ids_unique s'"
  shows "pipe_ok kcd (svc_store kcd lost s' w)"
proof -
  let ?s = "pw_svc w"
  from send_message_ends [OF S] obtain e where "send_ends cd env cmid c from content ?s e res s'" ..
  note T = written_tables [OF send_ends_store [OF this]]
  have new: "stored_event s' e" if "e \<in> set (sent_events ?s s')" for e
    using sent_events_send [OF send_push [OF S] that] .
  have old: "stored_event s' e" if "stored_event ?s e" for e using stored_event_mono [OF that T(1)] .
  have topic: "stored_event s' e" if r: "(k, v) \<in> set (pw_topic (svc_store kcd lost s' w) part)"
      and d: "decode_push (kc_job kcd) v = Some e" for k v part e
  proof -
    from r have "(k, v) \<in> set (pw_topic w part) \<or> (\<exists>x \<in> set (sent_events ?s s'). kc_push kcd x = Some v)"
      by (auto simp: svc_store_def dest: fold_push_record)
    then show ?thesis
    proof (elim disjE bexE)
      fix x assume "x \<in> set (sent_events ?s s')" "kc_push kcd x = Some v"
      then show ?thesis using codec d new by (auto simp: codec_ok_def)
    qed (use pipe_okD(3) [OF ok _ d] old in blast)
  qed
  show ?thesis
  proof (rule pipe_okI; unfold svc_store_simps)
    show "shard_of s' (ms_conv r) = sh" if "r \<in> set (msg_table (mshards s') sh)" for r sh
      using T(3) [OF that] pipe_okD(2) [OF ok] by (auto simp: T(2))
    show "open_task s' sh r \<or> fanned w (ms_idkey r)" if "r \<in> set (msg_table (mshards s') sh)" for r sh
      using T(3) [OF that] pipe_okD(6) [OF ok] by blast
  qed (use ids topic pipe_okD(4,5) [OF ok] old in auto)
qed

subsection \<open>Steps of a deliverer\<close>

lemma job_view_simps [simp]: "vdb (job_view p w) = mdb (pw_svc w)" "vshards (job_view p w) = mshards (pw_svc w)"
    "vslots (job_view p w) = mslots (pw_svc w)" "vmarks (job_view p w) = vmarks (pw_mem w p)"
    "vpend (job_view p w) = vpend (pw_mem w p)" "vtimers (job_view p w) = vtimers (pw_mem w p)"
    "vfiring (job_view p w) = vfiring (pw_mem w p)"
  by (simp_all add: job_view_def)

lemma job_store_simps [simp]: "mshards (pw_svc (job_store p d fs w)) = vshards d" "mslots (pw_svc (job_store p d fs w)) = mslots (pw_svc w)"
    "pw_topic (job_store p d fs w) = pw_topic w" "pw_mem (job_store p d fs w) = (pw_mem w)(p := d)"
    "pw_log (job_store p d fs w) = pw_log w @ fs" "mdb (pw_svc (job_store p d fs w)) = vdb d"
  by (simp_all add: job_store_def)

lemma pipe_ok_job:
  assumes ok: "pipe_ok cd w"
    and tables: "\<And>sh. msg_table (vshards d) sh = msg_table (mshards (pw_svc w)) sh"
    and marks: "\<And>i x. x \<in> fst ` set (b_buf (vmarks d i)) \<Longrightarrow>
      x \<in> fst ` set (b_buf (vmarks (pw_mem w p) i)) \<or> (\<exists>f \<in> set fs. (pe_conv (fo_event f), pe_msg_id (fo_event f)) = x)"
    and tasks: "\<And>i l. l \<in> set (local_table (mshards (pw_svc w)) i) \<Longrightarrow> lm_status l = 0 \<Longrightarrow>
      l \<in> set (local_table (vshards d) i) \<or> fanned w (lm_key l) \<or> (\<forall>sh. lm_key l \<notin> ms_idkey ` set (msg_table (mshards (pw_svc w)) sh))"
    and fs: "\<And>f. f \<in> set fs \<Longrightarrow> stored_event (pw_svc w) (fo_event f) \<and> reached f"
  shows "pipe_ok cd (job_store p d fs w)"
proof -
  let ?w = "job_store p d fs w"
  have so: "shard_of (pw_svc ?w) = shard_of (pw_svc w)" by (simp add: shard_of_def fun_eq_iff)
  have se: "stored_event (pw_svc ?w) = stored_event (pw_svc w)" by (simp add: stored_event_def table_of_def tables so fun_eq_iff)
  have fan: "fanned ?w x \<longleftrightarrow> fanned w x \<or> (\<exists>f \<in> set fs. (pe_conv (fo_event f), pe_msg_id (fo_event f)) = x)" for x
    by (auto simp: fanned_def)
  show ?thesis
  proof (rule pipe_okI)
    show "fanned ?w x" if "x \<in> fst ` set (b_buf (vmarks (pw_mem ?w q) i))" for x q i
    proof (cases "q = p")
      case True
      then have "x \<in> fst ` set (b_buf (vmarks d i))" using that by simp
      from marks [OF this] show ?thesis using pipe_okD(4) [OF ok] unfolding fan by blast
    qed (use that pipe_okD(4) [OF ok] in \<open>simp add: fan\<close>)
    show "open_task (pw_svc ?w) sh r \<or> fanned ?w (ms_idkey r)" if r: "r \<in> set (msg_table (mshards (pw_svc ?w)) sh)" for r sh
    proof -
      have r': "r \<in> set (msg_table (mshards (pw_svc w)) sh)" using r by (simp add: tables)
      from pipe_okD(6) [OF ok r'] show ?thesis
      proof
        assume "open_task (pw_svc w) sh r"
        then obtain l where l: "l \<in> set (local_table (mshards (pw_svc w)) (DBIndex sh))" "lm_key l = ms_idkey r" "lm_status l = 0"
          by (auto simp: open_task_def)
        from tasks [OF l(1,3)] l r' show ?thesis unfolding fan by (auto simp: open_task_def)
      qed (simp add: fan)
    qed
  qed (use pipe_okD(1,2,3,5) [OF ok] fs in \<open>auto simp: ids_unique_def tables so se\<close>)
qed

lemma deliver_one_shards [simp]: "vshards (deliver_one env e u d) = vshards d" "vslots (deliver_one env e u d) = vslots d"
    "vmarks (deliver_one env e u d) = vmarks d"
  by (simp_all add: deliver_one_def bump_receiver_def push_user_def register_def fire_def writeOfflineBox_def Let_def case_prod_beta split: option.split)

lemma fold_deliver_shards [simp]: "vshards (fold (deliver_one env e) us d) = vshards d"
    "vslots (fold (deliver_one env e) us d) = vslots d" "vmarks (fold (deliver_one env e) us d) = vmarks d"
  by (induction us arbitrary: d) simp_all

lemma Deliver_shards [simp]: "vshards (Deliver env e d) = vshards d"
  by (auto simp: Deliver_def Let_def split: prod.split sum.split)

lemma in_mark_add: "x \<in> fst ` set (b_buf (mark_add slots y m i)) \<Longrightarrow> x \<in> fst ` set (b_buf (m i)) \<or> x = y"
  by (auto simp: mark_add_def start_flush_def Let_def dom_update [unfolded dom_map_of_conv_image_fst] split: if_splits)

lemma Deliver_marks:
  "x \<in> fst ` set (b_buf (vmarks (Deliver env e d) i)) \<Longrightarrow> x \<in> fst ` set (b_buf (vmarks d i)) \<or>
    (\<exists>f \<in> set (fanouts env e d). (pe_conv (fo_event f), pe_msg_id (fo_event f)) = x)"
  by (auto simp: Deliver_def fanouts_def Let_def split: prod.splits sum.splits if_splits dest!: in_mark_add)

lemma fanouts_reached:
  assumes "f \<in> set (fanouts env e d)"
  shows "fo_event f = e" and "reached f"
proof -
  from assms obtain ms ca where C: "ConvMembers (pv_redis (de_push env)) (de_members env) (pv_now (de_push env)) (vcache d) (vdb d) (pe_conv e) = (Inr ms, ca)"
    and f: "f = \<lparr>fo_event = e, fo_members = ms, fo_refused = (\<lambda>u. de_box env u \<noteq> None), fo_end = Deliver env e d\<rparr>"
    by (auto simp: fanouts_def split: sum.splits) (metis surj_pair fst_conv)
  show "fo_event f = e" by (simp add: f)
  show "reached f"
    unfolding reached_def
  proof (intro ballI impI)
    fix u assume u: "u \<in> set (fo_members f)" "u \<noteq> pe_from (fo_event f)" "\<not> fo_refused f u"
    then have "settled env u (pe_conv e) (pe_max_seq e) (Deliver env e d)"
      using Deliver_settled [OF C] by (simp add: f)
    then show "alive u (pe_conv (fo_event f)) (pe_max_seq (fo_event f)) (vpend (fo_end f)) \<or>
        (\<exists>b \<in> set (offline_box (vdb (fo_end f))). ob_key b = (u, pe_conv (fo_event f), pe_max_seq (fo_event f)))"
      using u(3) by (auto simp: f settled_def boxed_def dest: row_get_SomeD)
  qed
qed

text \<open>What touches neither the message databases nor the mark buffers.\<close>

lemma pipe_ok_quiet:
  assumes "pipe_ok cd w" "vshards d = mshards (pw_svc w)" "vmarks d = vmarks (pw_mem w p)"
  shows "pipe_ok cd (job_store p d [] w)"
  using assms by (intro pipe_ok_job) auto

lemma registry_quiet [simp]:
  "vshards (AckPush u c q d) = vshards d" "vmarks (AckPush u c q d) = vmarks d"
  "vshards (handleAck jc v d) = vshards d" "vmarks (handleAck jc v d) = vmarks d"
  "vshards (retry_begin pv t d) = vshards d" "vmarks (retry_begin pv t d) = vmarks d"
  "vshards (retry_end flt now t d) = vshards d" "vmarks (retry_end flt now t d) = vmarks d"
  by (simp_all add: AckPush_def handleAck_def retry_begin_def retry_end_def push_user_def schedule_def fire_def
      writeOfflineBox_def Let_def case_prod_beta split: option.split)

lemma box_entry_quiet: "vshards (box_entry env b d) = vshards d \<and> vmarks (box_entry env b d) = vmarks d"
  by (simp add: box_entry_def box_markDone_def case_prod_beta)

lemma box_fold_quiet: "vshards (fold (box_entry env) bs d) = vshards d \<and> vmarks (fold (box_entry env) bs d) = vmarks d"
  by (induction bs arbitrary: d) (simp_all add: box_entry_quiet)

lemma box_Exec_quiet: "vshards (snd (box_Exec env shard d)) = vshards d \<and> vmarks (snd (box_Exec env shard d)) = vmarks d"
  by (simp add: box_Exec_def box_fold_quiet split: option.split)

lemma reconcile_quiet: "vshards (snd (reconcile env cs d)) = vshards d \<and> vmarks (snd (reconcile env cs d)) = vmarks d"
  by (induction env cs d rule: reconcile.induct) simp_all

lemma unread_Exec_quiet: "vshards (snd (unread_Exec env shard d)) = vshards d \<and> vmarks (snd (unread_Exec env shard d)) = vmarks d"
  by (simp add: unread_Exec_def reconcile_quiet split: option.split)

text \<open>A run of the consumer or the scan.\<close>

lemma pipe_ok_deliver:
  assumes ok: "pipe_ok cd w" and e: "stored_event (pw_svc w) e"
  shows "pipe_ok cd (job_store p (Deliver env e (job_view p w)) (fanouts env e (job_view p w)) w)"
proof (rule pipe_ok_job [OF ok])
  show "stored_event (pw_svc w) (fo_event f) \<and> reached f" if "f \<in> set (fanouts env e (job_view p w))" for f
    using e fanouts_reached [OF that] by simp
  show "x \<in> fst ` set (b_buf (vmarks (pw_mem w p) i)) \<or>
      (\<exists>f \<in> set (fanouts env e (job_view p w)). (pe_conv (fo_event f), pe_msg_id (fo_event f)) = x)"
    if "x \<in> fst ` set (b_buf (vmarks (Deliver env e (job_view p w)) i))" for x i
    using Deliver_marks [OF that] by simp
qed simp_all

lemma in_mark_done: "l \<in> set t \<Longrightarrow> lm_status l = 0 \<Longrightarrow> l \<in> set (mark_done ks t) \<or> lm_key l \<in> set ks"
  by (auto simp: mark_done_def set_row_upd)

lemma no_message:
  assumes "pipe_ok cd w" "message_of k (job_view p w) = None"
  shows "k \<notin> ms_idkey ` set (msg_table (mshards (pw_svc w)) sh)"
proof
  assume "k \<in> ms_idkey ` set (msg_table (mshards (pw_svc w)) sh)"
  then obtain r where r: "r \<in> set (msg_table (mshards (pw_svc w)) sh)" "ms_conv r = fst k" "ms_id r = snd k"
    by (auto simp: ms_idkey_def)
  have "sh = RouteMsg (mslots (pw_svc w)) (fst k)" using pipe_okD(2) [OF assms(1) r(1)] r(2) by (simp add: shard_of_def)
  then show False using assms(2) r by (auto simp: message_of_def find_None_iff)
qed

lemma pipe_ok_redeliver:
  assumes ok: "pipe_ok cd w"
  shows "pipe_ok cd (job_store p (redeliverOne env db k (job_view p w)) (scan_fanouts env k (job_view p w)) w)"
proof (cases "sn_load env k")
  case Some
  then show ?thesis using ok by (auto simp: redeliverOne_eq scan_fanouts_def intro: pipe_ok_quiet)
next
  case None
  show ?thesis
  proof (cases "message_of k (job_view p w)")
    case none: None
    note N = no_message [OF ok none]
    show ?thesis
    proof (cases "sn_mark env k")
      case mark: None
      let ?d = "(job_view p w)\<lparr>vshards := set_local_table db (mark_done [k] (local_table (mshards (pw_svc w)) db)) (mshards (pw_svc w))\<rparr>"
      have "pipe_ok cd (job_store p ?d [] w)"
      proof (rule pipe_ok_job [OF ok])
        fix i l assume "l \<in> set (local_table (mshards (pw_svc w)) i)" "lm_status l = 0"
        from in_mark_done [OF this, of "[k]"] \<open>l \<in> _\<close> N
        show "l \<in> set (local_table (vshards ?d) i) \<or> fanned w (lm_key l) \<or>
          (\<forall>sh. lm_key l \<notin> ms_idkey ` set (msg_table (mshards (pw_svc w)) sh))" by auto
      qed simp_all
      then show ?thesis using None none mark by (simp add: redeliverOne_eq scan_fanouts_def)
    qed (use ok None none in \<open>auto simp: redeliverOne_eq scan_fanouts_def intro: pipe_ok_quiet\<close>)
  next
    case (Some r)
    from message_ofD [OF Some] have "stored_event (pw_svc w) (rebuilt_event r)"
      by (auto simp: stored_event_def event_of_def rebuilt_event_def table_of_def shard_of_def intro!: bexI [of _ r])
    from pipe_ok_deliver [OF ok this] show ?thesis using None Some by (simp add: redeliverOne_eq scan_fanouts_def)
  qed
qed

lemma pipe_ok_flush:
  assumes ok: "pipe_ok cd w"
  shows "pipe_ok cd (job_store p (flush_marks f (job_view p w)) [] w)"
proof -
  obtain i flt where f: "f = (i, flt)" by force
  let ?buf = "map fst (b_buf (vmarks (pw_mem w p) i))"
  have d: "vmarks (flush_marks f (job_view p w)) j = (if j = i then snd (swap_out (vmarks (pw_mem w p) i)) else vmarks (pw_mem w p) j)" for j
    by (simp add: f flush_marks_def mark_flush_def Let_def swap_out_def)
  have s: "vshards (flush_marks f (job_view p w)) = mshards (pw_svc w) \<or> vshards (flush_marks f (job_view p w)) =
      set_local_table i (mark_done ?buf (local_table (mshards (pw_svc w)) i)) (mshards (pw_svc w))"
    by (simp add: f flush_marks_def mark_flush_def Let_def swap_out_def)
  show ?thesis
  proof (rule pipe_ok_job [OF ok])
    fix j l assume l: "l \<in> set (local_table (mshards (pw_svc w)) j)" "lm_status l = 0"
    have "fanned w x" if "x \<in> set ?buf" for x using pipe_okD(4) [OF ok, of x p i] that by simp
    then show "l \<in> set (local_table (vshards (flush_marks f (job_view p w))) j) \<or> fanned w (lm_key l) \<or>
        (\<forall>sh. lm_key l \<notin> ms_idkey ` set (msg_table (mshards (pw_svc w)) sh))"
      using s l in_mark_done [OF l, of ?buf] by (cases "j = i") (elim disjE; simp)+
  qed (use s in \<open>auto simp: d swap_out_def split: if_splits\<close>)
qed

lemma pipe_ok_cleanup:
  assumes ok: "pipe_ok cd w"
  shows "pipe_ok cd (job_store p (snd (cleanup_Exec flt now shard (job_view p w))) [] w)"
proof -
  let ?d = "snd (cleanup_Exec flt now shard (job_view p w))"
  show ?thesis
  proof (cases "?d = job_view p w")
    case True
    then show ?thesis using ok by (auto intro: pipe_ok_quiet)
  next
    case False
    then obtain i r t where C: "cleanup_loop flt (now - offlineBoxTTL) 0 (local_table (mshards (pw_svc w)) (nat i)) = (r, t)"
      and d: "?d = (job_view p w)\<lparr>vshards := set_local_table (nat i) t (mshards (pw_svc w))\<rparr>"
      by (auto simp: cleanup_Exec_def split: option.splits if_splits prod.splits)
    have keep: "l \<in> set t" if "l \<in> set (local_table (mshards (pw_svc w)) (nat i))" "lm_status l = 0" for l
    proof -
      have "l \<in> set (filter (\<lambda>x. \<not> finished (now - offlineBoxTTL) x) (local_table (mshards (pw_svc w)) (nat i)))"
        using that by (simp add: finished_def)
      then show ?thesis using cleanup_loop_spec [OF C] by (metis (no_types, lifting) filter_is_subset subsetD)
    qed
    show ?thesis unfolding d using keep by (intro pipe_ok_job [OF ok]) auto
  qed
qed

lemma pipe_ok_step: "pipe_step cd w w' \<Longrightarrow> codec_ok cd \<Longrightarrow> pipe_ok cd w \<Longrightarrow> pipe_ok cd w'"
proof (induction rule: pipe_step.induct)
  case send
  then show ?case by (blast intro: pipe_ok_send)
next
  case (revoke eq cd env flt msgID c op w rres s' lost)
  show ?case
  proof (cases "s' = pw_svc w")
    case True
    then have "svc_store kcd lost s' w = w" for kcd by (simp add: svc_store_def sent_events_def split: option.split)
    then show ?thesis using revoke by simp
  next
    case False
    with revoke_message_store [OF revoke(1)] revoke show ?thesis by (blast intro: pipe_ok_send)
  qed
next
  case (consume k v w part e n env)
  then have "stored_event (pw_svc w) e" by (blast dest: pipe_okD(3))
  with consume show ?case by (simp add: handlePush_def pipe_ok_deliver)
next
  case restart
  then show ?case by (auto simp: pipe_ok_def fresh_memory_def empty_batch_def fanned_def)
next
  case (other s' w m)
  have "stored_event s' = stored_event (pw_svc w)" "shard_of s' = shard_of (pw_svc w)"
    by (intro ext, simp add: stored_event_def table_of_def shard_of_def other(1,2))+
  with other show ?case by (simp add: pipe_ok_def ids_unique_def open_task_def fanned_def)
qed (simp_all add: pipe_ok_quiet pipe_ok_redeliver pipe_ok_flush pipe_ok_cleanup box_Exec_quiet unread_Exec_quiet)

lemma pipe_ok_reach: "(pipe_step cd)\<^sup>*\<^sup>* w0 w \<Longrightarrow> codec_ok cd \<Longrightarrow> pipe_start w0 \<Longrightarrow> pipe_ok cd w"
proof (induction rule: rtranclp_induct)
  case base
  then show ?case
    by (auto simp: pipe_start_def pipe_ok_def ids_unique_def fresh_memory_def empty_batch_def pk_ok_def)
qed (blast intro: pipe_ok_step)

text \<open>
  C4: No message is dropped between the store and its readers: whatever the processes do in whatever
  order, with records lost or read again, job services and schedulers crashing, statements and
  commits failing, and finished tasks cleaned up, a stored message whose delivery task is no longer
  open (it is marked done, or deleted) went through a completed fan-out of exactly this message; at
  its end every member but the author had the push waiting for his acknowledgement or an offline
  row, except those whose offline row the database refused.
\<close>

theorem closed_task_was_fanned_out:
  assumes "(pipe_step cd)\<^sup>*\<^sup>* w0 w" "pipe_start w0" "codec_ok cd"
    and "r \<in> set (msg_table (mshards (pw_svc w)) sh)"
    and "\<forall>l \<in> set (local_table (mshards (pw_svc w)) (DBIndex sh)). lm_key l = (ms_conv r, ms_id r) \<longrightarrow> lm_status l \<noteq> 0"
  shows "\<exists>f \<in> set (pw_log w). pe_conv (fo_event f) = ms_conv r \<and> pe_max_seq (fo_event f) = ms_seq r \<and>
    pe_from (fo_event f) = ms_from r \<and>
    (\<forall>u \<in> set (fo_members f). u \<noteq> ms_from r \<longrightarrow> \<not> fo_refused f u \<longrightarrow>
       alive u (ms_conv r) (ms_seq r) (vpend (fo_end f)) \<or>
       (\<exists>b \<in> set (offline_box (vdb (fo_end f))). ob_key b = (u, ms_conv r, ms_seq r)))"
proof -
  have ok: "pipe_ok cd w" by (rule pipe_ok_reach [OF assms(1,3,2)])
  have "\<not> open_task (pw_svc w) sh r" using assms(5) by (auto simp: open_task_def ms_idkey_def)
  then have "fanned w (ms_idkey r)" using pipe_okD(6) [OF ok assms(4)] by simp
  then obtain f where f: "f \<in> set (pw_log w)" "pe_conv (fo_event f) = ms_conv r" "pe_msg_id (fo_event f) = ms_id r"
    by (auto simp: fanned_def ms_idkey_def)
  from pipe_okD(5) [OF ok f(1)] obtain q where q: "q \<in> set (table_of (pw_svc w) (ms_conv r))" "event_of q (fo_event f)"
    and R: "reached f" using f(2) by (auto simp: stored_event_def)
  have "ms_idkey q = ms_idkey r" using q(2) f by (simp add: event_of_def ms_idkey_def)
  moreover have "table_of (pw_svc w) (ms_conv r) = msg_table (mshards (pw_svc w)) sh"
    using pipe_okD(2) [OF ok assms(4)] by (simp add: table_of_def)
  moreover have "pk_ok ms_idkey (msg_table (mshards (pw_svc w)) sh)" using pipe_okD(1) [OF ok] by (simp add: ids_unique_def)
  ultimately have "q = r" using q(1) assms(4) by (metis inj_onD pk_ok_def distinct_map)
  then show ?thesis using f(1) q(2) R by (auto simp: event_of_def reached_def intro!: bexI [of _ f])
qed

subsection \<open>The registry of the scheduler\<close>

lemma alive_deliver_one: "alive u c q (vpend d) \<Longrightarrow> alive u c q (vpend (deliver_one env e v d))"
proof -
  assume a: "alive u c q (vpend d)"
  obtain y d1 where b: "bump_receiver env v d = (y, d1)" by force
  obtain p d2 where p: "push_user (de_push env) e v y d1 = (p, d2)" by force
  have "vpend d2 = vpend d" using bump_simps(1) [of env v d] push_user_simps(1) [of "de_push env" e v y d1] b p by simp
  then show ?thesis using a by (auto simp: deliver_one_def b p alive_register Let_def)
qed

lemma alive_Deliver: "alive u c q (vpend d) \<Longrightarrow> alive u c q (vpend (Deliver env e d))"
proof -
  have "alive u c q (vpend d) \<Longrightarrow> alive u c q (vpend (fold (deliver_one env e) us d))" for us d
    by (induction us arbitrary: d) (simp_all add: alive_deliver_one)
  then show "alive u c q (vpend d) \<Longrightarrow> ?thesis" by (simp add: Deliver_def Let_def split: prod.split sum.split)
qed

lemma registry_pend:
  "vpend (retry_begin pv t d) = vpend d" "vpend (flush_marks f d) = vpend d"
  "vpend (snd (cleanup_Exec cf now shard d)) = vpend d" "vpend (snd (unread_Exec ue shard d)) = vpend d"
  "vpend (snd (box_Exec be shard d)) = vpend d"
proof -
  have box: "vpend (fold (box_entry be) bs d) = vpend d" for bs d
    by (induction bs arbitrary: d) (simp_all add: box_entry_def box_markDone_def case_prod_beta)
  have rec: "vpend (snd (reconcile ue cs d)) = vpend d" for cs
    by (induction ue cs d rule: reconcile.induct) simp_all
  show "vpend (retry_begin pv t d) = vpend d" "vpend (flush_marks f d) = vpend d"
    "vpend (snd (cleanup_Exec cf now shard d)) = vpend d" "vpend (snd (unread_Exec ue shard d)) = vpend d"
    "vpend (snd (box_Exec be shard d)) = vpend d"
    by (simp_all add: retry_begin_def flush_marks_def cleanup_Exec_def unread_Exec_def box_Exec_def Let_def box rec
        split: prod.split option.split)
qed

lemma alive_remove_pend: "alive u c q (remove_pend v d p ps) \<longleftrightarrow> alive u c q ps \<and> (u, c, q) \<noteq> (v, d, p)"
proof -
  have "map_of (filter (\<lambda>x. fst x \<noteq> p) xs) q = (if q = p then None else map_of xs q)" for xs :: "(int \<times> PushEvent) list"
    by (induction xs) auto
  then show ?thesis by (auto simp: alive_def remove_pend_def)
qed

lemma retry_end_pend:
  "alive u c q (vpend d) \<Longrightarrow> alive u c q (vpend (retry_end fault now t d)) \<or> fault \<noteq> None \<or> boxed u c q (retry_end fault now t d)"
proof -
  assume a: "alive u c q (vpend d)"
  show ?thesis
  proof (cases "length retryDelays \<le> rt_level t \<and> (rt_uid t, pe_conv (rt_event t), pe_max_seq (rt_event t)) = (u, c, q)")
    case True
    then show ?thesis by (cases fault) (auto simp: retry_end_def Let_def boxed_write)
  next
    case False
    then show ?thesis using a by (auto simp: retry_end_def Let_def alive_remove_pend schedule_def split: option.split)
  qed
qed

text \<open>
  Acknowledgements reach job services only, and each has a registry of its own: what the scheduler
  has redelivered stays in the scheduler's registry whatever the user acknowledges, until the last
  retry puts it into the offline box (or that insert fails, or the scheduler stops).
\<close>

lemma scheduler_push_ignores_acks:
  assumes "pipe_step cd w w'" "alive u c q (vpend (pw_mem w Scheduler))"
  shows "alive u c q (vpend (pw_mem w' Scheduler)) \<or> (\<exists>b \<in> set (offline_box (mdb (pw_svc w'))). ob_key b = (u, c, q)) \<or>
    (\<exists>e now t. w' = job_store Scheduler (retry_end (Some e) now t (job_view Scheduler w)) [] w) \<or>
    (\<exists>d. w' = w\<lparr>pw_mem := (pw_mem w)(Scheduler := d)\<rparr>)"
  using assms
proof (induction rule: pipe_step.induct)
  case (redeliver w senv db x)
  then have "alive u c q (vpend (redeliverOne senv db x (job_view Scheduler w)))"
    by (auto simp: redeliverOne_eq alive_Deliver split: option.split)
  then show ?case by simp
next
  case (retry_start w p pv t)
  then show ?case by (cases p) (simp_all add: registry_pend)
next
  case (retry_finish w p fault now t)
  have "boxed u c q d \<Longrightarrow> \<exists>b \<in> set (offline_box (vdb d)). ob_key b = (u, c, q)" for d
    by (auto simp: boxed_def dest: row_get_SomeD)
  with retry_finish retry_end_pend [of u c q "job_view Scheduler w" fault now t] show ?case
    by (cases "p = Scheduler"; cases fault) auto
next
  case (flush w p f)
  then show ?case by (cases p) (simp_all add: registry_pend)
next
  case (restart d w p)
  then show ?case by (cases "p = Scheduler") (blast, simp)
qed (simp_all add: registry_pend)

subsection \<open>Witness\<close>

definition demo_topic_codec :: kafka_codec where
  "demo_topic_codec = \<lparr>kc_push = (\<lambda>_. None), kc_ack = (\<lambda>_. None),
     kc_job = \<lparr>decode_push = (\<lambda>_. None), decode_ack = (\<lambda>_. None)\<rparr>, kc_part = (\<lambda>_. 0)\<rparr>"

definition demo_pipe :: pipe where
  "demo_pipe = \<lparr>pw_svc = demo_svc, pw_topic = (\<lambda>_. []), pw_mem = (\<lambda>_. demo_deliverer), pw_log = []\<rparr>"

definition demo_stored_pipe :: pipe where
  \<comment> \<open>a message was sent, its event lost, and the conversation's row is there\<close>
  "demo_stored_pipe = (svc_store demo_topic_codec (\<lambda>_. True) (demo_sent 99) demo_pipe)\<lparr>pw_svc := (demo_sent 99)\<lparr>mdb := vdb demo_deliverer\<rparr>,
     pw_mem := pw_mem demo_pipe\<rparr>"

definition demo_senv :: scan_env where
  "demo_senv = \<lparr>sn_now = 70000, sn_query = None, sn_load = (\<lambda>_. None), sn_mark = (\<lambda>_. None), sn_deliver = (\<lambda>_. demo_denv True None)\<rparr>"

definition demo_done_pipe :: pipe where
  "demo_done_pipe =
     (let w = job_store Scheduler (redeliverOne demo_senv 0 (7, 5) (job_view Scheduler demo_stored_pipe))
                (scan_fanouts demo_senv (7, 5) (job_view Scheduler demo_stored_pipe)) demo_stored_pipe
      in job_store Scheduler (flush_marks (0, None) (job_view Scheduler w)) [] w)"

lemma demo_done_reached: "(pipe_step demo_topic_codec)\<^sup>*\<^sup>* demo_pipe demo_done_pipe"
proof -
  have "ids_unique (demo_sent 99)" using demo_sent_ok(2) [of 99] by (simp add: ids_unique_def tables_ok_def shard_ok_def Let_def)
  then have 1: "pipe_step demo_topic_codec demo_pipe (svc_store demo_topic_codec (\<lambda>_. True) (demo_sent 99) demo_pipe)"
    using demo_sends [of 99] by (intro pipe_step.send) (auto simp: demo_pipe_def demo_sent_def)
  have 2: "pipe_step demo_topic_codec (svc_store demo_topic_codec (\<lambda>_. True) (demo_sent 99) demo_pipe) demo_stored_pipe"
    unfolding demo_stored_pipe_def by (rule pipe_step.other) simp_all
  let ?w = "job_store Scheduler (redeliverOne demo_senv 0 (7, 5) (job_view Scheduler demo_stored_pipe))
    (scan_fanouts demo_senv (7, 5) (job_view Scheduler demo_stored_pipe)) demo_stored_pipe"
  have 3: "pipe_step demo_topic_codec demo_stored_pipe ?w" by (rule pipe_step.redeliver)
  have 4: "pipe_step demo_topic_codec ?w demo_done_pipe" unfolding demo_done_pipe_def Let_def by (rule pipe_step.flush)
  show ?thesis using 1 2 3 4 by (meson rtranclp.intros)
qed

lemma demo_done_task: "\<forall>l \<in> set (local_table (mshards (pw_svc demo_done_pipe)) 0). lm_key l = (7, 5) \<longrightarrow> lm_status l \<noteq> 0"
proof -
  let ?d0 = "job_view Scheduler demo_stored_pipe"
  let ?d1 = "redeliverOne demo_senv 0 (7, 5) ?d0"
  let ?w = "job_store Scheduler ?d1 (scan_fanouts demo_senv (7, 5) ?d0) demo_stored_pipe"
  have route: "RouteMsg (mslots (pw_svc demo_stored_pipe)) 7 = MsgShard 0 0"
    using shard_of_demo [of "pw_svc demo_stored_pipe" 7] by (simp add: demo_stored_pipe_def shard_of_def demo_sent_def demo_sends)
  have "message_of (7, 5) ?d0 = Some (demo_row 99)"
    by (simp add: message_of_def route) (simp add: demo_stored_pipe_def demo_sent_def demo_sends demo_stored_tables demo_row_def)
  then have d1: "?d1 = Deliver (demo_denv True None) (rebuilt_event (demo_row 99)) ?d0"
    by (simp add: redeliverOne_eq demo_senv_def)
  have e: "pe_conv (rebuilt_event (demo_row 99)) = 7" "pe_msg_id (rebuilt_event (demo_row 99)) = 5"
    by (simp_all add: rebuilt_event_def demo_row_def)
  have mem: "ConvMembers redis_up None 100 (vcache ?d0) (vdb ?d0) 7 = (Inr [1, 2], None)"
    by (simp add: ConvMembers_def demo_stored_pipe_def job_view_def demo_pipe_def demo_deliverer_def)
  have "(7, 5) \<in> fst ` set (b_buf (vmarks ?d1 0))"
    using mark_added [of "(7, 5)" "vslots ?d0" "vmarks ?d0"] mem unfolding d1
    by (simp add: Deliver_def e Let_def demo_denv_def demo_push_def route split: prod.split sum.split)
  then have m: "(7, 5) \<in> fst ` set (b_buf (vmarks (job_view Scheduler ?w) 0))" by simp
  have "lm_status l \<noteq> 0" if "l \<in> set (local_table (snd (mark_flush (0, None) (vmarks (job_view Scheduler ?w), vshards (job_view Scheduler ?w)))) 0)"
    "lm_key l = (7, 5)" for l using flush_marks_done [OF m that] .
  then show ?thesis by (simp add: demo_done_pipe_def Let_def flush_marks_def split: prod.split)
qed

lemma closed_task_was_fanned_out_witness:
  "\<exists>f \<in> set (pw_log demo_done_pipe). pe_conv (fo_event f) = 7 \<and> pe_max_seq (fo_event f) = 1 \<and> pe_from (fo_event f) = 1"
proof -
  have "pipe_start demo_pipe"
    by (simp add: pipe_start_def demo_pipe_def demo_svc_def fresh_memory_def fresh_deliverer_def demo_deliverer_def)
  moreover have "codec_ok demo_topic_codec" by (simp add: codec_ok_def demo_topic_codec_def)
  moreover have "msg_table (mshards (pw_svc demo_done_pipe)) (MsgShard 0 0) = [demo_row 99]"
  proof -
    have "msg_table (vshards (flush_marks f d)) sh = msg_table (vshards d) sh" for f d sh
      by (simp add: flush_marks_def mark_flush_def Let_def case_prod_beta)
    moreover have "msg_table (vshards (redeliverOne env i k d)) sh = msg_table (vshards d) sh" for env i k d sh
      by (simp add: redeliverOne_eq split: option.split)
    ultimately show ?thesis
      by (simp add: demo_done_pipe_def Let_def) (simp add: demo_stored_pipe_def demo_sent_def demo_sends demo_stored_tables)
  qed
  ultimately show ?thesis
    using closed_task_was_fanned_out [OF demo_done_reached, of "demo_row 99" "MsgShard 0 0"] demo_done_task
    by (fastforce simp: demo_row_def)
qed

end
