(* ===== verification/Backlog.thy ===== *)
theory Backlog
  imports Pipeline Group
begin

text \<open>
  The third line of defence catches up: the scan of \<open>internal/message/compensation.go\<close> run again and
  again, with the flush of its delivery marks between two runs, redelivers every overdue delivery
  task of a message database and closes it, also when each run visits all the databases in turn.
\<close>

subsection \<open>Members are what the database says\<close>

definition cached_members :: "conv_id \<Rightarrow> redis option \<Rightarrow> uid list option" where
  "cached_members c ca = (case ca of None \<Rightarrow> None
     | Some r \<Rightarrow> (case kv r (membersKey c) of Some (VMembers m) \<Rightarrow> Some m | _ \<Rightarrow> None))"

definition coherent :: "redis option \<Rightarrow> meta_db \<Rightarrow> bool" where
  \<comment> \<open>member lists in the cache are those of the database\<close>
  "coherent ca db \<longleftrightarrow> (\<forall>c ms. cached_members c ca = Some ms \<longrightarrow> json_members c db = Some ms)"

lemma ConvMembers_coherent:
  assumes "coherent ca db" "json_members c db = Some ms"
  shows "fst (ConvMembers f None now ca db c) = Inr ms \<and> coherent (snd (ConvMembers f None now ca db c)) db"
proof (cases "rget f now ca (membersKey c)")
  case None
  with assms show ?thesis
    by (auto simp: ConvMembers_def json_members_def Option.bind_eq_Some_conv coherent_def cached_members_def cmd_def put_ttl_def
        split: option.splits if_splits rval.splits)
next
  case (Some v)
  then have v: "\<exists>r. ca = Some r \<and> kv r (membersKey c) = Some v"
    by (auto simp: rget_def live_def split: option.splits if_splits)
  show ?thesis
  proof (cases "\<exists>m. v = VMembers m")
    case True
    with Some v assms show ?thesis by (auto simp: ConvMembers_def coherent_def cached_members_def)
  next
    case False
    with Some assms show ?thesis
      by (auto simp: ConvMembers_def json_members_def Option.bind_eq_Some_conv coherent_def cached_members_def cmd_def put_ttl_def
          split: option.splits if_splits rval.splits)
  qed
qed

lemma syncSeqScript_other: "k' \<noteq> k \<Longrightarrow> kv (snd (syncSeqScript now k f r)) k' = kv r k'"
  by (simp add: syncSeqScript_def put_keep_def put_plain_def split: option.split rval.split)

lemma SyncSeqBump_members: "cached_members c (snd (SyncSeqBump f now ca u n)) = cached_members c ca"
proof (cases ca)
  case (Some r)
  obtain v r' where S: "syncSeqScript now (syncSeqKey u) n r = (v, r')" by force
  then have "kv r' (membersKey c) = kv r (membersKey c)"
    using syncSeqScript_other [of "membersKey c" "syncSeqKey u" now n r] by simp
  with Some S show ?thesis by (simp add: SyncSeqBump_def cached_members_def split: outcome.split)
qed (simp add: SyncSeqBump_def)

lemma bump_members: "cached_members c (vcache (snd (bump_receiver env u d))) = cached_members c (vcache d)"
proof (cases "vsync d")
  case (Some y)
  obtain f r1 where F: "floorFor (de_floor env u) u (y\<lparr>sync_cache := vcache d\<rparr>) = (f, r1)" by force
  then have c: "sync_cache r1 = vcache d" by (auto simp: floorFor_def Let_def split: option.splits)
  obtain v ca where S: "SyncSeqBump (pv_redis (de_push env)) (pv_now (de_push env)) (vcache d) u f = (v, ca)" by force
  have "cached_members c ca = cached_members c (vcache d)"
    using SyncSeqBump_members [of c "pv_redis (de_push env)" "pv_now (de_push env)" "vcache d" u f] S by simp
  then show ?thesis using Some F S c by (cases v) (auto simp: bump_receiver_def sync_BumpSyncSeq_def)
qed (simp add: bump_receiver_def)

text \<open>What a redelivery leaves as it is.\<close>

definition same_base :: "deliverer \<Rightarrow> deliverer \<Rightarrow> bool" where
  "same_base d d' \<longleftrightarrow> vslots d' = vslots d \<and> conversations (vdb d') = conversations (vdb d) \<and>
     (\<forall>sh. msg_table (vshards d') sh = msg_table (vshards d) sh)"

lemma same_base_refl [simp]: "same_base d d"
  by (simp add: same_base_def)

lemma same_base_trans: "same_base a b \<Longrightarrow> same_base b c \<Longrightarrow> same_base a c"
  by (simp add: same_base_def)

lemma deliver_one_base: "same_base d (deliver_one env e u d) \<and>
    cached_members c (vcache (deliver_one env e u d)) = cached_members c (vcache d)"
proof -
  obtain y d1 where b: "bump_receiver env u d = (y, d1)" by force
  obtain p d2 where p: "push_user (de_push env) e u y d1 = (p, d2)" by force
  have "vdb d1 = vdb d" "cached_members c (vcache d1) = cached_members c (vcache d)"
    using bump_simps(4) [of env u d] bump_members [of c env u d] b by simp_all
  moreover have "vdb d2 = vdb d1" "vcache d2 = vcache d1" using p by (auto simp: push_user_def Let_def split: prod.splits)
  ultimately have "conversations (vdb (deliver_one env e u d)) = conversations (vdb d)"
    "cached_members c (vcache (deliver_one env e u d)) = cached_members c (vcache d)"
    by (simp_all add: deliver_one_def b p register_def fire_def writeOfflineBox_def Let_def)
  then show ?thesis by (simp add: same_base_def)
qed

lemma fold_deliver_base: "same_base d (fold (deliver_one env e) us d) \<and>
    cached_members c (vcache (fold (deliver_one env e) us d)) = cached_members c (vcache d)"
proof (induction us arbitrary: d)
  case (Cons u us)
  from Cons [of "deliver_one env e u d"] deliver_one_base [of d env e u c] show ?case
    by (auto intro: same_base_trans)
qed simp

subsection \<open>One redelivery\<close>

definition healthy :: "scan_env \<Rightarrow> bool" where
  \<comment> \<open>the databases answer; Redis, the connection servers and the sequence service may not\<close>
  "healthy env \<longleftrightarrow> sn_query env = None \<and> (\<forall>k. sn_load env k = None \<and> sn_mark env k = None \<and>
     de_members (sn_deliver env k) = None \<and> (\<forall>u. de_box (sn_deliver env k) u = None))"

definition noticed :: "uid \<Rightarrow> conv_id \<Rightarrow> int \<Rightarrow> deliverer \<Rightarrow> bool" where
  \<comment> \<open>the push waits for an acknowledgement or is in the offline box\<close>
  "noticed u c q d \<longleftrightarrow> alive u c q (vpend d) \<or> boxed u c q d"

abbreviation marked :: "nat \<Rightarrow> deliverer \<Rightarrow> (conv_id \<times> int) set" where
  "marked i d \<equiv> fst ` set (b_buf (vmarks d i))"

lemma mark_add_marked: "fst ` set (b_buf (mark_add slots x m i)) =
    (if i = DBIndex (RouteMsg slots (fst x)) then {x} else {}) \<union> fst ` set (b_buf (m i))"
  by (simp add: mark_add_def start_flush_def Let_def dom_update [unfolded dom_map_of_conv_image_fst])

lemma Deliver_effect:
  assumes C: "coherent (vcache d) (vdb d)" "json_members (pe_conv e) (vdb d) = Some ms"
    and env: "de_members env = None" "\<And>u. de_box env u = None" and id: "pe_msg_id e \<noteq> 0"
  shows "same_base d (Deliver env e d)" and "coherent (vcache (Deliver env e d)) (vdb (Deliver env e d))"
    and "(pe_conv e, pe_msg_id e) \<in> marked (DBIndex (RouteMsg (vslots d) (pe_conv e))) (Deliver env e d)"
    and "marked i d \<subseteq> marked i (Deliver env e d)" "marked i (Deliver env e d) \<subseteq> insert (pe_conv e, pe_msg_id e) (marked i d)"
    and "u \<in> set ms \<Longrightarrow> u \<noteq> pe_from e \<Longrightarrow> noticed u (pe_conv e) (pe_max_seq e) (Deliver env e d)"
    and "noticed v c q d \<Longrightarrow> noticed v c q (Deliver env e d)"
    and "j \<noteq> DBIndex (RouteMsg (vslots d) (pe_conv e)) \<Longrightarrow> marked j (Deliver env e d) = marked j d"
    and "local_table (vshards (Deliver env e d)) j = local_table (vshards d) j"
proof -
  note M = ConvMembers_coherent [OF C, of "pv_redis (de_push env)" "pv_now (de_push env)"]
  then obtain ca where ca: "ConvMembers (pv_redis (de_push env)) (de_members env) (pv_now (de_push env)) (vcache d) (vdb d) (pe_conv e) = (Inr ms, ca)"
    using env(1) by (metis prod.collapse)
  let ?us = "filter (\<lambda>u. u \<noteq> pe_from e) ms"
  let ?d1 = "fold (deliver_one env e) ?us (d\<lparr>vcache := ca\<rparr>)"
  have D: "Deliver env e d = ?d1\<lparr>vmarks := mark_add (vslots d) (pe_conv e, pe_msg_id e) (vmarks d)\<rparr>"
    using ca id by (simp add: Deliver_def Let_def)
  note F = fold_deliver_base [of "d\<lparr>vcache := ca\<rparr>" env e ?us]
  show "same_base d (Deliver env e d)" using F by (simp add: same_base_def D)
  have "coherent ca (vdb d)" using M ca env(1) by simp
  moreover have "json_members x (vdb (Deliver env e d)) = json_members x (vdb d)" for x
    using F by (simp add: D same_base_def json_members_def)
  ultimately show "coherent (vcache (Deliver env e d)) (vdb (Deliver env e d))"
    using F by (simp add: coherent_def D)
  show "(pe_conv e, pe_msg_id e) \<in> marked (DBIndex (RouteMsg (vslots d) (pe_conv e))) (Deliver env e d)"
    "marked i d \<subseteq> marked i (Deliver env e d)" "marked i (Deliver env e d) \<subseteq> insert (pe_conv e, pe_msg_id e) (marked i d)"
    "j \<noteq> DBIndex (RouteMsg (vslots d) (pe_conv e)) \<Longrightarrow> marked j (Deliver env e d) = marked j d"
    "local_table (vshards (Deliver env e d)) j = local_table (vshards d) j"
    by (auto simp: D mark_add_marked)
  show "noticed u (pe_conv e) (pe_max_seq e) (Deliver env e d)" if "u \<in> set ms" "u \<noteq> pe_from e"
    using Deliver_settled [OF ca that] env(2) by (simp add: noticed_def settled_def)
  have mono: "noticed v c q x \<Longrightarrow> noticed v c q (fold (deliver_one env e) us x)" for us x
    using deliver_one_settled(2) [of env v c q _ e] env(2) by (induction us arbitrary: x) (auto simp: noticed_def settled_def)
  show "noticed v c q (Deliver env e d)" if "noticed v c q d"
    using mono [of "d\<lparr>vcache := ca\<rparr>" ?us] that by (simp add: D noticed_def boxed_def)
qed

definition scannable :: "nat \<Rightarrow> conv_id \<times> int \<Rightarrow> deliverer \<Rightarrow> bool" where
  \<comment> \<open>a task of database \<open>i\<close>: routed there, with a message id, and a readable member list if it has a message\<close>
  "scannable i k d \<longleftrightarrow> DBIndex (RouteMsg (vslots d) (fst k)) = i \<and> snd k \<noteq> 0 \<and>
     (message_of k d \<noteq> None \<longrightarrow> json_members (fst k) (vdb d) \<noteq> None)"

lemma message_of_base: "same_base d d' \<Longrightarrow> message_of k d' = message_of k d"
  by (simp add: same_base_def message_of_def)

lemma scannable_base: "same_base d d' \<Longrightarrow> scannable i k d' = scannable i k d"
  by (simp add: scannable_def message_of_base) (simp add: same_base_def json_members_def)

definition served :: "conv_id \<times> int \<Rightarrow> deliverer \<Rightarrow> deliverer \<Rightarrow> bool" where
  \<comment> \<open>in the second state the members of the message \<open>k\<close> of the first have its push\<close>
  "served k d d' \<longleftrightarrow> (\<forall>r ms u. message_of k d = Some r \<longrightarrow> json_members (fst k) (vdb d) = Some ms \<longrightarrow> u \<in> set ms \<longrightarrow> u \<noteq> ms_from r \<longrightarrow>
     noticed u (fst k) (ms_seq r) d')"

lemma served_base: "same_base d d1 \<Longrightarrow> served k d1 d' \<Longrightarrow> served k d d'"
  by (simp add: served_def message_of_base) (simp add: same_base_def json_members_def)

lemma served_mono: "served k d d1 \<Longrightarrow> (\<And>v c q. noticed v c q d1 \<Longrightarrow> noticed v c q d') \<Longrightarrow> served k d d'"
  unfolding served_def by blast

lemma mark_done_append: "mark_done bs (mark_done as t) = mark_done (as @ bs) t"
  by (induction t) (auto simp: mark_done_def row_upd_def lm_key_def)

lemma mark_done_Nil: "mark_done [] t = t"
  by (simp add: mark_done_def row_upd_def)

text \<open>What redelivering the tasks \<open>ks\<close> of database \<open>i\<close> does: each is closed or marked.\<close>

definition redelivery :: "nat \<Rightarrow> (conv_id \<times> int) set \<Rightarrow> deliverer \<Rightarrow> deliverer \<Rightarrow> bool" where
  "redelivery i ks d d' \<longleftrightarrow> same_base d d' \<and> coherent (vcache d') (vdb d') \<and>
     marked i d \<subseteq> marked i d' \<and> marked i d' \<subseteq> ks \<union> marked i d \<and>
     (\<exists>js. set js \<subseteq> ks \<and> local_table (vshards d') i = mark_done js (local_table (vshards d) i) \<and> ks \<subseteq> set js \<union> marked i d') \<and>
     (\<forall>k \<in> ks. served k d d') \<and> (\<forall>v c q. noticed v c q d \<longrightarrow> noticed v c q d') \<and>
     (\<forall>j. j \<noteq> i \<longrightarrow> marked j d' = marked j d \<and> local_table (vshards d') j = local_table (vshards d) j)"

lemma redeliveryD:
  assumes "redelivery i ks d d'"
  shows "same_base d d'" "coherent (vcache d') (vdb d')" "marked i d \<subseteq> marked i d'" "marked i d' \<subseteq> ks \<union> marked i d"
    "k \<in> ks \<Longrightarrow> served k d d'" "noticed v c q d \<Longrightarrow> noticed v c q d'"
    "j \<noteq> i \<Longrightarrow> marked j d' = marked j d" "j \<noteq> i \<Longrightarrow> local_table (vshards d') j = local_table (vshards d) j"
    "\<exists>js. set js \<subseteq> ks \<and> local_table (vshards d') i = mark_done js (local_table (vshards d) i) \<and> ks \<subseteq> set js \<union> marked i d'"
  using assms unfolding redelivery_def by blast+

lemma redelivery_none: "coherent (vcache d) (vdb d) \<Longrightarrow> redelivery i {} d d"
  by (auto simp: redelivery_def mark_done_Nil intro!: exI [of _ "[]"])

lemma redelivery_trans:
  assumes A: "redelivery i as d d1" and B: "redelivery i bs d1 d2"
  shows "redelivery i (as \<union> bs) d d2"
proof -
  note a = redeliveryD [OF A] and b = redeliveryD [OF B]
  from a(9) obtain xs where x: "set xs \<subseteq> as" "local_table (vshards d1) i = mark_done xs (local_table (vshards d) i)" "as \<subseteq> set xs \<union> marked i d1"
    by blast
  from b(9) obtain ys where y: "set ys \<subseteq> bs" "local_table (vshards d2) i = mark_done ys (local_table (vshards d1) i)" "bs \<subseteq> set ys \<union> marked i d2"
    by blast
  have "as \<union> bs \<subseteq> set (xs @ ys) \<union> marked i d2" using x(3) y(3) b(3) unfolding set_append by blast
  then have closed: "\<exists>js. set js \<subseteq> as \<union> bs \<and> local_table (vshards d2) i = mark_done js (local_table (vshards d) i) \<and> as \<union> bs \<subseteq> set js \<union> marked i d2"
    using x(1,2) y(1,2) by (intro exI [of _ "xs @ ys"]) (auto simp: mark_done_append)
  have srv: "served k d d2" if "k \<in> as \<union> bs" for k
    using that
  proof
    assume "k \<in> as"
    from served_mono [OF a(5) [OF this] b(6)] show ?thesis .
  next
    assume "k \<in> bs"
    from served_base [OF a(1) b(5) [OF this]] show ?thesis .
  qed
  have other: "\<forall>j. j \<noteq> i \<longrightarrow> marked j d2 = marked j d \<and> local_table (vshards d2) j = local_table (vshards d) j"
    using a(7) b(7) a(8) b(8) by (metis (no_types))
  have sub: "marked i d \<subseteq> marked i d2" "marked i d2 \<subseteq> (as \<union> bs) \<union> marked i d"
    using order_trans [OF a(3) b(3)] order_trans [OF b(4) Un_mono [OF order_refl a(4)]] by (simp_all add: Un_ac)
  show ?thesis unfolding redelivery_def
  proof (intro conjI)
    show "\<forall>v c q. noticed v c q d \<longrightarrow> noticed v c q d2" using a(6) b(6) by blast
  qed (rule same_base_trans [OF a(1) b(1)] b(2) sub closed other srv [THEN ballI] | assumption)+
qed

lemma redeliverOne_effect:
  assumes env: "healthy env" and C: "coherent (vcache d) (vdb d)" and k: "scannable i k d"
  shows "redelivery i {k} d (redeliverOne env i k d)"
proof -
  have ok: "sn_load env k = None" "sn_mark env k = None" "de_members (sn_deliver env k) = None"
    "\<And>u. de_box (sn_deliver env k) u = None" using env unfolding healthy_def by blast+
  show ?thesis
  proof (cases "message_of k d")
  case None
  then have d': "redeliverOne env i k d = d\<lparr>vshards := set_local_table i (mark_done [k] (local_table (vshards d) i)) (vshards d)\<rparr>"
    using ok by (simp add: redeliverOne_eq)
  have "noticed v c q (redeliverOne env i k d) = noticed v c q d" for v c q by (simp add: d' noticed_def boxed_def)
  then show ?thesis using C None by (auto simp: redelivery_def d' same_base_def served_def intro!: exI [of _ "[k]"])
next
  case (Some r)
  then obtain ms where ms: "json_members (fst k) (vdb d) = Some ms" using k by (auto simp: scannable_def)
  have r: "ms_conv r = fst k" "ms_id r = snd k" using message_ofD [OF Some] by simp_all
  have d': "redeliverOne env i k d = Deliver (sn_deliver env k) (rebuilt_event r) d" using ok Some by (simp add: redeliverOne_eq)
  have e: "pe_conv (rebuilt_event r) = fst k" "pe_max_seq (rebuilt_event r) = ms_seq r" "pe_from (rebuilt_event r) = ms_from r"
    "pe_msg_id (rebuilt_event r) = snd k" using r by (simp_all add: rebuilt_event_def)
  have k': "snd k \<noteq> 0" "DBIndex (RouteMsg (vslots d) (fst k)) = i" using k by (simp_all add: scannable_def)
  note D = Deliver_effect [OF C, of "rebuilt_event r" ms "sn_deliver env k", unfolded e, OF ms ok(3,4) k'(1), folded d', unfolded k'(2)]
  have "served k d (redeliverOne env i k d)" using D(6) Some ms by (simp add: served_def)
  then show ?thesis unfolding redelivery_def
    using D(1-5,7-9) by (auto simp: mark_done_Nil intro!: exI [of _ "[]"])
  qed
qed

subsection \<open>One run of the scan\<close>

lemma redeliver_all:
  assumes "healthy env" "coherent (vcache d) (vdb d)" "\<forall>k \<in> set ks. scannable i k d"
  shows "redelivery i (set ks) d (fold (redeliverOne env i) ks d)"
  using assms(2,3)
proof (induction ks arbitrary: d)
  case Nil
  then show ?case by (simp add: redelivery_none)
next
  case (Cons k ks)
  have E: "redelivery i {k} d (redeliverOne env i k d)"
    using Cons.prems by (intro redeliverOne_effect [OF assms(1)]) simp_all
  note sb = redeliveryD(1) [OF E]
  have "\<forall>x \<in> set ks. scannable i x (redeliverOne env i k d)" using Cons.prems(2) by (simp add: scannable_base [OF sb])
  from redelivery_trans [OF E Cons.IH [OF redeliveryD(2) [OF E] this]] show ?case by simp
qed

definition overdue :: "int \<Rightarrow> local_row list \<Rightarrow> local_row list" where
  "overdue now t = filter (\<lambda>l. lm_status l = 0 \<and> lm_create l < now - scanGrace) t"

lemma leftovers_overdue: "leftovers now t = take scanBatch (map lm_key (overdue now t))"
  by (simp add: leftovers_def overdue_def)

lemma overdue_mark_done: "overdue now (mark_done ks t) = filter (\<lambda>l. lm_key l \<notin> set ks) (overdue now t)"
  by (induction t) (auto simp: overdue_def mark_done_def row_upd_def)

lemma overdue_less: "now \<le> T \<Longrightarrow> set (overdue now t) \<subseteq> set (overdue T t)"
  by (auto simp: overdue_def)

lemma length_take_filter: "\<forall>x \<in> set (take n (filter Q xs)). P x \<Longrightarrow> min n (length (filter Q xs)) \<le> length (filter P xs)"
proof (induction xs arbitrary: n)
  case (Cons x xs)
  show ?case
  proof (cases "Q x")
    case True
    then show ?thesis using Cons.prems Cons.IH [of "n - 1"] by (cases n) auto
  next
    case False
    then show ?thesis using Cons.prems Cons.IH [of n] by (auto intro: le_SucI)
  qed
qed simp

lemma length_overdue_done:
  assumes "now \<le> T" "set (leftovers now t) \<subseteq> set js"
  shows "length (overdue T (mark_done js t)) \<le> length (overdue T t) - min scanBatch (length (overdue now t))"
proof -
  have nowT: "overdue now t = filter (\<lambda>l. lm_create l < now - scanGrace) (overdue T t)"
    using assms(1) by (auto simp: overdue_def intro: filter_cong)
  have "\<forall>l \<in> set (take scanBatch (overdue now t)). lm_key l \<in> set js"
    using assms(2) by (auto simp: leftovers_overdue take_map)
  then have "min scanBatch (length (overdue now t)) \<le> length (filter (\<lambda>l. lm_key l \<in> set js) (overdue T t))"
    unfolding nowT by (rule length_take_filter)
  then show ?thesis
    using sum_length_filter_compl [of "\<lambda>l. lm_key l \<in> set js" "overdue T t"] by (simp add: overdue_mark_done)
qed

lemma overdue_in: "l \<in> set (overdue T t) \<Longrightarrow> lm_create l < now - scanGrace \<Longrightarrow> l \<in> set (overdue now t)"
  by (auto simp: overdue_def)

definition scan_round :: "scan_env \<Rightarrow> nat \<Rightarrow> deliverer \<Rightarrow> deliverer" where
  \<comment> \<open>a run of the scan on database \<open>i\<close>, and the flush of its marks that follows within 50 ms\<close>
  "scan_round env i d = flush_marks (i, None) (snd (scan_Exec env (nat_str i) d))"

definition ready :: "int \<Rightarrow> deliverer \<Rightarrow> bool" where
  \<comment> \<open>no marks are buffered, and the tasks that are overdue at \<open>T\<close> can be redelivered\<close>
  "ready T d \<longleftrightarrow> coherent (vcache d) (vdb d) \<and> (\<forall>i < MsgDBCount. b_buf (vmarks d i) = [] \<and>
     (\<forall>l \<in> set (overdue T (local_table (vshards d) i)). scannable i (lm_key l) d))"

lemma scan_round_effect:
  assumes env: "healthy env" and i: "i < MsgDBCount" and R0: "ready T d" and T: "sn_now env \<le> T"
  defines "d' \<equiv> scan_round env i d" and "os \<equiv> overdue T (local_table (vshards d) i)"
  shows "ready T d'" and "same_base d d'" and "noticed v c q d \<Longrightarrow> noticed v c q d'"
    and "length (overdue T (local_table (vshards d') i)) \<le> length os - min scanBatch (length (overdue (sn_now env) (local_table (vshards d) i)))"
    and "l \<in> set os \<Longrightarrow> l \<in> set (overdue T (local_table (vshards d') i)) \<or> served (lm_key l) d d'"
    and "j \<noteq> i \<Longrightarrow> local_table (vshards d') j = local_table (vshards d) j"
    and "set (overdue X (local_table (vshards d') i)) \<subseteq> set (overdue X (local_table (vshards d) i))"
proof -
  let ?t = "local_table (vshards d) i" and ?now = "sn_now env"
  let ?ks = "leftovers ?now ?t"
  let ?d1 = "fold (redeliverOne env i) ?ks d"
  have C: "coherent (vcache d) (vdb d)" and M: "\<And>j. j < MsgDBCount \<Longrightarrow> b_buf (vmarks d j) = []"
    and S: "\<And>j l. j < MsgDBCount \<Longrightarrow> l \<in> set (overdue T (local_table (vshards d) j)) \<Longrightarrow> scannable j (lm_key l) d"
    using R0 by (simp_all add: ready_def)
  have "sn_query env = None" using env by (simp add: healthy_def)
  moreover have "scan_int (nat_str i) = Some (int i)" using i by (intro scan_int_nat_str) (simp add: MsgDBCount_def)
  ultimately have d': "d' = flush_marks (i, None) ?d1" using i by (simp add: d'_def scan_round_def scan_Exec_def)
  have "set ?ks \<subseteq> lm_key ` set os"
    using overdue_less [OF T, of ?t] by (auto simp: leftovers_overdue take_map os_def dest: in_set_takeD)
  then have "\<forall>k \<in> set ?ks. scannable i k d" using S [OF i] by (auto simp: os_def)
  note R = redeliver_all [OF env C this]
  from redeliveryD(9) [OF R] obtain js where js: "set js \<subseteq> set ?ks" "local_table (vshards ?d1) i = mark_done js ?t"
    "set ?ks \<subseteq> set js \<union> marked i ?d1" by blast
  let ?js = "js @ map fst (b_buf (vmarks ?d1 i))"
  have "marked i ?d1 \<subseteq> set ?ks" using redeliveryD(4) [OF R] M [OF i] by simp
  with js have jk: "set ?js = set ?ks" by auto
  have flush: "b_buf (vmarks d' j) = (if j = i then [] else b_buf (vmarks ?d1 j))" "vdb d' = vdb ?d1" "vpend d' = vpend ?d1"
    "vslots d' = vslots ?d1" "vcache d' = vcache ?d1" "msg_table (vshards d') sh = msg_table (vshards ?d1) sh"
    "j \<noteq> i \<Longrightarrow> local_table (vshards d') j = local_table (vshards ?d1) j" for j sh
    by (simp_all add: d' flush_marks_def mark_flush_def swap_out_def Let_def)
  have t': "local_table (vshards d') i = mark_done ?js ?t"
    by (simp add: d' flush_marks_def mark_flush_def swap_out_def Let_def js(2) mark_done_append mark_done_Nil)
  show "length (overdue T (local_table (vshards d') i)) \<le> length os - min scanBatch (length (overdue ?now ?t))"
    unfolding t' os_def by (rule length_overdue_done [OF T]) (simp only: jk order_refl)
  show sub: "set (overdue X (local_table (vshards d') i)) \<subseteq> set (overdue X ?t)" for X
    unfolding t' overdue_mark_done by auto
  show other: "local_table (vshards d') j = local_table (vshards d) j" if "j \<noteq> i" for j
    using that redeliveryD(8) [OF R] flush(7) by simp
  have nd: "noticed u c q d' = noticed u c q ?d1" for u c q by (simp add: noticed_def boxed_def flush)
  show sb: "same_base d d'" using redeliveryD(1) [OF R] flush by (simp add: same_base_def)
  show "noticed v c q d \<Longrightarrow> noticed v c q d'" unfolding nd by (rule redeliveryD(6) [OF R])
  have "b_buf (vmarks d' j) = []" if "j < MsgDBCount" for j
    using M [OF that] redeliveryD(7) [OF R, of j] by (cases "j = i") (simp_all add: flush(1))
  moreover have "scannable j (lm_key l) d'" if "j < MsgDBCount" "l \<in> set (overdue T (local_table (vshards d') j))" for j l
    using S [OF that(1), of l] that(2) sub [of T] other by (cases "j = i") (auto simp: scannable_base [OF sb])
  ultimately show "ready T d'" using redeliveryD(2) [OF R] by (simp add: ready_def flush)
  show "l \<in> set (overdue T (local_table (vshards d') i)) \<or> served (lm_key l) d d'" if l: "l \<in> set os" for l
  proof (cases "lm_key l \<in> set ?ks")
    case True
    from redeliveryD(5) [OF R this] show ?thesis unfolding served_def nd by blast
  next
    case False
    then show ?thesis using l unfolding t' overdue_mark_done jk os_def by simp
  qed
qed

subsection \<open>Runs on all databases\<close>

type_synonym visit = "scan_env \<times> nat"   \<comment> \<open>a run of the scan, with the database\<close>

definition visits :: "visit list \<Rightarrow> deliverer \<Rightarrow> deliverer" where
  "visits vs d = fold (\<lambda>(env, i). scan_round env i) vs d"

definition visit_ok :: "int \<Rightarrow> int \<Rightarrow> visit \<Rightarrow> bool" where
  \<comment> \<open>between the times \<open>T0\<close> and \<open>T\<close>\<close>
  "visit_ok T0 T v \<longleftrightarrow> healthy (fst v) \<and> snd v < MsgDBCount \<and> T0 \<le> sn_now (fst v) \<and> sn_now (fst v) \<le> T"

lemma visit_effect:
  assumes "visit_ok T0 T v" "ready T d"
  defines "d' \<equiv> scan_round (fst v) (snd v) d"
  shows "ready T d'" and "same_base d d'" and "noticed u c q d \<Longrightarrow> noticed u c q d'"
    and "set (overdue X (local_table (vshards d') i)) \<subseteq> set (overdue X (local_table (vshards d) i))"
    and "length (overdue T (local_table (vshards d') i)) \<le> length (overdue T (local_table (vshards d) i))"
    and "snd v = i \<Longrightarrow> overdue T0 (local_table (vshards d') i) = [] \<or>
      length (overdue T (local_table (vshards d') i)) + 200 \<le> length (overdue T (local_table (vshards d) i))"
    and "l \<in> set (overdue T (local_table (vshards d) i)) \<Longrightarrow>
      l \<in> set (overdue T (local_table (vshards d') i)) \<or> served (lm_key l) d d'"
proof -
  have v: "healthy (fst v)" "snd v < MsgDBCount" "T0 \<le> sn_now (fst v)" "sn_now (fst v) \<le> T"
    using assms(1) by (simp_all add: visit_ok_def)
  note E = scan_round_effect [OF v(1,2) assms(2) v(4), folded d'_def]
  show "ready T d'" "same_base d d'" "noticed u c q d \<Longrightarrow> noticed u c q d'" by (rule E)+
  show "set (overdue X (local_table (vshards d') i)) \<subseteq> set (overdue X (local_table (vshards d) i))"
    using E(6,7) by (cases "i = snd v") simp_all
  show "length (overdue T (local_table (vshards d') i)) \<le> length (overdue T (local_table (vshards d) i))"
    using E(4,6) by (cases "i = snd v") (simp_all add: le_diff_conv)
  show "l \<in> set (overdue T (local_table (vshards d) i)) \<Longrightarrow> l \<in> set (overdue T (local_table (vshards d') i)) \<or> served (lm_key l) d d'"
    using E(5,6) by (cases "i = snd v") simp_all
  show "overdue T0 (local_table (vshards d') i) = [] \<or>
      length (overdue T (local_table (vshards d') i)) + 200 \<le> length (overdue T (local_table (vshards d) i))" if i: "snd v = i"
  proof (cases "200 \<le> length (overdue (sn_now (fst v)) (local_table (vshards d) i))")
    case True
    have "overdue (sn_now (fst v)) t = filter (\<lambda>l. lm_create l < sn_now (fst v) - scanGrace) (overdue T t)" for t
      using v(4) by (auto simp: overdue_def intro: filter_cong)
    then have "length (overdue (sn_now (fst v)) (local_table (vshards d) i)) \<le> length (overdue T (local_table (vshards d) i))" by simp
    with True E(4) i show ?thesis by (intro disjI2) (simp add: scanBatch_def)
  next
    case False
    have "ready (sn_now (fst v)) d"
      using assms(2) overdue_less [OF v(4)] by (auto simp: ready_def)
    from scan_round_effect(4) [OF v(1,2) this order_refl, folded d'_def] False i
    have "overdue (sn_now (fst v)) (local_table (vshards d') i) = []" by (simp add: scanBatch_def)
    then show ?thesis using overdue_less [OF v(3), of "local_table (vshards d') i"] by auto
  qed
qed

lemma visits_sub:
  assumes "\<forall>v \<in> set vs. visit_ok T0 T v" "ready T d"
  shows "set (overdue X (local_table (vshards (visits vs d)) i)) \<subseteq> set (overdue X (local_table (vshards d) i))"
  using assms
proof (induction vs arbitrary: d)
  case (Cons v vs)
  have v: "visit_ok T0 T v" using Cons.prems by simp
  note E = visit_effect [OF v Cons.prems(2)]
  have "visits (v # vs) d = visits vs (scan_round (fst v) (snd v) d)" by (simp add: visits_def case_prod_beta)
  with order_trans [OF Cons.IH [OF _ E(1)] E(4)] Cons.prems(1) show ?case by simp
qed (simp add: visits_def)

lemma visits_effect:
  assumes "\<forall>v \<in> set vs. visit_ok T0 T v" "ready T d"
  defines "d' \<equiv> visits vs d"
  shows "same_base d d' \<and> (\<forall>u c q. noticed u c q d \<longrightarrow> noticed u c q d') \<and>
    set (overdue X (local_table (vshards d') i)) \<subseteq> set (overdue X (local_table (vshards d) i)) \<and>
    (\<forall>l \<in> set (overdue T (local_table (vshards d) i)). l \<in> set (overdue T (local_table (vshards d') i)) \<or> served (lm_key l) d d') \<and>
    (overdue T0 (local_table (vshards d') i) = [] \<or>
      length (overdue T (local_table (vshards d') i)) + 200 * length (filter (\<lambda>v. snd v = i) vs) \<le> length (overdue T (local_table (vshards d) i)))"
  using assms(1,2) unfolding d'_def
proof (induction vs arbitrary: d)
  case Nil
  then show ?case by (simp add: visits_def)
next
  case (Cons v vs)
  have v: "visit_ok T0 T v" using Cons.prems by simp
  note E = visit_effect [OF v Cons.prems(2)]
  let ?d1 = "scan_round (fst v) (snd v) d" and ?d2 = "visits vs (scan_round (fst v) (snd v) d)"
  have step: "visits (v # vs) d = ?d2" by (simp add: visits_def case_prod_beta)
  have "\<forall>v \<in> set vs. visit_ok T0 T v" using Cons.prems(1) by simp
  note I = Cons.IH [OF this E(1)]
  have srv: "l \<in> set (overdue T (local_table (vshards ?d2) i)) \<or> served (lm_key l) d ?d2"
    if l: "l \<in> set (overdue T (local_table (vshards d) i))" for l
    using E(7) [OF l]
  proof
    assume "l \<in> set (overdue T (local_table (vshards ?d1) i))"
    then show ?thesis using I served_base [OF E(2)] by blast
  next
    assume "served (lm_key l) d ?d1"
    then show ?thesis using I by (intro disjI2) (elim served_mono, blast)
  qed
  have count: "overdue T0 (local_table (vshards ?d2) i) = [] \<or>
      length (overdue T (local_table (vshards ?d2) i)) + 200 * length (filter (\<lambda>v. snd v = i) (v # vs)) \<le> length (overdue T (local_table (vshards d) i))"
  proof (cases "overdue T0 (local_table (vshards ?d2) i) = []")
    case False
    then have "overdue T0 (local_table (vshards ?d1) i) \<noteq> []"
      using visits_sub [OF \<open>\<forall>v \<in> set vs. visit_ok T0 T v\<close> E(1), of T0 i] by auto
    with I False E(5) [of i] E(6) [of i] show ?thesis by (cases "snd v = i") auto
  qed simp
  show ?case unfolding step
    using I E(2,3) E(4) [of X i] srv count by (blast intro: same_base_trans)
qed

lemma visits_clear:
  assumes "\<forall>v \<in> set vs. visit_ok T0 T v" "ready T d" "T0 \<le> T"
    and "length (overdue T (local_table (vshards d) i)) \<le> 200 * length (filter (\<lambda>v. snd v = i) vs)"
  shows "overdue T0 (local_table (vshards (visits vs d)) i) = []"
    and "l \<in> set (overdue T0 (local_table (vshards d) i)) \<Longrightarrow> served (lm_key l) d (visits vs d)"
proof -
  let ?d' = "visits vs d"
  note V = visits_effect [OF assms(1,2)]
  from V have "overdue T0 (local_table (vshards ?d') i) = [] \<or>
      length (overdue T (local_table (vshards ?d') i)) + 200 * length (filter (\<lambda>v. snd v = i) vs) \<le> length (overdue T (local_table (vshards d) i))"
    by blast
  then have "overdue T0 (local_table (vshards ?d') i) = [] \<or> length (overdue T (local_table (vshards ?d') i)) = 0"
    using assms(4) by linarith
  then show clear: "overdue T0 (local_table (vshards ?d') i) = []"
    using overdue_less [OF assms(3), of "local_table (vshards ?d') i"] by auto
  show "served (lm_key l) d ?d'" if l: "l \<in> set (overdue T0 (local_table (vshards d) i))"
  proof -
    have "l \<in> set (overdue T (local_table (vshards d) i))" using l overdue_less [OF assms(3)] by blast
    moreover have "l \<notin> set (overdue T (local_table (vshards ?d') i))"
      using clear l overdue_in [of l T "local_table (vshards ?d') i" T0] by (auto simp: overdue_def)
    ultimately show ?thesis using V by blast
  qed
qed

end
