(* ===== verification/Tasks.thy ===== *)
theory Tasks
  imports Backlog Sched
begin

text \<open>
  The scheduler process (\<open>cmd/yim-sched/main.go\<close>): the tasks it registers with
  \<open>internal/sched/sched.go\<close>, the trigger loop of the leader, and the scan of
  \<open>internal/message/compensation.go\<close> as the scheduler really runs it, window by window and shard by
  shard, over all message databases.
\<close>

subsection \<open>The tasks\<close>

definition scan_task :: task where
  "scan_task = \<lparr>tk_name = ''local-msg-scan'', tk_interval = 30, tk_shards = dbShards\<rparr>"

definition box_task :: task where
  "box_task = \<lparr>tk_name = ''offline-box-reconcile'', tk_interval = 60, tk_shards = box_Shards\<rparr>"

definition unread_task :: task where
  "unread_task = \<lparr>tk_name = ''unread-reconcile'', tk_interval = 600, tk_shards = unread_Shards\<rparr>"

definition cleanup_task :: task where
  "cleanup_task = \<lparr>tk_name = ''local-msg-cleanup'', tk_interval = 24 * 3600, tk_shards = dbShards\<rparr>"

definition bloom_task :: task where
  "bloom_task = \<lparr>tk_name = ''bloom-rebuild'', tk_interval = 24 * 3600, tk_shards = [''0'']\<rparr>"

definition yim_tasks :: "bool \<Rightarrow> task list" where
  \<comment> \<open>whether there is a Redis client\<close>
  "yim_tasks client = [scan_task, box_task, unread_task, cleanup_task] @ (if client then [bloom_task] else [])"

definition triggerLoop :: "((string \<Rightarrow> bool) \<times> int) list \<Rightarrow> task \<Rightarrow> sched \<Rightarrow> sched" where
  \<comment> \<open>at the start and at each tick: which pushes succeed, and the time\<close>
  "triggerLoop ticks t s = fold (\<lambda>(push, now). trigger push now t) ticks s"

definition workerLoop :: "(bool \<times> bool \<times> int) list \<Rightarrow> task \<Rightarrow> sched \<Rightarrow> sched" where
  \<comment> \<open>the rounds of the workers of a task: whether BLPOP and SETNX are answered, and the time\<close>
  "workerLoop rounds t s = fold (\<lambda>(popok, ok, now). worker_round popok ok now (tk_name t)) rounds s"

lemma task_names_distinct: "distinct (map tk_name (yim_tasks client))"
  by (simp add: yim_tasks_def scan_task_def box_task_def unread_task_def cleanup_task_def bloom_task_def)

text \<open>Every row is looked at by exactly one shard of its task.\<close>

lemma nat_str_inj: "nat_str a = nat_str b \<Longrightarrow> a = b"
  by (metis option.inject of_nat_eq_iff parse_digits_nat_str)

lemma box_shards_partition: "0 \<le> u \<Longrightarrow> \<exists>!sh. sh \<in> set box_Shards \<and> scan_int sh = Some (go_mod u 16)"
proof -
  assume u: "0 \<le> u"
  then have g: "go_mod u 16 = int (nat (u mod 16))" "nat (u mod 16) < 16" by (simp_all add: go_mod_def)
  show ?thesis
  proof (intro ex1I [of _ "nat_str (nat (u mod 16))"] conjI)
    show "nat_str (nat (u mod 16)) \<in> set box_Shards"
      using g(2) unfolding box_Shards_def set_map by (intro imageI) simp
    show "scan_int (nat_str (nat (u mod 16))) = Some (go_mod u 16)"
      unfolding g(1) using g(2) by (intro scan_int_nat_str) simp
    fix sh assume "sh \<in> set box_Shards \<and> scan_int sh = Some (go_mod u 16)"
    then obtain i where "sh = nat_str i" "i < 16" "scan_int sh = Some (go_mod u 16)" by (auto simp: box_Shards_def)
    with scan_int_nat_str [of i] g(1) have "i = nat (u mod 16)" by simp
    with \<open>sh = nat_str i\<close> show "sh = nat_str (nat (u mod 16))" by simp
  qed
qed

subsection \<open>A window of the scan\<close>

definition scan_desc :: "int \<Rightarrow> nat \<Rightarrow> shardDesc" where
  \<comment> \<open>what \<open>trigger\<close> queues at a time for a database\<close>
  "scan_desc now i = \<lparr>sd_task = ''local-msg-scan'', sd_window = window_of now scan_task, sd_shard = nat_str i\<rparr>"

type_synonym turn = "int \<times> int list"   \<comment> \<open>the tick, and the rounds of the workers after it\<close>

definition scan_turn :: "turn \<Rightarrow> sched \<Rightarrow> sched" where
  "scan_turn x s = workerLoop (map (\<lambda>now. (True, True, now)) (snd x)) scan_task (triggerLoop [(\<lambda>_. True, fst x)] scan_task s)"

abbreviation scan_key :: string where
  "scan_key \<equiv> queueKey ''local-msg-scan''"

definition unclaimed :: "int \<Rightarrow> sched \<Rightarrow> bool" where
  \<comment> \<open>no worker has claimed a shard of the scan in the window \<open>w\<close> or later\<close>
  "unclaimed w s \<longleftrightarrow> (\<forall>d. sd_task d = ''local-msg-scan'' \<longrightarrow> w \<le> sd_window d \<longrightarrow> sx_lock s (lockKey d) = None)"

definition scanning :: "sched \<Rightarrow> bool" where
  \<comment> \<open>the scan is registered, there is a Redis client, and nothing is left in the queue\<close>
  "scanning s \<longleftrightarrow> scan_task \<in> set (sx_tasks s) \<and> sx_redis s \<and> sx_queue s scan_key = []"

lemma dbShards_desc: "map (\<lambda>sh. \<lparr>sd_task = ''local-msg-scan'', sd_window = window_of now scan_task, sd_shard = sh\<rparr>) dbShards =
    map (scan_desc now) [0..<MsgDBCount]"
  by (simp add: dbShards_def scan_desc_def)

lemma trigger_all:
  assumes "sx_redis s"
  shows "fold (trigger_shard (\<lambda>_. True) now t) shs s = s\<lparr>sx_queue := (sx_queue s)(queueKey (tk_name t) :=
    sx_queue s (queueKey (tk_name t)) @ map (\<lambda>sh. Some \<lparr>sd_task = tk_name t, sd_window = window_of now t, sd_shard = sh\<rparr>) shs)\<rparr>"
  using assms
proof (induction shs arbitrary: s)
  case (Cons sh shs)
  let ?k = "queueKey (tk_name t)" and ?d = "\<lparr>sd_task = tk_name t, sd_window = window_of now t, sd_shard = sh\<rparr>"
  let ?s1 = "s\<lparr>sx_queue := (sx_queue s)(?k := sx_queue s ?k @ [Some ?d])\<rparr>"
  have "trigger_shard (\<lambda>_. True) now t sh s = ?s1" using Cons.prems by (simp add: trigger_shard_def Let_def)
  moreover have "sx_redis ?s1" using Cons.prems by simp
  ultimately show ?case using Cons.IH [of ?s1] by (simp cong: if_cong)
qed simp

lemma worker_drains:
  assumes "sx_redis s" "sx_queue s (queueKey n) = map Some ds" "length ws = length ds" "distinct ds"
    and "\<forall>d \<in> set ds. sd_task d = n \<and> plain n \<and> sx_lock s (lockKey d) = None" "n \<in> tk_name ` set (sx_tasks s)"
  defines "s' \<equiv> fold (\<lambda>now. worker_round True True now n) ws s"
  shows "sx_done s' = sx_done s @ zip ds ws" and "sx_queue s' (queueKey n) = []" and "sx_tasks s' = sx_tasks s" and "sx_redis s'"
    and "sd_task e = n \<Longrightarrow> e \<notin> set ds \<Longrightarrow> sx_lock s' (lockKey e) = sx_lock s (lockKey e)"
proof -
  have "sx_done s' = sx_done s @ zip ds ws \<and> sx_queue s' (queueKey n) = [] \<and> sx_tasks s' = sx_tasks s \<and> sx_redis s' \<and>
    (\<forall>e. sd_task e = n \<longrightarrow> e \<notin> set ds \<longrightarrow> sx_lock s' (lockKey e) = sx_lock s (lockKey e))"
    using assms(1-6) unfolding s'_def
  proof (induction ws arbitrary: s ds)
    case (Cons w ws)
    then obtain d es where ds: "ds = d # es" by (cases ds) auto
    let ?s1 = "s\<lparr>sx_queue := (sx_queue s)(queueKey n := map Some es)\<rparr>"
    let ?s2 = "?s1\<lparr>sx_lock := (sx_lock s)(lockKey d \<mapsto> w + lockTTL), sx_done := sx_done s @ [(d, w)]\<rparr>"
    have d: "sd_task d = n" "plain n" "sx_lock s (lockKey d) = None" using Cons.prems(5) ds by auto
    have r: "worker_round True True w n s = ?s2"
      using Cons.prems(1,2,6) d by (simp add: worker_round_def pop_def ds claim_def set_nx_def runTask_known)
    have ne: "lockKey e \<noteq> lockKey d" if "sd_task e = n" "e \<noteq> d" for e
      using lockKey_inj [of e d] d that by auto
    have "\<forall>e \<in> set es. sd_task e = n \<and> plain n \<and> sx_lock ?s2 (lockKey e) = None"
      using Cons.prems(4,5) ds ne by auto
    from Cons.IH [of ?s2 es, OF _ _ _ _ this] Cons.prems ds ne show ?case by (simp add: r)
  qed simp
  then show "sx_done s' = sx_done s @ zip ds ws" "sx_queue s' (queueKey n) = []" "sx_tasks s' = sx_tasks s" "sx_redis s'"
    "sd_task e = n \<Longrightarrow> e \<notin> set ds \<Longrightarrow> sx_lock s' (lockKey e) = sx_lock s (lockKey e)" by blast+
qed

lemma scan_turn_effect:
  assumes "scanning s" "unclaimed (window_of now scan_task) s" "length ws = MsgDBCount"
  defines "s' \<equiv> scan_turn (now, ws) s"
  shows "scanning s'" and "unclaimed (window_of now scan_task + 1) s'"
    and "sx_done s' = sx_done s @ zip (map (scan_desc now) [0..<MsgDBCount]) ws"
proof -
  let ?ds = "map (scan_desc now) [0..<MsgDBCount]" and ?n = "''local-msg-scan''"
  let ?s1 = "s\<lparr>sx_queue := (sx_queue s)(scan_key := map Some ?ds)\<rparr>"
  have n: "tk_name scan_task = ?n" "tk_shards scan_task = dbShards" by (simp_all add: scan_task_def)
  have "triggerLoop [(\<lambda>_. True, now)] scan_task s = ?s1"
    using trigger_all [of s now scan_task dbShards] assms(1) dbShards_desc [of now, THEN arg_cong [where f = "map Some"]]
    by (simp add: triggerLoop_def trigger_def n scanning_def comp_def)
  then have s': "s' = fold (\<lambda>now. worker_round True True now ?n) ws ?s1"
    by (simp add: s'_def scan_turn_def workerLoop_def n fold_map comp_def)
  have lock: "\<forall>d \<in> set ?ds. sd_task d = ?n \<and> plain ?n \<and> sx_lock ?s1 (lockKey d) = None"
    using assms(2) by (auto simp: scan_desc_def unclaimed_def plain_def)
  have dist: "distinct ?ds"
    by (auto simp: distinct_map scan_desc_def intro!: inj_onI dest: nat_str_inj)
  have "?n \<in> tk_name ` set (sx_tasks ?s1)" using assms(1) n by (force simp: scanning_def)
  note W = worker_drains [of ?s1 ?n ?ds ws, OF _ _ _ dist lock this, folded s']
  have hyp: "sx_redis ?s1" "sx_queue ?s1 scan_key = map Some ?ds" "length ws = length ?ds"
    using assms(1,3) by (simp_all add: scanning_def)
  show "sx_done s' = sx_done s @ zip ?ds ws" using W(1) [OF hyp] by simp
  show "scanning s'" using W(2-4) [OF hyp] assms(1) by (simp add: scanning_def)
  show "unclaimed (window_of now scan_task + 1) s'"
    unfolding unclaimed_def
  proof (intro allI impI)
    fix d :: shardDesc assume d: "sd_task d = ?n" "window_of now scan_task + 1 \<le> sd_window d"
    then have "d \<notin> set ?ds" by (auto simp: scan_desc_def)
    from W(5) [OF hyp d(1) this] show "sx_lock s' (lockKey d) = None" using assms(2) d by (simp add: unclaimed_def)
  qed
qed

subsection \<open>The windows in turn\<close>

definition executed :: "turn list \<Rightarrow> (shardDesc \<times> int) list" where
  "executed ts = concat (map (\<lambda>(now, ws). zip (map (scan_desc now) [0..<MsgDBCount]) ws) ts)"

lemma scan_turns_effect:
  assumes "scanning s" "\<forall>x \<in> set ts. length (snd x) = MsgDBCount"
    and "sorted_wrt (<) (map (\<lambda>x. window_of (fst x) scan_task) ts)" "\<forall>x \<in> set ts. unclaimed (window_of (fst x) scan_task) s"
  shows "sx_done (fold scan_turn ts s) = sx_done s @ executed ts"
  using assms
proof (induction ts arbitrary: s)
  case (Cons x ts)
  obtain now ws where x: "x = (now, ws)" by force
  have len: "length ws = MsgDBCount" and free: "unclaimed (window_of now scan_task) s" using Cons.prems x by auto
  note E = scan_turn_effect [OF Cons.prems(1) free len]
  have later: "\<forall>y \<in> set ts. window_of now scan_task + 1 \<le> window_of (fst y) scan_task" using Cons.prems(3) x by auto
  have "\<forall>y \<in> set ts. unclaimed (window_of (fst y) scan_task) (scan_turn (now, ws) s)"
    using later E(2) order_trans unfolding unclaimed_def by blast
  from Cons.IH [OF E(1) _ _ this] Cons.prems E(3) show ?case by (simp add: x executed_def)
qed (simp add: executed_def)

definition scan_exec :: "(shardDesc \<Rightarrow> int \<Rightarrow> scan_env) \<Rightarrow> shardDesc \<times> int \<Rightarrow> deliverer \<Rightarrow> deliverer" where
  \<comment> \<open>an execution of a shard of the scan as the scheduler logs it, and the flush of its marks\<close>
  "scan_exec te x d = (case scan_int (sd_shard (fst x)) of None \<Rightarrow> d
     | Some i \<Rightarrow> flush_marks (nat i, None) (snd (scan_Exec (te (fst x) (snd x)) (sd_shard (fst x)) d)))"

definition visits_of :: "(shardDesc \<Rightarrow> int \<Rightarrow> scan_env) \<Rightarrow> turn \<Rightarrow> visit list" where
  "visits_of te x = zip (map2 te (map (scan_desc (fst x)) [0..<MsgDBCount]) (snd x)) [0..<MsgDBCount]"

lemma scan_exec_round: "i < MsgDBCount \<Longrightarrow> scan_exec te (scan_desc now i, t) d = scan_round (te (scan_desc now i) t) i d"
proof -
  assume "i < MsgDBCount"
  then have "scan_int (nat_str i) = Some (int i)" by (intro scan_int_nat_str) (simp add: MsgDBCount_def)
  then show ?thesis by (simp add: scan_exec_def scan_round_def scan_desc_def)
qed

lemma scan_exec_turn:
  assumes "length (snd x) = MsgDBCount"
  shows "fold (scan_exec te) (zip (map (scan_desc (fst x)) [0..<MsgDBCount]) (snd x)) d = visits (visits_of te x) d"
proof -
  have "fold (scan_exec te) (zip (map (scan_desc now) is) ws) d =
      visits (zip (map2 te (map (scan_desc now) is) ws) is) d" if "\<forall>i \<in> set is. i < MsgDBCount" "length ws = length is" for now "is" ws d
    using that
  proof (induction "is" arbitrary: ws d)
    case (Cons i "is")
    then obtain w vs where "ws = w # vs" by (cases ws) auto
    with Cons show ?case by (simp add: scan_exec_round visits_def)
  qed (simp add: visits_def)
  from this [of "[0..<MsgDBCount]" "snd x" "fst x" d] assms show ?thesis by (simp add: visits_of_def)
qed

lemma scan_exec_executed:
  assumes "\<forall>x \<in> set ts. length (snd x) = MsgDBCount"
  shows "fold (scan_exec te) (executed ts) d = visits (concat (map (visits_of te) ts)) d"
  using assms
proof (induction ts arbitrary: d)
  case (Cons x ts)
  have "length (snd x) = MsgDBCount" using Cons.prems by simp
  from scan_exec_turn [OF this, of te d] Cons show ?case
    by (simp add: executed_def case_prod_beta visits_def)
qed (simp add: executed_def visits_def)

lemma visits_of_count:
  assumes "length (snd x) = MsgDBCount" "i < MsgDBCount"
  shows "length (filter (\<lambda>v. snd v = i) (visits_of te x)) = 1"
proof -
  let ?es = "map2 te (map (scan_desc (fst x)) [0..<MsgDBCount]) (snd x)"
  have l: "length ?es = length [0..<MsgDBCount]" using assms(1) by simp
  have "length (filter (\<lambda>v. snd v = i) (zip ?es [0..<MsgDBCount])) = length (filter (\<lambda>j. j = i) (map snd (zip ?es [0..<MsgDBCount])))"
    by (simp add: filter_map comp_def)
  also have "\<dots> = length (filter (\<lambda>j. j = i) [0..<MsgDBCount])" by (simp only: map_snd_zip [OF l])
  also have "filter (\<lambda>j. j = i) [0..<MsgDBCount] = [i]" using assms(2)
    by (auto simp: MsgDBCount_def upt_rec less_Suc_eq numeral_2_eq_2)
  finally show ?thesis by (simp add: visits_of_def)
qed

lemma visits_of_count_all:
  assumes "\<forall>x \<in> set ts. length (snd x) = MsgDBCount" "i < MsgDBCount"
  shows "length (filter (\<lambda>v. snd v = i) (concat (map (visits_of te) ts))) = length ts"
  using assms(1) by (induction ts) (simp_all add: visits_of_count [OF _ assms(2)])

lemma visits_of_ok:
  assumes "\<forall>x t. healthy (te x t) \<and> sn_now (te x t) = t" "\<forall>t \<in> set (snd x). T0 \<le> t \<and> t \<le> T"
  shows "\<forall>v \<in> set (visits_of te x). visit_ok T0 T v"
  using assms by (force simp: visits_of_def visit_ok_def dest!: set_zip_leftD set_zip_rightD elim!: in_set_zipE)

text \<open>
  C5: The third line of defence catches up: let the scheduler's Redis work and the databases answer, and
  let \<open>ts\<close> be windows of the scan, each a tick of the leader and one round of the workers for every
  message database. Then the shards the scheduler executes are such that, if no database has more
  than 200 overdue tasks per window, afterwards no delivery task that was overdue when they began
  is open in any database, and every member but the author of each of those messages has the push
  waiting for his acknowledgement or in the offline box; whatever Redis, the connection servers
  and the sequence service do for the deliveries themselves.
\<close>

theorem scheduled_scans_clear_backlog:
  assumes "scanning s" "\<forall>x \<in> set ts. length (snd x) = MsgDBCount \<and> (\<forall>t \<in> set (snd x). T0 \<le> t \<and> t \<le> T)"
    and "sorted_wrt (<) (map (\<lambda>x. window_of (fst x) scan_task) ts)" "\<forall>x \<in> set ts. unclaimed (window_of (fst x) scan_task) s"
    and "\<forall>x t. healthy (te x t) \<and> sn_now (te x t) = t" "ready T d" "T0 \<le> T"
    and "\<forall>i < MsgDBCount. length (overdue T (local_table (vshards d) i)) \<le> 200 * length ts"
    and "sx_done (fold scan_turn ts s) = sx_done s @ log" "d' = fold (scan_exec te) log d" "i < MsgDBCount"
  shows "(\<forall>l \<in> set (local_table (vshards d') i). lm_create l < T0 - 60000 \<longrightarrow> lm_status l \<noteq> 0) \<and>
    (\<forall>l \<in> set (local_table (vshards d) i). lm_status l = 0 \<longrightarrow> lm_create l < T0 - 60000 \<longrightarrow>
       message_of (lm_key l) d = Some r \<longrightarrow> json_members (lm_conv l) (vdb d) = Some ms \<longrightarrow> u \<in> set ms \<longrightarrow> u \<noteq> ms_from r \<longrightarrow>
       alive u (lm_conv l) (ms_seq r) (vpend d') \<or>
       (\<exists>b \<in> set (offline_box (vdb d')). ob_key b = (u, lm_conv l, ms_seq r)))"
proof -
  let ?vs = "concat (map (visits_of te) ts)"
  have len: "\<forall>x \<in> set ts. length (snd x) = MsgDBCount" using assms(2) by blast
  have "log = executed ts" using scan_turns_effect [OF assms(1) len assms(3,4)] assms(9) by simp
  then have d': "d' = visits ?vs d" using scan_exec_executed [OF len, of te d] assms(10) by simp
  have ok: "\<forall>v \<in> set ?vs. visit_ok T0 T v" using visits_of_ok [OF assms(5)] assms(2) by auto
  have few: "length (overdue T (local_table (vshards d) i)) \<le> 200 * length (filter (\<lambda>v. snd v = i) ?vs)"
    using assms(8,11) visits_of_count_all [OF len assms(11), of te] by simp
  note V = visits_clear [OF ok assms(6,7) few, folded d']
  have ov: "l \<in> set (overdue T0 t) \<longleftrightarrow> l \<in> set t \<and> lm_status l = 0 \<and> lm_create l < T0 - 60000" for l t
    by (auto simp: overdue_def scanGrace_def)
  have "lm_create l < T0 - 60000 \<longrightarrow> lm_status l \<noteq> 0" if "l \<in> set (local_table (vshards d') i)" for l
    using V(1) that ov [of l "local_table (vshards d') i"] by auto
  moreover have "noticed u c q d' \<Longrightarrow> alive u c q (vpend d') \<or> (\<exists>b \<in> set (offline_box (vdb d')). ob_key b = (u, c, q))" for c q
    by (auto simp: noticed_def boxed_def dest: row_get_SomeD)
  ultimately show ?thesis using V(2) unfolding served_def by (auto simp: ov lm_key_def)
qed

definition demo_backlog :: deliverer where
  \<comment> \<open>one message, its delivery task never done\<close>
  "demo_backlog = demo_lagging\<lparr>vshards := set_local_table 0 [\<lparr>lm_id = 5, lm_conv = 7, lm_status = 0, lm_create = 0\<rparr>] (vshards demo_lagging)\<rparr>"

definition demo_scan_env :: scan_env where
  "demo_scan_env = \<lparr>sn_now = 60001, sn_query = None, sn_load = (\<lambda>_. None), sn_mark = (\<lambda>_. None),
     sn_deliver = (\<lambda>_. demo_denv False None)\<rparr>"

lemma demo_backlog_facts:
  "message_of (7, 5) demo_backlog = Some \<lparr>ms_id = 5, ms_conv = 7, ms_from = 1, ms_seq = 3, ms_type = 1, ms_content = [], ms_cmid = 9, ms_time = 0\<rparr>"
  "json_members 7 (vdb demo_backlog) = Some [1, 2]" "b_buf (vmarks demo_backlog i) = []" "vcache demo_backlog = None"
  "local_table (vshards demo_backlog) 0 = [\<lparr>lm_id = 5, lm_conv = 7, lm_status = 0, lm_create = 0\<rparr>]"
proof -
  have "RouteMsg (vslots demo_backlog) 7 = MsgShard 0 0"
    using slot_of_lt [of 7] by (simp add: RouteMsg_def demo_backlog_def demo_lagging_def demo_deliverer_def)
  then show "message_of (7, 5) demo_backlog = Some \<lparr>ms_id = 5, ms_conv = 7, ms_from = 1, ms_seq = 3, ms_type = 1, ms_content = [], ms_cmid = 9, ms_time = 0\<rparr>"
    by (simp add: message_of_def) (simp add: demo_backlog_def demo_lagging_def)
qed (simp_all add: demo_backlog_def demo_lagging_def demo_deliverer_def json_members_def empty_batch_def)

definition demo_scheduler :: sched where
  "demo_scheduler = \<lparr>sx_tasks = yim_tasks True, sx_redis = True, sx_queue = (\<lambda>_. []), sx_lock = (\<lambda>_. None), sx_done = []\<rparr>"

lemma scheduled_scans_clear_backlog_witness:
  "\<exists>log d'. sx_done (fold scan_turn [(60001, [60001, 60002])] demo_scheduler) = log \<and>
    d' = fold (scan_exec (\<lambda>_ t. demo_scan_env\<lparr>sn_now := t\<rparr>)) log demo_backlog \<and>
    (\<forall>l \<in> set (local_table (vshards d') 0). lm_create l < 1 \<longrightarrow> lm_status l \<noteq> 0) \<and>
    (alive 2 7 3 (vpend d') \<or> (\<exists>b \<in> set (offline_box (vdb d')). ob_key b = (2, 7, 3)))"
proof -
  let ?ts = "[(60001, [60001, 60002])] :: turn list" and ?te = "\<lambda>_ t. demo_scan_env\<lparr>sn_now := t\<rparr>"
  define log where "log = sx_done (fold scan_turn ?ts demo_scheduler)"
  define d' where "d' = fold (scan_exec ?te) log demo_backlog"
  let ?row = "\<lparr>lm_id = 5, lm_conv = 7, lm_status = 0, lm_create = 0\<rparr>"
  have r: "DBIndex (RouteMsg (vslots demo_backlog) 7) = 0"
    using slot_of_lt [of 7] by (simp add: RouteMsg_def demo_backlog_def demo_lagging_def demo_deliverer_def)
  have tables: "local_table (vshards demo_backlog) i = (if i = 0 then [?row] else [])" for i
    by (simp add: demo_backlog_def demo_lagging_def demo_deliverer_def)
  have o: "overdue 60002 (local_table (vshards demo_backlog) i) = (if i = 0 then [?row] else [])" for i
    by (simp add: tables overdue_def scanGrace_def)
  have "coherent (vcache demo_backlog) (vdb demo_backlog)"
    by (simp add: coherent_def cached_members_def demo_backlog_facts)
  then have "ready 60002 demo_backlog" by (simp add: ready_def o demo_backlog_facts scannable_def lm_key_def r)
  moreover have "scanning demo_scheduler" by (simp add: scanning_def demo_scheduler_def yim_tasks_def)
  moreover have "\<forall>x t. healthy (?te x t) \<and> sn_now (?te x t) = t" by (simp add: healthy_def demo_scan_env_def demo_denv_def)
  moreover have "\<forall>x \<in> set ?ts. unclaimed (window_of (fst x) scan_task) demo_scheduler" by (simp add: unclaimed_def demo_scheduler_def)
  moreover have "sx_done (fold scan_turn ?ts demo_scheduler) = sx_done demo_scheduler @ log" by (simp add: log_def demo_scheduler_def)
  ultimately have "(\<forall>l \<in> set (local_table (vshards d') 0). lm_create l < 60001 - 60000 \<longrightarrow> lm_status l \<noteq> 0) \<and>
    (\<forall>l \<in> set (local_table (vshards demo_backlog) 0). lm_status l = 0 \<longrightarrow> lm_create l < 60001 - 60000 \<longrightarrow>
       message_of (lm_key l) demo_backlog = Some \<lparr>ms_id = 5, ms_conv = 7, ms_from = 1, ms_seq = 3, ms_type = 1, ms_content = [], ms_cmid = 9, ms_time = 0\<rparr> \<longrightarrow>
       json_members (lm_conv l) (vdb demo_backlog) = Some [1, 2] \<longrightarrow> 2 \<in> set [1, 2 :: uid] \<longrightarrow> (2 :: uid) \<noteq> 1 \<longrightarrow>
       alive 2 (lm_conv l) 3 (vpend d') \<or> (\<exists>b \<in> set (offline_box (vdb d')). ob_key b = (2, lm_conv l, 3)))"
    using scheduled_scans_clear_backlog [of demo_scheduler ?ts 60001 60002 ?te demo_backlog log d' 0
        "\<lparr>ms_id = 5, ms_conv = 7, ms_from = 1, ms_seq = 3, ms_type = 1, ms_content = [], ms_cmid = 9, ms_time = 0\<rparr>" "[1, 2]" 2]
    by (simp add: d'_def o MsgDBCount_def)
  then show ?thesis using log_def d'_def by (intro exI [of _ log] exI [of _ d']) (simp add: demo_backlog_facts lm_key_def)
qed

end
