(* ===== verification/Notify.thy ===== *)
theory Notify
  imports CometSafety DeliverySafety
begin

text \<open>
  From the deliverer to the sockets: the pushes of \<open>internal/message/delivery.go\<close> with the connection
  servers as modelled at the other end of the RPC. A server answers \<open>delivered\<close> exactly when one of the
  user's connections took the notification, so the route cache, the broadcast and the offline box
  can be followed down to the bytes written.
\<close>

subsection \<open>The connection servers behind the push client\<close>

type_synonym comets = "string \<Rightarrow> comet"   \<comment> \<open>the instances by their RPC address\<close>

record comet_net =
  cn_env :: "string \<Rightarrow> comet_env"
  cn_link :: "string \<Rightarrow> bool"   \<comment> \<open>the call reaches the instance and its reply comes back\<close>

definition answer :: "comet_env \<Rightarrow> comet_req \<Rightarrow> comet \<Rightarrow> bool \<times> comet" where
  "answer ce r s = PushMessage ce (cr_uid r) [] (cr_conv r) (cr_max_seq r) (cr_from r) (cr_sync r) s"

definition serve_push :: "comet_net \<Rightarrow> string \<times> comet_req \<Rightarrow> comets \<Rightarrow> comets" where
  "serve_push net p w = (if cn_link net (fst p) then w(fst p := snd (answer (cn_env net (fst p)) (snd p) (w (fst p)))) else w)"

definition pushed :: "comet_net \<Rightarrow> (string \<times> comet_req) list \<Rightarrow> comets \<Rightarrow> comets" where
  "pushed net ps w = fold (serve_push net) ps w"

definition net_ok :: "comet_net \<Rightarrow> push_env \<Rightarrow> comets \<Rightarrow> bool" where
  \<comment> \<open>the replies the push client gets are those of the servers, and pushes fit a frame\<close>
  "net_ok net pv w \<longleftrightarrow> (\<forall>a r. pv_rpc pv a r \<longleftrightarrow> cn_link net a \<and> fst (answer (cn_env net a) r (w a))) \<and>
     (\<forall>a c q f y. \<exists>raw. EncodeFrame (ce_fc (cn_env net a)) (ok_frame 0 CMD_MESSAGE_PUSH (PMessagePush c q f y)) = Inr raw) \<and>
     (\<forall>a. keeper_inv (w a))"

definition push_bytes :: "comet_net \<Rightarrow> string \<Rightarrow> comet_req \<Rightarrow> bytes" where
  "push_bytes net a r = projr (EncodeFrame (ce_fc (cn_env net a))
     (ok_frame 0 CMD_MESSAGE_PUSH (PMessagePush (cr_conv r) (cr_max_seq r) (cr_from r) (cr_sync r))))"

abbreviation online :: "comet_net \<Rightarrow> comets \<Rightarrow> string \<Rightarrow> uid \<Rightarrow> nat \<Rightarrow> bool" where
  "online net w a u x \<equiv> takes_push (cn_env net a) (w a) u [] x"

lemma answer_effect:
  assumes "net_ok net pv w" "keeper_inv s"
  shows "co_out (cconns (snd (answer (cn_env net a) r s)) x) = co_out (cconns s x) @
      (if takes_push (cn_env net a) s (cr_uid r) [] x then [push_bytes net a r] else [])"
    and "fst (answer (cn_env net a) r s) \<longleftrightarrow> (\<exists>x. takes_push (cn_env net a) s (cr_uid r) [] x)"
    and "same_ids s (snd (answer (cn_env net a) r s))"
proof -
  obtain raw where raw: "EncodeFrame (ce_fc (cn_env net a))
      (ok_frame 0 CMD_MESSAGE_PUSH (PMessagePush (cr_conv r) (cr_max_seq r) (cr_from r) (cr_sync r))) = Inr raw"
    using assms(1) unfolding net_ok_def by blast
  obtain d s' where A: "PushMessage (cn_env net a) (cr_uid r) [] (cr_conv r) (cr_max_seq r) (cr_from r) (cr_sync r) s = (d, s')"
    by force
  show "co_out (cconns (snd (answer (cn_env net a) r s)) x) = co_out (cconns s x) @
      (if takes_push (cn_env net a) s (cr_uid r) [] x then [push_bytes net a r] else [])"
    "fst (answer (cn_env net a) r s) \<longleftrightarrow> (\<exists>x. takes_push (cn_env net a) s (cr_uid r) [] x)"
    using PushMessage_effect [OF assms(2) raw A] A by (simp_all add: answer_def push_bytes_def raw)
  show "same_ids s (snd (answer (cn_env net a) r s))" unfolding answer_def by (rule PushMessage_same)
qed

lemma takes_same: "same_ids s s' \<Longrightarrow> takes_push ce s' u d x = takes_push ce s u d x"
  by (simp add: takes_push_def same_ids_def)

definition received :: "comet_net \<Rightarrow> comets \<Rightarrow> (string \<times> comet_req) list \<Rightarrow> string \<Rightarrow> nat \<Rightarrow> bytes list" where
  \<comment> \<open>what a connection is sent by a list of pushes\<close>
  "received net w ps a x = map (\<lambda>p. push_bytes net a (snd p))
     (filter (\<lambda>p. fst p = a \<and> cn_link net a \<and> online net w a (cr_uid (snd p)) x) ps)"

lemma pushed_effect:
  assumes "net_ok net pv w"
  shows "co_out (cconns (pushed net ps w a) x) = co_out (cconns (w a) x) @ received net w ps a x \<and>
    (\<forall>b. same_ids (w b) (pushed net ps w b))"
proof (induction ps rule: rev_induct)
  case Nil
  then show ?case by (simp add: pushed_def received_def)
next
  case (snoc p ps)
  let ?w = "pushed net ps w"
  obtain b r where p: "p = (b, r)" by force
  have inv: "keeper_inv (?w b)" for b using snoc assms keeper_inv_same unfolding net_ok_def by blast
  have t: "takes_push (cn_env net b) (?w b) u [] x = online net w b u x" for b u x using snoc by (simp add: takes_same)
  note A = answer_effect [OF assms inv [of b], of b r]
  have "pushed net (ps @ [p]) w = serve_push net (b, r) ?w" by (simp add: pushed_def p)
  then show ?case
    using snoc A(1) [of x] A(3) same_ids_trans by (auto simp: serve_push_def received_def p t)
qed

subsection \<open>The push client\<close>

definition known :: "push_env \<Rightarrow> cluster \<Rightarrow> string list" where
  \<comment> \<open>the instances a broadcast goes to\<close>
  "known pv cl = fst (snapshotInstances pv cl)"

definition push_req :: "PushEvent \<Rightarrow> uid \<Rightarrow> int \<Rightarrow> comet_req" where
  "push_req e u y = \<lparr>cr_uid = u, cr_conv = pe_conv e, cr_max_seq = pe_max_seq e, cr_from = pe_from e, cr_sync = y\<rparr>"

lemma push_each_log: "push_each pv r as cl = (d, cl') \<Longrightarrow>
    cl' = cl\<lparr>push_log := push_log cl @ map (\<lambda>a. (a, r)) as\<rparr> \<and> (d \<longleftrightarrow> (\<exists>a \<in> set as. pv_rpc pv a r))"
proof (induction as arbitrary: cl d)
  case (Cons a as)
  obtain ds where r: "push_each pv r as (cl\<lparr>push_log := push_log cl @ [(a, r)]\<rparr>) = (ds, cl')" "d = (pv_rpc pv a r \<or> ds)"
    using Cons.prems by (auto simp: pushOne_def Let_def split: prod.splits)
  from Cons.IH [OF r(1)] r(2) show ?case by auto
qed simp

lemma known_log [simp]: "known pv (cl\<lparr>push_log := l\<rparr>) = known pv cl" "known pv (route_seed u as cl) = known pv cl"
  by (simp_all add: known_def snapshotInstances_def route_seed_def split: option.split)

lemma PushAll_pushes: "PushAll pv r cl = (d, cl') \<Longrightarrow>
    push_log cl' = push_log cl @ map (\<lambda>a. (a, r)) (known pv cl) \<and> (d \<longleftrightarrow> (\<exists>a \<in> set (known pv cl). pv_rpc pv a r)) \<and>
    known pv cl' = known pv cl"
proof -
  assume P: "PushAll pv r cl = (d, cl')"
  obtain as cl1 where s: "snapshotInstances pv cl = (as, cl1)" by force
  have "push_log cl1 = push_log cl" "known pv cl1 = as"
    using s by (auto simp: snapshotInstances_def known_def instanceRefresh_def split: if_splits option.splits)
  then show ?thesis using P s push_each_log [of pv r as cl1 d cl'] by (simp add: PushAll_def known_def [of pv cl])
qed

lemma route_seed_log: "push_log (route_seed u as cl) = push_log cl"
  by (simp add: route_seed_def)

lemma lookup_log: "push_log (snd (route_lookup pv rc u cl)) = push_log cl \<and> known pv (snd (route_lookup pv rc u cl)) = known pv cl"
  by (simp add: route_lookup_def route_seed_log split: option.split)

lemma PushRouted_log:
  assumes "PushRouted pv rc r cl = (d, cl')"
  shows "\<exists>as. push_log cl' = push_log cl @ map (\<lambda>a. (a, r)) as \<and> (d \<longleftrightarrow> (\<exists>a \<in> set as. pv_rpc pv a r)) \<and>
    (d \<or> set (known pv cl) \<subseteq> set as) \<and> known pv cl' = known pv cl"
proof -
  obtain found cl1 where R: "route_lookup pv rc (cr_uid r) cl = (found, cl1)" by force
  have c1: "push_log cl1 = push_log cl" "known pv cl1 = known pv cl"
    using R lookup_log [of pv rc "cr_uid r" cl] by simp_all
  show ?thesis
  proof (cases found)
    case None
    then show ?thesis using assms R c1 PushAll_pushes [of pv r cl1 d cl']
      by (intro exI [of _ "known pv cl"]) (simp add: PushRouted_def)
  next
    case (Some addrs)
    obtain d2 cl2 where E: "push_each pv r addrs cl1 = (d2, cl2)" by force
    note L = push_each_log [OF E]
    show ?thesis
    proof (cases d2)
      case True
      then show ?thesis using assms R Some E L c1 by (intro exI [of _ addrs]) (auto simp: PushRouted_def)
    next
      case False
      then have "PushAll pv r cl2 = (d, cl')" using assms R Some E by (simp add: PushRouted_def)
      from PushAll_pushes [OF this] False L c1 show ?thesis by (intro exI [of _ "addrs @ known pv cl"]) auto
    qed
  qed
qed

subsection \<open>A delivery\<close>

lemma deliver_one_pushes:
  defines "rpc \<equiv> \<lambda>env. pv_rpc (de_push env)"
  shows "\<exists>y as. push_log (vcluster (deliver_one env e u d)) = push_log (vcluster d) @ map (\<lambda>a. (a, push_req e u y)) as \<and>
    known (de_push env) (vcluster (deliver_one env e u d)) = known (de_push env) (vcluster d) \<and>
    ((\<exists>a \<in> set (known (de_push env) (vcluster d)). rpc env a (push_req e u y)) \<longrightarrow>
       (\<exists>a \<in> set as. rpc env a (push_req e u y)) \<and> alive u (pe_conv e) (pe_max_seq e) (vpend (deliver_one env e u d)))"
proof -
  obtain y d1 where b: "bump_receiver env u d = (y, d1)" by force
  obtain p cl where r: "PushRouted (de_push env) (vcache d1) (push_req e u y) (vcluster d1) = (p, cl)" by force
  have d1: "vcluster d1 = vcluster d"
    using b by (auto simp: bump_receiver_def split: prod.splits option.splits)
  have D: "deliver_one env e u d = (if p then register (pv_now (de_push env)) u e (d1\<lparr>vcluster := cl\<rparr>)
      else writeOfflineBox (de_box env u) (pv_now (de_push env)) u (pe_conv e) (pe_max_seq e) (d1\<lparr>vcluster := cl\<rparr>))"
    using r by (simp add: deliver_one_def b push_user_def push_req_def Let_def)
  have cl: "vcluster (deliver_one env e u d) = cl"
    by (simp add: D register_def fire_def writeOfflineBox_def Let_def)
  from PushRouted_log [OF r] obtain as where "push_log cl = push_log (vcluster d) @ map (\<lambda>a. (a, push_req e u y)) as"
    "p \<longleftrightarrow> (\<exists>a \<in> set as. rpc env a (push_req e u y))" "p \<or> set (known (de_push env) (vcluster d)) \<subseteq> set as"
    "known (de_push env) cl = known (de_push env) (vcluster d)" by (auto simp: d1 rpc_def)
  then show ?thesis unfolding cl
    by (intro exI [of _ y] exI [of _ as]) (auto simp: D alive_register)
qed

lemma deliver_one_alive: "alive v c q (vpend d) \<Longrightarrow> alive v c q (vpend (deliver_one env e u d))"
  using bump_simps(1) [of env u d] push_user_simps(1)
  by (auto simp: deliver_one_def alive_register Let_def case_prod_beta)

definition for_member :: "PushEvent \<Rightarrow> uid list \<Rightarrow> string \<times> comet_req \<Rightarrow> bool" where
  "for_member e us p \<longleftrightarrow> (\<exists>u \<in> set us. \<exists>y. snd p = push_req e u y)"

lemma fold_deliver_pushes:
  "\<exists>ps. push_log (vcluster (fold (deliver_one env e) us d)) = push_log (vcluster d) @ ps \<and> (\<forall>p \<in> set ps. for_member e us p) \<and>
    (\<forall>u \<in> set us. (\<exists>a \<in> set (known (de_push env) (vcluster d)). \<forall>y. pv_rpc (de_push env) a (push_req e u y)) \<longrightarrow>
       (\<exists>b y. (b, push_req e u y) \<in> set ps \<and> pv_rpc (de_push env) b (push_req e u y)) \<and>
       alive u (pe_conv e) (pe_max_seq e) (vpend (fold (deliver_one env e) us d)))"
proof (induction us arbitrary: d)
  case (Cons u us)
  let ?d1 = "deliver_one env e u d"
  from deliver_one_pushes [of env e u d] obtain y as where one:
    "push_log (vcluster ?d1) = push_log (vcluster d) @ map (\<lambda>a. (a, push_req e u y)) as"
    "known (de_push env) (vcluster ?d1) = known (de_push env) (vcluster d)"
    "(\<exists>a \<in> set (known (de_push env) (vcluster d)). pv_rpc (de_push env) a (push_req e u y)) \<Longrightarrow>
       (\<exists>a \<in> set as. pv_rpc (de_push env) a (push_req e u y)) \<and> alive u (pe_conv e) (pe_max_seq e) (vpend ?d1)" by blast
  from Cons [of ?d1, unfolded one(2)] obtain ps where ps: "push_log (vcluster (fold (deliver_one env e) us ?d1)) = push_log (vcluster ?d1) @ ps"
    "\<forall>p \<in> set ps. for_member e us p"
    "\<And>v. v \<in> set us \<Longrightarrow> \<exists>a \<in> set (known (de_push env) (vcluster d)). \<forall>y. pv_rpc (de_push env) a (push_req e v y) \<Longrightarrow>
       (\<exists>b y. (b, push_req e v y) \<in> set ps \<and> pv_rpc (de_push env) b (push_req e v y)) \<and>
       alive v (pe_conv e) (pe_max_seq e) (vpend (fold (deliver_one env e) us ?d1))" by blast
  have mono: "alive v c q (vpend x) \<Longrightarrow> alive v c q (vpend (fold (deliver_one env e) vs x))" for v c q vs x
    by (induction vs arbitrary: x) (auto intro: deliver_one_alive)
  show ?case
  proof (intro exI [of _ "map (\<lambda>a. (a, push_req e u y)) as @ ps"] conjI ballI impI)
    show "push_log (vcluster (fold (deliver_one env e) (u # us) d)) = push_log (vcluster d) @ (map (\<lambda>a. (a, push_req e u y)) as @ ps)"
      by (simp add: ps(1) one(1))
    show "for_member e (u # us) p" if "p \<in> set (map (\<lambda>a. (a, push_req e u y)) as @ ps)" for p
      using that ps(2) by (auto simp: for_member_def)
    fix v assume v: "v \<in> set (u # us)" "\<exists>a \<in> set (known (de_push env) (vcluster d)). \<forall>y. pv_rpc (de_push env) a (push_req e v y)"
    have u: "v = u \<Longrightarrow> \<exists>a \<in> set (known (de_push env) (vcluster d)). pv_rpc (de_push env) a (push_req e u y)" using v(2) by blast
    show "alive v (pe_conv e) (pe_max_seq e) (vpend (fold (deliver_one env e) (u # us) d))"
      using one(3) [OF u] ps(3) [OF _ v(2)] v(1) mono by (cases "v = u") auto
    show "\<exists>b z. (b, push_req e v z) \<in> set (map (\<lambda>a. (a, push_req e u y)) as @ ps) \<and> pv_rpc (de_push env) b (push_req e v z)"
    proof (cases "v = u")
      case True
      then show ?thesis using one(3) [OF u] by auto
    next
      case False
      then show ?thesis using ps(3) [OF _ v(2)] v(1) by auto
    qed
  qed
qed simp

text \<open>
  C6: Who is online is told, and only members are: when the connection servers answer as modelled and
  the member list can be read, then for every member but the author with an open registered
  connection on an instance the broadcast knows and can reach, a delivery writes the notification of
  this message to one of his connections and waits for his acknowledgement, whatever the route
  table says; and no connection of anybody but the members other than the author is written to.
\<close>

theorem online_members_are_notified:
  assumes net: "net_ok net (de_push env) w"
    and members: "ConvMembers (pv_redis (de_push env)) (de_members env) (pv_now (de_push env)) (vcache d) (vdb d) (pe_conv e) = (Inr ms, ca)"
    and new: "push_log (vcluster (Deliver env e d)) = push_log (vcluster d) @ ps"
  shows "(\<forall>b y. co_uid (cconns (w b) y) \<notin> set ms - {pe_from e} \<longrightarrow>
      co_out (cconns (pushed net ps w b) y) = co_out (cconns (w b) y)) \<and>
    (\<forall>u a x. u \<in> set ms - {pe_from e} \<longrightarrow> a \<in> set (known (de_push env) (vcluster d)) \<longrightarrow> cn_link net a \<longrightarrow> online net w a u x \<longrightarrow>
      alive u (pe_conv e) (pe_max_seq e) (vpend (Deliver env e d)) \<and>
      (\<exists>b y sync raws. co_uid (cconns (w b) y) = u \<and> push_bytes net b (push_req e u sync) \<in> set raws \<and>
         co_out (cconns (pushed net ps w b) y) = co_out (cconns (w b) y) @ raws))"
proof -
  let ?us = "filter (\<lambda>u. u \<noteq> pe_from e) ms" and ?d0 = "d\<lparr>vcache := ca\<rparr>"
  let ?d1 = "fold (deliver_one env e) ?us ?d0"
  have D: "vcluster (Deliver env e d) = vcluster ?d1" "vpend (Deliver env e d) = vpend ?d1"
    using members by (simp_all add: Deliver_def Let_def)
  from fold_deliver_pushes [of env e ?us ?d0] new have mem: "\<forall>p \<in> set ps. for_member e ?us p"
    and each: "\<And>u. u \<in> set ?us \<Longrightarrow> \<exists>a \<in> set (known (de_push env) (vcluster d)). \<forall>y. pv_rpc (de_push env) a (push_req e u y) \<Longrightarrow>
       (\<exists>b y. (b, push_req e u y) \<in> set ps \<and> pv_rpc (de_push env) b (push_req e u y)) \<and> alive u (pe_conv e) (pe_max_seq e) (vpend ?d1)"
    by (auto simp: D)
  have rpc: "pv_rpc (de_push env) a r \<longleftrightarrow> cn_link net a \<and> (\<exists>x. online net w a (cr_uid r) x)" for a r
    using net answer_effect(2) [OF net, of "w a" a r] by (auto simp: net_ok_def)
  note out = pushed_effect [OF net, of ps, THEN conjunct1]
  have "received net w ps b y = []" if "co_uid (cconns (w b) y) \<notin> set ms - {pe_from e}" for b y
    using mem that by (auto simp: received_def filter_empty_conv for_member_def push_req_def takes_push_def)
  moreover have "alive u (pe_conv e) (pe_max_seq e) (vpend (Deliver env e d)) \<and>
      (\<exists>b y sync raws. co_uid (cconns (w b) y) = u \<and> push_bytes net b (push_req e u sync) \<in> set raws \<and>
         co_out (cconns (pushed net ps w b) y) = co_out (cconns (w b) y) @ raws)"
    if "u \<in> set ms - {pe_from e}" "a \<in> set (known (de_push env) (vcluster d))" "cn_link net a" "online net w a u x" for u a x
  proof -
    have "u \<in> set ?us" "\<forall>y. pv_rpc (de_push env) a (push_req e u y)" using that by (auto simp: rpc push_req_def)
    from each [OF this(1)] this(2) that(2) obtain b y where b: "(b, push_req e u y) \<in> set ps" "pv_rpc (de_push env) b (push_req e u y)"
      and al: "alive u (pe_conv e) (pe_max_seq e) (vpend ?d1)" by blast
    from b(2) obtain z where z: "cn_link net b" "online net w b u z" by (auto simp: rpc push_req_def)
    have "push_bytes net b (push_req e u y) \<in> set (received net w ps b z)"
      using b(1) z by (auto simp: received_def push_req_def intro!: image_eqI [of _ _ "(b, push_req e u y)"])
    then show ?thesis using al out [of b z] z(2) by (auto simp: D takes_push_def)
  qed
  ultimately show ?thesis using out by auto
qed

subsection \<open>Witness\<close>

definition demo_net :: comet_net where
  "demo_net = \<lparr>cn_env = (\<lambda>_. demo_comet_env), cn_link = (\<lambda>a. a = ''c1'')\<rparr>"

definition demo_net_env :: deliver_env where
  "demo_net_env = \<lparr>de_push = \<lparr>pv_now = 100, pv_redis = redis_up, pv_resolve = None,
       pv_rpc = (\<lambda>a r. a = ''c1'' \<and> fst (answer demo_comet_env r demo_ready))\<rparr>,
     de_members = None, de_floor = (\<lambda>_. None), de_seq = (\<lambda>_. Inr 1), de_box = (\<lambda>_. None)\<rparr>"

definition demo_pair :: deliverer where
  \<comment> \<open>conversation 7 of the users 1 and 10; user 10 is connected to \<open>c1\<close>\<close>
  "demo_pair = demo_deliverer\<lparr>vdb := empty_meta\<lparr>conversations := [\<lparr>cv_id = 7, cv_type = 2, cv_members = Some [1, 10],
     cv_last_seq = 0, cv_create = 0, cv_name = [], cv_avatar = []\<rparr>]\<rparr>\<rparr>"

lemma online_members_are_notified_witness:
  "\<exists>ps sync raws. push_log (vcluster (Deliver demo_net_env demo_event demo_pair)) = push_log (vcluster demo_pair) @ ps \<and>
    alive 10 7 3 (vpend (Deliver demo_net_env demo_event demo_pair)) \<and>
    push_bytes demo_net ''c1'' (push_req demo_event 10 sync) \<in> set raws"
proof -
  have inv: "keeper_inv demo_ready" using comet_run_ok [OF demo_ready_run] by (simp add: comet_ok_def)
  have net: "net_ok demo_net (de_push demo_net_env) (\<lambda>_. demo_ready)"
    using inv by (auto simp: net_ok_def demo_net_def demo_net_env_def EncodeFrame_def demo_comet_defs cmd_defs MaxBodySize_def)
  have mem: "ConvMembers (pv_redis (de_push demo_net_env)) (de_members demo_net_env) (pv_now (de_push demo_net_env))
      (vcache demo_pair) (vdb demo_pair) (pe_conv demo_event) = (Inr [1, 10], None)"
    by (simp add: ConvMembers_def demo_net_env_def demo_pair_def demo_deliverer_def demo_event_def)
  have "\<exists>ps. push_log (vcluster (Deliver demo_net_env demo_event demo_pair)) = push_log (vcluster demo_pair) @ ps"
    using fold_deliver_pushes [of demo_net_env demo_event "filter (\<lambda>u. u \<noteq> pe_from demo_event) [1, 10]" "demo_pair\<lparr>vcache := None\<rparr>"] mem
    by (auto simp: Deliver_def Let_def)
  then obtain ps where ps: "push_log (vcluster (Deliver demo_net_env demo_event demo_pair)) = push_log (vcluster demo_pair) @ ps" ..
  have k: "''c1'' \<in> set (known (de_push demo_net_env) (vcluster demo_pair))"
    by (simp add: known_def snapshotInstances_def demo_net_env_def demo_pair_def demo_deliverer_def instanceRefresh_def)
  have on: "online demo_net (\<lambda>_. demo_ready) ''c1'' 10 1"
    using demo_ready_get demo_ready_conn by (simp add: takes_push_def demo_net_def demo_comet_env_def)
  have "10 \<in> set [1, 10 :: int] - {pe_from demo_event}" by (simp add: demo_event_def)
  from online_members_are_notified [OF net mem ps, THEN conjunct2, rule_format, OF this k _ on]
  show ?thesis using ps by (auto simp: demo_net_def push_bytes_def demo_event_def)
qed

end
