(* ===== verification/Routes.thy ===== *)
theory Routes
  imports Notify
begin

text \<open>
  How the route cache of the push client follows Redis: the connection servers publish each change of a
  route set (\<open>publishRouteChange\<close> in \<open>internal/cache/cache.go\<close>), \<open>SubscribeRouteChanges\<close> in
  \<open>internal/message/route_cache.go\<close> reads the channel and applies the changes.
\<close>

subsection \<open>The messages of the channel\<close>

definition route_payload :: "string \<Rightarrow> uid \<Rightarrow> string \<Rightarrow> string" where
  "route_payload op u addr = op @ '' '' @ int_str u @ '' '' @ addr"

definition skip_blanks :: "string \<Rightarrow> string" where
  \<comment> \<open>a line feed is not skipped: \<open>Sscanf\<close> fails there\<close>
  "skip_blanks s = dropWhile (\<lambda>c. is_space c \<and> c \<noteq> CHR 0x0A) s"

definition scan_word :: "string \<Rightarrow> (string \<times> string) option" where
  \<comment> \<open>the verb \<open>%s\<close>: the next word and the rest\<close>
  "scan_word s = (let t = skip_blanks s; w = takeWhile (\<lambda>c. \<not> is_space c) t
     in if w = [] then None else Some (w, drop (length w) t))"

definition scan_num :: "string \<Rightarrow> (int \<times> string) option" where
  \<comment> \<open>the verb \<open>%d\<close>\<close>
  "scan_num s =
     (let t = skip_blanks s;
          k = (if has_prefix ''-'' t \<or> has_prefix ''+'' t then 1 else 0);
          w = take k t @ takeWhile (\<lambda>c. digit_val c \<noteq> None) (drop k t)
      in map_option (\<lambda>v. (v, drop (length w) t)) (parse_int w))"

definition scan_route :: "string \<Rightarrow> (string \<times> int \<times> string) option" where
  \<comment> \<open>\<open>fmt.Sscanf(payload, "%s %d %s", ...)\<close>; what follows is not looked at\<close>
  "scan_route s = Option.bind (scan_word s) (\<lambda>(op, s1). Option.bind (scan_num s1)
     (\<lambda>(u, s2). map_option (\<lambda>(a, _). (op, u, a)) (scan_word s2)))"

definition on_route_message :: "string \<Rightarrow> cluster \<Rightarrow> cluster" where
  "on_route_message p cl = (case scan_route p of None \<Rightarrow> cl | Some (op, u, a) \<Rightarrow> route_apply op u a cl)"

definition SubscribeRouteChanges :: "string list list \<Rightarrow> cluster \<Rightarrow> cluster" where
  \<comment> \<open>the connections to Redis in turn, each with the messages it delivers until it breaks\<close>
  "SubscribeRouteChanges sessions cl = fold (\<lambda>ms c. fold on_route_message ms (route_reset c)) sessions cl"

definition route_messages :: "redis \<Rightarrow> string list" where
  \<comment> \<open>what was published on the channel\<close>
  "route_messages r = concat (map (\<lambda>p. case p of PubRoute op u a \<Rightarrow> [route_payload op u a] | _ \<Rightarrow> []) (channel_log r))"

definition word_ok :: "string \<Rightarrow> bool" where
  "word_ok w \<longleftrightarrow> w \<noteq> [] \<and> list_all (\<lambda>c. \<not> is_space c) w"

lemma skip_blanks_word: "word_ok w \<Longrightarrow> skip_blanks (w @ s) = w @ s" "word_ok w \<Longrightarrow> skip_blanks (CHR '' '' # w @ s) = w @ s"
  by (cases w; simp add: skip_blanks_def word_ok_def is_space_def)+

lemma takeWhile_blank: "list_all P w \<Longrightarrow> (s = [] \<or> \<not> P (hd s)) \<Longrightarrow> takeWhile P (w @ s) = w"
  by (induction w) (cases s; auto)+

lemma scan_word_word:
  assumes "word_ok w" "s = [] \<or> is_space (hd s)"
  shows "scan_word (w @ s) = Some (w, s)" "scan_word (CHR '' '' # w @ s) = Some (w, s)"
  using assms takeWhile_blank [of "\<lambda>c. \<not> is_space c" w s]
  by (auto simp: scan_word_def Let_def skip_blanks_word word_ok_def)

lemma int_str_shape: "\<exists>w. int_str v = (if v < 0 then CHR ''-'' # w else w) \<and> w \<noteq> [] \<and> list_all (\<lambda>c. digit_val c \<noteq> None) w"
proof -
  have "list_all (\<lambda>c. digit_val c \<noteq> None) (nat_str n)" for n using nat_str_digits by (auto simp: list_all_iff)
  then show ?thesis by (auto simp: int_str_def)
qed

lemma digit_facts: "digit_val c \<noteq> None \<Longrightarrow> \<not> is_space c \<and> c \<noteq> CHR ''-'' \<and> c \<noteq> CHR ''+''"
  by (auto simp: is_space_def digit_val_def)

lemma scan_num_int:
  assumes "- (2 ^ 63) \<le> v" "v < 2 ^ 63"
  shows "scan_num (CHR '' '' # int_str v @ CHR '' '' # s) = Some (v, CHR '' '' # s)"
proof -
  obtain w where w: "int_str v = (if v < 0 then CHR ''-'' # w else w)" "w \<noteq> []" "list_all (\<lambda>c. digit_val c \<noteq> None) w"
    using int_str_shape by blast
  have d: "takeWhile (\<lambda>c. digit_val c \<noteq> None) (w @ CHR '' '' # s) = w"
    using w(3) by (intro takeWhile_blank) (simp_all add: digit_val_def)
  have "word_ok (int_str v)"
    using w digit_facts by (auto simp: word_ok_def list_all_iff is_space_def)
  then have sk: "skip_blanks (CHR '' '' # int_str v @ CHR '' '' # s) = int_str v @ CHR '' '' # s"
    by (rule skip_blanks_word)
  have h: "\<not> v < 0 \<Longrightarrow> \<not> has_prefix ''-'' (int_str v @ x) \<and> \<not> has_prefix ''+'' (int_str v @ x)" for x
    using w digit_facts by (cases w) auto
  let ?t = "int_str v @ CHR '' '' # s"
  let ?k = "if has_prefix ''-'' ?t \<or> has_prefix ''+'' ?t then 1 else 0 :: nat"
  have "take ?k ?t @ takeWhile (\<lambda>c. digit_val c \<noteq> None) (drop ?k ?t) = int_str v"
    using d h [of "CHR '' '' # s"] w(1) by (cases "v < 0") auto
  then show ?thesis using parse_int_str [OF assms] unfolding scan_num_def sk Let_def by simp
qed

lemma scan_route_payload:
  assumes "word_ok op" "word_ok a" "- (2 ^ 63) \<le> u" "u < 2 ^ 63"
  shows "scan_route (route_payload op u a) = Some (op, u, a)"
  using scan_word_word [OF assms(1), of "CHR '' '' # int_str u @ CHR '' '' # a"] scan_word_word(2) [OF assms(2), of "[]"]
    scan_num_int [OF assms(3,4), of a]
  by (simp add: scan_route_def route_payload_def is_space_def)

definition NewCometCluster :: cluster where
  "NewCometCluster = \<lparr>instances = [], last_resolve = 0, routes = None, push_log = []\<rparr>"

definition NewRouteCache :: "uid \<Rightarrow> string list" where
  "NewRouteCache = (\<lambda>_. [])"

definition UseRouteCache :: "(uid \<Rightarrow> string list) \<Rightarrow> cluster \<Rightarrow> cluster" where
  "UseRouteCache rc cl = cl\<lparr>routes := Some rc\<rparr>"

subsection \<open>The cache follows the sets\<close>

datatype route_op = Connected uid string | Gone uid string | Beat uid
  \<comment> \<open>\<open>RouteAdd\<close>, \<open>RouteRem\<close> (also as part of \<open>RouteRemLast\<close>), \<open>RouteTouch\<close>\<close>

fun route_op_step :: "int \<times> route_op \<Rightarrow> redis \<Rightarrow> redis" where
  "route_op_step (now, Connected u a) r = the (RouteAdd redis_up now (Some r) u a)"
| "route_op_step (now, Gone u a) r = the (RouteRem redis_up now (Some r) u a)"
| "route_op_step (now, Beat u) r = the (RouteTouch redis_up now (Some r) u)"

fun op_ok :: "route_op \<Rightarrow> bool" where
  "op_ok (Connected u a) \<longleftrightarrow> word_ok a \<and> - (2 ^ 63) \<le> u \<and> u < 2 ^ 63"
| "op_ok (Gone u a) \<longleftrightarrow> word_ok a \<and> - (2 ^ 63) \<le> u \<and> u < 2 ^ 63"
| "op_ok (Beat u) \<longleftrightarrow> True"

definition route_set :: "uid \<Rightarrow> redis \<Rightarrow> string set" where
  "route_set u r = set (set_of_val (kv r (routeKey u)))"

definition cached_routes :: "uid \<Rightarrow> cluster \<Rightarrow> string set" where
  "cached_routes u cl = (case routes cl of None \<Rightarrow> {} | Some m \<Rightarrow> set (m u))"

fun unexpired :: "uid \<Rightarrow> (int \<times> route_op) list \<Rightarrow> redis \<Rightarrow> bool" where
  \<comment> \<open>the user's key does not run out during the operations\<close>
  "unexpired u [] r = True"
| "unexpired u (x # xs) r \<longleftrightarrow> live (fst x) r (routeKey u) = kv r (routeKey u) \<and> unexpired u xs (route_op_step x r)"

lemma route_messages_publish [simp]:
  "route_messages (publish (PubRoute op u a) r) = route_messages r @ [route_payload op u a]"
  by (simp add: route_messages_def publish_def)

lemma route_messages_keeps [simp]:
  "route_messages (put_keep now k v r) = route_messages r" "route_messages (expire now ttl k r) = route_messages r"
  "route_messages (del_key k r) = route_messages r" "route_messages (srem_key now k a r) = route_messages r"
  by (simp_all add: route_messages_def put_keep_def expire_def del_key_def srem_key_def Let_def)

definition op_messages :: "route_op \<Rightarrow> string list" where
  "op_messages x = (case x of Connected u a \<Rightarrow> [route_payload ''add'' u a] | Gone u a \<Rightarrow> [route_payload ''rem'' u a] | Beat _ \<Rightarrow> [])"

lemma route_op_messages: "route_messages (route_op_step x r) = route_messages r @ op_messages (snd x)"
  by (cases x; cases "snd x")
    (auto simp: RouteAdd_def RouteRem_def RouteTouch_def publishRouteChange_def cmd_def redis_up_def Let_def op_messages_def)

text \<open>One operation, and its message at the cache.\<close>

lemma kv_expire [simp]: "kv (expire now ttl k r) = kv r"
  by (simp add: expire_def)

lemma kv_publish [simp]: "kv (publish m r) = kv r"
  by (simp add: publish_def)

lemma route_op_set:
  assumes "live (fst x) r (routeKey u) = kv r (routeKey u)"
  shows "route_set u (route_op_step x r) = (case snd x of
      Connected v a \<Rightarrow> if v = u then insert a (route_set u r) else route_set u r
    | Gone v a \<Rightarrow> if v = u then route_set u r - {a} else route_set u r
    | Beat v \<Rightarrow> route_set u r)"
proof -
  obtain now op where x: "x = (now, op)" by force
  then have l: "live now r (routeKey u) = kv r (routeKey u)" using assms by simp
  show ?thesis
  proof (cases op)
    case (Connected v a)
    then show ?thesis using l
      by (auto simp: x RouteAdd_def publishRouteChange_def cmd_def redis_up_def Let_def route_set_def put_keep_def sadd_def set_of_val_def)
  next
    case (Gone v a)
    then show ?thesis using l
      by (auto simp: x RouteRem_def publishRouteChange_def cmd_def redis_up_def Let_def route_set_def put_keep_def srem_key_def
          del_key_def set_of_val_def filter_empty_conv split: option.splits rval.splits)
  qed (simp add: x RouteTouch_def cmd_def redis_up_def route_set_def)
qed

lemma cached_routes_apply:
  assumes "routes cl \<noteq> None"
  shows "cached_routes u (route_apply op v a cl) = (if v \<noteq> u then cached_routes u cl
      else if op = ''add'' then insert a (cached_routes u cl)
      else if op = ''rem'' then cached_routes u cl - {a} else cached_routes u cl)"
  using assms by (auto simp: cached_routes_def route_apply_def split: option.splits)

lemma routes_kept: "routes (fold on_route_message ms cl) = None \<longleftrightarrow> routes cl = None"
proof (induction ms arbitrary: cl)
  case (Cons m ms)
  have "routes (on_route_message m cl) = None \<longleftrightarrow> routes cl = None"
    by (auto simp: on_route_message_def route_apply_def split: option.split)
  with Cons show ?case by simp
qed simp

lemma cached_routes_op:
  assumes "routes cl \<noteq> None" "op_ok op" "live now r (routeKey u) = kv r (routeKey u)" "cached_routes u cl = route_set u r"
  shows "cached_routes u (fold on_route_message (op_messages op) cl) = route_set u (route_op_step (now, op) r)"
proof (cases op)
  case (Connected v a)
  then have "scan_route (route_payload ''add'' v a) = Some (''add'', v, a)"
    using assms(2) by (intro scan_route_payload) (simp_all add: word_ok_def is_space_def)
  then show ?thesis using Connected assms route_op_set [of "(now, op)" r u]
    by (simp add: op_messages_def on_route_message_def cached_routes_apply)
next
  case (Gone v a)
  then have "scan_route (route_payload ''rem'' v a) = Some (''rem'', v, a)"
    using assms(2) by (intro scan_route_payload) (simp_all add: word_ok_def is_space_def)
  then show ?thesis using Gone assms route_op_set [of "(now, op)" r u]
    by (simp add: op_messages_def on_route_message_def cached_routes_apply)
next
  case (Beat v)
  then show ?thesis using assms route_op_set [of "(now, op)" r u] by (simp add: op_messages_def)
qed

lemma route_ops_messages:
  "route_messages (fold route_op_step xs r) = route_messages r @ concat (map (\<lambda>x. op_messages (snd x)) xs)"
  by (induction xs arbitrary: r) (simp_all add: route_op_messages)

lemma cached_routes_ops:
  assumes "routes cl \<noteq> None" "cached_routes u cl = route_set u r" "\<forall>x \<in> set xs. op_ok (snd x)" "unexpired u xs r"
    and "r' = fold route_op_step xs r" "route_messages r' = route_messages r @ ms"
  shows "cached_routes u (fold on_route_message ms cl) = route_set u r'"
  using assms
proof (induction xs arbitrary: r cl ms)
  case (Cons x xs)
  obtain now op where x: "x = (now, op)" by force
  obtain ms2 where ms2: "route_messages r' = route_messages (route_op_step x r) @ ms2"
    using Cons.prems(5) route_ops_messages [of xs "route_op_step x r"] by auto
  then have ms: "ms = op_messages op @ ms2" using Cons.prems(6) by (simp add: route_op_messages x)
  have "cached_routes u (fold on_route_message (op_messages op) cl) = route_set u (route_op_step x r)"
    using Cons.prems(1-4) cached_routes_op [of cl op now r u] by (simp add: x)
  from Cons.IH [OF _ this _ _ _ ms2] Cons.prems show ?case by (simp add: ms routes_kept)
qed simp

text \<open>
  C37: The route cache is as good as Redis once it is complete: if the cached addresses of a user are
  those of his set in Redis, then after any logins, logouts and heartbeats of any users, and with
  every message published in between delivered in order, they still are, down to the empty set, as
  long as the user's key does not run out; so a lookup, cached or not, gives the same addresses.
\<close>

theorem route_cache_follows_redis:
  assumes "routes cl \<noteq> None" "cached_routes u cl = route_set u r" "\<forall>x \<in> set xs. op_ok (snd x)" "unexpired u xs r"
    and "r' = fold route_op_step xs r" "route_messages r' = route_messages r @ ms"
    and "live (pv_now env) r' (routeKey u) = kv r' (routeKey u)" "pv_redis env = redis_up"
  shows "cached_routes u (fold on_route_message ms cl) = route_set u r' \<and>
    map_option set (fst (route_lookup env (Some r') u (fold on_route_message ms cl))) =
      (if route_set u r' = {} then None else Some (route_set u r'))"
proof -
  let ?cl = "fold on_route_message ms cl"
  have eq: "cached_routes u ?cl = route_set u r'" by (rule cached_routes_ops [OF assms(1-6)])
  obtain m where m: "routes ?cl = Some m" using assms(1) routes_kept [of ms cl] by auto
  have "RouteGet redis_up (pv_now env) (Some r') u =
      (if route_set u r' = {} then None else Some (set_of_val (kv r' (routeKey u))))"
    using assms(7) by (simp add: RouteGet_def redis_up_def route_set_def Let_def)
  then show ?thesis using eq assms(8) m by (auto simp: route_lookup_def cached_routes_def route_set_def)
qed

definition demo_routes :: cluster where
  "demo_routes = UseRouteCache NewRouteCache NewCometCluster"

definition demo_ops :: "(int \<times> route_op) list" where
  "demo_ops = [(0, Connected 7 ''a:1''), (1, Connected 7 ''b:1''), (2, Beat 7), (3, Gone 7 ''a:1'')]"

lemma route_cache_follows_redis_witness:
  "cached_routes 7 (fold on_route_message (concat (map (\<lambda>x. op_messages (snd x)) demo_ops)) demo_routes) = {''b:1''}"
proof -
  define r' where "r' = fold route_op_step demo_ops empty_redis"
  let ?ms = "concat (map (\<lambda>x. op_messages (snd x)) demo_ops)"
  let ?env = "\<lparr>pv_now = 4, pv_redis = redis_up, pv_resolve = None, pv_rpc = (\<lambda>_ _. False)\<rparr>"
  note step = RouteAdd_def RouteRem_def RouteTouch_def publishRouteChange_def cmd_def redis_up_def put_keep_def srem_key_def
    sadd_def set_of_val_def live_def expire_def publish_def empty_redis_def routeTTL_def Let_def
  have ok: "\<forall>x \<in> set demo_ops. op_ok (snd x)" by (simp add: demo_ops_def word_ok_def is_space_def)
  have un: "unexpired 7 demo_ops empty_redis" by (simp add: demo_ops_def step)
  have kv: "kv r' (routeKey 7) = Some (VSet [''b:1''])" and lv: "live 4 r' (routeKey 7) = kv r' (routeKey 7)"
    by (simp_all add: r'_def demo_ops_def step)
  have ms: "route_messages r' = route_messages empty_redis @ ?ms"
    unfolding r'_def by (rule route_ops_messages)
  have "routes demo_routes \<noteq> None" "cached_routes 7 demo_routes = route_set 7 empty_redis"
    by (simp_all add: demo_routes_def NewCometCluster_def UseRouteCache_def NewRouteCache_def cached_routes_def route_set_def empty_redis_def set_of_val_def)
  from route_cache_follows_redis [OF this ok un r'_def ms, of ?env] lv kv show ?thesis
    by (simp add: route_set_def set_of_val_def)
qed

text \<open>
  A cache that is not complete stays so: after a reset, when no lookup has filled the entry of a user who
  is connected through \<open>A\<close>, the message of his second device at \<open>B\<close> makes an entry with \<open>B\<close> alone. Lookups then
  find \<open>B\<close> and ask Redis no more, the push to \<open>B\<close> is delivered, so there is no broadcast, and the
  device at \<open>A\<close> gets no notification, although \<open>A\<close> is in the set, online and reachable.
\<close>

lemma unseeded_entry_hides_device:
  assumes "routes cl = Some m" "m u = []" "word_ok B" "- (2 ^ 63) \<le> u" "u < 2 ^ 63" "B \<noteq> A"
    and "net_ok net pv w" "cr_uid req = u" "cn_link net B" "online net w B u y"
    and "cl' = fold on_route_message (op_messages (Connected u B)) cl" "PushRouted pv (Some r) req cl' = (d, cl'')"
    and "push_log cl'' = push_log cl' @ ps"
  shows "d \<and> ps = [(B, req)] \<and> co_out (cconns (pushed net ps w A) x) = co_out (cconns (w A) x)"
proof -
  have "scan_route (route_payload ''add'' u B) = Some (''add'', u, B)"
    using assms(3-5) by (intro scan_route_payload) (simp_all add: word_ok_def is_space_def)
  then have cl': "cl' = route_apply ''add'' u B cl" using assms(11) by (simp add: op_messages_def on_route_message_def)
  then have "route_lookup pv (Some r) u cl' = (Some [B], cl')" using assms(1,2) by (simp add: route_lookup_def route_apply_def)
  moreover have "pv_rpc pv B req"
    using assms(7-10) answer_effect(2) [OF assms(7), of "w B" B req] by (auto simp: net_ok_def)
  ultimately have "d \<and> push_log cl'' = push_log cl' @ [(B, req)]"
    using assms(8,12) by (auto simp: PushRouted_def pushOne_def)
  then show ?thesis using assms(6,13) pushed_effect [OF assms(7), of "[(B, req)]" A x] by (simp add: received_def)
qed

end
