(* ===== verification/SendConc.thy ===== *)
theory SendConc
  imports MessageSafety
begin

text \<open>
  \<open>SendMessage\<close> of \<open>internal/message/service.go\<close> under concurrency: handlers of one or of several
  instances run at the same time. A send is split where another one can come in between: after the
  checks, the numbers and the idempotency mark, and before the transaction, which the database makes
  one step. The message tables stay consistent; the mark, which is set before the message is
  stored, does not keep what the comment beside it says.
\<close>

subsection \<open>The two halves of a send\<close>

datatype send_stage = Answered "send_error + int \<times> int" | Writing int int
  \<comment> \<open>the send is over, or goes on to the transaction with the message id and the number\<close>

definition mark_stage :: "send_env \<Rightarrow> int \<Rightarrow> conv_id \<Rightarrow> int \<Rightarrow> int \<Rightarrow> svc \<Rightarrow> send_stage \<times> svc" where
  "mark_stage env cmid c msgID seq s =
     (if mcache s = None then (Writing msgID seq, s)
      else
        (let ((ok, noerr), ca) = IdemPut (se_redis env) (se_now env) (mcache s) c cmid \<lparr>iv_msg_id = msgID, iv_seq = seq\<rparr>;
             s1 = s\<lparr>mcache := ca\<rparr>
         in if noerr \<and> \<not> ok then
              (case IdemGet (se_redis env) (se_now env) ca c cmid of
                 Some v \<Rightarrow> (Answered (Inr (iv_msg_id v, iv_seq v)), s1)
               | None \<Rightarrow>
                   (case queryByClientMsgID (se_sql env SQuery) (table_of s1 c) c cmid of
                      Inr r \<Rightarrow> (Answered (Inr r), s1)
                    | Inl _ \<Rightarrow> (Writing msgID seq, s1)))
            else (Writing msgID seq, s1)))"

definition number_stage :: "send_env \<Rightarrow> int \<Rightarrow> conv_id \<Rightarrow> svc \<Rightarrow> send_stage \<times> svc" where
  "number_stage env cmid c s =
     (case AllocConv (\<lambda>_ _ u. (se_conv_refill env, u)) c (mconvs s) () of
        (Inl e, cs, _) \<Rightarrow> (Answered (Inl (SendErr (''alloc conv seq: '' @ e))), s\<lparr>mconvs := cs\<rparr>)
      | (Inr seq, cs, _) \<Rightarrow>
          (case AllocMsgID (\<lambda>_ u. (se_id_refill env, u)) (mids s) () of
             (Inl e, a, _) \<Rightarrow> (Answered (Inl (SendErr (''alloc msg id: '' @ e))), s\<lparr>mconvs := cs, mids := a\<rparr>)
           | (Inr msgID, a, _) \<Rightarrow> mark_stage env cmid c msgID seq (s\<lparr>mconvs := cs, mids := a\<rparr>)))"

definition send_begin :: "send_env \<Rightarrow> int \<Rightarrow> conv_id \<Rightarrow> uid \<Rightarrow> svc \<Rightarrow> send_stage \<times> svc" where
  "send_begin env cmid c from s =
     (case GetConvMeta (se_redis env) (se_sql env SMeta) (se_now env) (mcache s) (mdb s) c of
        (Inl e, ca) \<Rightarrow> (Answered (Inl (SendErr (''conv meta '' @ int_str c @ '': '' @ load_err_text e))), s\<lparr>mcache := ca\<rparr>)
      | (Inr meta, ca) \<Rightarrow>
          (let s1 = s\<lparr>mcache := ca\<rparr>
           in if from \<notin> set (MemberUIDs meta) then (Answered (Inl ErrNotMember), s1)
              else case bloom_hit env s1 c cmid of
                  Some v \<Rightarrow> (Answered (Inr (iv_msg_id v, iv_seq v)), s1)
                | None \<Rightarrow> number_stage env cmid c s1))"

definition send_finish :: "codec \<Rightarrow> send_env \<Rightarrow> int \<Rightarrow> conv_id \<Rightarrow> uid \<Rightarrow> Content \<Rightarrow> send_stage \<Rightarrow> svc \<Rightarrow>
    (send_error + int \<times> int) \<times> svc" where
  "send_finish cd env cmid c from content st s =
     (case st of Answered r \<Rightarrow> (r, s) | Writing msgID seq \<Rightarrow> write_message cd env cmid c from content msgID seq s)"

text \<open>Without anything in between the halves are the whole.\<close>

lemma mark_stage_finish: "mark_and_write cd env cmid c from content msgID seq s =
    (case mark_stage env cmid c msgID seq s of (st, s') \<Rightarrow> send_finish cd env cmid c from content st s')"
  by (simp add: mark_and_write_def mark_stage_def send_finish_def Let_def split: prod.split option.split sum.split)

lemma number_stage_finish: "allocate_and_write cd env cmid c from content s =
    (case number_stage env cmid c s of (st, s') \<Rightarrow> send_finish cd env cmid c from content st s')"
  unfolding allocate_and_write_def number_stage_def mark_stage_finish
  by (simp add: send_finish_def split: prod.split sum.split)

lemma SendMessage_halves: "SendMessage cd env cmid c from content s =
    (case send_begin env cmid c from s of (st, s') \<Rightarrow> send_finish cd env cmid c from content st s')"
  unfolding SendMessage_def send_begin_def number_stage_finish
  by (simp add: send_finish_def Let_def split: prod.split sum.split option.split)

lemma mark_stage_store: "mark_stage env cmid c msgID seq s = (st, s') \<Longrightarrow> same_store s s'"
  by (auto simp: mark_stage_def Let_def same_store_def split: if_splits prod.splits option.splits sum.splits)

lemma number_stage_store: "number_stage env cmid c s = (st, s') \<Longrightarrow> same_store s s'"
  by (auto simp: number_stage_def same_store_def split: sum.splits prod.splits dest!: mark_stage_store)

lemma send_begin_store: "send_begin env cmid c from s = (st, s') \<Longrightarrow> same_store s s'"
  by (auto simp: send_begin_def Let_def same_store_def split: sum.splits prod.splits if_splits option.splits dest!: number_stage_store)

subsection \<open>Interleaved sends\<close>

record flight =   \<comment> \<open>a send between its halves\<close>
  fl_cmid :: int
  fl_conv :: conv_id
  fl_from :: uid
  fl_content :: Content
  fl_stage :: send_stage

definition finish_flight :: "codec \<Rightarrow> send_env \<Rightarrow> flight \<Rightarrow> svc \<Rightarrow> (send_error + int \<times> int) \<times> svc" where
  "finish_flight cd env f s = send_finish cd env (fl_cmid f) (fl_conv f) (fl_from f) (fl_content f) (fl_stage f) s"

inductive send_conc :: "svc \<Rightarrow> flight list \<Rightarrow> bool" where
  start: "mshards s = empty_shards \<Longrightarrow> send_conc s []"
| enter: "send_conc s fs \<Longrightarrow> send_begin env cmid c from s = (st, s') \<Longrightarrow>
    send_conc s' (\<lparr>fl_cmid = cmid, fl_conv = c, fl_from = from, fl_content = content, fl_stage = st\<rparr> # fs)"
  \<comment> \<open>by a client, or by \<open>RevokeMessage\<close>, which only reads before it sends\<close>
| finish: "send_conc s fs \<Longrightarrow> f \<in> set fs \<Longrightarrow> finish_flight cd env f s = (res, s') \<Longrightarrow> send_conc s' (remove1 f fs)"
| crash: "send_conc s fs \<Longrightarrow> set gs \<subseteq> set fs \<Longrightarrow> send_conc s gs"
| mark: "send_conc s fs \<Longrightarrow> send_conc (s\<lparr>mshards := snd (mark_flush f (m, mshards s))\<rparr>) fs"
| other: "send_conc s fs \<Longrightarrow> same_store s s' \<Longrightarrow> send_conc s' fs"
  \<comment> \<open>anything that leaves the message databases alone: a restart, another instance taking the next
     step, Redis losing or inventing keys, a change of membership\<close>

lemma tables_ok_mark: "tables_ok s \<Longrightarrow> tables_ok (s\<lparr>mshards := snd (mark_flush f (m, mshards s))\<rparr>)"
  by (elim tables_ok_tasks) (auto simp: mark_flush_def Let_def mark_done_keys split: prod.split)

lemma finish_flight_store:
  assumes "finish_flight cd env f s = (res, s')"
  shows "same_store s s' \<or> (\<exists>m l. fresh_pair (fl_conv f) (fl_cmid f) (fl_from f) m l s \<and>
    mshards s' = with_tables (fl_conv f) m l s \<and> mslots s' = mslots s)"
proof (cases "fl_stage f")
  case (Writing msgID seq)
  then have "write_message cd env (fl_cmid f) (fl_conv f) (fl_from f) (fl_content f) msgID seq s = (res, s')"
    using assms by (simp add: finish_flight_def send_finish_def)
  from write_message_ends [OF this] show ?thesis by (blast dest: write_ends_store)
qed (use assms in \<open>simp add: finish_flight_def send_finish_def\<close>)

lemma send_conc_tables: "send_conc s fs \<Longrightarrow> tables_ok s"
proof (induction rule: send_conc.induct)
  case (start s)
  then show ?case by (rule tables_ok_empty)
next
  case enter
  then show ?case by (blast dest: send_begin_store tables_ok_same)
next
  case finish
  then show ?case by (auto dest!: finish_flight_store simp: tables_ok_same intro: tables_ok_write)
next
  case (mark s fs f m)
  then show ?case by (intro tables_ok_mark)
qed (simp_all add: tables_ok_same)

text \<open>
  C1: The message store stays consistent whatever is concurrent and whatever fails: with any number of
  sends and revocations in progress, each between its checks and its transaction for as long as it
  takes, with any statement, commit or Redis command failing, with crashes, restarts, other
  instances and Redis losing or inventing keys, every table holds at most one message per sequence
  number, per client id and per message id, only messages of the conversations routed to it, and
  each database's delivery tasks are exactly those of its messages.
\<close>

theorem concurrent_message_tables_consistent:
  assumes "send_conc s fs"
  shows "pk_ok ms_key (msg_table (mshards s) sh) \<and> pk_ok ms_ukey (msg_table (mshards s) sh) \<and>
    pk_ok ms_idkey (msg_table (mshards s) sh) \<and>
    (\<forall>r \<in> set (msg_table (mshards s) sh). RouteMsg (mslots s) (ms_conv r) = sh) \<and>
    pk_ok lm_key (local_table (mshards s) i) \<and>
    lm_key ` set (local_table (mshards s) i) =
      (\<Union>sh \<in> {sh. DBIndex sh = i}. ms_idkey ` set (msg_table (mshards s) sh))"
  using send_conc_tables [OF assms]
  by (auto simp: tables_ok_def shard_ok_def tasks_ok_def shard_of_def Let_def)

lemma send_conc_send:
  assumes "send_conc s []" "SendMessage cd env cmid c from content s = (res, s')"
  shows "send_conc s' []"
proof -
  obtain st s1 where b: "send_begin env cmid c from s = (st, s1)" by force
  let ?f = "\<lparr>fl_cmid = cmid, fl_conv = c, fl_from = from, fl_content = content, fl_stage = st\<rparr>"
  have "finish_flight cd env ?f s1 = (res, s')" using assms(2) b by (simp add: SendMessage_halves finish_flight_def)
  from send_conc.finish [OF send_conc.enter [OF assms(1) b] _ this] show ?thesis by simp
qed

lemma concurrent_message_tables_consistent_witness:
  "pk_ok ms_ukey (msg_table (mshards (demo_sent 99)) (MsgShard 0 0)) \<and>
   msg_table (mshards (demo_sent 99)) (MsgShard 0 0) = [demo_row 99]"
proof -
  have "send_conc demo_svc []" by (rule send_conc.start) (simp add: demo_svc_def)
  from send_conc_send [OF this demo_sends [of 99]] have "send_conc (demo_sent 99) []" by (simp add: demo_sent_def demo_sends)
  from concurrent_message_tables_consistent [OF this, of "MsgShard 0 0" 0] show ?thesis
    by (simp add: demo_sent_def demo_sends demo_stored_tables)
qed

subsection \<open>An answer before the message is stored\<close>

text \<open>
  A send that finds the mark of another one in progress is answered with the other's numbers at
  once. If the other's transaction then fails, nothing is stored and the mark is gone, but the
  answer was a success. The comment beside the mark says that such a send looks into the database
  and goes on to insert. Any repeated call whose first attempt is slow gets here.
\<close>

lemma early_answer_loses_message:
  assumes "send_begin env cmid c from s = (Writing msgID seq, s1)"
    and "send_begin env2 cmid c from s1 = (Answered (Inr answer), s2)"
    and "row_get ms_ukey (table_of s c) (c, cmid) = None"
    and "se_sql env3 SBegin = None" "se_sql env3 SMessage = Some e"
    and "send_finish cd env3 cmid c from content (Writing msgID seq) s2 = (res, s3)"
  shows "(\<exists>e. res = Inl e) \<and> row_get ms_ukey (table_of s3 c) (c, cmid) = None \<and> mshards s3 = mshards s"
proof -
  have "mshards s2 = mshards s" "mslots s2 = mslots s"
    using send_begin_store [OF assms(1)] send_begin_store [OF assms(2)] by (simp_all add: same_store_def)
  moreover have "(\<exists>e. res = Inl e) \<and> mshards s3 = mshards s2 \<and> mslots s3 = mslots s2"
    using assms(4-6) by (auto simp: send_finish_def write_message_def Let_def split: option.splits)
  ultimately show ?thesis using assms(3) by (simp add: table_of_def shard_of_def)
qed

definition demo_marked_svc :: svc where
  \<comment> \<open>the first send is in progress\<close>
  "demo_marked_svc = demo_svc\<lparr>mcache := Some (demo_marked 99), mconvs := [(7, 2, 64)], mids := \<lparr>ma_cur = 6, ma_last = 9\<rparr>\<rparr>"

lemma demo_begins:
  "send_begin demo_env 99 7 1 demo_svc = (Writing 5 1, demo_marked_svc)"
  "\<exists>s2. send_begin demo_env 99 7 1 demo_marked_svc = (Answered (Inr (5, 1)), s2)"
proof -
  have G: "GetConvMeta (se_redis demo_env) (se_sql demo_env SMeta) (se_now demo_env) (mcache demo_svc) (mdb demo_svc) 7 =
      (Inr demo_meta, mcache demo_svc)"
    by (simp add: GetConvMeta_def rget_def demo_live demo_svc_def demo_env_def)
  have same: "s\<lparr>mcache := mcache s\<rparr> = s" for s :: svc by simp
  show "send_begin demo_env 99 7 1 demo_svc = (Writing 5 1, demo_marked_svc)"
    unfolding send_begin_def G
    by (simp add: same Let_def bloom_hit_def)
      (simp add: demo_meta_def demo_svc_def number_stage_def mark_stage_def AllocConv_def AllocMsgID_def IdemPut_def
        demo_env_def demo_live demo_marked_def demo_marked_svc_def Let_def)
  have L: "live 1000 (demo_marked 99) (metaKey 7) = Some (VMeta demo_meta)"
    "live 1000 (demo_marked 99) (idemKey 7 99) = Some (VIdem \<lparr>iv_msg_id = 5, iv_seq = 1\<rparr>)"
    by (simp_all add: demo_marked_def idemTTL_def demo_live)
  have G2: "GetConvMeta (se_redis demo_env) (se_sql demo_env SMeta) (se_now demo_env) (mcache demo_marked_svc) (mdb demo_marked_svc) 7 =
      (Inr demo_meta, mcache demo_marked_svc)"
    by (simp add: GetConvMeta_def rget_def L demo_marked_svc_def demo_env_def)
  show "\<exists>s2. send_begin demo_env 99 7 1 demo_marked_svc = (Answered (Inr (5, 1)), s2)"
    unfolding send_begin_def G2
    by (simp add: same Let_def bloom_hit_def)
      (simp add: demo_meta_def demo_svc_def number_stage_def mark_stage_def AllocConv_def AllocMsgID_def IdemPut_def IdemGet_def rget_def
        demo_env_def L demo_marked_svc_def Let_def)
qed

lemma early_answer_loses_message_witness:
  "\<exists>s1 s2. send_begin demo_env 99 7 1 demo_svc = (Writing 5 1, s1) \<and>
    send_begin demo_env 99 7 1 s1 = (Answered (Inr (5, 1)), s2) \<and>
    table_of (snd (send_finish demo_codec (demo_env\<lparr>se_sql := no_fault(SMessage := Some ''timeout'')\<rparr>) 99 7 1 demo_text (Writing 5 1) s2)) 7 = []"
proof -
  obtain s2 where s2: "send_begin demo_env 99 7 1 demo_marked_svc = (Answered (Inr (5, 1)), s2)" using demo_begins(2) by blast
  let ?env = "demo_env\<lparr>se_sql := no_fault(SMessage := Some ''timeout'')\<rparr>"
  obtain res s3 where F: "send_finish demo_codec ?env 99 7 1 demo_text (Writing 5 1) s2 = (res, s3)" by force
  have "mshards s3 = mshards demo_svc"
    using early_answer_loses_message [OF demo_begins(1) s2 _ _ _ F, of "''timeout''"] by (simp add: demo_tables)
  then have "table_of s3 7 = []" by (simp add: table_of_def demo_svc_def)
  then show ?thesis using demo_begins(1) s2 F by auto
qed

end
