(* ===== verification/Retry.thy ===== *)
theory Retry
  imports MessageRpc SendConc Accounts
begin

text \<open>
  Calls between the services as \<open>internal/kitexcfg/kitexcfg.go\<close> configures them: a time limit per
  attempt and a bounded number of repetitions. An attempt that runs out of time may still have been
  carried out, so a handler can run several times for one call; the file argues that this is safe
  for sending messages, which is proved here, and the other handlers it is used for are examined.
\<close>

subsection \<open>The client\<close>

record client_options =
  rpc_timeout :: int   \<comment> \<open>milliseconds\<close>
  max_retry :: nat

definition ClientOptions :: client_options where
  "ClientOptions = \<lparr>rpc_timeout = 1000, max_retry = 2\<rparr>"

definition DirectClientOptions :: client_options where
  "DirectClientOptions = \<lparr>rpc_timeout = 1000, max_retry = 1\<rparr>"

text \<open>
  What becomes of an attempt: it does not reach a server, or a server handles it, and the reply
  takes some time or is lost. The environment gives the list of the attempts; where it ends, the
  circuit breaker has stopped the repetitions. This is the schedule in which a handler has ended
  when the next attempt is handled: only the reply is late. It is enough to show what goes wrong
  with calls that cannot be repeated; attempts of a send that overlap are modelled below, by
  \<open>call_run\<close>.
\<close>

datatype 'e attempt = Unreached | Reached "int option" 'e

fun attempts :: "int \<Rightarrow> ('e \<Rightarrow> 's \<Rightarrow> 'r \<times> 's) \<Rightarrow> 'e attempt list \<Rightarrow> 's \<Rightarrow> 'r option \<times> 's" where
  "attempts limit f [] s = (None, s)"
| "attempts limit f (Unreached # as) s = attempts limit f as s"
| "attempts limit f (Reached d e # as) s =
     (case f e s of (r, s') \<Rightarrow>
        if \<exists>ms. d = Some ms \<and> ms < limit then (Some r, s') else attempts limit f as s')"

definition rpc_client :: "client_options \<Rightarrow> ('e \<Rightarrow> 's \<Rightarrow> 'r \<times> 's) \<Rightarrow> 'e attempt list \<Rightarrow> 's \<Rightarrow> 'r option \<times> 's" where
  "rpc_client opts f as s = attempts (rpc_timeout opts) f (take (Suc (max_retry opts)) as) s"

definition runs :: "'e attempt list \<Rightarrow> 'e list" where
  "runs as = concat (map (\<lambda>a. case a of Unreached \<Rightarrow> [] | Reached _ e \<Rightarrow> [e]) as)"

lemma runs_simps [simp]: "runs [] = []" "runs (Unreached # as) = runs as" "runs (Reached d e # as) = e # runs as"
  by (simp_all add: runs_def)

lemma runs_take: "e \<in> set (runs (take n as)) \<Longrightarrow> e \<in> set (runs as)"
  unfolding runs_def by (auto dest: in_set_takeD)

text \<open>An invariant of the handler that also holds of each answer is one of the call.\<close>

lemma attempts_rule:
  assumes "\<And>e s r s'. e \<in> set (runs as) \<Longrightarrow> P s \<Longrightarrow> f e s = (r, s') \<Longrightarrow> P s' \<and> Q r s'"
    and "P s" "attempts limit f as s = (a, s')"
  shows "P s' \<and> (\<forall>r. a = Some r \<longrightarrow> Q r s')"
  using assms
proof (induction limit f as s rule: attempts.induct)
  case (3 limit f d e as s)
  obtain r s1 where f: "f e s = (r, s1)" by force
  from 3(2) [OF _ 3(3) f] have "P s1 \<and> Q r s1" by simp
  with 3 f show ?case by (auto split: if_splits)
qed auto

lemma rpc_client_rule:
  assumes "\<And>e s r s'. e \<in> set (runs as) \<Longrightarrow> P s \<Longrightarrow> f e s = (r, s') \<Longrightarrow> P s' \<and> Q r s'"
    and "P s" "rpc_client opts f as s = (a, s')"
  shows "P s' \<and> (\<forall>r. a = Some r \<longrightarrow> Q r s')"
proof -
  have "e \<in> set (runs (take (Suc (max_retry opts)) as)) \<Longrightarrow> P s \<Longrightarrow> f e s = (r, s') \<Longrightarrow> P s' \<and> Q r s'" for e s r s'
    using assms(1) runs_take by metis
  from attempts_rule [of _ P f Q, OF this assms(2) assms(3) [unfolded rpc_client_def]] show ?thesis .
qed

subsection \<open>Sending\<close>

text \<open>Each attempt is handled by some instance of the message service, with a memory of its own.\<close>

record send_try =
  st_env :: send_env
  st_mem :: svc   \<comment> \<open>the memory of the instance; its database fields are not looked at\<close>

definition serve_at :: "svc \<Rightarrow> svc \<Rightarrow> svc" where
  "serve_at m s = m\<lparr>mdb := mdb s, mshards := mshards s, mslots := mslots s, mcache := mcache s\<rparr>"

definition try_send :: "codec \<Rightarrow> int \<Rightarrow> conv_id \<Rightarrow> uid \<Rightarrow> Content \<Rightarrow> send_try \<Rightarrow> svc \<Rightarrow> (send_error + int \<times> int) \<times> svc" where
  "try_send cd cmid c from msg e s = SendMessage cd (st_env e) cmid c from msg (serve_at (st_mem e) s)"

lemma same_store_serve [simp]: "same_store s (serve_at m s)"
  by (simp add: same_store_def serve_at_def)

lemma truthful_serve [simp]: "truthful (serve_at m s) = truthful s"
  by (simp add: truthful_def same_store_tables [OF same_store_serve]) (simp add: serve_at_def)

definition stored_once :: "svc \<Rightarrow> int \<Rightarrow> conv_id \<Rightarrow> uid \<Rightarrow> svc \<Rightarrow> bool" where
  \<comment> \<open>against the store at the beginning, nothing or the one message is new\<close>
  "stored_once s0 cmid c from s \<longleftrightarrow> same_store s0 s \<or>
     mslots s = mslots s0 \<and> (\<exists>m l. fresh_pair c cmid from m l s0 \<and> mshards s = with_tables c m l s0)"

lemma SendMessage_store:
  assumes "SendMessage cd env cmid c from msg s = (res, s')"
  shows "same_store s s' \<or> (\<exists>m l. fresh_pair c cmid from m l s \<and> mshards s' = with_tables c m l s \<and> mslots s' = mslots s)"
  using send_message_ends [OF assms] by (blast dest: send_ends_store)

lemma SendMessage_slots: "SendMessage cd env cmid c from msg s = (res, s') \<Longrightarrow> mslots s' = mslots s"
  by (drule SendMessage_store) (auto simp: same_store_def)

lemma stored_once_step:
  assumes "truthful s" "tables_ok s" "stored_once s0 cmid c from s"
    and "SendMessage cd env cmid c from msg s = (res, s')"
  shows "stored_once s0 cmid c from s'"
proof (cases "same_store s0 s")
  case True
  note eq = same_store_tables [OF True]
  from SendMessage_store [OF assms(4)] show ?thesis
  proof (elim disjE exE conjE)
    fix m l assume "fresh_pair c cmid from m l s" "mshards s' = with_tables c m l s" "mslots s' = mslots s"
    with True eq [of c cmid "from" m l] have "fresh_pair c cmid from m l s0" "mshards s' = with_tables c m l s0" "mslots s' = mslots s0"
      by (simp_all add: same_store_def)
    then show ?thesis unfolding stored_once_def by blast
  qed (use True in \<open>simp add: stored_once_def same_store_def\<close>)
next
  case False
  with assms(3) obtain m l where m: "mslots s = mslots s0" "fresh_pair c cmid from m l s0" "mshards s = with_tables c m l s0"
    by (auto simp: stored_once_def)
  then have "m \<in> set (table_of s c)" "ms_ukey m = (c, cmid)"
    by (simp_all add: table_of_write fresh_pair_def ms_ukey_def)
  then have "row_get ms_ukey (table_of s c) (c, cmid) \<noteq> None" by (metis row_get_not_None image_eqI)
  then have "mshards s' = mshards s" using retry_never_stores_twice [OF assms(1,2) _ assms(4)] by blast
  moreover have "mslots s' = mslots s" by (rule SendMessage_slots [OF assms(4)])
  ultimately show ?thesis using m by (auto simp: stored_once_def)
qed

text \<open>
  When no two attempts overlap, every answer names a stored message whatever fails, except the start
  of the transaction and the deletion of the mark.
\<close>

lemma sequential_retries_store_once:
  assumes "truthful s" "tables_ok s"
    and "rpc_client ClientOptions (try_send cd cmid c from msg) as s = (answer, s')"
    and "\<forall>e \<in> set (runs as). se_sql (st_env e) SBegin = None \<and> se_redis (st_env e) DEL (idemKey c cmid) \<noteq> RErr"
  shows "(mshards s' = mshards s \<or>
      (\<exists>m l. row_get ms_ukey (table_of s c) (c, cmid) = None \<and> ms_ukey m = (c, cmid) \<and> ms_from m = from \<and>
         mshards s' = with_tables c m l s)) \<and>
    (\<forall>mid q. answer = Some (Inr (mid, q)) \<longrightarrow>
      (\<exists>r \<in> set (table_of s' c). ms_ukey r = (c, cmid) \<and> ms_id r = mid \<and> ms_seq r = q)) \<and>
    truthful s' \<and> tables_ok s'"
proof -
  let ?P = "\<lambda>s'. truthful s' \<and> tables_ok s' \<and> stored_once s cmid c from s'"
  let ?Q = "\<lambda>r s'. \<forall>mid q. r = Inr (mid, q) \<longrightarrow> backed s' c cmid mid q"
  have step: "?P t' \<and> ?Q r t'" if e: "e \<in> set (runs as)" and P: "?P t" and f: "try_send cd cmid c from msg e t = (r, t')"
    for e t r t'
  proof -
    note f = f [unfolded try_send_def]
    have same: "same_store t (serve_at (st_mem e) t)" "truthful (serve_at (st_mem e) t)" "tables_ok (serve_at (st_mem e) t)"
      using P by (simp_all add: tables_ok_same [OF same_store_serve])
    have "stored_once s cmid c from (serve_at (st_mem e) t)"
      using P by (auto simp: stored_once_def same_store_def serve_at_def)
    from stored_once_step [OF same(2,3) this f] send_message_tables [OF f same(3)] send_truthful [OF same(2) f] assms(4) e
    show ?thesis by simp
  qed
  have "?P s" using assms(1,2) by (simp add: stored_once_def)
  with rpc_client_rule [of as ?P "try_send cd cmid c from msg" ?Q, OF _ _ assms(3)] step
  have "?P s' \<and> (\<forall>r. answer = Some r \<longrightarrow> ?Q r s')" by blast
  then show ?thesis by (auto simp: stored_once_def same_store_def backed_def fresh_pair_def duplicate_key_def ms_ukey_def)
qed

subsection \<open>Attempts that overlap\<close>

text \<open>
  When an attempt runs out of time, its handler may still be between its checks and its transaction
  (the halves of \<open>SendConc\<close>) while the next attempt is handled, at the same or at another instance.
  The state of a call lists the attempts that are on their way to the transaction with the numbers
  they have drawn, and the answers of the handlers: those given before the transaction, because of a
  mark or a row that was found, and those given after it. The client takes one of them, or none.
  \<open>sc_smooth\<close> is a history variable: Redis answered for the mark of this message and kept it for as
  long as it was set, no attempt died on its way, and none failed after another one had been answered.
\<close>

record send_call =
  sc_svc :: svc
  sc_open :: "(int \<times> int) list"
  sc_early :: "(send_error + int \<times> int) list"
  sc_late :: "(send_error + int \<times> int) list"
  sc_tries :: nat
  sc_others :: "flight list"   \<comment> \<open>sends of other calls between their halves\<close>
  sc_smooth :: bool

definition mark_entry :: "redis option \<Rightarrow> conv_id \<Rightarrow> int \<Rightarrow> (rval option \<times> int option) option" where
  "mark_entry ca c k = map_option (\<lambda>r. (kv r (idemKey c k), deadline r (idemKey c k))) ca"


definition row_with :: "svc \<Rightarrow> conv_id \<Rightarrow> int \<Rightarrow> (int \<times> int) option" where
  "row_with s c k = map_option (\<lambda>r. (ms_id r, ms_seq r)) (row_get ms_ukey (table_of s c) (c, k))"





lemma entry_RecentAdd [simp]: "mark_entry (RecentAdd f now ca cv q m) c k = mark_entry ca c k"
  by (cases ca) (auto simp: RecentAdd_def mark_entry_def cmd_def put_keep_def expire_def Let_def)
















text \<open>What the steps do to the tables.\<close>

definition rows_added :: "conv_id \<Rightarrow> int \<Rightarrow> uid \<Rightarrow> svc \<Rightarrow> svc \<Rightarrow> bool" where
  \<comment> \<open>rows are only added, and those with the client id of the call are its sender's\<close>
  "rows_added c cmid from s s' \<longleftrightarrow> mslots s' = mslots s \<and>
     (\<forall>sh. \<exists>ms. msg_table (mshards s') sh = msg_table (mshards s) sh @ ms \<and>
        (\<forall>r \<in> set ms. ms_ukey r = (c, cmid) \<longrightarrow> ms_from r = from))"





lemma backed_added: "rows_added c cmid from s s' \<Longrightarrow> backed s c' k mid q \<Longrightarrow> backed s' c' k mid q"
  unfolding rows_added_def backed_def table_of_def shard_of_def by (metis Un_iff set_append)






subsection \<open>The invariant of a call\<close>

definition told :: "send_call \<Rightarrow> int \<times> int \<Rightarrow> bool" where
  "told k x \<longleftrightarrow> Inr x \<in> set (sc_early k) \<union> set (sc_late k)"

definition smooth_state :: "conv_id \<Rightarrow> int \<Rightarrow> send_call \<Rightarrow> bool" where
  \<comment> \<open>nothing is known of the message yet, or everything agrees with the mark\<close>
  "smooth_state c cmid k \<longleftrightarrow>
     (\<exists>d. mark_entry (mcache (sc_svc k)) c cmid = Some (None, d)) \<and> row_with (sc_svc k) c cmid = None \<and>
       sc_open k = [] \<and> (\<forall>x. \<not> told k x) \<or>
     (\<exists>v d. mark_entry (mcache (sc_svc k)) c cmid = Some (Some (VIdem v), d) \<and>
       (row_with (sc_svc k) c cmid = None \<and> sc_open k = [(iv_msg_id v, iv_seq v)] \<or>
        row_with (sc_svc k) c cmid = Some (iv_msg_id v, iv_seq v) \<and> sc_open k = []) \<and>
       (\<forall>x. told k x \<longrightarrow> x = (iv_msg_id v, iv_seq v)))"


lemma smooth_state_smooth [simp]: "smooth_state c cmid (k\<lparr>sc_smooth := b\<rparr>) = smooth_state c cmid k"
  by (simp add: smooth_state_def told_def)












lemma serve_at_self [simp]: "serve_at s s = s"
  by (simp add: serve_at_def)




text \<open>
  Repeating a call of the sequence service only costs numbers: the range the caller gets in the end
  lies above everything given out before the call, whatever the earlier attempts took.
\<close>

lemma repeated_alloc_is_fresh:
  assumes "pool_ok p" "0 < n"
    and "rpc_client ClientOptions (\<lambda>e. AllocId (fst e) (snd e) biz key n) as p = (Some (Inr start), p')"
  shows "pool_mark (biz, key) p < start \<and> start + n - 1 \<le> pool_mark (biz, key) p' \<and> pool_ok p'"
proof -
  let ?P = "\<lambda>q. pool_ok q \<and> pool_mark (biz, key) p \<le> pool_mark (biz, key) q"
  let ?Q = "\<lambda>r q. \<forall>x. r = Inr x \<longrightarrow> pool_mark (biz, key) p < x \<and> x + n - 1 = pool_mark (biz, key) q"
  have "?P q' \<and> ?Q r q'" if "?P q" "AllocId (fst e) (snd e) biz key n q = (r, q')" for e q r q'
  proof -
    note E = pool_alloc_effect [OF that(2) [unfolded AllocId_def] that(1) [THEN conjunct1] assms(2)]
    show ?thesis using that(1) E(1) E(2) [of "(biz, key)"] E(3) by auto
  qed
  from rpc_client_rule [of as ?P "\<lambda>e. AllocId (fst e) (snd e) biz key n" ?Q, OF this _ assms(3)] assms(1)
  show ?thesis by auto
qed

subsection \<open>Handlers that are not repeatable\<close>

text \<open>
  The same client options are used for every other call. A registration whose reply comes too late
  is repeated and then refused, because the nickname is taken by the account it has just made.
\<close>

lemma repeated_register_is_refused:
  assumes "rpc_Register env nickname password t = (Inr u, t')" "ae_coll env nickname nickname" "ae_coll env' = ae_coll env"
    and "ae_alloc env' = Inr v" "ae_hash env' = Inr h" "ae_fail env' = None"
  shows "rpc_client ClientOptions (\<lambda>e. rpc_Register e nickname password) [Reached None env, Reached (Some 20) env'] t =
    (Some (Inl (YErr 10 ''nickname already taken'')), t')"
proof -
  have R: "Register env nickname password t = (Inr u, t')"
    using assms(1) by (auto simp: rpc_Register_def split: prod.splits sum.splits)
  from Register_cases [OF R] obtain k where
    t': "t' = t @ [\<lparr>us_uid = u, us_nickname = nickname, us_hash = k, us_avatar = []\<rparr>]" and
    ok: "nickname_ok nickname" "6 \<le> length password" "length password \<le> 64" by auto
  have "Register env' nickname password t' = (Inl ErrNicknameTaken, t')"
    using ok assms(2-6) by (simp add: Register_def t')
  then have "rpc_Register env' nickname password t' = (Inl (YErr 10 ''nickname already taken''), t')"
    by (simp add: rpc_Register_def logicError_def)
  with assms(1) show ?thesis by (simp add: rpc_client_def ClientOptions_def)
qed

text \<open>The creation of a group is repeated as a second group: nothing identifies the first attempt.\<close>

lemma create_new_stored:
  assumes "create_new rc env ty us ow nm s = (Inr (meta, False), s')" "rc = None"
  shows "row_get cv_id (conversations (mdb s)) (ConvID meta) = None \<and>
    json_members (ConvID meta) (mdb s') = Some us \<and> (\<forall>x. x \<noteq> ConvID meta \<longrightarrow> json_members x (mdb s') = json_members x (mdb s))"
proof -
  from create_new_end [OF assms(1)] assms(2) obtain env c db' where
    "create_tx env ty us nm c (mdb s) = Inr db'" "mdb s' = db'" "ConvID meta = c" by (auto simp: new_end_def)
  then show ?thesis using create_tx_effect [of env ty us nm c "mdb s" db'] by simp
qed

lemma repeated_group_creation_makes_two:
  assumes "CreateConv None env CONV_GROUP us ow nm s = (Inr (m1, False), s1)"
    and "CreateConv None env' CONV_GROUP us ow nm s1 = (Inr (m2, False), s2)"
  shows "rpc_client ClientOptions (\<lambda>e. CreateConv None e CONV_GROUP us ow nm) [Reached None env, Reached (Some 20) env'] s =
      (Some (Inr (m2, False)), s2) \<and> ConvID m1 \<noteq> ConvID m2 \<and>
    json_members (ConvID m1) (mdb s2) = Some (dedup_on [] us) \<and> json_members (ConvID m2) (mdb s2) = Some (dedup_on [] us)"
proof -
  have new: "create_new None e CONV_GROUP (dedup_on [] us) ow (take_runes 32 (trim_space nm)) t = (Inr (m, False), t')"
    if "CreateConv None e CONV_GROUP us ow nm t = (Inr (m, False), t')" for e m t t'
    using that by (auto simp: CreateConv_def CONV_GROUP_def CONV_SINGLE_def Let_def split: if_splits)
  note A = create_new_stored [OF new [OF assms(1)] refl] and B = create_new_stored [OF new [OF assms(2)] refl]
  have "ConvID m1 \<noteq> ConvID m2" using A B by (auto simp: json_members_def)
  with A B assms show ?thesis by (simp add: rpc_client_def ClientOptions_def)
qed

text \<open>Renaming a group is repeated as a change to the same name, which is refused.\<close>

lemma repeated_group_rename_is_refused:
  assumes "role_of c op (rdb s) = Some 1" "row_get cv_id (conversations (rdb s)) c = Some row" "pk_ok cv_id (conversations (rdb s))"
    and "n \<noteq> []" "group_name n \<noteq> []" "UpdateGroupInfo rf no_fault op c n [] s = (None, s1)"
  shows "rpc_client ClientOptions (\<lambda>e. UpdateGroupInfo rf no_fault op c n []) [Reached None (), Reached (Some 20) ()] s =
    (Some (Some (bizErr CodeNotMember)), s1)"
proof -
  have r: "memberRole no_fault c op (rdb s) = Inr 1" using assms(1) by (auto simp: memberRole_def role_of_def)
  let ?upd = "\<lambda>r. r\<lparr>cv_name := group_name n, cv_avatar := cv_avatar r\<rparr>"
  let ?db = "(rdb s)\<lparr>conversations := row_upd (\<lambda>r. cv_id r = c) ?upd (conversations (rdb s))\<rparr>"
  have db: "rdb s1 = ?db"
    using assms(4-6) r by (auto simp: UpdateGroupInfo_def Let_def Emit_def split: if_splits)
  have "row_get cv_id (conversations ?db) c = Some (?upd row)" "pk_ok cv_id (conversations ?db)"
    using assms(2,3) row_get_SomeD [OF assms(2)] by (simp_all add: row_get_upd pk_ok_upd)
  moreover have "role_of c op (rdb s1) = Some 1" using assms(1) by (simp add: db role_of_def member_row_def)
  ultimately have "UpdateGroupInfo rf no_fault op c n [] s1 = (Some (bizErr CodeNotMember), s1)"
    using assms(4,5) by (intro unchanged_group_name_refused [of _ _ _ "?upd row"]) (simp_all add: db)
  then show ?thesis using assms(6) by (simp add: rpc_client_def ClientOptions_def)
qed

end
