(* ===== verification/Startup.thy ===== *)
theory Startup
  imports SendConc CometSafety TimeWheel Tasks Routes RelationRpc Accounts Config
begin

text \<open>
  How the processes are put together: the \<open>main\<close> functions under \<open>cmd/\<close>, the stores they open
  (\<open>internal/store\<close>), and the loop of the message service that waits for the signal to rebuild its
  Bloom filter. A \<open>main\<close> is a function of the environment variables and of what can be opened; it ends in
  a fatal error or in the state in which the process starts to serve.
\<close>

subsection \<open>The world a process starts in\<close>

datatype resource =
    Logger | Dsn string | Pool string | PingDB string | RedisAt string | EtcdResolver "string list" | EtcdRegistry "string list"
  | EtcdClient "string list" | KitexClient string | TCPAddr string | Listener string | KeyPair string string

record world =
  wd_env :: environment
  wd_fails :: "resource \<Rightarrow> string option"   \<comment> \<open>why it cannot be opened\<close>
  wd_host :: "string option"                 \<comment> \<open>\<open>os.Hostname\<close>\<close>
  wd_pid :: nat
  wd_now :: int
  wd_meta :: meta_db                         \<comment> \<open>what the stores hold\<close>
  wd_shards :: msg_dbs
  wd_seqs :: "seq_row list"
  wd_redis :: redis
  wd_queue :: "string \<Rightarrow> shardDesc option list"
  wd_lock :: "string \<Rightarrow> int option"

datatype ending = Panic string | Fatal string string | SelfTest
  \<comment> \<open>\<open>Fatal\<close>: the log line and its error; \<open>SelfTest\<close>: the process runs its self test and returns\<close>

definition fatal :: "string \<Rightarrow> string option \<Rightarrow> ending + 'a \<Rightarrow> ending + 'a" where
  "fatal msg fault k = (case fault of Some e \<Rightarrow> Inl (Fatal msg e) | None \<Rightarrow> k)"

definition with_config :: "world \<Rightarrow> (Config \<Rightarrow> ending + 'a) \<Rightarrow> ending + 'a" where
  "with_config w k =
     (case wd_fails w Logger of
        Some e \<Rightarrow> Inl (Panic e)
      | None \<Rightarrow> (case Load (wd_env w) of Inl e \<Rightarrow> Inl (Fatal ''load config'' e) | Inr cfg \<Rightarrow> k cfg))"

subsection \<open>Stores\<close>

definition DBName :: "MsgShard \<Rightarrow> string" where
  "DBName s = ''yim_msg_'' @ nat_str (DBIndex s)"

definition Table :: "MsgShard \<Rightarrow> string" where
  \<comment> \<open>the verb \<open>%02d\<close>\<close>
  "Table s = ''message_'' @ (if TableIndex s < 10 then ''0'' else []) @ nat_str (TableIndex s)"

definition QualifiedName :: "MsgShard \<Rightarrow> string" where
  "QualifiedName s = DBName s @ ''.'' @ Table s"

record mysql =   \<comment> \<open>the pools, by the name of the database they are opened on\<close>
  Meta :: string
  msgDBs :: "string list"

definition open_db :: "world \<Rightarrow> string \<Rightarrow> string + string" where
  "open_db w n =
     (case wd_fails w (Pool n) of
        Some e \<Rightarrow> Inl e
      | None \<Rightarrow> (case wd_fails w (PingDB n) of Some e \<Rightarrow> Inl (''ping '' @ n @ '': '' @ e) | None \<Rightarrow> Inr n))"

fun open_dbs :: "world \<Rightarrow> string list \<Rightarrow> string + string list" where
  "open_dbs w [] = Inr []"
| "open_dbs w (n # ns) =
     (case open_db w n of
        Inl e \<Rightarrow> Inl e
      | Inr d \<Rightarrow> (case open_dbs w ns of Inl e \<Rightarrow> Inl e | Inr ds \<Rightarrow> Inr (d # ds)))"

definition OpenMySQL :: "world \<Rightarrow> string \<Rightarrow> string + mysql" where
  "OpenMySQL w dsn =
     (case wd_fails w (Dsn dsn) of
        Some e \<Rightarrow> Inl (''parse dsn: '' @ e)
      | None \<Rightarrow>
          (case open_db w ''yim_meta'' of
             Inl e \<Rightarrow> Inl e
           | Inr m \<Rightarrow>
               (case open_dbs w (map (\<lambda>i. ''yim_msg_'' @ nat_str i) [0..<MsgDBCount]) of
                  Inl e \<Rightarrow> Inl e
                | Inr ds \<Rightarrow> Inr \<lparr>Meta = m, msgDBs = ds\<rparr>)))"

definition ShardDB :: "mysql \<Rightarrow> MsgShard \<Rightarrow> string option" where
  \<comment> \<open>\<open>None\<close>: the index is out of range and the runtime panics\<close>
  "ShardDB m s = (if DBIndex s < length (msgDBs m) then Some (msgDBs m ! DBIndex s) else None)"

definition with_mysql :: "world \<Rightarrow> Config \<Rightarrow> (mysql \<Rightarrow> ending + 'a) \<Rightarrow> ending + 'a" where
  "with_mysql w cfg k = (case OpenMySQL w (MySQLDSN cfg) of Inl e \<Rightarrow> Inl (Fatal ''open mysql'' e) | Inr m \<Rightarrow> k m)"

definition OpenRedis :: "world \<Rightarrow> string \<Rightarrow> redis option" where
  "OpenRedis w addr = (if wd_fails w (RedisAt addr) = None then Some (wd_redis w) else None)"

definition msg_cache :: "world \<Rightarrow> Config \<Rightarrow> redis option" where
  \<comment> \<open>\<open>cfg.RedisAddrs[0]\<close>; a failure is logged and the process goes on without\<close>
  "msg_cache w cfg = OpenRedis w (hd (RedisAddrs cfg))"

definition with_server :: "world \<Rightarrow> Config \<Rightarrow> string \<Rightarrow> ending + 'a \<Rightarrow> ending + 'a" where
  \<comment> \<open>the registry, and \<open>ServerOptions\<close> of kitexcfg.go\<close>
  "with_server w cfg addr k =
     fatal ''etcd registry'' (wd_fails w (EtcdRegistry (EtcdEndpoints cfg)))
       (fatal ''server options'' (wd_fails w (TCPAddr addr)) k)"

definition with_client :: "world \<Rightarrow> string \<Rightarrow> ending + 'a \<Rightarrow> ending + 'a" where
  "with_client w dest k = fatal (''kitex client '' @ dest) (wd_fails w (KitexClient dest)) k"

definition with_resolver :: "world \<Rightarrow> Config \<Rightarrow> ending + 'a \<Rightarrow> ending + 'a" where
  "with_resolver w cfg k = fatal ''etcd resolver'' (wd_fails w (EtcdResolver (EtcdEndpoints cfg))) k"

subsection \<open>Components as they are made\<close>

definition NewRedisSyncSeqClient :: "redis option \<Rightarrow> seq_row list \<Rightarrow> RedisSyncSeqClient" where
  "NewRedisSyncSeqClient ca t = \<lparr>floor_of = (\<lambda>_. None), sync_buf = empty_batch, sync_tbl = t, sync_cache = ca\<rparr>"

definition NewDeliverer :: "world \<Rightarrow> RedisSyncSeqClient option \<Rightarrow> cluster \<Rightarrow> redis option \<Rightarrow> deliverer" where
  "NewDeliverer w seqs cl ca = \<lparr>vdb = wd_meta w, vshards = wd_shards w, vslots = DefaultSlotTable, vcache = ca, vsync = seqs,
     vcluster = cl, vpend = (\<lambda>_. []), vtimers = [], vfiring = [], vmarks = (\<lambda>_. empty_batch)\<rparr>"

datatype RetryTimer = NativeTimer | WheelTimer wheel

definition NewWheelTimer :: "int \<Rightarrow> RetryTimer" where
  "NewWheelTimer now = WheelTimer (StartWheel 100 512 now)"

definition DefaultRetryTimer :: "world \<Rightarrow> RetryTimer" where
  "DefaultRetryTimer w = (if wd_env w ''YIM_RETRY_TIMER'' = ''native'' then NativeTimer else NewWheelTimer (wd_now w))"

definition NewService :: "world \<Rightarrow> redis option \<Rightarrow> svc" where
  \<comment> \<open>of the message service, with a pusher\<close>
  "NewService w ca = \<lparr>mdb = wd_meta w, mshards = wd_shards w, mslots = DefaultSlotTable, mcache = ca,
     mbloom = (if ca = None then None else Some (NewBloom (2 ^ 25) 4)), mids = msgIDAlloc0, mconvs = [],
     mlast = empty_batch, mpush = Some []\<rparr>"

definition NewPool :: "seq_row list \<Rightarrow> int \<Rightarrow> pool" where
  "NewPool t step = \<lparr>p_step = step, p_m = (\<lambda>_. None), p_tbl = t\<rparr>"

definition AllocUID :: "seq_faults \<Rightarrow> (nat \<Rightarrow> seq_faults) \<Rightarrow> pool \<Rightarrow> (string + int) \<times> pool" where
  \<comment> \<open>\<open>seqUIDs\<close>: the call to the number service\<close>
  "AllocUID ff nf p = AllocId ff nf ''uid'' 0 1 p"

definition cluster_with :: "redis option \<Rightarrow> cluster" where
  \<comment> \<open>with the route cache, and a goroutine that runs \<open>SubscribeRouteChanges\<close>, if Redis is there\<close>
  "cluster_with ca = (if ca = None then NewCometCluster else UseRouteCache NewRouteCache NewCometCluster)"

subsection \<open>The message service and the job service\<close>

datatype delivery_form =
    ViaKafka "string list"   \<comment> \<open>pusher and acker are the Kafka producer on these brokers\<close>
  | InProcess deliverer RetryTimer chans "nat list"   \<comment> \<open>a deliverer of its own, its queues, and the queues with a worker\<close>

record message_process =
  mp_db :: mysql
  mp_svc :: svc
  mp_seqs :: RedisSyncSeqClient
  mp_delivery :: delivery_form
  mp_warms :: bool        \<comment> \<open>the filter is warmed with the messages of seven days\<close>
  mp_rebuilds :: bool     \<comment> \<open>\<open>subscribeBloomRebuild\<close> runs\<close>
  mp_addr :: string

definition main_message :: "world \<Rightarrow> ending + message_process" where
  \<comment> \<open>the tracer never stops a process: its failure is a warning\<close>
  "main_message w =
     with_config w (\<lambda>cfg. with_mysql w cfg (\<lambda>db. with_resolver w cfg
       (with_client w ''yim.seq'' (with_client w ''yim.relation''
         (let ca = msg_cache w cfg; seqs = NewRedisSyncSeqClient ca (wd_seqs w); s = NewService w ca;
              form = (if KafkaBrokers cfg \<noteq> [] then ViaKafka (KafkaBrokers cfg)
                      else InProcess (NewDeliverer w (Some seqs) (cluster_with ca) ca) (DefaultRetryTimer w)
                             NewChans (run_workers (int DeliverWorkers) NewChans))
          in with_server w cfg (MessageRPCAddr cfg)
               (Inr \<lparr>mp_db = db, mp_svc = s, mp_seqs = seqs, mp_delivery = form, mp_warms = mbloom s \<noteq> None,
                  mp_rebuilds = (mbloom s \<noteq> None \<and> ca \<noteq> None), mp_addr = MessageRPCAddr cfg\<rparr>))))))"

definition consumerCount :: "environment \<Rightarrow> nat" where
  "consumerCount env = (case parse_int (env ''YIM_KAFKA_CONSUMERS'') of
       Some n \<Rightarrow> if 0 < n then nat n else 8
     | None \<Rightarrow> 8)"

record job_process =
  jp_db :: mysql
  jp_brokers :: "string list"
  jp_deliverer :: deliverer
  jp_timer :: RetryTimer
  jp_readers :: "(string \<times> string) list"   \<comment> \<open>topic and consumer group, each with a \<open>consumeLoop\<close>\<close>

definition main_job :: "world \<Rightarrow> ending + job_process" where
  "main_job w =
     with_config w (\<lambda>cfg.
       if KafkaBrokers cfg = [] then Inl (Fatal ''YIM_KAFKA_BROKERS not configured (job svc is kafka-only)'' [])
       else with_mysql w cfg (\<lambda>db. with_resolver w cfg (with_client w ''yim.seq''
         (let ca = msg_cache w cfg
          in Inr \<lparr>jp_db = db, jp_brokers = KafkaBrokers cfg,
               jp_deliverer = NewDeliverer w (Some (NewRedisSyncSeqClient ca (wd_seqs w))) (cluster_with ca) ca,
               jp_timer = DefaultRetryTimer w,
               jp_readers = replicate (consumerCount (wd_env w)) (''yim.push'', ''yim-job'') @ [(''yim.ack'', ''yim-job-ack'')]\<rparr>))))"

subsection \<open>The connection server\<close>

record comet_process =
  cp_comet :: comet
  cp_secret :: string     \<comment> \<open>of the \<open>JWTAuthenticator\<close>\<close>
  cp_dev :: bool
  cp_addr :: string       \<comment> \<open>the address in the routes and in etcd\<close>
  cp_typing :: bool       \<comment> \<open>\<open>SubscribeEphemeralLoop\<close> runs\<close>
  cp_events :: "string option"   \<comment> \<open>the consumer group of \<open>ConsumeRelationEvents\<close>\<close>
  cp_tls :: bool

definition main_comet :: "bool \<Rightarrow> world \<Rightarrow> ending + comet_process" where
  "main_comet selftest w =
     with_config w (\<lambda>cfg.
       if selftest then Inl SelfTest
       else with_resolver w cfg (with_client w ''yim.message'' (with_client w ''yim.seq''
         (let ca = msg_cache w cfg; kafka = KafkaBrokers cfg \<noteq> []; tls = TLSCert cfg \<noteq> [] \<and> TLSKey cfg \<noteq> [];
              p = \<lparr>cp_comet = NewServer ca kafka, cp_secret = JWTSecret cfg, cp_dev = (AuthMode cfg = ''dev''),
                 cp_addr = CometRPCAddr cfg, cp_typing = (ca \<noteq> None),
                 cp_events = (if kafka then Some (''yim-comet-rel-'' @ CometRPCAddr cfg) else None), cp_tls = tls\<rparr>
          in fatal ''listen tcp'' (wd_fails w (Listener (CometTCP cfg)))
               (fatal ''load tls keypair'' (if tls then wd_fails w (KeyPair (TLSCert cfg) (TLSKey cfg)) else None)
                 (with_server w cfg (CometRPCAddr cfg) (Inr p)))))))"

subsection \<open>The scheduler\<close>

definition hostnamePID :: "world \<Rightarrow> string" where
  "hostnamePID w = (case wd_host w of None \<Rightarrow> ''unknown'' | Some h \<Rightarrow> h) @ '':'' @ nat_str (wd_pid w)"

record sched_process =
  sp_db :: mysql
  sp_deliverer :: deliverer   \<comment> \<open>of the scan\<close>
  sp_timer :: RetryTimer
  sp_sched :: sched
  sp_self :: string

definition main_sched :: "bool \<Rightarrow> world \<Rightarrow> ending + sched_process" where
  "main_sched selftest w =
     with_config w (\<lambda>cfg. with_mysql w cfg (\<lambda>db.
       let ca = msg_cache w cfg
       in fatal ''etcd client'' (wd_fails w (EtcdClient (EtcdEndpoints cfg)))
            (with_resolver w cfg (with_client w ''yim.seq''
              (if selftest then Inl SelfTest
               else Inr \<lparr>sp_db = db, sp_deliverer = NewDeliverer w None NewCometCluster ca, sp_timer = DefaultRetryTimer w,
                      sp_sched = \<lparr>sx_tasks = yim_tasks (ca \<noteq> None), sx_redis = (ca \<noteq> None), sx_queue = wd_queue w,
                        sx_lock = wd_lock w, sx_done = []\<rparr>,
                      sp_self = hostnamePID w\<rparr>)))))"

subsection \<open>The relation, login and number services and the gateway\<close>

record relation_process =
  rp_db :: mysql
  rp_rel :: rel
  rp_enriches :: bool    \<comment> \<open>\<open>EnrichPresence\<close> runs\<close>
  rp_addr :: string

definition main_relation :: "world \<Rightarrow> ending + relation_process" where
  "main_relation w =
     with_config w (\<lambda>cfg. with_mysql w cfg (\<lambda>db.
       let kafka = KafkaBrokers cfg \<noteq> []
       in with_server w cfg (RelationRPCAddr cfg)
            (Inr \<lparr>rp_db = db, rp_rel = \<lparr>rdb = wd_meta w, rcache = msg_cache w cfg, rpub = (if kafka then Some [] else None)\<rparr>,
               rp_enriches = kafka, rp_addr = RelationRPCAddr cfg\<rparr>)))"

record logic_process =
  lp_db :: mysql
  lp_secret :: string   \<comment> \<open>of the \<open>Tokenizer\<close>\<close>
  lp_addr :: string

definition main_logic :: "world \<Rightarrow> ending + logic_process" where
  "main_logic w =
     with_config w (\<lambda>cfg. with_mysql w cfg (\<lambda>db. with_resolver w cfg (with_client w ''yim.seq''
       (with_server w cfg (LogicRPCAddr cfg) (Inr \<lparr>lp_db = db, lp_secret = JWTSecret cfg, lp_addr = LogicRPCAddr cfg\<rparr>)))))"

record seq_process =
  qp_db :: mysql
  qp_pool :: pool
  qp_addr :: string

definition main_seq :: "world \<Rightarrow> ending + seq_process" where
  "main_seq w =
     with_config w (\<lambda>cfg. with_mysql w cfg (\<lambda>db.
       with_server w cfg (SeqRPCAddr cfg)
         (Inr \<lparr>qp_db = db, qp_pool = NewPool (wd_seqs w) (SeqStep cfg), qp_addr = SeqRPCAddr cfg\<rparr>)))"

record gateway_process =
  gp_secret :: string   \<comment> \<open>of the middleware\<close>
  gp_dev :: bool
  gp_tls :: bool
  gp_addr :: string

definition main_gateway :: "bool \<Rightarrow> world \<Rightarrow> ending + gateway_process" where
  "main_gateway selftest w =
     with_config w (\<lambda>cfg. with_resolver w cfg
       (with_client w ''yim.message'' (with_client w ''yim.logic'' (with_client w ''yim.relation''
         (if selftest then Inl SelfTest
          else let tls = TLSCert cfg \<noteq> [] \<and> TLSKey cfg \<noteq> []
            in fatal ''load tls keypair'' (if tls then wd_fails w (KeyPair (TLSCert cfg) (TLSKey cfg)) else None)
                 (Inr \<lparr>gp_secret = JWTSecret cfg, gp_dev = (AuthMode cfg = ''dev''), gp_tls = tls, gp_addr = HTTPAddr cfg\<rparr>))))))"

subsection \<open>The signal to rebuild the filter\<close>

definition on_rebuild_message :: "string option \<Rightarrow> int \<Rightarrow> string \<Rightarrow> svc \<Rightarrow> svc" where
  \<comment> \<open>\<open>fmt.Sscanf(payload, "%d", &days)\<close> leaves 7 if it fails\<close>
  "on_rebuild_message fault now p s =
     snd (WarmIdempotencyBloom fault now (case scan_num p of Some (d, _) \<Rightarrow> d | None \<Rightarrow> 7) s)"

definition subscribeBloomRebuild :: "(string option \<times> int \<times> string) list list \<Rightarrow> svc \<Rightarrow> svc" where
  \<comment> \<open>the connections in turn, each with the messages it delivers until it breaks; a rebuild ends before
    the next message comes\<close>
  "subscribeBloomRebuild sessions s = fold (fold (\<lambda>(fault, now, p). on_rebuild_message fault now p)) sessions s"

subsection \<open>Stores that are open are the ones the code asks for\<close>

lemma open_dbs_names: "open_dbs w ns = Inr ds \<Longrightarrow> ds = ns"
  by (induction ns arbitrary: ds) (auto simp: open_db_def split: sum.splits option.splits)

lemma OpenMySQL_names: "OpenMySQL w dsn = Inr m \<Longrightarrow>
    m = \<lparr>Meta = ''yim_meta'', msgDBs = map (\<lambda>i. ''yim_msg_'' @ nat_str i) [0..<MsgDBCount]\<rparr>"
  by (auto simp: OpenMySQL_def open_db_def split: sum.splits option.splits dest: open_dbs_names)

lemma ShardDB_total: "OpenMySQL w dsn = Inr m \<Longrightarrow> DBIndex sh < MsgDBCount \<Longrightarrow> ShardDB m sh = Some (DBName sh)"
  using OpenMySQL_names [of w dsn m] by (simp add: ShardDB_def DBName_def)

text \<open>No two message tables have the same name.\<close>

lemma QualifiedName_distinct: "distinct (map QualifiedName AllMsgShards)"
  by (simp add: AllMsgShards_def MsgDBCount_def MsgTablePerDB_def upt_rec QualifiedName_def DBName_def Table_def nat_str.simps)

subsection \<open>Redis is never a reason not to start\<close>

definition redis_fails :: "string \<Rightarrow> string option \<Rightarrow> world \<Rightarrow> world" where
  "redis_fails a f w = w\<lparr>wd_fails := (wd_fails w)(RedisAt a := f)\<rparr>"

definition ends_in :: "ending + 'a \<Rightarrow> ending option" where
  "ends_in r = (case r of Inl e \<Rightarrow> Some e | Inr _ \<Rightarrow> None)"

lemma redis_fails_env [simp]: "wd_env (redis_fails a f w) = wd_env w"
  by (simp add: redis_fails_def)

lemma redis_fails_other [simp]: "(\<And>b. r \<noteq> RedisAt b) \<Longrightarrow> wd_fails (redis_fails a f w) r = wd_fails w r"
  by (simp add: redis_fails_def)

lemma OpenMySQL_redis [simp]: "OpenMySQL (redis_fails a f w) dsn = OpenMySQL w dsn"
proof -
  have db: "open_db (redis_fails a f w) n = open_db w n" for n by (simp add: open_db_def cong: option.case_cong)
  have "open_dbs (redis_fails a f w) ns = open_dbs w ns" for ns by (induction ns) (simp_all add: db cong: sum.case_cong)
  then show ?thesis by (simp add: OpenMySQL_def db cong: option.case_cong sum.case_cong)
qed

text \<open>How a start ends, step by step.\<close>

lemma ends_in_parts:
  "ends_in (Inr p) = None" "ends_in (Inl e) = Some e"
  "ends_in (fatal m f k) = (case f of Some e \<Rightarrow> Some (Fatal m e) | None \<Rightarrow> ends_in k)"
  "ends_in (with_config w g) = (case wd_fails w Logger of Some e \<Rightarrow> Some (Panic e)
     | None \<Rightarrow> (case Load (wd_env w) of Inl e \<Rightarrow> Some (Fatal ''load config'' e) | Inr cfg \<Rightarrow> ends_in (g cfg)))"
  "ends_in (with_mysql w cfg h) = (case OpenMySQL w (MySQLDSN cfg) of Inl e \<Rightarrow> Some (Fatal ''open mysql'' e)
     | Inr m \<Rightarrow> ends_in (h m))"
  "ends_in (if b then k else k') = (if b then ends_in k else ends_in k')"
  by (simp_all add: ends_in_def fatal_def with_config_def with_mysql_def split: option.split sum.split)

lemmas main_ends = ends_in_parts with_resolver_def with_client_def with_server_def Let_def

lemma redis_is_optional:
  "ends_in (main_message (redis_fails a f w)) = ends_in (main_message w)"
  "ends_in (main_job (redis_fails a f w)) = ends_in (main_job w)"
  "ends_in (main_comet b (redis_fails a f w)) = ends_in (main_comet b w)"
  "ends_in (main_sched b (redis_fails a f w)) = ends_in (main_sched b w)"
  "ends_in (main_relation (redis_fails a f w)) = ends_in (main_relation w)"
  by (simp_all add: main_message_def main_job_def main_comet_def main_sched_def main_relation_def main_ends
      cong: option.case_cong sum.case_cong if_cong)

subsection \<open>Processes start in the states their theorems begin with\<close>

lemma with_config_Inr: "with_config w k = Inr p \<longleftrightarrow> (wd_fails w Logger = None \<and> (\<exists>cfg. Load (wd_env w) = Inr cfg \<and> k cfg = Inr p))"
  by (auto simp: with_config_def split: option.split sum.split)

lemma with_mysql_Inr: "with_mysql w cfg k = Inr p \<longleftrightarrow> (\<exists>m. OpenMySQL w (MySQLDSN cfg) = Inr m \<and> k m = Inr p)"
  by (auto simp: with_mysql_def split: sum.split)

lemma fatal_Inr: "fatal m f k = Inr p \<longleftrightarrow> f = None \<and> k = Inr p"
  by (simp add: fatal_def split: option.split)

lemmas main_Inr = with_config_Inr with_mysql_Inr fatal_Inr with_resolver_def with_client_def with_server_def Let_def

lemma main_messageD: "main_message w = Inr p \<Longrightarrow> \<exists>cfg. Load (wd_env w) = Inr cfg \<and> mp_svc p = NewService w (msg_cache w cfg) \<and>
    mp_delivery p = (if KafkaBrokers cfg \<noteq> [] then ViaKafka (KafkaBrokers cfg)
      else InProcess (NewDeliverer w (Some (mp_seqs p)) (cluster_with (msg_cache w cfg)) (msg_cache w cfg)) (DefaultRetryTimer w)
        NewChans (run_workers (int DeliverWorkers) NewChans)) \<and>
    OpenMySQL w (MySQLDSN cfg) = Inr (mp_db p)"
  by (auto simp: main_message_def main_Inr)

text \<open>A restart of the message service, at any moment, on the tables it finds, goes on as \<open>send_conc\<close> does.\<close>

lemma restart_keeps_tables:
  assumes "send_conc s fs" "main_message w = Inr p" "wd_shards w = mshards s" "mslots s = DefaultSlotTable"
  shows "send_conc (mp_svc p) []"
proof -
  have "same_store s (mp_svc p)"
    using main_messageD [OF assms(2)] assms(3,4) by (auto simp: same_store_def NewService_def)
  then show ?thesis using send_conc.crash [OF assms(1), of "[]"] by (auto intro: send_conc.other)
qed

text \<open>Every conversation's shard is on a pool that was opened.\<close>

lemma routed_shard_is_open:
  assumes "main_message w = Inr p"
  shows "ShardDB (mp_db p) (RouteMsg (mslots (mp_svc p)) c) = Some (DBName (RouteMsg (mslots (mp_svc p)) c))"
proof -
  have "RouteMsg DefaultSlotTable c \<in> set AllMsgShards"
    using default_slot_ok [OF slot_of_lt] slot_of_lt by (simp add: RouteMsg_def DefaultSlotTable_def)
  moreover obtain cfg where "OpenMySQL w (MySQLDSN cfg) = Inr (mp_db p)" "mp_svc p = NewService w (msg_cache w cfg)"
    using main_messageD [OF assms] by blast
  moreover have "mslots (NewService w ca) = DefaultSlotTable" for ca by (simp add: NewService_def)
  ultimately show ?thesis by (simp add: ShardDB_total set_AllMsgShards)
qed

lemma deliverers_start_fresh:
  "main_job w = Inr j \<Longrightarrow> fresh_deliverer (jp_deliverer j)"
  "main_sched b w = Inr d \<Longrightarrow> fresh_deliverer (sp_deliverer d)"
  "main_message w = Inr m \<Longrightarrow> mp_delivery m = InProcess v t chs ws \<Longrightarrow> fresh_deliverer v"
  by (auto simp: main_job_def main_sched_def main_Inr NewDeliverer_def fresh_deliverer_def dest!: main_messageD split: if_splits)

lemma comet_starts: "main_comet b w = Inr p \<Longrightarrow> comet_run strict (cp_comet p) (\<lambda>_. None)"
  by (auto simp: main_comet_def main_Inr comet_run.start split: if_splits)

lemma scheduler_starts_scanning:
  assumes "main_sched b w = Inr p" "Load (wd_env w) = Inr cfg" "wd_fails w (RedisAt (hd (RedisAddrs cfg))) = None"
    and "wd_queue w scan_key = []"
  shows "scanning (sp_sched p)"
  using assms by (auto simp: main_sched_def main_Inr scanning_def yim_tasks_def msg_cache_def OpenRedis_def split: if_splits)

text \<open>
  With the same variables the message service and the job services agree on who delivers: with brokers the
  service sends to the topics and only job services, on the same brokers, read them; without, a job service
  does not start, the service delivers itself, and each of its queues has a worker.
\<close>

lemma one_side_delivers:
  assumes "main_message w = Inr m" "wd_env w' = wd_env w"
  shows "(case mp_delivery m of
      ViaKafka bs \<Rightarrow> bs \<noteq> [] \<and> (\<forall>j. main_job w' = Inr j \<longrightarrow> jp_brokers j = bs \<and>
        (''yim.push'', ''yim-job'') \<in> set (jp_readers j) \<and> (''yim.ack'', ''yim-job-ack'') \<in> set (jp_readers j))
    | InProcess d t chs ws \<Rightarrow> isl (main_job w') \<and> set ws = {..<length chs})"
proof -
  obtain cfg where c: "Load (wd_env w') = Inr cfg"
    and d: "mp_delivery m = (if KafkaBrokers cfg \<noteq> [] then ViaKafka (KafkaBrokers cfg)
      else InProcess (NewDeliverer w (Some (mp_seqs m)) (cluster_with (msg_cache w cfg)) (msg_cache w cfg)) (DefaultRetryTimer w)
        NewChans (run_workers (int DeliverWorkers) NewChans))"
    using main_messageD [OF assms(1)] assms(2) by auto
  have count: "0 < consumerCount env" for env by (simp add: consumerCount_def split: option.split)
  show ?thesis
  proof (cases "KafkaBrokers cfg = []")
    case True
    then have "isl (main_job w')" using c by (simp add: main_job_def with_config_def split: option.split)
    moreover have "set (run_workers (int DeliverWorkers) NewChans) = {..<length NewChans}"
      by (auto simp: run_workers_def NewChans_def DeliverWorkers_def)
    ultimately show ?thesis using True by (simp add: d)
  next
    case False
    then show ?thesis using c count [of "wd_env w'"] by (auto simp: d main_job_def main_Inr)
  qed
qed

text \<open>
  With the same variables the login service, the connection servers and the gateway have the same key: a
  token that the first issued opens the two others until it expires.
\<close>

lemma one_environment_one_key:
  assumes "main_logic w = Inr l" "main_comet False w1 = Inr c" "main_gateway False w2 = Inr g"
    and "wd_env w1 = wd_env w" "wd_env w2 = wd_env w"
    and "reads_back cr uid ((now + tokenTTL) div 1000) (now div 1000)" "0 < uid" "t div 1000 < (now + tokenTTL) div 1000"
  defines "token \<equiv> fst (Issue cr (lp_secret l) now uid)"
  shows "JWTAuthenticate cr (cp_secret c) (cp_dev c) t token = Inr uid \<and> gw_verify cr (gp_secret g) (gp_dev g) t token = Inr uid"
proof -
  have s: "cp_secret c = lp_secret l" "gp_secret g = lp_secret l"
    using assms(1-5) by (auto simp: main_logic_def main_comet_def main_gateway_def main_Inr)
  have n: "\<not> has_prefix ''dev.'' token" by (simp add: token_def Issue_signed signed_def header_start)
  have a: "\<exists>k. accepts cr (lp_secret l) t token k \<and> uid = jc_uid k"
    using accepts_issued [OF assms(6,7), of "lp_secret l" t] assms(8) by (simp add: token_def)
  have "JWTAuthenticate cr (lp_secret l) d t token = JWTAuthenticate cr (lp_secret l) False t token"
    "gw_verify cr (lp_secret l) d t token = gw_verify cr (lp_secret l) False t token" for d
    using n by (simp_all add: JWTAuthenticate_def gw_verify_def)
  then show ?thesis using a by (metis s JWTAuthenticate_iff gw_verify_iff)
qed

text \<open>The scheduler's signal is understood: the filter is rebuilt with the messages of seven days.\<close>

lemma rebuild_signal_understood:
  assumes "bloom_Exec True None ch = (r, ch')"
  shows "r = ExecOk \<and> (\<exists>p. ch' = ch @ [p] \<and> on_rebuild_message fault now p s = snd (WarmIdempotencyBloom fault now 7 s))"
proof -
  have "scan_num ''7'' = Some (7, [])"
    by (simp add: scan_num_def skip_blanks_def is_space_def digit_val_def parse_int_def Let_def)
  then show ?thesis using assms by (auto simp: bloom_Exec_def on_rebuild_message_def)
qed

lemma keys_of_load: "fold keys_run1 (map OpLoad ks) (c, Some x) = (c, Some (set ks \<union> x))"
  by (induction ks arbitrary: x) auto

lemma warm_covers:
  assumes "mbloom s = Some b" "bloom_covers b (K, None)"
  shows "\<exists>b'. mbloom (snd (WarmIdempotencyBloom None now days s)) = Some b' \<and>
    bloom_covers b' (set (warm_keys (now - days * 24 * 3600 * 1000) s), None)"
proof -
  let ?ks = "warm_keys (now - days * 24 * 3600 * 1000) s"
  have "bloom_covers (snd (Rebuild (Inr ?ks) b)) (fold keys_run1 (OpStart # map OpLoad ?ks @ [OpSwap]) (K, None))"
    unfolding Rebuild_is_history by (rule bloom_covers_run [OF assms(2)])
  then show ?thesis using assms(1) by (cases "Rebuild (Inr ?ks) b") (simp add: WarmIdempotencyBloom_def keys_of_load)
qed

text \<open>
  From the scheduler to the filter: a service that started with Redis and gets the scheduler's signal has
  a filter that answers yes for every message of seven days that the loader reads, so a client id that is
  sent again is looked up.
\<close>

lemma signalled_rebuild_covers_recent:
  assumes "bloom_Exec True None [] = (ExecOk, [p])" "main_message w = Inr m" "mp_rebuilds m"
    and "sh \<in> set AllMsgShards" "r \<in> set (take 500000 (filter (\<lambda>r. now - 604800000 < ms_time r) (msg_table (wd_shards w) sh)))"
  shows "\<exists>b. mbloom (subscribeBloomRebuild [[(None, now, p)]] (mp_svc m)) = Some b \<and> MightContain b (BloomKey (ms_conv r) (ms_cmid r))"
proof -
  obtain cfg where s: "mp_svc m = NewService w (msg_cache w cfg)" using main_messageD [OF assms(2)] by blast
  have "mbloom (mp_svc m) = Some (NewBloom (2 ^ 25) 4)"
    using assms(2,3) s by (auto simp: main_message_def main_Inr NewService_def)
  from warm_covers [OF this bloom_covers_New, of now 7]
  obtain b where b: "mbloom (snd (WarmIdempotencyBloom None now 7 (mp_svc m))) = Some b"
      "bloom_covers b (set (warm_keys (now - 604800000) (mp_svc m)), None)" by auto
  have "on_rebuild_message None now p (mp_svc m) = snd (WarmIdempotencyBloom None now 7 (mp_svc m))"
    using rebuild_signal_understood [OF assms(1), of None now "mp_svc m"] by simp
  moreover have "BloomKey (ms_conv r) (ms_cmid r) \<in> set (warm_keys (now - 604800000) (mp_svc m))"
    using assms(4,5) by (auto simp: warm_keys_def s NewService_def)
  ultimately show ?thesis using b by (auto simp: subscribeBloomRebuild_def bloom_covers_def MightContain_iff)
qed

end
