(* ===== verification/RelConc.thy ===== *)
theory RelConc
  imports Group
begin

text \<open>
  The relation service under concurrency: calls of one or of several instances run at the same time. A
  call is split where it reads what it later relies on. What a call reads outside its transaction, or in
  it with a plain SELECT, may be out of date when the transaction commits: under MySQL's default
  isolation such a SELECT reads a snapshot and locks nothing, while the writes of a transaction are
  seen, and excluded from the writes of others, as one step.
\<close>

subsection \<open>Group calls in parts\<close>

definition add_begin :: "gfaults \<Rightarrow> conv_id \<Rightarrow> uid \<Rightarrow> meta_db \<Rightarrow> yim_error option" where
  \<comment> \<open>\<open>AddGroupMembers\<close> up to the first write; the count fixes the snapshot\<close>
  "add_begin flt c ownerUID db =
     (if flt GBegin \<noteq> None then Some (bizErrDB (the (flt GBegin)))
      else if flt GCount \<noteq> None then Some (bizErrDB (the (flt GCount)))
      else if 0 < member_count c db then
        (case memberRole flt c ownerUID db of
           Inl e \<Rightarrow> Some (bizErrDB e)
         | Inr role \<Rightarrow> if role \<noteq> 1 then Some (bizErr CodeNotOwner) else None)
      else None)"

definition mutate_from :: "gfaults \<Rightarrow> conv_id \<Rightarrow> uid list \<Rightarrow> uid \<Rightarrow> meta_db \<Rightarrow> meta_db \<Rightarrow> string + meta_db" where
  \<comment> \<open>\<open>mutateConvMembers\<close>: the SELECT reads the snapshot, the UPDATE writes the database\<close>
  "mutate_from flt c add remove snap db =
     (case mutateConvMembers flt c add remove snap of
        Inl e \<Rightarrow> Inl e
      | Inr new \<Rightarrow> Inr (db\<lparr>conversations :=
          row_upd (\<lambda>r. cv_id r = c) (\<lambda>r. r\<lparr>cv_members := json_members c new\<rparr>) (conversations db)\<rparr>))"

definition add_finish :: "rfaults \<Rightarrow> gfaults \<Rightarrow> int \<Rightarrow> conv_id \<Rightarrow> uid list \<Rightarrow> uid \<Rightarrow> meta_db \<Rightarrow> rel \<Rightarrow>
    yim_error option \<times> rel" where
  "add_finish rf flt now c memberUIDs ownerUID snap s =
     (let count = member_count c snap
      in case add_loop flt 0 (\<lambda>u. if count = 0 \<and> u = ownerUID then 1 else 0) now c memberUIDs (rdb s) of
           Inl e \<Rightarrow> (Some (bizErrDB e), s)
         | Inr db1 \<Rightarrow>
             if count = 0 \<and> ownerUID \<notin> set memberUIDs then (Some (bizErr CodeNotOwner), s)
             else
               (case mutate_from flt c memberUIDs 0 snap db1 of
                  Inl e \<Rightarrow> (Some (bizErrDB e), s)
                | Inr db2 \<Rightarrow>
                    (case commit (flt GCommitFail) (flt GCommitLost) (rdb s) db2 of
                       (Some e, db') \<Rightarrow> (Some (bizErrDB e), s\<lparr>rdb := db'\<rparr>)
                     | (None, db') \<Rightarrow>
                         (None, Emit EvGroupChanged ownerUID c (ownerUID # memberUIDs)
                           (s\<lparr>rdb := db', rcache := InvalidateConv rf (rcache s) c\<rparr>)))))"

definition remove_check :: "gfaults \<Rightarrow> uid \<Rightarrow> conv_id \<Rightarrow> uid \<Rightarrow> meta_db \<Rightarrow> yim_error option" where
  \<comment> \<open>\<open>RemoveGroupMember\<close> before \<open>removeMember\<close>\<close>
  "remove_check flt opUID c targetUID db =
     (if opUID = targetUID then Some (bizErr CodeNotOwner)
      else case memberRole flt c opUID db of
          Inl e \<Rightarrow> Some (bizErrDB e)
        | Inr role \<Rightarrow> if role \<noteq> 1 then Some (bizErr CodeNotOwner) else None)"

definition quit_check :: "gfaults \<Rightarrow> uid \<Rightarrow> conv_id \<Rightarrow> meta_db \<Rightarrow> yim_error option" where
  \<comment> \<open>\<open>QuitGroup\<close> before \<open>removeMember\<close>\<close>
  "quit_check flt u c db =
     (case memberRole flt c u db of
        Inl e \<Rightarrow> Some (bizErrDB e)
      | Inr role \<Rightarrow>
          if role = 1 then Some (bizErr CodeNotOwner)
          else if role = 0 \<and> \<not> isMember flt c u db then Some (bizErr CodeNotMember) else None)"

definition remove_finish :: "rfaults \<Rightarrow> gfaults \<Rightarrow> conv_id \<Rightarrow> uid \<Rightarrow> meta_db \<Rightarrow> rel \<Rightarrow> yim_error option \<times> rel" where
  \<comment> \<open>the transaction of \<open>removeMember\<close>; its first SELECT is the one of \<open>mutateConvMembers\<close>\<close>
  "remove_finish rf flt c u snap s =
     (if flt GBegin \<noteq> None then (Some (bizErrDB (the (flt GBegin))), s)
      else if flt GDelMember \<noteq> None then (Some (bizErrDB (the (flt GDelMember))), s)
      else if flt GDelIndex \<noteq> None then (Some (bizErrDB (the (flt GDelIndex))), s)
      else
        (let db1 = (rdb s)\<lparr>
               group_members := row_del (\<lambda>r. gm_key r = (c, u)) (group_members (rdb s)),
               user_conversations := row_del (\<lambda>r. uc_key r = (u, c)) (user_conversations (rdb s))\<rparr>
         in case mutate_from flt c [] u snap db1 of
              Inl e \<Rightarrow> (Some (bizErrDB e), s)
            | Inr db2 \<Rightarrow>
                (case commit (flt GCommitFail) (flt GCommitLost) (rdb s) db2 of
                   (Some e, db') \<Rightarrow> (Some (bizErrDB e), s\<lparr>rdb := db'\<rparr>)
                 | (None, db') \<Rightarrow>
                     (None, s\<lparr>rdb := db', rcache := InvalidateConv rf (rcache s) c\<rparr>))))"

definition leave_finish :: "rfaults \<Rightarrow> gfaults \<Rightarrow> uid \<Rightarrow> conv_id \<Rightarrow> uid \<Rightarrow> meta_db \<Rightarrow> rel \<Rightarrow> yim_error option \<times> rel" where
  \<comment> \<open>what \<open>RemoveGroupMember\<close> and \<open>QuitGroup\<close> do after their checks\<close>
  "leave_finish rf flt opUID c targetUID snap s =
     (case remove_finish rf flt c targetUID snap s of
        (Some e, s') \<Rightarrow> (Some e, s')
      | (None, s') \<Rightarrow> (None, Emit EvGroupChanged opUID c (memberUIDsOf flt c targetUID (rdb s')) s'))"

text \<open>Without anything in between, the parts are the call.\<close>

lemma mutate_from_same: "mutate_from flt c add remove snap db = mutateConvMembers flt c add remove db"
  if "conversations snap = conversations db"
  using that
  by (auto simp: mutate_from_def mutateConvMembers_def Let_def json_members_def row_get_upd_conv
      split: option.splits)

lemma AddGroupMembers_parts: "AddGroupMembers rf flt now c us ow s =
    (case add_begin flt c ow (rdb s) of Some e \<Rightarrow> (Some e, s) | None \<Rightarrow> add_finish rf flt now c us ow (rdb s) s)"
proof -
  have m: "mutate_from flt c us 0 (rdb s) db1 = mutateConvMembers flt c us 0 db1"
    if "add_loop flt 0 role now c us (rdb s) = Inr db1" for role db1
    using add_loop_effect(1) [OF that] by (intro mutate_from_same) simp
  show ?thesis
    unfolding AddGroupMembers_def add_begin_def add_finish_def
    by (auto simp: Let_def m split: sum.split option.split)
qed

lemma remove_finish_same: "remove_finish rf flt c u (rdb s) s = removeMember rf flt c u s"
  by (simp add: remove_finish_def removeMember_def mutate_from_same Let_def)

lemma RemoveGroupMember_parts: "RemoveGroupMember rf flt op c t s =
    (case remove_check flt op c t (rdb s) of Some e \<Rightarrow> (Some e, s) | None \<Rightarrow> leave_finish rf flt op c t (rdb s) s)"
  by (auto simp: RemoveGroupMember_def remove_check_def leave_finish_def remove_finish_same split: sum.split)

lemma QuitGroup_parts: "QuitGroup rf flt u c s =
    (case quit_check flt u c (rdb s) of Some e \<Rightarrow> (Some e, s) | None \<Rightarrow> leave_finish rf flt u c u (rdb s) s)"
  by (auto simp: QuitGroup_def quit_check_def leave_finish_def remove_finish_same split: sum.split)

subsection \<open>What the parts do\<close>

lemma mutate_from_effect:
  assumes "mutate_from flt c add remove snap db = Inr db'"
  shows "role_of x u db' = role_of x u db" and "in_index x u db' = in_index x u db"
    and "x \<noteq> c \<Longrightarrow> json_members x db' = json_members x db"
    and "\<exists>ms ms'. json_members c snap = Some ms \<and> set ms' = set add \<union> (if 0 < remove then set ms - {remove} else set ms) \<and>
      json_members c db' = map_option (\<lambda>_. ms') (row_get cv_id (conversations db) c)"
proof -
  obtain new where n: "mutateConvMembers flt c add remove snap = Inr new"
    and db': "db' = db\<lparr>conversations := row_upd (\<lambda>r. cv_id r = c) (\<lambda>r. r\<lparr>cv_members := json_members c new\<rparr>) (conversations db)\<rparr>"
    using assms by (auto simp: mutate_from_def split: sum.splits)
  obtain ms ms' where ms: "json_members c snap = Some ms" "json_members c new = Some ms'"
      "set ms' = set add \<union> (if 0 < remove then set ms - {remove} else set ms)"
    using mutateConvMembers_effect(4) [OF n] by blast
  show "role_of x u db' = role_of x u db" "in_index x u db' = in_index x u db"
    by (simp_all add: db' role_of_def member_row_def in_index_def)
  show "x \<noteq> c \<Longrightarrow> json_members x db' = json_members x db"
    by (simp add: db' json_members_def row_get_upd_conv)
  have "json_members c db' = map_option (\<lambda>_. ms') (row_get cv_id (conversations db) c)"
    using ms(2) by (cases "row_get cv_id (conversations db) c") (simp_all add: db' json_members_def row_get_upd_conv)
  with ms(1,3) show "\<exists>ms ms'. json_members c snap = Some ms \<and>
      set ms' = set add \<union> (if 0 < remove then set ms - {remove} else set ms) \<and>
      json_members c db' = map_option (\<lambda>_. ms') (row_get cv_id (conversations db) c)" by blast
qed

definition members_become :: "conv_id \<Rightarrow> (uid list \<Rightarrow> uid set) \<Rightarrow> meta_db \<Rightarrow> meta_db \<Rightarrow> meta_db \<Rightarrow> bool" where
  \<comment> \<open>the member list of \<open>c\<close> is made from the one in the snapshot, the others are kept\<close>
  "members_become c f snap db db' \<longleftrightarrow>
     (\<forall>x. x \<noteq> c \<longrightarrow> json_members x db' = json_members x db) \<and>
     (json_members c db \<noteq> None \<longrightarrow>
        (\<exists>ms ms'. json_members c snap = Some ms \<and> json_members c db' = Some ms' \<and> set ms' = f ms))"

lemma members_becomeI:
  assumes "mutate_from flt c add remove snap db1 = Inr db'" "conversations db1 = conversations db"
  shows "members_become c (\<lambda>ms. set add \<union> (if 0 < remove then set ms - {remove} else set ms)) snap db db'"
proof -
  note M = mutate_from_effect [OF assms(1)]
  obtain ms ms' where ms: "json_members c snap = Some ms" "set ms' = set add \<union> (if 0 < remove then set ms - {remove} else set ms)"
      "json_members c db' = map_option (\<lambda>_. ms') (row_get cv_id (conversations db1) c)"
    using M(4) by blast
  then have "json_members c db \<noteq> None \<Longrightarrow> json_members c db' = Some ms'"
    using assms(2) by (cases "row_get cv_id (conversations db) c") (simp_all add: json_members_def)
  then show ?thesis using ms(1,2) M(3) json_members_cong [OF assms(2)] by (auto simp: members_become_def)
qed

definition added :: "conv_id \<Rightarrow> uid list \<Rightarrow> uid \<Rightarrow> meta_db \<Rightarrow> meta_db \<Rightarrow> meta_db \<Rightarrow> bool" where
  "added c us ow snap db db' \<longleftrightarrow>
     (\<forall>x v. role_of x v db' = (if x = c \<and> v \<in> set us then Some (case role_of c v db of
          None \<Rightarrow> if member_count c snap = 0 \<and> v = ow then 1 else 0
        | Some r \<Rightarrow> max r (if member_count c snap = 0 \<and> v = ow then 1 else 0)) else role_of x v db)) \<and>
     (\<forall>x v. in_index x v db' \<longleftrightarrow> x = c \<and> v \<in> set us \<or> in_index x v db) \<and>
     members_become c (\<lambda>ms. set us \<union> set ms) snap db db'"

definition left :: "conv_id \<Rightarrow> uid \<Rightarrow> meta_db \<Rightarrow> meta_db \<Rightarrow> meta_db \<Rightarrow> bool" where
  "left c u snap db db' \<longleftrightarrow>
     (\<forall>x v. role_of x v db' = (if (x, v) = (c, u) then None else role_of x v db)) \<and>
     (\<forall>x v. in_index x v db' \<longleftrightarrow> (x, v) \<noteq> (c, u) \<and> in_index x v db) \<and>
     members_become c (\<lambda>ms. if 0 < u then set ms - {u} else set ms) snap db db'"

lemma addedI:
  assumes "add_loop flt 0 (\<lambda>u. if member_count c snap = 0 \<and> u = ow then 1 else 0) now c us db = Inr db1"
    and "mutate_from flt c us 0 snap db1 = Inr db'"
  shows "added c us ow snap db db'"
  using members_becomeI [OF assms(2) add_loop_effect(1) [OF assms(1)]]
  by (simp add: added_def add_loop_effect(2,3) [OF assms(1)] mutate_from_effect(1,2) [OF assms(2)])

lemma leftI: "mutate_from flt c [] u snap (del_member c u db) = Inr db' \<Longrightarrow> left c u snap db db'"
  using members_becomeI [of flt c "[]" u snap "del_member c u db" db' db]
    mutate_from_effect(1,2) [of flt c "[]" u snap "del_member c u db" db']
  by (simp add: left_def)

lemma add_finish_effect:
  assumes "add_finish rf flt now c us ow snap s = (res, s')"
  shows "added c us ow snap (rdb s) (rdb s') \<or> res \<noteq> None \<and> rdb s' = rdb s"
proof (rule disjCI)
  assume no: "\<not> (res \<noteq> None \<and> rdb s' = rdb s)"
  then obtain db1 where
      "add_loop flt 0 (\<lambda>u. if member_count c snap = 0 \<and> u = ow then 1 else 0) now c us (rdb s) = Inr db1"
      "mutate_from flt c us 0 snap db1 = Inr (rdb s')"
    using assms by (auto simp: add_finish_def Let_def commit_def split: sum.splits if_splits option.splits)
  then show "added c us ow snap (rdb s) (rdb s')" by (rule addedI)
qed

lemma leave_finish_effect:
  assumes "leave_finish rf flt op c u snap s = (res, s')"
  shows "left c u snap (rdb s) (rdb s') \<or> res \<noteq> None \<and> rdb s' = rdb s"
proof (rule disjCI)
  assume no: "\<not> (res \<noteq> None \<and> rdb s' = rdb s)"
  obtain s1 where s1: "remove_finish rf flt c u snap s = (res, s1)" "rdb s' = rdb s1"
    using assms by (auto simp: leave_finish_def split: prod.splits option.splits)
  then have "mutate_from flt c [] u snap (del_member c u (rdb s)) = Inr (rdb s')"
    using no by (auto simp: remove_finish_def del_member_def Let_def commit_def split: sum.splits if_splits option.splits)
  then show "left c u snap (rdb s) (rdb s')" by (rule leftI)
qed

subsection \<open>Interleaved group calls\<close>

datatype gflight =   \<comment> \<open>a call in progress\<close>
    Adding conv_id "uid list" uid meta_db
  | Leaving uid conv_id uid            \<comment> \<open>operator and target; the checks have passed\<close>
  | Removing uid conv_id uid meta_db   \<comment> \<open>the transaction has read the member list\<close>

inductive group_conc :: "bool \<Rightarrow> rel \<Rightarrow> rel \<Rightarrow> gflight list \<Rightarrow> bool" for strict s0 where
  start: "group_conc strict s0 s0 []"
| add_read: "group_conc strict s0 s fs \<Longrightarrow> add_begin flt c ow (rdb s) = None \<Longrightarrow>
    group_conc strict s0 s (Adding c us ow (rdb s) # fs)"
| add_write: "group_conc strict s0 s fs \<Longrightarrow> Adding c us ow snap \<in> set fs \<Longrightarrow>
    (strict \<longrightarrow> json_members c snap = json_members c (rdb s)) \<Longrightarrow>
    add_finish rf flt now c us ow snap s = (res, s') \<Longrightarrow> group_conc strict s0 s' (remove1 (Adding c us ow snap) fs)"
| remove_checked: "group_conc strict s0 s fs \<Longrightarrow> 0 < u \<Longrightarrow> remove_check flt op c u (rdb s) = None \<Longrightarrow>
    group_conc strict s0 s (Leaving op c u # fs)"
| quit_checked: "group_conc strict s0 s fs \<Longrightarrow> 0 < u \<Longrightarrow> quit_check flt u c (rdb s) = None \<Longrightarrow>
    group_conc strict s0 s (Leaving u c u # fs)"
| leave_read: "group_conc strict s0 s fs \<Longrightarrow> Leaving op c u \<in> set fs \<Longrightarrow>
    group_conc strict s0 s (Removing op c u (rdb s) # remove1 (Leaving op c u) fs)"
| leave_write: "group_conc strict s0 s fs \<Longrightarrow> Removing op c u snap \<in> set fs \<Longrightarrow>
    (strict \<longrightarrow> json_members c snap = json_members c (rdb s)) \<Longrightarrow>
    leave_finish rf flt op c u snap s = (res, s') \<Longrightarrow> group_conc strict s0 s' (remove1 (Removing op c u snap) fs)"
| info: "group_conc strict s0 s fs \<Longrightarrow> group_conc strict s0 (snd (UpdateGroupInfo rf flt op c name avatar s)) fs"
| crash: "group_conc strict s0 s fs \<Longrightarrow> set gs \<subseteq> set fs \<Longrightarrow> group_conc strict s0 s gs"
  \<comment> \<open>\<open>strict\<close>: nobody else changed the member list of the conversation since the call read it\<close>

definition targets_ok :: "gflight list \<Rightarrow> bool" where
  "targets_ok fs \<longleftrightarrow> (\<forall>f \<in> set fs. case f of Adding _ _ _ _ \<Rightarrow> True | Leaving _ _ u \<Rightarrow> 0 < u | Removing _ _ u _ \<Rightarrow> 0 < u)"

lemma targets_ok_subset: "targets_ok fs \<Longrightarrow> set gs \<subseteq> set fs \<Longrightarrow> targets_ok gs"
  by (auto simp: targets_ok_def)

lemma group_conc_targets: "group_conc strict s0 s fs \<Longrightarrow> targets_ok fs"
proof (induction rule: group_conc.induct)
  case (leave_read s fs op c u)
  then have "0 < u" by (auto simp: targets_ok_def)
  moreover have "targets_ok (remove1 (Leaving op c u) fs)" using leave_read.IH set_remove1_subset by (rule targets_ok_subset)
  ultimately show ?case by (simp add: targets_ok_def)
qed (auto simp: targets_ok_def dest: set_mp [OF set_remove1_subset])

definition rows_agree :: "conv_id \<Rightarrow> meta_db \<Rightarrow> bool" where
  "rows_agree c db \<longleftrightarrow> (\<forall>u. role_of c u db \<noteq> None \<longleftrightarrow> in_index c u db) \<and> json_members c db \<noteq> None"

lemma agree_rows: "agree c db \<Longrightarrow> rows_agree c db"
  by (auto simp: agree_def rows_agree_def)

lemma members_become_some: "members_become c' f snap db db' \<Longrightarrow> json_members c db \<noteq> None \<Longrightarrow> json_members c db' \<noteq> None"
  by (cases "c = c'") (auto simp: members_become_def)

lemma addedD:
  assumes "added c us ow snap db db'"
  shows "role_of x v db' \<noteq> None \<longleftrightarrow> x = c \<and> v \<in> set us \<or> role_of x v db \<noteq> None"
    and "in_index x v db' \<longleftrightarrow> x = c \<and> v \<in> set us \<or> in_index x v db"
    and "members_become c (\<lambda>ms. set us \<union> set ms) snap db db'"
  using assms unfolding added_def by auto

lemma leftD:
  assumes "left c u snap db db'"
  shows "role_of x v db' = (if (x, v) = (c, u) then None else role_of x v db)"
    and "in_index x v db' \<longleftrightarrow> (x, v) \<noteq> (c, u) \<and> in_index x v db"
    and "members_become c (\<lambda>ms. if 0 < u then set ms - {u} else set ms) snap db db'"
  using assms unfolding left_def by blast+

lemma rows_agreeI:
  assumes "rows_agree c db" "members_become c' f snap db db'" "\<And>v. role_of c v db' \<noteq> None \<longleftrightarrow> in_index c v db'"
  shows "rows_agree c db'"
  using assms(1,3) members_become_some [OF assms(2), of c] by (simp add: rows_agree_def)

lemma added_rows:
  assumes "added c' us ow snap db db'" "rows_agree c db"
  shows "rows_agree c db'"
proof (rule rows_agreeI [OF assms(2) addedD(3) [OF assms(1)]])
  show "role_of c v db' \<noteq> None \<longleftrightarrow> in_index c v db'" for v
    using assms(2) unfolding addedD(1,2) [OF assms(1)] rows_agree_def by blast
qed

lemma left_rows:
  assumes "left c' u snap db db'" "rows_agree c db"
  shows "rows_agree c db'"
proof (rule rows_agreeI [OF assms(2) leftD(3) [OF assms(1)]])
  show "role_of c v db' \<noteq> None \<longleftrightarrow> in_index c v db'" for v
    using assms(2) unfolding leftD(1,2) [OF assms(1)] rows_agree_def by auto
qed

lemma agree_members:
  assumes "members_become c' f snap db db'" "agree c db" "json_members c' snap = json_members c' db"
    and "\<And>ms v. json_members c db = Some ms \<Longrightarrow> v \<in> (if c' = c then f ms else set ms) \<longleftrightarrow> role_of c v db' \<noteq> None"
    and "rows_agree c db'"
  shows "agree c db'"
proof -
  obtain ms where ms: "json_members c db = Some ms" using assms(2) by (auto simp: agree_def)
  obtain ms' where "json_members c db' = Some ms'" "set ms' = (if c' = c then f ms else set ms)"
    using assms(1,3) ms by (cases "c' = c") (auto simp: members_become_def)
  then show ?thesis using assms(4) [OF ms] assms(5) by (auto simp: agree_def rows_agree_def)
qed

lemma agreeD: "agree c db \<Longrightarrow> json_members c db = Some ms \<Longrightarrow> v \<in> set ms \<longleftrightarrow> role_of c v db \<noteq> None"
  by (auto simp: agree_def)

lemma added_agree:
  assumes "added c' us ow snap db db'" "agree c db" "json_members c' snap = json_members c' db"
  shows "agree c db'"
proof (rule agree_members [OF addedD(3) [OF assms(1)] assms(2,3)])
  show "rows_agree c db'" by (rule added_rows [OF assms(1) agree_rows [OF assms(2)]])
  show "v \<in> (if c' = c then set us \<union> set ms else set ms) \<longleftrightarrow> role_of c v db' \<noteq> None"
    if "json_members c db = Some ms" for ms v
    using agreeD [OF assms(2) that, of v] unfolding addedD(1) [OF assms(1)] by auto
qed

lemma left_agree:
  assumes "left c' u snap db db'" "agree c db" "0 < u" "json_members c' snap = json_members c' db"
  shows "agree c db'"
proof (rule agree_members [OF leftD(3) [OF assms(1)] assms(2,4)])
  show "rows_agree c db'" by (rule left_rows [OF assms(1) agree_rows [OF assms(2)]])
  show "v \<in> (if c' = c then (if 0 < u then set ms - {u} else set ms) else set ms) \<longleftrightarrow> role_of c v db' \<noteq> None"
    if "json_members c db = Some ms" for ms v
    using agreeD [OF assms(2) that, of v] assms(3) unfolding leftD(1) [OF assms(1)] by auto
qed

lemma UpdateGroupInfo_rows: "rows_agree c (rdb (snd (UpdateGroupInfo rf flt op c' name avatar s))) = rows_agree c (rdb s)"
  by (simp add: rows_agree_def UpdateGroupInfo_effect)

lemma UpdateGroupInfo_agree: "agree c (rdb (snd (UpdateGroupInfo rf flt op c' name avatar s))) = agree c (rdb s)"
  by (simp add: agree_def UpdateGroupInfo_effect)

text \<open>
  C10: What concurrent group calls keep: with any number of additions, removals, departures and renamings
  in progress, each anywhere between its reads and its commit, with any failures and crashes, the
  member rows of a group and the users' conversation index agree, and the member list stays readable.
  As long as no call commits a member list it read before another one changed it, the list agrees with both.
\<close>

theorem interleaved_group_tables:
  assumes "group_conc strict s0 s fs" "agree c (rdb s0)"
  shows "(\<forall>u. role_of c u (rdb s) \<noteq> None \<longleftrightarrow> in_index c u (rdb s)) \<and> json_members c (rdb s) \<noteq> None \<and>
    (strict \<longrightarrow> agree c (rdb s))"
proof -
  have "rows_agree c (rdb s) \<and> (strict \<longrightarrow> agree c (rdb s))"
    using assms
  proof (induction rule: group_conc.induct)
    case (leave_write s fs op c' u snap rf flt res s')
    then have "0 < u" using group_conc_targets by (force simp: targets_ok_def)
    then show ?case using leave_write leave_finish_effect [OF leave_write(4)] left_rows left_agree by metis
  next
    case (add_write s fs c' us ow snap rf flt now res s')
    then show ?case using add_finish_effect [OF add_write(4)] added_rows added_agree by metis
  qed (auto simp: agree_rows UpdateGroupInfo_rows UpdateGroupInfo_agree)
  then show ?thesis by (simp add: rows_agree_def)
qed

definition owner_flight :: "conv_id \<Rightarrow> uid \<Rightarrow> gflight \<Rightarrow> bool" where
  \<comment> \<open>the call does not act on \<open>c\<close> as on a fresh group, and is not about to remove the owner\<close>
  "owner_flight c ow f \<longleftrightarrow> (case f of
       Adding x _ _ snap \<Rightarrow> x = c \<longrightarrow> 0 < member_count c snap
     | Leaving _ x u \<Rightarrow> x = c \<longrightarrow> u \<noteq> ow
     | Removing _ x u _ \<Rightarrow> x = c \<longrightarrow> u \<noteq> ow)"

lemma sole_ownerD: "sole_owner c ow db \<Longrightarrow> role_of c u db = Some 1 \<longleftrightarrow> u = ow"
  by (simp add: sole_owner_def)

lemma sole_owner_count:
  assumes "sole_owner c ow db"
  shows "0 < member_count c db"
proof -
  have "role_of c ow db = Some 1" using sole_ownerD [OF assms] by simp
  then show ?thesis using member_count_0 [of c db] by (cases "member_count c db") auto
qed

lemma remove_checkD: "remove_check flt op c u db = None \<Longrightarrow> op \<noteq> u \<and> role_of c op db = Some 1"
  by (auto simp: remove_check_def dest!: memberRole_eq split: sum.splits if_splits option.splits)

lemma quit_checkD: "quit_check flt u c db = None \<Longrightarrow> role_of c u db \<noteq> Some 1"
  by (auto simp: quit_check_def dest!: memberRole_eq split: sum.splits if_splits option.splits)

lemma checks_spare_owner:
  assumes "sole_owner c ow db"
  shows "remove_check flt op c u db = None \<Longrightarrow> u \<noteq> ow" "quit_check flt u c db = None \<Longrightarrow> u \<noteq> ow"
  using sole_ownerD [OF assms] by (auto dest!: remove_checkD quit_checkD)

lemma added_owner:
  assumes "added c' us ow' snap db db'" "sole_owner c ow db" "c' = c \<longrightarrow> 0 < member_count c snap"
  shows "sole_owner c ow db'"
proof -
  have "role_of c v db' = Some 1 \<longleftrightarrow> v = ow" for v
    using assms(1,3) sole_ownerD [OF assms(2), of v] unfolding added_def
    by (cases "role_of c v db") (auto simp: max_def split: if_splits)
  then show ?thesis by (simp add: sole_owner_def)
qed

lemma left_owner: "left c' u snap db db' \<Longrightarrow> sole_owner c ow db \<Longrightarrow> (c' = c \<longrightarrow> u \<noteq> ow) \<Longrightarrow> sole_owner c ow db'"
  by (auto simp: left_def sole_owner_def)

text \<open>
  C11: Ownership is stable under concurrency too: a group that has exactly one owner when the calls begin
  keeps exactly that owner, whatever they are, however they are interleaved and wherever they fail: checks
  that are out of date when a call commits never promote anybody nor remove the owner.
\<close>

theorem interleaved_group_owner:
  assumes "group_conc strict s0 s fs" "sole_owner c ow (rdb s0)"
  shows "sole_owner c ow (rdb s)"
proof -
  have "sole_owner c ow (rdb s) \<and> (\<forall>f \<in> set fs. owner_flight c ow f)"
    using assms
  proof (induction rule: group_conc.induct)
    case (add_write s fs c' us ow' snap rf flt now res s')
    then have "c' = c \<longrightarrow> 0 < member_count c snap" by (auto simp: owner_flight_def)
    then have "sole_owner c ow (rdb s')" using add_write add_finish_effect [OF add_write(4)] added_owner by metis
    then show ?case using add_write set_remove1_subset by fast
  next
    case (leave_write s fs op c' u snap rf flt res s')
    then have "c' = c \<longrightarrow> u \<noteq> ow" by (auto simp: owner_flight_def)
    then have "sole_owner c ow (rdb s')" using leave_write leave_finish_effect [OF leave_write(4)] left_owner by metis
    then show ?case using leave_write set_remove1_subset by fast
  next
    case (leave_read s fs op c' u)
    then have "owner_flight c ow (Removing op c' u (rdb s))" by (auto simp: owner_flight_def)
    then show ?case using leave_read set_remove1_subset by fastforce
  next
    case info
    then show ?case by (simp add: sole_owner_def UpdateGroupInfo_effect)
  qed (auto simp: owner_flight_def sole_owner_count dest: checks_spare_owner)
  then show ?thesis by blast
qed

subsection \<open>What they lose\<close>

text \<open>
  The member list is read with a plain SELECT and written back whole. Of two additions that both read it
  before either commits, the second to commit drops the members the first added: they have their rows and
  see the group, but senders and deliveries go by the list, so they can neither post nor be reached.
\<close>

lemma concurrent_addition_lost:
  assumes "json_members c (rdb s) = Some ms"
    and "add_finish rf flt now c us ow (rdb s) s = (None, s1)" "add_finish rf2 flt2 now2 c us2 ow2 (rdb s) s1 = (None, s2)"
    and "v \<in> set us" "v \<notin> set us2" "v \<notin> set ms"
  shows "role_of c v (rdb s2) \<noteq> None \<and> in_index c v (rdb s2) \<and> (\<exists>ms'. json_members c (rdb s2) = Some ms' \<and> v \<notin> set ms')"
proof -
  have 1: "added c us ow (rdb s) (rdb s) (rdb s1)" using add_finish_effect [OF assms(2)] by simp
  have 2: "added c us2 ow2 (rdb s) (rdb s1) (rdb s2)" using add_finish_effect [OF assms(3)] by simp
  have "json_members c (rdb s1) \<noteq> None" using members_become_some [OF addedD(3) [OF 1]] assms(1) by simp
  then obtain ms' where "json_members c (rdb s2) = Some ms'" "set ms' = set us2 \<union> set ms"
    using addedD(3) [OF 2] assms(1) by (auto simp: members_become_def)
  moreover have "role_of c v (rdb s2) \<noteq> None"
    using addedD(1) [OF 1, of c v] addedD(1) [OF 2, of c v] assms(4) by simp
  ultimately show ?thesis using assms(4-6) by (simp add: addedD(2) [OF 1] addedD(2) [OF 2])
qed

text \<open>
  And an addition that read the list before a removal commits puts the removed member back into it: he has no
  row any more and does not see the group, but may go on posting and is still delivered to.
\<close>

lemma concurrent_removal_undone:
  assumes "json_members c (rdb s) = Some ms" "u \<in> set ms"
    and "leave_finish rf flt op c u snap s = (None, s1)" "add_finish rf2 flt2 now c us ow (rdb s) s1 = (None, s2)" "u \<notin> set us"
  shows "role_of c u (rdb s2) = None \<and> \<not> in_index c u (rdb s2) \<and> (\<exists>ms'. json_members c (rdb s2) = Some ms' \<and> u \<in> set ms')"
proof -
  have 1: "left c u snap (rdb s) (rdb s1)" using leave_finish_effect [OF assms(3)] by simp
  have 2: "added c us ow (rdb s) (rdb s1) (rdb s2)" using add_finish_effect [OF assms(4)] by simp
  have "json_members c (rdb s1) \<noteq> None" using members_become_some [OF leftD(3) [OF 1]] assms(1) by simp
  then obtain ms' where "json_members c (rdb s2) = Some ms'" "set ms' = set us \<union> set ms"
    using addedD(3) [OF 2] assms(1) by (auto simp: members_become_def)
  moreover have "role_of c u (rdb s2) = None"
    using addedD(1) [OF 2, of c u] leftD(1) [OF 1, of c u] assms(5) by simp
  ultimately show ?thesis using assms(2,5) by (simp add: leftD(2) [OF 1] addedD(2) [OF 2])
qed

lemma add_finish_ok:
  assumes "json_members c snap = Some ms" "0 < member_count c snap"
  shows "\<exists>s'. add_finish rf no_fault now c us ow snap s = (None, s')"
proof -
  let ?role = "\<lambda>u. if member_count c snap = 0 \<and> u = ow then 1 else 0"
  obtain db1 where "add_loop no_fault 0 ?role now c us (rdb s) = Inr db1" using add_loop_ok by blast
  moreover obtain new where "mutateConvMembers no_fault c us 0 snap = Inr new" using mutateConvMembers_ok [OF assms(1)] by blast
  ultimately show ?thesis using assms(2) by (simp add: add_finish_def mutate_from_def commit_def)
qed

lemma leave_finish_ok:
  assumes "json_members c snap = Some ms"
  shows "\<exists>s'. leave_finish rf no_fault op c u snap s = (None, s')"
proof -
  obtain new where "mutateConvMembers no_fault c [] u snap = Inr new" using mutateConvMembers_ok [OF assms] by blast
  then show ?thesis by (simp add: leave_finish_def remove_finish_def mutate_from_def commit_def Let_def)
qed

abbreviation seeded_db :: meta_db where
  "seeded_db \<equiv> rdb group_seeded"

lemma seeded_facts:
  "json_members 7 seeded_db = Some [1, 2]" "member_count 7 seeded_db = 2"
  "add_begin no_fault 7 1 seeded_db = None" "remove_check no_fault 1 7 2 seeded_db = None" "quit_check no_fault 2 7 seeded_db = None"
  by (simp_all add: json_members_def member_count_def add_begin_def remove_check_def quit_check_def memberRole_def isMember_def
      member_row_def gm_key_def group_seeded_def group_db_def empty_meta_def group_rel_def)

text \<open>Two additions that overlap, the second of which drops the member of the first.\<close>

lemma interleaved_group_tables_witness:
  "\<exists>s ms. group_conc False group_seeded s [] \<and> role_of 7 3 (rdb s) \<noteq> None \<and> in_index 7 3 (rdb s) \<and>
    json_members 7 (rdb s) = Some ms \<and> 3 \<notin> set ms"
proof -
  let ?a = "Adding 7 [3] 1 seeded_db" and ?b = "Adding 7 [4] 1 seeded_db"
  obtain s1 where s1: "add_finish redis_up no_fault 5 7 [3] 1 seeded_db group_seeded = (None, s1)"
    using add_finish_ok [OF seeded_facts(1)] seeded_facts(2) by (metis zero_less_numeral)
  obtain s2 where s2: "add_finish redis_up no_fault 6 7 [4] 1 seeded_db s1 = (None, s2)"
    using add_finish_ok [OF seeded_facts(1)] seeded_facts(2) by (metis zero_less_numeral)
  have "group_conc False group_seeded group_seeded [?b, ?a]"
    by (intro group_conc.add_read group_conc.start) (rule seeded_facts(3))+
  from group_conc.add_write [OF this _ _ s1] have "group_conc False group_seeded s1 [?b]" by simp
  from group_conc.add_write [OF this _ _ s2] have run: "group_conc False group_seeded s2 []" by simp
  note lost = concurrent_addition_lost [OF seeded_facts(1) s1 s2, of 3]
  show ?thesis using interleaved_group_tables [OF run group_seeded_facts(1)] lost run by auto
qed

text \<open>A member leaves while the owner removes him.\<close>

lemma interleaved_group_owner_witness:
  "\<exists>s. group_conc False group_seeded s [Removing 1 7 2 seeded_db] \<and> sole_owner 7 1 (rdb s) \<and> role_of 7 2 (rdb s) = None"
proof -
  let ?q = "Leaving 2 7 2" and ?r = "Leaving 1 7 2"
  obtain s1 where s1: "leave_finish redis_up no_fault 2 7 2 seeded_db group_seeded = (None, s1)"
    using leave_finish_ok [OF seeded_facts(1)] by blast
  have "group_conc False group_seeded group_seeded [?q]"
    by (rule group_conc.quit_checked [OF group_conc.start _ seeded_facts(5)]) simp
  then have "group_conc False group_seeded group_seeded [?r, ?q]"
    by (rule group_conc.remove_checked [OF _ _ seeded_facts(4)]) simp
  from group_conc.leave_read [OF this, of 2 7 2] have "group_conc False group_seeded group_seeded [Removing 2 7 2 seeded_db, ?r]" by simp
  from group_conc.leave_read [OF this, of 1 7 2]
  have "group_conc False group_seeded group_seeded [Removing 1 7 2 seeded_db, Removing 2 7 2 seeded_db]" by simp
  from group_conc.leave_write [OF this _ _ s1] have run: "group_conc False group_seeded s1 [Removing 1 7 2 seeded_db]" by simp
  have "left 7 2 seeded_db seeded_db (rdb s1)" using leave_finish_effect [OF s1] by simp
  then show ?thesis using interleaved_group_owner [OF run group_seeded_facts(2)] run leftD(1) by auto
qed

subsection \<open>Interleaved friendship calls\<close>

definition send_check :: "ffaults \<Rightarrow> uid \<Rightarrow> uid \<Rightarrow> meta_db \<Rightarrow> yim_error + bool" where
  \<comment> \<open>the reads of \<open>SendFriendRequest\<close>: an answer, or whether the other's request is pending\<close>
  "send_check flt fromUID toUID db =
     (if fromUID = toUID then Inl (invalid ''cannot add yourself'')
      else case isFriend flt fromUID toUID db of
          Inl e \<Rightarrow> Inl (invalid e)
        | Inr True \<Rightarrow> Inl (bizErr CodeAlreadyFriends)
        | Inr False \<Rightarrow> Inr (flt QReverse = None \<and> req_status toUID fromUID db = Some 0))"

definition send_write :: "ffaults \<Rightarrow> int \<Rightarrow> uid \<Rightarrow> uid \<Rightarrow> string \<Rightarrow> bool \<Rightarrow> rel \<Rightarrow> yim_error option \<times> rel" where
  "send_write flt now fromUID toUID message merge s =
     (if merge then HandleFriendRequest flt now toUID fromUID True s
      else (case flt WRequest of
          Some e \<Rightarrow> (Some (invalid e), s)
        | None \<Rightarrow> (None, Emit EvFriendRequest fromUID 0 [toUID]
            (s\<lparr>rdb := upsert_request fromUID toUID message now (rdb s)\<rparr>))))"

lemma SendFriendRequest_parts: "SendFriendRequest flt now a b m s =
    (case send_check flt a b (rdb s) of Inl e \<Rightarrow> (Some e, s) | Inr merge \<Rightarrow> send_write flt now a b m merge s)"
  unfolding SendFriendRequest_def send_check_def send_write_def
  by (cases "isFriend flt a b (rdb s)") (auto split: bool.split)

inductive friend_conc :: "rel \<Rightarrow> rel \<Rightarrow> (uid \<times> uid \<times> bool) list \<Rightarrow> bool" for s0 where
  start: "friend_conc s0 s0 []"
| check: "friend_conc s0 s fs \<Longrightarrow> send_check flt a b (rdb s) = Inr merge \<Longrightarrow> friend_conc s0 s ((a, b, merge) # fs)"
| put: "friend_conc s0 s fs \<Longrightarrow> (a, b, merge) \<in> set fs \<Longrightarrow> send_write flt now a b m merge s = (res, s') \<Longrightarrow>
    friend_conc s0 s' (remove1 (a, b, merge) fs)"
| handle: "friend_conc s0 s fs \<Longrightarrow> friend_conc s0 (snd (HandleFriendRequest flt now a b acc s)) fs"
  \<comment> \<open>one transaction, which locks the request it reads\<close>
| delete: "friend_conc s0 s fs \<Longrightarrow> friend_conc s0 (snd (DeleteFriend flt a b s)) fs"
| crash: "friend_conc s0 s fs \<Longrightarrow> set gs \<subseteq> set fs \<Longrightarrow> friend_conc s0 s gs"

lemma send_write_inv:
  assumes "send_write flt now a b m merge s = (res, s')" "friends_inv (rdb s)" "a \<noteq> b"
  shows "friends_inv (rdb s')"
  using assms(1) handle_friends_inv [OF assms(2), of flt now b a True] upsert_request_inv [OF assms(2,3), of m now] assms(2)
  by (auto simp: send_write_def Emit_def split: if_splits option.splits)

text \<open>
  C12: Whatever friendship calls run at the same time, with requests that go by checks that are out of date,
  any failures, lost replies and crashes, the friendship table stays symmetric and irreflexive, keeps unique
  keys, and holds no friendship without consent: behind each there is a request between the two
  that was accepted.
\<close>

theorem interleaved_friendships:
  assumes "friend_conc s0 s fs" "friends_inv (rdb s0)"
  shows "friends_inv (rdb s)"
proof -
  have "friends_inv (rdb s) \<and> (\<forall>(a, b, m) \<in> set fs. a \<noteq> b)"
    using assms
  proof (induction rule: friend_conc.induct)
    case (put s fs a b merge flt now m res s')
    then have "a \<noteq> b" by auto
    then show ?case using put send_write_inv [OF put(3)] set_remove1_subset by fast
  qed (auto simp: handle_friends_inv delete_friends_inv send_check_def split: if_splits)
  then show ?thesis by blast
qed

text \<open>Requests that cross: each check sees none of the other, and both are stored as pending.\<close>

lemma interleaved_friendships_witness:
  "\<exists>s. friend_conc rel0 s [] \<and> friends_inv (rdb s) \<and> req_status 10 20 (rdb s) = Some 0 \<and> req_status 20 10 (rdb s) = Some 0"
proof -
  let ?s1 = "snd (send_write no_fault 1 10 20 ''hi'' False rel0)"
  let ?s2 = "snd (send_write no_fault 2 20 10 ''hi'' False ?s1)"
  have ck: "send_check no_fault a b empty_meta = Inr False" if "a \<noteq> b" for a b
    using that by (simp add: send_check_def isFriend_def empty_meta_def req_status_def request_row_def)
  have none: "req_status a b empty_meta = None" for a b by (simp add: empty_meta_def req_status_def request_row_def)
  have "friend_conc rel0 rel0 [(20, 10, False), (10, 20, False)]"
    using friend_conc.check [OF friend_conc.check [OF friend_conc.start], of no_fault 10 20 rel0 False no_fault 20 10 False]
    by (simp add: ck)
  from friend_conc.put [OF this, of 10 20 False] have "friend_conc rel0 ?s1 [(20, 10, False)]" by simp (metis prod.collapse)
  from friend_conc.put [OF this, of 20 10 False] have run: "friend_conc rel0 ?s2 []" by simp (metis prod.collapse)
  have "req_status 10 20 (rdb ?s2) = Some 0 \<and> req_status 20 10 (rdb ?s2) = Some 0"
    using none by (simp add: send_write_def Emit_def)
  then show ?thesis using interleaved_friendships [OF run] run by auto
qed

end
