(* ===== verification/Bench.thy ===== *)
theory Bench
  imports Conversations DeliverySafety "HOL-Library.Signed_Division" "HOL-Library.Multiset"
begin

text \<open>
  The load generator \<open>cmd/yim-bench/main.go\<close>, which is a client of the whole system: how it acknowledges
  pushes in batches, how it pairs replies with pushes to measure latencies, how it paces its
  sends and how it reports. The acknowledgements are composed with the pending pushes they cancel at
  the deliverer.
\<close>

subsection \<open>Acknowledging in batches\<close>

record ackBatcher =
  ab_seen :: "conv_id \<Rightarrow> bool"
  ab_wm :: "conv_id \<Rightarrow> int"
  ab_stash :: "conv_id \<Rightarrow> int list"   \<comment> \<open>numbers above the watermark; the empty list is a missing entry\<close>
  ab_dirty :: "conv_id list"

definition newAckBatcher :: ackBatcher where
  "newAckBatcher = \<lparr>ab_seen = (\<lambda>_. False), ab_wm = (\<lambda>_. 0), ab_stash = (\<lambda>_. []), ab_dirty = []\<rparr>"

function fill_gap :: "int \<Rightarrow> int list \<Rightarrow> int \<times> int list" where
  \<comment> \<open>the inner loop of \<open>observe\<close>: the watermark climbs over what is stashed\<close>
  "fill_gap wm g = (if wm + 1 \<in> set g then fill_gap (wm + 1) (removeAll (wm + 1) g) else (wm, g))"
  by auto

termination
  by (relation "measure (\<lambda>(_, g). length g)") (auto simp: length_removeAll_less)

declare fill_gap.simps [simp del]

definition observe :: "conv_id \<Rightarrow> int \<Rightarrow> ackBatcher \<Rightarrow> bool \<times> ackBatcher" where
  \<comment> \<open>whether it is the first push of the conversation\<close>
  "observe c q ab =
     (if \<not> ab_seen ab c then (True, ab\<lparr>ab_seen := (ab_seen ab)(c := True), ab_wm := (ab_wm ab)(c := q)\<rparr>)
      else if q \<le> ab_wm ab c then (False, ab)
      else if q = ab_wm ab c + 1 then
        (let (wm, g) = fill_gap q (ab_stash ab c)
         in (False, ab\<lparr>ab_wm := (ab_wm ab)(c := wm), ab_stash := (ab_stash ab)(c := g),
               ab_dirty := List.insert c (ab_dirty ab)\<rparr>))
      else (False, ab\<lparr>ab_stash := (ab_stash ab)(c := List.insert q (ab_stash ab c))\<rparr>))"

type_synonym ack_frame = "conv_id \<times> int"

definition sendWatermark :: "conv_id \<Rightarrow> ackBatcher \<Rightarrow> ack_frame" where
  "sendWatermark c ab = (c, ab_wm ab c)"

definition flushAll :: "ackBatcher \<Rightarrow> ack_frame list \<times> ackBatcher" where
  \<comment> \<open>the frames in some order\<close>
  "flushAll ab = (map (\<lambda>c. (c, ab_wm ab c)) (ab_dirty ab), ab\<lparr>ab_dirty := []\<rparr>)"

datatype client_event = Pushed conv_id int | Flush

fun client_step :: "client_event \<Rightarrow> ackBatcher \<times> ack_frame list \<Rightarrow> ackBatcher \<times> ack_frame list" where
  \<comment> \<open>\<open>reader\<close> and \<open>flusher\<close>, with the frames they wrote\<close>
  "client_step (Pushed c q) (ab, out) =
     (let (first, ab') = observe c q ab in (ab', if first then out @ [sendWatermark c ab'] else out))"
| "client_step Flush (ab, out) = (let (fs, ab') = flushAll ab in (ab', out @ fs))"

definition client_run :: "client_event list \<Rightarrow> ackBatcher \<times> ack_frame list" where
  "client_run es = fold client_step es (newAckBatcher, [])"

subsection \<open>What the watermark is\<close>

definition received :: "client_event list \<Rightarrow> conv_id \<Rightarrow> int list" where
  \<comment> \<open>the numbers pushed for a conversation, in order\<close>
  "received es c = concat (map (\<lambda>e. case e of Pushed x q \<Rightarrow> if x = c then [q] else [] | Flush \<Rightarrow> []) es)"

definition run_top :: "int list \<Rightarrow> int \<Rightarrow> bool" where
  \<comment> \<open>the run of numbers that starts with the first one received ends there\<close>
  "run_top qs w \<longleftrightarrow> qs \<noteq> [] \<and> hd qs \<le> w \<and> (\<forall>r. hd qs \<le> r \<longrightarrow> r \<le> w \<longrightarrow> r \<in> set qs) \<and> w + 1 \<notin> set qs"

lemma fill_gap_effect:
  assumes "fill_gap wm g = (wm', g')" "\<forall>x \<in> set g. wm < x"
  shows "wm \<le> wm' \<and> (\<forall>r. wm < r \<longrightarrow> r \<le> wm' \<longrightarrow> r \<in> set g) \<and> wm' + 1 \<notin> set g \<and> set g' = {x \<in> set g. wm' < x}"
  using assms
proof (induction wm g arbitrary: wm' g' rule: fill_gap.induct)
  case (1 wm g)
  show ?case
  proof (cases "wm + 1 \<in> set g")
    case True
    then have r: "fill_gap (wm + 1) (removeAll (wm + 1) g) = (wm', g')" using 1(2) by (simp add: fill_gap.simps [of wm])
    have "\<forall>x \<in> set (removeAll (wm + 1) g). wm + 1 < x" using 1(3) by (auto simp: less_le)
    from 1(1) [OF True r this]
    have IH: "wm + 1 \<le> wm'" "\<forall>r. wm + 1 < r \<longrightarrow> r \<le> wm' \<longrightarrow> r \<in> set g" "wm' + 1 \<notin> set g" "set g' = {x \<in> set g. wm' < x}"
      by auto
    have "r \<in> set g" if "wm < r" "r \<le> wm'" for r
      using IH(2) True that by (cases "r = wm + 1") auto
    then show ?thesis using IH by auto
  next
    case False
    then show ?thesis using 1(2,3) by (auto simp: fill_gap.simps [of wm])
  qed
qed

definition batcher_ok :: "(conv_id \<Rightarrow> int list) \<Rightarrow> ackBatcher \<Rightarrow> bool" where
  \<comment> \<open>the batcher after these numbers were received\<close>
  "batcher_ok qs ab \<longleftrightarrow> (\<forall>c. ab_seen ab c = (qs c \<noteq> []) \<and>
     (if qs c = [] then ab_stash ab c = [] else run_top (qs c) (ab_wm ab c) \<and> set (ab_stash ab c) = {r \<in> set (qs c). ab_wm ab c < r}))"

lemma run_top_unique: "run_top qs v \<Longrightarrow> run_top qs w \<Longrightarrow> v = w"
proof (rule ccontr)
  assume v: "run_top qs v" and w: "run_top qs w" and "v \<noteq> w"
  then consider "v < w" | "w < v" by linarith
  then show False
  proof cases
    case 1
    then have "v + 1 \<in> set qs" using v w by (auto simp: run_top_def)
    then show False using v by (simp add: run_top_def)
  next
    case 2
    then have "w + 1 \<in> set qs" using v w by (auto simp: run_top_def)
    then show False using w by (simp add: run_top_def)
  qed
qed

lemma run_top_above: "run_top qs w \<Longrightarrow> hd qs \<le> q \<Longrightarrow> w < q \<longleftrightarrow> (\<exists>r. hd qs \<le> r \<and> r \<le> q \<and> r \<notin> set qs)"
proof
  assume "run_top qs w" "w < q"
  then show "\<exists>r. hd qs \<le> r \<and> r \<le> q \<and> r \<notin> set qs" by (intro exI [of _ "w + 1"]) (simp add: run_top_def)
next
  assume "run_top qs w" "\<exists>r. hd qs \<le> r \<and> r \<le> q \<and> r \<notin> set qs"
  then show "w < q" unfolding run_top_def by (metis not_less order_trans)
qed

lemma run_top_upto:
  assumes "run_top qs w"
  shows "q \<le> w \<longleftrightarrow> (\<forall>r. hd qs \<le> r \<longrightarrow> r \<le> q \<longrightarrow> r \<in> set qs)"
proof (cases "hd qs \<le> q")
  case True
  then show ?thesis using run_top_above [OF assms True] by (auto simp: not_le [symmetric])
next
  case False
  then have "q \<le> w" using assms by (simp add: run_top_def)
  then show ?thesis using False by simp
qed

lemma observe_ok:
  assumes "batcher_ok qs ab" "observe c q ab = (first, ab')"
  shows "batcher_ok (qs(c := qs c @ [q])) ab'" and "first = (qs c = [])"
proof -
  have c: "ab_seen ab c = (qs c \<noteq> [])" using assms(1) by (simp add: batcher_ok_def)
  then show "first = (qs c = [])" using assms(2) by (auto simp: observe_def Let_def split: if_splits prod.splits)
  have other: "ab_seen ab' x = ab_seen ab x \<and> ab_wm ab' x = ab_wm ab x \<and> ab_stash ab' x = ab_stash ab x" if "x \<noteq> c" for x
    using assms(2) that by (auto simp: observe_def Let_def split: if_splits prod.splits)
  have "ab_seen ab' c \<and> run_top (qs c @ [q]) (ab_wm ab' c) \<and> set (ab_stash ab' c) = {r \<in> set (qs c @ [q]). ab_wm ab' c < r}"
  proof (cases "qs c = []")
    case True
    then have "ab_stash ab c = []" using assms(1) by (simp add: batcher_ok_def)
    then show ?thesis using True c assms(2) by (auto simp: observe_def run_top_def)
  next
    case False
    then have top: "run_top (qs c) (ab_wm ab c)" and st: "set (ab_stash ab c) = {r \<in> set (qs c). ab_wm ab c < r}"
      using assms(1) by (auto simp: batcher_ok_def)
    have h: "hd (qs c @ [q]) = hd (qs c)" using False by simp
    consider "q \<le> ab_wm ab c" | "q = ab_wm ab c + 1" | "ab_wm ab c + 1 < q" by linarith
    then show ?thesis
    proof cases
      case 1
      then show ?thesis using c False assms(2) top st by (auto simp: observe_def run_top_def)
    next
      case 2
      obtain wm g where f: "fill_gap q (ab_stash ab c) = (wm, g)" by force
      have "\<forall>x \<in> set (ab_stash ab c). q < x"
        using st top 2 by (auto simp: run_top_def less_le)
      note F = fill_gap_effect [OF f this]
      have "ab' = ab\<lparr>ab_wm := (ab_wm ab)(c := wm), ab_stash := (ab_stash ab)(c := g), ab_dirty := List.insert c (ab_dirty ab)\<rparr>"
        using c False assms(2) 2 f by (simp add: observe_def)
      moreover have "run_top (qs c @ [q]) wm"
        unfolding run_top_def h
      proof (intro conjI allI impI)
        fix r assume "hd (qs c) \<le> r" "r \<le> wm"
        then show "r \<in> set (qs c @ [q])" using F top 2 st unfolding run_top_def by (cases "r \<le> ab_wm ab c"; cases "r = q") auto
      qed (use F top 2 st False in \<open>auto simp: run_top_def\<close>)
      moreover have "set g = {r \<in> set (qs c @ [q]). wm < r}" using F st 2 by auto
      ultimately show ?thesis using c False by simp
    next
      case 3
      then show ?thesis using c False assms(2) top st by (auto simp: observe_def run_top_def)
    qed
  qed
  then show "batcher_ok (qs(c := qs c @ [q])) ab'"
    using assms(1) other by (auto simp: batcher_ok_def)
qed

lemma received_simps [simp]: "received [] c = []" "received (es @ [Flush]) c = received es c"
  "received (es @ [Pushed x q]) c = received es c @ (if x = c then [q] else [])"
  by (simp_all add: received_def)

lemma received_fun: "received (es @ [Flush]) = received es"
  "received (es @ [Pushed c q]) = (received es)(c := received es c @ [q])"
  by auto

definition frames_ok :: "(conv_id \<Rightarrow> int list) \<Rightarrow> ackBatcher \<times> ack_frame list \<Rightarrow> bool" where
  \<comment> \<open>a frame covers only numbers received, and a clean conversation has reported its watermark\<close>
  "frames_ok qs st \<longleftrightarrow>
     (\<forall>(c, w) \<in> set (snd st). qs c \<noteq> [] \<and> hd (qs c) \<le> w \<and> {hd (qs c)..w} \<subseteq> set (qs c)) \<and>
     (\<forall>c. qs c \<noteq> [] \<longrightarrow> c \<notin> set (ab_dirty (fst st)) \<longrightarrow> (c, ab_wm (fst st) c) \<in> set (snd st)) \<and>
     (\<forall>c \<in> set (ab_dirty (fst st)). qs c \<noteq> [])"

lemma run_top_covers: "run_top qs w \<Longrightarrow> {hd qs..w} \<subseteq> set qs"
  by (auto simp: run_top_def)

lemma frame_below_top: "run_top qs v \<Longrightarrow> hd qs \<le> w \<Longrightarrow> {hd qs..w} \<subseteq> set qs \<Longrightarrow> w \<le> v"
  using run_top_above [of qs v w] by (metis atLeastAtMost_iff not_le subsetD)

lemma frames_ok_grow:
  \<comment> \<open>one more number: the old frames still cover only received numbers\<close>
  assumes "qs c \<noteq> [] \<and> hd (qs c) \<le> w \<and> {hd (qs c)..w} \<subseteq> set (qs c)"
  shows "(qs(x := qs x @ [q])) c \<noteq> [] \<and> hd ((qs(x := qs x @ [q])) c) \<le> w \<and> {hd ((qs(x := qs x @ [q])) c)..w} \<subseteq> set ((qs(x := qs x @ [q])) c)"
  using assms by auto

lemma observe_frame:
  assumes "observe c q ab = (first, ab')"
  shows "x \<noteq> c \<Longrightarrow> ab_wm ab' x = ab_wm ab x"
    and "set (ab_dirty ab') = set (ab_dirty ab) \<or> c \<in> set (ab_dirty ab') \<and> ab_seen ab c \<and> set (ab_dirty ab') = insert c (set (ab_dirty ab))"
    and "ab_seen ab c \<Longrightarrow> c \<notin> set (ab_dirty ab') \<Longrightarrow> ab_wm ab' c = ab_wm ab c"
    and "\<not> ab_seen ab c \<Longrightarrow> ab_dirty ab' = ab_dirty ab"
  using assms by (auto simp: observe_def Let_def split: if_splits prod.splits)

lemma frames_ok_push:
  assumes ok: "batcher_ok qs ab" and fr: "frames_ok qs (ab, out)"
  shows "frames_ok (qs(c := qs c @ [q])) (client_step (Pushed c q) (ab, out))"
proof -
  obtain first ab' where o: "observe c q ab = (first, ab')" by force
  define qs' where "qs' = qs(c := qs c @ [q])"
  note O = observe_ok [OF ok o] and F = observe_frame [OF o]
  have top: "run_top (qs' c) (ab_wm ab' c)" using O(1) by (auto simp: batcher_ok_def qs'_def split: if_splits)
  have seen: "ab_seen ab c \<longleftrightarrow> \<not> first" using ok O(2) by (simp add: batcher_ok_def)
  have old: "\<forall>(x, w) \<in> set out. qs' x \<noteq> [] \<and> hd (qs' x) \<le> w \<and> {hd (qs' x)..w} \<subseteq> set (qs' x)"
    using fr unfolding frames_ok_def qs'_def by (auto intro!: frames_ok_grow simp del: fun_upd_apply)
  have new: "qs' c \<noteq> [] \<and> hd (qs' c) \<le> ab_wm ab' c \<and> {hd (qs' c)..ab_wm ab' c} \<subseteq> set (qs' c)"
    using top run_top_covers [OF top] by (simp add: run_top_def)
  have sent: "(x, ab_wm ab' x) \<in> set (snd (client_step (Pushed c q) (ab, out)))"
    if x: "qs' x \<noteq> []" "x \<notin> set (ab_dirty ab')" for x
  proof (cases "x = c \<and> first")
    case True
    then show ?thesis using o by (simp add: sendWatermark_def)
  next
    case False
    have "ab_wm ab' x = ab_wm ab x" using False F(1,3) seen x(2) by (cases "x = c") auto
    moreover have "qs x \<noteq> []" using False x(1) O(2) by (cases "x = c") (auto simp: qs'_def)
    moreover have "x \<notin> set (ab_dirty ab)" using F(2) x(2) by auto
    ultimately show ?thesis using fr o by (auto simp: frames_ok_def)
  qed
  have dirty: "\<forall>x \<in> set (ab_dirty ab'). qs' x \<noteq> []" using F(2) fr by (auto simp: frames_ok_def qs'_def)
  show ?thesis using old new sent dirty o unfolding frames_ok_def qs'_def [symmetric]
    by (auto simp: sendWatermark_def split: if_splits)
qed

lemma frames_ok_flush:
  assumes "batcher_ok qs ab" "frames_ok qs (ab, out)"
  shows "frames_ok qs (client_step Flush (ab, out)) \<and> batcher_ok qs (fst (client_step Flush (ab, out)))"
proof -
  have "qs c \<noteq> [] \<and> hd (qs c) \<le> ab_wm ab c \<and> {hd (qs c)..ab_wm ab c} \<subseteq> set (qs c)" if "c \<in> set (ab_dirty ab)" for c
  proof -
    have "qs c \<noteq> []" using assms(2) that by (simp add: frames_ok_def)
    then have "run_top (qs c) (ab_wm ab c)" using assms(1) by (auto simp: batcher_ok_def split: if_splits)
    then show ?thesis using run_top_covers by (auto simp: run_top_def)
  qed
  then show ?thesis using assms unfolding frames_ok_def batcher_ok_def by (auto simp: flushAll_def)
qed

lemma client_run_ok: "batcher_ok (received es) (fst (client_run es)) \<and> frames_ok (received es) (client_run es)"
proof (induction es rule: rev_induct)
  case Nil
  then show ?case by (simp add: client_run_def batcher_ok_def frames_ok_def newAckBatcher_def)
next
  case (snoc e es)
  obtain ab out where r: "client_run es = (ab, out)" by force
  have step: "client_run (es @ [e]) = client_step e (ab, out)" using r by (simp add: client_run_def)
  have ok: "batcher_ok (received es) ab" "frames_ok (received es) (ab, out)" using snoc r by simp_all
  show ?case
  proof (cases e)
    case (Pushed c q)
    obtain first ab' where o: "observe c q ab = (first, ab')" by force
    have "fst (client_step (Pushed c q) (ab, out)) = ab'" using o by simp
    then show ?thesis using observe_ok(1) [OF ok(1) o] frames_ok_push [OF ok, of c q] step unfolding Pushed received_fun by (simp del: fun_upd_apply client_step.simps)
  next
    case Flush
    show ?thesis using frames_ok_flush [OF ok] step unfolding Flush received_fun by simp
  qed
qed

lemma flush_cleans: "ab_dirty (fst (client_run (es @ [Flush]))) = []"
  by (cases "client_run es") (simp add: client_run_def flushAll_def)

subsection \<open>The frames at the deliverer\<close>

definition apply_acks :: "uid \<Rightarrow> ack_frame list \<Rightarrow> deliverer \<Rightarrow> deliverer" where
  \<comment> \<open>every frame reaches \<open>AckPush\<close>\<close>
  "apply_acks u fs s = fold (\<lambda>(c, w). AckPush u c w) fs s"

lemma apply_acks_pending: "x \<in> set (vpend (apply_acks u fs s) (v, c)) \<longleftrightarrow>
    x \<in> set (vpend s (v, c)) \<and> (v = u \<longrightarrow> (\<forall>(d, w) \<in> set fs. d = c \<longrightarrow> w < fst x))"
proof (induction fs arbitrary: s)
  case Nil
  then show ?case by (simp add: apply_acks_def)
next
  case (Cons f fs)
  obtain d w where f: "f = (d, w)" by force
  have step: "apply_acks u (f # fs) s = apply_acks u fs (AckPush u d w s)" by (simp add: apply_acks_def f)
  have "x \<in> set (vpend (AckPush u d w s) (v, c)) \<longleftrightarrow> x \<in> set (vpend s (v, c)) \<and> (v = u \<longrightarrow> d = c \<longrightarrow> w < fst x)"
    by (auto simp: AckPush_def ack_def)
  then show ?case unfolding step Cons.IH [of "AckPush u d w s"] by (auto simp: f)
qed

lemma acknowledged_iff: "(\<exists>w. (c, w) \<in> set (snd (client_run (es @ [Flush]))) \<and> q \<le> w) \<longleftrightarrow>
    received es c \<noteq> [] \<and> (\<forall>r. hd (received es c) \<le> r \<longrightarrow> r \<le> q \<longrightarrow> r \<in> set (received es c))"
proof -
  obtain ab out where r: "client_run (es @ [Flush]) = (ab, out)" by force
  have ok: "batcher_ok (received es) ab" and fr: "frames_ok (received es) (ab, out)" and clean: "ab_dirty ab = []"
    using client_run_ok [of "es @ [Flush]"] flush_cleans [of es] unfolding r received_fun by simp_all
  show ?thesis
  proof (cases "received es c = []")
    case True
    then show ?thesis using fr r by (auto simp: frames_ok_def)
  next
    case False
    then have top: "run_top (received es c) (ab_wm ab c)" and sent: "(c, ab_wm ab c) \<in> set out"
      using ok fr clean by (auto simp: batcher_ok_def frames_ok_def split: if_splits)
    have "w \<le> ab_wm ab c" if "(c, w) \<in> set out" for w
      using fr that frame_below_top [OF top, of w] by (auto simp: frames_ok_def)
    then have "(\<exists>w. (c, w) \<in> set out \<and> q \<le> w) \<longleftrightarrow> q \<le> ab_wm ab c"
      using sent by (meson order_trans)
    also have "\<dots> \<longleftrightarrow> (\<forall>r. hd (received es c) \<le> r \<longrightarrow> r \<le> q \<longrightarrow> r \<in> set (received es c))"
      by (rule run_top_upto [OF top])
    finally show ?thesis using False r by simp
  qed
qed

text \<open>C28: The benchmark's batched acknowledgements cancel a push exactly when every
  number from the first one received in its conversation up to it has arrived. Let a client of
  user u see any sequence of pushes and flushes that ends with a flush, and let every frame it
  wrote reach \<open>AckPush\<close>. Then a push of conversation c with number q stays pending exactly
  if it was pending and either nothing of c was received, or some number between the first number
  received in c and q was not. Pushes of other users stay untouched. (So numbers below the first one
  received are cancelled as well: \<open>seeding_acknowledges_unreceived\<close>.)\<close>

theorem batched_acks_cancel_received_runs:
  "x \<in> set (vpend (apply_acks u (snd (client_run (es @ [Flush]))) s) (v, c)) \<longleftrightarrow>
     x \<in> set (vpend s (v, c)) \<and>
     (v \<noteq> u \<or> received es c = [] \<or> (\<exists>r \<ge> hd (received es c). r \<le> fst x \<and> r \<notin> set (received es c)))"
proof -
  have "(\<forall>(d, w) \<in> set (snd (client_run (es @ [Flush]))). d = c \<longrightarrow> w < fst x) \<longleftrightarrow>
      \<not> (\<exists>w. (c, w) \<in> set (snd (client_run (es @ [Flush]))) \<and> fst x \<le> w)" by (auto simp: not_le)
  then show ?thesis unfolding apply_acks_pending acknowledged_iff by blast
qed

text \<open>The watermark starts at the first number that arrives, so smaller numbers of the conversation that are still under way are
  acknowledged with it, although the comment on \<open>ackBatcher\<close> says that a number not received is never acknowledged.\<close>

lemma seeding_acknowledges_unreceived:
  "snd (client_run [Pushed 7 12]) = [(7, 12)]"
  "(11, e) \<in> set (vpend s (u, 7)) \<Longrightarrow> (11, e) \<notin> set (vpend (apply_acks u (snd (client_run [Pushed 7 12])) s) (u, 7))"
  by (simp_all add: client_run_def observe_def newAckBatcher_def sendWatermark_def apply_acks_pending)

text \<open>A push that arrives again is never acknowledged again: when the frame that covered it was lost, the
  batching client stays silent on every retry.\<close>

lemma repushed_is_not_acknowledged:
  assumes "client_run (es @ [Flush]) = (ab, out)" "received es c \<noteq> []"
      "\<forall>r. hd (received es c) \<le> r \<longrightarrow> r \<le> q \<longrightarrow> r \<in> set (received es c)"
  shows "client_run (es @ [Flush, Pushed c q, Flush]) = (ab, out)"
proof -
  have ok: "batcher_ok (received es) ab" and clean: "ab_dirty ab = []"
    using client_run_ok [of "es @ [Flush]"] flush_cleans [of es] unfolding assms(1) received_fun by simp_all
  then have top: "run_top (received es c) (ab_wm ab c)" and seen: "ab_seen ab c"
    using assms(2) by (auto simp: batcher_ok_def split: if_splits)
  have "q \<le> ab_wm ab c" using run_top_upto [OF top, of q] assms(3) by blast
  then have "observe c q ab = (False, ab)" using seen by (simp add: observe_def)
  then show ?thesis using assms(1) clean by (simp add: client_run_def flushAll_def)
qed

subsection \<open>Measuring\<close>

type_synonym pushKey = "conv_id \<times> int"

record bench =
  be_pending :: "pushKey \<Rightarrow> int option"   \<comment> \<open>when the send began\<close>
  be_leftover :: "pushKey \<Rightarrow> int option"  \<comment> \<open>when the push came in before its reply\<close>
  be_sendLat :: "int list"
  be_e2eLat :: "int list"
  be_sent :: int
  be_sendErr :: int
  be_delivered :: int

definition new_bench :: bench where
  "new_bench = \<lparr>be_pending = (\<lambda>_. None), be_leftover = (\<lambda>_. None), be_sendLat = [], be_e2eLat = [],
     be_sent = 0, be_sendErr = 0, be_delivered = 0\<rparr>"

definition ms :: "int \<Rightarrow> int" where
  \<comment> \<open>a duration in microseconds, which the code then divides by 1000 as a float\<close>
  "ms d = d sdiv 1000"

definition onPush :: "pushKey \<Rightarrow> int \<Rightarrow> bench \<Rightarrow> bench" where
  "onPush k now b =
     (let b1 = b\<lparr>be_delivered := be_delivered b + 1\<rparr>
      in case be_pending b k of
           Some start \<Rightarrow> b1\<lparr>be_pending := (be_pending b)(k := None), be_e2eLat := be_e2eLat b @ [ms (now - start)]\<rparr>
         | None \<Rightarrow> b1\<lparr>be_leftover := (be_leftover b)(k := Some now)\<rparr>)"

definition onSendRsp :: "pushKey \<Rightarrow> int \<Rightarrow> int \<Rightarrow> bench \<Rightarrow> bench" where
  "onSendRsp k start now b =
     (let b1 = b\<lparr>be_sendLat := be_sendLat b @ [ms (now - start)]\<rparr>
      in case be_leftover b k of
           Some recv \<Rightarrow> b1\<lparr>be_leftover := (be_leftover b)(k := None), be_e2eLat := be_e2eLat b @ [ms (recv - start)]\<rparr>
         | None \<Rightarrow> b1\<lparr>be_pending := (be_pending b)(k := Some start)\<rparr>)"

definition sendOne :: "conv_id \<Rightarrow> int option \<Rightarrow> int \<Rightarrow> int \<Rightarrow> bench \<Rightarrow> bench" where
  \<comment> \<open>the answer is the number, \<open>None\<close> for a failed post, an error body or a number that does not parse\<close>
  "sendOne c ans start now b =
     (case ans of None \<Rightarrow> b\<lparr>be_sendErr := be_sendErr b + 1\<rparr>
      | Some q \<Rightarrow> onSendRsp (c, q) start now (b\<lparr>be_sent := be_sent b + 1\<rparr>))"

datatype bench_event = GotPush pushKey int | Answered conv_id "int option" int int

fun bench_step :: "bench_event \<Rightarrow> bench \<Rightarrow> bench" where
  "bench_step (GotPush k now) b = onPush k now b"
| "bench_step (Answered c ans start now) b = sendOne c ans start now b"

definition bench_run :: "bench_event list \<Rightarrow> bench" where
  "bench_run es = fold bench_step es new_bench"

fun push_times :: "bench_event list \<Rightarrow> (pushKey \<times> int) list" where
  "push_times [] = []"
| "push_times (GotPush k now # es) = (k, now) # push_times es"
| "push_times (Answered _ _ _ _ # es) = push_times es"

fun send_times :: "bench_event list \<Rightarrow> (pushKey \<times> int) list" where
  "send_times [] = []"
| "send_times (Answered c (Some q) start _ # es) = ((c, q), start) # send_times es"
| "send_times (Answered c None _ _ # es) = send_times es"
| "send_times (GotPush _ _ # es) = send_times es"

lemma push_times_append [simp]: "push_times (es @ fs) = push_times es @ push_times fs"
  by (induction es rule: push_times.induct) auto

lemma send_times_append [simp]: "send_times (es @ fs) = send_times es @ send_times fs"
  by (induction es rule: send_times.induct) auto

definition latency :: "bench_event list \<Rightarrow> pushKey \<Rightarrow> int" where
  "latency es k = ms (the (map_of (push_times es) k) - the (map_of (send_times es) k))"

lemma map_of_snoc: "k \<notin> fst ` set xs \<Longrightarrow> map_of (xs @ [(k, v)]) = (map_of xs)(k := Some v)"
  by (induction xs) auto

definition measured_ok :: "bench_event list \<Rightarrow> bench \<Rightarrow> bool" where
  "measured_ok es b \<longleftrightarrow>
     be_pending b = (\<lambda>k. if k \<in> fst ` set (push_times es) then None else map_of (send_times es) k) \<and>
     be_leftover b = (\<lambda>k. if k \<in> fst ` set (send_times es) then None else map_of (push_times es) k) \<and>
     mset (be_e2eLat b) = image_mset (latency es) (mset_set (fst ` set (push_times es) \<inter> fst ` set (send_times es)))"

lemma latencies_grow:
  assumes "finite A" "k \<notin> A" "\<And>x. x \<in> A \<Longrightarrow> f x = g x" "g k = v"
  shows "add_mset v (image_mset f (mset_set A)) = image_mset g (mset_set (insert k A))"
proof -
  have "image_mset f (mset_set A) = image_mset g (mset_set A)"
    using assms(1,3) by (intro image_mset_cong) simp
  then show ?thesis using assms(1,2,4) by simp
qed

lemma measured_push:
  assumes ok: "measured_ok es b" and new: "k \<notin> fst ` set (push_times es)"
  shows "measured_ok (es @ [GotPush k now]) (onPush k now b)"
proof -
  define es' where "es' = es @ [GotPush k now]"
  define P where "P = fst ` set (push_times es)"
  define S where "S = fst ` set (send_times es)"
  have fin: "finite (P \<inter> S)" and kP: "k \<notin> P" using new by (simp_all add: P_def)
  have pm: "be_pending b = (\<lambda>k. if k \<in> P then None else map_of (send_times es) k)"
    and lm: "be_leftover b = (\<lambda>k. if k \<in> S then None else map_of (push_times es) k)"
    and em: "mset (be_e2eLat b) = image_mset (latency es) (mset_set (P \<inter> S))"
    using ok by (auto simp: measured_ok_def P_def S_def)
  have mp: "map_of (push_times es') = (map_of (push_times es))(k := Some now)"
    using map_of_snoc [OF new] by (simp add: es'_def)
  have same: "send_times es' = send_times es" "fst ` set (push_times es') = insert k P" by (auto simp: es'_def P_def)
  have lat: "latency es x = latency es' x" if "x \<in> P \<inter> S" for x
    using kP that unfolding latency_def mp same by auto
  show ?thesis
  proof (cases "map_of (send_times es) k")
    case None
    then have k: "k \<notin> S" by (auto simp: S_def map_of_eq_None_iff)
    have "image_mset (latency es) (mset_set (P \<inter> S)) = image_mset (latency es') (mset_set (P \<inter> S))"
      by (intro image_mset_cong) (simp add: lat fin)
    then show ?thesis using None k kP em unfolding measured_ok_def es'_def [symmetric] same mp S_def [symmetric]
      by (simp add: onPush_def pm lm fun_eq_iff)
  next
    case (Some start)
    then have k: "k \<in> S" unfolding S_def by (metis map_of_eq_None_iff option.distinct(1))
    have "latency es' k = ms (now - start)" unfolding latency_def mp same using Some by simp
    then have "add_mset (ms (now - start)) (mset (be_e2eLat b)) = image_mset (latency es') (mset_set (insert k (P \<inter> S)))"
      using latencies_grow [OF fin, of k "latency es" "latency es'"] kP lat em by simp
    then show ?thesis using Some k kP unfolding measured_ok_def es'_def [symmetric] same mp S_def [symmetric]
      by (simp add: onPush_def pm lm fun_eq_iff)
  qed
qed

lemma measured_answer:
  assumes ok: "measured_ok es b" and new: "k \<notin> fst ` set (send_times es)" and k: "k = (c, q)"
  shows "measured_ok (es @ [Answered c (Some q) start now]) (sendOne c (Some q) start now b)"
proof -
  define es' where "es' = es @ [Answered c (Some q) start now]"
  define P where "P = fst ` set (push_times es)"
  define S where "S = fst ` set (send_times es)"
  have fin: "finite (P \<inter> S)" and kS: "k \<notin> S" using new by (simp_all add: P_def S_def)
  have pm: "be_pending b = (\<lambda>k. if k \<in> P then None else map_of (send_times es) k)"
    and lm: "be_leftover b = (\<lambda>k. if k \<in> S then None else map_of (push_times es) k)"
    and em: "mset (be_e2eLat b) = image_mset (latency es) (mset_set (P \<inter> S))"
    using ok by (auto simp: measured_ok_def P_def S_def)
  have mp: "map_of (send_times es') = (map_of (send_times es))(k := Some start)"
    using map_of_snoc [OF new] by (simp add: es'_def k)
  have same: "push_times es' = push_times es" "fst ` set (send_times es') = insert k S" by (auto simp: es'_def S_def k)
  have r: "sendOne c (Some q) start now b = onSendRsp k start now (b\<lparr>be_sent := be_sent b + 1\<rparr>)" by (simp add: sendOne_def k)
  have lat: "latency es x = latency es' x" if "x \<in> P \<inter> S" for x
    using kS that unfolding latency_def mp same by auto
  show ?thesis
  proof (cases "map_of (push_times es) k")
    case None
    then have k: "k \<notin> P" by (auto simp: P_def map_of_eq_None_iff)
    have "image_mset (latency es) (mset_set (P \<inter> S)) = image_mset (latency es') (mset_set (P \<inter> S))"
      by (intro image_mset_cong) (simp add: lat fin)
    then show ?thesis using None k kS em unfolding measured_ok_def es'_def [symmetric] r same mp P_def [symmetric]
      by (simp add: onSendRsp_def pm lm fun_eq_iff)
  next
    case (Some recv)
    then have k: "k \<in> P" unfolding P_def by (metis map_of_eq_None_iff option.distinct(1))
    have "latency es' k = ms (recv - start)" unfolding latency_def mp same using Some by simp
    then have "add_mset (ms (recv - start)) (mset (be_e2eLat b)) = image_mset (latency es') (mset_set (insert k (P \<inter> S)))"
      using latencies_grow [OF fin, of k "latency es" "latency es'"] kS lat em by simp
    then show ?thesis using Some k kS unfolding measured_ok_def es'_def [symmetric] r same mp P_def [symmetric]
      by (simp add: onSendRsp_def pm lm fun_eq_iff)
  qed
qed

text \<open>Every message that has one reply and one push gives one end-to-end sample, whichever comes first,
  and the two tables hold exactly what still waits for its other half.\<close>

lemma measurements_pair_up:
  "distinct (map fst (push_times es)) \<Longrightarrow> distinct (map fst (send_times es)) \<Longrightarrow> measured_ok es (bench_run es)"
proof (induction es rule: rev_induct)
  case Nil
  then show ?case by (simp add: measured_ok_def bench_run_def new_bench_def)
next
  case (snoc e es)
  then have ok: "measured_ok es (bench_run es)" by simp
  have step: "bench_run (es @ [e]) = bench_step e (bench_run es)" by (simp add: bench_run_def)
  show ?case
  proof (cases e)
    case (GotPush k now)
    then have "k \<notin> fst ` set (push_times es)" using snoc.prems(1) by simp
    then show ?thesis using measured_push [OF ok] step GotPush by simp
  next
    case (Answered c ans start now)
    show ?thesis
    proof (cases ans)
      case None
      then have "push_times (es @ [e]) = push_times es" "send_times (es @ [e]) = send_times es" using Answered by simp_all
      moreover from this have "latency (es @ [e]) = latency es" by (simp add: latency_def fun_eq_iff)
      moreover have "be_pending (bench_run (es @ [e])) = be_pending (bench_run es)" "be_leftover (bench_run (es @ [e])) = be_leftover (bench_run es)"
        "be_e2eLat (bench_run (es @ [e])) = be_e2eLat (bench_run es)" using step Answered None by (simp_all add: sendOne_def)
      ultimately show ?thesis using ok unfolding measured_ok_def by (simp only:)
    next
      case (Some q)
      then have "(c, q) \<notin> fst ` set (send_times es)" using snoc.prems(2) Answered by simp
      then show ?thesis using measured_answer [OF ok _ refl] step Answered Some by simp
    qed
  qed
qed

lemma counters_exact: "be_delivered (bench_run es) = int (length (push_times es)) \<and>
    be_sent (bench_run es) = int (length (send_times es)) \<and> length (be_sendLat (bench_run es)) = length (send_times es)"
proof (induction es rule: rev_induct)
  case Nil
  then show ?case by (simp add: bench_run_def new_bench_def)
next
  case (snoc e es)
  have step: "bench_run (es @ [e]) = bench_step e (bench_run es)" by (simp add: bench_run_def)
  show ?case
    using snoc unfolding step
    by (cases e) (auto simp: onPush_def sendOne_def onSendRsp_def Let_def split: option.splits)
qed

text \<open>What counts as delivered is every push that arrives: a push that a retry repeats is counted again, so the rate
  exceeds what the head of the file defines, and the wait for the end stops while messages are missing.\<close>

lemma repeated_push_counted_as_delivered:
  "let b = bench_run [Answered 7 (Some 1) 0 5000, Answered 7 (Some 2) 0 5000, GotPush (7, 1) 9000, GotPush (7, 1) 1009000]
   in be_sent b \<le> be_delivered b \<and> be_pending b (7, 2) = Some 0"
  by (simp add: bench_run_def new_bench_def sendOne_def onSendRsp_def onPush_def)

subsection \<open>Pacing the sends\<close>

definition perTick :: "int \<Rightarrow> int" where
  \<comment> \<open>the messages dispatched every 50 ms, the product in 64 bits\<close>
  "perTick rate = max 1 (sint (word_of_int (rate * 50000000) :: 64 word) sdiv 1000000000)"

lemma perTick_pos: "1 \<le> perTick rate"
  by (simp add: perTick_def)

function dispatch :: "int \<Rightarrow> int \<Rightarrow> 'c list \<Rightarrow> int \<Rightarrow> 'c list list" where
  \<comment> \<open>the batches put into the channel, one per tick, from the number already dispatched on\<close>
  "dispatch rate tot cps d =
     (if d < tot then
        (let n = min (perTick rate) (tot - d)
         in map (\<lambda>j. cps ! nat ((d + j) mod int (length cps))) [0..n - 1] # dispatch rate tot cps (d + n))
      else [])"
  by auto

termination
proof (relation "measure (\<lambda>(_, tot, _, d). nat (tot - d))")
  fix rate tot d n :: int and cps :: "'c list"
  assume "d < tot" "n = min (perTick rate) (tot - d)"
  then show "((rate, tot, cps, d + n), (rate, tot, cps, d)) \<in> measure (\<lambda>(_, tot, _, d). nat (tot - d))"
    using perTick_pos [of rate] by simp
qed simp

declare dispatch.simps [simp del]

lemma upto_shift: "map (\<lambda>j. f (d + j)) [0..n - 1] = map f [d..d + n - (1 :: int)]"
proof (rule nth_equalityI)
  fix i assume "i < length (map (\<lambda>j. f (d + j)) [0..n - 1])"
  then show "map (\<lambda>j. f (d + j)) [0..n - 1] ! i = map f [d..d + n - 1] ! i" by (simp add: nth_upto)
qed simp

lemma dispatch_all:
  \<comment> \<open>every message is dispatched once, the conversations in turn\<close>
  assumes "d \<le> tot"
  shows "concat (dispatch rate tot cps d) = map (\<lambda>i. cps ! nat (i mod int (length cps))) [d..tot - 1]"
  using assms
proof (induction rate tot cps d rule: dispatch.induct)
  case (1 rate tot cps d)
  show ?case
  proof (cases "d < tot")
    case True
    define n where "n = min (perTick rate) (tot - d)"
    have n: "1 \<le> n" "n \<le> tot - d" using True perTick_pos [of rate] by (auto simp: n_def)
    have "concat (dispatch rate tot cps d) =
        map (\<lambda>j. cps ! nat ((d + j) mod int (length cps))) [0..n - 1] @ concat (dispatch rate tot cps (d + n))"
      using True by (simp add: dispatch.simps [of rate tot cps d] n_def Let_def)
    moreover have "map (\<lambda>j. cps ! nat ((d + j) mod int (length cps))) [0..n - 1] =
        map (\<lambda>i. cps ! nat (i mod int (length cps))) [d..d + n - 1]"
      by (rule upto_shift)
    moreover have "concat (dispatch rate tot cps (d + n)) = map (\<lambda>i. cps ! nat (i mod int (length cps))) [d + n..tot - 1]"
      using 1(1) [OF True n_def] n by simp
    moreover have "[d..tot - 1] = [d..d + n - 1] @ [d + n..tot - 1]"
      using n upto_split1 [of d "d + n" "tot - 1"] by (cases "n = tot - d") simp_all
    ultimately show ?thesis by simp
  next
    case False
    then show ?thesis using 1(2) dispatch.simps [of rate tot cps tot] by simp
  qed
qed

lemma dispatch_batches: "b \<in> set (dispatch rate tot cps d) \<Longrightarrow> 1 \<le> int (length b) \<and> int (length b) \<le> perTick rate"
proof (induction rate tot cps d rule: dispatch.induct)
  case (1 rate tot cps d)
  then have d: "d < tot" by (auto simp: dispatch.simps [of rate tot cps d] split: if_splits)
  define n where "n = min (perTick rate) (tot - d)"
  have n: "1 \<le> n" "n \<le> perTick rate" using d perTick_pos [of rate] by (auto simp: n_def)
  show ?case using 1 d n by (auto simp: dispatch.simps [of rate tot cps d] Let_def simp flip: n_def)
qed

lemma dispatch_ticks:
  assumes "d \<le> tot"
  shows "perTick rate * (int (length (dispatch rate tot cps d)) - 1) < tot - d \<or> d = tot"
    and "tot - d \<le> perTick rate * int (length (dispatch rate tot cps d))"
  using assms
proof (induction rate tot cps d rule: dispatch.induct)
  case (1 rate tot cps d)
  define n where "n = min (perTick rate) (tot - d)"
  have len: "length (dispatch rate tot cps d) = Suc (length (dispatch rate tot cps (d + n)))" if "d < tot"
    using that by (simp add: dispatch.simps [of rate tot cps d] n_def Let_def)
  { case 1
    show ?case
    proof (cases "d < tot")
      case True
      then have n: "d + n \<le> tot" "n = perTick rate \<or> d + n = tot" by (auto simp: n_def min_def)
      show ?thesis
      proof (cases "d + n = tot")
        case True
        then have "length (dispatch rate tot cps (d + n)) = 0" using dispatch.simps [of rate tot cps tot] by simp
        then show ?thesis using len [OF \<open>d < tot\<close>] \<open>d < tot\<close> by simp
      next
        case False
        then show ?thesis using "1.IH"(1) [OF \<open>d < tot\<close> n_def] n len [OF \<open>d < tot\<close>] by (auto simp: algebra_simps)
      qed
    qed (use 1 in simp)
  next
    case 2
    show ?case
    proof (cases "d < tot")
      case True
      then have n: "d + n \<le> tot" "n \<le> perTick rate" by (auto simp: n_def min_def)
      then show ?thesis using "1.IH"(2) [OF True n_def] len [OF True] by (auto simp: algebra_simps)
    qed (use 2 perTick_pos [of rate] in simp)
  }
qed

text \<open>Twenty ticks make a second, so the rate reached is the rate asked for rounded down to a multiple of 20,
  and at least 20: the comment calls the mean rate exact.\<close>

lemma rate_reached:
  assumes "1 \<le> rate" "rate \<le> 10 ^ 11"
  shows "20 * perTick rate = (if rate < 20 then 20 else rate - rate mod 20)"
proof -
  have "sint (word_of_int (rate * 50000000) :: 64 word) = rate * 50000000"
    unfolding sint_sbintrunc' using assms by (intro signed_take_bit_int_eq_self) simp_all
  moreover have "rate * 50000000 sdiv 1000000000 = rate div 20"
    using assms(1) by (simp add: signed_divide_int_def)
  ultimately have "perTick rate = max 1 (rate div 20)" by (simp add: perTick_def)
  then show ?thesis using assms(1) by (auto simp: minus_mod_eq_mult_div)
qed

subsection \<open>The report\<close>

definition pct :: "(nat \<Rightarrow> nat) \<Rightarrow> int list \<Rightarrow> int option" where
  \<comment> \<open>the argument is \<open>int(float64(len(s)) * p)\<close> as a function of the length; \<open>None\<close> prints n/a\<close>
  "pct idx v = (if v = [] then None else Some (sort v ! min (length v - 1) (idx (length v))))"

definition remain :: "bench \<Rightarrow> int option" where
  \<comment> \<open>the number in the warning\<close>
  "remain b = (if be_sent b - be_delivered b > 0 then Some (be_sent b - be_delivered b) else None)"

lemma pct_rank:
  assumes "pct idx v = Some x" "idx (length v) < length v"
  shows "x \<in> set v \<and> idx (length v) < length (filter (\<lambda>y. y \<le> x) v) \<and> length v - idx (length v) \<le> length (filter (\<lambda>y. x \<le> y) v)"
proof -
  define i where "i = idx (length v)"
  have "min (length v - 1) (idx (length v)) = i" using assms(2) by (simp add: i_def)
  then have i: "i < length (sort v)" and x: "x = sort v ! i" using assms by (auto simp: pct_def i_def split: if_splits)
  have count: "length (filter P v) = length (filter P (sort v))" for P
    by (metis mset_filter mset_sort size_mset)
  have "x \<in> set v" using i x by (metis nth_mem set_sort)
  moreover have "Suc i \<le> length (filter (\<lambda>y. y \<le> x) (sort v))"
  proof -
    have "filter (\<lambda>y. y \<le> x) (take (Suc i) (sort v)) = take (Suc i) (sort v)"
      using i x by (auto simp: filter_id_conv in_set_conv_nth intro!: sorted_nth_mono)
    then have "length (filter (\<lambda>y. y \<le> x) (take (Suc i) (sort v))) = Suc i" using i by simp
    then show ?thesis by (metis append_take_drop_id filter_append le_add1 length_append)
  qed
  moreover have "length v - i \<le> length (filter (\<lambda>y. x \<le> y) (sort v))"
  proof -
    have "filter (\<lambda>y. x \<le> y) (drop i (sort v)) = drop i (sort v)"
      using i x by (auto simp: filter_id_conv in_set_conv_nth intro!: sorted_nth_mono)
    then have "length (filter (\<lambda>y. x \<le> y) (drop i (sort v))) = length v - i" by simp
    then show ?thesis by (metis append_take_drop_id filter_append le_add2 length_append)
  qed
  ultimately show ?thesis unfolding count by (simp add: i_def)
qed

subsection \<open>Preparing users, friendships and conversations\<close>

datatype bench_call =   \<comment> \<open>path and body of a request\<close>
    CallRegister string | CallLogin string | CallFriend uid | CallAnswer uid | CallConv uid uid

type_synonym 'w network = "string \<Rightarrow> bench_call \<Rightarrow> 'w \<Rightarrow> (string + nat \<times> string) \<times> 'w"
  \<comment> \<open>what the HTTP client gives for a token and a call: an error, or the status and the body\<close>

definition bench_post :: "'w network \<Rightarrow> (string \<Rightarrow> 'r option) \<Rightarrow> string \<Rightarrow> bench_call \<Rightarrow> 'w \<Rightarrow> (string + 'r) \<times> 'w" where
  \<comment> \<open>\<open>json.Unmarshal\<close> into the answer is a parameter, \<open>None\<close>: an error, of which the text is abridged\<close>
  "bench_post net decode token call w =
     (case net token call w of
        (Inl e, w') \<Rightarrow> (Inl e, w')
      | (Inr (status, raw), w') \<Rightarrow>
          (if status \<noteq> 200 then Inl (''HTTP '' @ int_str (int status) @ '': '' @ raw)
           else case decode raw of None \<Rightarrow> Inl ''invalid json'' | Some v \<Rightarrow> Inr v, w'))"

record bench_json =
  bj_map :: "string \<Rightarrow> unit option"
  bj_login :: "string \<Rightarrow> (string option \<times> string \<times> string) option"   \<comment> \<open>error message, uid, token\<close>
  bj_conv :: "string \<Rightarrow> (string option \<times> string) option"

type_synonym tokens = "uid \<Rightarrow> string"   \<comment> \<open>a missing entry reads as the empty string\<close>

definition ensureUser :: "'w network \<Rightarrow> bench_json \<Rightarrow> string \<Rightarrow> tokens \<times> 'w \<Rightarrow> (string + uid \<times> string) \<times> tokens \<times> 'w" where
  "ensureUser net bj nick st =
     (case st of (tk, w) \<Rightarrow>
      let w1 = snd (bench_post net (bj_map bj) [] (CallRegister nick) w)
      in case bench_post net (bj_login bj) [] (CallLogin nick) w1 of
           (Inl e, w2) \<Rightarrow> (Inl (''login: '' @ e), tk, w2)
         | (Inr (Some e, _, _), w2) \<Rightarrow> (Inl (''login: '' @ e), tk, w2)
         | (Inr (None, u, tok), w2) \<Rightarrow>
             (case parse_int u of
                None \<Rightarrow> (Inl (''login uid'' @ u), tk, w2)
              | Some uid \<Rightarrow> (Inr (uid, tok), tk(uid := tok), w2)))"

definition seedFriend :: "'w network \<Rightarrow> bench_json \<Rightarrow> tokens \<Rightarrow> uid \<Rightarrow> uid \<Rightarrow> 'w \<Rightarrow> string option \<times> 'w" where
  "seedFriend net bj tk a c w =
     (case bench_post net (bj_map bj) (tk a) (CallFriend c) w of
        (Inl e, w1) \<Rightarrow>
          (if str_contains ''already friends'' e then None
           else Some (''friend request '' @ int_str a @ ''->'' @ int_str c @ '': '' @ e), w1)
      | (Inr _, w1) \<Rightarrow>
          (case bench_post net (bj_map bj) (tk c) (CallAnswer a) w1 of
             (Inl e, w2) \<Rightarrow> (Some e, w2) | (Inr _, w2) \<Rightarrow> (None, w2)))"

definition ensureConv :: "'w network \<Rightarrow> bench_json \<Rightarrow> tokens \<Rightarrow> uid \<Rightarrow> uid \<Rightarrow> 'w \<Rightarrow> (string + conv_id) \<times> 'w" where
  "ensureConv net bj tk a c w =
     (case seedFriend net bj tk a c w of
        (Some e, w1) \<Rightarrow> (Inl e, w1)
      | (None, w1) \<Rightarrow>
          (case bench_post net (bj_conv bj) (tk a) (CallConv a c) w1 of
             (Inl e, w2) \<Rightarrow> (Inl e, w2)
           | (Inr (Some e, _), w2) \<Rightarrow> (Inl e, w2)
           | (Inr (None, k), w2) \<Rightarrow> (case parse_int k of None \<Rightarrow> Inl ''conv_id'' | Some v \<Rightarrow> Inr v, w2)))"

fun ensure_users :: "'w network \<Rightarrow> bench_json \<Rightarrow> string list \<Rightarrow> tokens \<times> 'w \<Rightarrow> (uid list option) \<times> tokens \<times> 'w" where
  \<comment> \<open>step 1 of \<open>run\<close>; \<open>None\<close>: the program ends\<close>
  "ensure_users net bj [] st = (Some [], st)"
| "ensure_users net bj (n # ns) st =
     (case ensureUser net bj n st of
        (Inl _, st1) \<Rightarrow> (None, st1)
      | (Inr (u, _), st1) \<Rightarrow> (case ensure_users net bj ns st1 of (r, st2) \<Rightarrow> (map_option ((#) u) r, st2)))"

definition conv_pair :: "uid list \<Rightarrow> nat \<Rightarrow> uid \<times> uid" where
  "conv_pair us i = (us ! (i mod length us), us ! ((i + 1) mod length us))"

fun ensure_convs :: "'w network \<Rightarrow> bench_json \<Rightarrow> tokens \<Rightarrow> (uid \<times> uid) list \<Rightarrow> 'w \<Rightarrow> ((conv_id \<times> uid) list option) \<times> 'w" where
  \<comment> \<open>step 2: the conversations with their senders\<close>
  "ensure_convs net bj tk [] w = (Some [], w)"
| "ensure_convs net bj tk ((a, c) # ps) w =
     (case ensureConv net bj tk a c w of
        (Inl _, w1) \<Rightarrow> (None, w1)
      | (Inr k, w1) \<Rightarrow> (case ensure_convs net bj tk ps w1 of (r, w2) \<Rightarrow> (map_option ((#) (k, a)) r, w2)))"

text \<open>The friendship calls at the relation service, as the gateway answers them.\<close>

definition biz_answer :: "(string \<Rightarrow> string) \<Rightarrow> yim_error option \<Rightarrow> string + nat \<times> string" where
  "biz_answer body e = Inr (case e of None \<Rightarrow> (200, []) | Some er \<Rightarrow> (400, body (err_msg er)))"

definition friend_network :: "(string \<Rightarrow> uid) \<Rightarrow> (string \<Rightarrow> string) \<Rightarrow> int \<Rightarrow> rel network" where
  \<comment> \<open>the user of a token and the body of an error are parameters\<close>
  "friend_network who body now token call s =
     (case call of
        CallFriend c \<Rightarrow> (case SendFriendRequest no_fault now (who token) c ''bench'' s of (e, s') \<Rightarrow> (biz_answer body e, s'))
      | CallAnswer a \<Rightarrow> (case HandleFriendRequest no_fault now (who token) a True s of (e, s') \<Rightarrow> (biz_answer body e, s'))
      | _ \<Rightarrow> (Inl ''not a friendship call'', s))"

lemma str_contains_append: "str_contains p s \<Longrightarrow> str_contains p (xs @ s)"
proof -
  assume "str_contains p s"
  then obtain i where i: "i \<in> {0..<Suc (length s)}" "has_prefix p (drop i s)"
    unfolding str_contains_def list_ex_iff set_upt by blast
  then have "length xs + i < Suc (length (xs @ s))" "has_prefix p (drop (length xs + i) (xs @ s))" by simp_all
  then show ?thesis unfolding str_contains_def list_ex_iff by (metis atLeastLessThan_iff le0 set_upt)
qed

lemma seeded_friends:
  \<comment> \<open>two users are friends afterwards if they were, or if no request between them is pending or was accepted\<close>
  assumes tk: "who (tk a) = a" "who (tk c) = c" "a \<noteq> c" and ok: "bj_map bj [] = Some ()"
    and body: "str_contains ''already friends'' (body ''already friends'')"
    and st: "friends a c (rdb s) \<or> friends c a (rdb s) \<or>
      req_status c a (rdb s) \<noteq> Some 0 \<and> (\<forall>n. req_status a c (rdb s) = Some n \<longrightarrow> n \<in> {0, 2})"
  shows "\<exists>s'. seedFriend (friend_network who body now) bj tk a c s = (None, s') \<and> (friends a c (rdb s') \<or> friends c a (rdb s'))"
proof (cases "friends a c (rdb s) \<or> friends c a (rdb s)")
  case True
  then have "SendFriendRequest no_fault now a c ''bench'' s = (Some (bizErr CodeAlreadyFriends), s)"
    using tk by (simp add: SendFriendRequest_def isFriend_eq)
  moreover have "err_msg (bizErr CodeAlreadyFriends) = ''already friends''"
    by (simp add: bizErr_def codeMsg_def CodeAlreadyFriends_def CodeInternal_def)
  moreover have "str_contains ''already friends'' (''HTTP '' @ int_str 400 @ '': '' @ body ''already friends'')"
    by (intro str_contains_append body)
  ultimately show ?thesis using True tk
    by (simp add: seedFriend_def bench_post_def friend_network_def biz_answer_def)
next
  case False
  then have r: "req_status c a (rdb s) \<noteq> Some 0" "\<forall>n. req_status a c (rdb s) = Some n \<longrightarrow> n \<in> {0, 2}" using st by auto
  define s1 where "s1 = Emit EvFriendRequest a 0 [c] (s\<lparr>rdb := upsert_request a c ''bench'' now (rdb s)\<rparr>)"
  have S: "SendFriendRequest no_fault now a c ''bench'' s = (None, s1)"
    using False tk r by (simp add: SendFriendRequest_def isFriend_eq s1_def)
  have "req_status a c (rdb s1) = Some 0" using r(2) by (auto simp: s1_def split: option.splits)
  then obtain q where q: "request_row a c (rdb s1) = Some q" "fr_status q = 0" by (auto simp: req_status_def)
  obtain s2 where H: "HandleFriendRequest no_fault now c a True s1 = (None, s2)" and "friends a c (rdb s2)"
    using q by (simp add: HandleFriendRequest_def Let_def)
  then show ?thesis using S tk ok
    by (simp add: seedFriend_def bench_post_def friend_network_def biz_answer_def)
qed

subsection \<open>The reader of a connection\<close>

definition connect_batcher :: "bool \<Rightarrow> int \<Rightarrow> ackBatcher option" where
  \<comment> \<open>what \<open>connect\<close> gives the connection; \<open>None\<close>: every push is answered\<close>
  "connect_batcher ackOn ackBatchMs = (if ackOn \<and> 0 < ackBatchMs then Some newAckBatcher else None)"

definition reader :: "bool \<Rightarrow> conv_id \<Rightarrow> int \<Rightarrow> int \<Rightarrow> bench \<times> ackBatcher option \<Rightarrow> ack_frame list \<times> bench \<times> ackBatcher option" where
  \<comment> \<open>one \<open>MESSAGE_PUSH\<close>; other frames are read and dropped\<close>
  "reader ackOn c q now st =
     (case st of (b, oab) \<Rightarrow>
      let b' = onPush (c, q) now b
      in if \<not> ackOn then ([], b', oab)
         else case oab of
                None \<Rightarrow> ([(c, q)], b', None)
              | Some ab \<Rightarrow> (case observe c q ab of (first, ab') \<Rightarrow>
                  (if first then [sendWatermark c ab'] else [], b', Some ab')))"

lemma reader_is_client_step:
  "client_step (Pushed c q) (ab, out) =
     (case reader True c q now (b, Some ab) of (fs, _, oab) \<Rightarrow> (the oab, out @ fs))"
  by (auto simp: reader_def split: prod.splits)

definition single_acks :: "client_event list \<Rightarrow> ack_frame list" where
  \<comment> \<open>the frames without a batcher\<close>
  "single_acks es = concat (map (\<lambda>e. case e of
     Pushed c q \<Rightarrow> fst (reader True c q 0 (new_bench, connect_batcher True 0)) | Flush \<Rightarrow> []) es)"

lemma set_single_acks: "(c, q) \<in> set (single_acks es) \<longleftrightarrow> q \<in> set (received es c)"
  by (induction es) (auto simp: single_acks_def received_def reader_def connect_batcher_def split: client_event.splits)

text \<open>Batching never acknowledges more than answering every push does.\<close>

lemma batched_within_single:
  assumes "x \<in> set (vpend (apply_acks u (single_acks es) s) (v, c))"
  shows "x \<in> set (vpend (apply_acks u (snd (client_run es)) s) (v, c))"
proof -
  have "w < fst x" if "v = u" "(c, w) \<in> set (snd (client_run es))" for w
  proof -
    have "w \<in> {hd (received es c)..w}" "{hd (received es c)..w} \<subseteq> set (received es c)"
      using client_run_ok [of es] that(2) by (auto simp: frames_ok_def)
    then have "(c, w) \<in> set (single_acks es)" using set_single_acks by blast
    then show ?thesis using assms that(1) by (auto simp: apply_acks_pending)
  qed
  then show ?thesis using assms by (auto simp: apply_acks_pending)
qed

subsection \<open>The end of a run\<close>

definition flags_ok :: "int \<Rightarrow> int \<Rightarrow> int \<Rightarrow> int \<Rightarrow> bool" where
  "flags_ok nUsers nConvs tot rate \<longleftrightarrow> \<not> (nUsers < 2 \<or> nConvs < 1 \<or> tot < 1 \<or> rate < 1)"

fun await_delivery :: "int \<Rightarrow> (int \<times> bench) list \<Rightarrow> bench option" where
  \<comment> \<open>the polls of step 5, each with its time and the counters read; \<open>None\<close>: still waiting\<close>
  "await_delivery until [] = None"
| "await_delivery until ((now, b) # ps) =
     (if \<not> now < until \<or> be_sent b \<le> be_delivered b then Some b else await_delivery until ps)"

lemma await_ends: "\<exists>p \<in> set ps. until \<le> fst p \<Longrightarrow> \<exists>b. await_delivery until ps = Some b"
  by (induction until ps rule: await_delivery.induct) auto

lemma no_warning_when_delivered:
  "await_delivery until ps = Some b \<Longrightarrow> \<forall>p \<in> set ps. fst p < until \<Longrightarrow> remain b = None"
  by (induction until ps rule: await_delivery.induct) (auto simp: remain_def split: if_splits)

subsection \<open>A run of the client\<close>

definition demo_unacked :: deliverer where
  "demo_unacked = demo_deliverer\<lparr>vpend := (\<lambda>_. [])((1, 7) := map (\<lambda>q. (q, demo_event)) [11, 12, 13, 15])\<rparr>"

lemma batched_acks_cancel_received_runs_witness:
  "let p = vpend (apply_acks 1 (snd (client_run ([Pushed 7 12, Pushed 7 15, Flush, Pushed 7 13] @ [Flush]))) demo_unacked) (1, 7)
   in (11, demo_event) \<notin> set p \<and> (13, demo_event) \<notin> set p \<and> (15, demo_event) \<in> set p"
proof -
  let ?es = "[Pushed 7 12, Pushed 7 15, Flush, Pushed 7 13]"
  have r: "received ?es 7 = [12, 15, 13]" by (simp add: received_def)
  have "\<not> (\<exists>r \<ge> 12. r \<le> (13 :: int) \<and> r \<notin> {12, 15, 13})" by auto
  moreover have "\<exists>r \<ge> 12. r \<le> (15 :: int) \<and> r \<notin> {12, 15, 13}" by (intro exI [of _ 14]) simp
  ultimately show ?thesis
    unfolding Let_def batched_acks_cancel_received_runs [of _ 1 ?es] r by (simp add: demo_unacked_def)
qed

end
