(* ===== verification/Selftest.thy ===== *)
theory Selftest
  imports Tasks
begin

text \<open>
  The self test of the scheduler (\<open>cmd/yim-sched/selftest.go\<close>): it runs the registered tasks
  on rows it makes itself and looks at what became of them. The checks are functions on the state that the
  tasks share, built from the models of the tasks, and the lemmas say when they pass.
\<close>

subsection \<open>Running a task on all its shards\<close>

datatype check = Passed | Failed string | Crashed

record st_env =
  st_now :: int
  st_scan :: scan_env
  st_box :: box_env
  st_unread :: unread_env
  st_cleanup :: "nat \<Rightarrow> string option"
  st_client :: bool                        \<comment> \<open>whether there is a Redis client\<close>
  st_publish :: "string option"

type_synonym st_state = "deliverer \<times> string list"
  \<comment> \<open>with the messages on the channel of the rebuild signal\<close>

definition task_Exec :: "st_env \<Rightarrow> task \<Rightarrow> string \<Rightarrow> st_state \<Rightarrow> exec_result \<times> st_state" where
  \<comment> \<open>\<open>t.Exec(ctx, shard)\<close> of a registered task\<close>
  "task_Exec env t shard st =
     (case st of (d, ch) \<Rightarrow>
        if t = scan_task then (case scan_Exec (st_scan env) shard d of (r, d') \<Rightarrow> (r, d', ch))
        else if t = box_task then (case box_Exec (st_box env) shard d of (r, d') \<Rightarrow> (r, d', ch))
        else if t = unread_task then (case unread_Exec (st_unread env) shard d of (r, d') \<Rightarrow> (r, d', ch))
        else if t = cleanup_task then (case cleanup_Exec (st_cleanup env) (st_now env) shard d of (r, d') \<Rightarrow> (r, d', ch))
        else (case bloom_Exec (st_client env) (st_publish env) ch of (r, ch') \<Rightarrow> (r, d, ch')))"

fun exec_shards :: "(string \<Rightarrow> 's \<Rightarrow> exec_result \<times> 's) \<Rightarrow> string list \<Rightarrow> 's \<Rightarrow> check \<times> 's" where
  "exec_shards f [] s = (Passed, s)"
| "exec_shards f (sh # shs) s =
     (case f sh s of
        (ExecOk, s') \<Rightarrow> exec_shards f shs s'
      | (ExecErr e, s') \<Rightarrow> (Failed (''shard '' @ sh @ '': '' @ e), s')
      | (ExecPanic, s') \<Rightarrow> (Crashed, s'))"

definition execAllShards :: "st_env \<Rightarrow> task list \<Rightarrow> string \<Rightarrow> st_state \<Rightarrow> check \<times> st_state" where
  "execAllShards env ts name st =
     (case find (\<lambda>t. tk_name t = name) ts of
        None \<Rightarrow> (Failed (''task not registered: '' @ name), st)
      | Some t \<Rightarrow> exec_shards (task_Exec env t) (tk_shards t) st)"

record msgRef =
  mr_conv :: conv_id
  mr_msg :: int
  mr_db :: nat

fun pick_from :: "(MsgShard \<Rightarrow> string option) \<Rightarrow> msg_dbs \<Rightarrow> MsgShard list \<Rightarrow> string + msgRef" where
  "pick_from flt dbs [] = Inl ''no message rows in any shard''"
| "pick_from flt dbs (sh # shs) =
     (case flt sh of
        Some e \<Rightarrow> Inl e
      | None \<Rightarrow> (case msg_table dbs sh of
            [] \<Rightarrow> pick_from flt dbs shs
          | r # _ \<Rightarrow> Inr \<lparr>mr_conv = ms_conv r, mr_msg = ms_id r, mr_db = DBIndex sh\<rparr>))"

definition pickMessage :: "(MsgShard \<Rightarrow> string option) \<Rightarrow> msg_dbs \<Rightarrow> string + msgRef" where
  "pickMessage flt dbs = pick_from flt dbs AllMsgShards"

subsection \<open>The checks\<close>

definition day :: int where "day = 24 * 3600 * 1000"

definition check_box :: "st_env \<Rightarrow> task list \<Rightarrow> string option \<Rightarrow> msgRef \<Rightarrow> st_state \<Rightarrow> check \<times> st_state" where
  \<comment> \<open>an entry of a user who is never connected, eight days old, is closed; the fault is the seeding statement's\<close>
  "check_box env ts flt m st =
     (case st of (d, ch) \<Rightarrow>
      let r = \<lparr>ob_uid = 99999001, ob_conv = mr_conv m, ob_msg = 0, ob_seq = 1, ob_status = 0, ob_create = st_now env - 8 * day\<rparr>;
          t = offline_box (vdb d)
      in if flt \<noteq> None \<or> row_get ob_key t (ob_key r) \<noteq> None then (Failed ''seed'', st)
         else case execAllShards env ts ''offline-box-reconcile'' (d\<lparr>vdb := (vdb d)\<lparr>offline_box := t @ [r]\<rparr>\<rparr>, ch) of
             (Passed, d', ch') \<Rightarrow>
               (case find (\<lambda>x. ob_uid x = 99999001) (offline_box (vdb d')) of
                  None \<Rightarrow> Failed ''no rows'' | Some x \<Rightarrow> if ob_status x = 1 then Passed else Failed ''expired entry not closed'', d', ch')
           | other \<Rightarrow> other)"

definition check_unread :: "st_env \<Rightarrow> task list \<Rightarrow> msgRef \<Rightarrow> st_state \<Rightarrow> check \<times> st_state" where
  \<comment> \<open>\<open>last_seq\<close> put back by three catches up\<close>
  "check_unread env ts m st =
     (case st of (d, ch) \<Rightarrow>
      case row_get cv_id (conversations (vdb d)) (mr_conv m) of
        None \<Rightarrow> (Failed ''no conv row'', st)
      | Some r \<Rightarrow>
          (let orig = cv_last_seq r;
               cs = row_upd (\<lambda>x. cv_id x = mr_conv m) (\<lambda>x. x\<lparr>cv_last_seq := orig - 3\<rparr>) (conversations (vdb d))
           in case execAllShards env ts ''unread-reconcile'' (d\<lparr>vdb := (vdb d)\<lparr>conversations := cs\<rparr>\<rparr>, ch) of
                (Passed, d', ch') \<Rightarrow>
                  (case row_get cv_id (conversations (vdb d')) (mr_conv m) of
                     None \<Rightarrow> Failed ''no rows'' | Some x \<Rightarrow> if cv_last_seq x < orig then Failed ''reconcile did not catch up'' else Passed, d', ch')
              | other \<Rightarrow> other))"

definition check_bloom :: "st_env \<Rightarrow> task list \<Rightarrow> st_state \<Rightarrow> check \<times> st_state" where
  "check_bloom env ts st = execAllShards env ts ''bloom-rebuild'' st"

definition check_cleanup :: "st_env \<Rightarrow> task list \<Rightarrow> string option \<Rightarrow> msgRef \<Rightarrow> st_state \<Rightarrow> check \<times> st_state" where
  \<comment> \<open>a task that is done and eight days old is deleted\<close>
  "check_cleanup env ts flt m st =
     (case st of (d, ch) \<Rightarrow>
      let r = \<lparr>lm_id = 999001, lm_conv = mr_conv m, lm_status = 1, lm_create = st_now env - 8 * day\<rparr>;
          t = local_table (vshards d) (mr_db m)
      in if flt \<noteq> None \<or> row_get lm_key t (lm_key r) \<noteq> None then (Failed ''seed'', st)
         else case execAllShards env ts ''local-msg-cleanup'' (d\<lparr>vshards := set_local_table (mr_db m) (t @ [r]) (vshards d)\<rparr>, ch) of
             (Passed, d', ch') \<Rightarrow>
               (if \<exists>x \<in> set (local_table (vshards d') (mr_db m)). lm_key x = lm_key r then Failed ''row survived cleanup'' else Passed, d', ch')
           | other \<Rightarrow> other)"

lemma find_task:
  "find (\<lambda>t. tk_name t = ''local-msg-scan'') (yim_tasks b) = Some scan_task"
  "find (\<lambda>t. tk_name t = ''offline-box-reconcile'') (yim_tasks b) = Some box_task"
  "find (\<lambda>t. tk_name t = ''unread-reconcile'') (yim_tasks b) = Some unread_task"
  "find (\<lambda>t. tk_name t = ''local-msg-cleanup'') (yim_tasks b) = Some cleanup_task"
  "find (\<lambda>t. tk_name t = ''bloom-rebuild'') (yim_tasks b) = (if b then Some bloom_task else None)"
  by (simp_all add: yim_tasks_def scan_task_def box_task_def unread_task_def cleanup_task_def bloom_task_def)

lemma tasks_differ [simp]:
  "box_task \<noteq> scan_task" "unread_task \<noteq> scan_task" "cleanup_task \<noteq> scan_task" "bloom_task \<noteq> scan_task"
  "unread_task \<noteq> box_task" "cleanup_task \<noteq> box_task" "bloom_task \<noteq> box_task"
  "cleanup_task \<noteq> unread_task" "bloom_task \<noteq> unread_task" "bloom_task \<noteq> cleanup_task"
  by (simp_all add: scan_task_def box_task_def unread_task_def cleanup_task_def bloom_task_def)

lemma pick_from_message:
  "pick_from flt dbs shs = Inr m \<Longrightarrow> \<exists>sh \<in> set shs. DBIndex sh = mr_db m \<and>
     (\<exists>r \<in> set (msg_table dbs sh). ms_conv r = mr_conv m \<and> ms_id r = mr_msg m)"
  by (induction flt dbs shs rule: pick_from.induct) (auto split: option.splits list.splits)

lemma pickMessage_total:
  \<comment> \<open>it finds a message just when some shard has one\<close>
  "(\<exists>m. pickMessage (\<lambda>_. None) dbs = Inr m) \<longleftrightarrow> (\<exists>sh \<in> set AllMsgShards. msg_table dbs sh \<noteq> [])"
proof -
  have "(\<exists>m. pick_from (\<lambda>_. None) dbs shs = Inr m) \<longleftrightarrow> (\<exists>sh \<in> set shs. msg_table dbs sh \<noteq> [])" for shs
    by (induction shs) (auto split: list.splits)
  then show ?thesis by (simp add: pickMessage_def)
qed

subsection \<open>When they pass\<close>

lemma cleanup_shard:
  assumes "\<And>n. st_cleanup env n = None" "i < MsgDBCount"
  shows "\<exists>d'. task_Exec env cleanup_task (nat_str i) (d, ch) = (ExecOk, d', ch) \<and> (\<forall>j. local_table (vshards d') j =
    (if j = i then filter (\<lambda>x. \<not> finished (st_now env - offlineBoxTTL) x) (local_table (vshards d) j) else local_table (vshards d) j))"
proof -
  obtain r t where c: "cleanup_loop (st_cleanup env) (st_now env - offlineBoxTTL) 0 (local_table (vshards d) i) = (r, t)" by force
  have sc: "scan_int (nat_str i) = Some (int i)" using assms(2) by (intro scan_int_nat_str) (simp add: MsgDBCount_def)
  have "r = ExecOk" "t = filter (\<lambda>x. \<not> finished (st_now env - offlineBoxTTL) x) (local_table (vshards d) i)"
    using cleanup_loop_spec [OF c] assms(1) by auto
  then show ?thesis using assms(2) c sc by (simp add: task_Exec_def cleanup_Exec_def)
qed

lemma exec_cleanup:
  assumes "\<And>n. st_cleanup env n = None" "\<forall>i \<in> set is. i < MsgDBCount"
  shows "\<exists>d'. exec_shards (task_Exec env cleanup_task) (map nat_str is) (d, ch) = (Passed, d', ch) \<and> (\<forall>j. local_table (vshards d') j =
    (if j \<in> set is then filter (\<lambda>x. \<not> finished (st_now env - offlineBoxTTL) x) (local_table (vshards d) j) else local_table (vshards d) j))"
  using assms(2)
proof (induction "is" arbitrary: d)
  case (Cons i "is")
  obtain d1 where one: "task_Exec env cleanup_task (nat_str i) (d, ch) = (ExecOk, d1, ch)"
    "\<forall>j. local_table (vshards d1) j = (if j = i then filter (\<lambda>x. \<not> finished (st_now env - offlineBoxTTL) x) (local_table (vshards d) j) else local_table (vshards d) j)"
    using cleanup_shard [OF assms(1), of i d ch] Cons.prems by auto
  obtain d2 where rest: "exec_shards (task_Exec env cleanup_task) (map nat_str is) (d1, ch) = (Passed, d2, ch)"
    "\<forall>j. local_table (vshards d2) j = (if j \<in> set is then filter (\<lambda>x. \<not> finished (st_now env - offlineBoxTTL) x) (local_table (vshards d1) j) else local_table (vshards d1) j)"
    using Cons.IH [of d1] Cons.prems by (metis list.set_intros(2))
  show ?case using one rest by (intro exI [of _ d2]) auto
qed simp

text \<open>The check of the cleanup passes whenever no statement fails and its row is not there yet, and what else was in the table and is not finished stays.\<close>

lemma cleanup_check_passes:
  assumes "\<And>n. st_cleanup env n = None" "mr_db m < MsgDBCount"
    and "row_get lm_key (local_table (vshards d) (mr_db m)) (mr_conv m, 999001) = None"
  shows "\<exists>d'. check_cleanup env (yim_tasks b) None m (d, ch) = (Passed, d', ch) \<and>
    local_table (vshards d') (mr_db m) = filter (\<lambda>x. \<not> finished (st_now env - offlineBoxTTL) x) (local_table (vshards d) (mr_db m))"
proof -
  define r where "r = \<lparr>lm_id = 999001, lm_conv = mr_conv m, lm_status = 1, lm_create = st_now env - 8 * day\<rparr>"
  define d1 where "d1 = d\<lparr>vshards := set_local_table (mr_db m) (local_table (vshards d) (mr_db m) @ [r]) (vshards d)\<rparr>"
  have fin: "finished (st_now env - offlineBoxTTL) r" by (simp add: finished_def r_def day_def offlineBoxTTL_def)
  have new: "row_get lm_key (local_table (vshards d) (mr_db m)) (lm_key r) = None" using assms(3) by (simp add: r_def lm_key_def)
  obtain d' where run: "exec_shards (task_Exec env cleanup_task) (map nat_str [0..<MsgDBCount]) (d1, ch) = (Passed, d', ch)"
    "local_table (vshards d') (mr_db m) = filter (\<lambda>x. \<not> finished (st_now env - offlineBoxTTL) x) (local_table (vshards d1) (mr_db m))"
    using exec_cleanup [OF assms(1), of "[0..<MsgDBCount]" d1 ch] assms(2) by auto
  have t: "local_table (vshards d') (mr_db m) = filter (\<lambda>x. \<not> finished (st_now env - offlineBoxTTL) x) (local_table (vshards d) (mr_db m))"
    using run(2) fin by (simp add: d1_def)
  have gone: "\<not> (\<exists>x \<in> set (local_table (vshards d') (mr_db m)). lm_key x = lm_key r)"
    using new unfolding t row_get_None_iff by (auto simp: image_iff)
  have "execAllShards env (yim_tasks b) ''local-msg-cleanup'' (d1, ch) = (Passed, d', ch)"
    using run(1) by (simp add: execAllShards_def find_task) (simp add: cleanup_task_def dbShards_def)
  then show ?thesis using new gone t unfolding check_cleanup_def Let_def d1_def r_def by simp
qed

lemma bloom_check: "fst (check_bloom env (yim_tasks b) (d, ch)) = Passed \<longleftrightarrow> b \<and> st_client env \<and> st_publish env = None"
proof -
  have "tk_shards bloom_task = [''0'']" by (simp add: bloom_task_def)
  then show ?thesis
    by (simp add: check_bloom_def execAllShards_def find_task task_Exec_def bloom_Exec_def split: option.splits)
qed

text \<open>The last sequence numbers: a conversation among the first 500 of its bucket catches up, and none moves back.\<close>

definition rows_grown :: "conv_row list \<Rightarrow> conv_row list \<Rightarrow> bool" where
  "rows_grown = list_all2 (\<lambda>r r'. cv_id r' = cv_id r \<and> cv_last_seq r \<le> cv_last_seq r')"

lemma rows_grown_refl: "rows_grown t t"
  by (simp add: rows_grown_def list_all2_same)

lemma rows_grown_trans: "rows_grown t u \<Longrightarrow> rows_grown u v \<Longrightarrow> rows_grown t v"
  unfolding rows_grown_def by (rule list_all2_trans) auto

lemma rows_grown_ids: "rows_grown t u \<Longrightarrow> map cv_id u = map cv_id t"
  unfolding rows_grown_def by (induction rule: list_all2_induct) auto

lemma rows_grown_row: "rows_grown t u \<Longrightarrow> row_get cv_id t c = Some r \<Longrightarrow> \<exists>r'. row_get cv_id u c = Some r' \<and> cv_last_seq r \<le> cv_last_seq r'"
  unfolding rows_grown_def by (induction rule: list_all2_induct) (auto split: if_splits)

lemma bump_rows_grown: "rows_grown (conversations db) (conversations (bump_last_seq c v db))"
  by (auto simp: rows_grown_def bump_last_seq_def row_upd_def list_all2_map2 list_all2_same)

lemma bump_reaches: "row_get cv_id (conversations db) c = Some r \<Longrightarrow>
    \<exists>r'. row_get cv_id (conversations (bump_last_seq c v db)) c = Some r' \<and> v \<le> cv_last_seq r'"
  by (auto simp: bump_last_seq_def row_get_upd dest: row_get_SomeD)

lemma reconcile_grows:
  assumes "\<And>c. un_max env c = None" "\<And>c. un_update env c = None"
  shows "\<exists>d'. reconcile env rows d = (ExecOk, d') \<and> vshards d' = vshards d \<and> vslots d' = vslots d \<and>
     rows_grown (conversations (vdb d)) (conversations (vdb d'))"
proof (induction rows arbitrary: d)
  case Nil
  then show ?case by (simp add: rows_grown_refl)
next
  case (Cons x rows)
  obtain c l where x: "x = (c, l)" by force
  show ?case
  proof (cases "conv_max d c \<le> l")
    case True
    then show ?thesis using Cons [of d] by (simp add: x assms)
  next
    case False
    then show ?thesis using Cons [of "d\<lparr>vdb := bump_last_seq c (conv_max d c) (vdb d)\<rparr>"]
        rows_grown_trans [OF bump_rows_grown [of "vdb d" c "conv_max d c"]] by (auto simp: x assms)
  qed
qed

lemma reconcile_reaches:
  assumes "\<And>c. un_max env c = None" "\<And>c. un_update env c = None"
    and "(c, l) \<in> set rows" "row_get cv_id (conversations (vdb d)) c = Some r" "l \<le> cv_last_seq r"
  shows "\<exists>d' r'. reconcile env rows d = (ExecOk, d') \<and> row_get cv_id (conversations (vdb d')) c = Some r' \<and> conv_max d c \<le> cv_last_seq r'"
  using assms(3-5)
proof (induction rows arbitrary: d r)
  case (Cons x rows)
  obtain c1 l1 where x: "x = (c1, l1)" by force
  define d1 where "d1 = (if conv_max d c1 \<le> l1 then d else d\<lparr>vdb := bump_last_seq c1 (conv_max d c1) (vdb d)\<rparr>)"
  have step: "reconcile env (x # rows) d = reconcile env rows d1" by (simp add: x assms d1_def)
  have m: "conv_max d1 c = conv_max d c" by (simp add: d1_def)
  have g: "rows_grown (conversations (vdb d)) (conversations (vdb d1))" by (simp add: d1_def rows_grown_refl bump_rows_grown)
  obtain r1 where r1: "row_get cv_id (conversations (vdb d1)) c = Some r1" "cv_last_seq r \<le> cv_last_seq r1"
    using rows_grown_row [OF g Cons.prems(2)] by blast
  show ?case
  proof (cases "x = (c, l)")
    case True
    have "\<exists>r1. row_get cv_id (conversations (vdb d1)) c = Some r1 \<and> conv_max d c \<le> cv_last_seq r1"
      using Cons.prems(2,3) True bump_reaches [OF Cons.prems(2), of "conv_max d c"] by (auto simp: d1_def x)
    then obtain r2 where r2: "row_get cv_id (conversations (vdb d1)) c = Some r2" "conv_max d c \<le> cv_last_seq r2" by blast
    obtain d' where "reconcile env rows d1 = (ExecOk, d')" "rows_grown (conversations (vdb d1)) (conversations (vdb d'))"
      using reconcile_grows [OF assms(1,2)] by blast
    then show ?thesis unfolding step using rows_grown_row [OF _ r2(1)] r2(2) by (meson order_trans)
  next
    case False
    then show ?thesis using Cons.IH [OF _ r1(1)] Cons.prems r1 unfolding step m by auto
  qed
qed simp

definition in_batch :: "conv_id \<Rightarrow> conv_row list \<Rightarrow> bool" where
  "in_batch c t \<longleftrightarrow> c \<in> set (take 500 (filter (\<lambda>i. go_mod i 8 = go_mod c 8) (map cv_id t)))"

lemma in_batch_grown: "rows_grown t u \<Longrightarrow> in_batch c u = in_batch c t"
  by (simp add: in_batch_def rows_grown_ids)

definition reached :: "int \<Rightarrow> conv_id \<Rightarrow> conv_row list \<Rightarrow> bool" where
  "reached v c t \<longleftrightarrow> (\<exists>r. row_get cv_id t c = Some r \<and> v \<le> cv_last_seq r)"

lemma reached_grown: "rows_grown t u \<Longrightarrow> reached v c t \<Longrightarrow> reached v c u"
  unfolding reached_def using rows_grown_row by (meson order_trans)

lemma in_batch_row:
  assumes "in_batch c t" "pk_ok cv_id t" "go_mod c 8 = b"
  shows "\<exists>r. row_get cv_id t c = Some r \<and> (c, cv_last_seq r) \<in> set (unread_batch b t)"
proof -
  have "take 500 (filter (\<lambda>i. go_mod i 8 = b) (map cv_id t)) = map cv_id (take 500 (filter (\<lambda>r. go_mod (cv_id r) 8 = b) t))"
    by (simp add: filter_map take_map comp_def)
  then obtain r where r: "r \<in> set (take 500 (filter (\<lambda>r. go_mod (cv_id r) 8 = b) t))" "c = cv_id r"
    using assms(1,3) by (auto simp: in_batch_def)
  then have "r \<in> set t" by (meson filter_is_subset in_set_takeD subsetD)
  then have "row_get cv_id t c = Some r" using row_get_pk [OF assms(2)] r(2) by simp
  then show ?thesis using r by (auto simp: unread_batch_def)
qed

lemma unread_shard:
  assumes "un_query (st_unread env) = None" "\<And>c. un_max (st_unread env) c = None" "\<And>c. un_update (st_unread env) c = None"
    and "i < (8 :: nat)"
  shows "\<exists>d'. task_Exec env unread_task (nat_str i) (d, ch) = (ExecOk, d', ch) \<and> vshards d' = vshards d \<and> vslots d' = vslots d \<and>
     rows_grown (conversations (vdb d)) (conversations (vdb d')) \<and>
     (\<forall>c. pk_ok cv_id (conversations (vdb d)) \<longrightarrow> in_batch c (conversations (vdb d)) \<longrightarrow> go_mod c 8 = int i \<longrightarrow>
        reached (conv_max d c) c (conversations (vdb d')))"
proof -
  let ?t = "conversations (vdb d)" and ?rows = "unread_batch (int i) (conversations (vdb d))"
  obtain d' where d': "reconcile (st_unread env) ?rows d = (ExecOk, d')" "vshards d' = vshards d" "vslots d' = vslots d"
    "rows_grown ?t (conversations (vdb d'))" using reconcile_grows [OF assms(2,3)] by blast
  have "reached (conv_max d c) c (conversations (vdb d'))" if h: "pk_ok cv_id ?t" "in_batch c ?t" "go_mod c 8 = int i" for c
  proof -
    obtain r where r: "row_get cv_id ?t c = Some r" "(c, cv_last_seq r) \<in> set ?rows" using in_batch_row [OF h(2,1,3)] by blast
    show ?thesis using reconcile_reaches [OF assms(2,3) r(2,1)] d'(1) by (auto simp: reached_def)
  qed
  moreover have "scan_int (nat_str i) = Some (int i)" using assms(4) by (intro scan_int_nat_str) simp
  ultimately show ?thesis using d' assms(1) by (simp add: task_Exec_def unread_Exec_def)
qed

lemma exec_unread:
  assumes "un_query (st_unread env) = None" "\<And>c. un_max (st_unread env) c = None" "\<And>c. un_update (st_unread env) c = None"
    and "\<forall>i \<in> set is. i < (8 :: nat)" "pk_ok cv_id (conversations (vdb d))"
  shows "\<exists>d'. exec_shards (task_Exec env unread_task) (map nat_str is) (d, ch) = (Passed, d', ch) \<and>
     (\<forall>c. in_batch c (conversations (vdb d)) \<longrightarrow> go_mod c 8 \<in> int ` set is \<longrightarrow> reached (conv_max d c) c (conversations (vdb d'))) \<and>
     rows_grown (conversations (vdb d)) (conversations (vdb d'))"
  using assms(4,5)
proof (induction "is" arbitrary: d)
  case Nil
  then show ?case by (simp add: rows_grown_refl)
next
  case (Cons i "is")
  obtain d1 where one: "task_Exec env unread_task (nat_str i) (d, ch) = (ExecOk, d1, ch)" "vshards d1 = vshards d" "vslots d1 = vslots d"
    and g1: "rows_grown (conversations (vdb d)) (conversations (vdb d1))"
    and hit: "\<And>c. in_batch c (conversations (vdb d)) \<Longrightarrow> go_mod c 8 = int i \<Longrightarrow> reached (conv_max d c) c (conversations (vdb d1))"
    using unread_shard [OF assms(1-3), of i d ch] Cons.prems by (metis list.set_intros(1))
  have pk: "pk_ok cv_id (conversations (vdb d1))" using Cons.prems(2) rows_grown_ids [OF g1] by (simp add: pk_ok_def)
  have m: "conv_max d1 c = conv_max d c" for c using one(2,3) by (simp add: conv_max_def)
  obtain d2 where rest: "exec_shards (task_Exec env unread_task) (map nat_str is) (d1, ch) = (Passed, d2, ch)"
    and later: "\<And>c. in_batch c (conversations (vdb d1)) \<Longrightarrow> go_mod c 8 \<in> int ` set is \<Longrightarrow> reached (conv_max d c) c (conversations (vdb d2))"
    and g2: "rows_grown (conversations (vdb d1)) (conversations (vdb d2))"
    using Cons.IH [of d1] Cons.prems(1) pk by (auto simp: m)
  have "reached (conv_max d c) c (conversations (vdb d2))" if "in_batch c (conversations (vdb d))" "go_mod c 8 \<in> int ` set (i # is)" for c
    using that hit [of c] later [of c] reached_grown [OF g2] in_batch_grown [OF g1] by auto
  then show ?case using one(1) rest rows_grown_trans [OF g1 g2] by simp
qed

text \<open>The check passes for a conversation among the first 500 of its bucket whose \<open>last_seq\<close> is not ahead of its messages.\<close>

lemma unread_check_passes:
  assumes "un_query (st_unread env) = None" "\<And>c. un_max (st_unread env) c = None" "\<And>c. un_update (st_unread env) c = None"
    and pk: "pk_ok cv_id (conversations (vdb d))" and row: "row_get cv_id (conversations (vdb d)) (mr_conv m) = Some r"
    and first: "in_batch (mr_conv m) (conversations (vdb d))" and "0 \<le> mr_conv m" "cv_last_seq r \<le> conv_max d (mr_conv m)"
  shows "fst (check_unread env (yim_tasks b) m (d, ch)) = Passed"
proof -
  define c where "c = mr_conv m"
  define d1 where "d1 = d\<lparr>vdb := (vdb d)\<lparr>conversations :=
    row_upd (\<lambda>x. cv_id x = c) (\<lambda>x. x\<lparr>cv_last_seq := cv_last_seq r - 3\<rparr>) (conversations (vdb d))\<rparr>\<rparr>"
  have ids: "map cv_id (conversations (vdb d1)) = map cv_id (conversations (vdb d))" by (simp add: d1_def map_key_row_upd)
  have pk1: "pk_ok cv_id (conversations (vdb d1))" and b1: "in_batch c (conversations (vdb d1))"
    using pk first ids by (simp_all add: pk_ok_def in_batch_def c_def)
  have "go_mod c 8 = int (nat (c mod 8))" "nat (c mod 8) < 8" using assms(7) by (simp_all add: go_mod_def c_def)
  then have "go_mod c 8 \<in> int ` set [0..<8]" by (metis atLeastLessThan_iff image_eqI le0 set_upt)
  moreover obtain d' where run: "exec_shards (task_Exec env unread_task) (map nat_str [0..<8]) (d1, ch) = (Passed, d', ch)"
    "in_batch c (conversations (vdb d1)) \<Longrightarrow> go_mod c 8 \<in> int ` set [0..<8] \<Longrightarrow> reached (conv_max d1 c) c (conversations (vdb d'))"
    using exec_unread [OF assms(1-3) _ pk1, of "[0..<8]" ch] by auto
  ultimately obtain r' where r': "row_get cv_id (conversations (vdb d')) c = Some r'" "conv_max d c \<le> cv_last_seq r'"
    using b1 by (auto simp: reached_def d1_def)
  have "execAllShards env (yim_tasks b) ''unread-reconcile'' (d1, ch) = (Passed, d', ch)"
    using run(1) by (simp add: execAllShards_def find_task del: upt_Suc) (simp add: unread_task_def unread_Shards_def)
  then show ?thesis using row r' assms(8) by (simp add: check_unread_def Let_def d1_def c_def)
qed

text \<open>The offline box: the entry is closed when its bucket has room for it in one batch.\<close>

definition box_grown :: "offline_row list \<Rightarrow> offline_row list \<Rightarrow> bool" where
  "box_grown = list_all2 (\<lambda>r r'. r' = r \<or> ob_status r = 0 \<and> r' = r\<lparr>ob_status := 1\<rparr>)"

definition box_open :: "int \<Rightarrow> offline_row list \<Rightarrow> offline_row list" where
  "box_open b t = filter (\<lambda>r. ob_status r = 0 \<and> go_mod (ob_uid r) 16 = b) t"

definition open_only :: "offline_row \<Rightarrow> offline_row list \<Rightarrow> bool" where
  \<comment> \<open>among the rows with its key at most this one is open\<close>
  "open_only e t \<longleftrightarrow> (\<forall>r \<in> set t. ob_key r = ob_key e \<longrightarrow> ob_status r = 0 \<longrightarrow> r = e)"

definition none_open :: "offline_row \<Rightarrow> offline_row list \<Rightarrow> bool" where
  "none_open e t \<longleftrightarrow> (\<forall>r \<in> set t. ob_key r = ob_key e \<longrightarrow> ob_status r \<noteq> 0)"

lemma box_grown_refl: "box_grown t t"
  by (simp add: box_grown_def list_all2_same)

lemma box_grown_trans: "box_grown t u \<Longrightarrow> box_grown u v \<Longrightarrow> box_grown t v"
  unfolding box_grown_def by (rule list_all2_trans) auto

lemma box_grown_open: "box_grown t u \<Longrightarrow> length (box_open b u) \<le> length (box_open b t)"
  unfolding box_grown_def box_open_def by (induction rule: list_all2_induct) auto

lemma box_grown_find: "box_grown t u \<Longrightarrow> find (\<lambda>x. ob_uid x = v) t = Some r \<Longrightarrow>
    \<exists>r'. find (\<lambda>x. ob_uid x = v) u = Some r' \<and> (r' = r \<or> r' = r\<lparr>ob_status := 1\<rparr>)"
  unfolding box_grown_def by (induction rule: list_all2_induct) (auto split: if_splits)

lemma box_grown_none: "box_grown t u \<Longrightarrow> none_open e t \<Longrightarrow> none_open e u"
  unfolding box_grown_def none_open_def by (induction rule: list_all2_induct) (auto simp: ob_key_def)

lemma box_grown_only: "box_grown t u \<Longrightarrow> open_only e t \<Longrightarrow> open_only e u"
  unfolding box_grown_def open_only_def by (induction rule: list_all2_induct) (auto simp: ob_key_def)

lemma box_entry_grown: "box_grown (offline_box (vdb d)) (offline_box (vdb (box_entry env e d)))"
  using box_entry_rows [of env e d] unfolding closed_rows_def box_grown_def by (auto elim!: list_all2_mono)

lemma box_fold_grown: "box_grown (offline_box (vdb d)) (offline_box (vdb (fold (box_entry env) B d)))"
  by (induction B arbitrary: d) (auto intro: box_grown_refl box_grown_trans [OF box_entry_grown])

lemma box_fold_closes:
  "e \<in> set B \<Longrightarrow> box_expired (bx_now env) e \<Longrightarrow> bx_mark env e = None \<Longrightarrow> none_open e (offline_box (vdb (fold (box_entry env) B d)))"
proof (induction B arbitrary: d)
  case (Cons x B)
  show ?case
  proof (cases "x = e")
    case True
    then have "none_open e (offline_box (vdb (box_entry env x d)))"
      using Cons.prems by (auto simp: box_entry_def box_markDone_def none_open_def set_row_upd)
    then show ?thesis using box_grown_none [OF box_fold_grown] by simp
  qed (use Cons in simp)
qed simp

lemma box_shard:
  assumes "bx_query (st_box env) = None" "\<And>x. bx_mark (st_box env) x = None" "i < (16 :: nat)"
  shows "\<exists>d'. task_Exec env box_task (nat_str i) (d, ch) = (ExecOk, d', ch) \<and> box_grown (offline_box (vdb d)) (offline_box (vdb d')) \<and>
     (open_only e (offline_box (vdb d)) \<longrightarrow> go_mod (ob_uid e) 16 = int i \<longrightarrow> length (box_open (int i) (offline_box (vdb d))) \<le> scanBatch \<longrightarrow>
      box_expired (bx_now (st_box env)) e \<longrightarrow> none_open e (offline_box (vdb d')))"
proof -
  define B where "B = box_batch (int i) (offline_box (vdb d))"
  define d' where "d' = fold (box_entry (st_box env)) B d"
  have sc: "scan_int (nat_str i) = Some (int i)" using assms(3) by (intro scan_int_nat_str) simp
  have g: "box_grown (offline_box (vdb d)) (offline_box (vdb d'))" by (simp add: d'_def box_fold_grown)
  have "none_open e (offline_box (vdb d'))" if only: "open_only e (offline_box (vdb d))" and b: "go_mod (ob_uid e) 16 = int i"
    and len: "length (box_open (int i) (offline_box (vdb d))) \<le> scanBatch" and x: "box_expired (bx_now (st_box env)) e"
  proof (cases "e \<in> set (offline_box (vdb d)) \<and> ob_status e = 0")
    case True
    then have "e \<in> set B" using b len by (simp add: B_def box_batch_def box_open_def)
    then show ?thesis unfolding d'_def using x assms(2) by (intro box_fold_closes) simp_all
  next
    case False
    then have "none_open e (offline_box (vdb d))" using only by (auto simp: open_only_def none_open_def)
    then show ?thesis by (rule box_grown_none [OF g])
  qed
  then show ?thesis using sc g assms(1) unfolding d'_def B_def by (simp add: task_Exec_def box_Exec_def)
qed

lemma exec_box:
  assumes "bx_query (st_box env) = None" "\<And>x. bx_mark (st_box env) x = None" "\<forall>i \<in> set is. i < (16 :: nat)"
    and "open_only e (offline_box (vdb d))" "box_expired (bx_now (st_box env)) e"
    and "length (box_open (go_mod (ob_uid e) 16) (offline_box (vdb d))) \<le> scanBatch"
  shows "\<exists>d'. exec_shards (task_Exec env box_task) (map nat_str is) (d, ch) = (Passed, d', ch) \<and>
     box_grown (offline_box (vdb d)) (offline_box (vdb d')) \<and>
     (go_mod (ob_uid e) 16 \<in> int ` set is \<longrightarrow> none_open e (offline_box (vdb d')))"
  using assms(3,4,6)
proof (induction "is" arbitrary: d)
  case Nil
  then show ?case by (simp add: box_grown_refl)
next
  case (Cons i "is")
  obtain d1 where one: "task_Exec env box_task (nat_str i) (d, ch) = (ExecOk, d1, ch)"
    and g1: "box_grown (offline_box (vdb d)) (offline_box (vdb d1))"
    and hit: "go_mod (ob_uid e) 16 = int i \<Longrightarrow> none_open e (offline_box (vdb d1))"
    using box_shard [OF assms(1,2), of i d ch e] Cons.prems assms(5) by (metis list.set_intros(1))
  have "length (box_open (go_mod (ob_uid e) 16) (offline_box (vdb d1))) \<le> scanBatch"
    using box_grown_open [OF g1] Cons.prems(3) by (meson order_trans)
  then obtain d2 where rest: "exec_shards (task_Exec env box_task) (map nat_str is) (d1, ch) = (Passed, d2, ch)"
    and g2: "box_grown (offline_box (vdb d1)) (offline_box (vdb d2))"
    and later: "go_mod (ob_uid e) 16 \<in> int ` set is \<Longrightarrow> none_open e (offline_box (vdb d2))"
    using Cons.IH [of d1] Cons.prems(1) box_grown_only [OF g1 Cons.prems(2)] by auto
  show ?case using one rest box_grown_trans [OF g1 g2] later box_grown_none [OF g2 hit] by auto
qed

lemma box_check_passes:
  assumes "bx_query (st_box env) = None" "\<And>x. bx_mark (st_box env) x = None" "bx_now (st_box env) = st_now env"
    and new: "\<forall>x \<in> set (offline_box (vdb d)). ob_uid x \<noteq> 99999001" and room: "length (box_open 9 (offline_box (vdb d))) < scanBatch"
  shows "fst (check_box env (yim_tasks b) None m (d, ch)) = Passed"
proof -
  define r where "r = \<lparr>ob_uid = 99999001, ob_conv = mr_conv m, ob_msg = 0, ob_seq = 1, ob_status = 0, ob_create = st_now env - 8 * day\<rparr>"
  define d1 where "d1 = d\<lparr>vdb := (vdb d)\<lparr>offline_box := offline_box (vdb d) @ [r]\<rparr>\<rparr>"
  have bucket: "go_mod (ob_uid r) 16 = 9" by (simp add: r_def go_mod_def)
  have box: "offline_box (vdb d1) = offline_box (vdb d) @ [r]" by (simp add: d1_def)
  have "open_only r (offline_box (vdb d1))" using new by (auto simp: open_only_def box ob_key_def r_def)
  moreover have "box_expired (bx_now (st_box env)) r" by (simp add: box_expired_def assms(3) r_def day_def offlineBoxTTL_def)
  moreover have "length (box_open (go_mod (ob_uid r) 16) (offline_box (vdb d1))) \<le> scanBatch"
    using room unfolding bucket box by (simp add: box_open_def)
  ultimately obtain d' where run: "exec_shards (task_Exec env box_task) (map nat_str [0..<16]) (d1, ch) = (Passed, d', ch)"
    "box_grown (offline_box (vdb d1)) (offline_box (vdb d'))" "go_mod (ob_uid r) 16 \<in> int ` set [0..<16] \<longrightarrow> none_open r (offline_box (vdb d'))"
    using exec_box [OF assms(1,2), of "[0..<16]" r d1 ch] by auto
  have "go_mod (ob_uid r) 16 \<in> int ` set [0..<16]" unfolding bucket by (rule image_eqI [of _ _ 9]) simp_all
  then have closed: "none_open r (offline_box (vdb d'))" using run(3) by simp
  have "find (\<lambda>x. ob_uid x = 99999001) (offline_box (vdb d)) = None" using new by (auto simp: find_None_iff)
  moreover have "find p (xs @ [x]) = (case find p xs of None \<Rightarrow> if p x then Some x else None | Some y \<Rightarrow> Some y)" for p x and xs :: "offline_row list"
    by (induction xs) auto
  ultimately have "find (\<lambda>x. ob_uid x = 99999001) (offline_box (vdb d1)) = Some r" unfolding box by (simp add: r_def)
  from box_grown_find [OF run(2) this]
  obtain r' where r': "find (\<lambda>x. ob_uid x = 99999001) (offline_box (vdb d')) = Some r'" "r' = r \<or> r' = r\<lparr>ob_status := 1\<rparr>" by blast
  have "r' \<in> set (offline_box (vdb d'))" using r'(1) by (auto simp: find_Some_iff)
  then have "ob_status r' = 1" using closed r'(2) by (auto simp: none_open_def r_def ob_key_def)
  moreover have "execAllShards env (yim_tasks b) ''offline-box-reconcile'' (d1, ch) = (Passed, d', ch)"
    using run(1) by (simp add: execAllShards_def find_task del: upt_Suc) (simp add: box_task_def box_Shards_def)
  moreover have "row_get ob_key (offline_box (vdb d)) (ob_key r) = None" using new by (auto simp: row_get_None_iff ob_key_def r_def)
  ultimately show ?thesis using r'(1) unfolding check_box_def Let_def d1_def r_def by simp
qed

definition check_scan :: "st_env \<Rightarrow> task list \<Rightarrow> string faults \<Rightarrow> string option \<Rightarrow> msgRef \<Rightarrow> st_state \<Rightarrow> check \<times> st_state" where
  \<comment> \<open>a task three minutes old is redelivered and closed; the faults of the two seeding statements, and of the flush of
    the marks that happens while the check polls\<close>
  "check_scan env ts flt flushed m st =
     (case st of (d, ch) \<Rightarrow>
      let k = (mr_conv m, mr_msg m);
          r = \<lparr>lm_id = mr_msg m, lm_conv = mr_conv m, lm_status = 0, lm_create = st_now env - 3 * 60 * 1000\<rparr>;
          t = row_del (\<lambda>x. lm_key x = k) (local_table (vshards d) (mr_db m))
      in if flt ''delete'' \<noteq> None then (Failed ''delete'', st)
         else if flt ''insert'' \<noteq> None then (Failed ''seed'', d\<lparr>vshards := set_local_table (mr_db m) t (vshards d)\<rparr>, ch)
         else case execAllShards env ts ''local-msg-scan'' (d\<lparr>vshards := set_local_table (mr_db m) (t @ [r]) (vshards d)\<rparr>, ch) of
             (Passed, d1, ch') \<Rightarrow>
               (let d' = flush_marks (mr_db m, flushed) d1
                in (case row_get lm_key (local_table (vshards d') (mr_db m)) k of
                      None \<Rightarrow> Failed ''row vanished''
                    | Some x \<Rightarrow> if lm_status x = 1 then Passed else Failed ''scan did not close the loop'', d', ch'))
           | other \<Rightarrow> other)"

lemma scan_shard:
  assumes "healthy (st_scan env)" "i < MsgDBCount" "coherent (vcache d) (vdb d)"
    and "\<forall>l \<in> set (overdue (sn_now (st_scan env)) (local_table (vshards d) i)). scannable i (lm_key l) d"
  shows "\<exists>d'. task_Exec env scan_task (nat_str i) (d, ch) = (ExecOk, d', ch) \<and>
    redelivery i (set (leftovers (sn_now (st_scan env)) (local_table (vshards d) i))) d d'"
proof -
  let ?ks = "leftovers (sn_now (st_scan env)) (local_table (vshards d) i)"
  have "\<forall>k \<in> set ?ks. scannable i k d" using assms(4) by (auto simp: leftovers_overdue take_map dest: in_set_takeD)
  then have "redelivery i (set ?ks) d (fold (redeliverOne (st_scan env) i) ?ks d)" by (rule redeliver_all [OF assms(1,3)])
  moreover have "sn_query (st_scan env) = None" using assms(1) by (simp add: healthy_def)
  moreover have "scan_int (nat_str i) = Some (int i)" using assms(2) by (intro scan_int_nat_str) (simp add: MsgDBCount_def)
  ultimately show ?thesis using assms(2) by (simp add: task_Exec_def scan_Exec_def)
qed

definition closing :: "int \<Rightarrow> nat \<Rightarrow> deliverer \<Rightarrow> deliverer \<Rightarrow> bool" where
  \<comment> \<open>in the second state the batch of leftovers of the first is closed or marked\<close>
  "closing now i d d' \<longleftrightarrow> (\<exists>js. local_table (vshards d') i = mark_done js (local_table (vshards d) i) \<and>
     set (leftovers now (local_table (vshards d) i)) \<subseteq> set js \<union> marked i d')"

lemma exec_scan:
  assumes "healthy (st_scan env)" "\<forall>i \<in> set is. i < MsgDBCount" "distinct is" "coherent (vcache d) (vdb d)"
    and "\<forall>i \<in> set is. \<forall>l \<in> set (overdue (sn_now (st_scan env)) (local_table (vshards d) i)). scannable i (lm_key l) d"
  shows "\<exists>d'. exec_shards (task_Exec env scan_task) (map nat_str is) (d, ch) = (Passed, d', ch) \<and>
    (\<forall>j. j \<notin> set is \<longrightarrow> marked j d' = marked j d \<and> local_table (vshards d') j = local_table (vshards d) j) \<and>
    (\<forall>i \<in> set is. closing (sn_now (st_scan env)) i d d')"
  using assms(2-5)
proof (induction "is" arbitrary: d)
  case (Cons i "is")
  let ?now = "sn_now (st_scan env)"
  have i: "i < MsgDBCount" "i \<notin> set is"
    "\<forall>l \<in> set (overdue ?now (local_table (vshards d) i)). scannable i (lm_key l) d" using Cons.prems by simp_all
  from scan_shard [OF assms(1) i(1) Cons.prems(3) i(3), of ch]
  obtain d1 where one: "task_Exec env scan_task (nat_str i) (d, ch) = (ExecOk, d1, ch)"
    and R: "redelivery i (set (leftovers ?now (local_table (vshards d) i))) d d1" by blast
  note D = redeliveryD [OF R]
  have "\<forall>j \<in> set is. \<forall>l \<in> set (overdue ?now (local_table (vshards d1) j)). scannable j (lm_key l) d1"
  proof (intro ballI)
    fix j l assume j: "j \<in> set is" and l: "l \<in> set (overdue ?now (local_table (vshards d1) j))"
    have "j \<noteq> i" using j i(2) by blast
    then show "scannable j (lm_key l) d1" using l D(8) [of j] j Cons.prems(4) by (simp add: scannable_base [OF D(1)])
  qed
  then obtain d2 where rest: "exec_shards (task_Exec env scan_task) (map nat_str is) (d1, ch) = (Passed, d2, ch)"
    and other: "\<And>j. j \<notin> set is \<Longrightarrow> marked j d2 = marked j d1 \<and> local_table (vshards d2) j = local_table (vshards d1) j"
    and later: "\<And>j. j \<in> set is \<Longrightarrow> closing ?now j d1 d2"
    using Cons.IH [of d1] Cons.prems(1,2) D(2) by auto
  have "closing ?now i d d2" using D(9) other [OF i(2)] by (auto simp: closing_def)
  moreover have "closing ?now j d d2" if j: "j \<in> set is" for j
  proof -
    have "j \<noteq> i" using j i(2) by blast
    then show ?thesis using later [OF j] D(8) by (simp add: closing_def)
  qed
  moreover have "marked j d2 = marked j d \<and> local_table (vshards d2) j = local_table (vshards d) j" if "j \<notin> set (i # is)" for j
    using that other [of j] D(7,8) [of j] by simp
  ultimately show ?case using one rest by auto
qed simp

lemma scan_check_passes:
  assumes "healthy (st_scan env)" "sn_now (st_scan env) = st_now env" "coherent (vcache d) (vdb d)" "mr_db m < MsgDBCount"
    and ok: "\<forall>i < MsgDBCount. \<forall>l \<in> set (overdue (st_now env) (local_table (vshards d) i)). scannable i (lm_key l) d"
    and k: "scannable (mr_db m) (mr_conv m, mr_msg m) d"
    and room: "length (overdue (st_now env) (local_table (vshards d) (mr_db m))) < scanBatch"
  shows "fst (check_scan env (yim_tasks b) no_fault None m (d, ch)) = Passed"
proof -
  define key where "key = (mr_conv m, mr_msg m)"
  define r where "r = \<lparr>lm_id = mr_msg m, lm_conv = mr_conv m, lm_status = 0, lm_create = st_now env - 3 * 60 * 1000\<rparr>"
  define t where "t = row_del (\<lambda>x. lm_key x = key) (local_table (vshards d) (mr_db m))"
  define d1 where "d1 = d\<lparr>vshards := set_local_table (mr_db m) (t @ [r]) (vshards d)\<rparr>"
  have rk: "lm_key r = key" by (simp add: r_def key_def lm_key_def)
  have base: "same_base d d1" by (simp add: same_base_def d1_def)
  have tab: "local_table (vshards d1) j = (if j = mr_db m then t @ [r] else local_table (vshards d) j)" for j by (simp add: d1_def)
  have od: "overdue (st_now env) (t @ [r]) = overdue (st_now env) t @ [r]" by (simp add: overdue_def r_def scanGrace_def)
  have sub: "overdue (st_now env) t = filter (\<lambda>x. lm_key x \<noteq> key) (overdue (st_now env) (local_table (vshards d) (mr_db m)))"
    by (simp add: t_def overdue_def row_del_def conj_commute)
  have "scannable i (lm_key l) d1" if "i < MsgDBCount" "l \<in> set (overdue (st_now env) (local_table (vshards d1) i))" for i l
    using that ok k by (auto simp: scannable_base [OF base] tab od sub rk key_def split: if_splits)
  then obtain d2 where run: "exec_shards (task_Exec env scan_task) (map nat_str [0..<MsgDBCount]) (d1, ch) = (Passed, d2, ch)"
    and cl: "closing (st_now env) (mr_db m) d1 d2"
    using exec_scan [OF assms(1), of "[0..<MsgDBCount]" d1 ch] assms(2-4) by (auto simp: d1_def)
  have "length (overdue (st_now env) t) < scanBatch" using room unfolding sub by (meson le_less_trans length_filter_le)
  then have "key \<in> set (leftovers (st_now env) (t @ [r]))" using rk by (simp add: leftovers_overdue od)
  then obtain js where js: "local_table (vshards d2) (mr_db m) = mark_done js (t @ [r])" "key \<in> set js \<union> marked (mr_db m) d2"
    using cl by (auto simp: closing_def tab)
  define d3 where "d3 = flush_marks (mr_db m, None) d2"
  have "local_table (vshards d3) (mr_db m) = mark_done (js @ map fst (b_buf (vmarks d2 (mr_db m)))) (t @ [r])"
    by (simp add: d3_def flush_marks_def mark_flush_def swap_out_def Let_def js(1) mark_done_append mark_done_Nil)
  moreover have "row_get lm_key (t @ [r]) key = Some r"
    using rk by (simp add: row_get_append t_def table_simps)
  ultimately obtain x where x: "row_get lm_key (local_table (vshards d3) (mr_db m)) key = Some x" "lm_status x = 1"
    using js(2) rk by (auto simp: mark_done_def row_get_upd lm_key_def image_iff r_def)
  have "execAllShards env (yim_tasks b) ''local-msg-scan'' (d1, ch) = (Passed, d2, ch)"
    using run by (simp add: execAllShards_def find_task) (simp add: scan_task_def dbShards_def)
  then show ?thesis using x unfolding check_scan_def Let_def d3_def d1_def t_def r_def key_def by simp
qed

subsection \<open>The whole self test\<close>

fun run_checks :: "(st_state \<Rightarrow> check \<times> st_state) list \<Rightarrow> st_state \<Rightarrow> check list \<times> st_state" where
  \<comment> \<open>in order; a crash ends the process\<close>
  "run_checks [] st = ([], st)"
| "run_checks (c # cs) st =
     (case c st of (r, st1) \<Rightarrow>
        if r = Crashed then ([r], st1) else (case run_checks cs st1 of (rs, st2) \<Rightarrow> (r # rs, st2)))"

record st_faults =
  sf_pick :: "MsgShard \<Rightarrow> string option"
  sf_seed :: "string faults"             \<comment> \<open>the statements of the first check\<close>
  sf_flush :: "string option"
  sf_box :: "string option"
  sf_cleanup :: "string option"
  sf_delete :: "string option"           \<comment> \<open>the deferred removal of the offline box row\<close>

definition drop_box_row :: "string option \<Rightarrow> st_state \<Rightarrow> st_state" where
  "drop_box_row f st = (case st of (d, ch) \<Rightarrow>
     if f \<noteq> None then st else (d\<lparr>vdb := (vdb d)\<lparr>offline_box := row_del (\<lambda>r. ob_uid r = 99999001) (offline_box (vdb d))\<rparr>\<rparr>, ch))"

definition runSelftest :: "st_env \<Rightarrow> task list \<Rightarrow> st_faults \<Rightarrow> st_state \<Rightarrow> check list option \<times> st_state" where
  \<comment> \<open>\<open>None\<close>: skipped, for want of a message; the removal is registered once the row of the second check is there\<close>
  "runSelftest env ts sf st =
     (case pickMessage (sf_pick sf) (vshards (fst st)) of
        Inl _ \<Rightarrow> (None, st)
      | Inr m \<Rightarrow>
          (case run_checks [check_scan env ts (sf_seed sf) (sf_flush sf) m, check_box env ts (sf_box sf) m, check_unread env ts m,
                            check_bloom env ts, check_cleanup env ts (sf_cleanup sf) m] st of
             (rs, st') \<Rightarrow> (Some rs, if length rs < 2 \<or> rs ! 1 = Failed ''seed'' then st' else drop_box_row (sf_delete sf) st')))"

lemma run_checks_count: "Crashed \<notin> set (fst (run_checks cs st)) \<Longrightarrow> length (fst (run_checks cs st)) = length cs"
proof (induction cs arbitrary: st)
  case (Cons c cs)
  obtain r st1 where c: "c st = (r, st1)" by (cases "c st")
  show ?case using Cons.IH [of st1] Cons.prems by (auto simp: c split: prod.splits if_splits)
qed simp

lemma task_never_crashes:
  \<comment> \<open>the registered shards are good numbers, so no task panics on them\<close>
  assumes "t \<in> set (yim_tasks b)" "sh \<in> set (tk_shards t)"
  shows "fst (task_Exec env t sh st) \<noteq> ExecPanic"
proof -
  obtain d ch where st: "st = (d, ch)" by force
  consider "t = scan_task \<or> t = cleanup_task" "sh \<in> set dbShards" | "t = box_task" | "t = unread_task" | "t = bloom_task"
    using assms by (auto simp: yim_tasks_def scan_task_def cleanup_task_def split: if_splits)
  then show ?thesis
  proof cases
    case 1
    then obtain i where i: "sh = nat_str i" "i < MsgDBCount" by (auto simp: dbShards_def)
    then have "scan_int sh = Some (int i)" using scan_int_nat_str [of i] by (simp add: MsgDBCount_def)
    moreover have "cleanup_loop f c n x = (r, y) \<Longrightarrow> r \<noteq> ExecPanic" for f c n x r y using cleanup_loop_spec by blast
    ultimately show ?thesis using 1(1)
      by (auto simp: st task_Exec_def scan_Exec_def cleanup_Exec_def tasks_differ [symmetric] split: option.splits prod.splits)
  next
    case 2
    then show ?thesis by (auto simp: st task_Exec_def box_Exec_def split: option.splits prod.splits)
  next
    case 3
    have "reconcile e rows x = (r, y) \<Longrightarrow> r \<noteq> ExecPanic" for e rows x r y
      by (induction e rows x rule: reconcile.induct) (auto split: if_splits)
    then show ?thesis using 3 by (auto simp: st task_Exec_def unread_Exec_def split: option.splits prod.splits)
  next
    case 4
    then show ?thesis by (auto simp: st task_Exec_def bloom_Exec_def split: option.splits prod.splits)
  qed
qed

end
