(* ===== verification/Spec2Isabelle.thy ===== *)
theory Spec2Isabelle
  imports SeqConc BloomConc TimeWheel MessageRpc Accounts Sched Files Kafka Tasks Routes Retry SendConc Startup RelConc Bench Selftest
begin

text \<open>
  YIM is an instant messaging system made of Go services that share MySQL databases and Redis and
  talk over RPC, Kafka and Redis channels. This development models the services' own code as
  executable functions over explicit states, and proves what each part and their compositions
  guarantee. Paths are relative to the root of the repository.

  \<^bold>\<open>The system.\<close> A client registers, logs in and posts over HTTP at the gateway (\<open>cmd/yimd\<close>), which
  authenticates the token and forwards calls to the login, message and relation services. It also
  keeps a connection to a connection server (\<open>cmd/yim-comet\<close>), over which it sends messages,
  acknowledgements and synchronisation requests in frames, and gets notifications. The message
  service (\<open>cmd/yim-message\<close>) stores a message and its delivery task in the message database that
  the conversation is routed to, with numbers from the sequence service (\<open>cmd/yim-seq\<close>), and sends
  a push event to Kafka. Job services (\<open>cmd/yim-job\<close>) fan an event out to the members: a call to the
  connection servers the route cache names, a broadcast if that fails, retries until the
  acknowledgement arrives, at last a row in the offline box. The scheduler (\<open>cmd/yim-sched\<close>) runs
  background tasks: it redelivers what was left over, pushes the offline box, corrects
  sequence numbers and cleans up. The relation service (\<open>cmd/yim-relation\<close>) keeps friendships,
  groups and profiles and publishes events for the connection servers.

  \<^bold>\<open>Theories and sources.\<close>
  \<^item> \<open>Prelude\<close>: SQL tables as lists of rows and the statements on them, faults, the string functions
    of the standard library that the code calls. \<open>Schema\<close>: the tables of \<open>scripts/schema.sql\<close>
    with their keys. \<open>Cache\<close>: \<open>internal/cache/cache.go\<close> and \<open>ephemeral.go\<close>, Redis with deadlines.
  \<^item> \<open>Sharding\<close> (\<open>internal/store/sharding.go\<close>), \<open>SeqAlloc\<close> and \<open>SeqConc\<close> (\<open>internal/seq/allocator.go\<close>,
    sequential and interleaved), \<open>HashRing\<close> (\<open>internal/hashring\<close>), \<open>Bloom\<close> and \<open>BloomConc\<close> (\<open>internal/cache/bloom.go\<close>, whole
    operations, and every load and store interleaved),
    \<open>TimeWheel\<close> (\<open>internal/timewheel\<close>): the building blocks.
  \<^item> \<open>MsgAlloc\<close>, \<open>Batchers\<close>, \<open>Like\<close>, \<open>Message\<close>, \<open>MessageSafety\<close>, \<open>Conversations\<close>, \<open>ConvSafety\<close>: the
    message service (\<open>internal/message/service.go\<close>, \<open>revoke.go\<close>, \<open>conversations.go\<close>, \<open>history.go\<close>,
    \<open>sync.go\<close>, \<open>search.go\<close>, \<open>readstate.go\<close>, \<open>seq_client.go\<close>). \<open>MessageRpc\<close>: its handler
    (\<open>cmd/yim-message/handler.go\<close>) and its composition with the gateway and the connection servers.
    \<open>SendConc\<close>: sends that run at the same time.
  \<^item> \<open>Profile\<close>, \<open>Friend\<close>, \<open>Group\<close>, \<open>RelationRpc\<close>: the relation service (\<open>internal/relation\<close>).
    \<open>RelConc\<close>: its calls at the same time, split where they read what they later rely on.
  \<^item> \<open>Delivery\<close>, \<open>DeliverySafety\<close>, \<open>Kafka\<close>: the deliverer, push client, route cache, in-process queue,
    Kafka producers and consumer (\<open>internal/message/delivery.go\<close>, \<open>comet_cluster.go\<close>,
    \<open>route_cache.go\<close>, \<open>kafka.go\<close>, \<open>cmd/yim-job/main.go\<close>). \<open>Compensation\<close>: the background tasks
    (\<open>internal/message/compensation.go\<close>). \<open>Sched\<close>: \<open>internal/sched/sched.go\<close>.
  \<^item> \<open>Frame\<close>, \<open>Comet\<close>, \<open>CometSafety\<close>: the wire protocol and the connection server (\<open>internal/comet\<close>).
  \<^item> \<open>Tokens\<close>, \<open>Accounts\<close>, \<open>Gateway\<close>, \<open>GatewaySafety\<close>, \<open>Files\<close>, \<open>Config\<close>: tokens, accounts, the HTTP
    gateway, uploaded images with the gateway of all routes, the configuration.
  \<^item> Compositions: \<open>Pipeline\<close> (message service, Kafka, job services and scheduler as one step
    relation), \<open>Backlog\<close> and \<open>Tasks\<close> (the scheduler running the scan on the deliverer), \<open>Notify\<close> (the
    deliverer with the connection servers at the other end of the call), \<open>Routes\<close> (the route cache
    with Redis and its channel), \<open>Retry\<close> (handlers behind a repeating RPC client,
    \<open>internal/kitexcfg/kitexcfg.go\<close>, attempts in sequence and, for the send, overlapping), \<open>Startup\<close> (the \<open>main\<close> functions of \<open>cmd/\<close> with
    \<open>internal/store\<close>: which parts a process is made of, from the environment variables and what can be
    opened).
  \<^item> Tools: \<open>Bench\<close> (\<open>cmd/yim-bench/main.go\<close>: the client that acknowledges in batches, with the deliverer at
    the other end; its measurements, pacing and preparation), \<open>Selftest\<close> (\<open>cmd/yim-sched/selftest.go\<close>: the checks
    of the background tasks).

  \<^bold>\<open>How code becomes definitions.\<close> A Go struct is a record, a constant set a datatype, a method a
  function from arguments, environment and state to its result and the new state. A fallible
  function returns \<open>error + value\<close> (\<open>Inl\<close> is the error) or an optional error. Everything the code
  does not decide is in an environment record that is an argument: the clock, which statement,
  commit or command fails (and whether it took effect before it failed), the reply of another
  service. A critical section or statement is one step; where other goroutines can come in between,
  the operation is split into its halves (\<open>retry_begin\<close>/\<open>retry_end\<close>, \<open>connect_begin\<close>/\<open>connect_end\<close>,
  \<open>drain_begin\<close>/\<open>drain_end\<close>, \<open>send_begin\<close>/\<open>send_finish\<close>, \<open>add_load_cur\<close>/\<open>add_load_building\<close>) and the runs are inductive
  relations over all interleavings (\<open>msg_run\<close>, \<open>send_conc\<close>, \<open>call_run\<close>, \<open>bloom_conc\<close>, \<open>group_conc\<close>, \<open>friend_conc\<close>, \<open>dstep\<close>, \<open>comet_run\<close>, \<open>sched_run\<close>, \<open>sstep\<close>,
  \<open>pipe_step\<close>). Integers whose wrap-around matters are words or written out with it; the others
  are \<open>int\<close>. Strings are lists of bytes.

  \<^bold>\<open>What is proved.\<close> Storage: the message tables stay consistent under any failures and any interleaving of sends; a send, also one
  that the RPC client repeats while earlier attempts are in progress, stores at most one message, and
  success means it is stored, under the conditions that its mark in Redis needs (they are real: see the
  lemmas below). Paging and synchronising return the stored messages, exactly. Delivery: a
  waiting push has a retry and ends acknowledged or, unless the database refuses the row, in the
  offline box; so does every member in a delivery; a stored message whose delivery task is closed went through a completed fan-out, whatever the
  processes did; the scheduled scan closes every overdue task; an online member gets the frame and
  nobody else does. Connections: the index, pushes and frames act for the authenticated user.
  Access: tokens, gateway and services let a request act only as its token's user. Relations:
  friendships and groups keep their invariants, also with calls interleaved, and refine their specifications; for friendships that is the documented
  state machine, and the two situations in which the code leaves it are part of the statement. Building blocks: numbers
  are unique and monotone, the filter has no false negatives but for the two races its theorem names, the wheel loses no task, codecs round-trip.
  Processes: a start ends in the state its invariants begin with, Redis is never a reason not to start,
  and with the same variables the processes agree on who delivers and on the key of the tokens.
  Tools: batched acknowledgements cancel exactly the runs of numbers received, each message measured has one
  sample, and the self test of the scheduler passes under the conditions its lemmas name.
  The text before each theorem says what it states; a \<open>_witness\<close> lemma applies it to a concrete state.
  Lemmas without a claim that show an unwanted behaviour have the explanation beside them, among them
  \<open>early_answer_loses_message\<close>, \<open>concurrent_addition_lost\<close>, \<open>concurrent_removal_undone\<close>, \<open>unseeded_entry_hides_device\<close>, \<open>scheduler_push_ignores_acks\<close>, \<open>repeated_register_is_refused\<close>,
  \<open>seeding_acknowledges_unreceived\<close>, \<open>repushed_is_not_acknowledged\<close>, \<open>bloom_bit_lost\<close>, \<open>bloom_add_lost_in_swap\<close>,
  \<open>recent_page_repeats_message\<close>, \<open>recent_page_skips_message\<close>, \<open>overflow_paged_backward_misses\<close>,
  \<open>failed_box_write_is_marked_done\<close>, \<open>broken_write_poisons_image\<close>.

  \<^bold>\<open>Interfaces.\<close> \<open>keyed_rows\<close> (\<open>Prelude\<close>): upserts on a table with a key, interpreted for the tables of
  \<open>Schema\<close>. \<open>range_source\<close> (\<open>SeqAlloc\<close>): what a client relies on of a source of number ranges, interpreted
  for the pool of allocators. \<open>batcher\<close> (\<open>Batchers\<close>): a write-behind buffer is never left with
  entries and no flush to come, interpreted for the three buffers. \<open>conn_index\<close> (\<open>Comet\<close>): the index of
  connections, interpreted for the keeper with its buckets. Message shards are a linear order.

  \<^bold>\<open>Bounds and fuel.\<close> \<open>NextN\<close> takes a bound on its loop, and two rounds are shown to be enough whatever
  the database does. The climb of the timing wheel and the read loop of a connection take fuel:
  \<open>climb_total\<close> shows enough for the former, and the read loop uses one unit for each frame it
  handles. All other loops are structural or have a termination proof. The limits are those of
  the code: pages of at most 100, scans of 500, write-behind batches of 32 and 64, retries after 1, 4 and 16
  seconds, marks for 24 hours, routes for 60 seconds, tasks and offline rows for seven days
  (604800000 ms). Reading a frame asks its stream for at most 65544 bytes, whatever the stream; the stream of
  \<open>stream_windows.go\<close> then holds at most 69640 bytes of a connection.

  \<^bold>\<open>Parameters.\<close> Code outside the repository is an argument: bcrypt, HMAC-SHA256, SHA-1, the JSON and
  protobuf codecs, the HTTP router, the Kafka balancer, the MySQL collation. Where a theorem needs
  more than that they are functions, the law is a named hypothesis (\<open>codec_ok\<close>, \<open>reads_back\<close>,
  \<open>net_ok\<close>), and its witness instantiates it. The repetition of calls is the documented behaviour of the RPC
  library: an attempt that timed out or did not get through is made again, up to the configured number. A
  transaction's writes are one step, and a plain SELECT in it reads a snapshot, as MySQL documents for its default
  isolation.

  \<^bold>\<open>History.\<close> \<open>pw_log\<close> of \<open>Pipeline\<close>, \<open>sx_done\<close> of \<open>Sched\<close>, \<open>push_log\<close> of \<open>Delivery\<close> and the logs of
  \<open>Comet\<close> record what was done and are not read by the modelled code.

  \<^bold>\<open>Not modelled.\<close> \<open>kitex_gen\<close> is generated. Of the main functions the shutdown is
  left out (deferred closes, and \<open>Drain\<close>, which \<open>Comet\<close> has as an operation), as are the wiring of hooks
  and HTTP routes, which is in \<open>onOffline\<close> and \<open>Gateway\<close>. Tracing and logging have no effect on the modelled
  state. The self tests of the gateway and of
  the connection server and the event probe are scripts that call a running system and compare the answers; of the
  benchmark client the dialling, the heartbeat and the printed text are left out. \<open>stream_netpoll.go\<close> forwards to the netpoll library, so what is buffered for a connection there is not
  bounded here; the connection server of \<open>Comet\<close> runs on the stream of \<open>stream_windows.go\<close>. The clients kept
  per address in \<open>comet_cluster.go\<close> only forward. The counter \<open>FiredCount\<close> of the timing wheel is a metric. etcd, Kafka, Redis and MySQL are environment. Contexts
  with a deadline are seen as a statement or call that fails.
  A send is interleaved with others at one point, between its checks with the mark and its transaction
  (\<open>SendConc\<close>); the commands before that point are one step. Attempts of other calls than the send are taken one after the other. Calls of the relation service are interleaved in
  \<open>RelConc\<close>; the other handlers run one at a time.
\<close>

end
